(* ===== verification/SF_Prelude.thy ===== *)
theory SF_Prelude
  imports Main "HOL-Library.Word"
begin

unbundle bit_operations_syntax

text \<open>
  Shared vocabulary of the SmallFW development: the machine integers of the C code, the
  named collections the component proofs draw on, and generic facts about words, lists and
  index ranges that more than one component uses.  All of it is for an LP64 target
  (\<open>sizeof(void *) = sizeof(long) = sizeof(size_t) = 8\<close>).
\<close>

section \<open>Machine types\<close>

type_synonym u8 = "8 word"
type_synonym u16 = "16 word"
type_synonym u32 = "32 word"
type_synonym u64 = "64 word"

text \<open>A pointer is its 64-bit address; the null pointer is address 0.\<close>

type_synonym addr = u64

abbreviation nullptr :: addr where
  "nullptr \<equiv> 0"

abbreviation UINT32_MAX :: u32 where
  "UINT32_MAX \<equiv> 0xFFFFFFFF"

text \<open>\<open>sizeof(void *)\<close>, also \<open>sizeof(long)\<close> and \<open>sizeof(size_t)\<close>.\<close>

abbreviation sizeof_ptr :: u64 where
  "sizeof_ptr \<equiv> 8"

section \<open>Collections used by the component proofs\<close>

named_theorems flag_simps \<open>reads of a packed field after a write of the same or another field\<close>
named_theorems table_simps \<open>reads of a table after one of its operations\<close>
named_theorems heap_simps \<open>header and group accessors on updated heaps\<close>
named_theorems scan_intros \<open>progress of the scanners over encoded strings and byte streams\<close>

section \<open>Words\<close>

lemma word_xor_right_cancel: "(a :: 'a::len word) XOR b = c XOR b \<Longrightarrow> a = c"
  by (metis xor.assoc xor_self_eq xor.right_neutral)

lemma word_xor_left_cancel: "(b :: 'a::len word) XOR a = b XOR c \<Longrightarrow> a = c"
  by (metis xor.assoc xor_self_eq xor.left_neutral)

lemma xorshift_self_inverse:
  fixes v :: u64
  assumes "32 \<le> n"
  shows "(v XOR drop_bit n v) XOR drop_bit n (v XOR drop_bit n v) = v"
proof (rule bit_word_eqI)
  fix i :: nat
  assume "i < LENGTH(64)"
  with assms have "\<not> bit v (i + n + n)"
    using bit_imp_le_length[of v "i + n + n"] by fastforce
  then show "bit ((v XOR drop_bit n v) XOR drop_bit n (v XOR drop_bit n v)) i = bit v i"
    by (auto simp: bit_simps ac_simps)
qed

lemma word_mult_inverse_cancel:
  fixes c d x y :: u64
  assumes "c * d = 1" "x * c = y * c"
  shows "x = y"
proof -
  have "x * (c * d) = y * (c * d)"
    using assms(2) by (simp flip: mult.assoc)
  with assms(1) show ?thesis by simp
qed

lemma unat_and_mask: "unat ((w :: u64) AND mask n) = unat w mod 2 ^ n"
  by (simp flip: take_bit_eq_mask take_bit_eq_mod add: unsigned_take_bit_eq)

lemma unat_of_nat_u64: "n < 2 ^ 64 \<Longrightarrow> unat (of_nat n :: u64) = n"
  by (simp add: unat_of_nat)

lemma unat_and_not_mask: "unat ((w :: u64) AND NOT (mask k)) = unat w div 2 ^ k * 2 ^ k"
proof -
  have "(w AND NOT (mask k)) AND (w AND mask k) = 0"
    by (rule bit_word_eqI) (auto simp: bit_simps)
  then have "(w AND NOT (mask k)) + (w AND mask k) = (w AND NOT (mask k)) OR (w AND mask k)"
    by (rule disjunctive_add_eq_or)
  also have "\<dots> = w"
    by (rule bit_word_eqI) (auto simp: bit_simps)
  finally have "w AND NOT (mask k) = w - (w AND mask k)" by (simp add: algebra_simps)
  moreover have "w AND mask k \<le> w" by (simp add: word_le_nat_alt unat_and_mask)
  ultimately have "unat (w AND NOT (mask k)) = unat w - unat w mod 2 ^ k"
    by (simp add: unat_sub unat_and_mask)
  then show ?thesis by (simp add: minus_mod_eq_div_mult)
qed

text \<open>Rounding up to a multiple of a power of two, as \<open>(value + mask) & ~mask\<close>.\<close>

lemma unat_round_up:
  assumes "unat (x :: u64) + (2 ^ k - 1) < 2 ^ 64" "k \<le> 64"
  shows "unat ((x + mask k) AND NOT (mask k)) = (unat x + (2 ^ k - 1)) div 2 ^ k * 2 ^ k"
proof -
  have "unat (mask k :: u64) = 2 ^ k - 1"
  proof -
    have "2 ^ k - 1 < (2 :: nat) ^ 64" using power_increasing [OF assms(2), of "2 :: nat"] by simp
    moreover have "(mask k :: u64) = of_nat (2 ^ k - 1)" by (simp add: mask_eq_exp_minus_1 of_nat_diff)
    ultimately show ?thesis by (simp add: unat_of_nat_u64 del: of_nat_diff)
  qed
  with assms(1) have "unat (x + mask k) = unat x + (2 ^ k - 1)"
    by (simp add: unat_word_ariths)
  then show ?thesis by (simp add: unat_and_not_mask)
qed

section \<open>Lists\<close>

lemma dropWhile_suffix_length: "length (dropWhile P xs) \<le> length xs"
  by (rule length_dropWhile_le)

text \<open>A loop over a list of items that carries a state and may fault.\<close>

fun fold_state :: "('i \<Rightarrow> 's \<Rightarrow> 's option) \<Rightarrow> 'i list \<Rightarrow> 's \<Rightarrow> 's option" where
  "fold_state f [] s = Some s"
| "fold_state f (x # xs) s = Option.bind (f x s) (fold_state f xs)"

lemma fold_state_invariant:
  assumes "fold_state f xs s = Some s'" "P s" "\<And>x s s'. x \<in> set xs \<Longrightarrow> P s \<Longrightarrow> f x s = Some s' \<Longrightarrow> P s'"
  shows "P s'"
  using assms
proof (induction xs arbitrary: s)
  case (Cons x xs)
  from Cons.prems(1) obtain s1 where s1: "f x s = Some s1" "fold_state f xs s1 = Some s'"
    by (auto simp: bind_eq_Some_conv)
  from Cons.prems(3) [OF _ Cons.prems(2) s1(1)] have "P s1" by simp
  from Cons.IH [OF s1(2) this] Cons.prems(3) show ?case by (meson list.set_intros(2))
qed simp

lemma fold_state_cong_inv:
  assumes "\<And>x s. x \<in> set xs \<Longrightarrow> P s \<Longrightarrow> f x s = g x s" "P s"
    and "\<And>x s s'. x \<in> set xs \<Longrightarrow> P s \<Longrightarrow> f x s = Some s' \<Longrightarrow> P s'"
  shows "fold_state f xs s = fold_state g xs s"
  using assms
proof (induction xs arbitrary: s)
  case (Cons x xs)
  have eq: "g x s = f x s" using Cons.prems(1) [of x s] Cons.prems(2) by simp
  have "fold_state f xs s' = fold_state g xs s'" if "f x s = Some s'" for s'
  proof (rule Cons.IH)
    show "P s'" using Cons.prems(3) [OF _ Cons.prems(2) that] by simp
  qed (use Cons.prems(1,3) in \<open>meson list.set_intros(2)\<close>)+
  with eq show ?case by (cases "f x s") auto
qed simp

lemma nth_list_update_case:
  "i < length xs \<Longrightarrow> xs[i := v] ! j = (if j = i then v else xs ! j)"
  by (auto simp: nth_list_update)

section \<open>Linked lists\<close>

text \<open>The cells from \<open>p\<close> up to but not including \<open>q\<close>, where \<open>nxt\<close> reads the link of a cell and is
  \<open>None\<close> where there is no cell.  A list that ends in the null pointer is a segment up to it.\<close>

fun segment :: "(addr \<Rightarrow> addr option) \<Rightarrow> addr \<Rightarrow> addr list \<Rightarrow> addr \<Rightarrow> bool" where
  "segment nxt p [] q \<longleftrightarrow> p = q"
| "segment nxt p (a # as) q \<longleftrightarrow> p = a \<and> a \<noteq> nullptr
     \<and> (case nxt a of None \<Rightarrow> False | Some r \<Rightarrow> segment nxt r as q)"

lemma segment_append:
  "segment nxt p (as @ bs) q \<longleftrightarrow> (\<exists>r. segment nxt p as r \<and> segment nxt r bs q)"
  by (induction as arbitrary: p) (auto split: option.splits)

lemma segment_cong:
  assumes "\<And>a. a \<in> set as \<Longrightarrow> nxt' a = nxt a"
  shows "segment nxt' p as q = segment nxt p as q"
  using assms by (induction as arbitrary: p) (auto split: option.splits)

lemma segment_update [simp]: "u \<notin> set as \<Longrightarrow> segment (nxt(u := v)) p as q = segment nxt p as q"
  by (rule segment_cong) auto

lemma segment_nonnull: "segment nxt p as q \<Longrightarrow> nullptr \<notin> set as"
  by (induction as arbitrary: p) (auto split: option.splits)

lemma segment_mapped: "segment nxt p as q \<Longrightarrow> a \<in> set as \<Longrightarrow> nxt a \<noteq> None"
  by (induction as arbitrary: p) (auto split: option.splits)

lemma segment_null [simp]: "segment nxt nullptr as nullptr \<longleftrightarrow> as = []"
  by (cases as) auto

end
