(* ===== verification/SF_Abi.thy ===== *)
theory SF_Abi
  imports SF_Prelude
begin

unbundle bit_operations_syntax

text \<open>
  The object header of \<open>Runtime/src/abi.h\<close> in the non-compact build with validation
  (\<open>SF_RUNTIME_COMPACT_HEADERS = 0\<close>, \<open>SF_RUNTIME_VALIDATION = 1\<close>,
  \<open>SF_RUNTIME_GENERIC_METADATA = 0\<close>), and its packed \<open>flags\<close> word: object flags in
  bits 0--7, auxiliary flags in bits 8--15, the live cookie in bits 16--23 and the class
  flags in bits 24--31.  The accessors take a header option: \<open>None\<close> is the null pointer.
\<close>

section \<open>The header\<close>

record SFObjHeader =
  magic :: u64
  live_next :: addr
  refcount :: u32
  state :: u32
  flags :: u32
  alloc_size :: u32
  reserved :: u32
  allocator :: addr
  parent :: addr
  group :: addr
  group_next :: addr

text \<open>\<open>sizeof(SFObjHeader_t)\<close> for that layout: two 8-byte words, five 4-byte words and
  their padding, four 8-byte words.\<close>

definition sizeof_SFObjHeader :: u64 where
  "sizeof_SFObjHeader = 72"

definition SF_OBJ_HEADER_MAGIC :: u64 where
  "SF_OBJ_HEADER_MAGIC = 0x53464f424a484452"

definition SF_OBJ_STATE_DISPOSED :: u32 where "SF_OBJ_STATE_DISPOSED = 0"
definition SF_OBJ_STATE_LIVE :: u32 where "SF_OBJ_STATE_LIVE = 1"

definition SF_OBJ_FLAG_NONE :: u32 where "SF_OBJ_FLAG_NONE = 0"
definition SF_OBJ_FLAG_IMMORTAL :: u32 where "SF_OBJ_FLAG_IMMORTAL = 1"
definition SF_OBJ_FLAG_EMBEDDED :: u32 where "SF_OBJ_FLAG_EMBEDDED = 2"
definition SF_OBJ_FLAG_HAS_COLD :: u32 where "SF_OBJ_FLAG_HAS_COLD = 4"
definition SF_OBJ_FLAG_INLINE_VALUE :: u32 where "SF_OBJ_FLAG_INLINE_VALUE = 8"

definition SF_OBJ_CLASS_FLAG_TRIVIAL_RELEASE :: u32 where "SF_OBJ_CLASS_FLAG_TRIVIAL_RELEASE = 1"
definition SF_OBJ_CLASS_FLAG_HAS_OBJECT_IVARS :: u32 where "SF_OBJ_CLASS_FLAG_HAS_OBJECT_IVARS = 2"
definition SF_OBJ_CLASS_FLAG_HAS_CXX_DESTRUCT :: u32 where "SF_OBJ_CLASS_FLAG_HAS_CXX_DESTRUCT = 4"
definition SF_OBJ_CLASS_FLAG_VALUE_OBJECT :: u32 where "SF_OBJ_CLASS_FLAG_VALUE_OBJECT = 8"

definition SF_OBJ_AUX_FLAG_HAS_EXCEPTION_METADATA :: u32 where
  "SF_OBJ_AUX_FLAG_HAS_EXCEPTION_METADATA = 1"
definition SF_OBJ_AUX_FLAG_GROUP_DEAD :: u32 where "SF_OBJ_AUX_FLAG_GROUP_DEAD = 2"

definition SF_OBJ_FLAG_PACKED_MASK :: u32 where "SF_OBJ_FLAG_PACKED_MASK = 0x000000FF"
definition SF_OBJ_AUX_FLAGS_MASK :: u32 where "SF_OBJ_AUX_FLAGS_MASK = 0x0000FF00"
definition SF_OBJ_COOKIE_MASK :: u32 where "SF_OBJ_COOKIE_MASK = 0x00FF0000"
definition SF_OBJ_CLASS_FLAGS_MASK :: u32 where "SF_OBJ_CLASS_FLAGS_MASK = 0xFF000000"
definition SF_OBJ_HEADER_COOKIE_LIVE :: u32 where "SF_OBJ_HEADER_COOKIE_LIVE = 0xA5"

lemmas abi_consts =
  SF_OBJ_STATE_DISPOSED_def SF_OBJ_STATE_LIVE_def SF_OBJ_FLAG_NONE_def SF_OBJ_FLAG_IMMORTAL_def
  SF_OBJ_FLAG_EMBEDDED_def SF_OBJ_FLAG_HAS_COLD_def SF_OBJ_FLAG_INLINE_VALUE_def
  SF_OBJ_CLASS_FLAG_TRIVIAL_RELEASE_def SF_OBJ_CLASS_FLAG_HAS_OBJECT_IVARS_def
  SF_OBJ_CLASS_FLAG_HAS_CXX_DESTRUCT_def SF_OBJ_CLASS_FLAG_VALUE_OBJECT_def
  SF_OBJ_AUX_FLAG_HAS_EXCEPTION_METADATA_def SF_OBJ_AUX_FLAG_GROUP_DEAD_def
  SF_OBJ_FLAG_PACKED_MASK_def SF_OBJ_AUX_FLAGS_MASK_def SF_OBJ_COOKIE_MASK_def
  SF_OBJ_CLASS_FLAGS_MASK_def SF_OBJ_HEADER_COOKIE_LIVE_def

section \<open>Packed flag accessors\<close>

definition sf_header_aux_flags :: "SFObjHeader option \<Rightarrow> u32" where
  "sf_header_aux_flags hdr = (case hdr of None \<Rightarrow> 0
     | Some h \<Rightarrow> drop_bit 8 (flags h AND SF_OBJ_AUX_FLAGS_MASK))"

definition sf_header_set_aux_flags :: "SFObjHeader option \<Rightarrow> u32 \<Rightarrow> SFObjHeader option" where
  "sf_header_set_aux_flags hdr aux = (case hdr of None \<Rightarrow> None
     | Some h \<Rightarrow> Some (h\<lparr>flags := (flags h AND NOT SF_OBJ_AUX_FLAGS_MASK)
                                 OR (push_bit 8 aux AND SF_OBJ_AUX_FLAGS_MASK)\<rparr>))"

definition sf_header_or_aux_flags :: "SFObjHeader option \<Rightarrow> u32 \<Rightarrow> SFObjHeader option" where
  "sf_header_or_aux_flags hdr aux = sf_header_set_aux_flags hdr (sf_header_aux_flags hdr OR aux)"

definition sf_header_clear_aux_flags :: "SFObjHeader option \<Rightarrow> u32 \<Rightarrow> SFObjHeader option" where
  "sf_header_clear_aux_flags hdr aux = sf_header_set_aux_flags hdr (sf_header_aux_flags hdr AND NOT aux)"

definition sf_header_has_aux_flag :: "SFObjHeader option \<Rightarrow> u32 \<Rightarrow> bool" where
  "sf_header_has_aux_flag hdr aux \<longleftrightarrow> sf_header_aux_flags hdr AND aux \<noteq> 0"

definition sf_header_set_live_cookie :: "SFObjHeader option \<Rightarrow> SFObjHeader option" where
  "sf_header_set_live_cookie hdr = (case hdr of None \<Rightarrow> None
     | Some h \<Rightarrow> Some (h\<lparr>flags := (flags h AND NOT SF_OBJ_COOKIE_MASK)
                                 OR push_bit 16 SF_OBJ_HEADER_COOKIE_LIVE\<rparr>))"

definition sf_header_clear_live_cookie :: "SFObjHeader option \<Rightarrow> SFObjHeader option" where
  "sf_header_clear_live_cookie hdr = (case hdr of None \<Rightarrow> None
     | Some h \<Rightarrow> Some (h\<lparr>flags := flags h AND NOT SF_OBJ_COOKIE_MASK\<rparr>))"

definition sf_header_has_live_cookie :: "SFObjHeader option \<Rightarrow> bool" where
  "sf_header_has_live_cookie hdr \<longleftrightarrow> (case hdr of None \<Rightarrow> False
     | Some h \<Rightarrow> drop_bit 16 (flags h AND SF_OBJ_COOKIE_MASK) = SF_OBJ_HEADER_COOKIE_LIVE)"

definition sf_header_class_flags :: "SFObjHeader option \<Rightarrow> u32" where
  "sf_header_class_flags hdr = (case hdr of None \<Rightarrow> 0
     | Some h \<Rightarrow> drop_bit 24 (flags h AND SF_OBJ_CLASS_FLAGS_MASK))"

definition sf_header_set_class_flags :: "SFObjHeader option \<Rightarrow> u32 \<Rightarrow> SFObjHeader option" where
  "sf_header_set_class_flags hdr cf = (case hdr of None \<Rightarrow> None
     | Some h \<Rightarrow> Some (h\<lparr>flags := (flags h AND NOT SF_OBJ_CLASS_FLAGS_MASK)
                                 OR (push_bit 24 cf AND SF_OBJ_CLASS_FLAGS_MASK)\<rparr>))"

text \<open>The object flags proper (\<open>hdr->flags & SF_OBJ_FLAG_X\<close> in the code).\<close>

definition object_flags :: "SFObjHeader \<Rightarrow> u32" where
  "object_flags h = flags h AND SF_OBJ_FLAG_PACKED_MASK"

lemmas flag_defs =
  sf_header_aux_flags_def sf_header_set_aux_flags_def sf_header_or_aux_flags_def
  sf_header_clear_aux_flags_def sf_header_has_aux_flag_def sf_header_set_live_cookie_def
  sf_header_clear_live_cookie_def sf_header_has_live_cookie_def sf_header_class_flags_def
  sf_header_set_class_flags_def object_flags_def

section \<open>Reading back what was written\<close>

text \<open>The field masks as shifted runs of ones, the form in which single bits are read off.\<close>

lemma flag_masks:
  "SF_OBJ_FLAG_PACKED_MASK = mask 8"
  "SF_OBJ_AUX_FLAGS_MASK = push_bit 8 (mask 8)"
  "SF_OBJ_COOKIE_MASK = push_bit 16 (mask 8)"
  "SF_OBJ_CLASS_FLAGS_MASK = push_bit 24 (mask 8)"
  "SF_OBJ_HEADER_COOKIE_LIVE = take_bit 8 SF_OBJ_HEADER_COOKIE_LIVE"
  by (simp_all add: abi_consts mask_eq_exp_minus_1)

lemmas flag_bits = flag_defs flag_masks(1-4)

lemma cookie_live_bit: "bit SF_OBJ_HEADER_COOKIE_LIVE n \<Longrightarrow> n < 8"
  by (subst (asm) flag_masks(5)) (simp add: bit_simps)

lemma aux_flags_set_aux [flag_simps]:
  "sf_header_aux_flags (sf_header_set_aux_flags (Some h) x) = take_bit 8 x"
  by (rule bit_word_eqI) (auto simp: flag_bits bit_simps)

lemma class_flags_set_class [flag_simps]:
  "sf_header_class_flags (sf_header_set_class_flags (Some h) x) = take_bit 8 x"
  by (rule bit_word_eqI) (auto simp: flag_bits bit_simps)

lemma class_flags_set_aux [flag_simps]:
  "sf_header_class_flags (sf_header_set_aux_flags hdr x) = sf_header_class_flags hdr"
  by (cases hdr; rule bit_word_eqI) (auto simp: flag_bits bit_simps)

lemma aux_flags_set_class [flag_simps]:
  "sf_header_aux_flags (sf_header_set_class_flags hdr x) = sf_header_aux_flags hdr"
  by (cases hdr; rule bit_word_eqI) (auto simp: flag_bits bit_simps)

lemma cookie_field_set [flag_simps]:
  "sf_header_has_live_cookie (sf_header_set_live_cookie (Some h))"
proof -
  have "drop_bit 16 ((flags h AND NOT SF_OBJ_COOKIE_MASK OR push_bit 16 SF_OBJ_HEADER_COOKIE_LIVE)
          AND SF_OBJ_COOKIE_MASK) = SF_OBJ_HEADER_COOKIE_LIVE"
    by (rule bit_word_eqI) (auto simp: flag_masks(3) bit_simps dest: cookie_live_bit)
  then show ?thesis
    by (simp add: flag_defs)
qed

lemma and_not_and: "((x :: u32) AND NOT m) AND m = 0"
  by (rule bit_word_eqI) (auto simp: bit_simps)

lemma cookie_field_clear [flag_simps]:
  "\<not> sf_header_has_live_cookie (sf_header_clear_live_cookie hdr)"
  by (cases hdr)
    (simp_all add: flag_defs SF_OBJ_HEADER_COOKIE_LIVE_def and_not_and del: drop_bit_and)

lemma aux_flags_set_cookie [flag_simps]:
  "sf_header_aux_flags (sf_header_set_live_cookie hdr) = sf_header_aux_flags hdr"
  by (cases hdr; rule bit_word_eqI) (auto simp: flag_bits bit_simps)

lemma class_flags_set_cookie [flag_simps]:
  "sf_header_class_flags (sf_header_set_live_cookie hdr) = sf_header_class_flags hdr"
  by (cases hdr; rule bit_word_eqI) (auto simp: flag_bits bit_simps dest: cookie_live_bit)

lemma aux_flags_clear_cookie [flag_simps]:
  "sf_header_aux_flags (sf_header_clear_live_cookie hdr) = sf_header_aux_flags hdr"
  by (cases hdr; rule bit_word_eqI) (auto simp: flag_bits bit_simps)

lemma class_flags_clear_cookie [flag_simps]:
  "sf_header_class_flags (sf_header_clear_live_cookie hdr) = sf_header_class_flags hdr"
  by (cases hdr; rule bit_word_eqI) (auto simp: flag_bits bit_simps)

lemma has_cookie_set_aux [flag_simps]:
  "sf_header_has_live_cookie (sf_header_set_aux_flags hdr x) = sf_header_has_live_cookie hdr"
proof (cases hdr)
  case (Some h)
  have "drop_bit 16 ((flags h AND NOT SF_OBJ_AUX_FLAGS_MASK OR push_bit 8 x AND SF_OBJ_AUX_FLAGS_MASK)
          AND SF_OBJ_COOKIE_MASK) = drop_bit 16 (flags h AND SF_OBJ_COOKIE_MASK)"
    by (rule bit_word_eqI) (auto simp: flag_masks bit_simps)
  with Some show ?thesis by (simp add: flag_defs)
qed (simp add: flag_defs)

lemma has_cookie_set_class [flag_simps]:
  "sf_header_has_live_cookie (sf_header_set_class_flags hdr x) = sf_header_has_live_cookie hdr"
proof (cases hdr)
  case (Some h)
  have "drop_bit 16 ((flags h AND NOT SF_OBJ_CLASS_FLAGS_MASK OR push_bit 24 x AND SF_OBJ_CLASS_FLAGS_MASK)
          AND SF_OBJ_COOKIE_MASK) = drop_bit 16 (flags h AND SF_OBJ_COOKIE_MASK)"
    by (rule bit_word_eqI) (auto simp: flag_masks bit_simps)
  with Some show ?thesis by (simp add: flag_defs)
qed (simp add: flag_defs)

text \<open>The object flags (low byte) are out of reach of all three packed fields, so a test of
  one of them (\<open>hdr->flags & SF_OBJ_FLAG_X\<close>) is not disturbed.\<close>

lemma object_flags_set_aux [flag_simps]:
  "map_option object_flags (sf_header_set_aux_flags hdr x) = map_option object_flags hdr"
  by (cases hdr) (auto intro!: bit_word_eqI simp: flag_bits bit_simps)

lemma object_flags_set_class [flag_simps]:
  "map_option object_flags (sf_header_set_class_flags hdr x) = map_option object_flags hdr"
  by (cases hdr) (auto intro!: bit_word_eqI simp: flag_bits bit_simps)

lemma object_flags_set_cookie [flag_simps]:
  "map_option object_flags (sf_header_set_live_cookie hdr) = map_option object_flags hdr"
  by (cases hdr) (auto intro!: bit_word_eqI simp: flag_bits bit_simps)

lemma object_flags_clear_cookie [flag_simps]:
  "map_option object_flags (sf_header_clear_live_cookie hdr) = map_option object_flags hdr"
  by (cases hdr) (auto intro!: bit_word_eqI simp: flag_bits bit_simps)

lemma aux_or_flag [flag_simps]:
  "sf_header_aux_flags (sf_header_or_aux_flags (Some h) x)
     = sf_header_aux_flags (Some h) OR take_bit 8 x"
  by (rule bit_word_eqI) (auto simp: flag_bits bit_simps)

lemma aux_clear_flag [flag_simps]:
  "sf_header_aux_flags (sf_header_clear_aux_flags (Some h) x)
     = sf_header_aux_flags (Some h) AND NOT x"
  by (rule bit_word_eqI) (auto simp: flag_bits bit_simps)

text \<open>the packed flag word behaves as four independent fields.  Whatever the header holds,
  a write of the auxiliary flags, of the class flags or of the live cookie reads back as the
  written byte, leaves the other two fields as they were and leaves the object flags
  (immortal, embedded) as they were.\<close>

theorem header_fields_independent:
  "sf_header_aux_flags (sf_header_set_aux_flags (Some h) x) = take_bit 8 x
   \<and> sf_header_class_flags (sf_header_set_class_flags (Some h) y) = take_bit 8 y
   \<and> sf_header_has_live_cookie (sf_header_set_live_cookie (Some h))
   \<and> \<not> sf_header_has_live_cookie (sf_header_clear_live_cookie (Some h))
   \<and> sf_header_aux_flags (sf_header_set_class_flags (sf_header_set_live_cookie (Some h)) y)
       = sf_header_aux_flags (Some h)
   \<and> sf_header_class_flags (sf_header_set_aux_flags (sf_header_clear_live_cookie (Some h)) x)
       = sf_header_class_flags (Some h)
   \<and> sf_header_has_live_cookie (sf_header_set_aux_flags (sf_header_set_class_flags (Some h) y) x)
       = sf_header_has_live_cookie (Some h)
   \<and> map_option object_flags
       (sf_header_set_aux_flags (sf_header_set_class_flags (sf_header_set_live_cookie (Some h)) y) x)
       = Some (object_flags h)"
  by (simp add: flag_simps)

end
