(* ===== verification/SF_Header.thy ===== *)
theory SF_Header
  imports SF_Abi "HOL-Library.Monad_Syntax"
begin

unbundle bit_operations_syntax

text \<open>
  Object headers in memory and the accessors of \<open>Runtime/src/object-header.c\<close>, in the
  non-compact, single-threaded build.  There a heap object that becomes the root of a group
  keeps the group's state in its own header: the tag \<open>root | 1\<close> in \<open>group\<close>, the head of the
  member list in \<open>parent\<close> and the number of live members in \<open>reserved\<close>.  Only an embedded object
  gets a separate \<open>SFGroupState\<close>.

  Memory is typed: headers, group states and pointer-sized words are partial maps by address,
  and an access outside them is a fault.  An accessor returns \<open>None\<close> for a fault and \<open>Some\<close> of its
  result otherwise; one that writes returns the changed state with it.
\<close>

section \<open>State\<close>

record SFGroupState =
  g_root :: addr
  g_head :: addr
  group_live_count :: u64
  g_dead :: u32

text \<open>The state of the object runtime.  \<open>o_callocs\<close> holds the results of the coming calls of
  \<open>sf_runtime_test_calloc\<close> (\<open>nullptr\<close> for a failure, also when it has run out) and \<open>o_allocs\<close> those
  of the allocators; \<open>o_frees\<close> records the calls of the \<open>free\<close> functions of the allocators, the latest
  first.  \<open>o_buckets\<close> is \<open>g_live_object_buckets\<close> and
  \<open>o_default_allocator\<close> the address \<open>sf_default_allocator\<close> returns.\<close>

record objects =
  o_hdrs :: "addr \<rightharpoonup> SFObjHeader"
  o_groups :: "addr \<rightharpoonup> SFGroupState"
  o_words :: "addr \<rightharpoonup> addr"
  o_buckets :: "nat \<Rightarrow> addr"
  o_callocs :: "addr list"
  o_allocs :: "addr list"
  o_frees :: "(addr \<times> addr \<times> u64) list"
  o_default_allocator :: addr
  g_last_header_obj :: addr
  g_last_header_ptr :: addr

definition write_hdr :: "objects \<Rightarrow> addr \<Rightarrow> (SFObjHeader \<Rightarrow> SFObjHeader) \<Rightarrow> objects option" where
  "write_hdr st p f = map_option (\<lambda>h. st\<lparr>o_hdrs := (o_hdrs st)(p \<mapsto> f h)\<rparr>) (o_hdrs st p)"

definition write_group :: "objects \<Rightarrow> addr \<Rightarrow> (SFGroupState \<Rightarrow> SFGroupState) \<Rightarrow> objects option" where
  "write_group st p f = map_option (\<lambda>g. st\<lparr>o_groups := (o_groups st)(p \<mapsto> f g)\<rparr>) (o_groups st p)"

text \<open>The flag accessors of \<open>abi.h\<close> on a header in memory.\<close>

definition write_flags :: "objects \<Rightarrow> addr \<Rightarrow> (SFObjHeader option \<Rightarrow> SFObjHeader option) \<Rightarrow> objects option" where
  "write_flags st p f =
     (if p = nullptr then Some st
      else if o_hdrs st p = None then None
      else Some (st\<lparr>o_hdrs := (o_hdrs st)(p := f (o_hdrs st p))\<rparr>))"

definition next_calloc :: "objects \<Rightarrow> addr \<times> objects" where
  "next_calloc st = (case o_callocs st of [] \<Rightarrow> (nullptr, st) | p # ps \<Rightarrow> (p, st\<lparr>o_callocs := ps\<rparr>))"

section \<open>Tagged group pointers\<close>

definition sf_header_object :: "addr \<Rightarrow> addr" where
  "sf_header_object hdr = (if hdr \<noteq> nullptr then hdr + sizeof_SFObjHeader else nullptr)"

definition sf_header_uses_inline_group_state :: "objects \<Rightarrow> addr \<Rightarrow> bool option" where
  "sf_header_uses_inline_group_state st hdr =
     (if hdr = nullptr then Some False
      else do { h \<leftarrow> o_hdrs st hdr; Some (group h AND 1 \<noteq> 0) })"

definition sf_header_inline_group_root :: "objects \<Rightarrow> addr \<Rightarrow> addr option" where
  "sf_header_inline_group_root st hdr = do {
     inline \<leftarrow> sf_header_uses_inline_group_state st hdr;
     if inline then do { h \<leftarrow> o_hdrs st hdr; Some (group h AND NOT 1) } else Some nullptr
   }"

definition sf_header_can_use_inline_group_root :: "objects \<Rightarrow> addr \<Rightarrow> bool option" where
  "sf_header_can_use_inline_group_root st hdr =
     (if hdr = nullptr then Some False
      else do { h \<leftarrow> o_hdrs st hdr; Some (flags h AND SF_OBJ_FLAG_EMBEDDED = 0) })"

definition sf_header_inline_group_head :: "objects \<Rightarrow> addr \<Rightarrow> addr option" where
  "sf_header_inline_group_head st root =
     (if root \<noteq> nullptr then do { h \<leftarrow> o_hdrs st root; Some (parent h) } else Some nullptr)"

definition sf_header_set_inline_group_head :: "objects \<Rightarrow> addr \<Rightarrow> addr \<Rightarrow> objects option" where
  "sf_header_set_inline_group_head st root head =
     (if root \<noteq> nullptr then write_hdr st root (\<lambda>h. h\<lparr>parent := head\<rparr>) else Some st)"

definition sf_header_group_state_atomic :: "objects \<Rightarrow> addr \<Rightarrow> addr option" where
  "sf_header_group_state_atomic st hdr =
     (if hdr = nullptr then Some nullptr
      else do {
        inline \<leftarrow> sf_header_uses_inline_group_state st hdr;
        if inline then Some nullptr else do { h \<leftarrow> o_hdrs st hdr; Some (group h) }
      })"

definition sf_header_set_group_state_atomic :: "objects \<Rightarrow> addr \<Rightarrow> addr \<Rightarrow> objects option" where
  "sf_header_set_group_state_atomic st hdr grp =
     (if hdr \<noteq> nullptr then write_hdr st hdr (\<lambda>h. h\<lparr>group := grp\<rparr>) else Some st)"

definition sf_header_exchange_group_state_atomic :: "objects \<Rightarrow> addr \<Rightarrow> addr \<Rightarrow> (addr \<times> objects) option" where
  "sf_header_exchange_group_state_atomic st hdr grp =
     (if hdr = nullptr then Some (nullptr, st)
      else do {
        old \<leftarrow> sf_header_group_state_atomic st hdr;
        st \<leftarrow> write_hdr st hdr (\<lambda>h. h\<lparr>group := grp\<rparr>);
        Some (old, st)
      })"

definition sf_header_try_set_group_state_atomic :: "objects \<Rightarrow> addr \<Rightarrow> addr \<Rightarrow> (bool \<times> objects) option" where
  "sf_header_try_set_group_state_atomic st hdr grp =
     (if hdr = nullptr then Some (False, st)
      else do {
        h \<leftarrow> o_hdrs st hdr;
        inline \<leftarrow> sf_header_uses_inline_group_state st hdr;
        if group h \<noteq> nullptr \<or> inline then Some (False, st)
        else do { st \<leftarrow> write_hdr st hdr (\<lambda>h. h\<lparr>group := grp\<rparr>); Some (True, st) }
      })"

definition sf_create_group_state :: "objects \<Rightarrow> addr \<Rightarrow> addr \<times> objects" where
  "sf_create_group_state st root =
     (let (grp, st) = next_calloc st in
      if grp = nullptr then (nullptr, st)
      else (grp, st\<lparr>o_groups := (o_groups st)
                       (grp \<mapsto> \<lparr>g_root = root, g_head = root, group_live_count = 1, g_dead = 0\<rparr>)\<rparr>))"

section \<open>Accessors\<close>

definition sf_header_live_next :: "objects \<Rightarrow> addr \<Rightarrow> addr option" where
  "sf_header_live_next st hdr =
     (if hdr \<noteq> nullptr then do { h \<leftarrow> o_hdrs st hdr; Some (live_next h) } else Some nullptr)"

definition sf_header_set_live_next :: "objects \<Rightarrow> addr \<Rightarrow> addr \<Rightarrow> objects option" where
  "sf_header_set_live_next st hdr nxt =
     (if hdr \<noteq> nullptr then write_hdr st hdr (\<lambda>h. h\<lparr>live_next := nxt\<rparr>) else Some st)"

definition sf_header_allocator :: "objects \<Rightarrow> addr \<Rightarrow> addr option" where
  "sf_header_allocator st hdr =
     (if hdr = nullptr then Some nullptr else do { h \<leftarrow> o_hdrs st hdr; Some (allocator h) })"

definition sf_header_set_allocator :: "objects \<Rightarrow> addr \<Rightarrow> addr \<Rightarrow> (bool \<times> objects) option" where
  "sf_header_set_allocator st hdr a =
     (if hdr = nullptr then Some (False, st)
      else do { st \<leftarrow> write_hdr st hdr (\<lambda>h. h\<lparr>allocator := a\<rparr>); Some (True, st) })"

text \<open>The guard shared by \<open>sf_header_parent\<close> and \<open>sf_header_set_parent\<close>: in the root of an inline
  group the field holds the head of the member list instead.\<close>

definition parent_is_group_head :: "objects \<Rightarrow> addr \<Rightarrow> bool option" where
  "parent_is_group_head st hdr = do {
     inline \<leftarrow> sf_header_uses_inline_group_state st hdr;
     root \<leftarrow> sf_header_inline_group_root st hdr;
     h \<leftarrow> o_hdrs st hdr;
     Some (inline \<and> root = hdr \<and> flags h AND SF_OBJ_FLAG_EMBEDDED = 0)
   }"

definition sf_header_parent :: "objects \<Rightarrow> addr \<Rightarrow> addr option" where
  "sf_header_parent st hdr =
     (if hdr = nullptr then Some nullptr
      else do {
        head \<leftarrow> parent_is_group_head st hdr;
        if head then Some nullptr else do { h \<leftarrow> o_hdrs st hdr; Some (parent h) }
      })"

definition sf_header_set_parent :: "objects \<Rightarrow> addr \<Rightarrow> addr \<Rightarrow> (bool \<times> objects) option" where
  "sf_header_set_parent st hdr p =
     (if hdr = nullptr then Some (False, st)
      else do {
        head \<leftarrow> parent_is_group_head st hdr;
        if head then Some (p = nullptr, st)
        else do { st \<leftarrow> write_hdr st hdr (\<lambda>h. h\<lparr>parent := p\<rparr>); Some (True, st) }
      })"

definition sf_header_group_root :: "objects \<Rightarrow> addr \<Rightarrow> addr option" where
  "sf_header_group_root st hdr =
     (if hdr = nullptr then Some nullptr
      else do {
        inline_root \<leftarrow> sf_header_inline_group_root st hdr;
        if inline_root \<noteq> nullptr then Some inline_root
        else do {
          grp \<leftarrow> sf_header_group_state_atomic st hdr;
          if grp \<noteq> nullptr then do { g \<leftarrow> o_groups st grp; Some (if g_root g \<noteq> nullptr then g_root g else hdr) }
          else Some hdr
        }
      })"

text \<open>\<open>sf_header_init_group_root\<close>\<close>

definition sf_header_init_group_root :: "objects \<Rightarrow> addr \<Rightarrow> (bool \<times> objects) option" where
  "sf_header_init_group_root st hdr =
     (if hdr = nullptr then Some (False, st)
      else do {
        inline \<leftarrow> sf_header_uses_inline_group_state st hdr;
        grp \<leftarrow> sf_header_group_state_atomic st hdr;
        if inline \<or> grp \<noteq> nullptr then Some (True, st)
        else do {
          can \<leftarrow> sf_header_can_use_inline_group_root st hdr;
          if can then do {
            st \<leftarrow> write_hdr st hdr (\<lambda>h. h\<lparr>group := hdr OR 1\<rparr>);
            st \<leftarrow> sf_header_set_inline_group_head st hdr hdr;
            st \<leftarrow> write_hdr st hdr (\<lambda>h. h\<lparr>group_next := nullptr, reserved := 1\<rparr>);
            st \<leftarrow> write_flags st hdr (\<lambda>h. sf_header_clear_aux_flags h SF_OBJ_AUX_FLAG_GROUP_DEAD);
            Some (True, st)
          }
          else (let (grp, st) = sf_create_group_state st hdr in
            if grp = nullptr then Some (False, st)
            else do {
              st \<leftarrow> write_hdr st hdr (\<lambda>h. h\<lparr>group_next := nullptr\<rparr>);
              (set, st) \<leftarrow> sf_header_try_set_group_state_atomic st hdr grp;
              if set then do {
                st \<leftarrow> write_flags st hdr (\<lambda>h. sf_header_clear_aux_flags h SF_OBJ_AUX_FLAG_GROUP_DEAD);
                Some (True, st)
              }
              else do {
                st \<leftarrow> Some (st\<lparr>o_groups := (o_groups st)(grp := None)\<rparr>);
                own \<leftarrow> sf_header_group_state_atomic st hdr;
                Some (own \<noteq> nullptr, st)
              }
            })
        }
      })"

definition sf_header_set_group_root :: "objects \<Rightarrow> addr \<Rightarrow> addr \<Rightarrow> (bool \<times> objects) option" where
  "sf_header_set_group_root st hdr group_root =
     (if hdr = nullptr then Some (False, st)
      else if group_root = nullptr then do {
        st \<leftarrow> sf_header_set_group_state_atomic st hdr nullptr;
        Some (True, st)
      }
      else do {
        (ok, st) \<leftarrow> sf_header_init_group_root st group_root;
        if \<not> ok then Some (False, st)
        else do {
          inline \<leftarrow> sf_header_uses_inline_group_state st group_root;
          if inline then do {
            st \<leftarrow> write_hdr st hdr (\<lambda>h. h\<lparr>group := group_root OR 1\<rparr>);
            Some (True, st)
          }
          else do {
            grp \<leftarrow> sf_header_group_state_atomic st group_root;
            st \<leftarrow> sf_header_set_group_state_atomic st hdr grp;
            own \<leftarrow> sf_header_group_state_atomic st hdr;
            Some (own \<noteq> nullptr, st)
          }
        }
      })"

definition sf_header_group_next :: "objects \<Rightarrow> addr \<Rightarrow> addr option" where
  "sf_header_group_next st hdr =
     (if hdr = nullptr then Some nullptr else do { h \<leftarrow> o_hdrs st hdr; Some (group_next h) })"

definition sf_header_set_group_next :: "objects \<Rightarrow> addr \<Rightarrow> addr \<Rightarrow> (bool \<times> objects) option" where
  "sf_header_set_group_next st hdr nxt =
     (if hdr = nullptr then Some (False, st)
      else do { st \<leftarrow> write_hdr st hdr (\<lambda>h. h\<lparr>group_next := nxt\<rparr>); Some (True, st) })"

definition sf_header_group_head :: "objects \<Rightarrow> addr \<Rightarrow> addr option" where
  "sf_header_group_head st hdr =
     (if hdr = nullptr then Some nullptr
      else do {
        root \<leftarrow> sf_header_group_root st hdr;
        inline \<leftarrow> sf_header_uses_inline_group_state st root;
        if root \<noteq> nullptr \<and> inline then do {
          head \<leftarrow> sf_header_inline_group_head st root;
          Some (if head \<noteq> nullptr then head else root)
        }
        else do {
          grp \<leftarrow> sf_header_group_state_atomic st hdr;
          if grp \<noteq> nullptr then do { g \<leftarrow> o_groups st grp; Some (if g_head g \<noteq> nullptr then g_head g else hdr) }
          else Some hdr
        }
      })"

definition sf_header_set_group_head :: "objects \<Rightarrow> addr \<Rightarrow> addr \<Rightarrow> (bool \<times> objects) option" where
  "sf_header_set_group_head st hdr head = do {
     root \<leftarrow> sf_header_group_root st hdr;
     if root = nullptr then Some (False, st)
     else do {
       inline \<leftarrow> sf_header_uses_inline_group_state st root;
       if inline then do { st \<leftarrow> sf_header_set_inline_group_head st root head; Some (True, st) }
       else do {
         grp \<leftarrow> sf_header_group_state_atomic st root;
         if head = nullptr \<and> grp = nullptr then Some (True, st)
         else do {
           (ok, st) \<leftarrow> sf_header_init_group_root st root;
           if \<not> ok then Some (False, st)
           else do {
             grp \<leftarrow> sf_header_group_state_atomic st root;
             if grp = nullptr then Some (False, st)
             else do { st \<leftarrow> write_group st grp (\<lambda>g. g\<lparr>g_head := head\<rparr>); Some (True, st) }
           }
         }
       }
     }
   }"

definition sf_header_group_live_count :: "objects \<Rightarrow> addr \<Rightarrow> u64 option" where
  "sf_header_group_live_count st hdr =
     (if hdr = nullptr then Some 0
      else do {
        root \<leftarrow> sf_header_group_root st hdr;
        inline \<leftarrow> sf_header_uses_inline_group_state st root;
        if root \<noteq> nullptr \<and> inline then do { h \<leftarrow> o_hdrs st root; Some (ucast (reserved h)) }
        else do {
          grp \<leftarrow> sf_header_group_state_atomic st hdr;
          if grp \<noteq> nullptr then do { g \<leftarrow> o_groups st grp; Some (group_live_count g) }
          else do { h \<leftarrow> o_hdrs st hdr; Some (if state h = SF_OBJ_STATE_LIVE then 1 else 0) }
        }
      })"

text \<open>\<open>sf_header_or_aux_flags\<close> or \<open>sf_header_clear_aux_flags\<close> of \<open>GROUP_DEAD\<close>, by the count.\<close>

definition mark_group_dead :: "objects \<Rightarrow> addr \<Rightarrow> u64 \<Rightarrow> objects option" where
  "mark_group_dead st root count =
     write_flags st root (\<lambda>h. if count = 0 then sf_header_or_aux_flags h SF_OBJ_AUX_FLAG_GROUP_DEAD
                              else sf_header_clear_aux_flags h SF_OBJ_AUX_FLAG_GROUP_DEAD)"

definition sf_header_set_group_live_count :: "objects \<Rightarrow> addr \<Rightarrow> u64 \<Rightarrow> (bool \<times> objects) option" where
  "sf_header_set_group_live_count st hdr count = do {
     root \<leftarrow> sf_header_group_root st hdr;
     if root = nullptr then Some (False, st)
     else do {
       inline \<leftarrow> sf_header_uses_inline_group_state st root;
       if inline then do {
         st \<leftarrow> write_hdr st root (\<lambda>h. h\<lparr>reserved := ucast count\<rparr>);
         st \<leftarrow> mark_group_dead st root count;
         head \<leftarrow> sf_header_inline_group_head st root;
         st \<leftarrow> (if count \<noteq> 0 \<and> head = nullptr then sf_header_set_inline_group_head st root root else Some st);
         Some (True, st)
       }
       else do {
         grp \<leftarrow> sf_header_group_state_atomic st root;
         if count \<le> 1 \<and> grp = nullptr then Some (True, st)
         else do {
           (ok, st) \<leftarrow> sf_header_init_group_root st root;
           if \<not> ok then Some (False, st)
           else do {
             grp \<leftarrow> sf_header_group_state_atomic st root;
             if grp = nullptr then Some (False, st)
             else do {
               st \<leftarrow> write_group st grp (\<lambda>g. g\<lparr>group_live_count := count, g_dead := (if count = 0 then 1 else 0)\<rparr>);
               st \<leftarrow> mark_group_dead st root count;
               Some (True, st)
             }
           }
         }
       }
     }
   }"

definition sf_header_group_dead :: "objects \<Rightarrow> addr \<Rightarrow> bool option" where
  "sf_header_group_dead st hdr = do {
     root \<leftarrow> sf_header_group_root st hdr;
     if root = nullptr then Some False
     else do {
       h \<leftarrow> o_hdrs st root;
       if sf_header_has_aux_flag (Some h) SF_OBJ_AUX_FLAG_GROUP_DEAD then Some True
       else do {
         inline \<leftarrow> sf_header_uses_inline_group_state st root;
         if inline then Some (sf_header_has_aux_flag (Some h) SF_OBJ_AUX_FLAG_GROUP_DEAD)
         else do {
           grp \<leftarrow> sf_header_group_state_atomic st root;
           if grp = nullptr then Some False else do { g \<leftarrow> o_groups st grp; Some (g_dead g \<noteq> 0) }
         }
       }
     }
   }"

definition sf_header_grouped :: "objects \<Rightarrow> addr \<Rightarrow> bool option" where
  "sf_header_grouped st hdr =
     (if hdr = nullptr then Some False
      else do {
        inline \<leftarrow> sf_header_uses_inline_group_state st hdr;
        grp \<leftarrow> sf_header_group_state_atomic st hdr;
        Some (inline \<or> grp \<noteq> nullptr)
      })"

text \<open>The address of the lock: the \<open>reserved\<close> field of an inline root (offset 32), or the lock in a
  group state (offset 32).\<close>

definition sf_header_group_lock :: "objects \<Rightarrow> addr \<Rightarrow> addr option" where
  "sf_header_group_lock st hdr = do {
     root \<leftarrow> sf_header_group_root st hdr;
     if root = nullptr then Some nullptr
     else do {
       inline \<leftarrow> sf_header_uses_inline_group_state st root;
       if inline then Some (root + 32)
       else do {
         grp \<leftarrow> sf_header_group_state_atomic st root;
         if grp = nullptr then Some nullptr else Some (grp + 32)
       }
     }
   }"

definition sf_header_destroy_sidecar :: "objects \<Rightarrow> addr \<Rightarrow> bool \<Rightarrow> objects option" where
  "sf_header_destroy_sidecar st hdr destroy_group_lock =
     (if hdr = nullptr then Some st
      else do {
        inline \<leftarrow> sf_header_uses_inline_group_state st hdr;
        if inline then do {
          inline_root \<leftarrow> sf_header_inline_group_root st hdr;
          st \<leftarrow> write_hdr st hdr (\<lambda>h. h\<lparr>group := nullptr, group_next := nullptr\<rparr>);
          h \<leftarrow> o_hdrs st hdr;
          if inline_root = hdr \<and> flags h AND SF_OBJ_FLAG_EMBEDDED = 0 then do {
            st \<leftarrow> sf_header_set_inline_group_head st hdr nullptr;
            st \<leftarrow> write_hdr st hdr (\<lambda>h. h\<lparr>reserved := 0\<rparr>);
            write_flags st hdr (\<lambda>h. sf_header_clear_aux_flags h SF_OBJ_AUX_FLAG_GROUP_DEAD)
          }
          else write_hdr st hdr (\<lambda>h. h\<lparr>parent := nullptr\<rparr>)
        }
        else do {
          (grp, st) \<leftarrow> sf_header_exchange_group_state_atomic st hdr nullptr;
          st \<leftarrow> write_hdr st hdr (\<lambda>h. h\<lparr>parent := nullptr, group_next := nullptr\<rparr>);
          if destroy_group_lock \<and> grp \<noteq> nullptr then do {
            g \<leftarrow> o_groups st grp;
            Some (if g_root g = hdr then st\<lparr>o_groups := (o_groups st)(grp := None)\<rparr> else st)
          }
          else Some st
        }
      })"

end
