(* ===== verification/SF_Hash.thy ===== *)
theory SF_Hash
  imports SF_Prelude
begin

unbundle bit_operations_syntax

text \<open>
  The two hash functions of \<open>Runtime/src/loader.c\<close>: FNV-1a over bytes (\<open>sf_hash_bytes\<close>,
  \<open>hash_cstr\<close>), which places class and selector names, and the pointer finaliser
  (\<open>sf_hash_ptr\<close>, \<open>hash_ptr_local\<close>), which places classes and objects.  Both compute on
  \<open>uint64_t\<close> with wrap-around.
\<close>

section \<open>FNV-1a\<close>

definition fnv_step :: "u64 \<Rightarrow> u8 \<Rightarrow> u64" where
  "fnv_step h b = (h XOR ucast b) * 1099511628211"

definition sf_hash_bytes :: "u8 list \<Rightarrow> u64" where
  "sf_hash_bytes p = foldl fnv_step 1469598103934665603 p"

text \<open>\<open>hash_cstr\<close> hashes the \<open>strlen(s)\<close> bytes of a C string: the characters of the model's
  string, which has no terminator.\<close>

definition cstr_bytes :: "string \<Rightarrow> u8 list" where
  "cstr_bytes s = map of_char s"

definition hash_cstr :: "string \<Rightarrow> u64" where
  "hash_cstr s = sf_hash_bytes (cstr_bytes s)"

section \<open>Pointer hash\<close>

definition hash_ptr_local :: "addr \<Rightarrow> u64" where
  "hash_ptr_local p =
     (let v = p;
          v = v XOR drop_bit 33 v;
          v = v * 0xff51afd7ed558ccd;
          v = v XOR drop_bit 33 v;
          v = v * 0xc4ceb9fe1a85ec53;
          v = v XOR drop_bit 33 v
      in v)"

definition sf_hash_ptr :: "addr \<Rightarrow> u64" where
  "sf_hash_ptr p =
     (let v = p;
          v = v XOR drop_bit 33 v;
          v = v * 0xff51afd7ed558ccd;
          v = v XOR drop_bit 33 v;
          v = v * 0xc4ceb9fe1a85ec53;
          v = v XOR drop_bit 33 v
      in v)"

lemma sf_hash_ptr_local: "sf_hash_ptr = hash_ptr_local"
  by (rule ext) (simp add: sf_hash_ptr_def hash_ptr_local_def)

section \<open>No collisions on the full 64 bits\<close>

lemma fnv_step_inj_state: "fnv_step h b = fnv_step h' b \<Longrightarrow> h = h'"
proof -
  assume "fnv_step h b = fnv_step h' b"
  then have "h XOR ucast b = h' XOR ucast b"
    unfolding fnv_step_def
    by (rule word_mult_inverse_cancel [where d = "0xce965057aff6957b", rotated]) simp
  then show ?thesis by (rule word_xor_right_cancel)
qed

lemma ucast_u8_u64_inj:
  assumes "(ucast (b :: u8) :: u64) = ucast b'"
  shows "b = b'"
proof (rule bit_word_eqI)
  fix n assume "n < LENGTH(8)"
  moreover from assms have "bit (ucast b :: u64) n = bit (ucast b' :: u64) n" by simp
  ultimately show "bit b n = bit b' n" by (simp add: bit_simps)
qed

lemma fnv_step_inj_byte: "fnv_step h b = fnv_step h b' \<Longrightarrow> b = b'"
proof -
  assume "fnv_step h b = fnv_step h b'"
  then have "h XOR ucast b = h XOR ucast b'"
    unfolding fnv_step_def
    by (rule word_mult_inverse_cancel [where d = "0xce965057aff6957b", rotated]) simp
  then show ?thesis by (intro ucast_u8_u64_inj) (rule word_xor_left_cancel)
qed

lemma foldl_fnv_inj: "foldl fnv_step h p = foldl fnv_step h' p \<Longrightarrow> h = h'"
  by (induction p arbitrary: h h') (auto dest: fnv_step_inj_state)

lemma xorshift33_inj:
  fixes v w :: u64
  assumes "v XOR drop_bit 33 v = w XOR drop_bit 33 w"
  shows "v = w"
  using xorshift_self_inverse[of 33 v] xorshift_self_inverse[of 33 w] assms by simp

text \<open>The FNV hash never confuses two byte strings that differ in exactly one byte: for any
  common prefix and suffix, changing one byte changes the 64-bit hash.  (Two names of the same
  length that differ in one character therefore never meet before the reduction to a bucket.)\<close>

theorem sf_hash_bytes_one_byte:
  "b \<noteq> b' \<Longrightarrow> sf_hash_bytes (xs @ b # ys) \<noteq> sf_hash_bytes (xs @ b' # ys)"
  unfolding sf_hash_bytes_def by (auto dest: foldl_fnv_inj fnv_step_inj_byte)

theorem sf_hash_bytes_one_byte_witness:
  "sf_hash_bytes ([1, 2] @ 3 # [4]) \<noteq> sf_hash_bytes ([1, 2] @ 5 # [4])"
  by (rule sf_hash_bytes_one_byte) simp

text \<open>The pointer hash is a bijection of the 64-bit addresses: two different objects or
  classes never have the same hash, so a collision in a table comes from the reduction to the
  table's index alone.\<close>

theorem hash_ptr_bij: "inj hash_ptr_local \<and> inj sf_hash_ptr \<and> surj hash_ptr_local"
proof -
  have inj: "inj hash_ptr_local"
  proof (rule injI)
    fix v w :: u64
    assume eq: "hash_ptr_local v = hash_ptr_local w"
    let ?x = "\<lambda>v :: u64. v XOR drop_bit 33 v"
    from eq have "?x (?x (?x v * 0xff51afd7ed558ccd) * 0xc4ceb9fe1a85ec53)
        = ?x (?x (?x w * 0xff51afd7ed558ccd) * 0xc4ceb9fe1a85ec53)"
      by (simp only: hash_ptr_local_def Let_def)
    then have "?x (?x v * 0xff51afd7ed558ccd) * 0xc4ceb9fe1a85ec53
        = ?x (?x w * 0xff51afd7ed558ccd) * 0xc4ceb9fe1a85ec53"
      by (rule xorshift33_inj)
    then have "?x (?x v * 0xff51afd7ed558ccd) = ?x (?x w * 0xff51afd7ed558ccd)"
      by (rule word_mult_inverse_cancel [where d = "0x9cb4b2f8129337db", rotated]) simp
    then have "?x v * 0xff51afd7ed558ccd = ?x w * 0xff51afd7ed558ccd" by (rule xorshift33_inj)
    then have "?x v = ?x w"
      by (rule word_mult_inverse_cancel [where d = "0x4f74430c22a54005", rotated]) simp
    then show "v = w" by (rule xorshift33_inj)
  qed
  moreover from inj have "surj hash_ptr_local"
    by (rule finite_UNIV_inj_surj [rotated]) simp
  ultimately show ?thesis by (simp add: sf_hash_ptr_local)
qed

end
