(* ===== verification/SF_Tables.thy ===== *)
theory SF_Tables
  imports SF_Hash
begin

unbundle bit_operations_syntax

text \<open>
  The open-addressing tables of \<open>Runtime/src/loader.c\<close>: the class map (by name), the class
  metadata table, the value-slot map and the set of classes whose layout is fixed (by class
  pointer).  All four probe linearly from a hash and stop at the first slot that is empty or
  holds the key; none of them grows, and an insert into a full table is dropped.

  The probing discipline is stated once, in the locale \<open>open_addressing\<close>, over an arbitrary
  entry type, capacity and hash; the tables of the code are interpretations of it.
\<close>

section \<open>The probe loop\<close>

text \<open>\<open>for (i = 0; i < cap; ++i) { idx = (hash + i) % cap; if (stop idx) ... }\<close>.  The tables by
  pointer write \<open>& (cap - 1)\<close> for \<open>% cap\<close>, which is the same for a power of two.\<close>

definition probe_index :: "nat \<Rightarrow> u64 \<Rightarrow> nat \<Rightarrow> nat" where
  "probe_index cap h i = unat (h + of_nat i) mod cap"

function probe :: "nat \<Rightarrow> (nat \<Rightarrow> bool) \<Rightarrow> u64 \<Rightarrow> nat \<Rightarrow> nat option" where
  "probe cap stop h i =
     (if i < cap
      then (if stop (probe_index cap h i) then Some (probe_index cap h i) else probe cap stop h (Suc i))
      else None)"
  by pat_completeness auto
termination
  by (relation "measure (\<lambda>(cap, stop, h, i). cap - i)") auto

declare probe.simps [simp del]

lemma probe_SomeD:
  "probe cap stop h i = Some j \<Longrightarrow>
     stop j \<and> (\<exists>k. i \<le> k \<and> k < cap \<and> j = probe_index cap h k
                   \<and> (\<forall>l. i \<le> l \<and> l < k \<longrightarrow> \<not> stop (probe_index cap h l)))"
proof (induction cap stop h i rule: probe.induct)
  case (1 cap stop h i)
  show ?case
  proof (cases "i < cap \<and> \<not> stop (probe_index cap h i)")
    case True
    with 1 obtain k where "stop j" "Suc i \<le> k" "k < cap" "j = probe_index cap h k"
      and "\<forall>l. Suc i \<le> l \<and> l < k \<longrightarrow> \<not> stop (probe_index cap h l)"
      by (auto simp: probe.simps [of cap stop h i])
    with True show ?thesis by (metis Suc_leD Suc_leI le_neq_implies_less)
  next
    case False
    with 1 show ?thesis
      by (auto simp: probe.simps [of cap stop h i] split: if_splits)
  qed
qed

lemma probe_SomeI:
  "\<lbrakk> i \<le> k; k < cap; stop (probe_index cap h k);
     \<forall>l. i \<le> l \<and> l < k \<longrightarrow> \<not> stop (probe_index cap h l) \<rbrakk>
   \<Longrightarrow> probe cap stop h i = Some (probe_index cap h k)"
proof (induction cap stop h i rule: probe.induct)
  case (1 cap stop h i)
  show ?case
  proof (cases "i = k")
    case True
    with 1(3,4) show ?thesis by (simp add: probe.simps [of cap stop h k])
  next
    case False
    with 1(2) have "Suc i \<le> k" by simp
    moreover from 1(2,5) False have "\<not> stop (probe_index cap h i)" by simp
    ultimately show ?thesis
      using 1 by (simp add: probe.simps [of cap stop h i])
  qed
qed

lemma probe_None: "probe cap stop h i = None \<longleftrightarrow> (\<forall>l. i \<le> l \<and> l < cap \<longrightarrow> \<not> stop (probe_index cap h l))"
proof
  assume "probe cap stop h i = None"
  then show "\<forall>l. i \<le> l \<and> l < cap \<longrightarrow> \<not> stop (probe_index cap h l)"
  proof (induction cap stop h i rule: probe.induct)
    case (1 cap stop h i)
    show ?case
    proof (cases "i < cap")
      case True
      with 1 have "\<not> stop (probe_index cap h i)" "\<forall>l. Suc i \<le> l \<and> l < cap \<longrightarrow> \<not> stop (probe_index cap h l)"
        by (auto simp: probe.simps [of cap stop h i] split: if_splits)
      then show ?thesis by (metis Suc_leI le_neq_implies_less)
    next
      case False
      then show ?thesis by auto
    qed
  qed
next
  assume "\<forall>l. i \<le> l \<and> l < cap \<longrightarrow> \<not> stop (probe_index cap h l)"
  then show "probe cap stop h i = None"
    using probe_SomeD [of cap stop h i] by (cases "probe cap stop h i") blast+
qed

text \<open>With a capacity that divides \<open>2 ^ 64\<close>, the wrap-around of \<open>hash + i\<close> does not disturb the
  reduction, and the probe visits every slot.\<close>

lemma probe_index_mod:
  assumes "cap dvd 2 ^ 64"
  shows "probe_index cap h i = (unat h + i) mod cap"
proof -
  have "unat (h + of_nat i) = (unat h + i) mod 2 ^ 64"
    by (simp add: unat_word_ariths unat_of_nat mod_simps)
  with assms show ?thesis by (simp add: probe_index_def mod_mod_cancel)
qed

lemma probe_index_less: "0 < cap \<Longrightarrow> probe_index cap h i < cap"
  by (simp add: probe_index_def)

lemma probe_index_covers:
  assumes "0 < cap" "cap dvd 2 ^ 64" "j < cap"
  shows "\<exists>i < cap. probe_index cap h i = j"
proof -
  let ?r = "unat h mod cap"
  have r: "?r < cap" using assms(1) by simp
  let ?i = "if ?r \<le> j then j - ?r else cap + j - ?r"
  have "?i < cap" using r assms(3) by auto
  moreover have "?r + ?i = (if ?r \<le> j then j else cap + j)"
    using r by auto
  then have "(?r + ?i) mod cap = j"
    using assms(3) by simp
  then have "(unat h + ?i) mod cap = j" by (simp add: mod_simps)
  ultimately show ?thesis using assms(2) by (auto simp: probe_index_mod)
qed

section \<open>The discipline of a linear-probing table\<close>

text \<open>\<open>pt_slot\<close> is the slot the loop stops at: the first that is empty (key \<open>None\<close>) or holds the
  wanted key.  \<open>pt_find\<close> reads the table through it, \<open>pt_put\<close> writes through it.\<close>

definition pt_slot ::
  "nat \<Rightarrow> ('k \<Rightarrow> u64) \<Rightarrow> ('e \<Rightarrow> 'k option) \<Rightarrow> (nat \<Rightarrow> 'e) \<Rightarrow> 'k \<Rightarrow> nat option" where
  "pt_slot cap hash key t k = probe cap (\<lambda>i. key (t i) = None \<or> key (t i) = Some k) (hash k) 0"

definition pt_find ::
  "nat \<Rightarrow> ('k \<Rightarrow> u64) \<Rightarrow> ('e \<Rightarrow> 'k option) \<Rightarrow> (nat \<Rightarrow> 'e) \<Rightarrow> 'k \<Rightarrow> 'e option" where
  "pt_find cap hash key t k =
     (case pt_slot cap hash key t k of None \<Rightarrow> None
      | Some i \<Rightarrow> if key (t i) = Some k then Some (t i) else None)"

definition pt_put ::
  "nat \<Rightarrow> ('k \<Rightarrow> u64) \<Rightarrow> ('e \<Rightarrow> 'k option) \<Rightarrow> (nat \<Rightarrow> 'e) \<Rightarrow> 'k \<Rightarrow> 'e \<Rightarrow> (nat \<Rightarrow> 'e)" where
  "pt_put cap hash key t k e =
     (case pt_slot cap hash key t k of None \<Rightarrow> t | Some i \<Rightarrow> t(i := e))"

text \<open>Every stored key is found where it is stored: no empty slot cuts it off from its hash.\<close>

definition pt_inv ::
  "nat \<Rightarrow> ('k \<Rightarrow> u64) \<Rightarrow> ('e \<Rightarrow> 'k option) \<Rightarrow> (nat \<Rightarrow> 'e) \<Rightarrow> bool" where
  "pt_inv cap hash key t \<longleftrightarrow>
     (\<forall>j k. j < cap \<and> key (t j) = Some k \<longrightarrow> pt_slot cap hash key t k = Some j)"

locale open_addressing =
  fixes cap :: nat
    and hash :: "'k \<Rightarrow> u64"
    and key :: "'e \<Rightarrow> 'k option"
  assumes cap_pos: "0 < cap"
    and cap_pow: "cap dvd 2 ^ 64"
begin

lemma slot_SomeD:
  "pt_slot cap hash key t k = Some i \<Longrightarrow> i < cap \<and> (key (t i) = None \<or> key (t i) = Some k)"
  unfolding pt_slot_def by (auto dest!: probe_SomeD simp: probe_index_less cap_pos)

lemma slot_None_iff:
  "pt_slot cap hash key t k = None \<longleftrightarrow> (\<forall>j < cap. key (t j) \<noteq> None \<and> key (t j) \<noteq> Some k)"
  unfolding pt_slot_def probe_None
  using probe_index_covers [OF cap_pos cap_pow, of _ "hash k"] probe_index_less [OF cap_pos, of "hash k"]
  by (metis zero_le)

lemma find_Some: "pt_find cap hash key t k = Some e \<Longrightarrow> \<exists>i < cap. t i = e \<and> key e = Some k"
  unfolding pt_find_def by (auto split: option.splits if_splits dest: slot_SomeD)

lemma find_stored:
  "pt_inv cap hash key t \<Longrightarrow> j < cap \<Longrightarrow> key (t j) = Some k \<Longrightarrow> pt_find cap hash key t k = Some (t j)"
  unfolding pt_inv_def pt_find_def by auto

lemma unique_index:
  "pt_inv cap hash key t \<Longrightarrow> i < cap \<Longrightarrow> j < cap \<Longrightarrow> key (t i) = Some k \<Longrightarrow> key (t j) = Some k \<Longrightarrow> i = j"
  unfolding pt_inv_def by (metis option.inject)

lemma find_put_same:
  assumes "pt_slot cap hash key t k = Some i" "key e = Some k"
  shows "pt_find cap hash key (pt_put cap hash key t k e) k = Some e"
proof -
  from assms(1) obtain n where n: "n < cap" "i = probe_index cap (hash k) n"
    and before: "\<forall>l. l < n \<longrightarrow> \<not> (key (t (probe_index cap (hash k) l)) = None
                                       \<or> key (t (probe_index cap (hash k) l)) = Some k)"
    and stop: "key (t i) = None \<or> key (t i) = Some k"
    unfolding pt_slot_def by (auto dest!: probe_SomeD)
  have "pt_slot cap hash key (t(i := e)) k = Some i"
    unfolding pt_slot_def n(2)
  proof (rule probe_SomeI)
    show "\<forall>l. 0 \<le> l \<and> l < n \<longrightarrow> \<not> (key ((t(probe_index cap (hash k) n := e)) (probe_index cap (hash k) l)) = None
            \<or> key ((t(probe_index cap (hash k) n := e)) (probe_index cap (hash k) l)) = Some k)"
      using before stop n(2) by (metis fun_upd_apply)
  qed (use n assms(2) in auto)
  with assms show ?thesis by (simp add: pt_find_def pt_put_def)
qed

text \<open>Replacing the entry of slot \<open>i\<close>, where key \<open>k\<close> belongs, does not move any other key.\<close>

lemma slot_update_other:
  assumes slot: "pt_slot cap hash key t k = Some i" and e: "key e = Some k"
    and other: "pt_slot cap hash key t k' = Some j" "key (t j) = Some k'" "k' \<noteq> k"
  shows "pt_slot cap hash key (t(i := e)) k' = Some j"
proof -
  from other(1) obtain n where n: "n < cap" "j = probe_index cap (hash k') n"
    and before: "\<forall>l. l < n \<longrightarrow> \<not> (key (t (probe_index cap (hash k') l)) = None
                                       \<or> key (t (probe_index cap (hash k') l)) = Some k')"
    unfolding pt_slot_def by (auto dest!: probe_SomeD)
  from slot_SomeD [OF slot] other(2,3) have "j \<noteq> i" by auto
  then show ?thesis
    unfolding pt_slot_def n(2)
    by (intro probe_SomeI) (use n other(2,3) before e in auto)
qed

lemma inv_put:
  assumes inv: "pt_inv cap hash key t" and e: "key e = Some k"
  shows "pt_inv cap hash key (pt_put cap hash key t k e)"
proof (cases "pt_slot cap hash key t k")
  case None
  with inv show ?thesis by (simp add: pt_put_def)
next
  case (Some i)
  show ?thesis unfolding pt_inv_def
  proof (intro allI impI, elim conjE)
    fix j k' assume j: "j < cap" and k': "key (pt_put cap hash key t k e j) = Some k'"
    show "pt_slot cap hash key (pt_put cap hash key t k e) k' = Some j"
    proof (cases "j = i")
      case True
      with k' Some e have "k' = k" by (simp add: pt_put_def)
      moreover have "pt_find cap hash key (pt_put cap hash key t k e) k = Some e"
        using Some e by (rule find_put_same)
      ultimately obtain i' where i': "pt_slot cap hash key (pt_put cap hash key t k e) k = Some i'"
        and "key (pt_put cap hash key t k e i') = Some k"
        by (auto simp: pt_find_def split: option.splits if_splits)
      have "i' = i"
      proof (rule ccontr)
        assume "i' \<noteq> i"
        with \<open>key (pt_put cap hash key t k e i') = Some k\<close> Some have "key (t i') = Some k"
          by (simp add: pt_put_def)
        moreover from slot_SomeD [OF i'] have "i' < cap" by simp
        ultimately have "pt_slot cap hash key t k = Some i'" using inv by (auto simp: pt_inv_def)
        with Some \<open>i' \<noteq> i\<close> show False by simp
      qed
      with i' True \<open>k' = k\<close> show ?thesis by simp
    next
      case False
      with k' Some have old: "key (t j) = Some k'" by (simp add: pt_put_def)
      with inv j have s: "pt_slot cap hash key t k' = Some j" by (auto simp: pt_inv_def)
      have "k' \<noteq> k" using s Some False by auto
      from slot_update_other [OF Some e s old this] Some show ?thesis by (simp add: pt_put_def)
    qed
  qed
qed

lemma find_put_other:
  assumes inv: "pt_inv cap hash key t" and e: "key e = Some k" and ne: "k' \<noteq> k"
  shows "pt_find cap hash key (pt_put cap hash key t k e) k' = pt_find cap hash key t k'"
proof (cases "\<exists>j < cap. key (t j) = Some k'")
  case True
  then obtain j where j: "j < cap" "key (t j) = Some k'" by blast
  have old: "pt_find cap hash key t k' = Some (t j)" using inv j by (rule find_stored)
  show ?thesis
  proof (cases "pt_slot cap hash key t k")
    case (Some i)
    with slot_SomeD [OF Some] j ne have "j \<noteq> i" by auto
    then have "key (pt_put cap hash key t k e j) = Some k'"
      using j Some by (simp add: pt_put_def)
    with find_stored [OF inv_put [OF inv e] j(1)] old show ?thesis
      using \<open>j \<noteq> i\<close> Some by (auto simp: pt_put_def)
  qed (simp add: pt_put_def)
next
  case False
  then have "pt_find cap hash key t k' = None"
    using find_Some [of t k'] by (cases "pt_find cap hash key t k'") auto
  moreover have "pt_find cap hash key (pt_put cap hash key t k e) k' = None"
  proof (rule ccontr)
    assume "pt_find cap hash key (pt_put cap hash key t k e) k' \<noteq> None"
    then obtain i e' where "i < cap" "pt_put cap hash key t k e i = e'" "key e' = Some k'"
      using find_Some by blast
    with False e ne show False
      by (auto simp: pt_put_def split: option.splits if_splits)
  qed
  ultimately show ?thesis by simp
qed

lemma put_full:
  "pt_slot cap hash key t k = None \<Longrightarrow> pt_put cap hash key t k e = t"
  by (simp add: pt_put_def)

lemma inv_empty: "(\<And>i. key (t i) = None) \<Longrightarrow> pt_inv cap hash key t"
  by (simp add: pt_inv_def)

lemma find_empty: "(\<And>i. key (t i) = None) \<Longrightarrow> pt_find cap hash key t k = None"
  by (simp add: pt_find_def split: option.splits)

end

end
