(* ===== verification/SF_Registry.thy ===== *)
theory SF_Registry
  imports SF_Tables
begin

unbundle bit_operations_syntax

text \<open>
  The class registry of \<open>Runtime/src/loader.c\<close>: \<open>g_class_map\<close> with
  \<open>class_map_insert_unlocked\<close> and \<open>sf_loader_class_lookup_unlocked\<close>, the registration of a
  module's classes and aliases, and the exported lookups by name.  A class pointer is its
  address; the class structures themselves are in a memory that maps an address to the part of
  the class the registry reads, its name.
\<close>

section \<open>The class map\<close>

record SFClassEntry =
  entry_name :: "string option"
  entry_cls :: addr

type_synonym class_map = "nat \<Rightarrow> SFClassEntry"

definition SF_CLASS_MAP_CAPACITY :: nat where "SF_CLASS_MAP_CAPACITY = 4096"
definition SF_CLASS_META_CAPACITY :: nat where "SF_CLASS_META_CAPACITY = 8192"

text \<open>The static array before any registration: all fields zero.\<close>

definition empty_class_map :: class_map where
  "empty_class_map = (\<lambda>_. \<lparr>entry_name = None, entry_cls = nullptr\<rparr>)"

text \<open>The loop of an insert stops at the first slot whose name is null or equal, writes it and
  returns; a loop that runs out writes nothing.\<close>

definition class_map_insert_unlocked :: "class_map \<Rightarrow> string \<Rightarrow> addr \<Rightarrow> class_map" where
  "class_map_insert_unlocked t name cls =
     (case probe SF_CLASS_MAP_CAPACITY (\<lambda>i. entry_name (t i) = None \<or> entry_name (t i) = Some name)
             (hash_cstr name) 0 of
        None \<Rightarrow> t
      | Some i \<Rightarrow> t(i := \<lparr>entry_name = Some name, entry_cls = cls\<rparr>))"

definition sf_loader_class_lookup_unlocked :: "class_map \<Rightarrow> string option \<Rightarrow> addr" where
  "sf_loader_class_lookup_unlocked t name_opt =
     (case name_opt of None \<Rightarrow> nullptr
      | Some name \<Rightarrow>
          (case probe SF_CLASS_MAP_CAPACITY (\<lambda>i. entry_name (t i) = None \<or> entry_name (t i) = Some name)
                  (hash_cstr name) 0 of
             None \<Rightarrow> nullptr
           | Some i \<Rightarrow> if entry_name (t i) = None then nullptr else entry_cls (t i)))"

definition class_map_contains_pointer_unlocked :: "class_map \<Rightarrow> addr \<Rightarrow> bool" where
  "class_map_contains_pointer_unlocked t cls \<longleftrightarrow>
     cls \<noteq> nullptr \<and> (\<exists>i \<in> set [0..<SF_CLASS_MAP_CAPACITY]. entry_cls (t i) = cls)"

definition sf_class_from_name :: "class_map \<Rightarrow> string option \<Rightarrow> addr" where
  "sf_class_from_name t name = (if name = None then nullptr else sf_loader_class_lookup_unlocked t name)"

definition objc_lookup_class :: "class_map \<Rightarrow> string option \<Rightarrow> addr" where
  "objc_lookup_class t name = sf_class_from_name t name"

definition objc_get_class :: "class_map \<Rightarrow> string option \<Rightarrow> addr" where
  "objc_get_class t name = sf_class_from_name t name"

definition objc_getClass :: "class_map \<Rightarrow> string option \<Rightarrow> addr" where
  "objc_getClass t name = sf_class_from_name t name"

section \<open>Registration\<close>

text \<open>\<open>cname\<close> is \<open>cls->name\<close>; the pointers of the section \<open>[start, stop)\<close> are a list, empty
  when the bounds are null or out of order.\<close>

fun sf_register_classes :: "(addr \<Rightarrow> string option) \<Rightarrow> class_map \<Rightarrow> addr list \<Rightarrow> class_map" where
  "sf_register_classes cname t [] = t"
| "sf_register_classes cname t (cls # rest) =
     (if cls = nullptr then sf_register_classes cname t rest
      else case cname cls of
             None \<Rightarrow> sf_register_classes cname t rest
           | Some n \<Rightarrow> if n = [] then sf_register_classes cname t rest
                       else sf_register_classes cname (class_map_insert_unlocked t n cls) rest)"

record SFObjCAliasEntry =
  alias_name :: "string option"
  class_ref :: "addr option" \<comment> \<open>the class the reference holds; \<open>None\<close> for a null reference\<close>

fun sf_loader_register_class_aliases :: "class_map \<Rightarrow> SFObjCAliasEntry list \<Rightarrow> class_map" where
  "sf_loader_register_class_aliases t [] = t"
| "sf_loader_register_class_aliases t (a # rest) =
     (case (alias_name a, class_ref a) of
        (Some n, Some cls) \<Rightarrow>
          if n = [] \<or> cls = nullptr then sf_loader_register_class_aliases t rest
          else sf_loader_register_class_aliases (class_map_insert_unlocked t n cls) rest
      | _ \<Rightarrow> sf_loader_register_class_aliases t rest)"

definition class_registerAlias_np :: "class_map \<Rightarrow> addr \<Rightarrow> string option \<Rightarrow> class_map" where
  "class_registerAlias_np t cls name =
     (case name of None \<Rightarrow> t
      | Some n \<Rightarrow> if cls = nullptr \<or> n = [] then t else class_map_insert_unlocked t n cls)"

section \<open>The map is a linear-probing table\<close>

interpretation cmap: open_addressing SF_CLASS_MAP_CAPACITY hash_cstr entry_name
  by unfold_locales (simp_all add: SF_CLASS_MAP_CAPACITY_def)

definition class_map_inv :: "class_map \<Rightarrow> bool" where
  "class_map_inv t \<longleftrightarrow> pt_inv SF_CLASS_MAP_CAPACITY hash_cstr entry_name t"

text \<open>There is room for a name when it is already registered or some slot is free.\<close>

definition class_map_room :: "class_map \<Rightarrow> string \<Rightarrow> bool" where
  "class_map_room t name \<longleftrightarrow> pt_slot SF_CLASS_MAP_CAPACITY hash_cstr entry_name t name \<noteq> None"

lemma insert_put:
  "class_map_insert_unlocked t name cls =
     pt_put SF_CLASS_MAP_CAPACITY hash_cstr entry_name t name \<lparr>entry_name = Some name, entry_cls = cls\<rparr>"
  by (simp add: class_map_insert_unlocked_def pt_put_def pt_slot_def)

lemma lookup_find:
  "sf_loader_class_lookup_unlocked t (Some name) =
     (case pt_find SF_CLASS_MAP_CAPACITY hash_cstr entry_name t name of None \<Rightarrow> nullptr | Some e \<Rightarrow> entry_cls e)"
  using cmap.slot_SomeD [of t name]
  by (auto simp: sf_loader_class_lookup_unlocked_def pt_find_def pt_slot_def split: option.splits)

lemma lookup_None [table_simps]: "sf_loader_class_lookup_unlocked t None = nullptr"
  by (simp add: sf_loader_class_lookup_unlocked_def)

lemma class_map_room_iff:
  "class_map_room t name \<longleftrightarrow>
     (\<exists>j < SF_CLASS_MAP_CAPACITY. entry_name (t j) = None \<or> entry_name (t j) = Some name)"
  by (auto simp: class_map_room_def cmap.slot_None_iff)

lemma inv_insert [table_simps]: "class_map_inv t \<Longrightarrow> class_map_inv (class_map_insert_unlocked t name cls)"
  by (simp add: class_map_inv_def insert_put cmap.inv_put)

lemma lookup_insert_same [table_simps]:
  "class_map_room t name \<Longrightarrow>
     sf_loader_class_lookup_unlocked (class_map_insert_unlocked t name cls) (Some name) = cls"
  by (auto simp: class_map_room_def insert_put lookup_find cmap.find_put_same)

lemma lookup_insert_other [table_simps]:
  "class_map_inv t \<Longrightarrow> n \<noteq> name \<Longrightarrow>
     sf_loader_class_lookup_unlocked (class_map_insert_unlocked t name cls) (Some n)
       = sf_loader_class_lookup_unlocked t (Some n)"
  by (simp add: class_map_inv_def insert_put lookup_find cmap.find_put_other)

lemma insert_full: "\<not> class_map_room t name \<Longrightarrow> class_map_insert_unlocked t name cls = t"
  by (simp add: class_map_room_def insert_put cmap.put_full)

lemma inv_empty_map: "class_map_inv empty_class_map"
  by (simp add: class_map_inv_def cmap.inv_empty empty_class_map_def)

lemma room_empty_map: "class_map_room empty_class_map name"
  unfolding class_map_room_iff
  by (intro exI [of _ 0]) (simp add: empty_class_map_def SF_CLASS_MAP_CAPACITY_def)

lemma inv_register_classes: "class_map_inv t \<Longrightarrow> class_map_inv (sf_register_classes cname t cs)"
  by (induction cname t cs rule: sf_register_classes.induct) (auto simp: table_simps split: option.splits)

lemma inv_register_aliases: "class_map_inv t \<Longrightarrow> class_map_inv (sf_loader_register_class_aliases t as)"
  by (induction t as rule: sf_loader_register_class_aliases.induct) (auto simp: table_simps split: option.splits)

lemma inv_registerAlias: "class_map_inv t \<Longrightarrow> class_map_inv (class_registerAlias_np t cls name)"
  by (auto simp: class_registerAlias_np_def table_simps split: option.splits)

text \<open>How many names the map holds: the measure of the room left.\<close>

definition names_of :: "class_map \<Rightarrow> string set" where
  "names_of t = {n. \<exists>j < SF_CLASS_MAP_CAPACITY. entry_name (t j) = Some n}"

lemma names_of_insert: "names_of (class_map_insert_unlocked t name cls) \<subseteq> insert name (names_of t)"
  by (auto simp: names_of_def class_map_insert_unlocked_def split: option.splits if_splits)

lemma finite_names_of: "finite (names_of t)"
  by (rule finite_subset [of _ "(\<lambda>j. the (entry_name (t j))) ` {..<SF_CLASS_MAP_CAPACITY}"])
    (force simp: names_of_def)+

lemma card_names_of_insert: "card (names_of (class_map_insert_unlocked t name cls)) \<le> Suc (card (names_of t))"
proof -
  have "card (names_of (class_map_insert_unlocked t name cls)) \<le> card (insert name (names_of t))"
    by (rule card_mono) (simp_all add: finite_names_of names_of_insert)
  also have "\<dots> \<le> Suc (card (names_of t))"
    by (simp add: card_insert_if finite_names_of)
  finally show ?thesis .
qed

lemma room_if_few_names:
  assumes inv: "class_map_inv t" and few: "card (names_of t) < SF_CLASS_MAP_CAPACITY"
  shows "class_map_room t name"
proof (rule ccontr)
  assume full: "\<not> class_map_room t name"
  then have some: "\<exists>n. entry_name (t j) = Some n" if "j < SF_CLASS_MAP_CAPACITY" for j
    using that by (auto simp: class_map_room_iff)
  let ?f = "\<lambda>j. the (entry_name (t j))"
  have "inj_on ?f {..<SF_CLASS_MAP_CAPACITY}"
  proof (rule inj_onI)
    fix i j assume ij: "i \<in> {..<SF_CLASS_MAP_CAPACITY}" "j \<in> {..<SF_CLASS_MAP_CAPACITY}" "?f i = ?f j"
    then obtain n where "entry_name (t i) = Some n" "entry_name (t j) = Some n"
      using some [of i] some [of j] by auto
    with cmap.unique_index [of t i j] inv ij show "i = j" by (auto simp: class_map_inv_def)
  qed
  then have "card (?f ` {..<SF_CLASS_MAP_CAPACITY}) = SF_CLASS_MAP_CAPACITY" by (simp add: card_image)
  moreover have "?f ` {..<SF_CLASS_MAP_CAPACITY} = names_of t"
    using some by (force simp: names_of_def)
  ultimately show False using few by simp
qed

section \<open>Properties\<close>

text \<open>Registration and lookup implement a map from names to classes.  In a map kept by the
  registry, with a slot left for the name, a lookup after an insert returns the inserted class
  for that name (also when it replaces an earlier one) and is unchanged for every other name,
  and the probing invariant is kept.\<close>

theorem class_lookup_insert:
  assumes "class_map_inv t" "class_map_room t name"
  shows "sf_loader_class_lookup_unlocked (class_map_insert_unlocked t name cls) (Some n)
           = (if n = name then cls else sf_loader_class_lookup_unlocked t (Some n))
         \<and> class_map_inv (class_map_insert_unlocked t name cls)"
  using assms by (simp add: table_simps)

theorem class_lookup_insert_witness:
  "sf_loader_class_lookup_unlocked (class_map_insert_unlocked empty_class_map ''Object'' 64) (Some ''Object'')
     = (if ''Object'' = ''Object'' then 64 else sf_loader_class_lookup_unlocked empty_class_map (Some ''Object''))
   \<and> class_map_inv (class_map_insert_unlocked empty_class_map ''Object'' 64)"
  by (rule class_lookup_insert [OF inv_empty_map room_empty_map])

text \<open>Loading a module registers every one of its classes.  With enough free slots, after
  \<open>sf_register_classes\<close> each listed class whose name is unique in the list is found under its
  name by \<open>objc_lookup_class\<close>, and a name that no listed class has is found as before.\<close>

theorem register_classes_lookup:
  assumes inv: "class_map_inv t"
    and room: "card (names_of t) + length cs < SF_CLASS_MAP_CAPACITY"
    and inj: "inj_on cname (set cs - {nullptr})"
    and n: "n \<noteq> []"
  shows "objc_lookup_class (sf_register_classes cname t cs) (Some n)
      = (case find (\<lambda>c. c \<noteq> nullptr \<and> cname c = Some n) cs of
           Some c \<Rightarrow> c | None \<Rightarrow> objc_lookup_class t (Some n))"
  using inv room inj
proof (induction cs arbitrary: t)
  case Nil
  then show ?case by simp
next
  case (Cons c cs)
  from Cons.prems(3) have inj': "inj_on cname (set cs - {nullptr})"
    by (rule inj_on_subset) auto
  show ?case
  proof (cases "c = nullptr \<or> cname c = None \<or> cname c = Some []")
    case True
    then have "sf_register_classes cname t (c # cs) = sf_register_classes cname t cs"
      by auto
    moreover from True n have "find (\<lambda>c. c \<noteq> nullptr \<and> cname c = Some n) (c # cs)
        = find (\<lambda>c. c \<noteq> nullptr \<and> cname c = Some n) cs" by auto
    ultimately show ?thesis using Cons.IH [OF Cons.prems(1) _ inj'] Cons.prems(2) by simp
  next
    case False
    then obtain m where m: "cname c = Some m" "m \<noteq> []" "c \<noteq> nullptr" by (cases "cname c") auto
    let ?t' = "class_map_insert_unlocked t m c"
    let ?find = "find (\<lambda>c. c \<noteq> nullptr \<and> cname c = Some n)"
    have room': "card (names_of ?t') + length cs < SF_CLASS_MAP_CAPACITY"
      using Cons.prems(2) card_names_of_insert [of t m c] by simp
    have IH: "objc_lookup_class (sf_register_classes cname ?t' cs) (Some n)
      = (case ?find cs of Some c \<Rightarrow> c | None \<Rightarrow> objc_lookup_class ?t' (Some n))"
      by (rule Cons.IH [OF inv_insert [OF Cons.prems(1)] room' inj'])
    have room_t: "class_map_room t m"
      using Cons.prems by (intro room_if_few_names) auto
    have step: "objc_lookup_class ?t' (Some n) = (if n = m then c else objc_lookup_class t (Some n))"
      using room_t Cons.prems(1) by (simp add: objc_lookup_class_def sf_class_from_name_def table_simps)
    have same: "?find cs = None \<or> ?find cs = Some c" if "n = m"
    proof (cases "?find cs")
      case (Some d)
      then have "d \<in> set cs" "d \<noteq> nullptr" "cname d = Some n"
        by (auto simp: find_Some_iff)
      then have "d = c"
        using m that by (intro inj_onD [OF Cons.prems(3)]) simp_all
      with Some show ?thesis by simp
    qed simp
    have reg: "sf_register_classes cname t (c # cs) = sf_register_classes cname ?t' cs"
      using m by simp
    show ?thesis
    proof (cases "n = m")
      case True
      then have "?find (c # cs) = Some c" using m by simp
      moreover have "(case ?find cs of Some c \<Rightarrow> c | None \<Rightarrow> objc_lookup_class ?t' (Some n)) = c"
        using same [OF True] step True by (elim disjE) simp_all
      ultimately show ?thesis by (simp only: reg IH option.case)
    next
      case False
      then have "?find (c # cs) = ?find cs" using m by simp
      with reg IH step False show ?thesis by (simp only: if_False)
    qed
  qed
qed

theorem register_classes_lookup_witness:
  "objc_lookup_class
     (sf_register_classes (\<lambda>c. if c = 64 then Some ''A'' else Some ''B'') empty_class_map [64, 0, 96]) (Some ''B'')
   = (case find (\<lambda>c. c \<noteq> nullptr \<and> (if c = 64 then Some ''A'' else Some ''B'') = Some ''B'') [64, 0, 96] of
        Some c \<Rightarrow> c | None \<Rightarrow> objc_lookup_class empty_class_map (Some ''B''))"
proof (rule register_classes_lookup [OF inv_empty_map])
  have "names_of empty_class_map = {}" by (simp add: names_of_def empty_class_map_def)
  then show "card (names_of empty_class_map) + length [64 :: addr, 0, 96] < SF_CLASS_MAP_CAPACITY"
    by (simp add: SF_CLASS_MAP_CAPACITY_def)
  show "inj_on (\<lambda>c. if c = 64 then Some ''A'' else Some ''B'') (set [64 :: addr, 0, 96] - {nullptr})"
    by (auto simp: inj_on_def)
qed simp

text \<open>A registration into a full map is lost without a trace.  When none of the 4096 slots is
  free or holds the name, the insert changes nothing and the class stays unknown under its
  name, for \<open>objc_lookup_class\<close> and for every other lookup.\<close>

theorem class_insert_full_dropped:
  assumes "\<not> class_map_room t name"
  shows "class_map_insert_unlocked t name cls = t
         \<and> objc_lookup_class (class_map_insert_unlocked t name cls) (Some name) = nullptr
         \<and> class_registerAlias_np t cls (Some name) = t"
proof -
  have "pt_find SF_CLASS_MAP_CAPACITY hash_cstr entry_name t name = None"
    using assms by (simp add: class_map_room_def pt_find_def)
  then have "sf_loader_class_lookup_unlocked t (Some name) = nullptr" by (simp add: lookup_find)
  with insert_full [OF assms, of cls] show ?thesis
    by (simp add: objc_lookup_class_def sf_class_from_name_def class_registerAlias_np_def)
qed

theorem class_insert_full_dropped_witness:
  "class_map_insert_unlocked (\<lambda>_. \<lparr>entry_name = Some ''A'', entry_cls = 64\<rparr>) ''B'' 96
     = (\<lambda>_. \<lparr>entry_name = Some ''A'', entry_cls = 64\<rparr>)
   \<and> objc_lookup_class
       (class_map_insert_unlocked (\<lambda>_. \<lparr>entry_name = Some ''A'', entry_cls = 64\<rparr>) ''B'' 96) (Some ''B'') = nullptr
   \<and> class_registerAlias_np (\<lambda>_. \<lparr>entry_name = Some ''A'', entry_cls = 64\<rparr>) 96 (Some ''B'')
     = (\<lambda>_. \<lparr>entry_name = Some ''A'', entry_cls = 64\<rparr>)"
  by (rule class_insert_full_dropped) (simp add: class_map_room_iff)

end
