(* ===== verification/SF_Classes.thy ===== *)
theory SF_Classes
  imports SF_Registry
begin

unbundle bit_operations_syntax

text \<open>
  Class structures and what reads them: \<open>abi.h\<close> (\<open>sf_objc_class\<close>, \<open>sf_objc_method\<close>,
  \<open>sf_objc_ivar\<close>), the walks over the superclass and metaclass chains of
  \<open>Runtime/src/loader.c\<close>, the reflection accessors, and tagged pointers.

  A class memory maps the address of a class to its fields.  A null pointer is the address 0.
  Reading an address that holds no class is a fault, and the walks return \<open>None\<close> for it, as they
  do when the chain is cyclic and the loop of the code would not end.  The method lists of a
  class are a list of lists; a method is named by its class and its position in them where its
  address matters.
\<close>

section \<open>Class structures\<close>

record SFObjCMethod =
  m_imp :: addr
  m_selector :: addr
  m_types :: "string option"

record SFObjCIvar =
  iv_name :: "string option"
  iv_type :: "string option"
  iv_offset :: "32 word option"  \<comment> \<open>the signed \<open>*ivar->offset\<close>; \<open>None\<close> for a null pointer\<close>
  iv_size :: u32

record SFObjCClass =
  isa :: addr
  superclass :: addr
  c_name :: "string option"
  instance_size :: "64 word"  \<comment> \<open>\<open>long\<close>, signed\<close>
  c_ivars :: "SFObjCIvar list"
  c_methods :: "SFObjCMethod list list"
  c_dtable :: "addr list option"

type_synonym class_mem = "addr \<rightharpoonup> SFObjCClass"

definition sf_compiler_instance_size :: "SFObjCClass option \<Rightarrow> u64" where
  "sf_compiler_instance_size cls =
     (case cls of None \<Rightarrow> 8
      | Some c \<Rightarrow>
          if sint (instance_size c) < 0 then (let size = - instance_size c in if size < 8 then 8 else size)
          else if instance_size c = 0 then 8
          else instance_size c)"

text \<open>The argument is the class behind the pointer, \<open>None\<close> for a null pointer.\<close>

definition class_getInstanceSize :: "SFObjCClass option \<Rightarrow> u64" where
  "class_getInstanceSize cls =
     (case cls of None \<Rightarrow> 8
      | Some c \<Rightarrow> (let size = sf_compiler_instance_size (Some c) in if size < 8 then 8 else size))"

definition sf_class_instance_size_fast :: "SFObjCClass option \<Rightarrow> u64" where
  "sf_class_instance_size_fast cls =
     (let size = (case cls of None \<Rightarrow> 8 | Some c \<Rightarrow> sf_compiler_instance_size (Some c))
      in if size < 8 then 8 else size)"

section \<open>Chains\<close>

text \<open>\<open>sf_next_superclass\<close> on the fields read from the cursor.\<close>

definition sf_next_superclass :: "addr \<Rightarrow> SFObjCClass \<Rightarrow> addr" where
  "sf_next_superclass cls c = (if superclass c = cls then nullptr else superclass c)"

text \<open>A superclass chain that the loops of the runtime walk to its end.\<close>

inductive super_ok :: "class_mem \<Rightarrow> addr \<Rightarrow> bool" for m where
  super_null: "super_ok m nullptr"
| super_step: "cls \<noteq> nullptr \<Longrightarrow> m cls = Some c \<Longrightarrow> super_ok m (sf_next_superclass cls c) \<Longrightarrow> super_ok m cls"

inductive_cases super_okE: "super_ok m cls"
inductive_simps super_ok_null [simp]: "super_ok m nullptr"

partial_function (option) super_chain :: "class_mem \<Rightarrow> addr \<Rightarrow> addr list option" where
  "super_chain m cls =
     (if cls = nullptr then Some []
      else case m cls of None \<Rightarrow> None
           | Some c \<Rightarrow> Option.bind (super_chain m (sf_next_superclass cls c)) (\<lambda>rest. Some (cls # rest)))"

declare super_chain.simps [code]

lemma super_chain_null [simp]: "super_chain m nullptr = Some []"
  by (simp add: super_chain.simps)

lemma super_chain_step:
  "cls \<noteq> nullptr \<Longrightarrow> m cls = Some c \<Longrightarrow>
    super_chain m cls = map_option ((#) cls) (super_chain m (sf_next_superclass cls c))"
  by (subst super_chain.simps) (simp add: map_conv_bind_option comp_def)

text \<open>The walk ends exactly on the chains of \<open>super_ok\<close>.\<close>

lemma super_ok_chain: "super_ok m cls \<Longrightarrow> \<exists>cs. super_chain m cls = Some cs"
  by (induction rule: super_ok.induct) (auto simp: super_chain_step)

lemma super_chain_ConsD:
  assumes "super_chain m cls = Some (a # cs)"
  shows "a = cls \<and> cls \<noteq> nullptr \<and> (\<exists>c. m cls = Some c \<and> super_chain m (sf_next_superclass cls c) = Some cs)"
proof -
  have cls: "cls \<noteq> nullptr" using assms by auto
  show ?thesis
  proof (cases "m cls")
    case None
    with assms cls show ?thesis by (subst (asm) super_chain.simps) simp
  next
    case (Some c)
    with assms cls show ?thesis by (auto simp: super_chain_step)
  qed
qed

lemma super_chain_NilD: "super_chain m cls = Some [] \<Longrightarrow> cls = nullptr"
  by (rule ccontr, subst (asm) super_chain.simps) (simp add: bind_eq_Some_conv split: option.splits)

lemma super_chain_ok: "super_chain m cls = Some cs \<Longrightarrow> super_ok m cls"
proof (induction cs arbitrary: cls)
  case Nil
  from super_chain_NilD [OF this] show ?case by simp
next
  case (Cons a cs)
  from super_chain_ConsD [OF Cons.prems] Cons.IH show ?case by (blast intro: super_step)
qed

lemma super_chain_mapped: "super_chain m cls = Some cs \<Longrightarrow> x \<in> set cs \<Longrightarrow> x \<noteq> nullptr \<and> m x \<noteq> None"
proof (induction cs arbitrary: cls)
  case (Cons a cs)
  show ?case
  proof (cases "x = a")
    case True
    with super_chain_ConsD [OF Cons.prems(1)] show ?thesis by auto
  next
    case False
    with Cons.prems(2) have "x \<in> set cs" by simp
    with super_chain_ConsD [OF Cons.prems(1)] Cons.IH show ?thesis by blast
  qed
qed simp

partial_function (option) subclass_loop :: "class_mem \<Rightarrow> addr \<Rightarrow> addr \<Rightarrow> bool option" where
  "subclass_loop m cursor expected_super =
     (if cursor = nullptr then Some False
      else if cursor = expected_super then Some True
      else case m cursor of None \<Rightarrow> None
           | Some c \<Rightarrow> subclass_loop m (sf_next_superclass cursor c) expected_super)"

declare subclass_loop.simps [code]

definition sf_class_is_subclass_of_unlocked :: "class_mem \<Rightarrow> addr \<Rightarrow> addr \<Rightarrow> bool option" where
  "sf_class_is_subclass_of_unlocked m cls expected_super = subclass_loop m cls expected_super"

text \<open>On a superclass chain that ends, the subclass test returns, and says whether the wanted
  class is on the chain (the class itself included); a null class is a subclass of nothing.\<close>

theorem subclass_test_correct:
  assumes "super_ok m cls"
  shows "\<exists>cs. super_chain m cls = Some cs
    \<and> sf_class_is_subclass_of_unlocked m cls expected_super = Some (expected_super \<in> set cs)"
  using assms unfolding sf_class_is_subclass_of_unlocked_def
proof (induction rule: super_ok.induct)
  case super_null
  show ?case by (subst subclass_loop.simps) simp
next
  case (super_step cls c)
  then show ?case
    by (subst subclass_loop.simps) (auto simp: super_chain_step split: option.split)
qed

definition class_demo :: "addr \<Rightarrow> addr \<Rightarrow> SFObjCClass" where
  "class_demo i s = \<lparr>isa = i, superclass = s, c_name = None, instance_size = 0, c_ivars = [],
     c_methods = [], c_dtable = None\<rparr>"

theorem subclass_test_correct_witness:
  "\<exists>cs. super_chain [0x100 \<mapsto> class_demo 0 0x200, 0x200 \<mapsto> class_demo 0 0] 0x100 = Some cs
    \<and> sf_class_is_subclass_of_unlocked [0x100 \<mapsto> class_demo 0 0x200, 0x200 \<mapsto> class_demo 0 0] 0x100 0x200
        = Some (0x200 \<in> set cs)"
proof (rule subclass_test_correct)
  let ?m = "[0x100 \<mapsto> class_demo 0 0x200, 0x200 \<mapsto> class_demo 0 0] :: class_mem"
  have "super_ok ?m 0x200"
    by (rule super_step [of _ _ "class_demo 0 0"]) (simp_all add: sf_next_superclass_def class_demo_def)
  with super_step [of "0x100" ?m "class_demo 0 0x200"] show "super_ok ?m 0x100"
    by (simp_all add: sf_next_superclass_def class_demo_def)
qed

section \<open>Reflection accessors\<close>

text \<open>The pointer arguments are the structures behind them, \<open>None\<close> for null.\<close>

definition class_getName :: "SFObjCClass option \<Rightarrow> string option" where
  "class_getName c = (case c of None \<Rightarrow> None | Some c \<Rightarrow> c_name c)"

definition class_getSuperclass :: "SFObjCClass option \<Rightarrow> addr" where
  "class_getSuperclass c = (case c of None \<Rightarrow> nullptr | Some c \<Rightarrow> superclass c)"

definition method_getName :: "SFObjCMethod option \<Rightarrow> addr" where
  "method_getName m = (case m of None \<Rightarrow> nullptr | Some m \<Rightarrow> m_selector m)"

definition method_getImplementation :: "SFObjCMethod option \<Rightarrow> addr" where
  "method_getImplementation m = (case m of None \<Rightarrow> nullptr | Some m \<Rightarrow> m_imp m)"

definition method_getTypeEncoding :: "SFObjCMethod option \<Rightarrow> string option" where
  "method_getTypeEncoding m = (case m of None \<Rightarrow> None | Some m \<Rightarrow> m_types m)"

definition ivar_getName :: "SFObjCIvar option \<Rightarrow> string option" where
  "ivar_getName v = (case v of None \<Rightarrow> None | Some v \<Rightarrow> iv_name v)"

definition ivar_getTypeEncoding :: "SFObjCIvar option \<Rightarrow> string option" where
  "ivar_getTypeEncoding v = (case v of None \<Rightarrow> None | Some v \<Rightarrow> iv_type v)"

definition ivar_getOffset :: "SFObjCIvar option \<Rightarrow> 64 word" where
  "ivar_getOffset v = (case v of None \<Rightarrow> 0
     | Some v \<Rightarrow> (case iv_offset v of None \<Rightarrow> 0 | Some off \<Rightarrow> scast off))"

definition objc_getMetaClass :: "class_mem \<Rightarrow> class_map \<Rightarrow> string option \<Rightarrow> addr option" where
  "objc_getMetaClass m t name =
     (let cls = sf_class_from_name t name
      in if cls = nullptr then Some nullptr else map_option isa (m cls))"

text \<open>\<open>class_getInstanceVariable\<close>: the first ivar of that name on the superclass chain, with the
  class it is in and its index.\<close>

fun find_index :: "('a \<Rightarrow> bool) \<Rightarrow> 'a list \<Rightarrow> nat option" where
  "find_index P [] = None"
| "find_index P (x # xs) = (if P x then Some 0 else map_option Suc (find_index P xs))"

partial_function (option) class_getInstanceVariable ::
  "class_mem \<Rightarrow> addr \<Rightarrow> string option \<Rightarrow> (addr \<times> nat) option option" where
  "class_getInstanceVariable m c name =
     (if c = nullptr then Some None
      else case m c of None \<Rightarrow> None
           | Some k \<Rightarrow>
               (case find_index (\<lambda>v. iv_name v \<noteq> None \<and> name \<noteq> None \<and> iv_name v = name) (c_ivars k) of
                  Some i \<Rightarrow> Some (Some (c, i))
                | None \<Rightarrow> class_getInstanceVariable m (sf_next_superclass c k) name))"

declare class_getInstanceVariable.simps [code]

lemma find_index_SomeD: "find_index P xs = Some i \<Longrightarrow> i < length xs \<and> P (xs ! i) \<and> (\<forall>j < i. \<not> P (xs ! j))"
  by (induction xs arbitrary: i) (auto simp: nth_Cons less_Suc_eq_0_disj split: if_splits nat.splits)

lemma find_index_None: "find_index P xs = None \<longleftrightarrow> (\<forall>x \<in> set xs. \<not> P x)"
  by (induction xs) auto

lemma class_getInstanceVariable_total:
  "super_ok m c \<Longrightarrow> \<exists>r. class_getInstanceVariable m c name = Some r"
  by (induction rule: super_ok.induct; subst class_getInstanceVariable.simps) (auto split: option.split)

text \<open>\<open>objc_copyClassList\<close>: the classes of the map in slot order, each once, however many aliases
  it has.\<close>

fun copy_classes :: "class_map \<Rightarrow> nat list \<Rightarrow> addr list \<Rightarrow> addr list" where
  "copy_classes t [] acc = acc"
| "copy_classes t (i # is) acc =
     (if entry_name (t i) = None \<or> entry_cls (t i) = nullptr \<or> entry_cls (t i) \<in> set acc
      then copy_classes t is acc
      else copy_classes t is (acc @ [entry_cls (t i)]))"

text \<open>\<open>grow_ok\<close> says whether the reallocations on the way succeed; \<open>None\<close> is a null result.\<close>

definition objc_copyClassList :: "bool \<Rightarrow> class_map \<Rightarrow> addr list option" where
  "objc_copyClassList grow_ok t =
     (let cs = copy_classes t [0..<SF_CLASS_MAP_CAPACITY] []
      in if \<not> grow_ok \<or> cs = [] then None else Some cs)"

lemma copy_classes_set:
  "set (copy_classes t is acc) = set acc \<union> {entry_cls (t i) | i. i \<in> set is \<and> entry_name (t i) \<noteq> None \<and> entry_cls (t i) \<noteq> nullptr}"
  by (induction t "is" acc rule: copy_classes.induct) auto

lemma copy_classes_distinct: "distinct acc \<Longrightarrow> distinct (copy_classes t is acc)"
  by (induction t "is" acc rule: copy_classes.induct) auto

text \<open>\<open>objc_copyClassList\<close>, when its allocations succeed, returns exactly the registered classes,
  each of them once although it may be registered under several aliases, and null only when
  there are none.\<close>

theorem copyClassList_exact:
  "distinct (case objc_copyClassList True t of None \<Rightarrow> [] | Some cs \<Rightarrow> cs)
   \<and> set (case objc_copyClassList True t of None \<Rightarrow> [] | Some cs \<Rightarrow> cs)
       = {entry_cls (t i) | i. i < SF_CLASS_MAP_CAPACITY \<and> entry_name (t i) \<noteq> None \<and> entry_cls (t i) \<noteq> nullptr}"
proof -
  let ?cs = "copy_classes t [0..<SF_CLASS_MAP_CAPACITY] []"
  have "(case objc_copyClassList True t of None \<Rightarrow> [] | Some cs \<Rightarrow> cs) = ?cs"
    by (simp add: objc_copyClassList_def Let_def)
  moreover have "distinct ?cs" by (rule copy_classes_distinct) simp
  moreover have "set ?cs = {entry_cls (t i) | i. i < SF_CLASS_MAP_CAPACITY \<and> entry_name (t i) \<noteq> None \<and> entry_cls (t i) \<noteq> nullptr}"
    by (simp add: copy_classes_set)
  ultimately show ?thesis by simp
qed

end
