(* ===== verification/SF_Chains.thy ===== *)
theory SF_Chains
  imports SF_Hash
begin

text \<open>
  Tables of hash buckets, each a list that is searched from its head and grows at its head: the
  selector table of \<open>Runtime/src/loader.c\<close>.  The discipline is stated once in the locale
  \<open>bucket_table\<close>, over an arbitrary entry type, bucket function and key.
\<close>

section \<open>Operations\<close>

definition bt_find :: "('k \<Rightarrow> nat) \<Rightarrow> ('e \<Rightarrow> 'k) \<Rightarrow> 'e list list \<Rightarrow> 'k \<Rightarrow> 'e option" where
  "bt_find bucket key t k = find (\<lambda>e. key e = k) (t ! bucket k)"

definition bt_push :: "('k \<Rightarrow> nat) \<Rightarrow> ('e \<Rightarrow> 'k) \<Rightarrow> 'e list list \<Rightarrow> 'e \<Rightarrow> 'e list list" where
  "bt_push bucket key t e = t[bucket (key e) := e # t ! bucket (key e)]"

definition bt_remove :: "('k \<Rightarrow> nat) \<Rightarrow> ('e \<Rightarrow> 'k) \<Rightarrow> 'e list list \<Rightarrow> 'e \<Rightarrow> 'e list list" where
  "bt_remove bucket key t e = t[bucket (key e) := removeAll e (t ! bucket (key e))]"

definition bt_inv :: "nat \<Rightarrow> ('k \<Rightarrow> nat) \<Rightarrow> ('e \<Rightarrow> 'k) \<Rightarrow> 'e list list \<Rightarrow> bool" where
  "bt_inv n bucket key t \<longleftrightarrow> length t = n
     \<and> (\<forall>b < n. distinct (map key (t ! b)) \<and> (\<forall>e \<in> set (t ! b). bucket (key e) = b))"

definition bt_entries :: "'e list list \<Rightarrow> 'e set" where
  "bt_entries t = set (concat t)"

lemma bt_entries_iff: "e \<in> bt_entries t \<longleftrightarrow> (\<exists>b < length t. e \<in> set (t ! b))"
  by (auto simp: bt_entries_def in_set_conv_nth) (metis nth_mem in_set_conv_nth)+

lemma find_Some_key:
  "distinct (map key xs) \<Longrightarrow> find (\<lambda>e. key e = k) xs = Some e \<longleftrightarrow> e \<in> set xs \<and> key e = k"
  by (induction xs) force+

lemma find_key_None: "find (\<lambda>e. key e = k) xs = None \<longleftrightarrow> k \<notin> key ` set xs"
  by (induction xs) auto

lemma find_map_key:
  "(\<And>e. key (f e) = key e) \<Longrightarrow>
    find (\<lambda>e. key e = k) (map f xs) = map_option f (find (\<lambda>e. key e = k) xs)"
  by (induction xs) auto

section \<open>Laws\<close>

locale bucket_table =
  fixes n :: nat
    and bucket :: "'k \<Rightarrow> nat"
    and key :: "'e \<Rightarrow> 'k"
  assumes bucket_less: "bucket k < n"
begin

lemma find_iff:
  assumes "bt_inv n bucket key t"
  shows "bt_find bucket key t k = Some e \<longleftrightarrow> e \<in> bt_entries t \<and> key e = k"
proof
  assume "bt_find bucket key t k = Some e"
  then have "e \<in> set (t ! bucket k)" "key e = k"
    using assms bucket_less by (auto simp: bt_find_def bt_inv_def find_Some_key)
  then show "e \<in> bt_entries t \<and> key e = k"
    using assms bucket_less [of k] by (auto simp: bt_entries_iff bt_inv_def)
next
  assume "e \<in> bt_entries t \<and> key e = k"
  then obtain b where b: "b < n" "e \<in> set (t ! b)" "key e = k"
    using assms by (auto simp: bt_entries_iff bt_inv_def)
  then have "b = bucket k" using assms by (auto simp: bt_inv_def)
  with b assms show "bt_find bucket key t k = Some e"
    by (auto simp: bt_find_def bt_inv_def find_Some_key)
qed

lemma key_unique:
  assumes "bt_inv n bucket key t" "e \<in> bt_entries t" "e' \<in> bt_entries t" "key e = key e'"
  shows "e = e'"
proof -
  have "bt_find bucket key t (key e) = Some e" "bt_find bucket key t (key e) = Some e'"
    using assms by (simp_all add: find_iff)
  then show ?thesis by simp
qed

lemma find_None:
  assumes "bt_inv n bucket key t"
  shows "bt_find bucket key t k = None \<longleftrightarrow> (\<forall>e \<in> bt_entries t. key e \<noteq> k)"
  using find_iff [OF assms, of k] by (metis not_None_eq)

lemma push_nth:
  assumes "bt_inv n bucket key t" "b < n"
  shows "bt_push bucket key t e ! b = (if b = bucket (key e) then e # t ! b else t ! b)"
proof -
  have "length t = n" using assms(1) by (simp add: bt_inv_def)
  with bucket_less [of "key e"] have "bucket (key e) < length t" by simp
  then show ?thesis by (cases "b = bucket (key e)") (simp_all add: bt_push_def)
qed

lemma push_length: "length (bt_push bucket key t e) = length t"
  by (simp add: bt_push_def)

lemma push_entries:
  assumes "bt_inv n bucket key t"
  shows "bt_entries (bt_push bucket key t e) = insert e (bt_entries t)"
proof (rule set_eqI)
  fix x
  have len: "length t = n" using assms by (simp add: bt_inv_def)
  have "x \<in> bt_entries (bt_push bucket key t e) \<longleftrightarrow> (\<exists>b < n. x \<in> set (if b = bucket (key e) then e # t ! b else t ! b))"
    unfolding bt_entries_iff push_length len using push_nth [OF assms, where e = e]
    by (simp cong: conj_cong)
  also have "\<dots> \<longleftrightarrow> x = e \<or> (\<exists>b < n. x \<in> set (t ! b))"
  proof
    assume "x = e \<or> (\<exists>b < n. x \<in> set (t ! b))"
    then show "\<exists>b < n. x \<in> set (if b = bucket (key e) then e # t ! b else t ! b)"
    proof
      assume "x = e"
      then show ?thesis using bucket_less [of "key e"] by (intro exI [of _ "bucket (key e)"]) simp
    next
      assume "\<exists>b < n. x \<in> set (t ! b)"
      then obtain b where "b < n" "x \<in> set (t ! b)" by blast
      then show ?thesis by (intro exI [of _ b]) auto
    qed
  qed (auto split: if_splits)
  finally show "x \<in> bt_entries (bt_push bucket key t e) \<longleftrightarrow> x \<in> insert e (bt_entries t)"
    by (simp add: bt_entries_iff len)
qed

lemma inv_push:
  assumes "bt_inv n bucket key t" "bt_find bucket key t (key e) = None"
  shows "bt_inv n bucket key (bt_push bucket key t e)"
proof -
  have "key e \<notin> key ` set (t ! bucket (key e))"
    using assms(2) by (simp add: bt_find_def find_key_None)
  moreover have "distinct (map key (t ! b))" "\<forall>e\<in>set (t ! b). bucket (key e) = b" if "b < n" for b
    using assms(1) that by (auto simp: bt_inv_def)
  ultimately show ?thesis
    using assms(1) by (simp add: bt_inv_def push_length push_nth [OF assms(1)])
qed

lemma find_push:
  assumes "bt_inv n bucket key t" "bt_find bucket key t (key e) = None"
  shows "bt_find bucket key (bt_push bucket key t e) k = (if k = key e then Some e else bt_find bucket key t k)"
proof (cases "bt_find bucket key (bt_push bucket key t e) k")
  case None
  then show ?thesis
    using find_None [OF inv_push [OF assms], of k] find_None [OF assms(1), of k]
    by (auto simp: push_entries [OF assms(1)])
next
  case (Some x)
  then have "x \<in> insert e (bt_entries t)" "key x = k"
    using find_iff [OF inv_push [OF assms]] by (auto simp: push_entries [OF assms(1)])
  then consider "x = e" "k = key e" | "x \<in> bt_entries t" "key x = k" by auto
  then show ?thesis
  proof cases
    case 1
    with Some show ?thesis by simp
  next
    case 2
    with find_iff [OF assms(1)] have "bt_find bucket key t k = Some x" by simp
    with Some 2 assms(2) show ?thesis by (cases "k = key e") simp_all
  qed
qed

text \<open>Taking an entry out.\<close>

lemma remove_nth:
  assumes "bt_inv n bucket key t" "b < n"
  shows "bt_remove bucket key t e ! b = removeAll e (t ! b)"
proof -
  have len: "length t = n" using assms(1) by (simp add: bt_inv_def)
  have "e \<notin> set (t ! b)" if "b \<noteq> bucket (key e)"
    using assms that by (auto simp: bt_inv_def)
  with len assms(2) show ?thesis
    by (cases "b = bucket (key e)") (simp_all add: bt_remove_def)
qed

lemma inv_remove: "bt_inv n bucket key t \<Longrightarrow> bt_inv n bucket key (bt_remove bucket key t e)"
  by (simp add: bt_inv_def remove_nth [unfolded bt_inv_def] distinct_map_filter removeAll_filter_not_eq)
    (simp add: bt_remove_def)

lemma remove_entries:
  assumes "bt_inv n bucket key t"
  shows "bt_entries (bt_remove bucket key t e) = bt_entries t - {e}"
proof (rule set_eqI)
  fix x
  have "x \<in> bt_entries (bt_remove bucket key t e) \<longleftrightarrow> (\<exists>b < n. x \<in> set (removeAll e (t ! b)))"
    using assms remove_nth [OF assms] by (auto simp: bt_entries_iff bt_remove_def bt_inv_def)
  then show "x \<in> bt_entries (bt_remove bucket key t e) \<longleftrightarrow> x \<in> bt_entries t - {e}"
    using assms by (auto simp: bt_entries_iff bt_inv_def)
qed

lemma find_remove:
  assumes "bt_inv n bucket key t" "e \<in> bt_entries t"
  shows "bt_find bucket key (bt_remove bucket key t e) k = (if k = key e then None else bt_find bucket key t k)"
proof (cases "k = key e")
  case True
  have "bt_find bucket key (bt_remove bucket key t e) k = None"
    unfolding find_None [OF inv_remove [OF assms(1)]] remove_entries [OF assms(1)]
    using key_unique [OF assms(1) _ assms(2)] True by blast
  with True show ?thesis by simp
next
  case False
  have "bt_find bucket key (bt_remove bucket key t e) k = Some x \<longleftrightarrow> bt_find bucket key t k = Some x" for x
    unfolding find_iff [OF inv_remove [OF assms(1)]] find_iff [OF assms(1)] remove_entries [OF assms(1)]
    using False by auto
  with False show ?thesis by (metis option.exhaust)
qed

text \<open>Changing entries without touching their keys.\<close>

lemma inv_map:
  assumes "bt_inv n bucket key t" "\<And>e. key (f e) = key e"
  shows "bt_inv n bucket key (map (map f) t)"
  using assms by (auto simp: bt_inv_def comp_def)

lemma find_map:
  assumes "bt_inv n bucket key t" "\<And>e. key (f e) = key e"
  shows "bt_find bucket key (map (map f) t) k = map_option f (bt_find bucket key t k)"
  using assms(1) bucket_less [of k] find_map_key [of key f, OF assms(2)] by (simp add: bt_find_def bt_inv_def)

end

lemma entries_map: "bt_entries (map (map f) t) = f ` bt_entries t"
  by (auto simp: bt_entries_def)

end
