(* ===== verification/SF_Selectors.thy ===== *)
theory SF_Selectors
  imports SF_Classes SF_Chains "HOL-Library.Sublist"
begin

unbundle bit_operations_syntax

text \<open>
  The selector table of \<open>Runtime/src/loader.c\<close>: 256 hash buckets of entries by name, the frozen
  selectors that \<open>sf_rebuild_frozen_selectors_unlocked\<close> allocates, one slot number each, and the
  canonical selector and slot of a selector (\<open>sf_lookup_selector_named\<close>, \<open>sf_selector_slot\<close>).

  A \<open>SEL\<close> is an address, of a frozen selector or of a selector the compiler emitted.  Strings are
  values; where the code reaches the frozen selector back from its name pointer, the model goes
  from the canonical selector.  A freed selector is unmapped and reads as one without a name.
  The results of the coming allocations are a script: the addresses \<open>malloc\<close> and \<open>calloc\<close> return
  one after the other, null for a failure, and failing for good when the script is used up.
\<close>

section \<open>State\<close>

record SFObjCSelectorFields =
  sel_name :: "string option"
  sel_types :: "string option"

record SFFrozenSelector =
  fz_sel :: SFObjCSelectorFields
  fz_slot :: u32

record SFSelectorEntry =
  se_name :: string
  se_types :: "string option"
  se_frozen :: addr

record selectors =
  g_selector_table :: "SFSelectorEntry list list"
  g_selectors_by_slot :: "addr list"
  g_selector_regions :: "(addr \<times> addr) list"
  frozen_mem :: "addr \<rightharpoonup> SFFrozenSelector"
  static_mem :: "addr \<rightharpoonup> SFObjCSelectorFields"
  alloc_script :: "addr list"

definition SF_SELECTOR_BUCKETS :: nat where "SF_SELECTOR_BUCKETS = 256"

definition next_alloc :: "selectors \<Rightarrow> addr \<times> selectors" where
  "next_alloc st = (case alloc_script st of [] \<Rightarrow> (nullptr, st)
     | p # ps \<Rightarrow> (p, st\<lparr>alloc_script := ps\<rparr>))"

definition sf_selector_fields :: "selectors \<Rightarrow> addr \<Rightarrow> SFObjCSelectorFields option" where
  "sf_selector_fields st sel =
     (if sel = nullptr then None
      else case frozen_mem st sel of Some f \<Rightarrow> Some (fz_sel f) | None \<Rightarrow> static_mem st sel)"

definition sf_selector_name :: "selectors \<Rightarrow> addr \<Rightarrow> string option" where
  "sf_selector_name st sel =
     (case sf_selector_fields st sel of Some flds \<Rightarrow> sel_name flds | None \<Rightarrow> None)"

definition sf_selector_types :: "selectors \<Rightarrow> addr \<Rightarrow> string option" where
  "sf_selector_types st sel =
     (case sf_selector_fields st sel of Some flds \<Rightarrow> sel_types flds | None \<Rightarrow> None)"

section \<open>Entries\<close>

definition selector_bucket_for_name_types :: "string \<Rightarrow> nat" where
  "selector_bucket_for_name_types name = unat (hash_cstr name AND 255)"

definition sf_selector_entry_for_name_unlocked :: "selectors \<Rightarrow> string \<Rightarrow> SFSelectorEntry option" where
  "sf_selector_entry_for_name_unlocked st name =
     (if name = [] then None
      else find (\<lambda>it. se_name it = name) (g_selector_table st ! selector_bucket_for_name_types name))"

text \<open>\<open>entry->types = owned_types\<close> on the entry the lookup found, the first of that name.\<close>

fun assign_types :: "string \<Rightarrow> string option \<Rightarrow> SFSelectorEntry list \<Rightarrow> SFSelectorEntry list" where
  "assign_types name types [] = []"
| "assign_types name types (e # es) =
     (if se_name e = name then e\<lparr>se_types := types\<rparr> # es else e # assign_types name types es)"

definition with_bucket :: "selectors \<Rightarrow> nat \<Rightarrow> (SFSelectorEntry list \<Rightarrow> SFSelectorEntry list) \<Rightarrow> selectors" where
  "with_bucket st b f = st\<lparr>g_selector_table := (g_selector_table st)[b := f (g_selector_table st ! b)]\<rparr>"

definition sf_selector_entry_insert_unlocked ::
  "selectors \<Rightarrow> string \<Rightarrow> string option \<Rightarrow> SFSelectorEntry option \<times> selectors" where
  "sf_selector_entry_insert_unlocked st name types =
     (if name = [] then (None, st)
      else let bucket = selector_bucket_for_name_types name in
        case sf_selector_entry_for_name_unlocked st name of
          Some entry \<Rightarrow>
            if se_types entry = None \<and> types \<noteq> None
            then (case next_alloc st of (owned_types, st1) \<Rightarrow>
                    if owned_types \<noteq> nullptr
                    then (Some (entry\<lparr>se_types := types\<rparr>), with_bucket st1 bucket (assign_types name types))
                    else (Some entry, st1))
            else (Some entry, st)
        | None \<Rightarrow>
            (case next_alloc st of (entry, st1) \<Rightarrow>
              if entry = nullptr then (None, st1)
              else case next_alloc st1 of (owned_name, st2) \<Rightarrow>
                if owned_name = nullptr then (None, st2)
                else if types = None
                     then (let e = \<lparr>se_name = name, se_types = None, se_frozen = nullptr\<rparr>
                           in (Some e, with_bucket st2 bucket ((#) e)))
                     else case next_alloc st2 of (owned_types, st3) \<Rightarrow>
                       if owned_types = nullptr then (None, st3)
                       else (let e = \<lparr>se_name = name, se_types = types, se_frozen = nullptr\<rparr>
                             in (Some e, with_bucket st3 bucket ((#) e)))))"

definition sf_frozen_selector_for_name_unlocked :: "selectors \<Rightarrow> string \<Rightarrow> addr" where
  "sf_frozen_selector_for_name_unlocked st name =
     (case sf_selector_entry_for_name_unlocked st name of Some entry \<Rightarrow> se_frozen entry | None \<Rightarrow> nullptr)"

definition sf_lookup_selector_named :: "selectors \<Rightarrow> string option \<Rightarrow> addr" where
  "sf_lookup_selector_named st name =
     (case name of None \<Rightarrow> nullptr
      | Some n \<Rightarrow> if n = [] then nullptr else sf_frozen_selector_for_name_unlocked st n)"

definition sel_registerName :: "selectors \<Rightarrow> string option \<Rightarrow> addr" where
  "sel_registerName st name = sf_lookup_selector_named st name"

definition sel_getName :: "selectors \<Rightarrow> addr \<Rightarrow> string option" where
  "sel_getName st sel = (if sel = nullptr then None else sf_selector_name st sel)"

definition sf_loader_intern_selector_name_types ::
  "selectors \<Rightarrow> string option \<Rightarrow> string option \<Rightarrow> addr \<times> selectors" where
  "sf_loader_intern_selector_name_types st name types =
     (case name of None \<Rightarrow> (nullptr, st)
      | Some n \<Rightarrow>
          if n = [] then (nullptr, st)
          else case sf_selector_entry_insert_unlocked st n types of
                 (Some entry, st1) \<Rightarrow> (if se_frozen entry \<noteq> nullptr then se_frozen entry else nullptr, st1)
               | (None, st1) \<Rightarrow> (nullptr, st1))"

text \<open>\<open>sel->name = f.name, sel->types = f.types\<close> on a selector in memory.\<close>

definition set_selector :: "selectors \<Rightarrow> addr \<Rightarrow> SFObjCSelectorFields \<Rightarrow> selectors" where
  "set_selector st sel f =
     (case frozen_mem st sel of
        Some fz \<Rightarrow> st\<lparr>frozen_mem := (frozen_mem st)(sel \<mapsto> fz\<lparr>fz_sel := f\<rparr>)\<rparr>
      | None \<Rightarrow> st\<lparr>static_mem := (static_mem st)(sel \<mapsto> f)\<rparr>)"

definition sf_intern_selector :: "selectors \<Rightarrow> addr \<Rightarrow> addr \<times> selectors" where
  "sf_intern_selector st sel =
     (case sf_selector_name st sel of None \<Rightarrow> (nullptr, st)
      | Some n \<Rightarrow>
          if n = [] then (nullptr, st)
          else let interned = sf_lookup_selector_named st (Some n) in
            (case sf_selector_fields st interned of
               Some f \<Rightarrow> (interned, set_selector st sel f)
             | None \<Rightarrow> (sel, snd (sf_selector_entry_insert_unlocked st n (sf_selector_types st sel)))))"

definition sf_selector_slot :: "selectors \<Rightarrow> addr \<Rightarrow> u32" where
  "sf_selector_slot st sel =
     (if sel = nullptr then UINT32_MAX
      else case sf_selector_name st sel of None \<Rightarrow> UINT32_MAX
      | Some name \<Rightarrow>
          (let canonical = sf_lookup_selector_named st (Some name) in
           if canonical = nullptr then UINT32_MAX
           else case sf_selector_name st canonical of None \<Rightarrow> UINT32_MAX
           | Some _ \<Rightarrow> (case frozen_mem st canonical of None \<Rightarrow> UINT32_MAX | Some frozen \<Rightarrow> fz_slot frozen)))"

definition sf_runtime_selector_count :: "selectors \<Rightarrow> nat" where
  "sf_runtime_selector_count st = length (g_selectors_by_slot st)"

section \<open>Regions\<close>

text \<open>\<open>for (SEL sel = start; sel < stop; ++sel)\<close>: a selector is two pointers wide.\<close>

definition region_sels :: "addr \<times> addr \<Rightarrow> addr list" where
  "region_sels r = (case r of (start, stop) \<Rightarrow>
     map (\<lambda>i. start + 16 * of_nat i) [0..<(unat stop - unat start + 15) div 16])"

fun insert_sels :: "selectors \<Rightarrow> addr list \<Rightarrow> selectors" where
  "insert_sels st [] = st"
| "insert_sels st (sel # sels) =
     (case sf_selector_name st sel of None \<Rightarrow> insert_sels st sels
      | Some n \<Rightarrow> if n = [] then insert_sels st sels
                  else insert_sels (snd (sf_selector_entry_insert_unlocked st n (sf_selector_types st sel))) sels)"

definition sf_loader_register_selector_region :: "selectors \<Rightarrow> addr \<Rightarrow> addr \<Rightarrow> selectors" where
  "sf_loader_register_selector_region st start stop =
     (if start = nullptr \<or> stop = nullptr \<or> stop \<le> start then st
      else case next_alloc st of (region, st1) \<Rightarrow>
        if region = nullptr then st1
        else insert_sels (st1\<lparr>g_selector_regions := (start, stop) # g_selector_regions st1\<rparr>)
               (region_sels (start, stop)))"

section \<open>Collecting\<close>

text \<open>The class and its metaclasses, up to the one that is its own \<open>isa\<close>.\<close>

partial_function (option) isa_chain :: "class_mem \<Rightarrow> addr \<Rightarrow> addr list option" where
  "isa_chain m c =
     (if c = nullptr then Some []
      else case m c of None \<Rightarrow> None
           | Some k \<Rightarrow> if isa k = c then Some [c]
                        else Option.bind (isa_chain m (isa k)) (\<lambda>rest. Some (c # rest)))"

declare isa_chain.simps [code]

fun registered_classes :: "class_mem \<Rightarrow> class_map \<Rightarrow> nat list \<Rightarrow> addr list option" where
  "registered_classes m cmap [] = Some []"
| "registered_classes m cmap (i # is) =
     (if entry_name (cmap i) = None \<or> entry_cls (cmap i) = nullptr then registered_classes m cmap is
      else case isa_chain m (entry_cls (cmap i)) of None \<Rightarrow> None
           | Some cs \<Rightarrow> map_option ((@) cs) (registered_classes m cmap is))"

definition class_methods_of :: "class_mem \<Rightarrow> addr \<Rightarrow> SFObjCMethod list" where
  "class_methods_of m c = (case m c of None \<Rightarrow> [] | Some k \<Rightarrow> concat (c_methods k))"

fun insert_methods :: "selectors \<Rightarrow> SFObjCMethod list \<Rightarrow> selectors" where
  "insert_methods st [] = st"
| "insert_methods st (meth # ms) =
     (let name = (if m_selector meth \<noteq> nullptr then sf_selector_name st (m_selector meth) else None);
          types = (if m_selector meth \<noteq> nullptr \<and> sf_selector_types st (m_selector meth) \<noteq> None
                   then sf_selector_types st (m_selector meth) else m_types meth)
      in case name of None \<Rightarrow> insert_methods st ms
         | Some n \<Rightarrow> if n = [] then insert_methods st ms
                     else insert_methods (snd (sf_selector_entry_insert_unlocked st n types)) ms)"

fun insert_builtins :: "selectors \<Rightarrow> (string \<times> string option) list \<Rightarrow> selectors" where
  "insert_builtins st [] = st"
| "insert_builtins st ((n, t) # bs) = insert_builtins (snd (sf_selector_entry_insert_unlocked st n t)) bs"

definition builtin_selectors :: "(string \<times> string option) list" where
  "builtin_selectors =
     [(''dealloc'', Some ''v16@0:8''), (''allocWithAllocator:'', Some ''@24@0:8^v16''),
      (''init'', Some ''@16@0:8''), (''forwardingTargetForSelector:'', Some ''@24@0:8:16''),
      (''.cxx_destruct'', Some ''v16@0:8''), (''taggedPointerSlot'', None)]"

definition sf_collect_runtime_selectors_unlocked ::
  "class_mem \<Rightarrow> class_map \<Rightarrow> selectors \<Rightarrow> selectors option" where
  "sf_collect_runtime_selectors_unlocked m cmap st =
     (let st1 = insert_sels st (concat (map region_sels (g_selector_regions st)))
      in case registered_classes m cmap [0..<SF_CLASS_MAP_CAPACITY] of None \<Rightarrow> None
         | Some cs \<Rightarrow> Some (insert_builtins (insert_methods st1 (concat (map (class_methods_of m) cs)))
                                            builtin_selectors))"

section \<open>Freezing\<close>

text \<open>The loop over a bucket: \<open>acc\<close> is \<open>new_selectors\<close>, whose length is \<open>slot_index\<close>.\<close>

fun freeze_bucket :: "selectors \<Rightarrow> addr list \<Rightarrow> SFSelectorEntry list \<Rightarrow> SFSelectorEntry list \<times> addr list \<times> selectors" where
  "freeze_bucket st acc [] = ([], acc, st)"
| "freeze_bucket st acc (entry # es) =
     (case next_alloc st of (frozen, st1) \<Rightarrow>
        if frozen = nullptr
        then (case freeze_bucket st1 acc es of (es', acc', st') \<Rightarrow> (entry # es', acc', st'))
        else (case freeze_bucket
                 (st1\<lparr>frozen_mem := (frozen_mem st1)(frozen \<mapsto>
                    \<lparr>fz_sel = \<lparr>sel_name = Some (se_name entry), sel_types = se_types entry\<rparr>,
                     fz_slot = of_nat (length acc)\<rparr>)\<rparr>)
                 (acc @ [frozen]) es of
              (es', acc', st') \<Rightarrow> (entry\<lparr>se_frozen := frozen\<rparr> # es', acc', st')))"

fun freeze_table :: "selectors \<Rightarrow> addr list \<Rightarrow> SFSelectorEntry list list \<Rightarrow> SFSelectorEntry list list \<times> addr list \<times> selectors" where
  "freeze_table st acc [] = ([], acc, st)"
| "freeze_table st acc (b # bs) =
     (case freeze_bucket st acc b of (b', acc1, st1) \<Rightarrow>
        (case freeze_table st1 acc1 bs of (bs', acc', st') \<Rightarrow> (b' # bs', acc', st')))"

fun refresh_sels :: "selectors \<Rightarrow> addr list \<Rightarrow> selectors" where
  "refresh_sels st [] = st"
| "refresh_sels st (sel # sels) =
     (case sf_selector_name st sel of None \<Rightarrow> refresh_sels st sels
      | Some n \<Rightarrow>
          if n = [] then refresh_sels st sels
          else case sf_selector_fields st (sf_frozen_selector_for_name_unlocked st n) of
                 None \<Rightarrow> refresh_sels st sels
               | Some f \<Rightarrow> refresh_sels (set_selector st sel f) sels)"

definition refresh_method :: "selectors \<Rightarrow> SFObjCMethod \<Rightarrow> SFObjCMethod" where
  "refresh_method st meth =
     (case (if m_selector meth \<noteq> nullptr then sf_selector_name st (m_selector meth) else None) of
        None \<Rightarrow> meth
      | Some n \<Rightarrow>
          if n = [] then meth
          else let frozen = sf_frozen_selector_for_name_unlocked st n in
            if frozen = nullptr then meth
            else meth\<lparr>m_selector := frozen, m_types := sf_selector_types st frozen\<rparr>)"

definition refresh_class :: "selectors \<Rightarrow> addr \<Rightarrow> class_mem \<Rightarrow> class_mem" where
  "refresh_class st c m =
     (case m c of None \<Rightarrow> m
      | Some k \<Rightarrow> m(c \<mapsto> k\<lparr>c_methods := map (map (refresh_method st)) (c_methods k)\<rparr>))"

definition unfreeze_entry :: "SFSelectorEntry \<Rightarrow> SFSelectorEntry" where
  "unfreeze_entry e = e\<lparr>se_frozen := nullptr\<rparr>"

definition sf_rebuild_frozen_selectors_unlocked ::
  "class_mem \<Rightarrow> class_map \<Rightarrow> selectors \<Rightarrow> (selectors \<times> class_mem) option" where
  "sf_rebuild_frozen_selectors_unlocked m cmap st =
     (let old_selectors = g_selectors_by_slot st in
      case sf_collect_runtime_selectors_unlocked m cmap st of None \<Rightarrow> None
      | Some st1 \<Rightarrow>
        let st2 = st1\<lparr>g_selector_table := map (map unfreeze_entry) (g_selector_table st1)\<rparr>;
            selector_count = length (concat (g_selector_table st2)) in
        case (if selector_count > 0 then next_alloc st2 else (nullptr, st2)) of (new_selectors, st3) \<Rightarrow>
        if selector_count > 0 \<and> new_selectors = nullptr then Some (st3, m)
        else case freeze_table st3 [] (g_selector_table st3) of (table, acc, st4) \<Rightarrow>
          let st5 = st4\<lparr>g_selector_table := table, g_selectors_by_slot := acc\<rparr>;
              st6 = refresh_sels st5 (concat (map region_sels (g_selector_regions st5))) in
          case registered_classes m cmap [0..<SF_CLASS_MAP_CAPACITY] of None \<Rightarrow> None
          | Some cs \<Rightarrow>
              Some (st6\<lparr>frozen_mem := (frozen_mem st6) |` (- set old_selectors)\<rparr>,
                    fold (refresh_class st6) cs m))"

section \<open>The table is a bucket table\<close>

lemma selector_bucket_less: "selector_bucket_for_name_types name < SF_SELECTOR_BUCKETS"
proof -
  have "(255 :: u64) = mask 8" by (simp add: mask_eq_exp_minus_1)
  then show ?thesis
    unfolding selector_bucket_for_name_types_def SF_SELECTOR_BUCKETS_def
    by (simp only: unat_and_mask) simp
qed

interpretation seltab: bucket_table SF_SELECTOR_BUCKETS selector_bucket_for_name_types se_name
  by unfold_locales (rule selector_bucket_less)

abbreviation table_ok :: "SFSelectorEntry list list \<Rightarrow> bool" where
  "table_ok t \<equiv> bt_inv SF_SELECTOR_BUCKETS selector_bucket_for_name_types se_name t"

lemma entry_for_name_find:
  "n \<noteq> [] \<Longrightarrow> sf_selector_entry_for_name_unlocked st n =
     bt_find selector_bucket_for_name_types se_name (g_selector_table st) n"
  by (simp add: sf_selector_entry_for_name_unlocked_def bt_find_def)

definition retype :: "string \<Rightarrow> string option \<Rightarrow> SFSelectorEntry \<Rightarrow> SFSelectorEntry" where
  "retype n t e = (if se_name e = n then e\<lparr>se_types := t\<rparr> else e)"

lemma retype_simps [simp]: "se_name (retype n t e) = se_name e" "se_frozen (retype n t e) = se_frozen e"
  by (simp_all add: retype_def)

lemma unfreeze_simps [simp]: "se_name (unfreeze_entry e) = se_name e" "se_frozen (unfreeze_entry e) = nullptr"
  by (simp_all add: unfreeze_entry_def)

lemma assign_types_map: "distinct (map se_name es) \<Longrightarrow> assign_types n t es = map (retype n t) es"
proof (induction es)
  case (Cons e es)
  have "\<forall>x\<in>set es. retype n t x = x" if "n \<notin> se_name ` set es"
    using that by (auto simp: retype_def)
  with Cons show ?case by (auto simp: retype_def map_idI)
qed simp

lemma with_bucket_types:
  assumes "table_ok (g_selector_table st)"
  shows "g_selector_table (with_bucket st (selector_bucket_for_name_types n) (assign_types n t)) =
    map (map (retype n t)) (g_selector_table st)"
proof (rule nth_equalityI)
  fix b assume "b < length (g_selector_table (with_bucket st (selector_bucket_for_name_types n) (assign_types n t)))"
  then have b: "b < length (g_selector_table st)" by (simp add: with_bucket_def)
  then have ok: "distinct (map se_name (g_selector_table st ! b))"
    "\<forall>e\<in>set (g_selector_table st ! b). selector_bucket_for_name_types (se_name e) = b"
    using assms by (auto simp: bt_inv_def)
  show "g_selector_table (with_bucket st (selector_bucket_for_name_types n) (assign_types n t)) ! b =
    map (map (retype n t)) (g_selector_table st) ! b"
  proof (cases "b = selector_bucket_for_name_types n")
    case True
    with b ok show ?thesis by (simp add: with_bucket_def assign_types_map)
  next
    case False
    with ok(2) have "map (retype n t) (g_selector_table st ! b) = g_selector_table st ! b"
      by (intro map_idI) (auto simp: retype_def)
    with b False show ?thesis by (simp add: with_bucket_def)
  qed
qed (simp add: with_bucket_def)

lemma with_bucket_push:
  "se_name e = n \<Longrightarrow> g_selector_table (with_bucket st (selector_bucket_for_name_types n) ((#) e)) =
    bt_push selector_bucket_for_name_types se_name (g_selector_table st) e"
  by (simp add: with_bucket_def bt_push_def)

lemma with_bucket_other [simp]:
  "g_selectors_by_slot (with_bucket st b f) = g_selectors_by_slot st"
  "g_selector_regions (with_bucket st b f) = g_selector_regions st"
  "frozen_mem (with_bucket st b f) = frozen_mem st" "static_mem (with_bucket st b f) = static_mem st"
  "alloc_script (with_bucket st b f) = alloc_script st"
  by (simp_all add: with_bucket_def)

lemma next_alloc_other:
  "next_alloc st = (p, st') \<Longrightarrow> g_selector_table st' = g_selector_table st \<and> g_selectors_by_slot st' = g_selectors_by_slot st
     \<and> g_selector_regions st' = g_selector_regions st \<and> frozen_mem st' = frozen_mem st \<and> static_mem st' = static_mem st
     \<and> suffix (alloc_script st') (alloc_script st)"
  by (auto simp: next_alloc_def suffix_def split: list.splits)

section \<open>The invariant\<close>

text \<open>A frozen selector of an entry carries the entry's name and the slot it is stored under.\<close>

definition entry_ok :: "(addr \<rightharpoonup> SFFrozenSelector) \<Rightarrow> addr list \<Rightarrow> SFSelectorEntry \<Rightarrow> bool" where
  "entry_ok fm slots e \<longleftrightarrow> se_name e \<noteq> []
     \<and> (se_frozen e = nullptr
        \<or> (\<exists>fz. fm (se_frozen e) = Some fz \<and> sel_name (fz_sel fz) = Some (se_name e)
              \<and> unat (fz_slot fz) < length slots \<and> slots ! unat (fz_slot fz) = se_frozen e))"

definition sel_inv :: "selectors \<Rightarrow> bool" where
  "sel_inv st \<longleftrightarrow> table_ok (g_selector_table st)
     \<and> (\<forall>e \<in> bt_entries (g_selector_table st). entry_ok (frozen_mem st) (g_selectors_by_slot st) e)
     \<and> distinct (g_selectors_by_slot st) \<and> set (g_selectors_by_slot st) \<subseteq> dom (frozen_mem st)
     \<and> nullptr \<notin> dom (frozen_mem st) \<and> length (g_selectors_by_slot st) < unat UINT32_MAX"

text \<open>Allocations return fresh, pairwise different memory.\<close>

definition script_ok :: "selectors \<Rightarrow> bool" where
  "script_ok st \<longleftrightarrow> distinct (filter (\<lambda>p. p \<noteq> nullptr) (alloc_script st))
     \<and> (\<forall>p \<in> set (alloc_script st). p \<noteq> nullptr \<longrightarrow> p \<notin> dom (frozen_mem st) \<and> p \<notin> dom (static_mem st))"

lemma sel_inv_cong:
  "sel_inv st \<Longrightarrow> g_selector_table st' = g_selector_table st \<Longrightarrow> frozen_mem st' = frozen_mem st
    \<Longrightarrow> g_selectors_by_slot st' = g_selectors_by_slot st \<Longrightarrow> sel_inv st'"
  by (simp add: sel_inv_def)

lemma script_ok_suffix:
  "script_ok st \<Longrightarrow> suffix (alloc_script st') (alloc_script st) \<Longrightarrow> frozen_mem st' = frozen_mem st
    \<Longrightarrow> static_mem st' = static_mem st \<Longrightarrow> script_ok st'"
  by (auto simp: script_ok_def suffix_def)

text \<open>What an insertion does to the table: nothing when memory runs out, and otherwise an entry
  for the name, with types if it had none.\<close>

definition inserted :: "selectors \<Rightarrow> string \<Rightarrow> string option \<Rightarrow> SFSelectorEntry option \<times> selectors \<Rightarrow> bool" where
  "inserted st n t r \<longleftrightarrow>
     (let t0 = g_selector_table st; t1 = g_selector_table (snd r) in
      case bt_find selector_bucket_for_name_types se_name t0 n of
        Some e \<Rightarrow> (fst r = Some e \<and> t1 = t0)
                 \<or> (se_types e = None \<and> t \<noteq> None \<and> fst r = Some (e\<lparr>se_types := t\<rparr>) \<and> t1 = map (map (retype n t)) t0)
      | None \<Rightarrow> (fst r = None \<and> t1 = t0)
              \<or> (let e = \<lparr>se_name = n, se_types = t, se_frozen = nullptr\<rparr> in
                 fst r = Some e \<and> t1 = bt_push selector_bucket_for_name_types se_name t0 e))"

lemma insert_effect:
  assumes "table_ok (g_selector_table st)" "n \<noteq> []"
  shows "inserted st n t (sf_selector_entry_insert_unlocked st n t)
    \<and> g_selectors_by_slot (snd (sf_selector_entry_insert_unlocked st n t)) = g_selectors_by_slot st
    \<and> g_selector_regions (snd (sf_selector_entry_insert_unlocked st n t)) = g_selector_regions st
    \<and> frozen_mem (snd (sf_selector_entry_insert_unlocked st n t)) = frozen_mem st
    \<and> static_mem (snd (sf_selector_entry_insert_unlocked st n t)) = static_mem st
    \<and> suffix (alloc_script (snd (sf_selector_entry_insert_unlocked st n t))) (alloc_script st)"
proof (cases "bt_find selector_bucket_for_name_types se_name (g_selector_table st) n")
  case (Some e)
  note find = entry_for_name_find [OF assms(2), of st, unfolded Some]
  show ?thesis
  proof (cases "se_types e = None \<and> t \<noteq> None")
    case True
    obtain p st1 where a: "next_alloc st = (p, st1)" by (cases "next_alloc st")
    note o = next_alloc_other [OF a]
    have w: "g_selector_table (with_bucket st1 (selector_bucket_for_name_types n) (assign_types n t)) =
        map (map (retype n t)) (g_selector_table st)"
      using with_bucket_types [of st1] assms(1) o by simp
    show ?thesis
      using True o w assms(2)
      by (simp add: sf_selector_entry_insert_unlocked_def find a inserted_def Some Let_def)
  next
    case False
    then show ?thesis
      using assms(2) by (auto simp: sf_selector_entry_insert_unlocked_def find inserted_def Some Let_def)
  qed
next
  case None
  note find = entry_for_name_find [OF assms(2), of st, unfolded None]
  obtain p1 st1 where a1: "next_alloc st = (p1, st1)" by (cases "next_alloc st")
  obtain p2 st2 where a2: "next_alloc st1 = (p2, st2)" by (cases "next_alloc st1")
  obtain p3 st3 where a3: "next_alloc st2 = (p3, st3)" by (cases "next_alloc st2")
  note o = next_alloc_other [OF a1] next_alloc_other [OF a2] next_alloc_other [OF a3]
  have s: "suffix (alloc_script st2) (alloc_script st)" "suffix (alloc_script st3) (alloc_script st)"
    using o by (metis suffix_order.order_trans)+
  show ?thesis
    using o s assms(2)
    by (simp add: sf_selector_entry_insert_unlocked_def find a1 a2 a3 inserted_def None Let_def
        with_bucket_push split: if_split)
qed

lemma entry_ok_retype: "entry_ok fm bs e \<Longrightarrow> entry_ok fm bs (retype n t e)"
  by (simp add: entry_ok_def)

lemma inserted_table_ok:
  assumes "table_ok (g_selector_table st)" "inserted st n t r"
  shows "table_ok (g_selector_table (snd r))"
proof (cases "bt_find selector_bucket_for_name_types se_name (g_selector_table st) n")
  case None
  then have "table_ok (bt_push selector_bucket_for_name_types se_name (g_selector_table st)
      \<lparr>se_name = n, se_types = t, se_frozen = nullptr\<rparr>)"
    by (intro seltab.inv_push assms(1)) simp
  with None assms show ?thesis by (auto simp: inserted_def Let_def)
next
  case (Some e)
  with assms seltab.inv_map [OF assms(1), of "retype n t"] show ?thesis
    by (auto simp: inserted_def Let_def)
qed

lemma inserted_entries:
  assumes "table_ok (g_selector_table st)" "inserted st n t r" "e \<in> bt_entries (g_selector_table (snd r))"
  shows "e \<in> bt_entries (g_selector_table st) \<or> (\<exists>e0 \<in> bt_entries (g_selector_table st). e = retype n t e0)
    \<or> e = \<lparr>se_name = n, se_types = t, se_frozen = nullptr\<rparr>"
proof (cases "bt_find selector_bucket_for_name_types se_name (g_selector_table st) n")
  case None
  with assms show ?thesis
    by (auto simp: inserted_def Let_def seltab.push_entries)
next
  case (Some e')
  with assms show ?thesis by (auto simp: inserted_def Let_def entries_map)
qed

lemma sel_inv_insert:
  assumes "sel_inv st" "n \<noteq> []"
  shows "sel_inv (snd (sf_selector_entry_insert_unlocked st n t))"
proof -
  have ok: "table_ok (g_selector_table st)" using assms(1) by (simp add: sel_inv_def)
  let ?r = "sf_selector_entry_insert_unlocked st n t"
  note eff = insert_effect [OF ok assms(2), of t]
  then have ins: "inserted st n t ?r" by blast
  have "entry_ok (frozen_mem st) (g_selectors_by_slot st) e" if "e \<in> bt_entries (g_selector_table (snd ?r))" for e
    using inserted_entries [OF ok ins that] assms
    by (auto simp: sel_inv_def entry_ok_retype) (simp add: entry_ok_def)
  with eff inserted_table_ok [OF ok ins] assms(1) show ?thesis
    by (simp add: sel_inv_def)
qed

lemma script_ok_insert:
  assumes "sel_inv st" "script_ok st" "n \<noteq> []"
  shows "script_ok (snd (sf_selector_entry_insert_unlocked st n t))"
  using insert_effect [of st n t] assms by (auto simp: sel_inv_def intro: script_ok_suffix)

definition entry_frozen :: "SFSelectorEntry option \<Rightarrow> addr" where
  "entry_frozen e = (case e of None \<Rightarrow> nullptr | Some e \<Rightarrow> se_frozen e)"

lemma insert_lookup_laws:
  assumes "sel_inv st" "n \<noteq> []"
  shows "sel_inv (snd (sf_selector_entry_insert_unlocked st n t))
    \<and> (\<forall>n'. n' \<noteq> n \<longrightarrow> sf_selector_entry_for_name_unlocked (snd (sf_selector_entry_insert_unlocked st n t)) n'
                         = sf_selector_entry_for_name_unlocked st n')
    \<and> sf_selector_entry_for_name_unlocked (snd (sf_selector_entry_insert_unlocked st n t)) n
        = fst (sf_selector_entry_insert_unlocked st n t)
    \<and> entry_frozen (fst (sf_selector_entry_insert_unlocked st n t))
        = entry_frozen (sf_selector_entry_for_name_unlocked st n)
    \<and> (sf_selector_entry_for_name_unlocked st n \<noteq> None \<longrightarrow> fst (sf_selector_entry_insert_unlocked st n t) \<noteq> None)"
proof -
  have ok: "table_ok (g_selector_table st)" using assms(1) by (simp add: sel_inv_def)
  let ?r = "sf_selector_entry_insert_unlocked st n t"
  let ?find = "\<lambda>st. bt_find selector_bucket_for_name_types se_name (g_selector_table st)"
  have ins: "inserted st n t ?r" using insert_effect [OF ok assms(2), of t] by blast
  have ren: "map_option (retype n t) (?find st n') = ?find st n'" if "n' \<noteq> n" for n'
  proof (cases "?find st n'")
    case (Some e)
    then have "se_name e = n'" using seltab.find_iff [OF ok] by blast
    with Some that show ?thesis by (simp add: retype_def)
  qed simp
  have same: "?find (snd ?r) n = fst ?r \<and> entry_frozen (fst ?r) = entry_frozen (?find st n)
      \<and> (?find st n \<noteq> None \<longrightarrow> fst ?r \<noteq> None)"
  proof (cases "?find st n")
    case None
    then show ?thesis
      using ins seltab.find_push [OF ok, of "\<lparr>se_name = n, se_types = t, se_frozen = nullptr\<rparr>" n]
      by (auto simp: inserted_def Let_def entry_frozen_def)
  next
    case (Some e)
    then have "se_name e = n" using seltab.find_iff [OF ok] by blast
    with Some show ?thesis
      using ins seltab.find_map [OF ok, of "retype n t" n]
      by (auto simp: inserted_def Let_def entry_frozen_def) (simp_all add: retype_def)
  qed
  have other: "?find (snd ?r) n' = ?find st n'" if "n' \<noteq> n" for n'
  proof (cases "?find st n")
    case None
    with that show ?thesis
      using ins seltab.find_push [OF ok, of "\<lparr>se_name = n, se_types = t, se_frozen = nullptr\<rparr>" n']
      by (auto simp: inserted_def Let_def)
  next
    case (Some e)
    then show ?thesis
      using ins seltab.find_map [OF ok, of "retype n t" n'] ren [OF that]
      by (auto simp: inserted_def Let_def)
  qed
  have "sf_selector_entry_for_name_unlocked (snd ?r) n' = sf_selector_entry_for_name_unlocked st n'" if "n' \<noteq> n" for n'
    using other [OF that]
    by (cases "n' = []") (simp_all add: entry_for_name_find, simp add: sf_selector_entry_for_name_unlocked_def)
  with same sel_inv_insert [OF assms, of t] assms(2) show ?thesis
    by (simp add: entry_for_name_find)
qed


text \<open>Inserting a selector keeps the table well-formed and never disturbs another name; unless an
  allocation fails the name is then found, with the types it had or, if it had none, the new ones,
  and an entry that is already frozen keeps its frozen selector.  When the insertion fails it
  returns null and leaves the table as it was.\<close>

theorem selector_insert_lookup:
  assumes "sel_inv st" "n \<noteq> []"
  shows "sel_inv (snd (sf_selector_entry_insert_unlocked st n t))
    \<and> (\<forall>n'. n' \<noteq> n \<longrightarrow> sf_selector_entry_for_name_unlocked (snd (sf_selector_entry_insert_unlocked st n t)) n'
                         = sf_selector_entry_for_name_unlocked st n')
    \<and> sf_selector_entry_for_name_unlocked (snd (sf_selector_entry_insert_unlocked st n t)) n
        = fst (sf_selector_entry_insert_unlocked st n t)
    \<and> entry_frozen (fst (sf_selector_entry_insert_unlocked st n t))
        = entry_frozen (sf_selector_entry_for_name_unlocked st n)
    \<and> (sf_selector_entry_for_name_unlocked st n \<noteq> None \<longrightarrow> fst (sf_selector_entry_insert_unlocked st n t) \<noteq> None)"
  by (rule insert_lookup_laws [OF assms])

definition empty_selectors :: "addr list \<Rightarrow> selectors" where
  "empty_selectors script = \<lparr>g_selector_table = replicate 256 [], g_selectors_by_slot = [], g_selector_regions = [],
     frozen_mem = Map.empty, static_mem = Map.empty, alloc_script = script\<rparr>"

lemma sel_inv_empty: "sel_inv (empty_selectors script)"
  by (auto simp: sel_inv_def empty_selectors_def bt_inv_def SF_SELECTOR_BUCKETS_def bt_entries_def)

theorem selector_insert_lookup_witness:
  "sf_selector_entry_for_name_unlocked
     (snd (sf_selector_entry_insert_unlocked (empty_selectors [0x10, 0x20]) ''init'' None)) ''init''
   = fst (sf_selector_entry_insert_unlocked (empty_selectors [0x10, 0x20]) ''init'' None)"
  using selector_insert_lookup [OF sel_inv_empty, of "''init''" "[0x10, 0x20]" None] by simp

section \<open>Slots identify names\<close>

lemma entry_for_name_iff:
  assumes "sel_inv st" "n \<noteq> []"
  shows "sf_selector_entry_for_name_unlocked st n = Some e \<longleftrightarrow> e \<in> bt_entries (g_selector_table st) \<and> se_name e = n"
  using assms seltab.find_iff [of "g_selector_table st" n e] by (simp add: entry_for_name_find sel_inv_def)

lemma frozen_for_name:
  assumes "sel_inv st" "sf_lookup_selector_named st (Some n) = p" "p \<noteq> nullptr"
  obtains e fz where "e \<in> bt_entries (g_selector_table st)" "se_name e = n" "se_frozen e = p"
    "frozen_mem st p = Some fz" "sel_name (fz_sel fz) = Some n"
    "unat (fz_slot fz) < length (g_selectors_by_slot st)" "g_selectors_by_slot st ! unat (fz_slot fz) = p"
proof -
  have n: "n \<noteq> []" using assms(2,3) by (auto simp: sf_lookup_selector_named_def)
  obtain e where e: "sf_selector_entry_for_name_unlocked st n = Some e" "se_frozen e = p"
    using assms(2,3) n
    by (auto simp: sf_lookup_selector_named_def sf_frozen_selector_for_name_unlocked_def split: option.splits)
  then have m: "e \<in> bt_entries (g_selector_table st)" "se_name e = n"
    using entry_for_name_iff [OF assms(1) n] by blast+
  then have "entry_ok (frozen_mem st) (g_selectors_by_slot st) e" using assms(1) by (simp add: sel_inv_def)
  with e(2) assms(3) m that show ?thesis by (auto simp: entry_ok_def)
qed

lemma selector_slot_eq:
  assumes "sel_inv st" "sf_selector_name st s = Some n"
  shows "sf_selector_slot st s =
    (case frozen_mem st (sf_lookup_selector_named st (Some n)) of None \<Rightarrow> UINT32_MAX | Some fz \<Rightarrow> fz_slot fz)"
proof (cases "sf_lookup_selector_named st (Some n) = nullptr")
  case True
  then show ?thesis using assms by (auto simp: sf_selector_slot_def sel_inv_def domIff)
next
  case False
  obtain e fz where "frozen_mem st (sf_lookup_selector_named st (Some n)) = Some fz" "sel_name (fz_sel fz) = Some n"
    using frozen_for_name [OF assms(1) refl False] by metis
  moreover have "s \<noteq> nullptr" using assms(2) by (auto simp: sf_selector_name_def sf_selector_fields_def)
  ultimately show ?thesis
    using False assms(2) by (simp add: sf_selector_slot_def sf_selector_name_def sf_selector_fields_def)
qed

text \<open>A slot other than the one for unknown selectors is an index of the slot table, which holds the
  canonical selector of that name there.\<close>

lemma selector_slot_frozen:
  assumes "sel_inv st" "sf_selector_name st s = Some n" "sf_selector_slot st s \<noteq> UINT32_MAX"
  shows "unat (sf_selector_slot st s) < sf_runtime_selector_count st
    \<and> g_selectors_by_slot st ! unat (sf_selector_slot st s) = sf_lookup_selector_named st (Some n)
    \<and> sf_lookup_selector_named st (Some n) \<noteq> nullptr"
proof -
  let ?p = "sf_lookup_selector_named st (Some n)"
  have p: "?p \<noteq> nullptr"
    using assms by (auto simp: selector_slot_eq sel_inv_def domIff split: option.splits)
  obtain fz where "frozen_mem st ?p = Some fz" "unat (fz_slot fz) < length (g_selectors_by_slot st)"
    "g_selectors_by_slot st ! unat (fz_slot fz) = ?p"
    using frozen_for_name [OF assms(1) refl p] by metis
  with p show ?thesis
    by (simp add: selector_slot_eq [OF assms(1,2)] sf_runtime_selector_count_def)
qed

text \<open>C4: selector slots are a faithful numbering of selector names: in a well-formed table a known
  selector has a slot below the selector count, two known selectors have the same slot exactly
  when they have the same name, and the slot is the one the canonical selector of that name is
  filed under.\<close>

theorem selector_slot_iff_name:
  assumes "sel_inv st" "sf_selector_name st a = Some n" "sf_selector_name st b = Some n'"
    and "sf_selector_slot st a \<noteq> UINT32_MAX" "sf_selector_slot st b \<noteq> UINT32_MAX"
  shows "(sf_selector_slot st a = sf_selector_slot st b) = (n = n')
    \<and> unat (sf_selector_slot st a) < sf_runtime_selector_count st
    \<and> g_selectors_by_slot st ! unat (sf_selector_slot st a) = sf_lookup_selector_named st (Some n)"
proof -
  note fa = selector_slot_frozen [OF assms(1,2,4)] and fb = selector_slot_frozen [OF assms(1,3,5)]
  have "n = n'" if "sf_selector_slot st a = sf_selector_slot st b"
  proof -
    have p: "sf_lookup_selector_named st (Some n) = sf_lookup_selector_named st (Some n')"
      using fa fb that by simp
    obtain fz where "frozen_mem st (sf_lookup_selector_named st (Some n)) = Some fz" "sel_name (fz_sel fz) = Some n"
      using frozen_for_name [OF assms(1) refl, of n] fa by metis
    moreover obtain fz' where "frozen_mem st (sf_lookup_selector_named st (Some n')) = Some fz'" "sel_name (fz_sel fz') = Some n'"
      using frozen_for_name [OF assms(1) refl, of n'] fb by metis
    ultimately show ?thesis using p by simp
  qed
  moreover have "sf_selector_slot st a = sf_selector_slot st b" if "n = n'"
    using selector_slot_eq [OF assms(1,2)] selector_slot_eq [OF assms(1,3)] that by simp
  ultimately show ?thesis using fa by blast
qed

section \<open>Freezing keeps the invariant\<close>

definition frozen_state :: "selectors \<Rightarrow> addr list \<Rightarrow> bool" where
  "frozen_state st acc \<longleftrightarrow> distinct acc \<and> set acc \<subseteq> dom (frozen_mem st) \<and> nullptr \<notin> dom (frozen_mem st)
     \<and> script_ok st \<and> length acc + length (alloc_script st) < unat UINT32_MAX"

lemma entry_ok_mono:
  assumes "entry_ok fm acc e" "fm \<subseteq>\<^sub>m fm'" "prefix acc acc'"
  shows "entry_ok fm' acc' e"
proof -
  obtain ext where "acc' = acc @ ext" using assms(3) by (auto simp: prefix_def)
  with assms(1,2) show ?thesis
    by (auto simp: entry_ok_def map_le_def nth_append dom_def)
qed

text \<open>With memory enough, every entry gets a frozen selector.\<close>

definition all_frozen :: "selectors \<Rightarrow> SFSelectorEntry list \<Rightarrow> SFSelectorEntry list \<Rightarrow> selectors \<Rightarrow> bool" where
  "all_frozen st es es' st' \<longleftrightarrow>
     (nullptr \<notin> set (alloc_script st) \<longrightarrow>
        length (alloc_script st') = length (alloc_script st) - length es
      \<and> (length es \<le> length (alloc_script st) \<longrightarrow> (\<forall>e \<in> set es'. se_frozen e \<noteq> nullptr)))"

lemma all_frozen_trans:
  assumes "all_frozen st es es' st1" "all_frozen st1 fs fs' st2" "set (alloc_script st1) \<subseteq> set (alloc_script st)"
  shows "all_frozen st (es @ fs) (es' @ fs') st2"
  using assms by (auto simp: all_frozen_def)

text \<open>What freezing promises of a list of entries that are not frozen yet: the same names in the
  same order, each frozen or, where memory ran out, left alone; what was frozen before stays.\<close>

definition freezes :: "selectors \<Rightarrow> addr list \<Rightarrow> SFSelectorEntry list \<Rightarrow> SFSelectorEntry list \<Rightarrow> addr list \<Rightarrow> selectors \<Rightarrow> bool" where
  "freezes st acc es es' acc' st' \<longleftrightarrow>
     frozen_state st' acc' \<and> frozen_mem st \<subseteq>\<^sub>m frozen_mem st' \<and> prefix acc acc'
   \<and> map se_name es' = map se_name es
   \<and> (\<forall>e \<in> set es'. entry_ok (frozen_mem st') acc' e)
   \<and> set acc' - set acc \<subseteq> set (alloc_script st)
   \<and> suffix (alloc_script st') (alloc_script st)
   \<and> dom (frozen_mem st') = dom (frozen_mem st) \<union> (set acc' - set acc)
   \<and> static_mem st' = static_mem st \<and> g_selector_table st' = g_selector_table st
   \<and> g_selector_regions st' = g_selector_regions st
   \<and> all_frozen st es es' st'"

lemma freezes_trans:
  assumes 1: "freezes st acc es es' acc1 st1" and 2: "freezes st1 acc1 fs fs' acc2 st2"
  shows "freezes st acc (es @ fs) (es' @ fs') acc2 st2"
proof -
  have pre: "prefix acc acc1" "prefix acc1 acc2" using 1 2 by (simp_all add: freezes_def)
  then have sub: "set acc \<subseteq> set acc1" "set acc1 \<subseteq> set acc2" by (auto simp: prefix_def)
  have suf: "suffix (alloc_script st1) (alloc_script st)" "suffix (alloc_script st2) (alloc_script st1)"
    using 1 2 by (simp_all add: freezes_def)
  have scr: "set (alloc_script st1) \<subseteq> set (alloc_script st)" by (rule set_mono_suffix [OF suf(1)])
  have mono: "frozen_mem st \<subseteq>\<^sub>m frozen_mem st1" "frozen_mem st1 \<subseteq>\<^sub>m frozen_mem st2"
    using 1 2 by (simp_all add: freezes_def)
  have ok: "\<forall>e \<in> set es'. entry_ok (frozen_mem st1) acc1 e" "\<forall>e \<in> set fs'. entry_ok (frozen_mem st2) acc2 e"
    using 1 2 by (simp_all add: freezes_def)
  have new: "set acc1 - set acc \<subseteq> set (alloc_script st)" "set acc2 - set acc1 \<subseteq> set (alloc_script st1)"
    using 1 2 by (simp_all add: freezes_def)
  have dm: "dom (frozen_mem st1) = dom (frozen_mem st) \<union> (set acc1 - set acc)"
    "dom (frozen_mem st2) = dom (frozen_mem st1) \<union> (set acc2 - set acc1)"
    using 1 2 by (simp_all add: freezes_def)
  have af: "all_frozen st es es' st1" "all_frozen st1 fs fs' st2"
    using 1 2 by (simp_all add: freezes_def)
  have "\<forall>e \<in> set (es' @ fs'). entry_ok (frozen_mem st2) acc2 e"
    using ok entry_ok_mono [OF _ mono(2) pre(2)] by auto
  moreover have "set acc2 - set acc \<subseteq> set (alloc_script st)"
    using new scr by auto
  moreover have "dom (frozen_mem st2) = dom (frozen_mem st) \<union> (set acc2 - set acc)"
    using dm sub by auto
  moreover note map_le_trans [OF mono] prefix_order.order_trans [OF pre] suffix_order.order_trans [OF suf(2,1)]
    all_frozen_trans [OF af scr]
  ultimately show ?thesis using 1 2 by (simp add: freezes_def)
qed

lemma freezes_nil: "frozen_state st acc \<Longrightarrow> freezes st acc [] [] acc st"
  by (simp add: freezes_def all_frozen_def)

lemma freezes_failed:
  assumes "frozen_state st acc" "next_alloc st = (nullptr, st1)" "se_frozen e = nullptr" "se_name e \<noteq> []"
  shows "freezes st acc [e] [e] acc st1"
proof -
  note o = next_alloc_other [OF assms(2)]
  have "frozen_state st1 acc"
    using assms(1) o script_ok_suffix [of st st1] suffix_length_le [of "alloc_script st1" "alloc_script st"]
    by (auto simp: frozen_state_def)
  moreover have "alloc_script st = [] \<or> nullptr \<in> set (alloc_script st)"
    using assms(2) by (auto simp: next_alloc_def split: list.splits)
  ultimately show ?thesis
    using o assms(3,4) by (auto simp: freezes_def entry_ok_def all_frozen_def)
qed

lemma freezes_one:
  assumes "frozen_state st acc" "next_alloc st = (p, st1)" "p \<noteq> nullptr" "se_name e \<noteq> []"
  shows "freezes st acc [e] [e\<lparr>se_frozen := p\<rparr>] (acc @ [p])
    (st1\<lparr>frozen_mem := (frozen_mem st1)(p \<mapsto>
       \<lparr>fz_sel = \<lparr>sel_name = Some (se_name e), sel_types = se_types e\<rparr>, fz_slot = of_nat (length acc)\<rparr>)\<rparr>)"
proof -
  note o = next_alloc_other [OF assms(2)]
  have scr: "alloc_script st = p # alloc_script st1"
    using assms(2,3) by (auto simp: next_alloc_def split: list.splits)
  have fresh: "p \<notin> dom (frozen_mem st)" "p \<notin> dom (static_mem st)" "p \<notin> set (alloc_script st1)"
    using assms(1,3) scr by (auto simp: frozen_state_def script_ok_def)
  then have new: "p \<notin> set acc" using assms(1) by (auto simp: frozen_state_def)
  have len: "length acc < unat UINT32_MAX" "unat (of_nat (length acc) :: u32) = length acc"
    using assms(1) by (auto simp: frozen_state_def unat_of_nat)
  have "frozen_state (st1\<lparr>frozen_mem := (frozen_mem st1)(p \<mapsto> x)\<rparr>) (acc @ [p])" for x
    using assms(1,3) o scr fresh new by (auto simp: frozen_state_def script_ok_def)
  moreover have "frozen_mem st \<subseteq>\<^sub>m (frozen_mem st)(p \<mapsto> x)" for x
    using fresh by (auto simp: map_le_def dom_def)
  ultimately show ?thesis
    using o scr fresh new len assms(3,4) by (simp add: freezes_def entry_ok_def all_frozen_def) blast
qed

lemma freeze_bucket_freezes:
  "frozen_state st acc \<Longrightarrow> \<forall>e\<in>set es. se_frozen e = nullptr \<and> se_name e \<noteq> [] \<Longrightarrow>
    freeze_bucket st acc es = (es', acc', st') \<Longrightarrow> freezes st acc es es' acc' st'"
proof (induction st acc es arbitrary: es' rule: freeze_bucket.induct)
  case (1 st acc)
  then show ?case by (simp add: freezes_nil)
next
  case (2 st acc e es)
  obtain p st1 where a: "next_alloc st = (p, st1)" by (cases "next_alloc st")
  have e: "se_frozen e = nullptr" "se_name e \<noteq> []" using "2.prems"(2) by simp_all
  show ?case
  proof (cases "p = nullptr")
    case True
    with a have a0: "next_alloc st = (nullptr, st1)" by simp
    obtain es1 where es1: "freeze_bucket st1 acc es = (es1, acc', st')" "es' = e # es1"
      using "2.prems"(3) a0 by (auto split: prod.splits)
    note one = freezes_failed [OF "2.prems"(1) a0 e]
    then have "frozen_state st1 acc" by (simp add: freezes_def)
    from "2.IH"(1) [OF a [symmetric] True this] es1 "2.prems"(2)
    have "freezes st1 acc es es1 acc' st'" by simp
    from freezes_trans [OF one this] es1(2) show ?thesis by simp
  next
    case False
    note one = freezes_one [OF "2.prems"(1) a False e(2)]
    let ?st = "st1\<lparr>frozen_mem := (frozen_mem st1)(p \<mapsto>
       \<lparr>fz_sel = \<lparr>sel_name = Some (se_name e), sel_types = se_types e\<rparr>, fz_slot = of_nat (length acc)\<rparr>)\<rparr>"
    obtain es1 where es1: "freeze_bucket ?st (acc @ [p]) es = (es1, acc', st')" "es' = e\<lparr>se_frozen := p\<rparr> # es1"
      using "2.prems"(3) a False by (auto split: prod.splits)
    from one have "frozen_state ?st (acc @ [p])" by (simp add: freezes_def)
    from "2.IH"(2) [OF a [symmetric] False this] es1 "2.prems"(2)
    have "freezes ?st (acc @ [p]) es es1 acc' st'" by simp
    from freezes_trans [OF one this] es1(2) show ?thesis by simp
  qed
qed

lemma freeze_table_freezes:
  "frozen_state st acc \<Longrightarrow> \<forall>e\<in>bt_entries t. se_frozen e = nullptr \<and> se_name e \<noteq> [] \<Longrightarrow>
    freeze_table st acc t = (t', acc', st') \<Longrightarrow>
    freezes st acc (concat t) (concat t') acc' st' \<and> map (map se_name) t' = map (map se_name) t"
proof (induction st acc t arbitrary: t' rule: freeze_table.induct)
  case (1 st acc)
  then show ?case by (simp add: freezes_nil)
next
  case (2 st acc b bs)
  obtain b' acc1 st1 where b: "freeze_bucket st acc b = (b', acc1, st1)" by (cases "freeze_bucket st acc b") auto
  obtain bs' where bs: "freeze_table st1 acc1 bs = (bs', acc', st')" "t' = b' # bs'"
    using "2.prems"(3) b by (auto split: prod.splits)
  have "\<forall>e\<in>set b. se_frozen e = nullptr \<and> se_name e \<noteq> []" "\<forall>e\<in>bt_entries bs. se_frozen e = nullptr \<and> se_name e \<noteq> []"
    using "2.prems"(2) by (auto simp: bt_entries_def)
  then have one: "freezes st acc b b' acc1 st1" using freeze_bucket_freezes [OF "2.prems"(1) _ b] by blast
  then have "frozen_state st1 acc1" by (simp add: freezes_def)
  from "2.IH" [OF b [symmetric] refl this \<open>\<forall>e\<in>bt_entries bs. _ e\<close> bs(1)]
  have two: "freezes st1 acc1 (concat bs) (concat bs') acc' st'" "map (map se_name) bs' = map (map se_name) bs" by auto
  from freezes_trans [OF one two(1)] two(2) one bs(2) show ?case by (simp add: freezes_def)
qed

section \<open>Collecting keeps the invariant\<close>

definition table_names :: "selectors \<Rightarrow> string set" where
  "table_names st = se_name ` bt_entries (g_selector_table st)"

definition keeps :: "selectors \<Rightarrow> selectors \<Rightarrow> bool" where
  "keeps st st' \<longleftrightarrow> sel_inv st' \<and> g_selectors_by_slot st' = g_selectors_by_slot st
     \<and> g_selector_regions st' = g_selector_regions st \<and> frozen_mem st' = frozen_mem st
     \<and> static_mem st' = static_mem st \<and> suffix (alloc_script st') (alloc_script st)
     \<and> table_names st \<subseteq> table_names st'"

lemma keeps_refl: "sel_inv st \<Longrightarrow> keeps st st"
  by (simp add: keeps_def)

lemma keeps_trans: "keeps st st1 \<Longrightarrow> keeps st1 st2 \<Longrightarrow> keeps st st2"
  unfolding keeps_def using suffix_order.order_trans by auto

lemma keeps_name: "keeps st st' \<Longrightarrow> sf_selector_name st' s = sf_selector_name st s"
  by (simp add: keeps_def sf_selector_name_def sf_selector_fields_def split: option.split)

lemma keeps_script: "keeps st st' \<Longrightarrow> script_ok st \<Longrightarrow> script_ok st'"
  by (auto simp: keeps_def intro: script_ok_suffix)

lemma keeps_inv: "keeps st st' \<Longrightarrow> sel_inv st'"
  by (simp add: keeps_def)

lemma table_names_iff: "sel_inv st \<Longrightarrow> n \<noteq> [] \<Longrightarrow> n \<in> table_names st \<longleftrightarrow> sf_selector_entry_for_name_unlocked st n \<noteq> None"
  using entry_for_name_iff [of st n] by (auto simp: table_names_def)

text \<open>Memory that never fails: every result of the script is an address, and it is not used up.\<close>

lemma next_alloc_left: "next_alloc st = (p, st') \<Longrightarrow> nullptr \<notin> set (alloc_script st) \<Longrightarrow> alloc_script st' \<noteq> [] \<Longrightarrow> p \<noteq> nullptr"
  by (auto simp: next_alloc_def split: list.splits)

lemma insert_succeeds:
  assumes "n \<noteq> []" "nullptr \<notin> set (alloc_script st)"
    and "alloc_script (snd (sf_selector_entry_insert_unlocked st n t)) \<noteq> []"
  shows "fst (sf_selector_entry_insert_unlocked st n t) \<noteq> None"
proof (cases "sf_selector_entry_for_name_unlocked st n")
  case (Some e)
  then show ?thesis using assms(1)
    by (auto simp: sf_selector_entry_insert_unlocked_def Let_def split: prod.splits)
next
  case None
  obtain p1 st1 where a1: "next_alloc st = (p1, st1)" by (cases "next_alloc st")
  obtain p2 st2 where a2: "next_alloc st1 = (p2, st2)" by (cases "next_alloc st1")
  obtain p3 st3 where a3: "next_alloc st2 = (p3, st3)" by (cases "next_alloc st2")
  have n1: "nullptr \<notin> set (alloc_script st1)" and n2: "nullptr \<notin> set (alloc_script st2)"
    using next_alloc_other [OF a1] next_alloc_other [OF a2] assms(2) by (auto simp: suffix_def)
  have e: "alloc_script st1 = [] \<Longrightarrow> alloc_script st2 = []" "alloc_script st2 = [] \<Longrightarrow> alloc_script st3 = []"
    using next_alloc_other [OF a2] next_alloc_other [OF a3] by auto
  show ?thesis
    using assms next_alloc_left [OF a1 assms(2)] next_alloc_left [OF a2 n1] next_alloc_left [OF a3 n2] e
    by (auto simp: sf_selector_entry_insert_unlocked_def None a1 a2 a3 Let_def split: if_splits)
qed

lemma keeps_insert:
  assumes "sel_inv st" "n \<noteq> []"
  shows "keeps st (snd (sf_selector_entry_insert_unlocked st n t))
    \<and> (nullptr \<notin> set (alloc_script st) \<and> alloc_script (snd (sf_selector_entry_insert_unlocked st n t)) \<noteq> [] \<longrightarrow>
         n \<in> table_names (snd (sf_selector_entry_insert_unlocked st n t)))"
proof -
  let ?st = "snd (sf_selector_entry_insert_unlocked st n t)"
  note ins = insert_lookup_laws [OF assms, of t]
  have inv: "sel_inv ?st" using ins by blast
  have "x \<in> table_names ?st" if "x \<in> table_names st" for x
  proof -
    have x: "x \<noteq> []" using that assms(1) by (auto simp: table_names_def sel_inv_def entry_ok_def)
    then show ?thesis
      using that ins table_names_iff [OF assms(1) x] table_names_iff [OF inv x] by (cases "x = n") auto
  qed
  moreover have "n \<in> table_names ?st"
    if "nullptr \<notin> set (alloc_script st) \<and> alloc_script ?st \<noteq> []"
    using insert_succeeds [OF assms(2)] that ins table_names_iff [OF inv assms(2)] by auto
  moreover have "g_selectors_by_slot ?st = g_selectors_by_slot st" "g_selector_regions ?st = g_selector_regions st"
    "frozen_mem ?st = frozen_mem st" "static_mem ?st = static_mem st" "suffix (alloc_script ?st) (alloc_script st)"
    using insert_effect [of st n t] assms by (simp_all add: sel_inv_def)
  ultimately show ?thesis using inv by (auto simp: keeps_def)
qed

text \<open>Collecting a list of names, whatever the types that come with them.\<close>

definition collects :: "selectors \<Rightarrow> string set \<Rightarrow> selectors \<Rightarrow> bool" where
  "collects st ns st' \<longleftrightarrow> keeps st st'
     \<and> (nullptr \<notin> set (alloc_script st) \<and> alloc_script st' \<noteq> [] \<longrightarrow> ns \<subseteq> table_names st')"

lemma collects_none: "sel_inv st \<Longrightarrow> collects st {} st"
  by (simp add: collects_def keeps_refl)

lemma collects_step:
  assumes "sel_inv st" "n \<noteq> []" "collects (snd (sf_selector_entry_insert_unlocked st n t)) ns st'"
  shows "collects st (insert n ns) st'"
proof -
  let ?st = "snd (sf_selector_entry_insert_unlocked st n t)"
  note k = keeps_insert [OF assms(1,2), of t]
  have kt: "keeps st st'" using k assms(3) keeps_trans by (auto simp: collects_def)
  have "insert n ns \<subseteq> table_names st'" if "nullptr \<notin> set (alloc_script st)" "alloc_script st' \<noteq> []"
  proof -
    have suf: "suffix (alloc_script ?st) (alloc_script st)" "suffix (alloc_script st') (alloc_script ?st)"
      "table_names ?st \<subseteq> table_names st'"
      using k assms(3) by (auto simp: collects_def keeps_def)
    then have "nullptr \<notin> set (alloc_script ?st)" "alloc_script ?st \<noteq> []"
      using that by (auto simp: suffix_def)
    with k that assms(3) suf(3) show ?thesis by (auto simp: collects_def)
  qed
  with kt show ?thesis by (simp add: collects_def)
qed

lemma collects_append:
  assumes "collects st ns st1" "collects st1 ns' st2"
  shows "collects st (ns \<union> ns') st2"
proof -
  have k: "keeps st st1" "keeps st1 st2" using assms by (auto simp: collects_def)
  have "ns \<union> ns' \<subseteq> table_names st2" if "nullptr \<notin> set (alloc_script st)" "alloc_script st2 \<noteq> []"
  proof -
    have "suffix (alloc_script st1) (alloc_script st)" "suffix (alloc_script st2) (alloc_script st1)"
      "table_names st1 \<subseteq> table_names st2"
      using k by (auto simp: keeps_def)
    moreover from this have "nullptr \<notin> set (alloc_script st1)" "alloc_script st1 \<noteq> []"
      using that by (auto simp: suffix_def)
    ultimately show ?thesis using that assms by (auto simp: collects_def)
  qed
  with keeps_trans [OF k] show ?thesis by (simp add: collects_def)
qed

definition usable_names :: "string option set \<Rightarrow> string set" where
  "usable_names ns = {n. Some n \<in> ns \<and> n \<noteq> []}"

lemma usable_insert [simp]:
  "usable_names (insert None ns) = usable_names ns" "usable_names (insert (Some []) ns) = usable_names ns"
  "n \<noteq> [] \<Longrightarrow> usable_names (insert (Some n) ns) = insert n (usable_names ns)" "usable_names {} = {}"
  by (auto simp: usable_names_def)

lemma insert_sels_collects:
  "sel_inv st \<Longrightarrow> collects st (usable_names (sf_selector_name st ` set sels)) (insert_sels st sels)"
proof (induction st sels rule: insert_sels.induct)
  case (1 st)
  then show ?case by (simp add: collects_none)
next
  case (2 st sel sels)
  show ?case
  proof (cases "sf_selector_name st sel")
    case None
    with 2 show ?thesis by simp
  next
    case (Some n)
    show ?thesis
    proof (cases "n = []")
      case True
      with 2 Some show ?thesis by simp
    next
      case False
      have k: "keeps st (snd (sf_selector_entry_insert_unlocked st n (sf_selector_types st sel)))"
        using keeps_insert [OF 2(4) False] by blast
      with 2(3) [OF Some False keeps_inv [OF k]] collects_step [OF 2(4) False] Some False show ?thesis
        by (simp add: keeps_name [OF k] cong: image_cong)
    qed
  qed
qed

definition method_name :: "selectors \<Rightarrow> SFObjCMethod \<Rightarrow> string option" where
  "method_name st meth = (if m_selector meth \<noteq> nullptr then sf_selector_name st (m_selector meth) else None)"

lemma keeps_method_name: "keeps st st' \<Longrightarrow> method_name st' = method_name st"
  by (simp add: method_name_def fun_eq_iff keeps_name)

lemma insert_methods_collects:
  "sel_inv st \<Longrightarrow> collects st (usable_names (method_name st ` set ms)) (insert_methods st ms)"
proof (induction ms arbitrary: st)
  case Nil
  then show ?case by (simp add: collects_none)
next
  case (Cons meth ms)
  show ?case
  proof (cases "method_name st meth")
    case None
    with Cons show ?thesis by (simp add: method_name_def [of st meth] Let_def)
  next
    case (Some n)
    show ?thesis
    proof (cases "n = []")
      case True
      with Cons Some show ?thesis by (simp add: method_name_def [of st meth] Let_def)
    next
      case False
      let ?t = "if m_selector meth \<noteq> nullptr \<and> sf_selector_types st (m_selector meth) \<noteq> None
                   then sf_selector_types st (m_selector meth) else m_types meth"
      have k: "keeps st (snd (sf_selector_entry_insert_unlocked st n ?t))"
        using keeps_insert [OF Cons.prems False] by blast
      then have "method_name (snd (sf_selector_entry_insert_unlocked st n ?t)) = method_name st"
        by (rule keeps_method_name)
      with Cons.IH [OF keeps_inv [OF k]] collects_step [OF Cons.prems False] Some False
      have "collects st (insert n (usable_names (method_name st ` set ms)))
          (insert_methods (snd (sf_selector_entry_insert_unlocked st n ?t)) ms)" by metis
      with Some False show ?thesis by (simp add: method_name_def [of st meth] Let_def)
    qed
  qed
qed

lemma insert_builtins_collects:
  "sel_inv st \<Longrightarrow> \<forall>b\<in>set bs. fst b \<noteq> [] \<Longrightarrow> collects st (fst ` set bs) (insert_builtins st bs)"
proof (induction st bs rule: insert_builtins.induct)
  case (2 st n t bs)
  then have n: "n \<noteq> []" by simp
  have k: "keeps st (snd (sf_selector_entry_insert_unlocked st n t))"
    using keeps_insert [OF 2(2) n] by blast
  have "\<forall>b\<in>set bs. fst b \<noteq> []" using 2(3) by simp
  from collects_step [OF 2(2) n 2(1) [OF keeps_inv [OF k] this]] show ?case by simp
qed (simp add: collects_none)

lemma collect_collects:
  assumes "sel_inv st" "sf_collect_runtime_selectors_unlocked m cmap st = Some st'"
    and "registered_classes m cmap [0..<SF_CLASS_MAP_CAPACITY] = Some cs"
  shows "collects st (usable_names (method_name st ` set (concat (map (class_methods_of m) cs))) \<union> fst ` set builtin_selectors) st'"
proof -
  let ?st1 = "insert_sels st (concat (map region_sels (g_selector_regions st)))"
  let ?ms = "concat (map (class_methods_of m) cs)"
  let ?st2 = "insert_methods ?st1 ?ms"
  have st': "st' = insert_builtins ?st2 builtin_selectors"
    using assms by (simp add: sf_collect_runtime_selectors_unlocked_def Let_def)
  have 1: "collects st {} ?st1"
    using insert_sels_collects [OF assms(1)] by (simp add: collects_def)
  then have k1: "keeps st ?st1" by (simp add: collects_def)
  have n1: "method_name ?st1 = method_name st"
    by (rule keeps_method_name [OF k1])
  have 2: "collects ?st1 (usable_names (method_name st ` set ?ms)) ?st2"
    using insert_methods_collects [OF keeps_inv [OF k1], of ?ms] by (simp only: n1)
  then have i2: "sel_inv ?st2" by (simp add: collects_def keeps_def)
  have 3: "collects ?st2 (fst ` set builtin_selectors) st'"
    unfolding st' by (rule insert_builtins_collects [OF i2]) (simp add: builtin_selectors_def)
  from collects_append [OF collects_append [OF 1 2] 3] show ?thesis by simp
qed

section \<open>The rebuild\<close>

lemma set_selector_inv:
  assumes "sel_inv st" "sf_selector_name st sel = Some n" "sel_name f = Some n"
  shows "sel_inv (set_selector st sel f) \<and> dom (frozen_mem (set_selector st sel f)) = dom (frozen_mem st)
    \<and> g_selector_table (set_selector st sel f) = g_selector_table st
    \<and> g_selectors_by_slot (set_selector st sel f) = g_selectors_by_slot st
    \<and> alloc_script (set_selector st sel f) = alloc_script st"
proof (cases "frozen_mem st sel")
  case None
  then show ?thesis using assms(1) by (simp add: set_selector_def sel_inv_def)
next
  case (Some fz)
  then have "sel_name (fz_sel fz) = Some n" if "sel \<noteq> nullptr"
    using assms(2) that by (simp add: sf_selector_name_def sf_selector_fields_def)
  moreover have "sel \<noteq> nullptr" using assms(2) by (auto simp: sf_selector_name_def sf_selector_fields_def)
  ultimately have "entry_ok ((frozen_mem st)(sel \<mapsto> fz\<lparr>fz_sel := f\<rparr>)) bs e" if "entry_ok (frozen_mem st) bs e" for bs e
    using that Some assms(3) by (auto simp: entry_ok_def)
  with assms(1) Some show ?thesis
    by (auto simp: set_selector_def sel_inv_def)
qed

lemma refresh_sels_inv:
  "sel_inv st \<Longrightarrow> sel_inv (refresh_sels st sels) \<and> dom (frozen_mem (refresh_sels st sels)) = dom (frozen_mem st)
    \<and> g_selector_table (refresh_sels st sels) = g_selector_table st
    \<and> g_selectors_by_slot (refresh_sels st sels) = g_selectors_by_slot st
    \<and> alloc_script (refresh_sels st sels) = alloc_script st"
proof (induction st sels rule: refresh_sels.induct)
  case (2 st sel sels)
  show ?case
  proof (cases "sf_selector_name st sel")
    case None
    with 2 show ?thesis by simp
  next
    case (Some n)
    show ?thesis
    proof (cases "n = [] \<or> sf_selector_fields st (sf_frozen_selector_for_name_unlocked st n) = None")
      case True
      with 2 Some show ?thesis by (cases "n = []") simp_all
    next
      case False
      then obtain f where f: "n \<noteq> []" "sf_selector_fields st (sf_frozen_selector_for_name_unlocked st n) = Some f" by auto
      let ?p = "sf_frozen_selector_for_name_unlocked st n"
      have "?p \<noteq> nullptr" using f(2) by (auto simp: sf_selector_fields_def)
      moreover have "sf_lookup_selector_named st (Some n) = ?p" using f(1) by (simp add: sf_lookup_selector_named_def)
      ultimately obtain fz where "frozen_mem st ?p = Some fz" "sel_name (fz_sel fz) = Some n"
        using frozen_for_name [OF "2.prems", of n ?p] by metis
      then have "sel_name f = Some n" using f(2) \<open>?p \<noteq> nullptr\<close> by (simp add: sf_selector_fields_def)
      note s = set_selector_inv [OF "2.prems" Some this]
      then have "sel_inv (set_selector st sel f)" by blast
      from "2.IH"(4) [OF Some f this] s f Some show ?thesis by simp
    qed
  qed
qed simp

lemma unfreeze_inv:
  assumes "sel_inv st"
  shows "sel_inv (st\<lparr>g_selector_table := map (map unfreeze_entry) (g_selector_table st)\<rparr>)"
  using assms seltab.inv_map [of "g_selector_table st" unfreeze_entry]
  by (auto simp: sel_inv_def entries_map entry_ok_def)

lemma table_ok_names:
  assumes "table_ok t" "map (map se_name) t' = map (map se_name) t"
  shows "table_ok t'"
proof -
  have len: "length t' = length t" using assms(2) by (metis length_map)
  have nth: "map se_name (t' ! b) = map se_name (t ! b)" if "b < length t" for b
    using that assms(2) len by (metis nth_map)
  have "selector_bucket_for_name_types (se_name e) = b" if "b < length t" "e \<in> set (t' ! b)" for b e
  proof -
    have "se_name e \<in> set (map se_name (t ! b))" using that nth by (metis image_eqI set_map)
    then show ?thesis using assms(1) that(1) by (auto simp: bt_inv_def)
  qed
  then show ?thesis using assms(1) len nth by (auto simp: bt_inv_def)
qed

text \<open>The rebuild in two parts: up to the slot table, and the freezing itself.\<close>

lemma rebuild_cases:
  assumes "sf_rebuild_frozen_selectors_unlocked m cmap st = Some (st', m')"
  obtains cs st1 st2 where "registered_classes m cmap [0..<SF_CLASS_MAP_CAPACITY] = Some cs"
    "sf_collect_runtime_selectors_unlocked m cmap st = Some st1"
    "st2 = st1\<lparr>g_selector_table := map (map unfreeze_entry) (g_selector_table st1)\<rparr>"
    "(\<exists>st3. next_alloc st2 = (nullptr, st3) \<and> st' = st3 \<and> m' = m \<and> concat (g_selector_table st2) \<noteq> [])
     \<or> (\<exists>p st3 table acc st4 st6.
           (if concat (g_selector_table st2) \<noteq> [] then next_alloc st2 = (p, st3) \<and> p \<noteq> nullptr else st3 = st2)
         \<and> freeze_table st3 [] (g_selector_table st3) = (table, acc, st4)
         \<and> st6 = refresh_sels (st4\<lparr>g_selector_table := table, g_selectors_by_slot := acc\<rparr>)
                   (concat (map region_sels (g_selector_regions st4)))
         \<and> st' = st6\<lparr>frozen_mem := (frozen_mem st6) |` (- set (g_selectors_by_slot st))\<rparr>
         \<and> m' = fold (refresh_class st6) cs m)"
proof -
  obtain st1 where c: "sf_collect_runtime_selectors_unlocked m cmap st = Some st1"
    using assms by (auto simp: sf_rebuild_frozen_selectors_unlocked_def Let_def split: option.splits)
  then obtain cs where cs: "registered_classes m cmap [0..<SF_CLASS_MAP_CAPACITY] = Some cs"
    by (auto simp: sf_collect_runtime_selectors_unlocked_def Let_def split: option.splits)
  let ?st2 = "st1\<lparr>g_selector_table := map (map unfreeze_entry) (g_selector_table st1)\<rparr>"
  obtain p st3 where a: "next_alloc ?st2 = (p, st3)" by (cases "next_alloc ?st2")
  obtain table acc st4 where f: "freeze_table st3 [] (g_selector_table st3) = (table, acc, st4)"
    by (cases "freeze_table st3 [] (g_selector_table st3)") auto
  obtain table' acc' st4' where f': "freeze_table ?st2 [] (g_selector_table ?st2) = (table', acc', st4')"
    by (cases "freeze_table ?st2 [] (g_selector_table ?st2)") auto
  have e: "(length (concat (g_selector_table ?st2)) > 0) = (concat (g_selector_table ?st2) \<noteq> [])" by simp
  show ?thesis
  proof (rule that [OF cs c refl], cases "concat (g_selector_table ?st2) = []")
    case True
    from assms True f' show "(\<exists>st3. next_alloc ?st2 = (nullptr, st3) \<and> st' = st3 \<and> m' = m \<and> concat (g_selector_table ?st2) \<noteq> [])
     \<or> (\<exists>p st3 table acc st4 st6.
           (if concat (g_selector_table ?st2) \<noteq> [] then next_alloc ?st2 = (p, st3) \<and> p \<noteq> nullptr else st3 = ?st2)
         \<and> freeze_table st3 [] (g_selector_table st3) = (table, acc, st4)
         \<and> st6 = refresh_sels (st4\<lparr>g_selector_table := table, g_selectors_by_slot := acc\<rparr>)
                   (concat (map region_sels (g_selector_regions st4)))
         \<and> st' = st6\<lparr>frozen_mem := (frozen_mem st6) |` (- set (g_selectors_by_slot st))\<rparr>
         \<and> m' = fold (refresh_class st6) cs m)"
      unfolding sf_rebuild_frozen_selectors_unlocked_def Let_def c option.case cs e
      by (auto simp del: concat_eq_Nil_conv)
  next
    case False
    from assms False a f show "(\<exists>st3. next_alloc ?st2 = (nullptr, st3) \<and> st' = st3 \<and> m' = m \<and> concat (g_selector_table ?st2) \<noteq> [])
     \<or> (\<exists>p st3 table acc st4 st6.
           (if concat (g_selector_table ?st2) \<noteq> [] then next_alloc ?st2 = (p, st3) \<and> p \<noteq> nullptr else st3 = ?st2)
         \<and> freeze_table st3 [] (g_selector_table st3) = (table, acc, st4)
         \<and> st6 = refresh_sels (st4\<lparr>g_selector_table := table, g_selectors_by_slot := acc\<rparr>)
                   (concat (map region_sels (g_selector_regions st4)))
         \<and> st' = st6\<lparr>frozen_mem := (frozen_mem st6) |` (- set (g_selectors_by_slot st))\<rparr>
         \<and> m' = fold (refresh_class st6) cs m)"
      unfolding sf_rebuild_frozen_selectors_unlocked_def Let_def c option.case cs e
      by (cases "p = nullptr") (auto simp del: concat_eq_Nil_conv)
  qed
qed

definition names_with_slot :: "selectors \<Rightarrow> string set" where
  "names_with_slot st = {n. sf_lookup_selector_named st (Some n) \<noteq> nullptr}"

lemma memory_left_suffix:
  "suffix (alloc_script st') (alloc_script st) \<Longrightarrow> nullptr \<notin> set (alloc_script st) \<Longrightarrow> nullptr \<notin> set (alloc_script st')"
  by (auto simp: suffix_def)

text \<open>A rebuild that gets its slot table.\<close>

lemma rebuild_frozen:
  assumes inv: "sel_inv st" and ok: "script_ok st" "length (alloc_script st) < unat UINT32_MAX"
    and st3: "keeps st st1" "st2 = st1\<lparr>g_selector_table := map (map unfreeze_entry) (g_selector_table st1)\<rparr>"
      "if concat (g_selector_table st2) \<noteq> [] then next_alloc st2 = (p, st3) \<and> p \<noteq> nullptr else st3 = st2"
    and f: "freeze_table st3 [] (g_selector_table st3) = (table, acc, st4)"
    and st6: "st6 = refresh_sels (st4\<lparr>g_selector_table := table, g_selectors_by_slot := acc\<rparr>) sels"
    and st': "st' = st6\<lparr>frozen_mem := (frozen_mem st6) |` (- set (g_selectors_by_slot st))\<rparr>"
  shows "sel_inv st' \<and> suffix (alloc_script st') (alloc_script st1)
    \<and> (\<forall>p \<in> set (g_selectors_by_slot st). frozen_mem st' p = None)
    \<and> table_names st' = table_names st1
    \<and> (nullptr \<notin> set (alloc_script st) \<and> alloc_script st' \<noteq> [] \<longrightarrow> table_names st1 \<subseteq> names_with_slot st')"
proof -
  have inv1: "sel_inv st1" using st3(1) by (rule keeps_inv)
  have inv2: "sel_inv st2" using unfreeze_inv [OF inv1] st3(2) by simp
  have s2: "frozen_mem st2 = frozen_mem st" "static_mem st2 = static_mem st" "g_selectors_by_slot st2 = g_selectors_by_slot st"
    "suffix (alloc_script st2) (alloc_script st)" "alloc_script st2 = alloc_script st1"
    using st3(1,2) by (auto simp: keeps_def)
  have s3: "g_selector_table st3 = g_selector_table st2" "frozen_mem st3 = frozen_mem st" "static_mem st3 = static_mem st"
    "suffix (alloc_script st3) (alloc_script st)" "suffix (alloc_script st3) (alloc_script st1)"
    using st3(3) next_alloc_other [of st2 p st3] s2 suffix_order.order_trans by (auto split: if_splits)
  have fs: "frozen_state st3 []"
    using ok script_ok_suffix [OF ok(1) s3(4) s3(2,3)] suffix_length_le [OF s3(4)] inv s3(2)
    by (auto simp: frozen_state_def sel_inv_def)
  have un: "\<forall>e \<in> bt_entries (g_selector_table st3). se_frozen e = nullptr \<and> se_name e \<noteq> []"
    using inv1 by (auto simp: s3(1) st3(2) entries_map sel_inv_def entry_ok_def)
  from freeze_table_freezes [OF fs un f]
  have fr: "freezes st3 [] (concat (g_selector_table st3)) (concat table) acc st4"
    and nm: "map (map se_name) table = map (map se_name) (g_selector_table st3)" by auto
  let ?st5 = "st4\<lparr>g_selector_table := table, g_selectors_by_slot := acc\<rparr>"
  have tok: "table_ok table" using table_ok_names [OF _ nm] inv2 s3(1) by (simp add: sel_inv_def)
  have "length acc < unat UINT32_MAX" using fr by (simp add: freezes_def frozen_state_def)
  then have inv5: "sel_inv ?st5"
    using fr tok by (auto simp: sel_inv_def freezes_def frozen_state_def bt_entries_def)
  note r = refresh_sels_inv [OF inv5, of sels, folded st6]
  have accscript: "set acc \<subseteq> set (alloc_script st3)" using fr by (auto simp: freezes_def)
  have null: "nullptr \<notin> set acc" using inv5 by (auto simp: sel_inv_def)
  have disj: "set acc \<inter> set (g_selectors_by_slot st) = {}"
  proof -
    have "x \<notin> dom (frozen_mem st)" if "x \<in> set acc" for x
    proof -
      have "x \<noteq> nullptr" using that null by blast
      moreover have "x \<in> set (alloc_script st)" using that accscript set_mono_suffix [OF s3(4)] by blast
      ultimately show ?thesis using ok(1) by (simp add: script_ok_def)
    qed
    moreover have "set (g_selectors_by_slot st) \<subseteq> dom (frozen_mem st)" using inv by (simp add: sel_inv_def)
    ultimately show ?thesis by blast
  qed
  have ent: "entry_ok (frozen_mem st') acc e" if "e \<in> bt_entries table" for e
  proof -
    have e: "entry_ok (frozen_mem st6) acc e" using r that by (auto simp: sel_inv_def)
    have "se_frozen e \<notin> set (g_selectors_by_slot st)" if "se_frozen e \<noteq> nullptr"
      using e that disj by (auto simp: entry_ok_def dest: nth_mem)
    with e show ?thesis by (auto simp: entry_ok_def st')
  qed
  have inv': "sel_inv st'"
    using r ent disj by (auto simp: sel_inv_def st')
  have scr': "alloc_script st' = alloc_script st4" using r by (simp add: st')
  have names: "table_names st' = table_names st1"
  proof -
    have "se_name ` set (concat table) = se_name ` set (concat (g_selector_table st3))"
      using fr by (metis freezes_def set_map)
    then show ?thesis
      using r s3(1) st3(2) entries_map [of unfreeze_entry "g_selector_table st1"]
      by (simp add: table_names_def bt_entries_def st' image_image)
  qed
  have slots: "table_names st1 \<subseteq> names_with_slot st'"
    if m: "nullptr \<notin> set (alloc_script st)" "alloc_script st' \<noteq> []"
  proof
    fix n assume n: "n \<in> table_names st1"
    have m3: "nullptr \<notin> set (alloc_script st3)" using m(1) s3(4) by (auto simp: suffix_def)
    then have "length (alloc_script st4) = length (alloc_script st3) - length (concat (g_selector_table st3))"
      using fr by (simp add: freezes_def all_frozen_def)
    then have "length (concat (g_selector_table st3)) \<le> length (alloc_script st3)"
      using m(2) scr' by (metis diff_is_0_eq length_0_conv nat_le_linear)
    with fr m3 have all: "\<forall>e \<in> set (concat table). se_frozen e \<noteq> nullptr"
      unfolding freezes_def all_frozen_def by blast
    obtain e where e: "e \<in> bt_entries (g_selector_table st')" "se_name e = n"
      using n unfolding names [symmetric] by (auto simp: table_names_def)
    then have ne: "n \<noteq> []" using inv' by (auto simp: sel_inv_def entry_ok_def)
    have "se_frozen e \<noteq> nullptr" using all e(1) r by (auto simp: st' bt_entries_def)
    moreover have "sf_selector_entry_for_name_unlocked st' n = Some e"
      using entry_for_name_iff [OF inv' ne] e by blast
    ultimately show "n \<in> names_with_slot st'"
      using ne by (simp add: names_with_slot_def sf_lookup_selector_named_def sf_frozen_selector_for_name_unlocked_def)
  qed
  have "suffix (alloc_script st') (alloc_script st1)"
    using fr s3(5) scr' suffix_order.order_trans by (auto simp: freezes_def)
  with inv' names slots show ?thesis by (auto simp: st')
qed

lemma rebuild_collected:
  assumes "sf_rebuild_frozen_selectors_unlocked m cmap st = Some (st', m')" "sel_inv st"
    and "sf_collect_runtime_selectors_unlocked m cmap st = Some st1"
  shows "keeps st st1"
proof -
  obtain cs where "registered_classes m cmap [0..<SF_CLASS_MAP_CAPACITY] = Some cs"
    by (rule rebuild_cases [OF assms(1)])
  from collect_collects [OF assms(2,3) this] show ?thesis by (simp add: collects_def)
qed


lemma registered_none:
  "\<forall>i\<in>set is. entry_cls (cmap i) = nullptr \<Longrightarrow> registered_classes m cmap is = Some []"
  by (induction m cmap "is" rule: registered_classes.induct) simp_all

lemma registered_empty: "registered_classes m empty_class_map [0..<SF_CLASS_MAP_CAPACITY] = Some []"
  by (rule registered_none) (simp add: empty_class_map_def)

definition demo_script :: "addr list" where
  "demo_script = map (\<lambda>i. 0x1000 + 0x100 * of_nat i) [0..<28]"

lemma rebuild_demo:
  "map_option (\<lambda>(st', m'). length (alloc_script st'))
     (sf_rebuild_frozen_selectors_unlocked Map.empty empty_class_map (empty_selectors demo_script)) = Some 4"
  unfolding sf_rebuild_frozen_selectors_unlocked_def sf_collect_runtime_selectors_unlocked_def registered_empty
  by code_simp

lemma demo_script_ok: "sel_inv (empty_selectors demo_script)" "script_ok (empty_selectors demo_script)"
  "length (alloc_script (empty_selectors demo_script)) < unat UINT32_MAX"
proof -
  have d: "distinct (filter (\<lambda>p. p \<noteq> nullptr) demo_script)" by code_simp
  show "script_ok (empty_selectors demo_script)"
    using d by (simp add: script_ok_def empty_selectors_def)
  show "length (alloc_script (empty_selectors demo_script)) < unat UINT32_MAX"
    by (simp add: empty_selectors_def demo_script_def)
qed (rule sel_inv_empty)


text \<open>C35: a completed rebuild frees every selector that was canonical before it: the pointer
  \<open>sel_registerName\<close> returned for a name is then unmapped, so a caller that kept it holds a dangling
  selector, and the canonical selector of the name is another one.\<close>

theorem rebuild_frees_old_selectors:
  assumes "sf_rebuild_frozen_selectors_unlocked m cmap st = Some (st', m')"
    and "sel_inv st" "script_ok st" "length (alloc_script st) < unat UINT32_MAX"
    and "nullptr \<notin> set (alloc_script st)" "alloc_script st' \<noteq> []"
    and "sel_registerName st (Some n) = p" "p \<noteq> nullptr"
  shows "frozen_mem st' p = None \<and> sel_registerName st' (Some n) \<noteq> p \<and> sel_registerName st' (Some n) \<noteq> nullptr"
  using assms(1)
proof (rule rebuild_cases)
  fix cs' st1 st2
  assume c: "sf_collect_runtime_selectors_unlocked m cmap st = Some st1"
    and st2: "st2 = st1\<lparr>g_selector_table := map (map unfreeze_entry) (g_selector_table st1)\<rparr>"
    and r: "(\<exists>st3. next_alloc st2 = (nullptr, st3) \<and> st' = st3 \<and> m' = m \<and> concat (g_selector_table st2) \<noteq> [])
     \<or> (\<exists>p st3 table acc st4 st6.
           (if concat (g_selector_table st2) \<noteq> [] then next_alloc st2 = (p, st3) \<and> p \<noteq> nullptr else st3 = st2)
         \<and> freeze_table st3 [] (g_selector_table st3) = (table, acc, st4)
         \<and> st6 = refresh_sels (st4\<lparr>g_selector_table := table, g_selectors_by_slot := acc\<rparr>)
                   (concat (map region_sels (g_selector_regions st4)))
         \<and> st' = st6\<lparr>frozen_mem := (frozen_mem st6) |` (- set (g_selectors_by_slot st))\<rparr>
         \<and> m' = fold (refresh_class st6) cs' m)"
  note k = rebuild_collected [OF assms(1,2) c]
  have p: "sf_lookup_selector_named st (Some n) = p" using assms(7) by (simp add: sel_registerName_def)
  obtain e and fz :: SFFrozenSelector where e: "e \<in> bt_entries (g_selector_table st)" "se_name e = n"
    and "g_selectors_by_slot st ! unat (fz_slot fz) = p" "unat (fz_slot fz) < length (g_selectors_by_slot st)"
    by (rule frozen_for_name [OF assms(2) p assms(8)]) blast
  then have old: "p \<in> set (g_selectors_by_slot st)" by (metis nth_mem)
  have n: "n \<in> table_names st1" using e k by (auto simp: keeps_def table_names_def)
  have s12: "alloc_script st2 = alloc_script st1" "nullptr \<notin> set (alloc_script st1)"
    using st2 k assms(5) memory_left_suffix [of st1 st] by (auto simp: keeps_def)
  from r show ?thesis
  proof (elim disjE exE conjE)
    fix st3 assume a: "next_alloc st2 = (nullptr, st3)" "st' = st3"
    with next_alloc_left [OF a(1)] s12 assms(6) show ?thesis by simp
  next
    fix q st3 table acc st4 st6
    assume "if concat (g_selector_table st2) \<noteq> [] then next_alloc st2 = (q, st3) \<and> q \<noteq> nullptr else st3 = st2"
      "freeze_table st3 [] (g_selector_table st3) = (table, acc, st4)"
      "st6 = refresh_sels (st4\<lparr>g_selector_table := table, g_selectors_by_slot := acc\<rparr>)
                   (concat (map region_sels (g_selector_regions st4)))"
      "st' = st6\<lparr>frozen_mem := (frozen_mem st6) |` (- set (g_selectors_by_slot st))\<rparr>"
    note f = rebuild_frozen [OF assms(2,3,4) k st2 this]
    have gone: "frozen_mem st' p = None" using f old by blast
    have new: "sf_lookup_selector_named st' (Some n) \<noteq> nullptr"
      using f n assms(5,6) by (auto simp: names_with_slot_def)
    have inv': "sel_inv st'" using f by blast
    have "sf_lookup_selector_named st' (Some n) \<noteq> p"
    proof
      assume "sf_lookup_selector_named st' (Some n) = p"
      then obtain fz where "frozen_mem st' p = Some fz"
        using frozen_for_name [OF inv' _ assms(8), of n] by metis
      with gone show False by simp
    qed
    with gone new show ?thesis by (simp add: sel_registerName_def)
  qed
qed

definition demo_frozen :: selectors where
  "demo_frozen = (empty_selectors demo_script)
     \<lparr>g_selector_table := bt_push selector_bucket_for_name_types se_name (replicate 256 [])
         \<lparr>se_name = ''init'', se_types = None, se_frozen = 0x10\<rparr>,
      g_selectors_by_slot := [0x10],
      frozen_mem := [0x10 \<mapsto> \<lparr>fz_sel = \<lparr>sel_name = Some ''init'', sel_types = None\<rparr>, fz_slot = 0\<rparr>]\<rparr>"

lemma demo_frozen_ok: "sel_inv demo_frozen" "script_ok demo_frozen"
  "length (alloc_script demo_frozen) < unat UINT32_MAX" "sel_registerName demo_frozen (Some ''init'') = 0x10"
proof -
  let ?e = "\<lparr>se_name = ''init'', se_types = None, se_frozen = 0x10\<rparr>"
  have e: "table_ok (replicate 256 [] :: SFSelectorEntry list list)" using sel_inv_empty by (simp add: sel_inv_def empty_selectors_def)
  have none: "bt_find selector_bucket_for_name_types se_name (replicate 256 [] :: SFSelectorEntry list list) k = None" for k
    using seltab.find_None [OF e, of k] by (simp add: bt_entries_def)
  have t: "table_ok (g_selector_table demo_frozen)"
    unfolding demo_frozen_def by simp (rule seltab.inv_push [OF e none])
  have ents: "bt_entries (g_selector_table demo_frozen) = {?e}"
    unfolding demo_frozen_def by (simp add: seltab.push_entries [OF e]) (simp add: bt_entries_def)
  show inv: "sel_inv demo_frozen"
    unfolding sel_inv_def ents using t by (simp add: demo_frozen_def entry_ok_def)
  show "script_ok demo_frozen"
  proof -
    have "distinct (filter (\<lambda>p. p \<noteq> nullptr) demo_script)" "0x10 \<notin> set demo_script" by code_simp+
    then show ?thesis by (auto simp: script_ok_def demo_frozen_def empty_selectors_def)
  qed
  show "length (alloc_script demo_frozen) < unat UINT32_MAX"
    by (simp add: demo_frozen_def empty_selectors_def demo_script_def)
  have "sf_selector_entry_for_name_unlocked demo_frozen ''init'' = Some ?e"
    using entry_for_name_iff [OF inv, of "''init''" ?e] by (simp add: ents)
  then show "sel_registerName demo_frozen (Some ''init'') = 0x10"
    by (simp add: sel_registerName_def sf_lookup_selector_named_def sf_frozen_selector_for_name_unlocked_def)
qed

lemma rebuild_frozen_demo:
  "map_option (\<lambda>(st', m'). length (alloc_script st'))
     (sf_rebuild_frozen_selectors_unlocked Map.empty empty_class_map demo_frozen) = Some 6"
  unfolding sf_rebuild_frozen_selectors_unlocked_def sf_collect_runtime_selectors_unlocked_def registered_empty
  by code_simp

theorem rebuild_frees_old_selectors_witness:
  "\<exists>st' m'. sf_rebuild_frozen_selectors_unlocked Map.empty empty_class_map demo_frozen = Some (st', m')
     \<and> sel_registerName demo_frozen (Some ''init'') = 0x10 \<and> frozen_mem st' 0x10 = None"
proof -
  obtain st' m' where r: "sf_rebuild_frozen_selectors_unlocked Map.empty empty_class_map demo_frozen = Some (st', m')"
    and l: "length (alloc_script st') = 6"
    using rebuild_frozen_demo by (auto simp: map_option_case split: option.splits)
  have "nullptr \<notin> set (alloc_script demo_frozen)"
    unfolding demo_frozen_def empty_selectors_def by code_simp
  moreover have "alloc_script st' \<noteq> []" using l by auto
  ultimately show ?thesis
    using rebuild_frees_old_selectors [OF r demo_frozen_ok(1,2,3) _ _ demo_frozen_ok(4)] r demo_frozen_ok(4) by auto
qed

text \<open>A selector of a compiled module beside the frozen one of the same name.\<close>

definition demo_static :: selectors where
  "demo_static = demo_frozen\<lparr>static_mem := [0x20 \<mapsto> \<lparr>sel_name = Some ''init'', sel_types = None\<rparr>]\<rparr>"

lemma demo_static_ok: "sel_inv demo_static" "sf_selector_name demo_static 0x10 = Some ''init''"
  "sf_selector_name demo_static 0x20 = Some ''init''" "sf_selector_slot demo_static 0x10 = 0" "sf_selector_slot demo_static 0x20 = 0"
proof -
  show inv: "sel_inv demo_static"
    by (rule sel_inv_cong [OF demo_frozen_ok(1)]) (simp_all add: demo_static_def)
  show n: "sf_selector_name demo_static 0x10 = Some ''init''" "sf_selector_name demo_static 0x20 = Some ''init''"
    by (simp_all add: demo_static_def demo_frozen_def sf_selector_name_def sf_selector_fields_def)
  have "sf_lookup_selector_named demo_static (Some ''init'') = 0x10"
    using demo_frozen_ok(4)
    by (simp add: demo_static_def sel_registerName_def sf_lookup_selector_named_def
        sf_frozen_selector_for_name_unlocked_def sf_selector_entry_for_name_unlocked_def)
  then show "sf_selector_slot demo_static 0x10 = 0" "sf_selector_slot demo_static 0x20 = 0"
    using selector_slot_eq [OF inv n(1)] selector_slot_eq [OF inv n(2)]
    by (simp_all add: demo_static_def demo_frozen_def)
qed

theorem selector_slot_iff_name_witness:
  "sf_selector_slot demo_static 0x10 = sf_selector_slot demo_static 0x20
   \<and> unat (sf_selector_slot demo_static 0x10) < sf_runtime_selector_count demo_static"
  using selector_slot_iff_name [OF demo_static_ok(1-3)] by (simp add: demo_static_ok)

end
