(* ===== verification/SF_Tagged.thy ===== *)
theory SF_Tagged
  imports SF_Classes
begin

unbundle bit_operations_syntax

text \<open>
  Tagged pointers (\<open>Runtime/src/loader.c\<close>): the low three bits of an object pointer name one of
  seven classes that registered a slot, the rest is the payload.  The registration is modelled
  with the outcome of the class's own \<open>+taggedPointerSlot\<close> method as an argument, since that
  method is code of the program the runtime serves.
\<close>

section \<open>Pointers\<close>

definition SF_TAGGED_POINTER_SLOT_BITS :: nat where "SF_TAGGED_POINTER_SLOT_BITS = 3"
definition SF_TAGGED_POINTER_SLOT_MASK :: u64 where "SF_TAGGED_POINTER_SLOT_MASK = 7"
definition SF_TAGGED_POINTER_SLOT_COUNT :: u64 where "SF_TAGGED_POINTER_SLOT_COUNT = 8"

record tagged_table =
  slot_classes :: "u64 \<Rightarrow> addr"
  slot_conflicts :: "u64 \<Rightarrow> bool"

definition sf_is_tagged_pointer :: "addr \<Rightarrow> bool" where
  "sf_is_tagged_pointer obj \<longleftrightarrow> obj \<noteq> nullptr \<and> obj AND SF_TAGGED_POINTER_SLOT_MASK \<noteq> 0"

definition sf_tagged_pointer_slot :: "addr \<Rightarrow> u64" where
  "sf_tagged_pointer_slot obj =
     (if \<not> sf_is_tagged_pointer obj then 0 else obj AND SF_TAGGED_POINTER_SLOT_MASK)"

definition sf_tagged_pointer_payload :: "addr \<Rightarrow> u64" where
  "sf_tagged_pointer_payload obj =
     (if \<not> sf_is_tagged_pointer obj then 0 else drop_bit SF_TAGGED_POINTER_SLOT_BITS obj)"

definition sf_tagged_class_for_slot :: "tagged_table \<Rightarrow> u64 \<Rightarrow> addr" where
  "sf_tagged_class_for_slot t slot =
     (if slot = 0 \<or> slot \<ge> SF_TAGGED_POINTER_SLOT_COUNT then nullptr else slot_classes t slot)"

definition sf_tagged_pointer_class :: "tagged_table \<Rightarrow> addr \<Rightarrow> addr" where
  "sf_tagged_pointer_class t obj = sf_tagged_class_for_slot t (sf_tagged_pointer_slot obj)"

definition sf_make_tagged_pointer :: "tagged_table \<Rightarrow> addr \<Rightarrow> u64 \<Rightarrow> addr" where
  "sf_make_tagged_pointer t cls payload =
     (if cls = nullptr \<or> payload > drop_bit SF_TAGGED_POINTER_SLOT_BITS (- 1) then nullptr
      else case find (\<lambda>slot. slot_classes t slot = cls) [1, 2, 3, 4, 5, 6, 7] of
             None \<Rightarrow> nullptr
           | Some slot \<Rightarrow> push_bit SF_TAGGED_POINTER_SLOT_BITS payload OR slot)"

definition sf_object_class :: "tagged_table \<Rightarrow> (addr \<rightharpoonup> addr) \<Rightarrow> addr \<Rightarrow> addr option" where
  "sf_object_class t isa_of obj =
     (if obj = nullptr then Some nullptr
      else if sf_is_tagged_pointer obj then Some (sf_tagged_pointer_class t obj)
      else isa_of obj)"

lemma tagged_shape:
  fixes payload slot :: u64
  assumes "slot \<in> {1, 2, 3, 4, 5, 6, 7}" "payload \<le> drop_bit 3 (- 1)"
  shows "(push_bit 3 payload OR slot) AND 7 = slot" "drop_bit 3 (push_bit 3 payload OR slot) = payload"
proof -
  have m: "(7 :: u64) = mask 3" by (simp add: mask_eq_exp_minus_1)
  have small: "slot AND mask 3 = slot" using assms(1) by (auto simp flip: m)
  have hi: "\<not> bit slot n" if "3 \<le> n" for n
  proof -
    have "\<not> bit (slot AND mask 3) n" using that by (simp add: bit_simps)
    with small show ?thesis by simp
  qed
  have lo: "bit slot n \<Longrightarrow> n < 3" for n using hi [of n] by (meson not_less)
  show "(push_bit 3 payload OR slot) AND 7 = slot"
    unfolding m by (rule bit_word_eqI) (auto simp: bit_simps dest: lo)
  have top: "drop_bit 3 (- 1 :: u64) = mask 61"
    by (rule bit_word_eqI) (auto simp: bit_simps)
  have "payload < 2 ^ 61"
    using assms(2) by (simp add: top mask_eq_exp_minus_1 word_le_nat_alt word_less_nat_alt)
  then have "payload AND mask 61 = payload" by (rule less_mask_eq)
  then have p: "\<not> bit payload n" if "61 \<le> n" for n
    using that by (metis bit_and_iff bit_mask_iff not_less)
  show "drop_bit 3 (push_bit 3 payload OR slot) = payload"
  proof (rule bit_word_eqI)
    fix n assume "n < LENGTH(64)"
    have "bit payload n \<Longrightarrow> n < 61" using p [of n] by (meson not_less)
    with hi [of "n + 3"] show "bit (drop_bit 3 (push_bit 3 payload OR slot)) n = bit payload n"
      by (auto simp: bit_simps add.commute)
  qed
qed

lemma find_SomeD: "find P xs = Some x \<Longrightarrow> x \<in> set xs \<and> P x"
  by (induction xs) (simp_all split: if_splits)

text \<open>A pointer made for a registered class and a payload that fits 61 bits is tagged, not null,
  and reads back as that payload, a slot of that class and hence that class, whatever the other
  slots hold; the object class of such a pointer is found without touching memory.\<close>

theorem tagged_pointer_roundtrip:
  assumes "cls \<noteq> nullptr" "s \<in> {1, 2, 3, 4, 5, 6, 7}" "slot_classes t s = cls"
    and "payload \<le> drop_bit SF_TAGGED_POINTER_SLOT_BITS (- 1)"
  shows "sf_is_tagged_pointer (sf_make_tagged_pointer t cls payload)
    \<and> sf_tagged_pointer_payload (sf_make_tagged_pointer t cls payload) = payload
    \<and> sf_object_class t isa_of (sf_make_tagged_pointer t cls payload) = Some cls"
proof -
  have "find (\<lambda>slot. slot_classes t slot = cls) [1, 2, 3, 4, 5, 6, 7] \<noteq> None"
    using assms(2,3) by (simp only: find_None_iff) auto
  then obtain slot where f: "find (\<lambda>slot. slot_classes t slot = cls) [1, 2, 3, 4, 5, 6, 7] = Some slot"
    by (simp only: not_None_eq) blast
  then have slot: "slot \<in> {1, 2, 3, 4, 5, 6, 7}" "slot_classes t slot = cls"
    using find_SomeD [OF f] by simp_all
  let ?p = "push_bit 3 payload OR slot"
  have made: "sf_make_tagged_pointer t cls payload = ?p"
    using assms(1) leD [OF assms(4)] f by (simp add: sf_make_tagged_pointer_def SF_TAGGED_POINTER_SLOT_BITS_def)
  note shape = tagged_shape [OF slot(1) assms(4) [unfolded SF_TAGGED_POINTER_SLOT_BITS_def]]
  from slot(1) have "slot \<noteq> 0" "slot < 8" by auto
  with shape(1) have tagged: "sf_is_tagged_pointer ?p"
    by (auto simp: sf_is_tagged_pointer_def SF_TAGGED_POINTER_SLOT_MASK_def)
  moreover have "?p \<noteq> nullptr" using tagged by (simp add: sf_is_tagged_pointer_def)
  ultimately show ?thesis
    using shape slot(2) \<open>slot \<noteq> 0\<close> not_le [THEN iffD2, OF \<open>slot < 8\<close>]
    by (simp add: made sf_tagged_pointer_payload_def sf_object_class_def sf_tagged_pointer_class_def
        sf_tagged_pointer_slot_def sf_tagged_class_for_slot_def SF_TAGGED_POINTER_SLOT_MASK_def
        SF_TAGGED_POINTER_SLOT_BITS_def SF_TAGGED_POINTER_SLOT_COUNT_def del: drop_bit_or)
qed

theorem tagged_pointer_roundtrip_witness:
  "sf_tagged_pointer_payload (sf_make_tagged_pointer \<lparr>slot_classes = (\<lambda>_. 0)(5 := 0x1000), slot_conflicts = \<lambda>_. False\<rparr> 0x1000 42) = 42"
  using tagged_pointer_roundtrip [of "0x1000" 5 "\<lparr>slot_classes = (\<lambda>_. 0)(5 := 0x1000), slot_conflicts = \<lambda>_. False\<rparr>" 42]
  by (simp add: SF_TAGGED_POINTER_SLOT_BITS_def mask_eq_exp_minus_1)

section \<open>Registration\<close>

definition sf_reset_tagged_pointer_classes_unlocked :: "tagged_table \<Rightarrow> tagged_table" where
  "sf_reset_tagged_pointer_classes_unlocked t = \<lparr>slot_classes = (\<lambda>_. nullptr), slot_conflicts = (\<lambda>_. False)\<rparr>"

text \<open>The tail of \<open>sf_register_tagged_pointer_class_unlocked\<close>, once the class has said its slot.\<close>

definition claim_slot :: "tagged_table \<Rightarrow> addr \<Rightarrow> u64 \<Rightarrow> tagged_table" where
  "claim_slot t cls slot =
     (if slot = 0 \<or> slot \<ge> SF_TAGGED_POINTER_SLOT_COUNT then t
      else if slot_conflicts t slot then t
      else if slot_classes t slot = nullptr then t\<lparr>slot_classes := (slot_classes t)(slot := cls)\<rparr>
      else if slot_classes t slot \<noteq> cls
           then t\<lparr>slot_classes := (slot_classes t)(slot := nullptr), slot_conflicts := (slot_conflicts t)(slot := True)\<rparr>
      else t)"

text \<open>What the registration of one entry of the class map depends on: the checks of the entry and
  the answer of the class.  \<open>slot_imp\<close> is the class method for \<open>taggedPointerSlot\<close>, null when there is
  none, and \<open>ask\<close> calls it on the class.\<close>

record tagged_env =
  object_class :: addr
  slot_sel :: addr
  is_value_object :: "addr \<Rightarrow> bool"
  slot_imp_of :: "addr \<Rightarrow> addr"
  ask :: "addr \<Rightarrow> addr \<Rightarrow> u64"

definition sf_register_tagged_pointer_class_unlocked ::
  "tagged_env \<Rightarrow> class_mem \<Rightarrow> tagged_table \<Rightarrow> addr \<Rightarrow> string option \<Rightarrow> tagged_table option" where
  "sf_register_tagged_pointer_class_unlocked env m t cls name =
     (if cls = nullptr then Some t
      else case m cls of None \<Rightarrow> None
      | Some c \<Rightarrow>
          if isa c = nullptr \<or> name = None \<or> c_name c = None then Some t
          else if name \<noteq> c_name c then Some t
          else if object_class env = nullptr then Some t
          else case sf_class_is_subclass_of_unlocked m cls (object_class env) of None \<Rightarrow> None
          | Some sub \<Rightarrow>
              if \<not> sub \<or> is_value_object env cls then Some t
              else if slot_sel env = nullptr then Some t
              else if slot_imp_of env (isa c) = nullptr then Some t
              else Some (claim_slot t cls (ask env (slot_imp_of env (isa c)) cls)))"

text \<open>The loop over the class map, on the classes that answered and what they answered.\<close>

fun claim_all :: "tagged_table \<Rightarrow> (addr \<times> u64) list \<Rightarrow> tagged_table" where
  "claim_all t [] = t"
| "claim_all t ((cls, slot) # rest) = claim_all (claim_slot t cls slot) rest"

fun rebuild_slots :: "tagged_env \<Rightarrow> class_mem \<Rightarrow> class_map \<Rightarrow> tagged_table \<Rightarrow> nat list \<Rightarrow> tagged_table option" where
  "rebuild_slots env m cmap t [] = Some t"
| "rebuild_slots env m cmap t (i # is) =
     (if entry_name (cmap i) = None \<or> entry_cls (cmap i) = nullptr then rebuild_slots env m cmap t is
      else case sf_register_tagged_pointer_class_unlocked env m t (entry_cls (cmap i)) (entry_name (cmap i)) of
             None \<Rightarrow> None
           | Some t' \<Rightarrow> rebuild_slots env m cmap t' is)"

definition sf_rebuild_tagged_pointer_class_map_unlocked ::
  "tagged_env \<Rightarrow> class_mem \<Rightarrow> class_map \<Rightarrow> tagged_table \<Rightarrow> tagged_table option" where
  "sf_rebuild_tagged_pointer_class_map_unlocked env m cmap t =
     (let t0 = sf_reset_tagged_pointer_classes_unlocked t
      in if slot_sel env = nullptr then Some t0
         else rebuild_slots env m cmap t0 [0..<SF_CLASS_MAP_CAPACITY])"

text \<open>The entries that get as far as claiming a slot.\<close>

definition claims_slot :: "tagged_env \<Rightarrow> class_mem \<Rightarrow> class_map \<Rightarrow> nat \<Rightarrow> (addr \<times> u64) option" where
  "claims_slot env m cmap i =
     (let cls = entry_cls (cmap i)
      in case m cls of None \<Rightarrow> None
         | Some c \<Rightarrow>
             if entry_name (cmap i) \<noteq> None \<and> cls \<noteq> nullptr \<and> isa c \<noteq> nullptr
               \<and> entry_name (cmap i) = c_name c \<and> object_class env \<noteq> nullptr
               \<and> sf_class_is_subclass_of_unlocked m cls (object_class env) = Some True
               \<and> \<not> is_value_object env cls \<and> slot_sel env \<noteq> nullptr \<and> slot_imp_of env (isa c) \<noteq> nullptr
             then Some (cls, ask env (slot_imp_of env (isa c)) cls) else None)"

lemma rebuild_claims:
  "rebuild_slots env m cmap t is = Some t' \<Longrightarrow> t' = claim_all t (List.map_filter (claims_slot env m cmap) is)"
proof (induction env m cmap t "is" rule: rebuild_slots.induct)
  case (1 env m cmap t)
  then show ?case by (simp add: map_filter_simps)
next
  case (2 env m cmap t i "is")
  show ?case
  proof (cases "entry_name (cmap i) = None \<or> entry_cls (cmap i) = nullptr")
    case True
    then have "claims_slot env m cmap i = None"
      by (auto simp: claims_slot_def Let_def split: option.split)
    with 2 True show ?thesis by (simp add: map_filter_simps)
  next
    case False
    with 2(3) obtain t1 where t1:
      "sf_register_tagged_pointer_class_unlocked env m t (entry_cls (cmap i)) (entry_name (cmap i)) = Some t1"
      "rebuild_slots env m cmap t1 is = Some t'" by (auto split: option.splits)
    have "t1 = (case claims_slot env m cmap i of None \<Rightarrow> t | Some (cls, slot) \<Rightarrow> claim_slot t cls slot)"
      using t1(1) False
      by (auto simp: sf_register_tagged_pointer_class_unlocked_def claims_slot_def Let_def
          split: option.splits if_splits)
    with 2(2) [OF False t1] show ?thesis
      by (simp add: map_filter_simps split: option.split)
  qed
qed

text \<open>What the claims come to.  A slot keeps a class exactly when that is the only class that
  claimed it; a slot two classes claim is nobody's.\<close>

definition claimants :: "(addr \<times> u64) list \<Rightarrow> u64 \<Rightarrow> addr set" where
  "claimants cs slot = {cls. (cls, slot) \<in> set cs}"

definition slots_reflect :: "tagged_table \<Rightarrow> (addr \<times> u64) list \<Rightarrow> bool" where
  "slots_reflect t cs \<longleftrightarrow>
     (\<forall>slot. 0 < slot \<and> slot < SF_TAGGED_POINTER_SLOT_COUNT \<longrightarrow>
        (claimants cs slot = {} \<longrightarrow> slot_classes t slot = nullptr \<and> \<not> slot_conflicts t slot)
      \<and> (\<forall>cls. claimants cs slot = {cls} \<longrightarrow> slot_classes t slot = cls \<and> \<not> slot_conflicts t slot)
      \<and> ((\<exists>a b. a \<noteq> b \<and> a \<in> claimants cs slot \<and> b \<in> claimants cs slot) \<longrightarrow>
            slot_classes t slot = nullptr \<and> slot_conflicts t slot))"

lemma claimants_snoc:
  "claimants (cs @ [(cls, s)]) slot = (if s = slot then insert cls (claimants cs slot) else claimants cs slot)"
  by (auto simp: claimants_def)

lemma claim_all_snoc: "claim_all t (cs @ [(cls, s)]) = claim_slot (claim_all t cs) cls s"
  by (induction t cs rule: claim_all.induct) simp_all

lemma set_cases_card: obtains "A = {}" | x where "A = {x}" | a b where "a \<noteq> b" "a \<in> A" "b \<in> A"
  by blast

lemma claims_reflected:
  assumes "\<And>cls s. (cls, s) \<in> set cs \<Longrightarrow> cls \<noteq> nullptr"
  shows "slots_reflect (claim_all (sf_reset_tagged_pointer_classes_unlocked t) cs) cs"
  using assms
proof (induction cs rule: rev_induct)
  case Nil
  show ?case by (simp add: slots_reflect_def sf_reset_tagged_pointer_classes_unlocked_def claimants_def)
next
  case (snoc x cs)
  obtain cls s where x: "x = (cls, s)" by (cases x)
  let ?t = "claim_all (sf_reset_tagged_pointer_classes_unlocked t) cs"
  have IH: "slots_reflect ?t cs" using snoc by auto
  have nz: "cls \<noteq> nullptr" and nzs: "\<And>c s. (c, s) \<in> set cs \<Longrightarrow> c \<noteq> nullptr" using snoc.prems x by auto
  show ?case
    unfolding slots_reflect_def x claim_all_snoc
  proof (intro allI impI)
    fix slot assume slot: "0 < slot \<and> slot < SF_TAGGED_POINTER_SLOT_COUNT"
    note old = IH [unfolded slots_reflect_def, rule_format, OF slot]
    show "(claimants (cs @ [(cls, s)]) slot = {} \<longrightarrow> slot_classes (claim_slot ?t cls s) slot = nullptr \<and> \<not> slot_conflicts (claim_slot ?t cls s) slot)
      \<and> (\<forall>cl. claimants (cs @ [(cls, s)]) slot = {cl} \<longrightarrow> slot_classes (claim_slot ?t cls s) slot = cl \<and> \<not> slot_conflicts (claim_slot ?t cls s) slot)
      \<and> ((\<exists>a b. a \<noteq> b \<and> a \<in> claimants (cs @ [(cls, s)]) slot \<and> b \<in> claimants (cs @ [(cls, s)]) slot) \<longrightarrow>
            slot_classes (claim_slot ?t cls s) slot = nullptr \<and> slot_conflicts (claim_slot ?t cls s) slot)"
    proof (cases "s = slot")
      case False
      then show ?thesis using old by (simp add: claimants_snoc claim_slot_def)
    next
      case True
      then have ne: "slot \<noteq> 0" "\<not> SF_TAGGED_POINTER_SLOT_COUNT \<le> slot" using slot by auto
      consider "claimants cs slot = {}" | y where "claimants cs slot = {y}"
        | a b where "a \<noteq> b" "a \<in> claimants cs slot" "b \<in> claimants cs slot"
        using set_cases_card [of "claimants cs slot"] by metis
      then show ?thesis
      proof cases
        case 1
        then show ?thesis using old True ne by (simp add: claimants_snoc claim_slot_def)
      next
        case 2
        then have "(y, slot) \<in> set cs" by (auto simp: claimants_def)
        then have "y \<noteq> nullptr" by (rule nzs)
        with 2 old True ne show ?thesis
          by (cases "y = cls") (auto simp: claimants_snoc claim_slot_def)
      next
        case 3
        then have t: "slot_classes ?t slot = nullptr \<and> slot_conflicts ?t slot" using old by blast
        then have "claim_slot ?t cls s = ?t" using True by (simp add: claim_slot_def)
        with t 3 True show ?thesis by (auto simp: claimants_snoc)
      qed
    qed
  qed
qed

text \<open>Rebuilding the slot table from the class map gives a slot to a class exactly when it is the
  only registered class that claims it: of two classes that claim one slot neither gets it, in
  whatever order the map holds them, and a slot nobody claims stays empty.\<close>

theorem tagged_slots_unambiguous:
  assumes "sf_rebuild_tagged_pointer_class_map_unlocked env m cmap t = Some t'"
    and "0 < slot" "slot < SF_TAGGED_POINTER_SLOT_COUNT"
    and "cs = List.map_filter (claims_slot env m cmap) [0..<SF_CLASS_MAP_CAPACITY]"
  shows "slot_classes t' slot = (if \<exists>cls. claimants cs slot = {cls} then the_elem (claimants cs slot) else nullptr)"
proof -
  have "t' = claim_all (sf_reset_tagged_pointer_classes_unlocked t) cs"
  proof (cases "slot_sel env = nullptr")
    case True
    then have "claims_slot env m cmap = (\<lambda>_. None)"
      by (auto simp: claims_slot_def Let_def fun_eq_iff split: option.split)
    then have "cs = []" using assms(4) by (simp add: List.map_filter_def)
    with True assms(1) show ?thesis by (simp add: sf_rebuild_tagged_pointer_class_map_unlocked_def)
  next
    case False
    with assms(1,4) rebuild_claims show ?thesis
      by (auto simp: sf_rebuild_tagged_pointer_class_map_unlocked_def Let_def)
  qed
  moreover have "cls \<noteq> nullptr" if "(cls, s) \<in> set cs" for cls s
    using that unfolding assms(4)
    by (auto simp: List.map_filter_def claims_slot_def Let_def split: option.splits if_splits)
  ultimately have "slots_reflect t' cs" using claims_reflected [of cs t] by blast
  then have r: "(claimants cs slot = {} \<longrightarrow> slot_classes t' slot = nullptr)
      \<and> (\<forall>cls. claimants cs slot = {cls} \<longrightarrow> slot_classes t' slot = cls)
      \<and> ((\<exists>a b. a \<noteq> b \<and> a \<in> claimants cs slot \<and> b \<in> claimants cs slot) \<longrightarrow> slot_classes t' slot = nullptr)"
    using assms(2,3) by (auto simp: slots_reflect_def)
  show ?thesis
    using r by (cases rule: set_cases_card [of "claimants cs slot"]) auto
qed

lemma rebuild_empty:
  "\<forall>i\<in>set is. entry_cls (cmap i) = nullptr \<Longrightarrow> rebuild_slots env m cmap t is = Some t"
  by (induction env m cmap t "is" rule: rebuild_slots.induct) simp_all

lemma claims_empty:
  "\<forall>i\<in>set is. entry_cls (cmap i) = nullptr \<Longrightarrow> List.map_filter (claims_slot env m cmap) is = []"
  by (induction "is") (auto simp: map_filter_simps claims_slot_def Let_def split: option.split)

text \<open>A map that registers two subclasses of \<open>Object\<close>, both claiming slot 3.\<close>

definition demo_tag_map :: class_map where
  "demo_tag_map = empty_class_map
     (0 := \<lparr>entry_name = Some ''A'', entry_cls = 0x1000\<rparr>, 1 := \<lparr>entry_name = Some ''B'', entry_cls = 0x2000\<rparr>)"

definition demo_tag_mem :: class_mem where
  "demo_tag_mem =
     [0x1000 \<mapsto> (class_demo 0x4000 0x3000)\<lparr>c_name := Some ''A''\<rparr>,
      0x2000 \<mapsto> (class_demo 0x4000 0x3000)\<lparr>c_name := Some ''B''\<rparr>,
      0x3000 \<mapsto> class_demo 0x4000 0]"

definition demo_tag_env :: tagged_env where
  "demo_tag_env = \<lparr>object_class = 0x3000, slot_sel = 0x10, is_value_object = \<lambda>_. False,
     slot_imp_of = \<lambda>_. 0x5000, ask = \<lambda>_ _. 3\<rparr>"

lemma demo_tag_indices: "[0..<SF_CLASS_MAP_CAPACITY] = 0 # 1 # [2..<SF_CLASS_MAP_CAPACITY]"
  using upt_conv_Cons [of 0 SF_CLASS_MAP_CAPACITY] upt_conv_Cons [of "Suc 0" SF_CLASS_MAP_CAPACITY]
  by (simp add: SF_CLASS_MAP_CAPACITY_def numeral_2_eq_2)

lemma demo_tag_entries:
  "demo_tag_map 0 = \<lparr>entry_name = Some ''A'', entry_cls = 0x1000\<rparr>"
  "demo_tag_map 1 = \<lparr>entry_name = Some ''B'', entry_cls = 0x2000\<rparr>"
  "demo_tag_mem 0x1000 = Some ((class_demo 0x4000 0x3000)\<lparr>c_name := Some ''A''\<rparr>)"
  "demo_tag_mem 0x2000 = Some ((class_demo 0x4000 0x3000)\<lparr>c_name := Some ''B''\<rparr>)"
  by (simp_all add: demo_tag_map_def demo_tag_mem_def)

lemma demo_tag_fields:
  "isa ((class_demo i s)\<lparr>c_name := n\<rparr>) = i" "superclass ((class_demo i s)\<lparr>c_name := n\<rparr>) = s"
  "c_name ((class_demo i s)\<lparr>c_name := n\<rparr>) = n"
  by (simp_all add: class_demo_def)

lemma demo_tag_subclass:
  "sf_class_is_subclass_of_unlocked demo_tag_mem 0x1000 0x3000 = Some True"
  "sf_class_is_subclass_of_unlocked demo_tag_mem 0x2000 0x3000 = Some True"
proof -
  have hit: "subclass_loop demo_tag_mem 0x3000 0x3000 = Some True"
    by (subst subclass_loop.simps) simp
  show "sf_class_is_subclass_of_unlocked demo_tag_mem 0x1000 0x3000 = Some True"
    unfolding sf_class_is_subclass_of_unlocked_def
    by (subst subclass_loop.simps) (simp add: demo_tag_entries demo_tag_fields sf_next_superclass_def hit)
  show "sf_class_is_subclass_of_unlocked demo_tag_mem 0x2000 0x3000 = Some True"
    unfolding sf_class_is_subclass_of_unlocked_def
    by (subst subclass_loop.simps) (simp add: demo_tag_entries demo_tag_fields sf_next_superclass_def hit)
qed

lemma demo_tag_rest: "\<forall>i\<in>set [2..<SF_CLASS_MAP_CAPACITY]. entry_cls (demo_tag_map i) = nullptr"
  by (auto simp: demo_tag_map_def empty_class_map_def)

theorem tagged_slots_unambiguous_witness:
  "\<exists>t'. sf_rebuild_tagged_pointer_class_map_unlocked demo_tag_env demo_tag_mem demo_tag_map
          \<lparr>slot_classes = \<lambda>_. 0, slot_conflicts = \<lambda>_. False\<rparr> = Some t' \<and> slot_classes t' 3 = nullptr"
proof -
  let ?t = "\<lparr>slot_classes = \<lambda>_. 0, slot_conflicts = \<lambda>_. False\<rparr>"
  have "sf_rebuild_tagged_pointer_class_map_unlocked demo_tag_env demo_tag_mem demo_tag_map ?t \<noteq> None"
    unfolding sf_rebuild_tagged_pointer_class_map_unlocked_def demo_tag_indices
    by (simp add: rebuild_empty [OF demo_tag_rest] sf_register_tagged_pointer_class_unlocked_def
        demo_tag_subclass demo_tag_env_def Let_def demo_tag_entries demo_tag_fields
        del: One_nat_def)
  then obtain t' where t': "sf_rebuild_tagged_pointer_class_map_unlocked demo_tag_env demo_tag_mem demo_tag_map ?t = Some t'"
    by blast
  have cs: "List.map_filter (claims_slot demo_tag_env demo_tag_mem demo_tag_map) [0..<SF_CLASS_MAP_CAPACITY]
      = [(0x1000, 3), (0x2000, 3)]"
    unfolding demo_tag_indices map_filter_simps claims_empty [OF demo_tag_rest]
    by (simp add: claims_slot_def demo_tag_entries demo_tag_fields demo_tag_subclass demo_tag_env_def Let_def
        del: One_nat_def)
  have "claimants [(0x1000, 3), (0x2000, 3)] 3 = {0x1000, 0x2000}" by (auto simp: claimants_def)
  with tagged_slots_unambiguous [OF t' _ _ cs [symmetric], of 3] t' show ?thesis
    by (auto simp: SF_TAGGED_POINTER_SLOT_COUNT_def doubleton_eq_iff)
qed

end
