(* ===== verification/SF_Dispatch.thy ===== *)
theory SF_Dispatch
  imports SF_Selectors SF_Tagged
begin

unbundle bit_operations_syntax

text \<open>
  Message dispatch: \<open>Runtime/src/dispatch/dispatch.c\<close> and the dispatch tables and method lookups
  of \<open>Runtime/src/loader.c\<close>.  A class has a dispatch table indexed by selector slot, a copy of
  its superclass's overwritten with its own methods; what the table does not answer is looked for
  in the method lists up the superclass chain; what no class answers is forwarded to the object
  that \<open>forwardingTargetForSelector:\<close> names, at most eight times.

  A result \<open>None\<close> of a walk is a fault or a superclass chain without an end, as in \<open>SF_Classes\<close>.
\<close>

section \<open>Matching and looking up\<close>

definition sf_selector_equal :: "addr \<Rightarrow> addr \<Rightarrow> bool" where
  "sf_selector_equal a b \<longleftrightarrow> a = b"

definition sel_isEqual :: "addr \<Rightarrow> addr \<Rightarrow> bool" where
  "sel_isEqual lhs rhs = sf_selector_equal lhs rhs"

definition selector_slots_match :: "selectors \<Rightarrow> addr \<Rightarrow> addr \<Rightarrow> bool" where
  "selector_slots_match st lhs rhs =
     (if lhs = rhs then True
      else if lhs = nullptr \<or> rhs = nullptr then False
      else let lhs_slot = sf_selector_slot st lhs; rhs_slot = sf_selector_slot st rhs in
        if lhs_slot \<noteq> UINT32_MAX \<and> rhs_slot \<noteq> UINT32_MAX then lhs_slot = rhs_slot
        else sf_selector_name st lhs \<noteq> None \<and> sf_selector_name st lhs = sf_selector_name st rhs)"

partial_function (option) lookup_method_loop ::
  "selectors \<Rightarrow> class_mem \<Rightarrow> addr \<Rightarrow> addr \<Rightarrow> SFObjCMethod option option" where
  "lookup_method_loop st m cursor op =
     (if cursor = nullptr then Some None
      else case m cursor of None \<Rightarrow> None
      | Some c \<Rightarrow>
          (case find (\<lambda>meth. selector_slots_match st (m_selector meth) op) (concat (c_methods c)) of
             Some meth \<Rightarrow> Some (Some meth)
           | None \<Rightarrow> lookup_method_loop st m (if superclass c \<noteq> cursor then superclass c else nullptr) op))"

declare lookup_method_loop.simps [code]

definition lookup_method_in_class_local ::
  "selectors \<Rightarrow> class_mem \<Rightarrow> addr \<Rightarrow> addr \<Rightarrow> SFObjCMethod option option" where
  "lookup_method_in_class_local st m cls op =
     (if cls = nullptr \<or> op = nullptr then Some None else lookup_method_loop st m cls op)"

definition sf_lookup_method_in_class ::
  "selectors \<Rightarrow> class_mem \<Rightarrow> addr \<Rightarrow> addr \<Rightarrow> SFObjCMethod option option" where
  "sf_lookup_method_in_class st m cls op = lookup_method_in_class_local st m cls op"

definition sf_lookup_dtable_imp :: "selectors \<Rightarrow> class_mem \<Rightarrow> addr \<Rightarrow> addr \<Rightarrow> addr option" where
  "sf_lookup_dtable_imp st m cls op =
     (if cls = nullptr \<or> op = nullptr then Some nullptr
      else case m cls of None \<Rightarrow> None
      | Some c \<Rightarrow>
          (case c_dtable c of None \<Rightarrow> Some nullptr
           | Some dtable \<Rightarrow>
               (let slot = unat (sf_selector_slot st op) in
                if slot \<ge> sf_runtime_selector_count st then Some nullptr
                else if slot < length dtable then Some (dtable ! slot) else None)))"

definition imp_of :: "SFObjCMethod option \<Rightarrow> addr" where
  "imp_of meth = (case meth of None \<Rightarrow> nullptr | Some meth \<Rightarrow> m_imp meth)"

definition sf_lookup_imp_in_class :: "selectors \<Rightarrow> class_mem \<Rightarrow> addr \<Rightarrow> addr \<Rightarrow> addr option" where
  "sf_lookup_imp_in_class st m cls op =
     (case sf_lookup_dtable_imp st m cls op of None \<Rightarrow> None
      | Some imp \<Rightarrow>
          if imp \<noteq> nullptr then Some imp
          else map_option imp_of (lookup_method_in_class_local st m cls op))"

definition sf_lookup_imp_miss :: "selectors \<Rightarrow> class_mem \<Rightarrow> addr \<Rightarrow> addr \<Rightarrow> addr option" where
  "sf_lookup_imp_miss st m cls op = sf_lookup_imp_in_class st m cls op"

definition objc_msg_lookup_super :: "selectors \<Rightarrow> class_mem \<Rightarrow> addr option \<Rightarrow> addr \<Rightarrow> addr option" where
  "objc_msg_lookup_super st m super_class op =
     (case super_class of None \<Rightarrow> Some nullptr | Some cls \<Rightarrow> sf_lookup_imp_in_class st m cls op)"

text \<open>The exact lookup of one class, by selector pointer.\<close>

definition sf_lookup_method_imp_exact :: "class_mem \<Rightarrow> addr \<Rightarrow> addr \<Rightarrow> addr option" where
  "sf_lookup_method_imp_exact m cls sel =
     (if cls = nullptr \<or> sel = nullptr then Some nullptr
      else case m cls of None \<Rightarrow> None
      | Some c \<Rightarrow> Some (imp_of (find (\<lambda>meth. sf_selector_equal (m_selector meth) sel) (concat (c_methods c)))))"

section \<open>Reflection\<close>

partial_function (option) class_get_method_impl ::
  "selectors \<Rightarrow> class_mem \<Rightarrow> addr \<Rightarrow> addr \<Rightarrow> bool \<Rightarrow> SFObjCMethod option option" where
  "class_get_method_impl st m cls sel include_super =
     (if cls = nullptr then Some None
      else case m cls of None \<Rightarrow> None
      | Some c \<Rightarrow>
          (case find (\<lambda>meth. m_selector meth \<noteq> nullptr \<and> sel \<noteq> nullptr
                       \<and> sf_selector_slot st (m_selector meth) = sf_selector_slot st sel) (concat (c_methods c)) of
             Some meth \<Rightarrow> Some (Some meth)
           | None \<Rightarrow> class_get_method_impl st m (if include_super then sf_next_superclass cls c else nullptr)
                       sel include_super))"

declare class_get_method_impl.simps [code]

definition class_getInstanceMethod :: "selectors \<Rightarrow> class_mem \<Rightarrow> addr \<Rightarrow> addr \<Rightarrow> SFObjCMethod option option" where
  "class_getInstanceMethod st m cls sel = class_get_method_impl st m cls sel True"

definition class_getClassMethod :: "selectors \<Rightarrow> class_mem \<Rightarrow> addr \<Rightarrow> addr \<Rightarrow> SFObjCMethod option option" where
  "class_getClassMethod st m cls sel =
     (if cls = nullptr then Some None
      else case m cls of None \<Rightarrow> None
      | Some c \<Rightarrow> if isa c = nullptr then Some None else class_get_method_impl st m (isa c) sel True)"

text \<open>\<open>None\<close> is the null result; \<open>ok\<close> says whether the allocation succeeds.\<close>

definition class_copyMethodList :: "bool \<Rightarrow> SFObjCClass option \<Rightarrow> SFObjCMethod list option" where
  "class_copyMethodList ok c =
     (case c of None \<Rightarrow> None
      | Some c \<Rightarrow> if concat (c_methods c) = [] \<or> \<not> ok then None else Some (concat (c_methods c)))"

definition class_copyIvarList :: "bool \<Rightarrow> SFObjCClass option \<Rightarrow> SFObjCIvar list option" where
  "class_copyIvarList ok c =
     (case c of None \<Rightarrow> None | Some c \<Rightarrow> if c_ivars c = [] \<or> \<not> ok then None else Some (c_ivars c))"

section \<open>Building dispatch tables\<close>

definition canonicalize_method :: "selectors \<Rightarrow> SFObjCMethod \<Rightarrow> SFObjCMethod" where
  "canonicalize_method st meth =
     (let canonical = (if m_selector meth \<noteq> nullptr \<and> sf_selector_name st (m_selector meth) \<noteq> None
                       then sf_lookup_selector_named st (sf_selector_name st (m_selector meth)) else nullptr)
      in meth\<lparr>m_selector := canonical,
              m_types := (if canonical \<noteq> nullptr then sf_selector_types st canonical else m_types meth)\<rparr>)"

definition sf_canonicalize_method_selectors :: "selectors \<Rightarrow> class_mem \<Rightarrow> addr \<Rightarrow> class_mem option" where
  "sf_canonicalize_method_selectors st m cls =
     (if cls = nullptr then Some m
      else case m cls of None \<Rightarrow> None
      | Some c \<Rightarrow> Some (m(cls \<mapsto> c\<lparr>c_methods := map (map (canonicalize_method st)) (c_methods c)\<rparr>)))"

fun write_dtable :: "selectors \<Rightarrow> addr list \<Rightarrow> SFObjCMethod list \<Rightarrow> addr list" where
  "write_dtable st dtable [] = dtable"
| "write_dtable st dtable (meth # ms) =
     (if m_selector meth = nullptr then write_dtable st dtable ms
      else let slot = unat (sf_selector_slot st (m_selector meth)) in
        write_dtable st (if slot < sf_runtime_selector_count st then dtable[slot := m_imp meth] else dtable) ms)"

text \<open>The table a class starts from: zeros, or a copy of its superclass's.  Copying from a table
  that is too short is a fault.\<close>

definition inherited_dtable :: "selectors \<Rightarrow> class_mem \<Rightarrow> addr \<Rightarrow> SFObjCClass \<Rightarrow> addr list option" where
  "inherited_dtable st m cls c =
     (let n = sf_runtime_selector_count st in
      if superclass c \<noteq> nullptr \<and> superclass c \<noteq> cls
      then (case m (superclass c) of None \<Rightarrow> None
            | Some s \<Rightarrow> (case c_dtable s of None \<Rightarrow> Some (replicate n nullptr)
                         | Some d \<Rightarrow> if length d < n then None else Some (take n d)))
      else Some (replicate n nullptr))"

text \<open>\<open>ok\<close> says for which classes the allocation of the table succeeds.\<close>

partial_function (option) sf_build_class_dtable_unlocked ::
  "selectors \<Rightarrow> (addr \<Rightarrow> bool) \<Rightarrow> class_mem \<Rightarrow> addr \<Rightarrow> class_mem option" where
  "sf_build_class_dtable_unlocked st ok m cls =
     (if cls = nullptr then Some m
      else case m cls of None \<Rightarrow> None
      | Some c \<Rightarrow>
          if c_dtable c \<noteq> None \<or> sf_runtime_selector_count st = 0 then Some m
          else Option.bind
            (if superclass c \<noteq> nullptr \<and> superclass c \<noteq> cls
             then sf_build_class_dtable_unlocked st ok m (superclass c) else Some m)
            (\<lambda>m1. if \<not> ok cls then Some m1
                   else case m1 cls of None \<Rightarrow> None
                   | Some c1 \<Rightarrow>
                       Option.bind (inherited_dtable st m1 cls c1)
                         (\<lambda>d. Some (m1(cls \<mapsto> c1\<lparr>c_dtable := Some (write_dtable st d (concat (c_methods c1)))\<rparr>)))))"

declare sf_build_class_dtable_unlocked.simps [code]

section \<open>Sending\<close>

text \<open>What a send depends on: the selector table, the classes, the tagged-pointer slots, the \<open>isa\<close>
  word of an object, the cached \<open>forwardingTargetForSelector:\<close> selector, and the implementations
  of that method, which belong to the program the runtime serves:
  \<open>forward_imp imp receiver forwarding_sel sel\<close> is what calling \<open>imp\<close> returns.\<close>

record dispatch_env =
  d_sels :: selectors
  d_classes :: class_mem
  d_tags :: tagged_table
  d_isa :: "addr \<rightharpoonup> addr"
  d_forwarding_sel :: addr
  d_forward_imp :: "addr \<Rightarrow> addr \<Rightarrow> addr \<Rightarrow> addr \<Rightarrow> addr"

definition sf_lookup_imp :: "dispatch_env \<Rightarrow> addr \<Rightarrow> addr \<Rightarrow> addr option" where
  "sf_lookup_imp env receiver op =
     (case sf_object_class (d_tags env) (d_isa env) receiver of None \<Rightarrow> None
      | Some cls \<Rightarrow> sf_lookup_imp_in_class (d_sels env) (d_classes env) cls op)"

text \<open>The part of the loop that asks a receiver for its forwarding target: \<open>Some None\<close> is a break.\<close>

definition forward_target :: "dispatch_env \<Rightarrow> addr \<Rightarrow> addr \<Rightarrow> addr option option" where
  "forward_target env receiver sel =
     (if d_forwarding_sel env = nullptr \<or> selector_slots_match (d_sels env) sel (d_forwarding_sel env) then Some None
      else case sf_object_class (d_tags env) (d_isa env) receiver of None \<Rightarrow> None
      | Some cls \<Rightarrow>
          (case lookup_method_in_class_local (d_sels env) (d_classes env) cls (d_forwarding_sel env) of None \<Rightarrow> None
           | Some forward_method \<Rightarrow>
               if imp_of forward_method = nullptr then Some None
               else let target = d_forward_imp env (imp_of forward_method) receiver (d_forwarding_sel env) sel in
                 if target = nullptr \<or> target = receiver then Some None else Some (Some target)))"

text \<open>\<open>while (true)\<close>, with the hops that remain; the result is the receiver at the break or the
  return, and \<open>None\<close> a fault.\<close>

fun forward_loop :: "dispatch_env \<Rightarrow> nat \<Rightarrow> addr \<Rightarrow> addr \<Rightarrow> addr option" where
  "forward_loop env 0 receiver sel = Some receiver"
| "forward_loop env (Suc hops) receiver sel =
     (case sf_lookup_imp env receiver sel of None \<Rightarrow> None
      | Some imp \<Rightarrow>
          if imp \<noteq> nullptr then Some receiver
          else case forward_target env receiver sel of None \<Rightarrow> None
          | Some None \<Rightarrow> Some receiver
          | Some (Some target) \<Rightarrow> if hops = 0 then Some target else forward_loop env hops target sel)"

text \<open>The result is the implementation, the receiver and the selector.\<close>

definition sf_resolve_message_dispatch :: "dispatch_env \<Rightarrow> addr \<Rightarrow> addr \<Rightarrow> (addr \<times> addr \<times> addr) option" where
  "sf_resolve_message_dispatch env receiver op =
     (case forward_loop env 8 receiver op of None \<Rightarrow> None
      | Some receiver' \<Rightarrow> map_option (\<lambda>imp. (imp, receiver', op)) (sf_lookup_imp env receiver' op))"

definition objc_msg_lookup :: "dispatch_env \<Rightarrow> addr \<Rightarrow> addr \<Rightarrow> addr option" where
  "objc_msg_lookup env receiver op = map_option fst (sf_resolve_message_dispatch env receiver op)"

record sf_objc_slot =
  slot_owner :: addr
  slot_types :: "string option"
  slot_selector :: addr
  slot_version :: u32
  slot_method :: addr

definition legacy_lookup_slot :: "dispatch_env \<Rightarrow> addr \<Rightarrow> addr \<Rightarrow> addr \<Rightarrow> sf_objc_slot option" where
  "legacy_lookup_slot env receiver op imp =
     map_option (\<lambda>owner. \<lparr>slot_owner = owner, slot_types = sf_selector_types (d_sels env) op,
                          slot_selector = op, slot_version = 0, slot_method = imp\<rparr>)
       (sf_object_class (d_tags env) (d_isa env) receiver)"

text \<open>The receiver comes back changed when the message was forwarded.\<close>

definition objc_msg_lookup_sender :: "dispatch_env \<Rightarrow> addr \<Rightarrow> addr \<Rightarrow> (addr \<times> sf_objc_slot) option" where
  "objc_msg_lookup_sender env receiver op =
     (case sf_resolve_message_dispatch env receiver op of None \<Rightarrow> None
      | Some (imp, receiver', op') \<Rightarrow>
          map_option (\<lambda>slot. (receiver', slot)) (legacy_lookup_slot env receiver' op' imp))"

section \<open>The lookup is the first match on the chain\<close>

definition chain_methods :: "class_mem \<Rightarrow> addr list \<Rightarrow> SFObjCMethod list" where
  "chain_methods m cs = concat (map (class_methods_of m) cs)"

lemma chain_methods_simps [simp]:
  "chain_methods m [] = []" "chain_methods m (c # cs) = class_methods_of m c @ chain_methods m cs"
  by (simp_all add: chain_methods_def)

lemma find_append: "find P (xs @ ys) = (case find P xs of None \<Rightarrow> find P ys | Some x \<Rightarrow> Some x)"
  by (induction xs) simp_all

lemma next_superclass_alt: "(if superclass c \<noteq> cls then superclass c else nullptr) = sf_next_superclass cls c"
  by (simp add: sf_next_superclass_def)

lemma lookup_loop_chain:
  "super_chain m cls = Some cs \<Longrightarrow>
    lookup_method_loop st m cls op = Some (find (\<lambda>meth. selector_slots_match st (m_selector meth) op) (chain_methods m cs))"
proof (induction cs arbitrary: cls)
  case Nil
  from super_chain_NilD [OF this] show ?case by (subst lookup_method_loop.simps) simp
next
  case (Cons a cs)
  then obtain c where c: "a = cls" "cls \<noteq> nullptr" "m cls = Some c" "super_chain m (sf_next_superclass cls c) = Some cs"
    using super_chain_ConsD by blast
  have "class_methods_of m a = concat (c_methods c)" using c by (simp add: class_methods_of_def)
  with Cons.IH [OF c(4)] c(2,3) show ?case
    by (subst lookup_method_loop.simps)
      (simp only: chain_methods_simps find_append option.case if_False next_superclass_alt split: option.split, simp)
qed

text \<open>On a superclass chain that ends, a method lookup returns; what it returns is the first method
  of the chain, subclass before superclass and in list order within a class, whose selector
  matches, and null when there is none.\<close>

theorem lookup_method_first:
  assumes "super_ok m cls" "op \<noteq> nullptr"
  shows "\<exists>cs. super_chain m cls = Some cs
    \<and> sf_lookup_method_in_class st m cls op =
        Some (find (\<lambda>meth. selector_slots_match st (m_selector meth) op) (chain_methods m cs))"
proof -
  obtain cs where cs: "super_chain m cls = Some cs" using super_ok_chain [OF assms(1)] by blast
  show ?thesis
  proof (cases "cls = nullptr")
    case True
    then show ?thesis by (simp add: sf_lookup_method_in_class_def lookup_method_in_class_local_def)
  next
    case False
    with cs assms(2) lookup_loop_chain [OF cs] show ?thesis
      by (simp add: sf_lookup_method_in_class_def lookup_method_in_class_local_def)
  qed
qed

definition demo_method :: "addr \<Rightarrow> addr \<Rightarrow> SFObjCMethod" where
  "demo_method imp sel = \<lparr>m_imp = imp, m_selector = sel, m_types = None\<rparr>"

definition demo_classes :: class_mem where
  "demo_classes =
     [0x100 \<mapsto> (class_demo 0 0x200)\<lparr>c_methods := [[demo_method 0xA0 0x30]]\<rparr>,
      0x200 \<mapsto> (class_demo 0 0)\<lparr>c_methods := [[demo_method 0xB0 0x20], [demo_method 0xC0 0x30]]\<rparr>]"

lemma demo_classes_at:
  "demo_classes 0x100 = Some ((class_demo 0 0x200)\<lparr>c_methods := [[demo_method 0xA0 0x30]]\<rparr>)"
  "demo_classes 0x200 = Some ((class_demo 0 0)\<lparr>c_methods := [[demo_method 0xB0 0x20], [demo_method 0xC0 0x30]]\<rparr>)"
  by (simp_all add: demo_classes_def)

lemma demo_fields:
  "superclass ((class_demo i s)\<lparr>c_methods := ms\<rparr>) = s" "c_methods ((class_demo i s)\<lparr>c_methods := ms\<rparr>) = ms"
  "c_dtable ((class_demo i s)\<lparr>c_methods := ms\<rparr>) = None" "isa ((class_demo i s)\<lparr>c_methods := ms\<rparr>) = i"
  by (simp_all add: class_demo_def)

lemma demo_chain: "super_chain demo_classes 0x100 = Some [0x100, 0x200]" "super_ok demo_classes 0x100"
proof -
  have "super_chain demo_classes 0x200 = Some [0x200]"
    by (simp add: super_chain_step [of "0x200" demo_classes, OF _ demo_classes_at(2)] sf_next_superclass_def demo_fields)
  then show "super_chain demo_classes 0x100 = Some [0x100, 0x200]"
    by (simp add: super_chain_step [of "0x100" demo_classes, OF _ demo_classes_at(1)] sf_next_superclass_def demo_fields)
  then show "super_ok demo_classes 0x100" by (rule super_chain_ok)
qed

theorem lookup_method_first_witness:
  "sf_lookup_method_in_class demo_static demo_classes 0x100 0x20 = Some (Some (demo_method 0xB0 0x20))"
proof -
  have "sf_selector_slot demo_static 0x30 = UINT32_MAX" "sf_selector_name demo_static 0x30 = None"
    by (simp_all add: sf_selector_slot_def sf_selector_name_def sf_selector_fields_def demo_static_def demo_frozen_def)
  then have "\<not> selector_slots_match demo_static 0x30 0x20"
    by (simp add: selector_slots_match_def)
  then have "find (\<lambda>meth. selector_slots_match demo_static (m_selector meth) 0x20) (chain_methods demo_classes [0x100, 0x200])
      = Some (demo_method 0xB0 0x20)"
    by (simp add: class_methods_of_def demo_classes_at demo_fields demo_method_def) (simp add: selector_slots_match_def)
  with lookup_method_first [OF demo_chain(2), of "0x20" demo_static] demo_chain(1) show ?thesis by simp
qed

section \<open>What a dispatch table holds\<close>

definition has_slot :: "selectors \<Rightarrow> nat \<Rightarrow> SFObjCMethod \<Rightarrow> bool" where
  "has_slot st slot meth \<longleftrightarrow> m_selector meth \<noteq> nullptr \<and> unat (sf_selector_slot st (m_selector meth)) = slot"

lemma write_dtable_length [simp]: "length (write_dtable st d ms) = length d"
  by (induction st d ms rule: write_dtable.induct) (simp_all add: Let_def)

lemma write_dtable_nth:
  "length d = sf_runtime_selector_count st \<Longrightarrow> slot < length d \<Longrightarrow>
    write_dtable st d ms ! slot = (case find (has_slot st slot) (rev ms) of Some meth \<Rightarrow> m_imp meth | None \<Rightarrow> d ! slot)"
proof (induction st d ms rule: write_dtable.induct)
  case (2 st d meth ms)
  show ?case
  proof (cases "m_selector meth = nullptr")
    case True
    with 2 show ?thesis by (simp add: find_append has_slot_def split: option.split)
  next
    case False
    let ?s = "unat (sf_selector_slot st (m_selector meth))"
    define d' where "d' = (if ?s < sf_runtime_selector_count st then d[?s := m_imp meth] else d)"
    have "write_dtable st d' ms ! slot = (case find (has_slot st slot) (rev ms) of Some meth \<Rightarrow> m_imp meth | None \<Rightarrow> d' ! slot)"
      unfolding d'_def by (rule "2.IH"(2) [OF False refl]) (use "2.prems" in simp_all)
    moreover have "d' ! slot = (if has_slot st slot meth then m_imp meth else d ! slot)"
      using "2.prems" False by (auto simp: has_slot_def d'_def)
    moreover have "write_dtable st d (meth # ms) = write_dtable st d' ms"
      using False by (simp add: Let_def d'_def)
    ultimately show ?thesis
      by (simp add: find_append split: option.split)
  qed
qed simp

text \<open>The implementation the tables give to a slot: the last method of the nearest class that has
  one.\<close>

fun table_imp :: "selectors \<Rightarrow> class_mem \<Rightarrow> addr list \<Rightarrow> nat \<Rightarrow> addr" where
  "table_imp st m [] slot = nullptr"
| "table_imp st m (c # cs) slot =
     (case find (has_slot st slot) (rev (class_methods_of m c)) of
        Some meth \<Rightarrow> m_imp meth | None \<Rightarrow> table_imp st m cs slot)"

definition table_sound :: "selectors \<Rightarrow> class_mem \<Rightarrow> addr list \<Rightarrow> addr list \<Rightarrow> bool" where
  "table_sound st m cs d \<longleftrightarrow> length d = sf_runtime_selector_count st
     \<and> (\<forall>slot < length d. d ! slot \<noteq> nullptr \<longrightarrow> d ! slot = table_imp st m cs slot)"

text \<open>Every dispatch table in memory is sound for the chain of its class.\<close>

definition dtables_ok :: "selectors \<Rightarrow> class_mem \<Rightarrow> bool" where
  "dtables_ok st m \<longleftrightarrow>
     (\<forall>cls c d. cls \<noteq> nullptr \<and> m cls = Some c \<and> c_dtable c = Some d \<longrightarrow>
        (\<exists>cs. super_chain m cls = Some cs \<and> table_sound st m cs d))"

text \<open>Two memories that differ in dispatch tables only.\<close>

definition same_but_tables :: "class_mem \<Rightarrow> class_mem \<Rightarrow> bool" where
  "same_but_tables m m' \<longleftrightarrow>
     (\<forall>a. map_option (\<lambda>c. c\<lparr>c_dtable := None\<rparr>) (m' a) = map_option (\<lambda>c. c\<lparr>c_dtable := None\<rparr>) (m a))"

lemma same_but_tables_refl [simp]: "same_but_tables m m"
  by (simp add: same_but_tables_def)

lemma same_but_tables_trans: "same_but_tables m m1 \<Longrightarrow> same_but_tables m1 m2 \<Longrightarrow> same_but_tables m m2"
  by (simp add: same_but_tables_def)

lemma same_but_tables_fields:
  assumes "same_but_tables m m'" "m a = Some c"
  obtains c' where "m' a = Some c'" "superclass c' = superclass c" "c_methods c' = c_methods c" "isa c' = isa c"
    "c_name c' = c_name c"
proof -
  have e: "map_option (\<lambda>c. c\<lparr>c_dtable := None\<rparr>) (m' a) = Some (c\<lparr>c_dtable := None\<rparr>)"
    using assms by (simp add: same_but_tables_def)
  then obtain c' where c': "m' a = Some c'" "c'\<lparr>c_dtable := None\<rparr> = c\<lparr>c_dtable := None\<rparr>" by auto
  from arg_cong [OF c'(2), of superclass] arg_cong [OF c'(2), of c_methods] arg_cong [OF c'(2), of isa]
    arg_cong [OF c'(2), of c_name] that [OF c'(1)] show ?thesis by simp
qed

lemma same_but_tables_sym: "same_but_tables m m' \<Longrightarrow> same_but_tables m' m"
  by (simp add: same_but_tables_def)

lemma same_methods:
  assumes "same_but_tables m m'"
  shows "class_methods_of m' a = class_methods_of m a"
proof -
  have e: "map_option (\<lambda>c. c\<lparr>c_dtable := None\<rparr>) (m' a) = map_option (\<lambda>c. c\<lparr>c_dtable := None\<rparr>) (m a)"
    using assms by (simp add: same_but_tables_def)
  have "class_methods_of m a = (case map_option (\<lambda>c. c\<lparr>c_dtable := None\<rparr>) (m a) of None \<Rightarrow> [] | Some k \<Rightarrow> concat (c_methods k))"
    for m :: class_mem
    by (simp add: class_methods_of_def split: option.split)
  from this [of m] this [of m'] show ?thesis by (simp only: e)
qed

lemma same_chain:
  assumes "same_but_tables m m'"
  shows "super_chain m a = Some cs \<Longrightarrow> super_chain m' a = Some cs"
proof (induction cs arbitrary: a)
  case Nil
  from super_chain_NilD [OF this] show ?case by simp
next
  case (Cons x cs)
  then obtain c where c: "x = a" "a \<noteq> nullptr" "m a = Some c" "super_chain m (sf_next_superclass a c) = Some cs"
    using super_chain_ConsD by blast
  obtain c' where "m' a = Some c'" "superclass c' = superclass c" by (rule same_but_tables_fields [OF assms c(3)])
  then have "super_chain m' a = map_option ((#) a) (super_chain m' (sf_next_superclass a c))"
    using c(2) by (simp add: super_chain_step sf_next_superclass_def)
  with Cons.IH [OF c(4)] c(1) show ?case by simp
qed

lemma same_table_imp: "same_but_tables m m' \<Longrightarrow> table_imp st m' cs slot = table_imp st m cs slot"
  by (induction cs) (simp_all add: same_methods split: option.split)

lemma same_table_sound: "same_but_tables m m' \<Longrightarrow> table_sound st m' cs d = table_sound st m cs d"
  by (simp add: table_sound_def same_table_imp)

section \<open>Building keeps every table sound\<close>

lemma same_update_table: "m c = Some k \<Longrightarrow> same_but_tables m (m(c \<mapsto> k\<lparr>c_dtable := d\<rparr>))"
  by (simp add: same_but_tables_def)

text \<open>The table a class starts from is sound for the rest of its chain.\<close>

lemma inherited_sound:
  assumes "dtables_ok st m" "cls \<noteq> nullptr" "m cls = Some c" "super_chain m (sf_next_superclass cls c) = Some cs"
  shows "\<exists>d. inherited_dtable st m cls c = Some d \<and> table_sound st m cs d"
proof -
  let ?n = "sf_runtime_selector_count st"
  have zeros: "table_sound st m cs (replicate ?n nullptr)" by (simp add: table_sound_def)
  show ?thesis
  proof (cases "superclass c \<noteq> nullptr \<and> superclass c \<noteq> cls")
    case False
    then have "inherited_dtable st m cls c = Some (replicate ?n nullptr)"
      by (auto simp: inherited_dtable_def Let_def)
    with zeros show ?thesis by blast
  next
    case True
    then have nxt: "sf_next_superclass cls c = superclass c" by (simp add: sf_next_superclass_def)
    obtain rest where "cs = superclass c # rest" "m (superclass c) \<noteq> None"
    proof (cases cs)
      case Nil
      with assms(4) nxt True super_chain_NilD show ?thesis by auto
    next
      case (Cons a rest)
      with assms(4) nxt super_chain_ConsD [of m "superclass c" a rest] that show ?thesis by auto
    qed
    then obtain k where k: "m (superclass c) = Some k" by blast
    show ?thesis
    proof (cases "c_dtable k")
      case None
      with True k zeros show ?thesis by (simp add: inherited_dtable_def Let_def)
    next
      case (Some d)
      then obtain cs' where "super_chain m (superclass c) = Some cs'" "table_sound st m cs' d"
        using assms(1) [unfolded dtables_ok_def, rule_format, of "superclass c" k d] k True Some by blast
      with assms(4) nxt have "table_sound st m cs d" by simp
      with True k Some show ?thesis by (simp add: inherited_dtable_def Let_def table_sound_def)
    qed
  qed
qed

lemma own_table_sound:
  assumes "table_sound st m cs d" "m cls = Some c"
  shows "table_sound st m (cls # cs) (write_dtable st d (concat (c_methods c)))"
  using assms by (auto simp: table_sound_def write_dtable_nth class_methods_of_def split: option.split)

lemma dtables_ok_update:
  assumes "dtables_ok st m" "m cls = Some c" "super_chain m cls = Some cs" "table_sound st m cs d"
  shows "dtables_ok st (m(cls \<mapsto> c\<lparr>c_dtable := Some d\<rparr>))"
proof -
  let ?m = "m(cls \<mapsto> c\<lparr>c_dtable := Some d\<rparr>)"
  have same: "same_but_tables m ?m" by (rule same_update_table) (rule assms(2))
  show ?thesis
    unfolding dtables_ok_def
  proof (intro allI impI)
    fix a k e assume a: "a \<noteq> nullptr \<and> ?m a = Some k \<and> c_dtable k = Some e"
    have "\<exists>cs. super_chain m a = Some cs \<and> table_sound st m cs e"
    proof (cases "a = cls")
      case True
      with a assms show ?thesis by auto
    next
      case False
      with a assms(1) show ?thesis by (auto simp: dtables_ok_def)
    qed
    then show "\<exists>cs. super_chain ?m a = Some cs \<and> table_sound st ?m cs e"
      using same_chain [OF same] same_table_sound [OF same] by blast
  qed
qed

lemma super_ok_same: "same_but_tables m m' \<Longrightarrow> super_ok m c \<Longrightarrow> super_ok m' c"
  using same_chain super_chain_ok super_ok_chain by blast

lemma build_dtable_ok:
  "super_ok m cls \<Longrightarrow> dtables_ok st m \<Longrightarrow>
    \<exists>m'. sf_build_class_dtable_unlocked st ok m cls = Some m' \<and> same_but_tables m m' \<and> dtables_ok st m'"
proof (induction rule: super_ok.induct)
  case super_null
  then show ?case by (subst sf_build_class_dtable_unlocked.simps) simp
next
  case (super_step cls c)
  show ?case
  proof (cases "c_dtable c \<noteq> None \<or> sf_runtime_selector_count st = 0")
    case True
    with super_step show ?thesis by (subst sf_build_class_dtable_unlocked.simps) simp
  next
    case False
    let ?sup = "superclass c \<noteq> nullptr \<and> superclass c \<noteq> cls"
    obtain m1 where m1: "(if ?sup then sf_build_class_dtable_unlocked st ok m (superclass c) else Some m) = Some m1"
      "same_but_tables m m1" "dtables_ok st m1"
    proof (cases ?sup)
      case True
      then have "sf_next_superclass cls c = superclass c" by (simp add: sf_next_superclass_def)
      with super_step.IH super_step.prems True that show ?thesis by auto
    next
      case False
      with that [of m] super_step.prems show ?thesis by auto
    qed
    obtain c1 where c1: "m1 cls = Some c1" "superclass c1 = superclass c" "c_methods c1 = c_methods c"
      by (rule same_but_tables_fields [OF m1(2) super_step.hyps(2)])
    have build: "sf_build_class_dtable_unlocked st ok m cls =
      (if \<not> ok cls then Some m1
       else Option.bind (inherited_dtable st m1 cls c1)
          (\<lambda>d. Some (m1(cls \<mapsto> c1\<lparr>c_dtable := Some (write_dtable st d (concat (c_methods c1)))\<rparr>))))"
      using False super_step.hyps(1,2) c1(1) m1(1)
      by (subst sf_build_class_dtable_unlocked.simps) (simp del: fun_upd_apply)
    show ?thesis
    proof (cases "ok cls")
      case False
      with build m1 show ?thesis by simp
    next
      case True
      obtain cs where cs: "super_chain m1 (sf_next_superclass cls c1) = Some cs"
      proof -
        have "sf_next_superclass cls c1 = sf_next_superclass cls c"
          using c1(2) by (simp add: sf_next_superclass_def)
        with super_ok_chain [OF super_ok_same [OF m1(2) super_step.hyps(3)]] that show ?thesis by auto
      qed
      obtain d where d: "inherited_dtable st m1 cls c1 = Some d" "table_sound st m1 cs d"
        using inherited_sound [OF m1(3) super_step.hyps(1) c1(1) cs] by blast
      let ?d = "write_dtable st d (concat (c_methods c1))"
      have chain: "super_chain m1 cls = Some (cls # cs)"
        using super_chain_step [of cls m1 c1] super_step.hyps(1) c1(1) cs by simp
      have "dtables_ok st (m1(cls \<mapsto> c1\<lparr>c_dtable := Some ?d\<rparr>))"
        by (rule dtables_ok_update [OF m1(3) c1(1) chain own_table_sound [OF d(2) c1(1)]])
      moreover have "same_but_tables m (m1(cls \<mapsto> c1\<lparr>c_dtable := Some ?d\<rparr>))"
        by (rule same_but_tables_trans [OF m1(2)], rule same_update_table, rule c1(1))
      ultimately show ?thesis using build True d(1) by simp
    qed
  qed
qed

text \<open>C2: building the dispatch table of a class returns on every superclass chain that ends, whatever
  allocations fail; it changes nothing of a class but its table, and keeps every table in memory
  sound: of the size of the slot table, each non-null entry the implementation that the nearest
  class with a method for the slot gives it.\<close>

theorem build_dtable_sound:
  assumes "super_ok m cls" "dtables_ok st m"
  shows "\<exists>m'. sf_build_class_dtable_unlocked st ok m cls = Some m' \<and> same_but_tables m m' \<and> dtables_ok st m'"
  by (rule build_dtable_ok [OF assms])

lemma demo_dtables_ok: "dtables_ok demo_static demo_classes"
  by (auto simp: dtables_ok_def demo_classes_def class_demo_def split: if_splits)

theorem build_dtable_sound_witness:
  "\<exists>m'. sf_build_class_dtable_unlocked demo_static (\<lambda>_. True) demo_classes 0x100 = Some m'
    \<and> dtables_ok demo_static m'"
  using build_dtable_sound [OF demo_chain(2) demo_dtables_ok] by blast

section \<open>The table agrees with the method lists\<close>

lemma match_iff_slot:
  assumes "sel_inv st" "op \<noteq> nullptr" "unat (sf_selector_slot st op) < sf_runtime_selector_count st"
  shows "selector_slots_match st s op \<longleftrightarrow> s \<noteq> nullptr \<and> unat (sf_selector_slot st s) = unat (sf_selector_slot st op)"
proof -
  have op: "sf_selector_slot st op \<noteq> UINT32_MAX"
    using assms(1,3) by (auto simp: sel_inv_def sf_runtime_selector_count_def)
  then obtain n where n: "sf_selector_name st op = Some n"
    by (auto simp: sf_selector_slot_def split: if_splits option.splits)
  have "sf_selector_slot st s = sf_selector_slot st op" if "sf_selector_name st s = sf_selector_name st op"
    using selector_slot_eq [OF assms(1), of s n] selector_slot_eq [OF assms(1) n] that n by simp
  then show ?thesis
    using op assms(2) n word_unat_eq_iff [of "sf_selector_slot st s" "sf_selector_slot st op"]
    by (auto simp: selector_slots_match_def Let_def)
qed

definition no_duplicates :: "selectors \<Rightarrow> SFObjCMethod list \<Rightarrow> bool" where
  "no_duplicates st ms \<longleftrightarrow>
     (\<forall>x \<in> set ms. \<forall>y \<in> set ms. m_selector x \<noteq> nullptr \<and> m_selector y \<noteq> nullptr
        \<and> sf_selector_slot st (m_selector x) = sf_selector_slot st (m_selector y)
        \<and> sf_selector_slot st (m_selector x) \<noteq> UINT32_MAX \<longrightarrow> x = y)"

lemma find_rev_unique:
  assumes "\<And>x y. x \<in> set xs \<Longrightarrow> y \<in> set xs \<Longrightarrow> P x \<Longrightarrow> P y \<Longrightarrow> x = y"
  shows "find P (rev xs) = find P xs"
proof (cases "find P xs")
  case None
  then have "\<forall>x\<in>set (rev xs). \<not> P x" by (simp add: find_None_iff)
  then have "find P (rev xs) = None" by (simp only: find_None_iff) blast
  with None show ?thesis by simp
next
  case (Some x)
  then have "x \<in> set (rev xs)" "P x" using find_SomeD by force+
  then have "find P (rev xs) \<noteq> None" by (auto simp: find_None_iff)
  then obtain y where y: "find P (rev xs) = Some y" by blast
  then have "y \<in> set (rev xs)" "P y" using find_SomeD by force+
  then have "y = x" using assms \<open>x \<in> set (rev xs)\<close> \<open>P x\<close> by simp
  with Some y show ?thesis by simp
qed

lemma table_imp_first:
  assumes "slot < unat UINT32_MAX" "\<forall>c \<in> set cs. no_duplicates st (class_methods_of m c)"
  shows "table_imp st m cs slot = imp_of (find (has_slot st slot) (chain_methods m cs))"
  using assms(2)
proof (induction cs)
  case (Cons c cs)
  have "find (has_slot st slot) (rev (class_methods_of m c)) = find (has_slot st slot) (class_methods_of m c)"
  proof (rule find_rev_unique)
    fix x y assume xy: "x \<in> set (class_methods_of m c)" "y \<in> set (class_methods_of m c)" "has_slot st slot x" "has_slot st slot y"
    then have "unat (sf_selector_slot st (m_selector x)) = slot" "unat (sf_selector_slot st (m_selector y)) = slot"
      by (simp_all add: has_slot_def)
    with assms(1) have "sf_selector_slot st (m_selector x) = sf_selector_slot st (m_selector y)"
      "sf_selector_slot st (m_selector x) \<noteq> UINT32_MAX"
      by (auto simp: word_unat_eq_iff)
    with Cons.prems xy show "x = y" by (auto simp: no_duplicates_def has_slot_def)
  qed
  with Cons show ?case by (simp add: find_append imp_of_def split: option.split)
qed (simp add: imp_of_def)

text \<open>C1: the dispatch table is transparent: when no class of the chain has two methods for one
  selector, a lookup through the table gives exactly what the walk over the method lists of the
  class and its superclasses gives, also for a table that is missing or incomplete because an
  allocation failed, and for a selector the runtime does not know.\<close>

theorem dispatch_table_transparent:
  assumes "sel_inv st" "dtables_ok st m" "super_chain m cls = Some cs"
    and "\<forall>c \<in> set cs. no_duplicates st (class_methods_of m c)"
  shows "sf_lookup_imp_in_class st m cls op = map_option imp_of (lookup_method_in_class_local st m cls op)"
proof (cases "cls = nullptr \<or> op = nullptr")
  case True
  then show ?thesis by (auto simp: sf_lookup_imp_in_class_def sf_lookup_dtable_imp_def)
next
  case False
  then obtain c where c: "m cls = Some c"
    using assms(3) super_chain_NilD super_chain_ConsD by (cases cs) blast+
  let ?slot = "unat (sf_selector_slot st op)"
  show ?thesis
  proof (cases "c_dtable c")
    case None
    with False c show ?thesis by (simp add: sf_lookup_imp_in_class_def sf_lookup_dtable_imp_def)
  next
    case (Some d)
    have d: "table_sound st m cs d"
      using assms(2) [unfolded dtables_ok_def, rule_format, of cls c d] assms(3) False c Some by auto
    show ?thesis
    proof (cases "?slot < sf_runtime_selector_count st \<and> d ! ?slot \<noteq> nullptr")
      case True
      then have v: "d ! ?slot = table_imp st m cs ?slot" using d by (auto simp: table_sound_def)
      have "sf_runtime_selector_count st < unat UINT32_MAX"
        using assms(1) by (simp add: sel_inv_def sf_runtime_selector_count_def)
      then have t: "table_imp st m cs ?slot = imp_of (find (has_slot st ?slot) (chain_methods m cs))"
        using True table_imp_first [OF _ assms(4)] by simp
      have "has_slot st ?slot = (\<lambda>meth. selector_slots_match st (m_selector meth) op)"
        using match_iff_slot [OF assms(1)] True False by (auto simp: has_slot_def fun_eq_iff)
      with t lookup_loop_chain [OF assms(3)] False
      have "map_option imp_of (lookup_method_in_class_local st m cls op) = Some (table_imp st m cs ?slot)"
        by (simp add: lookup_method_in_class_local_def)
      moreover have "sf_lookup_dtable_imp st m cls op = Some (d ! ?slot)"
      proof -
        have "?slot < length d" using d True by (simp add: table_sound_def)
        moreover have "\<not> ?slot \<ge> sf_runtime_selector_count st" using True by simp
        ultimately show ?thesis
          using False c Some by (simp only: sf_lookup_dtable_imp_def Let_def if_False if_True option.case)
      qed
      ultimately show ?thesis using v True by (auto simp: sf_lookup_imp_in_class_def)
    next
      case out: False
      have "length d = sf_runtime_selector_count st" using d by (simp add: table_sound_def)
      with out False c Some have "sf_lookup_dtable_imp st m cls op = Some nullptr"
        by (auto simp: sf_lookup_dtable_imp_def Let_def)
      then show ?thesis by (simp add: sf_lookup_imp_in_class_def)
    qed
  qed
qed

theorem dispatch_table_transparent_witness:
  "sf_lookup_imp_in_class demo_static demo_classes 0x100 0x20
    = map_option imp_of (lookup_method_in_class_local demo_static demo_classes 0x100 0x20)"
proof (rule dispatch_table_transparent [OF demo_static_ok(1) demo_dtables_ok demo_chain(1)])
  show "\<forall>c\<in>set [0x100, 0x200]. no_duplicates demo_static (class_methods_of demo_classes c)"
    by (simp add: no_duplicates_def class_methods_of_def demo_classes_at demo_fields demo_method_def demo_static_ok)
      (simp add: sf_selector_slot_def sf_selector_name_def sf_selector_fields_def demo_static_def demo_frozen_def)
qed

definition demo_twice :: class_mem where
  "demo_twice = [0x100 \<mapsto> (class_demo 0 0)\<lparr>c_methods := [[demo_method 0xA0 0x20, demo_method 0xB0 0x20]]\<rparr>]"

lemma demo_twice_at: "demo_twice 0x100 = Some ((class_demo 0 0)\<lparr>c_methods := [[demo_method 0xA0 0x20, demo_method 0xB0 0x20]]\<rparr>)"
  by (simp add: demo_twice_def)

lemma demo_twice_built:
  "sf_build_class_dtable_unlocked demo_static (\<lambda>_. True) demo_twice 0x100 =
    Some (demo_twice(0x100 \<mapsto> (class_demo 0 0)\<lparr>c_methods := [[demo_method 0xA0 0x20, demo_method 0xB0 0x20]],
            c_dtable := Some [0xB0]\<rparr>))"
proof -
  have n: "sf_runtime_selector_count demo_static = Suc 0"
    by (simp add: sf_runtime_selector_count_def demo_static_def demo_frozen_def)
  show ?thesis
    by (subst sf_build_class_dtable_unlocked.simps)
      (simp add: demo_twice_at demo_fields n inherited_dtable_def Let_def demo_method_def demo_static_ok)
qed

text \<open>With two methods for one selector in a class the two ways disagree: the dispatch table takes
  the last of them, the method lists, and with them \<open>class_getInstanceMethod\<close>, the first.\<close>

theorem duplicate_methods_disagree:
  "\<exists>m'. sf_build_class_dtable_unlocked demo_static (\<lambda>_. True) demo_twice 0x100 = Some m'
    \<and> sf_lookup_imp_in_class demo_static m' 0x100 0x20 = Some 0xB0
    \<and> map_option imp_of (class_getInstanceMethod demo_static m' 0x100 0x20) = Some 0xA0"
proof -
  let ?c = "(class_demo 0 0)\<lparr>c_methods := [[demo_method 0xA0 0x20, demo_method 0xB0 0x20]], c_dtable := Some [0xB0]\<rparr>"
  let ?m = "demo_twice(0x100 \<mapsto> ?c)"
  have "sf_lookup_dtable_imp demo_static ?m 0x100 0x20 = Some 0xB0"
    by (simp add: sf_lookup_dtable_imp_def demo_static_ok sf_runtime_selector_count_def)
      (simp add: demo_static_def demo_frozen_def)
  then have "sf_lookup_imp_in_class demo_static ?m 0x100 0x20 = Some 0xB0"
    by (simp add: sf_lookup_imp_in_class_def)
  moreover have "map_option imp_of (class_getInstanceMethod demo_static ?m 0x100 0x20) = Some 0xA0"
    unfolding class_getInstanceMethod_def
    by (subst class_get_method_impl.simps) (simp add: demo_method_def imp_of_def)
  ultimately show ?thesis using demo_twice_built by blast
qed

section \<open>Forwarding\<close>

text \<open>One hop: a receiver that does not respond names another one.\<close>

definition forwards_to :: "dispatch_env \<Rightarrow> addr \<Rightarrow> addr \<Rightarrow> addr option" where
  "forwards_to env sel receiver =
     (if sf_lookup_imp env receiver sel = Some nullptr
      then (case forward_target env receiver sel of Some (Some target) \<Rightarrow> Some target | _ \<Rightarrow> None)
      else None)"

fun hops :: "dispatch_env \<Rightarrow> addr \<Rightarrow> nat \<Rightarrow> addr \<Rightarrow> addr option" where
  "hops env sel 0 receiver = Some receiver"
| "hops env sel (Suc n) receiver =
     (case forwards_to env sel receiver of None \<Rightarrow> None | Some target \<Rightarrow> hops env sel n target)"

lemma forward_loop_hops:
  "forward_loop env k receiver sel = Some r \<Longrightarrow>
    \<exists>n \<le> k. hops env sel n receiver = Some r
      \<and> (n < k \<longrightarrow> (\<exists>imp. sf_lookup_imp env r sel = Some imp \<and> (imp \<noteq> nullptr \<or> forward_target env r sel = Some None)))"
proof (induction env k receiver sel rule: forward_loop.induct)
  case (2 env k receiver sel)
  then obtain imp where imp: "sf_lookup_imp env receiver sel = Some imp" by (auto split: option.splits)
  show ?case
  proof (cases "imp \<noteq> nullptr \<or> forward_target env receiver sel = Some None")
    case True
    with 2 imp have "r = receiver" by (auto split: if_splits)
    with imp True show ?thesis by (intro exI [of _ 0]) auto
  next
    case False
    with 2 imp obtain target where t: "forward_target env receiver sel = Some (Some target)"
      by (auto split: option.splits)
    then have fwd: "forwards_to env sel receiver = Some target" using imp False by (simp add: forwards_to_def)
    have "\<exists>n \<le> k. hops env sel n target = Some r
      \<and> (n < k \<longrightarrow> (\<exists>imp. sf_lookup_imp env r sel = Some imp \<and> (imp \<noteq> nullptr \<or> forward_target env r sel = Some None)))"
    proof (cases "k = 0")
      case True
      with "2.prems" imp False t show ?thesis by simp
    next
      case k: False
      have "\<not> imp \<noteq> nullptr" using False by simp
      from "2.IH" [OF imp this t refl k] show ?thesis using "2.prems" imp False t k by simp
    qed
    then obtain n where "n \<le> k" "hops env sel n target = Some r"
      "n < k \<longrightarrow> (\<exists>imp. sf_lookup_imp env r sel = Some imp \<and> (imp \<noteq> nullptr \<or> forward_target env r sel = Some None))" by blast
    with fwd show ?thesis by (intro exI [of _ "Suc n"]) simp
  qed
qed simp


text \<open>An object that responds through the method list of its class: no hop is needed.\<close>

definition demo_env :: dispatch_env where
  "demo_env = \<lparr>d_sels = demo_static, d_classes = demo_classes,
     d_tags = \<lparr>slot_classes = \<lambda>_. nullptr, slot_conflicts = \<lambda>_. False\<rparr>,
     d_isa = [0x1000 \<mapsto> 0x200], d_forwarding_sel = nullptr, d_forward_imp = \<lambda>_ _ _ _. nullptr\<rparr>"


end
