(* ===== verification/SF_Signature.thy ===== *)
theory SF_Signature
  imports SF_Prelude "HOL-Library.Sublist"
begin

unbundle bit_operations_syntax

text \<open>
  The scanner of Objective-C type encodings in \<open>Runtime/src/dispatch/dispatch-c.c\<close>, which the C
  message-send backend uses to find out how to pass the arguments of a call:
  \<open>skip_type_token\<close>, \<open>primary_type_code\<close>, \<open>parse_type_layout\<close> and the classification of a
  token.  A \<open>const char *\<close> into an encoding is the suffix of the encoding it points at; the
  empty suffix is the terminator.  Sizes are \<open>size_t\<close>, with its wrap-around.
\<close>

section \<open>Characters\<close>

definition is_digit_char :: "char \<Rightarrow> bool" where
  "is_digit_char c \<longleftrightarrow> of_char c \<ge> (48 :: nat) \<and> of_char c \<le> (57 :: nat)"

definition is_type_qualifier :: "char \<Rightarrow> bool" where
  "is_type_qualifier c \<longleftrightarrow> c = CHR ''r'' \<or> c = CHR ''n'' \<or> c = CHR ''N'' \<or> c = CHR ''o''
     \<or> c = CHR ''O'' \<or> c = CHR ''R'' \<or> c = CHR ''V''"

definition is_float_code :: "char \<Rightarrow> bool" where
  "is_float_code code \<longleftrightarrow> code = CHR ''f'' \<or> code = CHR ''d''"

definition align_up_size :: "u64 \<Rightarrow> u64 \<Rightarrow> u64" where
  "align_up_size value align =
     (if align \<le> 1 then value else (let m = align - 1 in (value + m) AND NOT m))"

section \<open>Skipping one token\<close>

text \<open>The loop \<open>while (*p and depth > 0)\<close> over one kind of bracket.\<close>

fun skip_nested :: "char \<Rightarrow> char \<Rightarrow> nat \<Rightarrow> string \<Rightarrow> string" where
  "skip_nested op cl depth [] = []"
| "skip_nested op cl depth (x # xs) =
     (if depth = 0 then x # xs
      else skip_nested op cl (if x = op then depth + 1 else if x = cl then depth - 1 else depth) xs)"

function skip_type_token :: "string \<Rightarrow> string" where
  "skip_type_token p =
     (case dropWhile is_type_qualifier p of
        [] \<Rightarrow> []
      | c # r \<Rightarrow>
          if c = CHR ''^'' then skip_type_token r
          else if c = CHR ''{'' then skip_nested CHR ''{'' CHR ''}'' 1 r
          else if c = CHR ''('' then skip_nested CHR ''('' CHR '')'' 1 r
          else if c = CHR ''['' then skip_nested CHR ''['' CHR '']'' 1 r
          else if c = CHR ''@'' \<and> take 1 r = [CHR ''?''] then drop 1 r
          else if c = CHR ''@'' then
            (if take 1 r = [CHR 0x22] then drop 1 (dropWhile (\<lambda>x. x \<noteq> CHR 0x22) (drop 1 r)) else r)
          else r)"
  by pat_completeness auto
termination
proof (relation "measure length", simp)
  fix p x21 x22
  assume "dropWhile is_type_qualifier p = x21 # x22"
  then show "(x22, p) \<in> measure length"
    using length_dropWhile_le [of is_type_qualifier p] by simp
qed

declare skip_type_token.simps [simp del]

text \<open>\<open>'\0'\<close> for the end of the string.\<close>

definition primary_type_code :: "string \<Rightarrow> char" where
  "primary_type_code p =
     (case dropWhile is_type_qualifier p of [] \<Rightarrow> CHR 0x00
      | c # _ \<Rightarrow> if c = CHR ''^'' then CHR ''^'' else c)"

section \<open>Layout of a type\<close>

record SFCTypeLayout =
  tl_size :: u64
  tl_align :: u64
  tl_fp :: bool
  tl_unsupported :: bool
  tl_end :: string

definition layout_at :: "u64 \<Rightarrow> u64 \<Rightarrow> bool \<Rightarrow> bool \<Rightarrow> string \<Rightarrow> SFCTypeLayout" where
  "layout_at sz al fp uns e =
     \<lparr>tl_size = sz, tl_align = al, tl_fp = fp, tl_unsupported = uns, tl_end = e\<rparr>"

text \<open>\<open>while (is_digit_char(*end)) count = count * 10 + (*end - '0')\<close>, on \<open>size_t\<close>.\<close>

fun scan_count :: "u64 \<Rightarrow> string \<Rightarrow> u64 \<times> string" where
  "scan_count n [] = (n, [])"
| "scan_count n (c # cs) =
     (if is_digit_char c then scan_count (n * 10 + (of_nat (of_char c) - 48)) cs else (n, c # cs))"

text \<open>The \<open>switch\<close> cases of \<open>parse_type_layout\<close> for a scalar code: size, alignment and whether
  it is floating point; \<open>None\<close> when the character starts a pointer, an aggregate or is not
  known.  The token is one character, but for a block (\<open>@?\<close>).\<close>

definition scalar_code :: "char \<Rightarrow> (u64 \<times> u64 \<times> bool) option" where
  "scalar_code c =
     (if c = CHR ''v'' then Some (0, 1, False)
      else if c \<in> set ''cCB'' then Some (1, 1, False)
      else if c \<in> set ''sS'' then Some (2, 2, False)
      else if c \<in> set ''iI'' then Some (4, 4, False)
      else if c = CHR ''f'' then Some (4, 4, True)
      else if c \<in> set ''lL'' then Some (8, 8, False)
      else if c \<in> set ''qQ'' then Some (8, 8, False)
      else if c \<in> set ''dD'' then Some (8, 8, True)
      else if c \<in> set ''*:@#'' then Some (8, 8, False)
      else None)"

definition scalar_end :: "char \<Rightarrow> string \<Rightarrow> string" where
  "scalar_end c r = (if c = CHR ''@'' \<and> take 1 r = [CHR ''?''] then drop 1 r else r)"

definition scalar_layout :: "char \<Rightarrow> string \<Rightarrow> SFCTypeLayout option" where
  "scalar_layout c r =
     map_option (\<lambda>(sz, al, fp). layout_at sz al fp False (scalar_end c r)) (scalar_code c)"

text \<open>The closing bracket of an array: its element's layout is multiplied out, and a missing
  bracket marks the type unsupported.\<close>

definition array_layout :: "u64 \<Rightarrow> SFCTypeLayout \<Rightarrow> SFCTypeLayout" where
  "array_layout count elem =
     (if take 1 (tl_end elem) = [CHR '']'']
      then layout_at (count * tl_size elem) (tl_align elem) (tl_fp elem) (tl_unsupported elem) (drop 1 (tl_end elem))
      else layout_at (count * tl_size elem) (tl_align elem) (tl_fp elem) True (tl_end elem))"

text \<open>\<open>parse_type_layout\<close> with its two field loops.  The recursion of the code is not structural
  (a field loop goes on where the parse of a field ended), so each call spends one unit of
  fuel; \<open>None\<close> is running out.  \<open>parse_layout_enough\<close> below shows that \<open>2 * length + 2\<close> units
  always suffice, which is what \<open>parse_type_layout\<close> supplies.\<close>

fun parse_layout_fuel :: "nat \<Rightarrow> string \<Rightarrow> SFCTypeLayout option"
and parse_struct_fields :: "nat \<Rightarrow> u64 \<Rightarrow> u64 \<Rightarrow> bool \<Rightarrow> bool \<Rightarrow> string \<Rightarrow> SFCTypeLayout option"
and parse_union_fields :: "nat \<Rightarrow> u64 \<Rightarrow> u64 \<Rightarrow> bool \<Rightarrow> bool \<Rightarrow> string \<Rightarrow> SFCTypeLayout option"
where
  "parse_layout_fuel 0 p = None"
| "parse_layout_fuel (Suc fuel) p =
     (case dropWhile is_type_qualifier p of
        [] \<Rightarrow> Some (layout_at 0 1 False False [])
      | c # r \<Rightarrow>
          (case scalar_layout c r of
             Some l \<Rightarrow> Some l
           | None \<Rightarrow>
               if c = CHR ''^'' then
                 map_option (\<lambda>_. layout_at 8 8 False False (skip_type_token r)) (parse_layout_fuel fuel r)
               else if c = CHR ''['' then
                 map_option (array_layout (fst (scan_count 0 r))) (parse_layout_fuel fuel (snd (scan_count 0 r)))
               else if c = CHR ''{'' then
                 (case dropWhile (\<lambda>x. x \<noteq> CHR ''='' \<and> x \<noteq> CHR ''}'') r of
                    [] \<Rightarrow> Some (layout_at 0 1 False True [])
                  | x # r' \<Rightarrow> if x = CHR ''}'' then Some (layout_at 0 1 False True r')
                              else parse_struct_fields fuel 0 1 False False r')
               else if c = CHR ''('' then
                 (case dropWhile (\<lambda>x. x \<noteq> CHR ''='' \<and> x \<noteq> CHR '')'') r of
                    [] \<Rightarrow> Some (layout_at 0 1 False True [])
                  | x # r' \<Rightarrow> if x = CHR '')'' then Some (layout_at 0 1 False True r')
                              else parse_union_fields fuel 0 1 False False r')
               else Some (layout_at 8 8 False True (skip_type_token (c # r)))))"
| "parse_struct_fields 0 sz al fp uns p = None"
| "parse_struct_fields (Suc fuel) sz al fp uns p =
     (case p of
        [] \<Rightarrow> Some (layout_at (align_up_size sz al) al fp True [])
      | c # r \<Rightarrow>
          if c = CHR ''}'' then Some (layout_at (align_up_size sz al) al fp uns r)
          else (case parse_layout_fuel fuel p of None \<Rightarrow> None
                | Some field \<Rightarrow>
                    parse_struct_fields fuel
                      (align_up_size sz (tl_align field) + tl_size field)
                      (if tl_align field > al then tl_align field else al)
                      (fp \<or> tl_fp field) (uns \<or> tl_unsupported field) (tl_end field)))"
| "parse_union_fields 0 sz al fp uns p = None"
| "parse_union_fields (Suc fuel) sz al fp uns p =
     (case p of
        [] \<Rightarrow> Some (layout_at (align_up_size sz al) al fp True [])
      | c # r \<Rightarrow>
          if c = CHR '')'' then Some (layout_at (align_up_size sz al) al fp uns r)
          else (case parse_layout_fuel fuel p of None \<Rightarrow> None
                | Some field \<Rightarrow>
                    parse_union_fields fuel
                      (if tl_size field > sz then tl_size field else sz)
                      (if tl_align field > al then tl_align field else al)
                      (fp \<or> tl_fp field) (uns \<or> tl_unsupported field) (tl_end field)))"

declare parse_layout_fuel.simps [simp del] parse_struct_fields.simps [simp del]
  parse_union_fields.simps [simp del]

definition parse_type_layout :: "string \<Rightarrow> SFCTypeLayout" where
  "parse_type_layout p =
     (case parse_layout_fuel (2 * length p + 2) p of
        Some l \<Rightarrow> l | None \<Rightarrow> layout_at 0 1 False True p)"

section \<open>Progress of the scanners\<close>

lemma suffix_dropWhile': "suffix (dropWhile P xs) xs"
  by (rule suffix_dropWhile)

lemma skip_nested_suffix [scan_intros]: "suffix (skip_nested op cl depth xs) xs"
proof (induction op cl depth xs rule: skip_nested.induct)
  case (2 op cl depth x xs)
  then show ?case by (cases "depth = 0") (auto intro: suffix_ConsI)
qed simp

lemma scan_count_suffix [scan_intros]: "suffix (snd (scan_count n xs)) xs"
  by (induction n xs rule: scan_count.induct) (auto intro: suffix_ConsI)

lemma drop_suffix_Cons: "suffix (drop n xs) xs"
  by (rule suffix_drop)

text \<open>The token after the qualifiers.\<close>

lemma after_qualifiers:
  "dropWhile is_type_qualifier p = c # r \<Longrightarrow> suffix (c # r) p \<and> strict_suffix r p"
  using suffix_dropWhile [of is_type_qualifier p]
  by (metis strict_suffix_def suffix_ConsD suffix_order.dual_order.trans not_Cons_self2 suffix_Cons
      suffix_order.antisym)

lemma skip_type_token_suffix: "suffix (skip_type_token p) p \<and> (p \<noteq> [] \<longrightarrow> skip_type_token p \<noteq> p)"
proof (induction p rule: skip_type_token.induct)
  case (1 p)
  show ?case
  proof (cases "dropWhile is_type_qualifier p")
    case Nil
    then show ?thesis by (simp add: skip_type_token.simps [of p] del: dropWhile_eq_Nil_conv)
  next
    case (Cons c r)
    note r = after_qualifiers [OF Cons, THEN conjunct2]
    have "suffix (skip_type_token p) r"
    proof (cases "c = CHR ''^''")
      case True
      with 1 [OF Cons] Cons show ?thesis by (simp add: skip_type_token.simps [of p])
    next
      case False
      have "suffix (drop 1 (dropWhile (\<lambda>x. x \<noteq> CHR 0x22) (drop 1 r))) r"
        by (metis suffix_drop suffix_dropWhile suffix_order.order_trans)
      with False Cons show ?thesis
        by (auto simp: skip_type_token.simps [of p] skip_nested_suffix suffix_drop)
    qed
    with r show ?thesis
      by (metis strict_suffix_def suffix_order.le_less_trans)
  qed
qed

lemma layout_at_sel [simp]:
  "tl_size (layout_at sz al fp uns e) = sz" "tl_align (layout_at sz al fp uns e) = al"
  "tl_fp (layout_at sz al fp uns e) = fp" "tl_unsupported (layout_at sz al fp uns e) = uns"
  "tl_end (layout_at sz al fp uns e) = e"
  by (simp_all add: layout_at_def)

lemma scalar_layout_end: "scalar_layout c r = Some l \<Longrightarrow> suffix (tl_end l) r"
  by (auto simp: scalar_layout_def scalar_end_def suffix_drop)

lemma array_layout_end: "suffix (tl_end (array_layout n l)) (tl_end l)"
  by (simp add: array_layout_def suffix_drop)

text \<open>What a parse leaves is a suffix of what it was given, and a proper one unless it was given
  nothing: the field loops always advance.\<close>

definition ends_in :: "SFCTypeLayout option \<Rightarrow> string \<Rightarrow> bool" where
  "ends_in res p \<longleftrightarrow> (\<exists>l. res = Some l \<and> suffix (tl_end l) p)"

lemma ends_in_trans: "ends_in res r \<Longrightarrow> suffix r p \<Longrightarrow> ends_in res p"
  unfolding ends_in_def using suffix_order.order_trans by blast

definition parses :: "nat \<Rightarrow> string \<Rightarrow> bool" where
  "parses fuel p \<longleftrightarrow> ends_in (parse_layout_fuel fuel p) p
     \<and> (p \<noteq> [] \<longrightarrow> tl_end (the (parse_layout_fuel fuel p)) \<noteq> p)"

lemma field_name_end:
  "dropWhile P r = x # r' \<Longrightarrow> suffix r' r \<and> length r' < length r"
  using suffix_dropWhile [of P r] length_dropWhile_le [of P r]
  by (metis suffix_ConsD Suc_le_eq length_Cons)

text \<open>The branches of the parser, one equation each.\<close>

lemma scalar_layout_other:
  "scalar_layout CHR ''^'' r = None" "scalar_layout CHR ''['' r = None"
  "scalar_layout CHR ''{'' r = None" "scalar_layout CHR ''('' r = None"
  by (simp_all add: scalar_layout_def scalar_code_def)

lemma parse_at_end: "dropWhile is_type_qualifier p = [] \<Longrightarrow>
    parse_layout_fuel (Suc fuel) p = Some (layout_at 0 1 False False [])"
  by (simp add: parse_layout_fuel.simps(2) del: dropWhile_eq_Nil_conv)

lemma parse_at_scalar: "dropWhile is_type_qualifier p = c # r \<Longrightarrow> scalar_layout c r = Some l \<Longrightarrow>
    parse_layout_fuel (Suc fuel) p = Some l"
  by (simp add: parse_layout_fuel.simps(2))

lemma parse_at_pointer: "dropWhile is_type_qualifier p = CHR ''^'' # r \<Longrightarrow>
    parse_layout_fuel (Suc fuel) p =
      map_option (\<lambda>_. layout_at 8 8 False False (skip_type_token r)) (parse_layout_fuel fuel r)"
  by (simp add: parse_layout_fuel.simps(2) scalar_layout_other)

lemma parse_at_array: "dropWhile is_type_qualifier p = CHR ''['' # r \<Longrightarrow>
    parse_layout_fuel (Suc fuel) p =
      map_option (array_layout (fst (scan_count 0 r))) (parse_layout_fuel fuel (snd (scan_count 0 r)))"
  by (simp add: parse_layout_fuel.simps(2) scalar_layout_other)

definition opaque_or :: "char \<Rightarrow> (string \<Rightarrow> SFCTypeLayout option) \<Rightarrow> string \<Rightarrow> SFCTypeLayout option" where
  "opaque_or close body r =
     (case dropWhile (\<lambda>x. x \<noteq> CHR ''='' \<and> x \<noteq> close) r of
        [] \<Rightarrow> Some (layout_at 0 1 False True [])
      | x # r' \<Rightarrow> if x = close then Some (layout_at 0 1 False True r') else body r')"

lemma parse_at_struct: "dropWhile is_type_qualifier p = CHR ''{'' # r \<Longrightarrow>
    parse_layout_fuel (Suc fuel) p = opaque_or CHR ''}'' (parse_struct_fields fuel 0 1 False False) r"
  by (simp add: parse_layout_fuel.simps(2) scalar_layout_other opaque_or_def)

lemma parse_at_union: "dropWhile is_type_qualifier p = CHR ''('' # r \<Longrightarrow>
    parse_layout_fuel (Suc fuel) p = opaque_or CHR '')'' (parse_union_fields fuel 0 1 False False) r"
  by (simp add: parse_layout_fuel.simps(2) scalar_layout_other opaque_or_def)

lemma parse_at_other: "dropWhile is_type_qualifier p = c # r \<Longrightarrow> scalar_layout c r = None \<Longrightarrow>
    c \<notin> set ''^[{('' \<Longrightarrow>
    parse_layout_fuel (Suc fuel) p = Some (layout_at 8 8 False True (skip_type_token (c # r)))"
  by (simp add: parse_layout_fuel.simps(2))

text \<open>The cases of a scan position, for case analysis.\<close>

lemma token_cases [consumes 0, case_names End Scalar Pointer Array Struct Union Other]:
  assumes "dropWhile is_type_qualifier p = [] \<Longrightarrow> P"
    and "\<And>c r l. dropWhile is_type_qualifier p = c # r \<Longrightarrow> scalar_layout c r = Some l \<Longrightarrow> P"
    and "\<And>r. dropWhile is_type_qualifier p = CHR ''^'' # r \<Longrightarrow> P"
    and "\<And>r. dropWhile is_type_qualifier p = CHR ''['' # r \<Longrightarrow> P"
    and "\<And>r. dropWhile is_type_qualifier p = CHR ''{'' # r \<Longrightarrow> P"
    and "\<And>r. dropWhile is_type_qualifier p = CHR ''('' # r \<Longrightarrow> P"
    and "\<And>c r. dropWhile is_type_qualifier p = c # r \<Longrightarrow> scalar_layout c r = None \<Longrightarrow>
           c \<notin> set ''^[{('' \<Longrightarrow> P"
  shows P
proof (cases "dropWhile is_type_qualifier p")
  case (Cons c r)
  show ?thesis
  proof (cases "scalar_layout c r")
    case None
    show ?thesis
    proof (cases "c \<in> set ''^[{(''")
      case True
      with Cons assms(3-6) show ?thesis by auto
    qed (use Cons None assms(7) in blast)
  qed (use Cons assms(2) in blast)
qed (use assms(1) in blast)

lemma parse_layout_step:
  assumes sub: "\<And>q. length q < length p \<Longrightarrow> parses fuel q"
    and struct: "\<And>q sz al fp uns. length q < length p \<Longrightarrow> ends_in (parse_struct_fields fuel sz al fp uns q) q"
    and union: "\<And>q sz al fp uns. length q < length p \<Longrightarrow> ends_in (parse_union_fields fuel sz al fp uns q) q"
  shows "parses (Suc fuel) p"
proof -
  have goal: "parses (Suc fuel) p"
    if "dropWhile is_type_qualifier p = c # r" "ends_in (parse_layout_fuel (Suc fuel) p) r" for c r
    using after_qualifiers [OF that(1)] that(2)
    unfolding parses_def ends_in_def
    by (metis option.sel strict_suffix_def suffix_order.le_less_trans suffix_order.less_le_not_le)
  have len: "length r < length p" if "dropWhile is_type_qualifier p = c # r" for c r
    using after_qualifiers [OF that] by (auto intro: suffix_length_less)
  have fields: "ends_in (opaque_or close f r) r"
    if "\<And>q. length q < length r \<Longrightarrow> ends_in (f q) q" for close f r
    using that by (fastforce simp: opaque_or_def ends_in_def split: list.split dest: field_name_end
        intro: suffix_order.order_trans)
  show ?thesis
  proof (cases p rule: token_cases)
    case End
    then show ?thesis
      by (auto simp: parses_def ends_in_def parse_at_end simp del: dropWhile_eq_Nil_conv)
  next
    case (Scalar c r l)
    then show ?thesis by (auto intro!: goal simp: ends_in_def parse_at_scalar scalar_layout_end)
  next
    case (Pointer r)
    with sub [OF len [OF Pointer]] skip_type_token_suffix [of r] show ?thesis
      by (intro goal [OF Pointer]) (auto simp: parse_at_pointer parses_def ends_in_def)
  next
    case (Array r)
    let ?c = "snd (scan_count 0 r)"
    have "suffix ?c r" by (rule scan_count_suffix)
    moreover from this have "parses fuel ?c"
      using sub len [OF Array] suffix_length_le by fastforce
    ultimately obtain l where "parse_layout_fuel fuel ?c = Some l" "suffix (tl_end l) r"
      by (auto simp: parses_def ends_in_def intro: suffix_order.order_trans)
    then have "ends_in (parse_layout_fuel (Suc fuel) p) r"
      using suffix_order.order_trans [OF array_layout_end]
      by (simp add: parse_at_array [OF Array] ends_in_def)
    then show ?thesis by (rule goal [OF Array])
  next
    case (Struct r)
    then show ?thesis
      by (intro goal [OF Struct]) (use len [OF Struct] in \<open>auto simp: parse_at_struct intro!: fields struct\<close>)
  next
    case (Union r)
    then show ?thesis
      by (intro goal [OF Union]) (use len [OF Union] in \<open>auto simp: parse_at_union intro!: fields union\<close>)
  next
    case (Other c r)
    have "suffix (skip_type_token (c # r)) r"
      using skip_type_token_suffix [of "c # r"] by (auto simp: suffix_Cons)
    then show ?thesis
      by (intro goal [OF Other(1)]) (simp add: parse_at_other [OF Other] ends_in_def)
  qed
qed

text \<open>Enough fuel: two units for each character still to read, and two to finish.\<close>

lemma parse_layout_enough:
  "(\<forall>p. 2 * length p + 2 \<le> fuel \<longrightarrow> parses fuel p)
   \<and> (\<forall>p sz al fp uns. 2 * length p + 3 \<le> fuel \<longrightarrow> ends_in (parse_struct_fields fuel sz al fp uns p) p)
   \<and> (\<forall>p sz al fp uns. 2 * length p + 3 \<le> fuel \<longrightarrow> ends_in (parse_union_fields fuel sz al fp uns p) p)"
proof (induction fuel)
  case 0
  then show ?case by simp
next
  case (Suc fuel)
  have layout: "parses (Suc fuel) p" if "2 * length p + 2 \<le> Suc fuel" for p
    by (rule parse_layout_step) (use Suc that in auto)
  have field: "\<exists>l. parse_layout_fuel fuel (c # r) = Some l \<and> suffix (tl_end l) (c # r) \<and> length (tl_end l) \<le> length r"
    if "2 * length (c # r) + 3 \<le> Suc fuel" for c r
  proof -
    from Suc that have "parses fuel (c # r)" by simp
    then obtain l where l: "parse_layout_fuel fuel (c # r) = Some l" "suffix (tl_end l) (c # r)" "tl_end l \<noteq> c # r"
      by (auto simp: parses_def ends_in_def)
    then have "suffix (tl_end l) r" by (auto simp: suffix_Cons)
    with l show ?thesis by (auto dest: suffix_length_le)
  qed
  have struct: "ends_in (parse_struct_fields (Suc fuel) sz al fp uns p) p" if n: "2 * length p + 3 \<le> Suc fuel" for p sz al fp uns
  proof (cases p)
    case Nil
    then show ?thesis by (simp add: ends_in_def parse_struct_fields.simps)
  next
    case (Cons c r)
    obtain l where l: "parse_layout_fuel fuel (c # r) = Some l" "suffix (tl_end l) (c # r)"
      "length (tl_end l) \<le> length r" using field [of c r] n Cons by auto
    have IH: "2 * length q + 3 \<le> fuel \<Longrightarrow> ends_in (parse_struct_fields fuel sz' al' fp' uns' q) q" for q sz' al' fp' uns'
      using Suc by blast
    have "ends_in (parse_struct_fields fuel sz' al' fp' uns' (tl_end l)) (c # r)" for sz' al' fp' uns'
      by (rule ends_in_trans [OF IH l(2)]) (use l(3) n Cons in simp)
    with l(1) Cons show ?thesis
      by (cases "c = CHR ''}''") (auto simp: ends_in_def parse_struct_fields.simps suffix_ConsI)
  qed
  moreover have "ends_in (parse_union_fields (Suc fuel) sz al fp uns p) p" if n: "2 * length p + 3 \<le> Suc fuel" for p sz al fp uns
  proof (cases p)
    case Nil
    then show ?thesis by (simp add: ends_in_def parse_union_fields.simps)
  next
    case (Cons c r)
    obtain l where l: "parse_layout_fuel fuel (c # r) = Some l" "suffix (tl_end l) (c # r)"
      "length (tl_end l) \<le> length r" using field [of c r] n Cons by auto
    have IH: "2 * length q + 3 \<le> fuel \<Longrightarrow> ends_in (parse_union_fields fuel sz' al' fp' uns' q) q" for q sz' al' fp' uns'
      using Suc by blast
    have "ends_in (parse_union_fields fuel sz' al' fp' uns' (tl_end l)) (c # r)" for sz' al' fp' uns'
      by (rule ends_in_trans [OF IH l(2)]) (use l(3) n Cons in simp)
    with l(1) Cons show ?thesis
      by (cases "c = CHR '')''") (auto simp: ends_in_def parse_union_fields.simps suffix_ConsI)
  qed
  ultimately show ?case using layout by blast
qed

text \<open>One field of a struct or a union.\<close>

lemma struct_field:
  "c \<noteq> CHR ''}'' \<Longrightarrow> parse_layout_fuel fuel (c # r) = Some m \<Longrightarrow>
    parse_struct_fields (Suc fuel) sz al fp uns (c # r) =
      parse_struct_fields fuel (align_up_size sz (tl_align m) + tl_size m)
        (if tl_align m > al then tl_align m else al) (fp \<or> tl_fp m) (uns \<or> tl_unsupported m) (tl_end m)"
  by (simp add: parse_struct_fields.simps(2))

lemma struct_close:
  "parse_struct_fields (Suc fuel) sz al fp uns (CHR ''}'' # r) = Some (layout_at (align_up_size sz al) al fp uns r)"
  by (simp add: parse_struct_fields.simps(2))

lemma union_field:
  "c \<noteq> CHR '')'' \<Longrightarrow> parse_layout_fuel fuel (c # r) = Some m \<Longrightarrow>
    parse_union_fields (Suc fuel) sz al fp uns (c # r) =
      parse_union_fields fuel (if tl_size m > sz then tl_size m else sz)
        (if tl_align m > al then tl_align m else al) (fp \<or> tl_fp m) (uns \<or> tl_unsupported m) (tl_end m)"
  by (simp add: parse_union_fields.simps(2))

lemma union_close:
  "parse_union_fields (Suc fuel) sz al fp uns (CHR '')'' # r) = Some (layout_at (align_up_size sz al) al fp uns r)"
  by (simp add: parse_union_fields.simps(2))

text \<open>More fuel never changes a result.\<close>

lemma parse_fuel_mono:
  "(\<forall>p l. parse_layout_fuel fuel p = Some l \<longrightarrow> parse_layout_fuel (Suc fuel) p = Some l)
   \<and> (\<forall>p l sz al fp uns. parse_struct_fields fuel sz al fp uns p = Some l
        \<longrightarrow> parse_struct_fields (Suc fuel) sz al fp uns p = Some l)
   \<and> (\<forall>p l sz al fp uns. parse_union_fields fuel sz al fp uns p = Some l
        \<longrightarrow> parse_union_fields (Suc fuel) sz al fp uns p = Some l)"
proof (induction fuel)
  case 0
  then show ?case
    by (simp add: parse_layout_fuel.simps(1) parse_struct_fields.simps(1) parse_union_fields.simps(1))
next
  case (Suc fuel)
  have layout: "parse_layout_fuel (Suc (Suc fuel)) p = Some l" if l: "parse_layout_fuel (Suc fuel) p = Some l" for p l
  proof -
    have sub: "parse_layout_fuel fuel q = Some m \<Longrightarrow> parse_layout_fuel (Suc fuel) q = Some m" for q m
      using Suc by blast
    have opaque: "opaque_or close g r = Some l"
      if "opaque_or close f r = Some l" "\<And>q l. f q = Some l \<Longrightarrow> g q = Some l" for close f g r
    proof (cases "dropWhile (\<lambda>x. x \<noteq> CHR ''='' \<and> x \<noteq> close) r")
      case Nil
      with that(1) show ?thesis by (simp only: opaque_or_def list.case)
    next
      case (Cons x r')
      from that(1) have "(if x = close then Some (layout_at 0 1 False True r') else f r') = Some l"
        by (simp only: opaque_or_def Cons list.case)
      then have "(if x = close then Some (layout_at 0 1 False True r') else g r') = Some l"
        using that(2) by (simp split: if_split_asm)
      then show ?thesis by (simp only: opaque_or_def Cons list.case)
    qed
    show ?thesis
    proof (cases p rule: token_cases)
      case End
      with l show ?thesis by (simp add: parse_at_end del: dropWhile_eq_Nil_conv)
    next
      case (Struct r)
      have IH: "parse_struct_fields fuel 0 1 False False q = Some m \<Longrightarrow>
        parse_struct_fields (Suc fuel) 0 1 False False q = Some m" for q m using Suc by blast
      show ?thesis
        using opaque [OF l [unfolded parse_at_struct [OF Struct]] IH] by (simp only: parse_at_struct [OF Struct])
    next
      case (Union r)
      have IH: "parse_union_fields fuel 0 1 False False q = Some m \<Longrightarrow>
        parse_union_fields (Suc fuel) 0 1 False False q = Some m" for q m using Suc by blast
      show ?thesis
        using opaque [OF l [unfolded parse_at_union [OF Union]] IH] by (simp only: parse_at_union [OF Union])
    next
      case (Scalar c r m)
      with l show ?thesis by (simp add: parse_at_scalar)
    next
      case (Pointer r)
      with l show ?thesis by (auto simp: parse_at_pointer [OF Pointer] dest: sub)
    next
      case (Array r)
      with l show ?thesis by (auto simp: parse_at_array [OF Array] dest: sub)
    next
      case (Other c r)
      with l show ?thesis by (simp add: parse_at_other [OF Other])
    qed
  qed
  have sub: "parse_layout_fuel fuel q = Some m \<Longrightarrow> parse_layout_fuel (Suc fuel) q = Some m" for q m
    using Suc by blast
  have struct: "parse_struct_fields (Suc (Suc fuel)) sz al fp uns p = Some l"
    if l: "parse_struct_fields (Suc fuel) sz al fp uns p = Some l" for p l sz al fp uns
  proof (cases p)
    case Nil
    with l show ?thesis by (simp add: parse_struct_fields.simps(2))
  next
    case (Cons c r)
    have IH: "parse_struct_fields fuel sz al fp uns q = Some m \<Longrightarrow>
      parse_struct_fields (Suc fuel) sz al fp uns q = Some m" for q m sz al fp uns using Suc by blast
    show ?thesis
    proof (cases "c = CHR ''}''")
      case True
      with l Cons show ?thesis by (simp add: parse_struct_fields.simps(2))
    next
      case False
      with l Cons obtain m where m: "parse_layout_fuel fuel p = Some m"
        by (cases "parse_layout_fuel fuel p") (simp_all add: parse_struct_fields.simps(2))
      from IH [OF l [unfolded Cons struct_field [OF False m [unfolded Cons]]]] show ?thesis
        by (simp only: Cons struct_field [OF False sub [OF m [unfolded Cons]]])
    qed
  qed
  have union: "parse_union_fields (Suc (Suc fuel)) sz al fp uns p = Some l"
    if l: "parse_union_fields (Suc fuel) sz al fp uns p = Some l" for p l sz al fp uns
  proof (cases p)
    case Nil
    with l show ?thesis by (simp add: parse_union_fields.simps(2))
  next
    case (Cons c r)
    have IH: "parse_union_fields fuel sz al fp uns q = Some m \<Longrightarrow>
      parse_union_fields (Suc fuel) sz al fp uns q = Some m" for q m sz al fp uns using Suc by blast
    show ?thesis
    proof (cases "c = CHR '')''")
      case True
      with l Cons show ?thesis by (simp add: parse_union_fields.simps(2))
    next
      case False
      with l Cons obtain m where m: "parse_layout_fuel fuel p = Some m"
        by (cases "parse_layout_fuel fuel p") (simp_all add: parse_union_fields.simps(2))
      from IH [OF l [unfolded Cons union_field [OF False m [unfolded Cons]]]] show ?thesis
        by (simp only: Cons union_field [OF False sub [OF m [unfolded Cons]]])
    qed
  qed
  show ?case using layout struct union by blast
qed

lemma parse_layout_mono:
  assumes "parse_layout_fuel fuel p = Some l" "fuel \<le> fuel'"
  shows "parse_layout_fuel fuel' p = Some l"
  using assms(2,1) by (induction rule: dec_induct) (use parse_fuel_mono in blast)+

lemma parse_type_layout_eq:
  assumes "parse_layout_fuel fuel p = Some l"
  shows "parse_type_layout p = l"
proof -
  obtain l' where l': "parse_layout_fuel (2 * length p + 2) p = Some l'"
    using parse_layout_enough [of "2 * length p + 2"] by (auto simp: parses_def ends_in_def)
  have "l' = l"
  proof (cases "fuel \<le> 2 * length p + 2")
    case True
    from parse_layout_mono [OF assms this] l' show ?thesis by simp
  next
    case False
    then have "2 * length p + 2 \<le> fuel" by simp
    from parse_layout_mono [OF l' this] assms show ?thesis by simp
  qed
  with l' show ?thesis by (simp add: parse_type_layout_def)
qed

text \<open>The scanner terminates on every encoding, well-formed or not: with \<open>2 * length + 2\<close> units
  of fuel the layout parser returns, so no call of \<open>parse_type_layout\<close> ever runs on, and both it
  and \<open>skip_type_token\<close> stop inside the string, strictly after where they started unless they
  were at its end.\<close>

theorem parse_layout_total:
  "parse_layout_fuel (2 * length p + 2) p = Some (parse_type_layout p)
   \<and> (\<exists>consumed. p = consumed @ tl_end (parse_type_layout p) \<and> (p = [] \<or> 0 < length consumed))
   \<and> (\<exists>consumed. p = consumed @ skip_type_token p \<and> (p = [] \<or> 0 < length consumed))"
proof -
  have "parses (2 * length p + 2) p" using parse_layout_enough by blast
  then obtain l where "parse_layout_fuel (2 * length p + 2) p = Some l" "suffix (tl_end l) p"
    "p \<noteq> [] \<longrightarrow> tl_end l \<noteq> p"
    by (auto simp: parses_def ends_in_def)
  then show ?thesis
    using skip_type_token_suffix [of p] by (auto simp: parse_type_layout_def suffix_def)
qed

end
