(* ===== verification/SF_Layout.thy ===== *)
theory SF_Layout
  imports SF_Dispatch SF_Signature SF_Abi "HOL-Library.Monad_Syntax"
begin

unbundle bit_operations_syntax

text \<open>
  The layout of classes (\<open>sf_fix_class_layout\<close> of \<open>Runtime/src/loader.c\<close>): instance sizes, ivar
  offsets, and the slots in which a container stores its value objects.  With it the tables it
  keeps: the set of classes already laid out, the stack of those being laid out, and the value slots
  by class.

  The recursion of the code goes to the superclass and to the classes of value ivars.  It is cut
  off by the stack of active classes, so \<open>SF_CLASS_MAP_CAPACITY + 1\<close> levels are enough; the layout is
  written as a step over the function for the deeper levels, iterated that often.
\<close>

section \<open>Loader state\<close>

record SFValueSlot =
  declared_cls :: addr
  owner_offset :: u32
  storage_offset :: u32
  storage_size :: u32

record SFValueSlotEntry =
  ve_cls :: addr
  ve_slots :: "SFValueSlot list"
  ve_owned :: bool

record SFClassMetaEntry =
  mt_cls :: addr
  mt_name :: "string option"
  mt_superclass :: addr
  dealloc_imp :: addr
  alloc_imp :: addr
  init_imp :: addr
  cxx_destruct_imp :: addr
  mt_flags :: u32
  mt_object_flags :: u32
  strong_ivar_count :: u32
  mt_instance_size :: u32
  total_alloc_size :: u32
  strong_ivar_offsets :: "u32 list option"

text \<open>The static variables of \<open>loader.c\<close>.  \<open>l_callocs\<close> says which of the coming allocations of slot
  and offset arrays succeed; when it has run out they fail.  \<open>l_last_meta_entry\<close> is an index into
  \<open>l_meta\<close>.\<close>

record loader =
  l_sels :: selectors
  l_classes :: class_mem
  l_map :: class_map
  l_tags :: tagged_table
  l_meta :: "nat \<Rightarrow> SFClassMetaEntry"
  l_value_slots :: "nat \<Rightarrow> SFValueSlotEntry"
  l_fixed :: "nat \<Rightarrow> addr"
  l_active :: "addr list"
  l_callocs :: "bool list"
  l_last_meta_cls :: addr
  l_last_meta_entry :: "nat option"
  l_object_class :: addr
  l_value_object_class :: addr
  l_constantstring_class :: addr
  l_nsconstantstring_class :: addr
  l_nxconstantstring_class :: addr
  l_dealloc_sel :: addr
  l_alloc_sel :: addr
  l_init_sel :: addr
  l_forwarding_target_sel :: addr
  l_cxx_destruct_sel :: addr
  l_tagged_pointer_slot_sel :: addr
  l_object_dealloc_imp :: addr

definition next_array :: "loader \<Rightarrow> bool \<times> loader" where
  "next_array st = (case l_callocs st of [] \<Rightarrow> (False, st) | ok # oks \<Rightarrow> (ok, st\<lparr>l_callocs := oks\<rparr>))"

definition INT32_MAX :: "32 word" where "INT32_MAX = 0x7FFFFFFF"

definition SF_CLASS_META_FLAG_HAS_OBJECT_IVARS :: u32 where "SF_CLASS_META_FLAG_HAS_OBJECT_IVARS = 1"
definition SF_CLASS_META_FLAG_TRIVIAL_RELEASE :: u32 where "SF_CLASS_META_FLAG_TRIVIAL_RELEASE = 2"
definition SF_CLASS_META_FLAG_VALUE_OBJECT :: u32 where "SF_CLASS_META_FLAG_VALUE_OBJECT = 4"

lemmas meta_flag_consts =
  SF_CLASS_META_FLAG_HAS_OBJECT_IVARS_def SF_CLASS_META_FLAG_TRIVIAL_RELEASE_def
  SF_CLASS_META_FLAG_VALUE_OBJECT_def

section \<open>Tables by class\<close>

definition class_meta_slot_for :: "(nat \<Rightarrow> SFClassMetaEntry) \<Rightarrow> addr \<Rightarrow> nat option" where
  "class_meta_slot_for t cls =
     probe SF_CLASS_META_CAPACITY (\<lambda>i. mt_cls (t i) = cls \<or> mt_cls (t i) = nullptr) (hash_ptr_local cls) 0"

definition sf_class_meta_for :: "loader \<Rightarrow> addr \<Rightarrow> nat option \<times> loader" where
  "sf_class_meta_for st cls =
     (if cls = nullptr then (None, st)
      else if cls = l_last_meta_cls st then (l_last_meta_entry st, st)
      else case class_meta_slot_for (l_meta st) cls of
             None \<Rightarrow> (None, st)
           | Some i \<Rightarrow> if mt_cls (l_meta st i) = cls
                        then (Some i, st\<lparr>l_last_meta_cls := cls, l_last_meta_entry := Some i\<rparr>)
                        else (None, st))"

definition value_slot_entry_for_unlocked :: "(nat \<Rightarrow> SFValueSlotEntry) \<Rightarrow> addr \<Rightarrow> nat option" where
  "value_slot_entry_for_unlocked t cls =
     probe SF_CLASS_MAP_CAPACITY (\<lambda>i. ve_cls (t i) = cls \<or> ve_cls (t i) = nullptr) (hash_ptr_local cls) 0"

text \<open>The slots of a class; the null pointer of the code is the empty list.\<close>

definition sf_value_slots_for_class :: "(nat \<Rightarrow> SFValueSlotEntry) \<Rightarrow> addr \<Rightarrow> SFValueSlot list" where
  "sf_value_slots_for_class t cls =
     (if cls = nullptr then []
      else case value_slot_entry_for_unlocked t cls of
             None \<Rightarrow> []
           | Some i \<Rightarrow> if ve_cls (t i) \<noteq> cls then [] else ve_slots (t i))"

definition sf_set_value_slots_for_class_unlocked ::
  "(nat \<Rightarrow> SFValueSlotEntry) \<Rightarrow> addr \<Rightarrow> SFValueSlot list \<Rightarrow> bool \<Rightarrow> (nat \<Rightarrow> SFValueSlotEntry)" where
  "sf_set_value_slots_for_class_unlocked t cls slots owned =
     (case value_slot_entry_for_unlocked t cls of
        None \<Rightarrow> t
      | Some i \<Rightarrow> t(i := (if slots \<noteq> [] then \<lparr>ve_cls = cls, ve_slots = slots, ve_owned = owned\<rparr>
                          else \<lparr>ve_cls = nullptr, ve_slots = [], ve_owned = False\<rparr>)))"

definition layout_fixed_contains :: "(nat \<Rightarrow> addr) \<Rightarrow> addr \<Rightarrow> bool" where
  "layout_fixed_contains t cls =
     (case probe SF_CLASS_MAP_CAPACITY (\<lambda>i. t i = cls \<or> t i = nullptr) (hash_ptr_local cls) 0 of
        None \<Rightarrow> False | Some i \<Rightarrow> t i = cls)"

definition layout_fixed_insert :: "(nat \<Rightarrow> addr) \<Rightarrow> addr \<Rightarrow> (nat \<Rightarrow> addr)" where
  "layout_fixed_insert t cls =
     (case probe SF_CLASS_MAP_CAPACITY (\<lambda>i. t i = cls \<or> t i = nullptr) (hash_ptr_local cls) 0 of
        None \<Rightarrow> t | Some i \<Rightarrow> t(i := cls))"

definition layout_active_contains :: "addr list \<Rightarrow> addr \<Rightarrow> bool" where
  "layout_active_contains active cls = list_ex (\<lambda>c. c = cls) active"

definition layout_active_push :: "addr list \<Rightarrow> addr \<Rightarrow> bool \<times> addr list" where
  "layout_active_push active cls =
     (if length active \<ge> SF_CLASS_MAP_CAPACITY then (False, active) else (True, active @ [cls]))"

text \<open>The top entry is dropped; an entry further down is closed up over, the highest one first.\<close>

definition layout_active_pop :: "addr list \<Rightarrow> addr \<Rightarrow> addr list" where
  "layout_active_pop active cls =
     (if active = [] then active
      else if last active = cls then butlast active
      else rev (remove1 cls (rev active)))"

section \<open>Encodings of ivars\<close>

definition align_up :: "u64 \<Rightarrow> u64 \<Rightarrow> u64" where
  "align_up value align = (if align \<le> 1 then value else (let m = align - 1 in (value + m) AND NOT m))"

definition sf_extract_object_class_name :: "string option \<Rightarrow> nat \<Rightarrow> string option" where
  "sf_extract_object_class_name type buf_size =
     (case type of None \<Rightarrow> None
      | Some t \<Rightarrow>
          if buf_size < 2 \<or> take 2 t \<noteq> [CHR ''@'', CHR 0x22] then None
          else let name_start = drop 2 t;
                   name = takeWhile (\<lambda>c. c \<noteq> CHR 0x22) name_start in
            if CHR 0x22 \<notin> set name_start \<or> name = [] then None
            else if length name + 1 > buf_size then None
            else Some name)"

definition sf_type_is_object_ivar :: "string option \<Rightarrow> bool" where
  "sf_type_is_object_ivar type =
     (case type of None \<Rightarrow> False
      | Some t \<Rightarrow> (case dropWhile is_type_qualifier t of
                     [] \<Rightarrow> False
                   | c # rest \<Rightarrow> c = CHR ''@'' \<and> (case rest of [] \<Rightarrow> True | d # _ \<Rightarrow> d \<noteq> CHR ''?'')))"

text \<open>The ivars the two loops over a list keep: with an offset that is not the marker, and an object
  type.\<close>

definition is_strong_ivar :: "SFObjCIvar \<Rightarrow> bool" where
  "is_strong_ivar iv =
     (case iv_offset iv of None \<Rightarrow> False
      | Some off \<Rightarrow> off \<noteq> INT32_MAX \<and> sf_type_is_object_ivar (iv_type iv))"

fun sf_count_object_ivars_in_list :: "SFObjCIvar list \<Rightarrow> nat" where
  "sf_count_object_ivars_in_list [] = 0"
| "sf_count_object_ivars_in_list (iv # ivs) =
     (if is_strong_ivar iv then Suc (sf_count_object_ivars_in_list ivs) else sf_count_object_ivars_in_list ivs)"

text \<open>The offsets the loop stores behind \<open>start_index\<close>.\<close>

fun sf_collect_object_ivar_offsets :: "SFObjCIvar list \<Rightarrow> u32 list" where
  "sf_collect_object_ivar_offsets [] = []"
| "sf_collect_object_ivar_offsets (iv # ivs) =
     (if is_strong_ivar iv then the (iv_offset iv) # sf_collect_object_ivar_offsets ivs
      else sf_collect_object_ivar_offsets ivs)"

section \<open>Value classes\<close>

definition sf_class_is_value_object_unlocked :: "loader \<Rightarrow> addr \<Rightarrow> (bool \<times> loader) option" where
  "sf_class_is_value_object_unlocked st cls =
     (case sf_class_meta_for st cls of (meta, st) \<Rightarrow>
        if (case meta of None \<Rightarrow> False
            | Some i \<Rightarrow> mt_flags (l_meta st i) AND SF_CLASS_META_FLAG_VALUE_OBJECT \<noteq> 0)
        then Some (True, st)
        else if cls = nullptr then Some (False, st)
        else let st = (if l_value_object_class st = nullptr
                       then st\<lparr>l_value_object_class := sf_loader_class_lookup_unlocked (l_map st) (Some ''ValueObject'')\<rparr>
                       else st)
          in if l_value_object_class st = nullptr then Some (False, st)
             else map_option (\<lambda>sub. (sub, st))
                    (sf_class_is_subclass_of_unlocked (l_classes st) cls (l_value_object_class st)))"

text \<open>Without inline value storage every class but the null one is supported, and the storage of an
  embedded value holds a full header.\<close>

definition sf_class_supports_inline_value_storage_unlocked :: "addr \<Rightarrow> bool" where
  "sf_class_supports_inline_value_storage_unlocked cls \<longleftrightarrow> cls \<noteq> nullptr"

definition sf_embedded_value_storage_size :: "u64 \<Rightarrow> u64" where
  "sf_embedded_value_storage_size value_size = align_up (sizeof_SFObjHeader + value_size) sizeof_ptr"

section \<open>Laying out a class\<close>

text \<open>The hooks for a per-class table of local offsets, which this build does not have.\<close>

definition sf_loader_local_ivar_offset_unlocked :: "addr \<Rightarrow> nat \<Rightarrow> 32 word option" where
  "sf_loader_local_ivar_offset_unlocked cls index = None"

text \<open>\<open>off\<close>, clamped to the range of the field.\<close>

definition adjusted_offset :: "32 word \<Rightarrow> u64 \<Rightarrow> 32 word" where
  "adjusted_offset local_off super_size =
     (let off = sint local_off + sint super_size in
      if off < 0 then 0 else if off > sint INT32_MAX then INT32_MAX else word_of_int off)"

text \<open>What the loop over the ivars carries: the end of the visible part, the local value slots, whether
  their array is allocated and whether its allocation failed.\<close>

record ivar_loop =
  max_end :: u64
  local_slots :: "SFValueSlot list"
  slots_allocated :: bool
  disable_local_slots :: bool

text \<open>The part of an iteration that looks for a value slot; \<open>deeper\<close> lays out the value class.\<close>

definition value_ivar_step ::
  "(loader \<Rightarrow> addr \<Rightarrow> (u64 \<times> loader) option) \<Rightarrow> SFObjCIvar \<Rightarrow> 32 word \<Rightarrow> loader \<times> ivar_loop \<Rightarrow> (loader \<times> ivar_loop) option" where
  "value_ivar_step deeper iv adj = (\<lambda>(st, acc).
     if disable_local_slots acc \<or> iv_offset iv = None \<or> adj = INT32_MAX then Some (st, acc)
     else case sf_extract_object_class_name (iv_type iv) 256 of
       None \<Rightarrow> Some (st, acc)
     | Some name \<Rightarrow>
         (let value_cls = sf_loader_class_lookup_unlocked (l_map st) (Some name) in
          if value_cls = nullptr then Some (st, acc)
          else do {
            (is_value, st) \<leftarrow> sf_class_is_value_object_unlocked st value_cls;
            if \<not> is_value \<or> \<not> sf_class_supports_inline_value_storage_unlocked value_cls
               \<or> layout_active_contains (l_active st) value_cls
            then Some (st, acc)
            else let (ok, st) = (if slots_allocated acc then (True, st) else next_array st) in
              if \<not> ok then Some (st, acc\<lparr>disable_local_slots := True\<rparr>)
              else do {
                (value_size, st) \<leftarrow> deeper st value_cls;
                let slot_size = sf_embedded_value_storage_size value_size;
                Some (st, if slot_size \<le> ucast UINT32_MAX
                          then acc\<lparr>slots_allocated := True, local_slots := local_slots acc @
                                 [\<lparr>declared_cls = value_cls, owner_offset = adj, storage_offset = 0,
                                   storage_size = ucast slot_size\<rparr>]\<rparr>
                          else acc\<lparr>slots_allocated := True\<rparr>)
              }
          }))"

definition ivar_step ::
  "(loader \<Rightarrow> addr \<Rightarrow> (u64 \<times> loader) option) \<Rightarrow> addr \<Rightarrow> u64 \<Rightarrow> nat \<Rightarrow> loader \<times> ivar_loop \<Rightarrow> (loader \<times> ivar_loop) option" where
  "ivar_step deeper cls super_size i = (\<lambda>(st, acc). do {
     c \<leftarrow> l_classes st cls;
     let iv = c_ivars c ! i;
     let adj = (case iv_offset iv of None \<Rightarrow> 0
                | Some off \<Rightarrow> adjusted_offset (case sf_loader_local_ivar_offset_unlocked cls i of
                                                None \<Rightarrow> off | Some local_off \<Rightarrow> local_off) super_size);
     let st = (if iv_offset iv = None then st
               else st\<lparr>l_classes := (l_classes st)(cls \<mapsto> c\<lparr>c_ivars := (c_ivars c)[i := iv\<lparr>iv_offset := Some adj\<rparr>]\<rparr>)\<rparr>);
     let skip_size = (iv_offset iv \<noteq> None \<and> adj = INT32_MAX);
     let ivar_end = scast adj + (if iv_size iv \<noteq> 0 then ucast (iv_size iv) else sizeof_ptr);
     let acc = (if \<not> skip_size \<and> ivar_end > max_end acc then acc\<lparr>max_end := ivar_end\<rparr> else acc);
     value_ivar_step deeper iv adj (st, acc)
   })"

text \<open>The storage of the local slots, one behind the other from the cursor on.\<close>

fun place_slots :: "u64 \<Rightarrow> SFValueSlot list \<Rightarrow> SFValueSlot list \<times> u64" where
  "place_slots slot_cursor [] = ([], slot_cursor)"
| "place_slots slot_cursor (s # ss) =
     (let cursor = align_up slot_cursor sizeof_ptr;
          (placed, end) = place_slots (cursor + ucast (storage_size s)) ss
      in (s\<lparr>storage_offset := ucast cursor\<rparr> # placed, end))"

text \<open>The slots a class ends up with, whether it owns their array, the end of the instance, and the
  state after the allocation of the merged array.\<close>

definition final_layout ::
  "loader \<Rightarrow> SFValueSlot list \<Rightarrow> ivar_loop \<Rightarrow> SFValueSlot list \<times> bool \<times> u64 \<times> loader" where
  "final_layout st super_slots acc =
     (let visible_end = align_up (max_end acc) sizeof_ptr in
      if local_slots acc = [] then (super_slots, False, visible_end, st)
      else let (placed, cursor) = place_slots visible_end (local_slots acc);
               slot_end = align_up cursor sizeof_ptr in
        if super_slots = [] then (placed, True, slot_end, st)
        else let (ok, st) = next_array st in
          if ok then (super_slots @ placed, True, slot_end, st)
          else (super_slots, False, visible_end, st))"

definition layout_step ::
  "(loader \<Rightarrow> addr \<Rightarrow> (u64 \<times> loader) option) \<Rightarrow> loader \<Rightarrow> addr \<Rightarrow> (u64 \<times> loader) option" where
  "layout_step deeper st cls =
     (if cls = nullptr then Some (sizeof_ptr, st)
      else do {
        c \<leftarrow> l_classes st cls;
        if layout_fixed_contains (l_fixed st) cls \<or> layout_active_contains (l_active st) cls
        then Some (sf_compiler_instance_size (Some c), st)
        else let (pushed, active) = layout_active_push (l_active st) cls;
                 st = st\<lparr>l_active := active\<rparr> in
          if \<not> pushed then Some (sf_compiler_instance_size (Some c), st)
          else do {
            let has_super = (superclass c \<noteq> nullptr \<and> superclass c \<noteq> cls);
            (super_size, st) \<leftarrow> (if has_super then deeper st (superclass c) else Some (sizeof_ptr, st));
            let super_slots = (if has_super then sf_value_slots_for_class (l_value_slots st) (superclass c) else []);
            let super_size = (if super_size < sizeof_ptr then sizeof_ptr else super_size);
            (st, acc) \<leftarrow> fold_state (ivar_step deeper cls super_size) [0..<length (c_ivars c)]
              (st, \<lparr>max_end = super_size, local_slots = [], slots_allocated = False, disable_local_slots = False\<rparr>);
            let (slots, owned, final_end, st) = final_layout st super_slots acc;
            let final_end = (if final_end < sizeof_ptr then sizeof_ptr else final_end);
            c \<leftarrow> l_classes st cls;
            Some (final_end, st\<lparr>l_classes := (l_classes st)(cls \<mapsto> c\<lparr>instance_size := final_end\<rparr>),
              l_value_slots := sf_set_value_slots_for_class_unlocked (l_value_slots st) cls slots owned,
              l_fixed := layout_fixed_insert (l_fixed st) cls,
              l_active := layout_active_pop (l_active st) cls\<rparr>)
          }
      })"

primrec layout_levels :: "nat \<Rightarrow> loader \<Rightarrow> addr \<Rightarrow> (u64 \<times> loader) option" where
  "layout_levels 0 = (\<lambda>st cls. None)"
| "layout_levels (Suc n) = layout_step (layout_levels n)"

definition sf_fix_class_layout :: "loader \<Rightarrow> addr \<Rightarrow> (u64 \<times> loader) option" where
  "sf_fix_class_layout st cls = layout_levels (SF_CLASS_MAP_CAPACITY + 1) st cls"

section \<open>The layout returns\<close>

text \<open>What the layout of a class may rely on: the superclass chain of every class can be walked to its
  end, and the class map holds classes.\<close>

definition layout_closed :: "loader \<Rightarrow> bool" where
  "layout_closed st \<longleftrightarrow>
     (\<forall>cls. l_classes st cls \<noteq> None \<longrightarrow> super_ok (l_classes st) cls)
     \<and> (\<forall>name. let cls = sf_loader_class_lookup_unlocked (l_map st) name in
                cls = nullptr \<or> l_classes st cls \<noteq> None)
     \<and> (l_value_object_class st = nullptr \<or> l_classes st (l_value_object_class st) \<noteq> None)"

definition same_chains :: "class_mem \<Rightarrow> class_mem \<Rightarrow> bool" where
  "same_chains m m' \<longleftrightarrow> (\<forall>cls. map_option superclass (m cls) = map_option superclass (m' cls))"

lemma same_chains_refl [simp]: "same_chains m m"
  by (simp add: same_chains_def)

lemma same_chains_trans: "same_chains m m' \<Longrightarrow> same_chains m' m'' \<Longrightarrow> same_chains m m''"
  by (simp add: same_chains_def)

lemma same_chains_update:
  "m cls = Some c \<Longrightarrow> superclass c' = superclass c \<Longrightarrow> same_chains m (m(cls \<mapsto> c'))"
  by (simp add: same_chains_def)

lemma same_chains_dom: "same_chains m m' \<Longrightarrow> m cls = None \<longleftrightarrow> m' cls = None"
  by (metis same_chains_def option.map_disc_iff)

lemma same_chains_super_ok: "super_ok m cls \<Longrightarrow> same_chains m m' \<Longrightarrow> super_ok m' cls"
proof (induction rule: super_ok.induct)
  case (super_step cls c)
  have "map_option superclass (m' cls) = Some (superclass c)"
    using super_step by (metis same_chains_def option.simps(9))
  then obtain c' where "m' cls = Some c'" "superclass c' = superclass c" by auto
  with super_step show ?case
    by (intro super_ok.super_step [of cls m' c']) (simp_all add: sf_next_superclass_def split: if_splits)
qed (rule super_null)

text \<open>What every part of the layout leaves alone.\<close>

definition keeps_layout :: "loader \<Rightarrow> loader \<Rightarrow> bool" where
  "keeps_layout st st' \<longleftrightarrow> l_active st' = l_active st \<and> l_map st' = l_map st
     \<and> same_chains (l_classes st) (l_classes st')
     \<and> (l_value_object_class st' = l_value_object_class st
        \<or> l_value_object_class st' = sf_loader_class_lookup_unlocked (l_map st) (Some ''ValueObject''))"

lemma keeps_layout_refl [simp]: "keeps_layout st st"
  by (simp add: keeps_layout_def)

lemma keeps_layout_trans: "keeps_layout st st' \<Longrightarrow> keeps_layout st' st'' \<Longrightarrow> keeps_layout st st''"
  by (auto simp: keeps_layout_def intro: same_chains_trans)

lemma keeps_layout_closed:
  assumes "layout_closed st" "keeps_layout st st'"
  shows "layout_closed st'"
proof -
  have same: "same_chains (l_classes st) (l_classes st')" and map: "l_map st' = l_map st"
    using assms(2) by (simp_all add: keeps_layout_def)
  note dom = same_chains_dom [OF same]
  have "super_ok (l_classes st') cls" if "l_classes st' cls \<noteq> None" for cls
    using that assms(1) dom same_chains_super_ok [OF _ same] by (auto simp: layout_closed_def)
  moreover have found: "let cls = sf_loader_class_lookup_unlocked (l_map st') name in
      cls = nullptr \<or> l_classes st' cls \<noteq> None" for name
    using assms(1) dom by (simp add: layout_closed_def Let_def map)
  moreover have "l_value_object_class st' = nullptr \<or> l_classes st' (l_value_object_class st') \<noteq> None"
  proof (cases "l_value_object_class st' = l_value_object_class st")
    case True
    with assms(1) dom show ?thesis by (simp add: layout_closed_def)
  next
    case False
    with assms(2) found [of "Some ''ValueObject''"] show ?thesis by (simp add: keeps_layout_def Let_def)
  qed
  ultimately show ?thesis unfolding layout_closed_def by blast
qed

lemma keeps_layout_mapped: "keeps_layout st st' \<Longrightarrow> l_classes st cls \<noteq> None \<Longrightarrow> l_classes st' cls \<noteq> None"
  using same_chains_dom [of "l_classes st" "l_classes st'" cls] by (simp add: keeps_layout_def)

lemma keeps_layout_active: "keeps_layout st st' \<Longrightarrow> l_active st' = l_active st"
  by (simp add: keeps_layout_def)

lemma layout_closed_super_ok: "layout_closed st \<Longrightarrow> l_classes st cls \<noteq> None \<Longrightarrow> super_ok (l_classes st) cls"
  by (simp add: layout_closed_def)

lemma next_array_keeps: "next_array st = (ok, st') \<Longrightarrow> keeps_layout st st'"
  by (auto simp: next_array_def keeps_layout_def split: list.splits)

lemma class_meta_for_keeps: "sf_class_meta_for st cls = (meta, st') \<Longrightarrow> keeps_layout st st'"
  by (auto simp: sf_class_meta_for_def keeps_layout_def split: if_splits option.splits)

lemma subclass_loop_total: "super_ok m cls \<Longrightarrow> \<exists>r. subclass_loop m cls target = Some r"
proof (induction rule: super_ok.induct)
  case super_null
  show ?case by (subst subclass_loop.simps) (rule exI [of _ False], simp)
next
  case (super_step cls c)
  then show ?case by (subst subclass_loop.simps) auto
qed

text \<open>A piece of the layout that returns on closed states, having kept what it must.\<close>

definition returns :: "loader \<Rightarrow> ('r \<times> loader) option \<Rightarrow> bool" where
  "returns st r \<longleftrightarrow> (\<exists>v st'. r = Some (v, st') \<and> keeps_layout st st')"

lemma value_object_test_returns:
  assumes "layout_closed st" "cls = nullptr \<or> l_classes st cls \<noteq> None"
  shows "returns st (sf_class_is_value_object_unlocked st cls)"
proof -
  obtain meta st1 where m: "sf_class_meta_for st cls = (meta, st1)" by fastforce
  have k: "keeps_layout st st1" using class_meta_for_keeps [OF m] .
  define st2 where "st2 = (if l_value_object_class st1 = nullptr
    then st1\<lparr>l_value_object_class := sf_loader_class_lookup_unlocked (l_map st1) (Some ''ValueObject'')\<rparr> else st1)"
  have k2: "keeps_layout st st2"
    using k by (auto simp: st2_def keeps_layout_def)
  have "\<exists>r. sf_class_is_subclass_of_unlocked (l_classes st2) cls (l_value_object_class st2) = Some r"
    if "cls \<noteq> nullptr"
  proof -
    have "l_classes st2 cls \<noteq> None" using that assms(2) keeps_layout_mapped [OF k2] by blast
    from layout_closed_super_ok [OF keeps_layout_closed [OF assms(1) k2] this] show ?thesis
      by (simp add: sf_class_is_subclass_of_unlocked_def subclass_loop_total)
  qed
  with k k2 show ?thesis
    by (auto simp: returns_def sf_class_is_value_object_unlocked_def m Let_def simp flip: st2_def)
qed

text \<open>A deeper level that returns with more than \<open>n\<close> active classes.\<close>

definition returns_above :: "nat \<Rightarrow> (loader \<Rightarrow> addr \<Rightarrow> (u64 \<times> loader) option) \<Rightarrow> bool" where
  "returns_above n f \<longleftrightarrow> (\<forall>st cls. layout_closed st \<and> n \<le> length (l_active st)
     \<and> (cls = nullptr \<or> l_classes st cls \<noteq> None) \<longrightarrow> returns st (f st cls))"

lemma returns_aboveD:
  "returns_above n f \<Longrightarrow> layout_closed st \<Longrightarrow> n \<le> length (l_active st) \<Longrightarrow> cls = nullptr \<or> l_classes st cls \<noteq> None
    \<Longrightarrow> \<exists>v st'. f st cls = Some (v, st') \<and> keeps_layout st st'"
  by (simp add: returns_above_def returns_def)

lemma value_ivar_step_returns:
  assumes "returns_above n deeper" "layout_closed st" "n \<le> length (l_active st)"
  shows "\<exists>st' acc'. value_ivar_step deeper iv adj (st, acc) = Some (st', acc') \<and> keeps_layout st st'"
proof (cases "disable_local_slots acc \<or> iv_offset iv = None \<or> adj = INT32_MAX")
  case False
  show ?thesis
  proof (cases "sf_extract_object_class_name (iv_type iv) 256")
    case (Some name)
    define cls where "cls = sf_loader_class_lookup_unlocked (l_map st) (Some name)"
    have cls: "cls = nullptr \<or> l_classes st cls \<noteq> None"
      using assms(2) unfolding layout_closed_def cls_def Let_def by blast
    obtain v st1 where v: "sf_class_is_value_object_unlocked st cls = Some (v, st1)" "keeps_layout st st1"
      using value_object_test_returns [OF assms(2) cls] by (auto simp: returns_def)
    define alloc where "alloc = (if slots_allocated acc then (True, st1) else next_array st1)"
    obtain ok st2 where st2: "alloc = (ok, st2)" by fastforce
    then have "keeps_layout st1 st2"
      by (auto simp: alloc_def split: if_splits dest: next_array_keeps)
    with v(2) have k2: "keeps_layout st st2" by (rule keeps_layout_trans [of st st1])
    have "layout_closed st2" "n \<le> length (l_active st2)" "cls = nullptr \<or> l_classes st2 cls \<noteq> None"
      using assms(3) cls keeps_layout_closed [OF assms(2) k2] keeps_layout_mapped [OF k2]
        keeps_layout_active [OF k2] by auto
    from returns_aboveD [OF assms(1) this] obtain sz st3 where
      "deeper st2 cls = Some (sz, st3)" "keeps_layout st2 st3" by blast
    with v k2 st2 False Some show ?thesis
      by (auto simp: value_ivar_step_def Let_def simp flip: cls_def alloc_def intro: keeps_layout_trans)
  qed (simp add: value_ivar_step_def)
qed (simp add: value_ivar_step_def)

lemma ivar_step_returns:
  assumes "returns_above n deeper" "layout_closed st" "n \<le> length (l_active st)" "l_classes st cls \<noteq> None"
  shows "\<exists>st' acc'. ivar_step deeper cls super_size i (st, acc) = Some (st', acc') \<and> keeps_layout st st'"
proof -
  obtain c where c: "l_classes st cls = Some c" using assms(4) by auto
  define adj where "adj = (case iv_offset (c_ivars c ! i) of None \<Rightarrow> 0 | Some off \<Rightarrow> adjusted_offset off super_size)"
  define st1 where "st1 = (if iv_offset (c_ivars c ! i) = None then st
    else st\<lparr>l_classes := (l_classes st)(cls \<mapsto>
           c\<lparr>c_ivars := (c_ivars c)[i := (c_ivars c ! i)\<lparr>iv_offset := Some adj\<rparr>]\<rparr>)\<rparr>)"
  define ivar_end where "ivar_end = scast adj
    + (if iv_size (c_ivars c ! i) \<noteq> 0 then ucast (iv_size (c_ivars c ! i)) else sizeof_ptr)"
  define acc1 where "acc1 = (if \<not> (iv_offset (c_ivars c ! i) \<noteq> None \<and> adj = INT32_MAX) \<and> ivar_end > max_end acc
    then acc\<lparr>max_end := ivar_end\<rparr> else acc)"
  have k: "keeps_layout st st1"
    using c by (auto simp: st1_def keeps_layout_def intro!: same_chains_update)
  have step: "ivar_step deeper cls super_size i (st, acc) = value_ivar_step deeper (c_ivars c ! i) adj (st1, acc1)"
    unfolding ivar_step_def st1_def acc1_def ivar_end_def adj_def
    by (cases "iv_offset (c_ivars c ! i)") (simp_all add: c Let_def sf_loader_local_ivar_offset_unlocked_def)
  have "layout_closed st1" "n \<le> length (l_active st1)"
    using assms(3) keeps_layout_closed [OF assms(2) k] keeps_layout_active [OF k] by simp_all
  from value_ivar_step_returns [OF assms(1) this] obtain st' acc' where
    "value_ivar_step deeper (c_ivars c ! i) adj (st1, acc1) = Some (st', acc')" "keeps_layout st1 st'"
    by blast
  with step k keeps_layout_trans [of st st1 st'] show ?thesis by auto
qed

lemma ivars_return:
  assumes "returns_above n deeper" "layout_closed st" "n \<le> length (l_active st)" "l_classes st cls \<noteq> None"
  shows "\<exists>st' acc'. fold_state (ivar_step deeper cls super_size) is (st, acc) = Some (st', acc') \<and> keeps_layout st st'"
  using assms(2-4)
proof (induction "is" arbitrary: st acc)
  case (Cons i "is")
  from ivar_step_returns [OF assms(1) Cons.prems] obtain st1 acc1 where
    s: "ivar_step deeper cls super_size i (st, acc) = Some (st1, acc1)" "keeps_layout st st1" by blast
  have "layout_closed st1" "n \<le> length (l_active st1)" "l_classes st1 cls \<noteq> None"
    using Cons.prems keeps_layout_closed [OF _ s(2)] keeps_layout_mapped [OF s(2)] keeps_layout_active [OF s(2)]
    by auto
  from Cons.IH [OF this, of acc1] s show ?case by (auto intro: keeps_layout_trans)
qed simp

lemma final_layout_keeps: "final_layout st super_slots acc = (slots, owned, end, st') \<Longrightarrow> keeps_layout st st'"
  by (auto simp: final_layout_def Let_def split: if_splits prod.splits dest: next_array_keeps)

lemma layout_active_pop_top [simp]: "layout_active_pop (active @ [cls]) cls = active"
  by (simp add: layout_active_pop_def)

text \<open>One level returns if the next one does, or if there is no room on the stack for a next one.\<close>

lemma layout_step_returns:
  assumes "n < SF_CLASS_MAP_CAPACITY \<Longrightarrow> returns_above (Suc n) deeper"
  shows "returns_above n (layout_step deeper)"
  unfolding returns_above_def
proof (intro allI impI, elim conjE)
  fix st cls
  assume closed: "layout_closed st" and depth: "n \<le> length (l_active st)"
    and cls: "cls = nullptr \<or> l_classes st cls \<noteq> None"
  show "returns st (layout_step deeper st cls)"
  proof (cases "cls = nullptr \<or> layout_fixed_contains (l_fixed st) cls \<or> layout_active_contains (l_active st) cls
      \<or> SF_CLASS_MAP_CAPACITY \<le> length (l_active st)")
    case True
    with cls show ?thesis
      by (auto simp: layout_step_def returns_def layout_active_push_def split: if_splits)
  next
    case False
    then obtain c where c: "l_classes st cls = Some c" using cls by auto
    define st1 where "st1 = st\<lparr>l_active := l_active st @ [cls]\<rparr>"
    have closed1: "layout_closed st1" using closed by (simp add: layout_closed_def st1_def)
    have deep: "returns_above (Suc n) deeper" using False depth assms by simp
    have d1: "Suc n \<le> length (l_active st1)" using depth by (simp add: st1_def)
    define has_super where "has_super = (superclass c \<noteq> nullptr \<and> superclass c \<noteq> cls)"
    have super: "l_classes st1 (superclass c) \<noteq> None" if has_super
    proof -
      have "super_ok (l_classes st) cls" using closed c by (simp add: layout_closed_def)
      then have "super_ok (l_classes st) (superclass c)"
        using that c False by (cases rule: super_ok.cases) (auto simp: has_super_def sf_next_superclass_def)
      then show ?thesis using that by (cases rule: super_ok.cases) (auto simp: has_super_def st1_def)
    qed
    have "\<exists>size st2. (if has_super then deeper st1 (superclass c) else Some (sizeof_ptr, st1)) = Some (size, st2)
        \<and> keeps_layout st1 st2"
      using returns_aboveD [OF deep closed1 d1, of "superclass c"] super by (cases has_super) auto
    then obtain size st2 where
      s2: "(if has_super then deeper st1 (superclass c) else Some (sizeof_ptr, st1)) = Some (size, st2)"
        "keeps_layout st1 st2" by blast
    have l2: "layout_closed st2" "Suc n \<le> length (l_active st2)" "l_classes st2 cls \<noteq> None"
      using closed1 d1 c keeps_layout_closed [OF _ s2(2)] keeps_layout_mapped [OF s2(2), of cls]
        keeps_layout_active [OF s2(2)] by (auto simp: st1_def)
    define super_size where "super_size = (if size < sizeof_ptr then sizeof_ptr else size)"
    define acc where "acc = \<lparr>max_end = super_size, local_slots = [], slots_allocated = False, disable_local_slots = False\<rparr>"
    obtain st3 acc3 where s3: "fold_state (ivar_step deeper cls super_size) [0..<length (c_ivars c)] (st2, acc) = Some (st3, acc3)"
      "keeps_layout st2 st3"
      using ivars_return [OF deep l2] by blast
    define super_slots where "super_slots = (if has_super then sf_value_slots_for_class (l_value_slots st2) (superclass c) else [])"
    obtain slots owned last st4 where s4: "final_layout st3 super_slots acc3 = (slots, owned, last, st4)"
      by (metis prod_cases4)
    have k: "keeps_layout st1 st4"
      using s2(2) s3(2) final_layout_keeps [OF s4] by (meson keeps_layout_trans)
    then have "l_classes st4 cls \<noteq> None" using c keeps_layout_mapped [of st1 st4 cls] by (simp add: st1_def)
    then obtain c4 where c4: "l_classes st4 cls = Some c4" by auto
    have active: "l_active st4 = l_active st @ [cls]" using k by (simp add: keeps_layout_def st1_def)
    define final_end where "final_end = (if last < sizeof_ptr then sizeof_ptr else last)"
    define st5 where "st5 = st4\<lparr>l_classes := (l_classes st4)(cls \<mapsto> c4\<lparr>instance_size := final_end\<rparr>),
      l_value_slots := sf_set_value_slots_for_class_unlocked (l_value_slots st4) cls slots owned,
      l_fixed := layout_fixed_insert (l_fixed st4) cls, l_active := layout_active_pop (l_active st4) cls\<rparr>"
    have hs: "(superclass c \<noteq> nullptr \<and> superclass c \<noteq> cls) = has_super" by (simp add: has_super_def)
    have "layout_step deeper st cls = Some (final_end, st5)"
      unfolding layout_step_def st5_def final_end_def
      using False s2(1) s3(1) s4 c4
      by (cases has_super)
        (simp_all add: c hs layout_active_push_def Let_def super_slots_def super_size_def acc_def st1_def)
    moreover have "keeps_layout st st5"
      using k active c4 by (auto simp: keeps_layout_def st1_def st5_def
          intro!: same_chains_trans [of "l_classes st" "l_classes st4"] same_chains_update)
    ultimately show ?thesis by (simp add: returns_def)
  qed
qed

lemma layout_levels_return: "returns_above (SF_CLASS_MAP_CAPACITY - n) (layout_levels (Suc n))"
proof (induction n)
  case 0
  show ?case using layout_step_returns [of SF_CLASS_MAP_CAPACITY "layout_levels 0"] by simp
next
  case (Suc n)
  show ?case
  proof (cases "n < SF_CLASS_MAP_CAPACITY")
    case True
    have "returns_above (Suc (SF_CLASS_MAP_CAPACITY - Suc n)) (layout_levels (Suc n))"
      using Suc.IH Suc_diff_Suc [OF True] by simp
    from layout_step_returns [OF this] show ?thesis by (simp del: diff_is_0_eq)
  next
    case False
    with Suc.IH have "returns_above 0 (layout_levels (Suc n))" by simp
    then have "returns_above (Suc 0) (layout_levels (Suc n))" by (simp add: returns_above_def)
    from layout_step_returns [OF this] False show ?thesis by simp
  qed
qed

text \<open>The layout of a class always returns.  When the superclass chains of the registered
  classes can be walked, \<open>sf_fix_class_layout\<close> ends within \<open>SF_CLASS_MAP_CAPACITY + 1\<close> levels of
  recursion, however the value classes refer to each other, even in a cycle; it leaves the stack of
  active classes as it found it and the superclass chains intact.\<close>

theorem fix_layout_returns:
  assumes "layout_closed st" "l_classes st cls \<noteq> None"
  shows "\<exists>size st'. sf_fix_class_layout st cls = Some (size, st')
     \<and> l_active st' = l_active st \<and> layout_closed st' \<and> l_classes st' cls \<noteq> None"
proof -
  have "returns_above 0 (layout_levels (SF_CLASS_MAP_CAPACITY + 1))"
    using layout_levels_return [of SF_CLASS_MAP_CAPACITY] by simp
  from returns_aboveD [OF this assms(1), of cls] assms(2) obtain size st' where
    r: "sf_fix_class_layout st cls = Some (size, st')" "keeps_layout st st'"
    by (auto simp: sf_fix_class_layout_def)
  with keeps_layout_active [OF r(2)] keeps_layout_closed [OF assms(1) r(2)] keeps_layout_mapped [OF r(2) assms(2)]
  show ?thesis by blast
qed

section \<open>Where the value slots are put\<close>

text \<open>Slots that follow each other between two bounds, 8-byte aligned.\<close>

fun slots_within :: "nat \<Rightarrow> SFValueSlot list \<Rightarrow> nat \<Rightarrow> bool" where
  "slots_within lo [] hi \<longleftrightarrow> lo \<le> hi"
| "slots_within lo (s # ss) hi \<longleftrightarrow> lo \<le> unat (storage_offset s) \<and> unat (storage_offset s) mod 8 = 0
     \<and> slots_within (unat (storage_offset s) + unat (storage_size s)) ss hi"

definition slot_bytes :: "SFValueSlot list \<Rightarrow> nat" where
  "slot_bytes ss = sum_list (map (\<lambda>s. unat (storage_size s) + 8) ss)"

lemma unat_ucast_32: "unat (ucast (w :: u32) :: u64) = unat w"
proof -
  have "unat w < 2 ^ LENGTH(32)" by (rule unsigned_less)
  then show ?thesis by (simp add: unsigned_ucast_eq take_bit_nat_eq_self)
qed

lemma align_up_8: "align_up x 8 = (x + 7) AND NOT 7"
  by (simp add: align_up_def Let_def word_le_nat_alt)

lemma unat_align_up_8:
  assumes "unat x + 7 < 2 ^ 64"
  shows "unat (align_up x 8) = (unat x + 7) div 8 * 8"
proof -
  have "align_up x 8 = (x + mask 3) AND NOT (mask 3)"
    by (simp add: align_up_8 mask_eq_exp_minus_1)
  with unat_round_up [of x 3] assms show ?thesis by simp
qed

lemma align_up_8_bounds:
  assumes "unat x + 7 < 2 ^ 64"
  shows "unat x \<le> unat (align_up x 8)" "unat (align_up x 8) \<le> unat x + 7" "unat (align_up x 8) mod 8 = 0"
  unfolding unat_align_up_8 [OF assms] by (presburger | simp)+

lemma place_slots_within:
  assumes "unat cursor + slot_bytes ss < 2 ^ 32"
  shows "case place_slots cursor ss of (placed, end) \<Rightarrow>
    slots_within (unat cursor) placed (unat end) \<and> unat end \<le> unat cursor + slot_bytes ss
    \<and> map storage_size placed = map storage_size ss \<and> map owner_offset placed = map owner_offset ss
    \<and> map declared_cls placed = map declared_cls ss"
  using assms
proof (induction ss arbitrary: cursor)
  case (Cons s ss)
  let ?c = "align_up cursor 8"
  have c: "unat cursor \<le> unat ?c" "unat ?c \<le> unat cursor + 7" "unat ?c mod 8 = 0"
    using align_up_8_bounds [of cursor] Cons.prems by simp_all
  have b: "unat cursor + unat (storage_size s) + 8 + slot_bytes ss < 2 ^ 32"
    using Cons.prems by (simp add: slot_bytes_def)
  have off: "unat (ucast ?c :: u32) = unat ?c"
    using c b by (simp add: unsigned_ucast_eq take_bit_nat_eq_self)
  have adv: "unat (?c + ucast (storage_size s)) = unat ?c + unat (storage_size s)"
    using c b by (simp add: unat_word_ariths unat_ucast_32)
  have "unat (?c + ucast (storage_size s)) + slot_bytes ss < 2 ^ 32" using adv c b by simp
  from Cons.IH [OF this] c b off adv show ?case
    by (auto simp: split_beta Let_def slot_bytes_def)
qed (simp add: slot_bytes_def)

text \<open>C36: the storage of value objects does not overlap.  Behind the visible ivars, as long as the
  instance stays below 4 GiB, the slots of a class are laid out in ivar order, each aligned to 8 bytes
  and of the size it asked for, each behind the one before it, and the instance ends behind the last;
  the slots inherited from the superclass come first, unchanged.  When the merged array cannot be
  allocated the class keeps the inherited slots only.\<close>

theorem value_slots_disjoint:
  assumes "unat (max_end acc) + slot_bytes (local_slots acc) + 16 < 2 ^ 32"
    and "final_layout st super_slots acc = (slots, owned, inst_end, st')"
  shows "unat (max_end acc) \<le> unat inst_end \<and> unat inst_end mod 8 = 0
    \<and> (slots = super_slots
       \<or> (\<exists>placed. slots = super_slots @ placed \<and> slots_within (unat (max_end acc)) placed (unat inst_end)
          \<and> map storage_size placed = map storage_size (local_slots acc)
          \<and> map owner_offset placed = map owner_offset (local_slots acc)))"
proof -
  let ?v = "align_up (max_end acc) 8"
  have v: "unat (max_end acc) \<le> unat ?v" "unat ?v \<le> unat (max_end acc) + 7" "unat ?v mod 8 = 0"
    using align_up_8_bounds [of "max_end acc"] assms(1) by simp_all
  obtain placed cursor where p: "place_slots ?v (local_slots acc) = (placed, cursor)" by fastforce
  have "unat ?v + slot_bytes (local_slots acc) < 2 ^ 32" using v assms(1) by simp
  from place_slots_within [OF this] p v have
    w: "slots_within (unat ?v) placed (unat cursor)" "unat cursor \<le> unat ?v + slot_bytes (local_slots acc)"
      "map storage_size placed = map storage_size (local_slots acc)"
      "map owner_offset placed = map owner_offset (local_slots acc)" by auto
  let ?e = "align_up cursor 8"
  have e: "unat cursor \<le> unat ?e" "unat ?e mod 8 = 0"
    using align_up_8_bounds [of cursor] w(2) v assms(1) by simp_all
  have up: "slots_within lo ss hi \<Longrightarrow> lo' \<le> lo \<Longrightarrow> hi \<le> hi' \<Longrightarrow> slots_within lo' ss hi'" for lo lo' ss hi hi'
    by (induction ss arbitrary: lo lo') auto
  have le: "slots_within lo ss hi \<Longrightarrow> lo \<le> hi" for lo ss hi
    by (induction ss arbitrary: lo) fastforce+
  have "slots_within (unat (max_end acc)) placed (unat ?e)" "unat (max_end acc) \<le> unat ?e"
    using up [OF w(1) v(1) e(1)] le by blast+
  with assms(2) v e w p show ?thesis
    by (auto simp: final_layout_def Let_def split: if_splits prod.splits)
qed

section \<open>Examples\<close>

text \<open>A loader before any registration.\<close>

definition empty_meta :: SFClassMetaEntry where
  "empty_meta = \<lparr>mt_cls = nullptr, mt_name = None, mt_superclass = nullptr, dealloc_imp = nullptr,
     alloc_imp = nullptr, init_imp = nullptr, cxx_destruct_imp = nullptr, mt_flags = 0, mt_object_flags = 0,
     strong_ivar_count = 0, mt_instance_size = 0, total_alloc_size = 0, strong_ivar_offsets = None\<rparr>"

definition empty_value_entry :: SFValueSlotEntry where
  "empty_value_entry = \<lparr>ve_cls = nullptr, ve_slots = [], ve_owned = False\<rparr>"

definition empty_loader :: "class_mem \<Rightarrow> loader" where
  "empty_loader m = \<lparr>l_sels = empty_selectors [], l_classes = m, l_map = empty_class_map,
     l_tags = \<lparr>slot_classes = (\<lambda>_. nullptr), slot_conflicts = (\<lambda>_. False)\<rparr>,
     l_meta = (\<lambda>_. empty_meta), l_value_slots = (\<lambda>_. empty_value_entry), l_fixed = (\<lambda>_. nullptr), l_active = [],
     l_callocs = [], l_last_meta_cls = nullptr, l_last_meta_entry = None, l_object_class = nullptr,
     l_value_object_class = nullptr, l_constantstring_class = nullptr, l_nsconstantstring_class = nullptr,
     l_nxconstantstring_class = nullptr, l_dealloc_sel = nullptr, l_alloc_sel = nullptr, l_init_sel = nullptr,
     l_forwarding_target_sel = nullptr, l_cxx_destruct_sel = nullptr, l_tagged_pointer_slot_sel = nullptr,
     l_object_dealloc_imp = nullptr\<rparr>"

text \<open>A class with an integer ivar and a subclass that adds an object ivar, as a compiler emits them:
  offsets relative to the end of the superclass.\<close>

definition demo_ivar :: "string \<Rightarrow> SFObjCIvar" where
  "demo_ivar type = \<lparr>iv_name = None, iv_type = Some type, iv_offset = Some 0, iv_size = 8\<rparr>"

definition demo_layout_classes :: class_mem where
  "demo_layout_classes =
     [0x100 \<mapsto> (class_demo 0x110 0)\<lparr>c_name := Some ''Base'', c_ivars := [demo_ivar ''q'']\<rparr>,
      0x200 \<mapsto> (class_demo 0x210 0x100)\<lparr>c_name := Some ''Sub'', c_ivars := [demo_ivar ''@'']\<rparr>]"

lemma empty_class_map_lookup: "sf_loader_class_lookup_unlocked empty_class_map name = nullptr"
  by (auto simp: sf_loader_class_lookup_unlocked_def empty_class_map_def split: option.splits)

lemma demo_layout_closed: "layout_closed (empty_loader demo_layout_classes)"
proof -
  have base: "super_ok demo_layout_classes 0x100"
    by (rule super_ok.super_step) (auto simp: demo_layout_classes_def class_demo_def sf_next_superclass_def)
  have "super_ok demo_layout_classes 0x200"
    by (rule super_ok.super_step) (use base in \<open>auto simp: demo_layout_classes_def class_demo_def sf_next_superclass_def\<close>)
  with base show ?thesis
    by (auto simp: layout_closed_def empty_loader_def empty_class_map_lookup)
      (auto simp: demo_layout_classes_def split: if_splits)
qed

theorem fix_layout_returns_witness:
  "\<exists>size st'. sf_fix_class_layout (empty_loader demo_layout_classes) 0x200 = Some (size, st') \<and> l_active st' = []"
  using fix_layout_returns [OF demo_layout_closed, of "0x200"]
  by (auto simp: empty_loader_def demo_layout_classes_def)

definition demo_acc :: ivar_loop where
  "demo_acc = \<lparr>max_end = 20, local_slots =
     [\<lparr>declared_cls = 0x300, owner_offset = 8, storage_offset = 0, storage_size = 88\<rparr>,
      \<lparr>declared_cls = 0x300, owner_offset = 16, storage_offset = 0, storage_size = 88\<rparr>],
     slots_allocated = True, disable_local_slots = False\<rparr>"

theorem value_slots_disjoint_witness:
  "\<exists>slots. final_layout (empty_loader Map.empty) [] demo_acc = (slots, True, 200, empty_loader Map.empty)
     \<and> slots_within 20 slots 200 \<and> map storage_offset slots = [24, 112]"
proof -
  define slots where "slots = fst (place_slots 24 (local_slots demo_acc))"
  have places: "place_slots 24 (local_slots demo_acc) = (slots, 200)"
    by (simp add: slots_def demo_acc_def align_up_8 Let_def)
  have final: "final_layout (empty_loader Map.empty) [] demo_acc = (slots, True, 200, empty_loader Map.empty)"
    using places by (simp add: final_layout_def demo_acc_def align_up_8 Let_def)
  have "unat (max_end demo_acc) + slot_bytes (local_slots demo_acc) + 16 < 2 ^ 32"
    by (simp add: demo_acc_def slot_bytes_def)
  from value_slots_disjoint [OF this final] have "slots = [] \<or> slots_within 20 slots 200"
    by (auto simp: demo_acc_def)
  moreover have offs: "map storage_offset slots = [24, 112]"
    by (simp add: slots_def demo_acc_def align_up_8 Let_def)
  ultimately show ?thesis using final by auto
qed

end
