(* ===== verification/SF_Load.thy ===== *)
theory SF_Load
  imports SF_Layout
begin

unbundle bit_operations_syntax

text \<open>
  Class metadata and the loading of modules in \<open>Runtime/src/loader.c\<close>: the table of cached facts
  about a class (its lifecycle implementations, the offsets of its strong ivars, the flags its objects
  carry), the reset of all caches, and \<open>sf_finalize_registered_classes\<close>, which lays out, canonicalises
  and caches every registered class and runs after each module.

  Names are compared by content; the code compares the name pointer of a map entry with that of its
  class to tell aliases.
\<close>

section \<open>Class metadata\<close>

definition sf_object_dealloc_imp_unlocked :: "loader \<Rightarrow> (addr \<times> loader) option" where
  "sf_object_dealloc_imp_unlocked st =
     (let st = (if l_object_class st = nullptr
                then st\<lparr>l_object_class := sf_loader_class_lookup_unlocked (l_map st) (Some ''Object'')\<rparr> else st)
      in if l_object_dealloc_imp st = nullptr \<and> l_object_class st \<noteq> nullptr \<and> l_dealloc_sel st \<noteq> nullptr
         then do {
           imp \<leftarrow> sf_lookup_method_imp_exact (l_classes st) (l_object_class st) (l_dealloc_sel st);
           Some (imp, st\<lparr>l_object_dealloc_imp := imp\<rparr>)
         }
         else Some (l_object_dealloc_imp st, st))"

text \<open>The implementation of a cached selector in the class itself.\<close>

definition own_imp :: "loader \<Rightarrow> addr \<Rightarrow> addr \<Rightarrow> addr option" where
  "own_imp st cls sel =
     (if sel \<noteq> nullptr then sf_lookup_method_imp_exact (l_classes st) cls sel else Some nullptr)"

text \<open>The array of strong offsets: those of the superclass, if it has any, then those of the class.\<close>

definition inherited_offsets :: "SFClassMetaEntry option \<Rightarrow> u32 list" where
  "inherited_offsets super_meta =
     (case super_meta of None \<Rightarrow> []
      | Some e \<Rightarrow> (case strong_ivar_offsets e of None \<Rightarrow> [] | Some os \<Rightarrow> take (unat (strong_ivar_count e)) os))"

text \<open>The entry of a class: \<open>cnt\<close> strong ivars, counted with the inherited ones, their array, the
  implementations of the lifecycle selectors, whether the class is a value class, and the \<open>dealloc\<close> of
  the root class.\<close>

definition class_meta_entry ::
  "addr \<Rightarrow> SFObjCClass \<Rightarrow> nat \<Rightarrow> u32 list option \<Rightarrow> addr \<times> addr \<times> addr \<times> addr \<Rightarrow> bool \<Rightarrow> addr \<Rightarrow> SFClassMetaEntry" where
  "class_meta_entry cls c cnt offsets imps value base_dealloc =
     (let (dealloc, alloc, init, cxx) = imps;
          inst = (ucast (sf_class_instance_size_fast (Some c)) :: u32);
          trivial = (cnt = 0 \<and> cxx = nullptr \<and> (dealloc = nullptr \<or> dealloc = base_dealloc))
      in \<lparr>mt_cls = cls, mt_name = c_name c, mt_superclass = superclass c, dealloc_imp = dealloc,
       alloc_imp = alloc, init_imp = init, cxx_destruct_imp = cxx,
       mt_flags = (if cnt > 0 then SF_CLASS_META_FLAG_HAS_OBJECT_IVARS else 0)
         OR (if value then SF_CLASS_META_FLAG_VALUE_OBJECT else 0)
         OR (if trivial then SF_CLASS_META_FLAG_TRIVIAL_RELEASE else 0),
       mt_object_flags = (if cnt > 0 then SF_OBJ_CLASS_FLAG_HAS_OBJECT_IVARS else 0)
         OR (if cxx \<noteq> nullptr then SF_OBJ_CLASS_FLAG_HAS_CXX_DESTRUCT else 0)
         OR (if value then SF_OBJ_CLASS_FLAG_VALUE_OBJECT else 0)
         OR (if trivial then SF_OBJ_CLASS_FLAG_TRIVIAL_RELEASE else 0),
       strong_ivar_count = (case offsets of None \<Rightarrow> 0 | Some os \<Rightarrow> of_nat (length os)),
       mt_instance_size = inst,
       total_alloc_size = ucast (align_up (sizeof_SFObjHeader + ucast inst) sizeof_ptr),
       strong_ivar_offsets = offsets\<rparr>)"

text \<open>\<open>sf_cache_class_meta\<close> from the counting of the ivars on.  \<open>slot\<close> is the index found before the
  superclass was looked at, and \<open>super_meta\<close> the entry of the superclass.\<close>

definition store_class_meta ::
  "nat \<Rightarrow> addr \<Rightarrow> SFObjCClass \<Rightarrow> nat option \<Rightarrow> loader \<Rightarrow> loader option" where
  "store_class_meta slot cls c super_meta st = do {
     let super_entry = map_option (l_meta st) super_meta;
     let super_count = (case super_entry of None \<Rightarrow> 0 | Some e \<Rightarrow> unat (strong_ivar_count e));
     let total_count = super_count + sf_count_object_ivars_in_list (c_ivars c);
     let (ok, st) = (if total_count > 0 then next_array st else (False, st));
     let offsets = (if ok then Some (inherited_offsets super_entry @ sf_collect_object_ivar_offsets (c_ivars c)) else None);
     dealloc \<leftarrow> own_imp st cls (l_dealloc_sel st);
     alloc \<leftarrow> own_imp st cls (l_alloc_sel st);
     init \<leftarrow> own_imp st cls (l_init_sel st);
     cxx \<leftarrow> own_imp st cls (l_cxx_destruct_sel st);
     let st = (if l_value_object_class st = nullptr
               then st\<lparr>l_value_object_class := sf_loader_class_lookup_unlocked (l_map st) (Some ''ValueObject'')\<rparr>
               else st);
     value \<leftarrow> (if l_value_object_class st \<noteq> nullptr
               then sf_class_is_subclass_of_unlocked (l_classes st) cls (l_value_object_class st) else Some False);
     (base_dealloc, st) \<leftarrow> sf_object_dealloc_imp_unlocked st;
     Some (st\<lparr>l_meta := (l_meta st)(slot := class_meta_entry cls c total_count offsets (dealloc, alloc, init, cxx) value base_dealloc),
              l_last_meta_cls := cls, l_last_meta_entry := Some slot\<rparr>)
   }"

text \<open>The recursion through \<open>sf_class_meta_require\<close> for the superclass is written in place.\<close>

partial_function (option) sf_cache_class_meta :: "loader \<Rightarrow> addr \<Rightarrow> loader option" where
  "sf_cache_class_meta st cls =
     (case class_meta_slot_for (l_meta st) cls of None \<Rightarrow> Some st
      | Some slot \<Rightarrow> Option.bind (l_classes st cls) (\<lambda>c.
          Option.bind
            (if superclass c \<noteq> nullptr \<and> superclass c \<noteq> cls
             then (case sf_class_meta_for st (superclass c) of (meta, st1) \<Rightarrow>
                     if meta \<noteq> None then Some (meta, st1)
                     else Option.bind (sf_cache_class_meta st1 (superclass c))
                            (\<lambda>st2. Some (sf_class_meta_for st2 (superclass c))))
             else Some (None, st))
            (\<lambda>(super_meta, st1). store_class_meta slot cls c super_meta st1)))"

definition sf_class_meta_require :: "loader \<Rightarrow> addr \<Rightarrow> (SFClassMetaEntry option \<times> loader) option" where
  "sf_class_meta_require st cls =
     (case sf_class_meta_for st cls of (meta, st1) \<Rightarrow>
        Option.bind
          (if meta = None \<and> cls \<noteq> nullptr
           then map_option (\<lambda>st2. sf_class_meta_for st2 cls) (sf_cache_class_meta st1 cls)
           else Some (meta, st1))
          (\<lambda>(meta, st2). Some (map_option (l_meta st2) meta, st2)))"

definition sf_class_meta_to_object_flags :: "SFClassMetaEntry option \<Rightarrow> u32" where
  "sf_class_meta_to_object_flags meta = (case meta of None \<Rightarrow> 0 | Some e \<Rightarrow> mt_object_flags e)"

section \<open>Cached facts\<close>

definition sf_class_cached_dealloc_imp :: "loader \<Rightarrow> addr \<Rightarrow> (addr \<times> loader) option" where
  "sf_class_cached_dealloc_imp st cls = do {
     (meta, st) \<leftarrow> sf_class_meta_require st cls;
     Some (case meta of None \<Rightarrow> nullptr | Some e \<Rightarrow> dealloc_imp e, st) }"

definition sf_class_cached_alloc_imp :: "loader \<Rightarrow> addr \<Rightarrow> (addr \<times> loader) option" where
  "sf_class_cached_alloc_imp st cls = do {
     (meta, st) \<leftarrow> sf_class_meta_require st cls;
     Some (case meta of None \<Rightarrow> nullptr | Some e \<Rightarrow> alloc_imp e, st) }"

definition sf_class_cached_init_imp :: "loader \<Rightarrow> addr \<Rightarrow> (addr \<times> loader) option" where
  "sf_class_cached_init_imp st cls = do {
     (meta, st) \<leftarrow> sf_class_meta_require st cls;
     Some (case meta of None \<Rightarrow> nullptr | Some e \<Rightarrow> init_imp e, st) }"

definition sf_class_cached_cxx_destruct_imp :: "loader \<Rightarrow> addr \<Rightarrow> (addr \<times> loader) option" where
  "sf_class_cached_cxx_destruct_imp st cls = do {
     (meta, st) \<leftarrow> sf_class_meta_require st cls;
     Some (case meta of None \<Rightarrow> nullptr | Some e \<Rightarrow> cxx_destruct_imp e, st) }"

text \<open>The array and the count; \<open>None\<close> is the null array.\<close>

definition sf_class_cached_object_ivar_offsets :: "loader \<Rightarrow> addr \<Rightarrow> ((u32 list option \<times> nat) \<times> loader) option" where
  "sf_class_cached_object_ivar_offsets st cls = do {
     (meta, st) \<leftarrow> sf_class_meta_require st cls;
     Some (case meta of None \<Rightarrow> (None, 0) | Some e \<Rightarrow> (strong_ivar_offsets e, unat (strong_ivar_count e)), st) }"

definition sf_class_has_trivial_release :: "loader \<Rightarrow> addr \<Rightarrow> (bool \<times> loader) option" where
  "sf_class_has_trivial_release st cls = do {
     (meta, st) \<leftarrow> sf_class_meta_require st cls;
     Some (case meta of None \<Rightarrow> False
           | Some e \<Rightarrow> mt_object_flags e AND SF_OBJ_CLASS_FLAG_TRIVIAL_RELEASE \<noteq> 0, st) }"

definition sf_class_cached_object_flags :: "loader \<Rightarrow> addr \<Rightarrow> (u32 \<times> loader) option" where
  "sf_class_cached_object_flags st cls = do {
     (meta, st) \<leftarrow> sf_class_meta_require st cls;
     Some (sf_class_meta_to_object_flags meta, st) }"

definition sf_class_is_constant_string :: "loader \<Rightarrow> addr \<Rightarrow> bool" where
  "sf_class_is_constant_string st cls \<longleftrightarrow> cls \<noteq> nullptr \<and> (cls = l_constantstring_class st
     \<or> cls = l_nsconstantstring_class st \<or> cls = l_nxconstantstring_class st)"

section \<open>Resetting the caches\<close>

definition drop_dtable :: "addr \<Rightarrow> class_mem \<Rightarrow> class_mem option" where
  "drop_dtable cls m = map_option (\<lambda>c. m(cls \<mapsto> c\<lparr>c_dtable := None\<rparr>)) (m cls)"

definition reset_entry :: "class_map \<Rightarrow> nat \<Rightarrow> class_mem \<Rightarrow> class_mem option" where
  "reset_entry cmap i m =
     (let cls = entry_cls (cmap i) in
      if entry_name (cmap i) = None \<or> cls = nullptr then Some m
      else do {
        c \<leftarrow> m cls;
        if entry_name (cmap i) \<noteq> c_name c then Some m
        else do {
          m \<leftarrow> drop_dtable cls m;
          if isa c \<noteq> nullptr \<and> isa c \<noteq> cls then drop_dtable (isa c) m else Some m
        }
      })"

definition sf_reset_class_caches_unlocked :: "loader \<Rightarrow> loader option" where
  "sf_reset_class_caches_unlocked st = do {
     m \<leftarrow> fold_state (reset_entry (l_map st)) [0..<SF_CLASS_MAP_CAPACITY] (l_classes st);
     Some (st\<lparr>l_classes := m, l_fixed := (\<lambda>_. nullptr), l_active := [], l_value_slots := (\<lambda>_. empty_value_entry),
       l_meta := (\<lambda>_. empty_meta), l_object_dealloc_imp := nullptr, l_last_meta_cls := nullptr,
       l_last_meta_entry := None\<rparr>)
   }"

section \<open>Finalising and loading\<close>

definition cache_selectors :: "loader \<Rightarrow> loader" where
  "cache_selectors st = st\<lparr>
     l_dealloc_sel := sf_lookup_selector_named (l_sels st) (Some ''dealloc''),
     l_alloc_sel := sf_lookup_selector_named (l_sels st) (Some ''allocWithAllocator:''),
     l_init_sel := sf_lookup_selector_named (l_sels st) (Some ''init''),
     l_forwarding_target_sel := sf_lookup_selector_named (l_sels st) (Some ''forwardingTargetForSelector:''),
     l_cxx_destruct_sel := sf_lookup_selector_named (l_sels st) (Some ''.cxx_destruct'')\<rparr>"

definition cache_classes :: "loader \<Rightarrow> loader" where
  "cache_classes st = st\<lparr>
     l_object_class := sf_loader_class_lookup_unlocked (l_map st) (Some ''Object''),
     l_value_object_class := sf_loader_class_lookup_unlocked (l_map st) (Some ''ValueObject''),
     l_constantstring_class := sf_loader_class_lookup_unlocked (l_map st) (Some ''ConstantString''),
     l_nsconstantstring_class := sf_loader_class_lookup_unlocked (l_map st) (Some ''NSConstantString''),
     l_nxconstantstring_class := sf_loader_class_lookup_unlocked (l_map st) (Some ''NXConstantString'')\<rparr>"

definition sf_register_builtin_class_cache :: "loader \<Rightarrow> loader option" where
  "sf_register_builtin_class_cache st =
     (let st = cache_classes (cache_selectors st) in
      if l_object_class st \<noteq> nullptr \<and> l_dealloc_sel st \<noteq> nullptr
      then map_option (\<lambda>imp. st\<lparr>l_object_dealloc_imp := imp\<rparr>)
             (sf_lookup_method_imp_exact (l_classes st) (l_object_class st) (l_dealloc_sel st))
      else Some (st\<lparr>l_object_dealloc_imp := nullptr\<rparr>))"

text \<open>The guard of the loops over the class map: the class of an entry that has a name, a class and a
  metaclass.\<close>

definition usable_entry :: "loader \<Rightarrow> nat \<Rightarrow> (addr \<times> addr) option option" where
  "usable_entry st i =
     (let cls = entry_cls (l_map st i) in
      if entry_name (l_map st i) = None \<or> cls = nullptr then Some None
      else case l_classes st cls of None \<Rightarrow> None
           | Some c \<Rightarrow> Some (if isa c = nullptr then None else Some (cls, isa c)))"

text \<open>First loop: layout, selectors, and the superclass of the metaclass.\<close>

definition finalize_layout_entry :: "nat \<Rightarrow> loader \<Rightarrow> loader option" where
  "finalize_layout_entry i st = do {
     entry \<leftarrow> usable_entry st i;
     case entry of None \<Rightarrow> Some st
     | Some (cls, meta) \<Rightarrow> do {
         (_, st) \<leftarrow> sf_fix_class_layout st cls;
         m \<leftarrow> sf_canonicalize_method_selectors (l_sels st) (l_classes st) cls;
         m \<leftarrow> sf_canonicalize_method_selectors (l_sels st) m meta;
         c \<leftarrow> m cls;
         meta_super \<leftarrow> (if superclass c \<noteq> nullptr
                       then map_option (\<lambda>s. if isa s \<noteq> nullptr then isa s else cls) (m (superclass c)) else Some cls);
         k \<leftarrow> m meta;
         Some (st\<lparr>l_classes := m(meta \<mapsto> k\<lparr>superclass := meta_super\<rparr>)\<rparr>)
       }
   }"

text \<open>Second loop: dispatch tables; \<open>ok\<close> says for which classes their allocation succeeds.\<close>

definition finalize_dtable_entry :: "(addr \<Rightarrow> bool) \<Rightarrow> nat \<Rightarrow> loader \<Rightarrow> loader option" where
  "finalize_dtable_entry ok i st = do {
     entry \<leftarrow> usable_entry st i;
     case entry of None \<Rightarrow> Some st
     | Some (cls, meta) \<Rightarrow> do {
         m \<leftarrow> sf_build_class_dtable_unlocked (l_sels st) ok (l_classes st) cls;
         m \<leftarrow> sf_build_class_dtable_unlocked (l_sels st) ok m meta;
         Some (st\<lparr>l_classes := m\<rparr>)
       }
   }"

text \<open>Third loop: metadata.\<close>

definition finalize_meta_entry :: "nat \<Rightarrow> loader \<Rightarrow> loader option" where
  "finalize_meta_entry i st = do {
     entry \<leftarrow> usable_entry st i;
     case entry of None \<Rightarrow> Some st
     | Some (cls, meta) \<Rightarrow> do {
         st \<leftarrow> sf_cache_class_meta st cls;
         sf_cache_class_meta st meta
       }
   }"

text \<open>What the registration of tagged-pointer classes reads of the loader; \<open>ask\<close> is the class's own
  \<open>taggedPointerSlot\<close> method.\<close>

definition tagged_env_of :: "(addr \<Rightarrow> addr \<Rightarrow> u64) \<Rightarrow> loader \<Rightarrow> tagged_env" where
  "tagged_env_of ask_slot st = \<lparr>object_class = l_object_class st, slot_sel = l_tagged_pointer_slot_sel st,
     is_value_object = (\<lambda>cls. case sf_class_is_value_object_unlocked st cls of None \<Rightarrow> False | Some (v, _) \<Rightarrow> v),
     slot_imp_of = (\<lambda>meta. case sf_lookup_method_imp_exact (l_classes st) meta (l_tagged_pointer_slot_sel st) of
                             None \<Rightarrow> nullptr | Some imp \<Rightarrow> imp),
     ask = ask_slot\<rparr>"

definition sf_finalize_registered_classes ::
  "(addr \<Rightarrow> bool) \<Rightarrow> (addr \<Rightarrow> addr \<Rightarrow> u64) \<Rightarrow> loader \<Rightarrow> loader option" where
  "sf_finalize_registered_classes ok ask_slot st = do {
     st \<leftarrow> sf_reset_class_caches_unlocked st;
     (sels, m) \<leftarrow> sf_rebuild_frozen_selectors_unlocked (l_classes st) (l_map st) (l_sels st);
     let st = cache_selectors (st\<lparr>l_sels := sels, l_classes := m\<rparr>);
     let st = st\<lparr>l_tagged_pointer_slot_sel := sf_lookup_selector_named (l_sels st) (Some ''taggedPointerSlot'')\<rparr>;
     let st = cache_classes st;
     st \<leftarrow> fold_state finalize_layout_entry [0..<SF_CLASS_MAP_CAPACITY] st;
     st \<leftarrow> fold_state (finalize_dtable_entry ok) [0..<SF_CLASS_MAP_CAPACITY] st;
     (imp, st) \<leftarrow> sf_object_dealloc_imp_unlocked st;
     let st = st\<lparr>l_object_dealloc_imp := imp\<rparr>;
     st \<leftarrow> fold_state finalize_meta_entry [0..<SF_CLASS_MAP_CAPACITY] st;
     tags \<leftarrow> sf_rebuild_tagged_pointer_class_map_unlocked (tagged_env_of ask_slot st) (l_classes st) (l_map st) (l_tags st);
     sf_register_builtin_class_cache (st\<lparr>l_tags := tags\<rparr>)
   }"

text \<open>The sections of a module.\<close>

record SFObjCInit =
  selectors_start :: addr
  selectors_stop :: addr
  init_classes :: "addr list"
  init_aliases :: "SFObjCAliasEntry list"

definition objc_load :: "(addr \<Rightarrow> bool) \<Rightarrow> (addr \<Rightarrow> addr \<Rightarrow> u64) \<Rightarrow> loader \<Rightarrow> SFObjCInit option \<Rightarrow> loader option" where
  "objc_load ok ask_slot st init_ptr =
     (case init_ptr of None \<Rightarrow> Some st
      | Some init \<Rightarrow>
          (let sels = sf_loader_register_selector_region (l_sels st) (selectors_start init) (selectors_stop init);
               cmap = sf_register_classes (\<lambda>cls. Option.bind (l_classes st cls) c_name) (l_map st) (init_classes init);
               cmap = sf_loader_register_class_aliases cmap (init_aliases init)
           in sf_finalize_registered_classes ok ask_slot (st\<lparr>l_sels := sels, l_map := cmap\<rparr>)))"

section \<open>What the metadata says\<close>

lemma next_array_fields: "next_array st = (ok, st') \<Longrightarrow> l_meta st' = l_meta st \<and> l_classes st' = l_classes st
    \<and> l_last_meta_cls st' = l_last_meta_cls st \<and> l_dealloc_sel st' = l_dealloc_sel st
    \<and> l_alloc_sel st' = l_alloc_sel st \<and> l_init_sel st' = l_init_sel st \<and> l_cxx_destruct_sel st' = l_cxx_destruct_sel st"
  by (auto simp: next_array_def split: list.splits)

lemma object_dealloc_imp_fields: "sf_object_dealloc_imp_unlocked st = Some (imp, st') \<Longrightarrow>
    l_meta st' = l_meta st \<and> l_classes st' = l_classes st"
  by (auto simp: sf_object_dealloc_imp_unlocked_def Let_def bind_eq_Some_conv split: if_splits)

text \<open>The entry that is stored, as far as its consumers depend on it.\<close>

definition meta_entry_ok :: "SFObjCClass \<Rightarrow> SFClassMetaEntry \<Rightarrow> bool" where
  "meta_entry_ok c e \<longleftrightarrow>
     total_alloc_size e = ucast (align_up (sizeof_SFObjHeader + ucast (mt_instance_size e)) sizeof_ptr)
     \<and> mt_instance_size e = ucast (sf_class_instance_size_fast (Some c))
     \<and> (case strong_ivar_offsets e of
          None \<Rightarrow> strong_ivar_count e = 0
        | Some os \<Rightarrow> strong_ivar_count e = of_nat (length os)
                    \<and> (\<exists>inherited. os = inherited @ sf_collect_object_ivar_offsets (c_ivars c)))
     \<and> (mt_object_flags e AND SF_OBJ_CLASS_FLAG_TRIVIAL_RELEASE \<noteq> 0 \<longrightarrow>
          cxx_destruct_imp e = nullptr \<and> sf_count_object_ivars_in_list (c_ivars c) = 0 \<and> strong_ivar_offsets e = None)
     \<and> (sf_count_object_ivars_in_list (c_ivars c) > 0 \<longrightarrow>
          mt_object_flags e AND SF_OBJ_CLASS_FLAG_HAS_OBJECT_IVARS \<noteq> 0)"

lemma class_meta_entry_ok:
  assumes "offsets \<noteq> None \<Longrightarrow> cnt > 0" "sf_count_object_ivars_in_list (c_ivars c) \<le> cnt"
    and "\<And>os. offsets = Some os \<Longrightarrow> \<exists>inherited. os = inherited @ sf_collect_object_ivar_offsets (c_ivars c)"
  shows "meta_entry_ok c (class_meta_entry cls c cnt offsets imps value base_dealloc)"
  using assms
  by (cases imps; cases offsets) (auto simp: meta_entry_ok_def class_meta_entry_def Let_def abi_consts split: if_splits)

lemma store_class_meta_entry:
  assumes "store_class_meta slot cls c super_meta st = Some st'"
  shows "\<exists>e. l_meta st' = (l_meta st)(slot := e) \<and> l_classes st' = l_classes st
    \<and> l_last_meta_cls st' = cls \<and> l_last_meta_entry st' = Some slot
    \<and> mt_cls e = cls \<and> meta_entry_ok c e"
proof -
  define super_entry where "super_entry = map_option (l_meta st) super_meta"
  define cnt where "cnt = (case super_entry of None \<Rightarrow> 0 | Some e \<Rightarrow> unat (strong_ivar_count e))
    + sf_count_object_ivars_in_list (c_ivars c)"
  obtain ok st1 where a: "(if cnt > 0 then next_array st else (False, st)) = (ok, st1)" by fastforce
  have f1: "l_meta st1 = l_meta st" "l_classes st1 = l_classes st"
    using a by (auto split: if_splits dest: next_array_fields)
  define offsets where "offsets = (if ok then Some (inherited_offsets super_entry @ sf_collect_object_ivar_offsets (c_ivars c)) else None)"
  have ok0: "offsets \<noteq> None \<Longrightarrow> cnt > 0" using a by (auto simp: offsets_def split: if_splits)
  define st2 where "st2 = (if l_value_object_class st1 = nullptr
    then st1\<lparr>l_value_object_class := sf_loader_class_lookup_unlocked (l_map st1) (Some ''ValueObject'')\<rparr> else st1)"
  have f2: "l_meta st2 = l_meta st" "l_classes st2 = l_classes st" by (simp_all add: st2_def f1)
  from assms [unfolded store_class_meta_def Let_def, folded super_entry_def, folded cnt_def,
      unfolded a prod.case, folded offsets_def st2_def]
  obtain dealloc alloc init cxx val base st3 where
    "sf_object_dealloc_imp_unlocked st2 = Some (base, st3)"
    "st' = st3\<lparr>l_meta := (l_meta st3)(slot := class_meta_entry cls c cnt offsets (dealloc, alloc, init, cxx) val base),
       l_last_meta_cls := cls, l_last_meta_entry := Some slot\<rparr>"
    by (auto simp: bind_eq_Some_conv)
  moreover have "meta_entry_ok c (class_meta_entry cls c cnt offsets (dealloc, alloc, init, cxx) val base)"
    using ok0 by (intro class_meta_entry_ok) (auto simp: cnt_def offsets_def split: if_splits)
  moreover have "mt_cls (class_meta_entry cls c cnt offsets (dealloc, alloc, init, cxx) val base) = cls"
    by (simp add: class_meta_entry_def Let_def)
  ultimately show ?thesis
    using f2 by (auto dest!: object_dealloc_imp_fields)
qed

lemma cached_entry:
  assumes "sf_cache_class_meta st cls = Some st'" "l_classes st cls = Some c"
    and "class_meta_slot_for (l_meta st) cls = Some slot"
  shows "mt_cls (l_meta st' slot) = cls \<and> meta_entry_ok c (l_meta st' slot)
    \<and> l_last_meta_cls st' = cls \<and> l_last_meta_entry st' = Some slot"
proof -
  obtain super_meta st1 where "store_class_meta slot cls c super_meta st1 = Some st'"
    using assms by (subst (asm) sf_cache_class_meta.simps) (auto simp: bind_eq_Some_conv split: if_splits prod.splits)
  from store_class_meta_entry [OF this] show ?thesis by auto
qed



section \<open>Examples\<close>

text \<open>Two classes whose addresses hash to the same slot.\<close>

definition demo_collision :: loader where
  "demo_collision = empty_loader [0x790 \<mapsto> class_demo 0 0, 0xE60 \<mapsto> class_demo 0 0x790]"

lemma empty_meta_slot: "class_meta_slot_for (\<lambda>_. empty_meta) cls = Some (probe_index SF_CLASS_META_CAPACITY (hash_ptr_local cls) 0)"
  by (subst class_meta_slot_for_def, subst probe.simps) (simp add: empty_meta_def SF_CLASS_META_CAPACITY_def)

lemma demo_collision_slots:
  "class_meta_slot_for (\<lambda>_. empty_meta) 0xE60 = Some 6758" "class_meta_slot_for (\<lambda>_. empty_meta) 0x790 = Some 6758"
  by (simp_all add: empty_meta_slot hash_ptr_local_def Let_def probe_index_def SF_CLASS_META_CAPACITY_def)

text \<open>A loader without selectors and named classes, as it is before the first module.\<close>

definition bare :: "loader \<Rightarrow> bool" where
  "bare st \<longleftrightarrow> l_map st = empty_class_map \<and> l_value_object_class st = nullptr \<and> l_object_class st = nullptr
    \<and> l_dealloc_sel st = nullptr \<and> l_alloc_sel st = nullptr \<and> l_init_sel st = nullptr \<and> l_cxx_destruct_sel st = nullptr"

lemma bare_store:
  assumes "bare st" "c_ivars c = []" "\<And>i. sm = Some i \<Longrightarrow> strong_ivar_count (l_meta st i) = 0"
  shows "store_class_meta slot cls c sm st = Some (st\<lparr>l_meta := (l_meta st)(slot :=
      class_meta_entry cls c 0 None (nullptr, nullptr, nullptr, nullptr) False (l_object_dealloc_imp st)),
    l_last_meta_cls := cls, l_last_meta_entry := Some slot\<rparr>)"
  using assms
  by (cases sm) (simp_all add: bare_def store_class_meta_def own_imp_def sf_object_dealloc_imp_unlocked_def empty_class_map_lookup)

lemma bare_cache_root:
  assumes "bare st" "class_meta_slot_for (l_meta st) cls = Some slot" "l_classes st cls = Some c"
    "superclass c = nullptr" "c_ivars c = []"
  shows "sf_cache_class_meta st cls = Some (st\<lparr>l_meta := (l_meta st)(slot :=
      class_meta_entry cls c 0 None (nullptr, nullptr, nullptr, nullptr) False (l_object_dealloc_imp st)),
    l_last_meta_cls := cls, l_last_meta_entry := Some slot\<rparr>)"
  using assms bare_store [OF assms(1,5), of None] by (subst sf_cache_class_meta.simps) simp

lemma demo_collision_facts:
  "bare demo_collision" "class_meta_slot_for (l_meta demo_collision) 0xE60 = Some 6758"
  "class_meta_slot_for (l_meta demo_collision) 0x790 = Some 6758"
  "l_classes demo_collision 0xE60 = Some (class_demo 0 0x790)" "l_classes demo_collision 0x790 = Some (class_demo 0 0)"
  "l_last_meta_cls demo_collision = 0" "mt_cls (l_meta demo_collision i) = 0"
  by (simp_all add: demo_collision_def empty_loader_def demo_collision_slots bare_def) (simp add: empty_meta_def)

lemma class_demo_fields: "superclass (class_demo i s) = s" "c_ivars (class_demo i s) = []"
  by (simp_all add: class_demo_def)



section \<open>Loading a second module\<close>

text \<open>The layout of a root class with one ivar that holds no object.\<close>

lemma layout_plain_root:
  assumes "cls \<noteq> nullptr" "l_classes st cls = Some c" "superclass c = nullptr" "c_ivars c = [iv]"
    and "iv_offset iv = Some off" "iv_size iv = 8" "iv_type iv = Some ''q''" "adjusted_offset off 8 \<noteq> INT32_MAX"
    and "\<not> layout_fixed_contains (l_fixed st) cls" "l_active st = []"
    and "scast (adjusted_offset off 8) + 8 > (8 :: u64)" "\<not> align_up (scast (adjusted_offset off 8) + 8) 8 < (8 :: u64)"
  shows "sf_fix_class_layout st cls = Some (align_up (scast (adjusted_offset off 8) + 8) 8,
    st\<lparr>l_classes := (l_classes st)(cls \<mapsto> c\<lparr>c_ivars := [iv\<lparr>iv_offset := Some (adjusted_offset off 8)\<rparr>],
         instance_size := align_up (scast (adjusted_offset off 8) + 8) 8\<rparr>),
       l_value_slots := sf_set_value_slots_for_class_unlocked (l_value_slots st) cls [] False,
       l_fixed := layout_fixed_insert (l_fixed st) cls\<rparr>)"
proof -
  have "sf_fix_class_layout st cls = layout_step (layout_levels SF_CLASS_MAP_CAPACITY) st cls"
    by (simp add: sf_fix_class_layout_def)
  then show ?thesis
    using assms
    by (simp add: layout_step_def layout_active_contains_def layout_active_push_def SF_CLASS_MAP_CAPACITY_def Let_def
        ivar_step_def value_ivar_step_def sf_loader_local_ivar_offset_unlocked_def sf_extract_object_class_name_def
        final_layout_def layout_active_pop_def upt_conv_Cons)
qed

lemma reset_no_entries: "fold_state (reset_entry empty_class_map) is m = Some m"
  by (induction "is") (simp_all add: reset_entry_def empty_class_map_def)

lemma fixed_contains_empty: "cls \<noteq> nullptr \<Longrightarrow> \<not> layout_fixed_contains (\<lambda>_. nullptr) cls"
  by (auto simp: layout_fixed_contains_def split: option.splits)

definition ivar_offsets_of :: "loader \<Rightarrow> addr \<Rightarrow> 32 word option list" where
  "ivar_offsets_of st cls = (case l_classes st cls of None \<Rightarrow> [] | Some c \<Rightarrow> map iv_offset (c_ivars c))"


end
