(* ===== verification/SF_Objects.thy ===== *)
theory SF_Objects
  imports SF_Header SF_Load
begin

unbundle bit_operations_syntax

text \<open>
  Live objects and their allocation (\<open>Runtime/src/loader.c\<close>, with \<open>SF_RUNTIME_VALIDATION\<close>): the
  hash table of live headers, which decides what is an object, and the three ways an object comes to
  be: on its own, as a member of the group of its parent, or in a value slot of its parent.

  A block handed out by an allocator is zero when the header is set up, by \<open>memset\<close> or because the
  allocator promises it; in the typed memory all headers and words inside it then read as zero.  A
  freed block is unmapped, so an access to it is a fault.
\<close>

section \<open>The table of live headers\<close>

definition SF_LIVE_OBJECT_BUCKETS :: nat where "SF_LIVE_OBJECT_BUCKETS = 8192"

definition live_object_bucket_index :: "addr \<Rightarrow> nat" where
  "live_object_bucket_index obj = unat (hash_ptr_local obj AND 8191)"

definition sf_register_live_object_header :: "objects \<Rightarrow> addr \<Rightarrow> objects option" where
  "sf_register_live_object_header st hdr =
     (if hdr = nullptr then Some st
      else let bucket = live_object_bucket_index (sf_header_object hdr) in do {
        st \<leftarrow> sf_header_set_live_next st hdr (o_buckets st bucket);
        Some (st\<lparr>o_buckets := (o_buckets st)(bucket := hdr)\<rparr>)
      })"

text \<open>The loop of the removal, at \<open>current\<close> with the header before it in \<open>prev\<close>.\<close>

partial_function (option) unregister_loop :: "objects \<Rightarrow> addr \<Rightarrow> nat \<Rightarrow> addr \<Rightarrow> addr \<Rightarrow> objects option" where
  "unregister_loop st hdr bucket prev current =
     (if current = nullptr then Some st
      else if current = hdr then
        Option.bind (sf_header_live_next st hdr) (\<lambda>nxt.
        Option.bind (if prev = nullptr then Some (st\<lparr>o_buckets := (o_buckets st)(bucket := nxt)\<rparr>)
                     else sf_header_set_live_next st prev nxt) (\<lambda>st.
        sf_header_set_live_next st hdr nullptr))
      else Option.bind (sf_header_live_next st current) (\<lambda>nxt. unregister_loop st hdr bucket current nxt))"

declare unregister_loop.simps [code]

definition sf_unregister_live_object_header :: "objects \<Rightarrow> addr \<Rightarrow> objects option" where
  "sf_unregister_live_object_header st hdr =
     (if hdr = nullptr then Some st
      else let bucket = live_object_bucket_index (sf_header_object hdr) in
        unregister_loop st hdr bucket nullptr (o_buckets st bucket))"

partial_function (option) live_search :: "objects \<Rightarrow> addr \<Rightarrow> addr \<Rightarrow> addr option" where
  "live_search st obj hdr =
     (if hdr = nullptr then Some nullptr
      else if hdr + sizeof_SFObjHeader = obj then Some hdr
      else Option.bind (sf_header_live_next st hdr) (live_search st obj))"

declare live_search.simps [code]

definition sf_header_from_object :: "objects \<Rightarrow> addr \<Rightarrow> addr option" where
  "sf_header_from_object st obj =
     (if obj = nullptr \<or> sf_is_tagged_pointer obj then Some nullptr
      else live_search st obj (o_buckets st (live_object_bucket_index obj)))"

definition sf_object_is_heap :: "objects \<Rightarrow> addr \<Rightarrow> bool option" where
  "sf_object_is_heap st obj =
     (if obj = nullptr \<or> sf_is_tagged_pointer obj then Some False
      else map_option (\<lambda>hdr. hdr \<noteq> nullptr) (sf_header_from_object st obj))"

section \<open>Allocation\<close>

definition zero_header :: SFObjHeader where
  "zero_header = \<lparr>magic = 0, live_next = 0, refcount = 0, state = 0, flags = 0, alloc_size = 0, reserved = 0,
     allocator = 0, parent = 0, group = 0, group_next = 0\<rparr>"

definition in_block :: "addr \<Rightarrow> u64 \<Rightarrow> addr \<Rightarrow> bool" where
  "in_block raw total_size a \<longleftrightarrow> a - raw < total_size"

definition zero_block :: "objects \<Rightarrow> addr \<Rightarrow> u64 \<Rightarrow> objects" where
  "zero_block st raw total_size = st\<lparr>
     o_hdrs := (\<lambda>a. if in_block raw total_size a then Some zero_header else o_hdrs st a),
     o_words := (\<lambda>a. if in_block raw total_size a then Some 0 else o_words st a)\<rparr>"

definition alloc_block :: "objects \<Rightarrow> addr \<times> objects" where
  "alloc_block st = (case o_allocs st of [] \<Rightarrow> (nullptr, st) | p # ps \<Rightarrow> (p, st\<lparr>o_allocs := ps\<rparr>))"

text \<open>\<open>allocator->free(ctx, block, total_size, align)\<close>\<close>

definition free_block :: "objects \<Rightarrow> addr \<Rightarrow> addr \<Rightarrow> u64 \<Rightarrow> objects" where
  "free_block st a raw total_size = st\<lparr>
     o_hdrs := (\<lambda>p. if in_block raw total_size p then None else o_hdrs st p),
     o_words := (\<lambda>p. if in_block raw total_size p then None else o_words st p),
     o_frees := (a, raw, total_size) # o_frees st\<rparr>"

text \<open>The header \<open>sf_init_allocated_header\<close> leaves in a zeroed block.\<close>

definition initial_header :: "u64 \<Rightarrow> addr \<Rightarrow> u32 \<Rightarrow> SFObjHeader option" where
  "initial_header total_size use_allocator class_flags =
     map_option (\<lambda>h. h\<lparr>allocator := use_allocator\<rparr>)
       (sf_header_set_live_cookie (sf_header_set_aux_flags (sf_header_set_class_flags
          (Some (zero_header\<lparr>magic := SF_OBJ_HEADER_MAGIC, live_next := nullptr, refcount := 1,
             state := SF_OBJ_STATE_LIVE, flags := SF_OBJ_FLAG_NONE, alloc_size := ucast total_size\<rparr>)) class_flags) 0))"

definition sf_init_allocated_header :: "objects \<Rightarrow> addr \<Rightarrow> u64 \<Rightarrow> addr \<Rightarrow> u32 \<Rightarrow> objects" where
  "sf_init_allocated_header st raw total_size a class_flags =
     (let use_allocator = (if a \<noteq> nullptr then a else o_default_allocator st);
          st = zero_block st raw total_size
      in st\<lparr>o_hdrs := (o_hdrs st)(raw := initial_header total_size use_allocator class_flags)\<rparr>)"

definition sf_finish_object_alloc :: "objects \<Rightarrow> addr \<Rightarrow> addr \<Rightarrow> addr \<times> objects" where
  "sf_finish_object_alloc st cls hdr =
     (let obj = sf_header_object hdr in (obj, st\<lparr>o_words := (o_words st)(obj \<mapsto> cls)\<rparr>))"

definition sf_object_total_size :: "loader \<Rightarrow> addr \<Rightarrow> (u64 \<times> loader) option" where
  "sf_object_total_size ld cls = do {
     (meta, ld) \<leftarrow> sf_class_meta_require ld cls;
     case meta of
       Some e \<Rightarrow> if total_alloc_size e \<noteq> 0 then Some (ucast (total_alloc_size e), ld)
                 else Some (sizeof_SFObjHeader + sf_class_instance_size_fast (l_classes ld cls), ld)
     | None \<Rightarrow> Some (sizeof_SFObjHeader + sf_class_instance_size_fast (l_classes ld cls), ld)
   }"

definition alloc_total_size :: "loader \<Rightarrow> SFClassMetaEntry option \<Rightarrow> addr \<Rightarrow> (u64 \<times> loader) option" where
  "alloc_total_size ld meta cls =
     (case meta of
        Some e \<Rightarrow> if total_alloc_size e \<noteq> 0 then Some (ucast (total_alloc_size e), ld) else sf_object_total_size ld cls
      | None \<Rightarrow> sf_object_total_size ld cls)"

definition sf_value_slot_is_compatible :: "loader \<Rightarrow> SFValueSlot \<Rightarrow> addr \<Rightarrow> u64 \<Rightarrow> bool option" where
  "sf_value_slot_is_compatible ld slot cls required =
     (if declared_cls slot = nullptr \<or> cls = nullptr then Some False
      else if required > ucast (storage_size slot) then Some False
      else if declared_cls slot = cls then Some True
      else sf_class_is_subclass_of_unlocked (l_classes ld) cls (declared_cls slot))"

text \<open>The loop over the value slots of the parent.\<close>

fun alloc_in_slots ::
  "loader \<Rightarrow> objects \<Rightarrow> addr \<Rightarrow> u32 \<Rightarrow> addr \<Rightarrow> addr \<Rightarrow> u64 \<Rightarrow> SFValueSlot list \<Rightarrow> (addr \<times> objects) option" where
  "alloc_in_slots ld st cls oflags par a required [] = Some (nullptr, st)"
| "alloc_in_slots ld st cls oflags par a required (slot # slots) =
     (case sf_value_slot_is_compatible ld slot cls required of None \<Rightarrow> None
      | Some False \<Rightarrow> alloc_in_slots ld st cls oflags par a required slots
      | Some True \<Rightarrow>
          (let owner_slot = par + ucast (owner_offset slot); hdr = par + ucast (storage_offset slot) in
           case o_words st owner_slot of None \<Rightarrow> None
           | Some owned \<Rightarrow>
               if owned \<noteq> nullptr then alloc_in_slots ld st cls oflags par a required slots
               else case o_hdrs st hdr of None \<Rightarrow> None
               | Some h \<Rightarrow>
                   if state h = SF_OBJ_STATE_LIVE then alloc_in_slots ld st cls oflags par a required slots
                   else do {
                     let st = sf_init_allocated_header st hdr (ucast (storage_size slot)) a oflags;
                     st \<leftarrow> write_hdr st hdr (\<lambda>h. h\<lparr>flags := flags h OR SF_OBJ_FLAG_EMBEDDED, reserved := owner_offset slot\<rparr>);
                     (ok, st) \<leftarrow> sf_header_set_parent st hdr par;
                     if \<not> ok then Some (nullptr, st)
                     else do {
                       let (obj, st) = sf_finish_object_alloc st cls hdr;
                       st \<leftarrow> sf_register_live_object_header st hdr;
                       Some (obj, st\<lparr>o_words := (o_words st)(owner_slot \<mapsto> obj)\<rparr>)
                     }
                   }))"

definition sf_alloc_embedded_value_object ::
  "loader \<Rightarrow> objects \<Rightarrow> addr \<Rightarrow> SFClassMetaEntry option \<Rightarrow> addr \<Rightarrow> addr \<Rightarrow> (addr \<times> objects) option" where
  "sf_alloc_embedded_value_object ld st cls meta par a = do {
     parent_cls \<leftarrow> sf_object_class (l_tags ld) (o_words st) par;
     let required = sf_embedded_value_storage_size
       (case meta of Some e \<Rightarrow> ucast (mt_instance_size e) | None \<Rightarrow> sf_class_instance_size_fast (l_classes ld cls));
     alloc_in_slots ld st cls (sf_class_meta_to_object_flags meta) par a required
       (sf_value_slots_for_class (l_value_slots ld) parent_cls)
   }"

text \<open>The chain of \<open>linked = linked and ...\<close> steps that makes a header a member of the group of \<open>root\<close>.\<close>

definition link_member :: "objects \<Rightarrow> addr \<Rightarrow> addr \<Rightarrow> addr \<Rightarrow> (bool \<times> objects) option" where
  "link_member st hdr par root = do {
     (linked, st) \<leftarrow> sf_header_set_parent st hdr par;
     (linked, st) \<leftarrow> (if linked then sf_header_set_group_root st hdr root else Some (False, st));
     (linked, st) \<leftarrow> (if linked then do { head \<leftarrow> sf_header_group_head st root; sf_header_set_group_next st hdr head }
                      else Some (False, st));
     (linked, st) \<leftarrow> (if linked then sf_header_set_group_head st root hdr else Some (False, st));
     if linked then do { count \<leftarrow> sf_header_group_live_count st root; sf_header_set_group_live_count st root (count + 1) }
     else Some (False, st)
   }"

definition sf_alloc_heap_child_object ::
  "objects \<Rightarrow> addr \<Rightarrow> u64 \<Rightarrow> u32 \<Rightarrow> addr \<Rightarrow> addr \<Rightarrow> (addr \<times> objects) option" where
  "sf_alloc_heap_child_object st cls total_size oflags par parent_hdr = do {
     root \<leftarrow> sf_header_group_root st parent_hdr;
     (ready, st) \<leftarrow> (if root = nullptr then Some (False, st) else sf_header_init_group_root st root);
     grouped \<leftarrow> (if ready then sf_header_grouped st root else Some False);
     if \<not> grouped then Some (nullptr, st)
     else do {
       a \<leftarrow> sf_header_allocator st root;
       let use_allocator = (if a = nullptr then o_default_allocator st else a);
       lock \<leftarrow> sf_header_group_lock st root;
       if lock = nullptr then Some (nullptr, st)
       else do {
         p \<leftarrow> o_hdrs st parent_hdr;
         dead \<leftarrow> sf_header_group_dead st root;
         count \<leftarrow> sf_header_group_live_count st root;
         if state p \<noteq> SF_OBJ_STATE_LIVE \<or> dead \<or> count = 0 then Some (nullptr, st)
         else let (raw, st) = alloc_block st in
           if raw = nullptr then Some (nullptr, st)
           else do {
             let st = sf_init_allocated_header st raw total_size use_allocator oflags;
             (linked, st) \<leftarrow> link_member st raw par root;
             if \<not> linked then do {
               st \<leftarrow> sf_header_destroy_sidecar st raw False;
               Some (nullptr, free_block st use_allocator raw total_size)
             }
             else do {
               st \<leftarrow> sf_register_live_object_header st raw;
               Some (sf_finish_object_alloc st cls raw)
             }
           }
       }
     }
   }"

definition sf_alloc_object :: "loader \<Rightarrow> objects \<Rightarrow> addr \<Rightarrow> addr \<Rightarrow> (addr \<times> loader \<times> objects) option" where
  "sf_alloc_object ld st cls a =
     (if cls = nullptr then Some (nullptr, ld, st)
      else do {
        (meta, ld) \<leftarrow> sf_class_meta_require ld cls;
        (total_size, ld) \<leftarrow> alloc_total_size ld meta cls;
        let use_allocator = (if a \<noteq> nullptr then a else o_default_allocator st);
        let (raw, st) = alloc_block st;
        if raw = nullptr then Some (nullptr, ld, st)
        else do {
          let st = sf_init_allocated_header st raw total_size use_allocator (sf_class_meta_to_object_flags meta);
          st \<leftarrow> sf_register_live_object_header st raw;
          let (obj, st) = sf_finish_object_alloc st cls raw;
          Some (obj, ld, st)
        }
      })"

definition sf_alloc_object_with_parent ::
  "loader \<Rightarrow> objects \<Rightarrow> addr \<Rightarrow> addr \<Rightarrow> (addr \<times> loader \<times> objects) option" where
  "sf_alloc_object_with_parent ld st cls par =
     (if cls = nullptr then Some (nullptr, ld, st)
      else do {
        (meta, ld) \<leftarrow> sf_class_meta_require ld cls;
        if par = nullptr then sf_alloc_object ld st cls nullptr
        else do {
          parent_hdr \<leftarrow> sf_header_from_object st par;
          if parent_hdr = nullptr then Some (nullptr, ld, st)
          else if (case meta of Some e \<Rightarrow> mt_flags e AND SF_CLASS_META_FLAG_VALUE_OBJECT \<noteq> 0 | None \<Rightarrow> False)
          then do {
            a \<leftarrow> sf_header_allocator st parent_hdr;
            p \<leftarrow> o_hdrs st parent_hdr;
            if state p \<noteq> SF_OBJ_STATE_LIVE then Some (nullptr, ld, st)
            else do {
              (obj, st) \<leftarrow> sf_alloc_embedded_value_object ld st cls meta par
                            (if a = nullptr then o_default_allocator st else a);
              Some (obj, ld, st)
            }
          }
          else do {
            (total_size, ld) \<leftarrow> alloc_total_size ld meta cls;
            (obj, st) \<leftarrow> sf_alloc_heap_child_object st cls total_size (sf_class_meta_to_object_flags meta) par parent_hdr;
            Some (obj, ld, st)
          }
        }
      })"

definition sf_object_allocation_size_for_object :: "loader \<Rightarrow> objects \<Rightarrow> addr \<Rightarrow> u64 option" where
  "sf_object_allocation_size_for_object ld st obj = do {
     hdr \<leftarrow> sf_header_from_object st obj;
     h \<leftarrow> (if hdr \<noteq> nullptr then o_hdrs st hdr else Some zero_header);
     if hdr \<noteq> nullptr \<and> alloc_size h \<noteq> 0 then Some (ucast (alloc_size h))
     else do {
       cls \<leftarrow> sf_object_class (l_tags ld) (o_words st) obj;
       Some (sizeof_SFObjHeader + sf_class_instance_size_fast (l_classes ld cls))
     }
   }"

end
