(* ===== verification/SF_Live.thy ===== *)
theory SF_Live
  imports SF_Objects
begin

unbundle bit_operations_syntax

text \<open>
  The hash table of live headers (\<open>Runtime/src/loader.c\<close>) against its specification.  In memory a
  bucket is a list linked through the \<open>live_next\<close> fields of the headers; abstractly the table is a
  \<open>bucket_table\<close> of header addresses, searched by object.  Registering and unregistering a header
  refine the operations of that table and touch nothing but \<open>live_next\<close> fields and bucket heads.
\<close>

section \<open>The lists in memory\<close>

definition live_links :: "objects \<Rightarrow> addr \<Rightarrow> addr option" where
  "live_links st a = map_option live_next (o_hdrs st a)"

definition live_key :: "addr \<Rightarrow> addr" where
  "live_key hdr = hdr + sizeof_SFObjHeader"

abbreviation live_inv :: "addr list list \<Rightarrow> bool" where
  "live_inv \<equiv> bt_inv SF_LIVE_OBJECT_BUCKETS live_object_bucket_index live_key"

abbreviation live_find :: "addr list list \<Rightarrow> addr \<Rightarrow> addr option" where
  "live_find \<equiv> bt_find live_object_bucket_index live_key"

definition live_rep :: "objects \<Rightarrow> addr list list \<Rightarrow> bool" where
  "live_rep st T \<longleftrightarrow> live_inv T
     \<and> (\<forall>b < SF_LIVE_OBJECT_BUCKETS. segment (live_links st) (o_buckets st b) (T ! b) nullptr)"

text \<open>The table is a bucket table.\<close>

interpretation livetab: bucket_table SF_LIVE_OBJECT_BUCKETS live_object_bucket_index live_key
proof
  fix k :: addr
  have "unat (hash_ptr_local k AND mask 13) < 2 ^ 13" by (simp add: unat_and_mask)
  then show "live_object_bucket_index k < SF_LIVE_OBJECT_BUCKETS"
    by (simp add: live_object_bucket_index_def SF_LIVE_OBJECT_BUCKETS_def mask_eq_exp_minus_1)
qed

lemma live_key_inj: "live_key a = live_key b \<longleftrightarrow> a = b"
  by (simp add: live_key_def)

lemma live_key_object: "hdr \<noteq> nullptr \<Longrightarrow> sf_header_object hdr = live_key hdr"
  by (simp add: live_key_def sf_header_object_def)

lemma live_find_key:
  assumes "live_inv T"
  shows "live_find T (live_key h) = (if h \<in> bt_entries T then Some h else None)"
proof (cases "h \<in> bt_entries T")
  case True
  then show ?thesis using livetab.find_iff [OF assms, of "live_key h" h] by simp
next
  case False
  then show ?thesis using livetab.find_None [OF assms, of "live_key h"] by (auto simp: live_key_inj)
qed

lemma live_entry_mapped:
  assumes "live_rep st T" "h \<in> bt_entries T"
  shows "h \<noteq> nullptr" "\<exists>d. o_hdrs st h = Some d"
proof -
  from assms obtain b where b: "b < SF_LIVE_OBJECT_BUCKETS" "h \<in> set (T ! b)"
    by (auto simp: live_rep_def bt_inv_def bt_entries_iff)
  with assms(1) have "segment (live_links st) (o_buckets st b) (T ! b) nullptr" by (simp add: live_rep_def)
  from segment_nonnull [OF this] segment_mapped [OF this] b(2)
  show "h \<noteq> nullptr" "\<exists>d. o_hdrs st h = Some d" by (auto simp: live_links_def)
qed

section \<open>Search\<close>

lemma live_search_segment:
  "segment (live_links st) p hs nullptr \<Longrightarrow>
     live_search st obj p = Some (case find (\<lambda>h. live_key h = obj) hs of None \<Rightarrow> nullptr | Some h \<Rightarrow> h)"
proof (induction hs arbitrary: p)
  case Nil
  then show ?case by (subst live_search.simps) simp
next
  case (Cons h hs)
  then obtain r where "p = h" "h \<noteq> nullptr" "live_links st h = Some r" "segment (live_links st) r hs nullptr"
    by (auto split: option.splits)
  moreover from this obtain d where "o_hdrs st h = Some d" "r = live_next d" by (auto simp: live_links_def)
  ultimately show ?case using Cons.IH
    by (subst live_search.simps) (simp add: live_key_def sf_header_live_next_def)
qed

lemma header_from_object_live:
  assumes "live_rep st T"
  shows "sf_header_from_object st obj =
    Some (if obj = nullptr \<or> sf_is_tagged_pointer obj then nullptr
          else case live_find T obj of None \<Rightarrow> nullptr | Some h \<Rightarrow> h)"
proof -
  have "segment (live_links st) (o_buckets st (live_object_bucket_index obj)) (T ! live_object_bucket_index obj) nullptr"
    using assms livetab.bucket_less by (simp add: live_rep_def)
  from live_search_segment [OF this] show ?thesis by (simp add: sf_header_from_object_def bt_find_def)
qed

section \<open>Register\<close>

text \<open>What is the same up to the lists of the table.\<close>

definition same_but_live :: "objects \<Rightarrow> objects \<Rightarrow> bool" where
  "same_but_live st st' \<longleftrightarrow>
     (\<forall>a. map_option (\<lambda>h. h\<lparr>live_next := nullptr\<rparr>) (o_hdrs st' a) = map_option (\<lambda>h. h\<lparr>live_next := nullptr\<rparr>) (o_hdrs st a))
     \<and> st' = st\<lparr>o_hdrs := o_hdrs st', o_buckets := o_buckets st'\<rparr>"

lemma same_but_live_refl [simp]: "same_but_live st st"
  by (simp add: same_but_live_def)

lemma same_but_live_trans [trans]: "same_but_live st st' \<Longrightarrow> same_but_live st' st'' \<Longrightarrow> same_but_live st st''"
  unfolding same_but_live_def by (cases st; cases st'; cases st'') auto

lemma same_but_live_buckets: "same_but_live st (st\<lparr>o_buckets := f\<rparr>)"
  by (simp add: same_but_live_def)

lemma set_live_next_same: "sf_header_set_live_next st p q = Some st' \<Longrightarrow> same_but_live st st'"
  by (auto simp: sf_header_set_live_next_def write_hdr_def same_but_live_def split: if_splits)

lemma same_but_live_hdr:
  assumes "same_but_live st st'" "o_hdrs st a = Some h"
  obtains q where "o_hdrs st' a = Some (h\<lparr>live_next := q\<rparr>)"
proof -
  from assms have "map_option (\<lambda>h. h\<lparr>live_next := nullptr\<rparr>) (o_hdrs st' a) = Some (h\<lparr>live_next := nullptr\<rparr>)"
    by (metis same_but_live_def option.simps(9))
  then obtain h' where h': "o_hdrs st' a = Some h'" "h'\<lparr>live_next := nullptr\<rparr> = h\<lparr>live_next := nullptr\<rparr>" by auto
  have "h' = h'\<lparr>live_next := nullptr\<rparr>\<lparr>live_next := live_next h'\<rparr>" by simp
  also have "\<dots> = h\<lparr>live_next := live_next h'\<rparr>" unfolding h'(2) by simp
  finally show thesis using that h'(1) by simp
qed

lemma set_live_next_links:
  assumes "p \<noteq> nullptr" "o_hdrs st p \<noteq> None"
  shows "\<exists>st'. sf_header_set_live_next st p q = Some st' \<and> live_links st' = (live_links st)(p \<mapsto> q)
     \<and> o_buckets st' = o_buckets st"
  using assms by (auto simp: sf_header_set_live_next_def write_hdr_def live_links_def fun_eq_iff)

lemma bucket_disjoint:
  assumes "live_inv T" "h \<in> set (T ! b)" "b < SF_LIVE_OBJECT_BUCKETS" "c < SF_LIVE_OBJECT_BUCKETS" "c \<noteq> b"
  shows "h \<notin> set (T ! c)"
  using assms by (metis bt_inv_def)

lemma register_live:
  assumes rep: "live_rep st T" and hdr: "hdr \<noteq> nullptr" "o_hdrs st hdr \<noteq> None" "hdr \<notin> bt_entries T"
  shows "\<exists>st'. sf_register_live_object_header st hdr = Some st' \<and> same_but_live st st'
     \<and> live_rep st' (bt_push live_object_bucket_index live_key T hdr)"
proof -
  let ?b = "live_object_bucket_index (live_key hdr)"
  have inv: "live_inv T" using rep by (simp add: live_rep_def)
  from set_live_next_links [OF hdr(1,2)] obtain st1 where
    st1: "sf_header_set_live_next st hdr (o_buckets st ?b) = Some st1"
      "live_links st1 = (live_links st)(hdr \<mapsto> o_buckets st ?b)" "o_buckets st1 = o_buckets st" by blast
  define st2 where "st2 = st1\<lparr>o_buckets := (o_buckets st)(?b := hdr)\<rparr>"
  have run: "sf_register_live_object_header st hdr = Some st2"
    by (simp add: sf_register_live_object_header_def hdr(1) live_key_object Let_def st1 st2_def)
  have fresh: "hdr \<notin> set (T ! b)" if "b < SF_LIVE_OBJECT_BUCKETS" for b
    using that hdr(3) inv by (auto simp: bt_entries_iff bt_inv_def)
  have links: "live_links st2 = (live_links st)(hdr \<mapsto> o_buckets st ?b)"
    using st1(2) by (simp add: st2_def live_links_def fun_eq_iff)
  have buckets: "o_buckets st2 = (o_buckets st)(?b := hdr)" by (simp add: st2_def)
  have "segment (live_links st2) (o_buckets st2 b) (bt_push live_object_bucket_index live_key T hdr ! b) nullptr"
    if b: "b < SF_LIVE_OBJECT_BUCKETS" for b
    using rep b fresh [OF b] fresh [OF livetab.bucket_less] hdr(1)
    by (simp add: livetab.push_nth [OF inv b] links live_rep_def buckets)
  moreover have "live_inv (bt_push live_object_bucket_index live_key T hdr)"
    by (rule livetab.inv_push [OF inv]) (simp add: live_find_key [OF inv] hdr(3))
  ultimately have "live_rep st2 (bt_push live_object_bucket_index live_key T hdr)"
    by (simp add: live_rep_def)
  moreover have "same_but_live st st2"
    unfolding st2_def by (rule same_but_live_trans [OF set_live_next_same [OF st1(1)] same_but_live_buckets])
  ultimately show ?thesis using run by blast
qed

section \<open>Unregister\<close>

text \<open>The loop reaches the header and links its neighbours.\<close>

definition unlink :: "objects \<Rightarrow> addr \<Rightarrow> nat \<Rightarrow> addr \<Rightarrow> objects option" where
  "unlink st hdr b prev =
     Option.bind (sf_header_live_next st hdr) (\<lambda>nxt.
     Option.bind (if prev = nullptr then Some (st\<lparr>o_buckets := (o_buckets st)(b := nxt)\<rparr>)
                  else sf_header_set_live_next st prev nxt) (\<lambda>st.
     sf_header_set_live_next st hdr nullptr))"

lemma unregister_loop_unlinks:
  assumes "segment (live_links st) cur (xs @ hdr # ys) nullptr" "hdr \<notin> set xs"
  shows "unregister_loop st hdr b prev cur = unlink st hdr b (last (prev # xs))"
  using assms
proof (induction xs arbitrary: cur prev)
  case Nil
  then show ?case by (subst unregister_loop.simps) (auto simp: unlink_def)
next
  case (Cons x xs)
  then obtain r where "cur = x" "x \<noteq> nullptr" "x \<noteq> hdr" "live_links st x = Some r"
      "segment (live_links st) r (xs @ hdr # ys) nullptr"
    by (auto split: option.splits)
  moreover from this obtain d where "o_hdrs st x = Some d" "r = live_next d" by (auto simp: live_links_def)
  ultimately show ?case
    using Cons by (subst unregister_loop.simps) (simp add: sf_header_live_next_def)
qed

lemma unlink_segment:
  assumes seg: "segment (live_links st) (o_buckets st b) (xs @ hdr # ys) nullptr" and dist: "distinct (xs @ hdr # ys)"
  shows "\<exists>st'. unlink st hdr b (last (nullptr # xs)) = Some st' \<and> same_but_live st st'
     \<and> segment (live_links st') (o_buckets st' b) (xs @ ys) nullptr
     \<and> (\<forall>c. c \<noteq> b \<longrightarrow> o_buckets st' c = o_buckets st c)
     \<and> (\<forall>a. a \<notin> set (xs @ hdr # ys) \<longrightarrow> live_links st' a = live_links st a)"
proof -
  obtain q where q: "segment (live_links st) (o_buckets st b) xs hdr" "live_links st hdr = Some q" "hdr \<noteq> nullptr"
      "segment (live_links st) q ys nullptr"
    using seg by (auto simp: segment_append split: option.splits)
  then have nxt: "sf_header_live_next st hdr = Some q" and mapped: "o_hdrs st hdr \<noteq> None"
    by (auto simp: sf_header_live_next_def live_links_def)
  show ?thesis
  proof (cases xs rule: rev_cases)
    case Nil
    define st1 where "st1 = st\<lparr>o_buckets := (o_buckets st)(b := q)\<rparr>"
    have "o_hdrs st1 hdr \<noteq> None" using mapped by (simp add: st1_def)
    from set_live_next_links [OF q(3) this, of nullptr] obtain st2 where
      st2: "sf_header_set_live_next st1 hdr nullptr = Some st2" "live_links st2 = (live_links st1)(hdr \<mapsto> nullptr)"
        "o_buckets st2 = o_buckets st1" by blast
    have "unlink st hdr b (last (nullptr # xs)) = Some st2"
      using st2(1) by (simp add: unlink_def nxt Nil st1_def)
    moreover have "same_but_live st st2"
      using set_live_next_same [OF st2(1)] same_but_live_buckets [of st] same_but_live_trans by (simp add: st1_def) blast
    moreover have links: "live_links st1 = live_links st" by (simp add: st1_def live_links_def fun_eq_iff)
    ultimately show ?thesis using q dist Nil by (simp add: st2(2,3) st1_def)
  next
    case (snoc xs' p)
    with q(1) have p: "segment (live_links st) (o_buckets st b) xs' p" "p \<noteq> nullptr" "live_links st p = Some hdr"
      by (auto simp: segment_append split: option.splits)
    then have "o_hdrs st p \<noteq> None" by (auto simp: live_links_def)
    from set_live_next_links [OF p(2) this, of q] obtain st1 where
      st1: "sf_header_set_live_next st p q = Some st1" "live_links st1 = (live_links st)(p \<mapsto> q)"
        "o_buckets st1 = o_buckets st" by blast
    have "live_links st1 hdr \<noteq> None" using q(2) by (simp add: st1(2))
    then have "o_hdrs st1 hdr \<noteq> None" by (auto simp: live_links_def)
    from set_live_next_links [OF q(3) this, of nullptr] obtain st2 where
      st2: "sf_header_set_live_next st1 hdr nullptr = Some st2" "live_links st2 = (live_links st1)(hdr \<mapsto> nullptr)"
        "o_buckets st2 = o_buckets st1" by blast
    have "unlink st hdr b (last (nullptr # xs)) = Some st2"
      using p(2) snoc st1(1) st2(1) by (simp add: unlink_def nxt)
    moreover have "same_but_live st st2"
      using same_but_live_trans [OF set_live_next_same [OF st1(1)] set_live_next_same [OF st2(1)]] .
    moreover have "segment (live_links st2) (o_buckets st b) (xs' @ p # ys) nullptr"
      using p q(4) dist snoc by (auto simp: segment_append st2(2) st1(2))
    ultimately show ?thesis using snoc by (simp add: st2(2,3) st1(2,3))
  qed
qed

lemma unregister_live:
  assumes rep: "live_rep st T" and hdr: "hdr \<in> bt_entries T"
  shows "\<exists>st'. sf_unregister_live_object_header st hdr = Some st' \<and> same_but_live st st'
     \<and> live_rep st' (bt_remove live_object_bucket_index live_key T hdr)"
proof -
  let ?b = "live_object_bucket_index (live_key hdr)"
  have inv: "live_inv T" using rep by (simp add: live_rep_def)
  have b: "?b < SF_LIVE_OBJECT_BUCKETS" by (rule livetab.bucket_less)
  have nn: "hdr \<noteq> nullptr" using live_entry_mapped [OF rep hdr] by simp
  have "hdr \<in> set (T ! ?b)"
    using hdr inv by (auto simp: bt_entries_iff bt_inv_def)
  then obtain xs ys where split: "T ! ?b = xs @ hdr # ys" "hdr \<notin> set xs" by (meson split_list_first)
  have dist: "distinct (xs @ hdr # ys)"
    using inv b split(1) by (metis bt_inv_def distinct_map)
  have seg: "segment (live_links st) (o_buckets st ?b) (xs @ hdr # ys) nullptr"
    using rep b split(1) by (metis live_rep_def)
  from unlink_segment [OF seg dist] obtain st' where
    st': "unlink st hdr ?b (last (nullptr # xs)) = Some st'" "same_but_live st st'"
      "segment (live_links st') (o_buckets st' ?b) (xs @ ys) nullptr"
      "\<And>c. c \<noteq> ?b \<Longrightarrow> o_buckets st' c = o_buckets st c"
      "\<And>a. a \<notin> set (xs @ hdr # ys) \<Longrightarrow> live_links st' a = live_links st a" by blast
  have run: "sf_unregister_live_object_header st hdr = Some st'"
    using nn st'(1) unregister_loop_unlinks [OF seg split(2)]
    by (simp add: sf_unregister_live_object_header_def live_key_object)
  have rm: "removeAll hdr (xs @ hdr # ys) = xs @ ys" using dist by simp
  have "segment (live_links st') (o_buckets st' c) (bt_remove live_object_bucket_index live_key T hdr ! c) nullptr"
    if c: "c < SF_LIVE_OBJECT_BUCKETS" for c
  proof (cases "c = ?b")
    case True
    then show ?thesis using livetab.remove_nth [OF inv b, of hdr] st'(3) rm split(1) by simp
  next
    case False
    have other: "a \<notin> set (T ! c)" if "a \<in> set (xs @ hdr # ys)" for a
      using bucket_disjoint [OF inv _ b c False] that split(1) by simp
    have "segment (live_links st') (o_buckets st c) (T ! c) nullptr"
      using rep c other st'(5) by (subst segment_cong [of _ _ "live_links st"]) (auto simp: live_rep_def)
    moreover have "removeAll hdr (T ! c) = T ! c" using other [of hdr] by (simp add: removeAll_id)
    ultimately show ?thesis using False by (simp add: livetab.remove_nth [OF inv c] st'(4))
  qed
  then have "live_rep st' (bt_remove live_object_bucket_index live_key T hdr)"
    by (simp add: live_rep_def livetab.inv_remove [OF inv])
  with run st'(2) show ?thesis by blast
qed

section \<open>The table as a set of objects\<close>

definition live_set :: "objects \<Rightarrow> addr set \<Rightarrow> bool" where
  "live_set st L \<longleftrightarrow> (\<exists>T. live_rep st T \<and> bt_entries T = L)"

lemma live_set_find:
  assumes "live_set st L"
  shows "sf_header_from_object st obj =
    Some (if obj \<noteq> nullptr \<and> \<not> sf_is_tagged_pointer obj \<and> obj - sizeof_SFObjHeader \<in> L
          then obj - sizeof_SFObjHeader else nullptr)"
proof -
  obtain T where T: "live_rep st T" "bt_entries T = L" using assms by (auto simp: live_set_def)
  then have inv: "live_inv T" by (simp add: live_rep_def)
  have "live_key (obj - sizeof_SFObjHeader) = obj" by (simp add: live_key_def)
  with live_find_key [OF inv, of "obj - sizeof_SFObjHeader"] T(2)
  show ?thesis by (simp add: header_from_object_live [OF T(1)])
qed

lemma live_set_register:
  assumes "live_set st L" "hdr \<noteq> nullptr" "o_hdrs st hdr \<noteq> None" "hdr \<notin> L"
  shows "\<exists>st'. sf_register_live_object_header st hdr = Some st' \<and> same_but_live st st' \<and> live_set st' (insert hdr L)"
proof -
  obtain T where T: "live_rep st T" "bt_entries T = L" using assms(1) by (auto simp: live_set_def)
  then have "live_inv T" by (simp add: live_rep_def)
  from register_live [OF T(1) assms(2,3)] assms(4) T(2) livetab.push_entries [OF this, of hdr]
  show ?thesis by (auto simp: live_set_def)
qed

lemma live_set_unregister:
  assumes "live_set st L" "hdr \<in> L"
  shows "\<exists>st'. sf_unregister_live_object_header st hdr = Some st' \<and> same_but_live st st' \<and> live_set st' (L - {hdr})"
proof -
  obtain T where T: "live_rep st T" "bt_entries T = L" using assms(1) by (auto simp: live_set_def)
  then have "live_inv T" by (simp add: live_rep_def)
  from unregister_live [OF T(1), of hdr] assms(2) T(2) livetab.remove_entries [OF this, of hdr]
  show ?thesis by (auto simp: live_set_def)
qed

text \<open>Only the links and the bucket heads matter.\<close>

lemma live_set_cong:
  assumes "\<And>a. live_links st' a = live_links st a" "o_buckets st' = o_buckets st"
  shows "live_set st' L = live_set st L"
proof -
  have "live_links st' = live_links st" using assms(1) by (rule ext)
  with assms(2) show ?thesis by (simp add: live_set_def live_rep_def)
qed

text \<open>Only those in the table, for that matter.\<close>

lemma live_set_keep:
  assumes "live_set st L" "\<And>a. a \<in> L \<Longrightarrow> live_links st' a = live_links st a" "o_buckets st' = o_buckets st"
  shows "live_set st' L"
proof -
  obtain T where T: "live_rep st T" "bt_entries T = L" using assms(1) by (auto simp: live_set_def)
  have "segment (live_links st') (o_buckets st' b) (T ! b) nullptr" if b: "b < SF_LIVE_OBJECT_BUCKETS" for b
  proof -
    have "set (T ! b) \<subseteq> L"
      using T b by (auto simp: live_rep_def bt_inv_def bt_entries_iff)
    then have "segment (live_links st') (o_buckets st b) (T ! b) nullptr
        = segment (live_links st) (o_buckets st b) (T ! b) nullptr"
      using assms(2) by (intro segment_cong) auto
    with T(1) b assms(3) show ?thesis by (simp add: live_rep_def)
  qed
  with T show ?thesis by (auto simp: live_set_def live_rep_def)
qed

lemma live_set_free_block:
  assumes "live_set st L" "\<And>h. h \<in> L \<Longrightarrow> \<not> in_block raw total_size h"
  shows "live_set (free_block st a raw total_size) L"
  by (rule live_set_keep [OF assms(1)]) (simp_all add: free_block_def live_links_def assms(2))

lemma live_set_mapped: "live_set st L \<Longrightarrow> h \<in> L \<Longrightarrow> h \<noteq> nullptr \<and> (\<exists>d. o_hdrs st h = Some d)"
  using live_entry_mapped by (auto simp: live_set_def)

lemma live_set_write_hdr:
  assumes "write_hdr st p f = Some st'" "\<And>h. live_next (f h) = live_next h"
  shows "live_set st' L = live_set st L"
  using assms by (intro live_set_cong) (auto simp: write_hdr_def live_links_def)

lemma live_set_write_flags:
  assumes "write_flags st p f = Some st'" "\<And>h. map_option live_next (f (Some h)) = Some (live_next h)"
  shows "live_set st' L = live_set st L"
  using assms by (intro live_set_cong) (auto simp: write_flags_def live_links_def split: if_splits)

text \<open>C7: the table of live headers is a set, whatever the hash.  If it holds the headers \<open>L\<close>, an object is
  found exactly when its header is in \<open>L\<close>; registering a new header adds it and unregistering one
  removes it, both without a fault, without changing what is found for any other object and
  without changing any other part of memory than the links of the table.\<close>

theorem live_objects_refine:
  assumes "live_set st L" "hdr \<noteq> nullptr" "o_hdrs st hdr \<noteq> None"
  shows "(hdr \<notin> L \<longrightarrow> (\<exists>st'. sf_register_live_object_header st hdr = Some st' \<and> same_but_live st st'
             \<and> live_set st' (insert hdr L)))
    \<and> (hdr \<in> L \<longrightarrow> (\<exists>st'. sf_unregister_live_object_header st hdr = Some st' \<and> same_but_live st st'
             \<and> live_set st' (L - {hdr})))
    \<and> sf_header_from_object st obj =
        Some (if obj \<noteq> nullptr \<and> \<not> sf_is_tagged_pointer obj \<and> obj - sizeof_SFObjHeader \<in> L
              then obj - sizeof_SFObjHeader else nullptr)"
  using live_set_find [OF assms(1)] live_set_register [OF assms] live_set_unregister [OF assms(1)] by blast

text \<open>A memory with no objects.\<close>

definition empty_objects :: objects where
  "empty_objects = \<lparr>o_hdrs = (\<lambda>_. None), o_groups = (\<lambda>_. None), o_words = (\<lambda>_. None),
     o_buckets = (\<lambda>_. nullptr), o_callocs = [], o_allocs = [], o_frees = [], o_default_allocator = 1,
     g_last_header_obj = nullptr, g_last_header_ptr = nullptr\<rparr>"

lemma live_set_empty:
  assumes "\<And>b. o_buckets st b = nullptr"
  shows "live_set st {}"
proof -
  define T :: "addr list list" where "T = replicate SF_LIVE_OBJECT_BUCKETS []"
  have "live_rep st T" by (simp add: live_rep_def bt_inv_def T_def assms)
  moreover have "bt_entries T = {}" by (simp add: bt_entries_def T_def)
  ultimately show ?thesis by (auto simp: live_set_def)
qed

theorem live_objects_refine_witness:
  "let st = empty_objects\<lparr>o_hdrs := [0x1000 \<mapsto> zero_header]\<rparr> in
     \<exists>st'. sf_register_live_object_header st 0x1000 = Some st' \<and> live_set st' {0x1000}"
proof -
  let ?st = "empty_objects\<lparr>o_hdrs := [0x1000 \<mapsto> zero_header]\<rparr>"
  have "live_set ?st {}" by (rule live_set_empty) (simp add: empty_objects_def)
  from live_objects_refine [OF this, of "0x1000" 0] show ?thesis by auto
qed

end
