(* ===== verification/SF_Runtime.thy ===== *)
theory SF_Runtime
  imports SF_Live
begin

unbundle bit_operations_syntax

text \<open>
  The state of the whole runtime, the cache of the last header found (\<open>Runtime/src/arc.c\<close>), and the
  backtraces kept for thrown objects (\<open>Runtime/src/exceptions/exceptions.c\<close>).  A method
  implementation, a block copied or released and the unwinder are code outside the modelled part; they
  appear as the fields of a \<open>runtime_env\<close>.
\<close>

section \<open>State\<close>

record SFExceptionMetadata =
  em_object :: addr
  em_frames :: "addr list"

text \<open>\<open>pool_objects\<close> and \<open>pool_markers\<close> are the used parts of the two arrays of \<open>g_autorelease_state\<close>,
  the latest entry first, so that \<open>count\<close> and \<open>marker_count\<close> are their lengths;
  \<open>pool_tokens\<close> is the memory of the tokens handed out.  \<open>rt_mallocs\<close> and \<open>rt_reallocs\<close> hold the results
  of the coming allocations.  \<open>g_exception_metadata\<close> is the linked list of that name, and
  \<open>cxx_destruct_sels\<close> the static selector cached in \<open>release_object_nontrivial\<close> (at \<open>True\<close>) and the
  one in \<open>clear_object_ivars\<close> (at \<open>False\<close>).\<close>

record runtime =
  rt_loader :: loader
  rt_objects :: objects
  pool_objects :: "addr list"
  pool_capacity :: nat
  pool_markers :: "nat list"
  marker_capacity :: nat
  pool_tokens :: "addr \<rightharpoonup> nat"
  g_pool_fallback_token :: nat
  rt_mallocs :: "addr list"
  rt_reallocs :: "bool list"
  g_exception_metadata :: "SFExceptionMetadata list"
  cxx_destruct_sels :: "bool \<Rightarrow> addr"

text \<open>\<open>call_imp imp obj sel\<close> runs a method, \<open>cxx_destruct_data\<close> gives the addresses of the two static
  selector structures, \<open>pool_fallback\<close> the address of \<open>g_pool_fallback_token\<close>, and \<open>instruction_pointers\<close>
  what \<open>_Unwind_GetIP\<close> returns in the frames above the caller of \<open>_Unwind_Backtrace\<close>.\<close>

record runtime_env =
  call_imp :: "addr \<Rightarrow> addr \<Rightarrow> addr \<Rightarrow> runtime \<Rightarrow> runtime option"
  block_copy :: "addr \<Rightarrow> runtime \<Rightarrow> (addr \<times> runtime) option"
  block_copy_pending :: "addr \<Rightarrow> runtime \<Rightarrow> (addr \<times> runtime) option"
  block_release :: "addr \<Rightarrow> runtime \<Rightarrow> runtime option"
  cxx_destruct_data :: "bool \<Rightarrow> addr"
  pool_fallback :: addr
  instruction_pointers :: "addr list"

definition with_objects :: "runtime \<Rightarrow> objects option \<Rightarrow> runtime option" where
  "with_objects rt r = map_option (\<lambda>ob. rt\<lparr>rt_objects := ob\<rparr>) r"

definition with_loader :: "runtime \<Rightarrow> ('r \<times> loader) option \<Rightarrow> ('r \<times> runtime) option" where
  "with_loader rt r = map_option (\<lambda>(v, ld). (v, rt\<lparr>rt_loader := ld\<rparr>)) r"

definition object_class_of :: "runtime \<Rightarrow> addr \<Rightarrow> addr option" where
  "object_class_of rt obj = sf_object_class (l_tags (rt_loader rt)) (o_words (rt_objects rt)) obj"

definition read_header :: "runtime \<Rightarrow> addr \<Rightarrow> SFObjHeader option" where
  "read_header rt hdr = o_hdrs (rt_objects rt) hdr"

section \<open>The last header found\<close>

definition header_from_heap_candidate :: "objects \<Rightarrow> addr \<Rightarrow> (addr \<times> objects) option" where
  "header_from_heap_candidate st obj =
     (if obj = g_last_header_obj st then Some (g_last_header_ptr st, st)
      else if obj = nullptr \<or> sf_is_tagged_pointer obj then Some (nullptr, st)
      else do {
        hdr \<leftarrow> sf_header_from_object st obj;
        if hdr = nullptr then Some (nullptr, st)
        else Some (hdr, st\<lparr>g_last_header_obj := obj, g_last_header_ptr := hdr\<rparr>)
      })"

definition header_candidate :: "runtime \<Rightarrow> addr \<Rightarrow> (addr \<times> runtime) option" where
  "header_candidate rt obj =
     map_option (\<lambda>(hdr, ob). (hdr, rt\<lparr>rt_objects := ob\<rparr>)) (header_from_heap_candidate (rt_objects rt) obj)"

section \<open>Backtraces of thrown objects\<close>

definition SF_EXCEPTION_BACKTRACE_LIMIT :: nat where "SF_EXCEPTION_BACKTRACE_LIMIT = 32"

text \<open>The capture record: the frames so far and the number still to skip.  The callback says whether the
  walk goes on.\<close>

definition capture_backtrace_frame :: "nat \<Rightarrow> addr \<Rightarrow> addr list \<times> nat \<Rightarrow> bool \<times> addr list \<times> nat" where
  "capture_backtrace_frame limit ip capture =
     (case capture of (frames, skip) \<Rightarrow>
        if ip = 0 \<or> length frames = limit then (False, frames, skip)
        else if skip > 0 then (True, frames, skip - 1)
        else (length (frames @ [ip]) \<noteq> limit, frames @ [ip], skip))"

fun unwind_backtrace :: "nat \<Rightarrow> addr list \<Rightarrow> addr list \<times> nat \<Rightarrow> addr list \<times> nat" where
  "unwind_backtrace limit [] capture = capture"
| "unwind_backtrace limit (ip # ips) capture =
     (case capture_backtrace_frame limit ip capture of
        (go_on, capture) \<Rightarrow> if go_on then unwind_backtrace limit ips capture else capture)"

definition capture_backtrace :: "addr list \<Rightarrow> nat \<Rightarrow> addr list" where
  "capture_backtrace ips limit = fst (unwind_backtrace limit ips ([], 2))"

text \<open>The list without the first entry of the object, and that entry.\<close>

definition find_exception_metadata :: "SFExceptionMetadata list \<Rightarrow> addr \<Rightarrow> SFExceptionMetadata option" where
  "find_exception_metadata ms obj = find (\<lambda>m. em_object m = obj) ms"

fun remove_exception_metadata :: "SFExceptionMetadata list \<Rightarrow> addr \<Rightarrow> SFExceptionMetadata list" where
  "remove_exception_metadata [] obj = []"
| "remove_exception_metadata (m # ms) obj =
     (if em_object m = obj then ms else m # remove_exception_metadata ms obj)"

text \<open>A new entry goes where the search ended, at the end of the list.\<close>

fun set_exception_metadata :: "SFExceptionMetadata list \<Rightarrow> addr \<Rightarrow> addr list \<Rightarrow> SFExceptionMetadata list" where
  "set_exception_metadata [] obj frames = [\<lparr>em_object = obj, em_frames = frames\<rparr>]"
| "set_exception_metadata (m # ms) obj frames =
     (if em_object m = obj then m\<lparr>em_frames := frames\<rparr> # ms else m # set_exception_metadata ms obj frames)"

definition flag_metadata :: "objects \<Rightarrow> addr \<Rightarrow> (SFObjHeader option \<Rightarrow> u32 \<Rightarrow> SFObjHeader option) \<Rightarrow> objects option" where
  "flag_metadata st obj set_flag = do {
     hdr \<leftarrow> sf_header_from_object st obj;
     if hdr \<noteq> nullptr then write_flags st hdr (\<lambda>h. set_flag h SF_OBJ_AUX_FLAG_HAS_EXCEPTION_METADATA) else Some st
   }"

definition sf_exception_capture_metadata :: "runtime_env \<Rightarrow> runtime \<Rightarrow> addr \<Rightarrow> runtime option" where
  "sf_exception_capture_metadata env rt obj =
     (if obj = nullptr then Some rt
      else let frames = capture_backtrace (instruction_pointers env) SF_EXCEPTION_BACKTRACE_LIMIT;
               (ok, st) = (if find_exception_metadata (g_exception_metadata rt) obj \<noteq> None then (True, rt_objects rt)
                           else case next_calloc (rt_objects rt) of (p, st) \<Rightarrow> (p \<noteq> nullptr, st));
               rt = rt\<lparr>rt_objects := st, g_exception_metadata :=
                       (if ok then set_exception_metadata (g_exception_metadata rt) obj frames
                        else g_exception_metadata rt)\<rparr>
           in with_objects rt (flag_metadata (rt_objects rt) obj sf_header_or_aux_flags))"

definition sf_exception_backtrace_count :: "runtime \<Rightarrow> addr \<Rightarrow> nat" where
  "sf_exception_backtrace_count rt obj =
     (if obj = nullptr then 0
      else case find_exception_metadata (g_exception_metadata rt) obj of None \<Rightarrow> 0 | Some m \<Rightarrow> length (em_frames m))"

definition sf_exception_backtrace_frame :: "runtime \<Rightarrow> addr \<Rightarrow> nat \<Rightarrow> addr" where
  "sf_exception_backtrace_frame rt obj index =
     (if obj = nullptr then nullptr
      else case find_exception_metadata (g_exception_metadata rt) obj of None \<Rightarrow> nullptr
           | Some m \<Rightarrow> if index < length (em_frames m) then em_frames m ! index else nullptr)"

definition sf_exception_clear_metadata :: "runtime \<Rightarrow> addr \<Rightarrow> runtime option" where
  "sf_exception_clear_metadata rt obj =
     (if obj = nullptr then Some rt
      else do {
        rt \<leftarrow> with_objects rt (flag_metadata (rt_objects rt) obj sf_header_clear_aux_flags);
        Some (rt\<lparr>g_exception_metadata := remove_exception_metadata (g_exception_metadata rt) obj\<rparr>)
      })"

section \<open>What the backtrace functions return\<close>

lemma unwind_backtrace_frames:
  "length fs < limit \<Longrightarrow>
     fst (unwind_backtrace limit ips (fs, k)) = take limit (fs @ drop k (takeWhile (\<lambda>ip. ip \<noteq> 0) ips))"
proof (induction ips arbitrary: fs k)
  case (Cons ip ips)
  then show ?case
    by (cases k) (auto simp: capture_backtrace_frame_def take_Cons')
qed simp

lemma find_set_metadata:
  "find_exception_metadata (set_exception_metadata ms obj frames) o' =
     (if o' = obj then Some (case find_exception_metadata ms obj of
                               None \<Rightarrow> \<lparr>em_object = obj, em_frames = frames\<rparr> | Some m \<Rightarrow> m\<lparr>em_frames := frames\<rparr>)
      else find_exception_metadata ms o')"
  by (induction ms) (auto simp: find_exception_metadata_def split: option.splits)

lemma find_remove_metadata:
  assumes "distinct (map em_object ms)"
  shows "find_exception_metadata (remove_exception_metadata ms obj) o' =
     (if o' = obj then None else find_exception_metadata ms o')"
  using assms
  by (induction ms) (auto simp: find_exception_metadata_def find_key_None [where key = em_object])

lemma set_metadata_objects:
  "em_object ` set (set_exception_metadata ms obj frames) = insert obj (em_object ` set ms)"
  by (induction ms) auto

lemma set_metadata_distinct:
  "distinct (map em_object ms) \<Longrightarrow> distinct (map em_object (set_exception_metadata ms obj frames))"
proof (induction ms)
  case (Cons m ms)
  then show ?case using set_metadata_objects [of ms obj frames]
    by (auto simp flip: image_set)
qed simp

lemma flag_metadata_returns:
  assumes "live_set st L" "\<And>h x. map_option live_next (set_flag (Some h) x) = Some (live_next h)"
  shows "\<exists>st'. flag_metadata st obj set_flag = Some st' \<and> live_set st' L"
proof -
  obtain hdr where hdr: "sf_header_from_object st obj = Some hdr" "hdr = nullptr \<or> hdr \<in> L"
    using live_set_find [OF assms(1), of obj] by auto
  have can: "\<exists>st'. write_flags st hdr (\<lambda>h. set_flag h SF_OBJ_AUX_FLAG_HAS_EXCEPTION_METADATA) = Some st'"
    if "hdr \<in> L"
    using live_set_mapped [OF assms(1) that] by (auto simp: write_flags_def)
  show ?thesis
  proof (cases "hdr = nullptr")
    case True
    with hdr(1) assms(1) show ?thesis by (simp add: flag_metadata_def)
  next
    case False
    with can hdr(2) obtain st' where
      "write_flags st hdr (\<lambda>h. set_flag h SF_OBJ_AUX_FLAG_HAS_EXCEPTION_METADATA) = Some st'" by blast
    with hdr(1) False live_set_write_flags [OF this assms(2)] assms(1) show ?thesis
      by (simp add: flag_metadata_def)
  qed
qed

lemma or_aux_live_next: "map_option live_next (sf_header_or_aux_flags (Some h) x) = Some (live_next h)"
  by (simp add: sf_header_or_aux_flags_def sf_header_set_aux_flags_def)

lemma clear_aux_live_next: "map_option live_next (sf_header_clear_aux_flags (Some h) x) = Some (live_next h)"
  by (simp add: sf_header_clear_aux_flags_def sf_header_set_aux_flags_def)

lemma capture_metadata_returns:
  assumes "live_set (rt_objects rt) L" "obj \<noteq> nullptr" "o_callocs (rt_objects rt) = p # ps" "p \<noteq> nullptr"
  shows "\<exists>rt'. sf_exception_capture_metadata env rt obj = Some rt' \<and> live_set (rt_objects rt') L
     \<and> g_exception_metadata rt' = set_exception_metadata (g_exception_metadata rt) obj
          (capture_backtrace (instruction_pointers env) SF_EXCEPTION_BACKTRACE_LIMIT)"
proof -
  define found where "found \<longleftrightarrow> find_exception_metadata (g_exception_metadata rt) obj \<noteq> None"
  define st where "st = (if found then rt_objects rt else rt_objects rt\<lparr>o_callocs := ps\<rparr>)"
  have "live_set st L"
    using assms(1) live_set_cong [of "rt_objects rt\<lparr>o_callocs := ps\<rparr>" "rt_objects rt"]
    by (simp add: st_def live_links_def)
  from flag_metadata_returns [where set_flag = sf_header_or_aux_flags and obj = obj, OF this or_aux_live_next] obtain st' where
    st': "flag_metadata st obj sf_header_or_aux_flags = Some st'" "live_set st' L" by blast
  have "(if found then (True, rt_objects rt)
         else case next_calloc (rt_objects rt) of (p, st) \<Rightarrow> (p \<noteq> nullptr, st)) = (True, st)"
    by (simp add: st_def next_calloc_def assms(3,4))
  with st' assms(2) show ?thesis
    by (simp add: sf_exception_capture_metadata_def with_objects_def found_def [symmetric] del: not_None_eq)
qed

lemma clear_metadata_returns:
  assumes "live_set (rt_objects rt) L" "obj \<noteq> nullptr"
  shows "\<exists>rt'. sf_exception_clear_metadata rt obj = Some rt' \<and> live_set (rt_objects rt') L
     \<and> g_exception_metadata rt' = remove_exception_metadata (g_exception_metadata rt) obj"
  using flag_metadata_returns [where set_flag = sf_header_clear_aux_flags and obj = obj, OF assms(1) clear_aux_live_next] assms(2)
  by (auto simp: sf_exception_clear_metadata_def with_objects_def)

text \<open>A thrown object carries the backtrace of the throw.  After the capture succeeds, the count and the
  frames that are read back are those of the stack above the runtime's own two frames, up to its first
  null frame and at most 32 of them, and those of every other object are what they were; clearing takes
  them away again and leaves those of the others.\<close>

theorem exception_backtrace:
  assumes "live_set (rt_objects rt) L" "obj \<noteq> nullptr" "distinct (map em_object (g_exception_metadata rt))"
    and "o_callocs (rt_objects rt) = p # ps" "p \<noteq> nullptr"
    and "frames = take 32 (drop 2 (takeWhile (\<lambda>ip. ip \<noteq> 0) (instruction_pointers env)))"
  shows "\<exists>rt' rt''. sf_exception_capture_metadata env rt obj = Some rt' \<and> sf_exception_clear_metadata rt' obj = Some rt''
    \<and> sf_exception_backtrace_count rt' obj = length frames
    \<and> map (sf_exception_backtrace_frame rt' obj) [0..<length frames] = frames
    \<and> sf_exception_backtrace_count rt'' obj = 0
    \<and> (\<forall>o'. o' = obj \<or> sf_exception_backtrace_count rt' o' = sf_exception_backtrace_count rt o'
                       \<and> sf_exception_backtrace_frame rt' o' = sf_exception_backtrace_frame rt o'
                       \<and> sf_exception_backtrace_count rt'' o' = sf_exception_backtrace_count rt o'
                       \<and> sf_exception_backtrace_frame rt'' o' = sf_exception_backtrace_frame rt o')"
proof -
  have frames: "capture_backtrace (instruction_pointers env) SF_EXCEPTION_BACKTRACE_LIMIT = frames"
    by (simp add: assms(6) capture_backtrace_def SF_EXCEPTION_BACKTRACE_LIMIT_def unwind_backtrace_frames)
  from capture_metadata_returns [OF assms(1,2,4,5), of env] obtain rt' where
    rt': "sf_exception_capture_metadata env rt obj = Some rt'" "live_set (rt_objects rt') L"
      "g_exception_metadata rt' = set_exception_metadata (g_exception_metadata rt) obj frames"
    unfolding frames by blast
  from clear_metadata_returns [OF rt'(2) assms(2)] obtain rt'' where
    rt'': "sf_exception_clear_metadata rt' obj = Some rt''"
      "g_exception_metadata rt'' = remove_exception_metadata (g_exception_metadata rt') obj" by blast
  have dist: "distinct (map em_object (g_exception_metadata rt'))"
    unfolding rt'(3) by (rule set_metadata_distinct [OF assms(3)])
  have find': "find_exception_metadata (g_exception_metadata rt') o' = (if o' = obj then
        Some (case find_exception_metadata (g_exception_metadata rt) obj of
                None \<Rightarrow> \<lparr>em_object = obj, em_frames = frames\<rparr> | Some m \<Rightarrow> m\<lparr>em_frames := frames\<rparr>)
      else find_exception_metadata (g_exception_metadata rt) o')" for o'
    unfolding rt'(3) by (rule find_set_metadata)
  have find'': "find_exception_metadata (g_exception_metadata rt'') o' =
      (if o' = obj then None else find_exception_metadata (g_exception_metadata rt') o')" for o'
    unfolding rt''(2) by (rule find_remove_metadata [OF dist])
  have frame: "sf_exception_backtrace_frame rt' obj i = frames ! i" if "i < length frames" for i
    using that assms(2) by (simp add: sf_exception_backtrace_frame_def find' split: option.splits)
  have "map (sf_exception_backtrace_frame rt' obj) [0..<length frames] = frames"
    by (rule nth_equalityI) (simp_all add: frame)
  moreover have "sf_exception_backtrace_count rt' obj = length frames" "sf_exception_backtrace_count rt'' obj = 0"
    using assms(2) by (simp_all add: sf_exception_backtrace_count_def find' find'' split: option.splits)
  moreover have "sf_exception_backtrace_count rt' o' = sf_exception_backtrace_count rt o'
      \<and> sf_exception_backtrace_frame rt' o' = sf_exception_backtrace_frame rt o'
      \<and> sf_exception_backtrace_count rt'' o' = sf_exception_backtrace_count rt o'
      \<and> sf_exception_backtrace_frame rt'' o' = sf_exception_backtrace_frame rt o'" if "o' \<noteq> obj" for o'
    using that by (simp add: sf_exception_backtrace_count_def sf_exception_backtrace_frame_def find' find'' fun_eq_iff)
  ultimately show ?thesis using rt'(1) rt''(1) by blast
qed

text \<open>A runtime with nothing in it but the given objects, and surroundings that do nothing.\<close>

definition empty_runtime :: "objects \<Rightarrow> runtime" where
  "empty_runtime st = \<lparr>rt_loader = empty_loader (\<lambda>_. None), rt_objects = st, pool_objects = [], pool_capacity = 0,
     pool_markers = [], marker_capacity = 0, pool_tokens = (\<lambda>_. None), g_pool_fallback_token = 0,
     rt_mallocs = [], rt_reallocs = [], g_exception_metadata = [], cxx_destruct_sels = (\<lambda>_. nullptr)\<rparr>"

lemma empty_runtime_objects [simp]: "rt_objects (empty_runtime st) = st"
  by (simp add: empty_runtime_def)

definition quiet_env :: runtime_env where
  "quiet_env = \<lparr>call_imp = (\<lambda>imp obj sel rt. Some rt), block_copy = (\<lambda>b rt. Some (b, rt)),
     block_copy_pending = (\<lambda>b rt. Some (b, rt)), block_release = (\<lambda>b rt. Some rt),
     cxx_destruct_data = (\<lambda>_. nullptr), pool_fallback = 8, instruction_pointers = []\<rparr>"

theorem exception_backtrace_witness:
  "\<exists>rt'. sf_exception_capture_metadata (quiet_env\<lparr>instruction_pointers := [1, 2, 3, 4, 0, 5]\<rparr>)
        (empty_runtime (empty_objects\<lparr>o_callocs := [1]\<rparr>)) 0x1048 = Some rt'
     \<and> sf_exception_backtrace_count rt' 0x1048 = 2"
proof -
  let ?rt = "empty_runtime (empty_objects\<lparr>o_callocs := [1]\<rparr>)"
  have "live_set (rt_objects ?rt) {}"
    by (rule live_set_empty) (simp add: empty_runtime_def empty_objects_def)
  from exception_backtrace [where rt = ?rt and obj = "0x1048" and p = 1 and ps = "[]" and frames = "[3, 4]"
      and env = "quiet_env\<lparr>instruction_pointers := [1, 2, 3, 4, 0, 5]\<rparr>", OF this]
  show ?thesis by (auto simp: empty_runtime_def empty_objects_def)
qed

end
