(* ===== verification/SF_Arc.thy ===== *)
theory SF_Arc
  imports SF_Runtime
begin

unbundle bit_operations_syntax

text \<open>
  Automatic reference counting: \<open>Runtime/src/arc.c\<close> in the single-threaded build.  A release that
  reaches the last reference tears the object down: its \<open>dealloc\<close> method, its strong ivars, its
  \<open>.cxx_destruct\<close> method, and last \<open>sf_object_dispose\<close>, which frees it at once or, when it is a member of a
  group, leaves it until the last member of the group is disposed of.
\<close>

section \<open>Blocks\<close>

partial_function (option) block_class_is_or_inherits_from :: "class_mem \<Rightarrow> addr \<Rightarrow> addr \<Rightarrow> bool option" where
  "block_class_is_or_inherits_from m cls expected =
     (if cls = nullptr \<or> expected = nullptr then Some False
      else if cls = expected then Some True
      else Option.bind (m cls) (\<lambda>c.
        if class_getSuperclass (Some c) = cls then Some False
        else block_class_is_or_inherits_from m (class_getSuperclass (Some c)) expected))"

declare block_class_is_or_inherits_from.simps [code]

definition object_is_block :: "runtime \<Rightarrow> addr \<Rightarrow> bool option" where
  "object_is_block rt obj =
     (if obj = nullptr \<or> sf_is_tagged_pointer obj then Some False
      else do {
        cls \<leftarrow> object_class_of rt obj;
        block_class_is_or_inherits_from (l_classes (rt_loader rt)) cls
          (objc_lookup_class (l_map (rt_loader rt)) (Some ''Block''))
      })"

section \<open>Header tests\<close>

definition header_has_trivial_release :: "SFObjHeader \<Rightarrow> bool" where
  "header_has_trivial_release h \<longleftrightarrow> sf_header_class_flags (Some h) AND SF_OBJ_CLASS_FLAG_TRIVIAL_RELEASE \<noteq> 0"

definition header_has_object_ivars :: "SFObjHeader \<Rightarrow> bool" where
  "header_has_object_ivars h \<longleftrightarrow> sf_header_class_flags (Some h) AND SF_OBJ_CLASS_FLAG_HAS_OBJECT_IVARS \<noteq> 0"

definition header_has_cxx_destruct :: "SFObjHeader \<Rightarrow> bool" where
  "header_has_cxx_destruct h \<longleftrightarrow> sf_header_class_flags (Some h) AND SF_OBJ_CLASS_FLAG_HAS_CXX_DESTRUCT \<noteq> 0"

definition header_has_sidecar_state :: "SFObjHeader \<Rightarrow> bool" where
  "header_has_sidecar_state h \<longleftrightarrow> parent h \<noteq> nullptr \<or> group h \<noteq> nullptr"

definition header_is_plain_live_object :: "SFObjHeader \<Rightarrow> bool" where
  "header_is_plain_live_object h \<longleftrightarrow> state h = SF_OBJ_STATE_LIVE
     \<and> flags h AND (SF_OBJ_FLAG_IMMORTAL OR SF_OBJ_FLAG_EMBEDDED) = 0"

text \<open>The address of the pointer to an embedded object in its parent, if there is one.\<close>

definition embedded_owner_slot :: "objects \<Rightarrow> addr \<Rightarrow> addr \<Rightarrow> addr option option" where
  "embedded_owner_slot st hdr obj = do {
     h \<leftarrow> o_hdrs st hdr;
     if obj = nullptr \<or> flags h AND SF_OBJ_FLAG_EMBEDDED = 0 then Some None
     else do {
       par \<leftarrow> sf_header_parent st hdr;
       Some (if par = nullptr then None else Some (par + ucast (reserved h)))
     }
   }"

definition clear_embedded_owner_slot :: "objects \<Rightarrow> addr \<Rightarrow> addr \<Rightarrow> objects option" where
  "clear_embedded_owner_slot st hdr obj = do {
     slot \<leftarrow> embedded_owner_slot st hdr obj;
     case slot of None \<Rightarrow> Some st
     | Some owner_slot \<Rightarrow> do {
         owned \<leftarrow> o_words st owner_slot;
         Some (if owned = obj then st\<lparr>o_words := (o_words st)(owner_slot \<mapsto> nullptr)\<rparr> else st)
       }
   }"

definition embedded_owner_slot_contains_object :: "objects \<Rightarrow> addr \<Rightarrow> addr \<Rightarrow> bool option" where
  "embedded_owner_slot_contains_object st hdr obj = do {
     slot \<leftarrow> embedded_owner_slot st hdr obj;
     case slot of None \<Rightarrow> Some False
     | Some owner_slot \<Rightarrow> do { owned \<leftarrow> o_words st owner_slot; Some (owned = obj) }
   }"

section \<open>Disposal\<close>

text \<open>The writes that all three ways of disposal make to the header.\<close>

definition mark_disposed :: "objects \<Rightarrow> addr \<Rightarrow> objects option" where
  "mark_disposed st hdr = do {
     st \<leftarrow> write_hdr st hdr (\<lambda>h. h\<lparr>state := SF_OBJ_STATE_DISPOSED\<rparr>);
     st \<leftarrow> write_flags st hdr sf_header_clear_live_cookie;
     st \<leftarrow> write_flags st hdr (\<lambda>h. sf_header_set_aux_flags h 0);
     write_hdr st hdr (\<lambda>h. h\<lparr>magic := 0\<rparr>)
   }"

definition dispose_plain_object :: "objects \<Rightarrow> addr \<Rightarrow> objects option" where
  "dispose_plain_object st hdr = do {
     a \<leftarrow> sf_header_allocator st hdr;
     h \<leftarrow> o_hdrs st hdr;
     let total_size = ucast (alloc_size h);
     if state h \<noteq> SF_OBJ_STATE_LIVE then Some st
     else do {
       st \<leftarrow> sf_unregister_live_object_header st hdr;
       st \<leftarrow> mark_disposed st hdr;
       Some (free_block st (if a = nullptr then o_default_allocator st else a) hdr total_size)
     }
   }"

partial_function (option) free_group_loop :: "objects \<Rightarrow> addr \<Rightarrow> addr \<Rightarrow> objects option" where
  "free_group_loop st use_allocator member =
     (if member = nullptr then Some st
      else Option.bind (sf_header_group_next st member) (\<lambda>nxt.
        Option.bind (o_hdrs st member) (\<lambda>h.
        Option.bind (sf_header_destroy_sidecar st member False) (\<lambda>st.
        free_group_loop
          (if flags h AND SF_OBJ_FLAG_EMBEDDED = 0 then free_block st use_allocator member (ucast (alloc_size h)) else st)
          use_allocator nxt))))"

declare free_group_loop.simps [code]

definition free_group_members :: "objects \<Rightarrow> addr \<Rightarrow> addr \<Rightarrow> objects option" where
  "free_group_members st head a = free_group_loop st (if a \<noteq> nullptr then a else o_default_allocator st) head"

text \<open>\<open>sf_object_dispose\<close> for an object outside every group that is embedded or has a parent.\<close>

definition dispose_ungrouped :: "objects \<Rightarrow> addr \<Rightarrow> addr \<Rightarrow> objects option" where
  "dispose_ungrouped st hdr obj = do {
     a \<leftarrow> sf_header_allocator st hdr;
     h \<leftarrow> o_hdrs st hdr;
     let total_size = ucast (alloc_size h);
     let embedded = (flags h AND SF_OBJ_FLAG_EMBEDDED \<noteq> 0);
     if state h \<noteq> SF_OBJ_STATE_LIVE then Some st
     else do {
       st \<leftarrow> clear_embedded_owner_slot st hdr obj;
       st \<leftarrow> sf_unregister_live_object_header st hdr;
       st \<leftarrow> mark_disposed st hdr;
       let a = (if a = nullptr then o_default_allocator st else a);
       st \<leftarrow> sf_header_destroy_sidecar st hdr False;
       Some (if embedded then st else free_block st a hdr total_size)
     }
   }"

text \<open>One member fewer; the head of the list and the allocator of the group if it was the last.\<close>

definition leave_group :: "objects \<Rightarrow> addr \<Rightarrow> (addr \<times> addr \<times> objects) option" where
  "leave_group st root = do {
     count \<leftarrow> sf_header_group_live_count st root;
     (_, st) \<leftarrow> (if count > 0 then sf_header_set_group_live_count st root (count - 1) else Some (True, st));
     count \<leftarrow> sf_header_group_live_count st root;
     if count = 0 then do {
       free_head \<leftarrow> sf_header_group_head st root;
       group_allocator \<leftarrow> sf_header_allocator st root;
       (_, st) \<leftarrow> sf_header_set_group_head st root nullptr;
       Some (free_head, group_allocator, st)
     }
     else Some (nullptr, nullptr, st)
   }"

definition dispose_grouped :: "objects \<Rightarrow> addr \<Rightarrow> addr \<Rightarrow> addr \<Rightarrow> objects option" where
  "dispose_grouped st root hdr obj = do {
     h \<leftarrow> o_hdrs st hdr;
     if state h \<noteq> SF_OBJ_STATE_LIVE then Some st
     else do {
       st \<leftarrow> clear_embedded_owner_slot st hdr obj;
       st \<leftarrow> sf_unregister_live_object_header st hdr;
       st \<leftarrow> mark_disposed st hdr;
       (free_head, group_allocator, st) \<leftarrow> leave_group st root;
       if free_head \<noteq> nullptr then do {
         st \<leftarrow> sf_header_destroy_sidecar st root True;
         free_group_members st free_head group_allocator
       }
       else Some st
     }
   }"

text \<open>\<open>sf_object_dispose\<close> from the test for group state on.\<close>

definition dispose_header :: "objects \<Rightarrow> addr \<Rightarrow> addr \<Rightarrow> objects option" where
  "dispose_header st hdr obj = do {
     h \<leftarrow> o_hdrs st hdr;
     if flags h AND SF_OBJ_FLAG_EMBEDDED = 0 \<and> \<not> header_has_sidecar_state h then dispose_plain_object st hdr
     else do {
       root \<leftarrow> sf_header_group_root st hdr;
       group_lock \<leftarrow> sf_header_group_lock st hdr;
       grouped \<leftarrow> sf_header_grouped st hdr;
       if \<not> grouped \<or> group_lock = nullptr then dispose_ungrouped st hdr obj
       else dispose_grouped st root hdr obj
     }
   }"

definition sf_object_dispose :: "runtime \<Rightarrow> addr \<Rightarrow> runtime option" where
  "sf_object_dispose rt obj = do {
     (hdr, rt) \<leftarrow> header_candidate rt obj;
     if hdr = nullptr then Some rt
     else do {
       h \<leftarrow> read_header rt hdr;
       if flags h AND SF_OBJ_FLAG_IMMORTAL \<noteq> 0 then Some rt
       else do {
         rt \<leftarrow> (if sf_header_has_aux_flag (Some h) SF_OBJ_AUX_FLAG_HAS_EXCEPTION_METADATA
               then sf_exception_clear_metadata rt obj else Some rt);
         let st = rt_objects rt;
         let st = (if obj = g_last_header_obj st then st\<lparr>g_last_header_obj := nullptr, g_last_header_ptr := nullptr\<rparr> else st);
         with_objects rt (dispose_header st hdr obj)
       }
     }
   }"

section \<open>Tearing objects down\<close>

definition retain_known_heap_object :: "objects \<Rightarrow> addr \<Rightarrow> addr \<Rightarrow> objects option" where
  "retain_known_heap_object st obj hdr = do {
     h \<leftarrow> o_hdrs st hdr;
     if flags h AND SF_OBJ_FLAG_IMMORTAL \<noteq> 0 \<or> state h \<noteq> SF_OBJ_STATE_LIVE then Some st
     else do {
       owned \<leftarrow> embedded_owner_slot_contains_object st hdr obj;
       if owned then Some st else write_hdr st hdr (\<lambda>h. h\<lparr>refcount := refcount h + 1\<rparr>)
     }
   }"

text \<open>The counting part of \<open>release_object_now_known_header\<close>: whether the last reference is gone.\<close>

definition drop_reference :: "objects \<Rightarrow> addr \<Rightarrow> addr \<Rightarrow> (bool \<times> objects) option" where
  "drop_reference st obj hdr = do {
     h \<leftarrow> o_hdrs st hdr;
     if flags h AND SF_OBJ_FLAG_IMMORTAL \<noteq> 0 \<or> state h \<noteq> SF_OBJ_STATE_LIVE then Some (False, st)
     else do {
       owned \<leftarrow> embedded_owner_slot_contains_object st hdr obj;
       if owned \<or> refcount h = 0 then Some (False, st)
       else do {
         st \<leftarrow> write_hdr st hdr (\<lambda>h. h\<lparr>refcount := refcount h - 1\<rparr>);
         Some (refcount h = 1, st)
       }
     }
   }"

definition call_dealloc :: "runtime_env \<Rightarrow> runtime \<Rightarrow> addr \<Rightarrow> addr \<Rightarrow> runtime option" where
  "call_dealloc env rt obj cls = do {
     let dealloc_sel = l_dealloc_sel (rt_loader rt);
     (imp, rt) \<leftarrow> with_loader rt (sf_class_cached_dealloc_imp (rt_loader rt) cls);
     if imp \<noteq> nullptr \<and> dealloc_sel \<noteq> nullptr then call_imp env imp obj dealloc_sel rt else Some rt
   }"

text \<open>\<open>which\<close> tells the static selector of \<open>release_object_nontrivial\<close> from that of \<open>clear_object_ivars\<close>.\<close>

definition call_cxx_destruct :: "runtime_env \<Rightarrow> bool \<Rightarrow> runtime \<Rightarrow> addr \<Rightarrow> addr \<Rightarrow> runtime option" where
  "call_cxx_destruct env which rt obj cls = do {
     let rt = (if cxx_destruct_sels rt which \<noteq> nullptr then rt
               else case sf_intern_selector (l_sels (rt_loader rt)) (cxx_destruct_data env which) of
                 (sel, sels) \<Rightarrow> rt\<lparr>rt_loader := (rt_loader rt)\<lparr>l_sels := sels\<rparr>,
                                cxx_destruct_sels := (cxx_destruct_sels rt)(which := sel)\<rparr>);
     if cxx_destruct_sels rt which = nullptr then Some rt
     else do {
       (imp, rt) \<leftarrow> with_loader rt (sf_class_cached_cxx_destruct_imp (rt_loader rt) cls);
       if imp \<noteq> nullptr then call_imp env imp obj (cxx_destruct_sels rt which) rt else Some rt
     }
   }"

definition clear_word :: "runtime \<Rightarrow> addr \<Rightarrow> runtime" where
  "clear_word rt slot =
     (let st = rt_objects rt in rt\<lparr>rt_objects := st\<lparr>o_words := (o_words st)(slot \<mapsto> nullptr)\<rparr>\<rparr>)"

text \<open>The object pointer at \<open>slot\<close>, when \<open>clear_object_ivars_slow\<close> would clear it: its type is an object type.\<close>

definition slow_slot :: "addr \<Rightarrow> SFObjCIvar \<Rightarrow> addr option" where
  "slow_slot obj iv =
     (case (iv_offset iv, iv_type iv) of
        (Some off, Some t) \<Rightarrow>
          if sf_type_is_object_ivar (Some t) \<and> off \<noteq> INT32_MAX then Some (obj + scast off) else None
      | _ \<Rightarrow> None)"

text \<open>The mutually recursive functions, with their arguments: \<open>Release obj\<close> is \<open>objc_release\<close> without its
  shortcut for the last header, \<open>ReleaseKnown obj hdr\<close> is \<open>release_object_now_known_header\<close>,
  \<open>Teardown which obj hdr\<close> is \<open>release_object_nontrivial\<close> or the same steps in \<open>clear_object_ivars\<close>,
  \<open>ClearIvars obj cls\<close> is \<open>clear_object_ivars\<close> and \<open>ClearOffsets\<close> its loop, and \<open>ClearSlow\<close>,
  \<open>ClearSlowIvars\<close> are the two loops of \<open>clear_object_ivars_slow\<close>.\<close>

datatype arc_call =
    Release addr
  | ReleaseKnown addr addr
  | Teardown bool addr addr
  | ClearIvars addr addr
  | ClearOffsets addr "u32 list"
  | ClearSlow addr addr
  | ClearSlowIvars addr "SFObjCIvar list"

partial_function (option) arc :: "runtime_env \<Rightarrow> arc_call \<Rightarrow> runtime \<Rightarrow> runtime option" where
  "arc env call rt = (case call of
     Release obj \<Rightarrow>
       (if obj = nullptr then Some rt
        else Option.bind (header_candidate rt obj) (\<lambda>hr.
          if fst hr = nullptr then
            Option.bind (object_is_block (snd hr) obj) (\<lambda>block. if block then block_release env obj (snd hr) else Some (snd hr))
          else arc env (ReleaseKnown obj (fst hr)) (snd hr)))
   | ReleaseKnown obj hdr \<Rightarrow>
       Option.bind (drop_reference (rt_objects rt) obj hdr) (\<lambda>dropped.
         if \<not> fst dropped then Some (rt\<lparr>rt_objects := snd dropped\<rparr>)
         else Option.bind (o_hdrs (snd dropped) hdr) (\<lambda>h.
           if header_has_trivial_release h then sf_object_dispose (rt\<lparr>rt_objects := snd dropped\<rparr>) obj
           else arc env (Teardown True obj hdr) (rt\<lparr>rt_objects := snd dropped\<rparr>)))
   | Teardown which obj hdr \<Rightarrow>
       Option.bind (read_header rt hdr) (\<lambda>h.
       Option.bind (object_class_of rt obj) (\<lambda>cls.
       Option.bind (call_dealloc env rt obj cls) (\<lambda>rt.
       Option.bind (if header_has_object_ivars h then arc env (ClearIvars obj cls) rt else Some rt) (\<lambda>rt.
       Option.bind (if header_has_cxx_destruct h then call_cxx_destruct env which rt obj cls else Some rt) (\<lambda>rt.
       sf_object_dispose rt obj)))))
   | ClearIvars obj cls \<Rightarrow>
       Option.bind (with_loader rt (sf_class_cached_object_ivar_offsets (rt_loader rt) cls)) (\<lambda>cached.
         if snd (fst cached) = 0 then Some (snd cached)
         else (case fst (fst cached) of
             None \<Rightarrow> arc env (ClearSlow obj cls) (snd cached)
           | Some offsets \<Rightarrow> arc env (ClearOffsets obj (take (snd (fst cached)) offsets)) (snd cached)))
   | ClearOffsets obj offsets \<Rightarrow>
       (case offsets of
          [] \<Rightarrow> Some rt
        | off # offsets \<Rightarrow>
            Option.bind (o_words (rt_objects rt) (obj + ucast off)) (\<lambda>old.
            Option.bind
              (if old = nullptr then Some rt
               else Option.bind (header_candidate (clear_word rt (obj + ucast off)) old) (\<lambda>hr.
                 if fst hr = nullptr then arc env (Release old) (snd hr)
                 else Option.bind (read_header (snd hr) (fst hr)) (\<lambda>h.
                   if flags h AND SF_OBJ_FLAG_EMBEDDED = 0 then arc env (Release old) (snd hr)
                   else if header_has_trivial_release h then sf_object_dispose (snd hr) old
                   else arc env (Teardown False old (fst hr)) (snd hr))))
              (\<lambda>rt. arc env (ClearOffsets obj offsets) rt)))
   | ClearSlow obj cursor \<Rightarrow>
       (if cursor = nullptr then Some rt
        else Option.bind (l_classes (rt_loader rt) cursor) (\<lambda>c.
          Option.bind (arc env (ClearSlowIvars obj (c_ivars c)) rt) (\<lambda>rt.
          arc env (ClearSlow obj (if superclass c \<noteq> cursor then superclass c else nullptr)) rt)))
   | ClearSlowIvars obj ivs \<Rightarrow>
       (case ivs of
          [] \<Rightarrow> Some rt
        | iv # ivs \<Rightarrow>
            Option.bind
              (case slow_slot obj iv of
                 None \<Rightarrow> Some rt
               | Some slot \<Rightarrow>
                   Option.bind (o_words (rt_objects rt) slot) (\<lambda>old.
                     if old = nullptr then Some rt else arc env (Release old) (clear_word rt slot)))
              (\<lambda>rt. arc env (ClearSlowIvars obj ivs) rt)))"

declare arc.simps [code]

text \<open>The functions of the code by their names.\<close>

definition release_object_now_known_header :: "runtime_env \<Rightarrow> runtime \<Rightarrow> addr \<Rightarrow> addr \<Rightarrow> runtime option" where
  "release_object_now_known_header env rt obj hdr = arc env (ReleaseKnown obj hdr) rt"

definition release_object_nontrivial :: "runtime_env \<Rightarrow> runtime \<Rightarrow> addr \<Rightarrow> addr \<Rightarrow> runtime option" where
  "release_object_nontrivial env rt obj hdr = arc env (Teardown True obj hdr) rt"

definition clear_object_ivars :: "runtime_env \<Rightarrow> runtime \<Rightarrow> addr \<Rightarrow> addr \<Rightarrow> runtime option" where
  "clear_object_ivars env rt obj cls = arc env (ClearIvars obj cls) rt"

definition clear_object_ivars_slow :: "runtime_env \<Rightarrow> runtime \<Rightarrow> addr \<Rightarrow> addr \<Rightarrow> runtime option" where
  "clear_object_ivars_slow env rt obj cls = arc env (ClearSlow obj cls) rt"

section \<open>Retain and release\<close>

text \<open>\<open>retain_object_or_block\<close> and \<open>release_object_or_block\<close>: \<open>hdr\<close> is null for what has no header.\<close>

definition retain_object_or_block :: "runtime_env \<Rightarrow> runtime \<Rightarrow> addr \<Rightarrow> addr \<Rightarrow> (addr \<times> runtime) option" where
  "retain_object_or_block env rt obj hdr =
     (if obj = nullptr then Some (nullptr, rt)
      else if hdr = nullptr then do {
        block \<leftarrow> object_is_block rt obj;
        if block then block_copy env obj rt else Some (obj, rt)
      }
      else do {
        st \<leftarrow> retain_known_heap_object (rt_objects rt) obj hdr;
        Some (obj, rt\<lparr>rt_objects := st\<rparr>)
      })"

definition release_object_or_block :: "runtime_env \<Rightarrow> runtime \<Rightarrow> addr \<Rightarrow> addr \<Rightarrow> runtime option" where
  "release_object_or_block env rt obj hdr =
     (if obj = nullptr then Some rt
      else if hdr = nullptr then do {
        block \<leftarrow> object_is_block rt obj;
        if block then block_release env obj rt else Some rt
      }
      else arc env (ReleaseKnown obj hdr) rt)"

text \<open>The shortcut for the last header: whether the object is a plain live one, and its header.\<close>

definition plain_last_header :: "runtime \<Rightarrow> addr \<Rightarrow> (SFObjHeader option) option" where
  "plain_last_header rt obj =
     (let hdr = g_last_header_ptr (rt_objects rt) in
      if obj \<noteq> g_last_header_obj (rt_objects rt) \<or> hdr = nullptr then Some None
      else case read_header rt hdr of None \<Rightarrow> None
           | Some h \<Rightarrow> Some (if header_is_plain_live_object h then Some h else None))"

definition last_or_candidate :: "runtime \<Rightarrow> addr \<Rightarrow> (addr \<times> runtime) option" where
  "last_or_candidate rt obj =
     (if obj = g_last_header_obj (rt_objects rt) \<and> g_last_header_ptr (rt_objects rt) \<noteq> nullptr
      then Some (g_last_header_ptr (rt_objects rt), rt)
      else header_candidate rt obj)"

definition objc_retain :: "runtime_env \<Rightarrow> runtime \<Rightarrow> addr \<Rightarrow> (addr \<times> runtime) option" where
  "objc_retain env rt obj =
     (if obj = nullptr then Some (nullptr, rt)
      else do {
        plain \<leftarrow> plain_last_header rt obj;
        if plain \<noteq> None then do {
          rt \<leftarrow> with_objects rt (write_hdr (rt_objects rt) (g_last_header_ptr (rt_objects rt)) (\<lambda>h. h\<lparr>refcount := refcount h + 1\<rparr>));
          Some (obj, rt)
        }
        else do {
          (hdr, rt) \<leftarrow> last_or_candidate rt obj;
          retain_object_or_block env rt obj hdr
        }
      })"

definition objc_release :: "runtime_env \<Rightarrow> runtime \<Rightarrow> addr \<Rightarrow> runtime option" where
  "objc_release env rt obj =
     (if obj = nullptr then Some rt
      else do {
        plain \<leftarrow> plain_last_header rt obj;
        if (case plain of None \<Rightarrow> False | Some h \<Rightarrow> refcount h > 1)
        then with_objects rt (write_hdr (rt_objects rt) (g_last_header_ptr (rt_objects rt)) (\<lambda>h. h\<lparr>refcount := refcount h - 1\<rparr>))
        else do {
          (hdr, rt) \<leftarrow> last_or_candidate rt obj;
          release_object_or_block env rt obj hdr
        }
      })"

definition release_object_now :: "runtime_env \<Rightarrow> runtime \<Rightarrow> addr \<Rightarrow> runtime option" where
  "release_object_now env rt obj = do {
     (hdr, rt) \<leftarrow> header_candidate rt obj;
     if hdr = nullptr then do {
       block \<leftarrow> object_is_block rt obj;
       if block then block_release env obj rt else Some rt
     }
     else arc env (ReleaseKnown obj hdr) rt
   }"

definition objc_retainBlock :: "runtime_env \<Rightarrow> runtime \<Rightarrow> addr \<Rightarrow> (addr \<times> runtime) option" where
  "objc_retainBlock env rt obj = (if obj \<noteq> nullptr then block_copy_pending env obj rt else Some (nullptr, rt))"

definition store_retain :: "runtime_env \<Rightarrow> runtime \<Rightarrow> addr \<Rightarrow> runtime option" where
  "store_retain env rt val =
     (if val = nullptr then Some rt
      else do {
        (hdr, rt) \<leftarrow> header_candidate rt val;
        if hdr \<noteq> nullptr then with_objects rt (retain_known_heap_object (rt_objects rt) val hdr)
        else map_option snd (objc_retain env rt val)
      })"

definition objc_storeStrong :: "runtime_env \<Rightarrow> runtime \<Rightarrow> addr \<Rightarrow> addr \<Rightarrow> runtime option" where
  "objc_storeStrong env rt dst val = do {
     old \<leftarrow> o_words (rt_objects rt) dst;
     if old = val then Some rt
     else do {
       rt \<leftarrow> store_retain env rt val;
       let rt = (let st = rt_objects rt in rt\<lparr>rt_objects := st\<lparr>o_words := (o_words st)(dst \<mapsto> val)\<rparr>\<rparr>);
       if old = nullptr then Some rt
       else do {
         (hdr, rt) \<leftarrow> header_candidate rt old;
         if hdr \<noteq> nullptr then arc env (ReleaseKnown old hdr) rt else objc_release env rt old
       }
     }
   }"

section \<open>Autorelease pools\<close>

function grown_capacity :: "nat \<Rightarrow> nat \<Rightarrow> nat" where
  "grown_capacity cap wanted = (if 0 < cap \<and> cap < wanted then grown_capacity (cap * 2) wanted else cap)"
  by pat_completeness auto
termination by (relation "measure (\<lambda>(cap, wanted). wanted - cap)") auto

text \<open>The result of the next call of \<open>sf_runtime_test_realloc\<close>.\<close>

definition next_realloc :: "runtime \<Rightarrow> bool \<times> runtime" where
  "next_realloc rt = (case rt_reallocs rt of [] \<Rightarrow> (False, rt) | ok # oks \<Rightarrow> (ok, rt\<lparr>rt_reallocs := oks\<rparr>))"

definition ensure_object_capacity :: "runtime \<Rightarrow> nat \<Rightarrow> bool \<times> runtime" where
  "ensure_object_capacity rt wanted =
     (if pool_capacity rt \<ge> wanted then (True, rt)
      else let new_cap = grown_capacity (if pool_capacity rt \<noteq> 0 then pool_capacity rt * 2 else 64) wanted;
               (ok, rt) = next_realloc rt
           in if ok then (True, rt\<lparr>pool_capacity := new_cap\<rparr>) else (False, rt))"

definition ensure_marker_capacity :: "runtime \<Rightarrow> nat \<Rightarrow> bool \<times> runtime" where
  "ensure_marker_capacity rt wanted =
     (if marker_capacity rt \<ge> wanted then (True, rt)
      else let new_cap = grown_capacity (if marker_capacity rt \<noteq> 0 then marker_capacity rt * 2 else 8) wanted;
               (ok, rt) = next_realloc rt
           in if ok then (True, rt\<lparr>marker_capacity := new_cap\<rparr>) else (False, rt))"

definition sf_autorelease :: "runtime \<Rightarrow> addr \<Rightarrow> (addr \<times> runtime) option" where
  "sf_autorelease rt obj = do {
     (hdr, rt) \<leftarrow> header_candidate rt obj;
     managed \<leftarrow> (if hdr \<noteq> nullptr then Some True else object_is_block rt obj);
     if \<not> managed \<or> pool_markers rt = [] then Some (obj, rt)
     else case ensure_object_capacity rt (length (pool_objects rt) + 1) of
       (ok, rt) \<Rightarrow> Some (obj, if ok then rt\<lparr>pool_objects := obj # pool_objects rt\<rparr> else rt)
   }"

definition objc_autoreleasePoolPush :: "runtime_env \<Rightarrow> runtime \<Rightarrow> addr \<times> runtime" where
  "objc_autoreleasePoolPush env rt =
     (let marker = length (pool_objects rt);
          (ok, rt) = ensure_marker_capacity rt (length (pool_markers rt) + 1);
          rt = (if ok then rt\<lparr>pool_markers := marker # pool_markers rt\<rparr> else rt)
      in case rt_mallocs rt of
           [] \<Rightarrow> (pool_fallback env, rt\<lparr>g_pool_fallback_token := marker\<rparr>)
         | token # rest \<Rightarrow>
             if token \<noteq> nullptr then (token, rt\<lparr>rt_mallocs := rest, pool_tokens := (pool_tokens rt)(token \<mapsto> marker)\<rparr>)
             else (pool_fallback env, rt\<lparr>rt_mallocs := rest, g_pool_fallback_token := marker\<rparr>))"

partial_function (option) drain_pool :: "runtime_env \<Rightarrow> nat \<Rightarrow> runtime \<Rightarrow> runtime option" where
  "drain_pool env marker rt =
     (case pool_objects rt of
        [] \<Rightarrow> Some rt
      | obj # objs \<Rightarrow>
          if length (pool_objects rt) > marker
          then Option.bind (release_object_now env (rt\<lparr>pool_objects := objs\<rparr>) obj) (drain_pool env marker)
          else Some rt)"

declare drain_pool.simps [code]

text \<open>The marker a pool token stands for, and the state after the token is freed.\<close>

definition pool_marker :: "runtime_env \<Rightarrow> runtime \<Rightarrow> addr \<Rightarrow> (nat \<times> runtime) option" where
  "pool_marker env rt pool =
     (if pool = pool_fallback env then Some (g_pool_fallback_token rt, rt)
      else if pool = nullptr then Some (length (pool_objects rt), rt)
      else do {
        marker \<leftarrow> pool_tokens rt pool;
        Some (marker, rt\<lparr>pool_tokens := (pool_tokens rt)(pool := None)\<rparr>)
      })"

definition objc_autoreleasePoolPop :: "runtime_env \<Rightarrow> runtime \<Rightarrow> addr \<Rightarrow> runtime option" where
  "objc_autoreleasePoolPop env rt pool = do {
     (marker, rt) \<leftarrow> pool_marker env rt pool;
     let rt = (case pool_markers rt of [] \<Rightarrow> rt
               | top_marker # rest \<Rightarrow> if top_marker = marker then rt\<lparr>pool_markers := rest\<rparr> else rt);
     drain_pool env (if marker > length (pool_objects rt) then length (pool_objects rt) else marker) rt
   }"

definition objc_retainAutorelease :: "runtime_env \<Rightarrow> runtime \<Rightarrow> addr \<Rightarrow> (addr \<times> runtime) option" where
  "objc_retainAutorelease env rt obj = do { (obj, rt) \<leftarrow> objc_retain env rt obj; sf_autorelease rt obj }"

definition objc_retainAutoreleasedReturnValue :: "runtime_env \<Rightarrow> runtime \<Rightarrow> addr \<Rightarrow> (addr \<times> runtime) option" where
  "objc_retainAutoreleasedReturnValue env rt obj = objc_retain env rt obj"

definition objc_autoreleaseReturnValue :: "runtime \<Rightarrow> addr \<Rightarrow> (addr \<times> runtime) option" where
  "objc_autoreleaseReturnValue rt obj = sf_autorelease rt obj"

definition objc_retainAutoreleaseReturnValue :: "runtime_env \<Rightarrow> runtime \<Rightarrow> addr \<Rightarrow> (addr \<times> runtime) option" where
  "objc_retainAutoreleaseReturnValue env rt obj = do { (obj, rt) \<leftarrow> objc_retain env rt obj; sf_autorelease rt obj }"

definition sf_runtime_test_reset_autorelease_state :: "runtime \<Rightarrow> runtime" where
  "sf_runtime_test_reset_autorelease_state rt = rt\<lparr>pool_objects := [], pool_capacity := 0, pool_markers := [],
     marker_capacity := 0, g_pool_fallback_token := 0,
     rt_objects := (rt_objects rt)\<lparr>g_last_header_obj := nullptr, g_last_header_ptr := nullptr\<rparr>\<rparr>"

end
