(* ===== verification/SF_Refcount.thy ===== *)
theory SF_Refcount
  imports SF_Arc
begin

unbundle bit_operations_syntax

text \<open>
  What retain and release do to the count of an object, and what the last release of a plain object
  frees.  The shortcuts for the object looked up last are shown to be invisible first, so that the rest
  speaks of the general path only.
\<close>

section \<open>The shortcuts change nothing\<close>

lemma plain_flags:
  assumes "header_is_plain_live_object h"
  shows "flags h AND SF_OBJ_FLAG_IMMORTAL = 0" "flags h AND SF_OBJ_FLAG_EMBEDDED = 0" "state h = SF_OBJ_STATE_LIVE"
proof -
  have "flags h AND (SF_OBJ_FLAG_IMMORTAL OR SF_OBJ_FLAG_EMBEDDED) = 0" and live: "state h = SF_OBJ_STATE_LIVE"
    using assms by (simp_all add: header_is_plain_live_object_def)
  then have "\<not> bit (flags h AND (SF_OBJ_FLAG_IMMORTAL OR SF_OBJ_FLAG_EMBEDDED)) n" for n by simp
  then have off: "\<not> (bit (flags h) n \<and> (bit SF_OBJ_FLAG_IMMORTAL n \<or> bit SF_OBJ_FLAG_EMBEDDED n))" for n
    by (simp add: bit_simps)
  show "flags h AND SF_OBJ_FLAG_IMMORTAL = 0" "flags h AND SF_OBJ_FLAG_EMBEDDED = 0"
    by (rule bit_word_eqI; use off in \<open>auto simp: bit_simps\<close>)+
  show "state h = SF_OBJ_STATE_LIVE" by (rule live)
qed

text \<open>A test of an object flag looks only at the low byte.\<close>

lemma low_flags:
  assumes "f AND SF_OBJ_FLAG_PACKED_MASK = g AND SF_OBJ_FLAG_PACKED_MASK"
  shows "f AND SF_OBJ_FLAG_EMBEDDED = g AND SF_OBJ_FLAG_EMBEDDED" "f AND SF_OBJ_FLAG_IMMORTAL = g AND SF_OBJ_FLAG_IMMORTAL"
proof -
  have masks: "SF_OBJ_FLAG_PACKED_MASK AND SF_OBJ_FLAG_EMBEDDED = SF_OBJ_FLAG_EMBEDDED"
      "SF_OBJ_FLAG_PACKED_MASK AND SF_OBJ_FLAG_IMMORTAL = SF_OBJ_FLAG_IMMORTAL"
    by (simp_all add: abi_consts)
  show "f AND SF_OBJ_FLAG_EMBEDDED = g AND SF_OBJ_FLAG_EMBEDDED" "f AND SF_OBJ_FLAG_IMMORTAL = g AND SF_OBJ_FLAG_IMMORTAL"
    using assms by (metis and.assoc masks)+
qed

lemma plain_owner_slot:
  assumes "o_hdrs st hdr = Some h" "flags h AND SF_OBJ_FLAG_EMBEDDED = 0"
  shows "embedded_owner_slot_contains_object st hdr obj = Some False" "clear_embedded_owner_slot st hdr obj = Some st"
  using assms by (simp_all add: embedded_owner_slot_contains_object_def clear_embedded_owner_slot_def embedded_owner_slot_def)

lemma retain_known_plain:
  assumes "o_hdrs st hdr = Some h" "header_is_plain_live_object h"
  shows "retain_known_heap_object st obj hdr = write_hdr st hdr (\<lambda>h. h\<lparr>refcount := refcount h + 1\<rparr>)"
  using assms(1) plain_flags [OF assms(2)] plain_owner_slot [OF assms(1), of obj]
  by (simp add: retain_known_heap_object_def)

lemma drop_reference_plain:
  assumes "o_hdrs st hdr = Some h" "header_is_plain_live_object h" "refcount h \<noteq> 0"
  shows "drop_reference st obj hdr =
    Some (refcount h = 1, st\<lparr>o_hdrs := (o_hdrs st)(hdr \<mapsto> h\<lparr>refcount := refcount h - 1\<rparr>)\<rparr>)"
  using assms(1,3) plain_flags [OF assms(2)] plain_owner_slot [OF assms(1), of obj]
  by (simp add: drop_reference_def write_hdr_def)

lemma last_candidate:
  "obj \<noteq> nullptr \<Longrightarrow> last_or_candidate rt obj = header_candidate rt obj"
  by (cases rt) (auto simp: last_or_candidate_def header_candidate_def header_from_heap_candidate_def)

lemma plain_last_headerD:
  assumes "plain_last_header rt obj = Some (Some h)"
  shows "obj = g_last_header_obj (rt_objects rt)" "g_last_header_ptr (rt_objects rt) \<noteq> nullptr"
    "o_hdrs (rt_objects rt) (g_last_header_ptr (rt_objects rt)) = Some h" "header_is_plain_live_object h"
    "header_candidate rt obj = Some (g_last_header_ptr (rt_objects rt), rt)"
  using assms
  by (cases rt; auto simp: plain_last_header_def Let_def read_header_def header_candidate_def header_from_heap_candidate_def
      split: if_splits option.splits)+

lemma plain_last_header_fault:
  assumes "plain_last_header rt obj = None"
  shows "header_candidate rt obj = Some (g_last_header_ptr (rt_objects rt), rt)"
    "g_last_header_ptr (rt_objects rt) \<noteq> nullptr" "o_hdrs (rt_objects rt) (g_last_header_ptr (rt_objects rt)) = None"
  using assms
  by (cases rt; auto simp: plain_last_header_def Let_def read_header_def header_candidate_def header_from_heap_candidate_def
      split: if_splits option.splits)+

lemma drop_reference_fault: "o_hdrs st hdr = None \<Longrightarrow> drop_reference st obj hdr = None"
  by (simp add: drop_reference_def)

lemma arc_release:
  "arc env (Release obj) rt =
     (if obj = nullptr then Some rt
      else Option.bind (header_candidate rt obj) (\<lambda>(hdr, rt). release_object_or_block env rt obj hdr))"
  by (subst arc.simps) (auto simp: release_object_or_block_def case_prod_beta bind_eq_None_conv intro!: bind_option_cong)

lemma arc_release_known:
  "arc env (ReleaseKnown obj hdr) rt =
     Option.bind (drop_reference (rt_objects rt) obj hdr) (\<lambda>(gone, st).
       if \<not> gone then Some (rt\<lparr>rt_objects := st\<rparr>)
       else Option.bind (o_hdrs st hdr) (\<lambda>h.
         if header_has_trivial_release h then sf_object_dispose (rt\<lparr>rt_objects := st\<rparr>) obj
         else arc env (Teardown True obj hdr) (rt\<lparr>rt_objects := st\<rparr>)))"
  by (subst arc.simps) (simp add: case_prod_beta')

lemma release_via_header:
  "objc_release env rt obj = arc env (Release obj) rt"
proof (cases "obj = nullptr")
  case False
  show ?thesis
  proof (cases "plain_last_header rt obj")
    case None
    note f = plain_last_header_fault [OF None]
    have "arc env (ReleaseKnown obj (g_last_header_ptr (rt_objects rt))) rt = None"
      by (simp add: arc_release_known drop_reference_fault [OF f(3)])
    with False None f show ?thesis
      by (simp add: objc_release_def arc_release release_object_or_block_def)
  next
    case (Some plain)
    have general: "Option.bind (last_or_candidate rt obj) (\<lambda>(hdr, rt). release_object_or_block env rt obj hdr)
        = arc env (Release obj) rt"
      using False by (simp add: last_candidate arc_release)
    show ?thesis
    proof (cases "case plain of None \<Rightarrow> False | Some h \<Rightarrow> refcount h > 1")
      case True
      then obtain h where h: "plain = Some h" "refcount h > 1" by (auto split: option.splits)
      note p = plain_last_headerD [OF Some [unfolded h(1)]]
      have "refcount h \<noteq> 0" "refcount h \<noteq> 1" using h(2) by auto
      then have "arc env (ReleaseKnown obj (g_last_header_ptr (rt_objects rt))) rt =
          Some (rt\<lparr>rt_objects := (rt_objects rt)\<lparr>o_hdrs := (o_hdrs (rt_objects rt))
             (g_last_header_ptr (rt_objects rt) \<mapsto> h\<lparr>refcount := refcount h - 1\<rparr>)\<rparr>\<rparr>)"
        by (simp add: arc_release_known drop_reference_plain [OF p(3,4)])
      with False Some True p(2,3,5) h show ?thesis
        by (simp add: objc_release_def arc_release release_object_or_block_def with_objects_def write_hdr_def)
    next
      case no: False
      have "objc_release env rt obj = Option.bind (last_or_candidate rt obj) (\<lambda>(hdr, rt). release_object_or_block env rt obj hdr)"
        using False Some no by (auto simp: objc_release_def split: option.splits)
      with general show ?thesis by simp
    qed
  qed
qed (simp add: objc_release_def arc_release)

lemma retain_via_header:
  assumes "obj \<noteq> nullptr"
  shows "objc_retain env rt obj =
    Option.bind (header_candidate rt obj) (\<lambda>(hdr, rt). retain_object_or_block env rt obj hdr)"
proof (cases "plain_last_header rt obj")
  case None
  note f = plain_last_header_fault [OF None]
  with None assms show ?thesis
    by (simp add: objc_retain_def retain_object_or_block_def retain_known_heap_object_def)
next
  case (Some plain)
  show ?thesis
  proof (cases plain)
    case None
    with Some assms show ?thesis by (simp add: objc_retain_def last_candidate)
  next
    case h: (Some h)
    note p = plain_last_headerD [OF Some [unfolded h]]
    from Some h assms p(2,3,5) show ?thesis
      by (simp add: objc_retain_def retain_object_or_block_def retain_known_plain [OF p(3,4)] with_objects_def write_hdr_def)
  qed
qed

lemma release_now_via_header:
  assumes "obj \<noteq> nullptr"
  shows "release_object_now env rt obj = arc env (Release obj) rt"
  using assms by (simp add: release_object_now_def arc_release release_object_or_block_def)


section \<open>The cache of the last header\<close>

definition heap_object :: "addr set \<Rightarrow> addr \<Rightarrow> bool" where
  "heap_object L obj \<longleftrightarrow> obj \<noteq> nullptr \<and> \<not> sf_is_tagged_pointer obj \<and> obj - sizeof_SFObjHeader \<in> L"

lemma heap_object_nonnull:
  assumes "live_set st L" "heap_object L obj"
  shows "obj \<noteq> nullptr" "obj - sizeof_SFObjHeader \<noteq> nullptr"
  using assms(2) live_set_mapped [OF assms(1), of "obj - sizeof_SFObjHeader"] unfolding heap_object_def by blast+

text \<open>The headers in the table are \<open>L\<close>, and the cache is empty or holds one of them.\<close>

definition cache_ok :: "objects \<Rightarrow> addr set \<Rightarrow> bool" where
  "cache_ok st L \<longleftrightarrow> live_set st L
     \<and> (if g_last_header_obj st = nullptr then g_last_header_ptr st = nullptr
        else heap_object L (g_last_header_obj st) \<and> g_last_header_ptr st = g_last_header_obj st - sizeof_SFObjHeader)"

definition same_but_cache :: "objects \<Rightarrow> objects \<Rightarrow> bool" where
  "same_but_cache st st' \<longleftrightarrow>
     st' = st\<lparr>g_last_header_obj := g_last_header_obj st', g_last_header_ptr := g_last_header_ptr st'\<rparr>"

lemma same_but_cache_fields:
  assumes "same_but_cache st st'"
  shows "o_hdrs st' = o_hdrs st" "o_words st' = o_words st" "o_groups st' = o_groups st" "o_frees st' = o_frees st"
    "o_buckets st' = o_buckets st" "o_default_allocator st' = o_default_allocator st"
  using assms by (cases st; cases st'; simp add: same_but_cache_def)+

lemma cache_ok_live: "cache_ok st L \<Longrightarrow> live_set st L"
  by (simp add: cache_ok_def)

lemma cache_ok_candidate:
  assumes "cache_ok st L"
  shows "\<exists>st'. header_from_heap_candidate st obj = Some (if heap_object L obj then obj - sizeof_SFObjHeader else nullptr, st')
     \<and> cache_ok st' L \<and> same_but_cache st st' \<and> (heap_object L obj \<longrightarrow> g_last_header_obj st' = obj)"
proof -
  have live: "live_set st L" using assms by (simp add: cache_ok_def)
  have nz: "obj - sizeof_SFObjHeader \<noteq> nullptr" if "heap_object L obj"
    using heap_object_nonnull [OF live that] by simp
  let ?st = "st\<lparr>g_last_header_obj := obj, g_last_header_ptr := obj - sizeof_SFObjHeader\<rparr>"
  show ?thesis
  proof (cases "obj = g_last_header_obj st")
    case True
    with assms show ?thesis
      by (intro exI [of _ st]) (auto simp: header_from_heap_candidate_def cache_ok_def same_but_cache_def heap_object_def split: if_splits)
  next
    case other: False
    show ?thesis
    proof (cases "heap_object L obj")
      case True
      have "live_set ?st L" using live live_set_cong [of ?st st] by (simp add: live_links_def)
      with True have "cache_ok ?st L" by (simp add: cache_ok_def heap_object_def)
      moreover have "header_from_heap_candidate st obj = Some (obj - sizeof_SFObjHeader, ?st)"
        using True other nz live_set_find [OF live, of obj] by (simp add: header_from_heap_candidate_def heap_object_def)
      ultimately show ?thesis using True by (auto simp: same_but_cache_def)
    next
      case False
      then have "header_from_heap_candidate st obj = Some (nullptr, st)"
        using other live_set_find [OF live, of obj] by (auto simp: header_from_heap_candidate_def heap_object_def)
      with False assms show ?thesis by (auto simp: same_but_cache_def)
    qed
  qed
qed

section \<open>Counting\<close>

text \<open>\<open>obj\<close> is a plain live object with \<open>n > 0\<close> references.\<close>

definition counted :: "objects \<Rightarrow> addr set \<Rightarrow> addr \<Rightarrow> nat \<Rightarrow> bool" where
  "counted st L obj n \<longleftrightarrow> cache_ok st L \<and> heap_object L obj \<and> 0 < n
     \<and> (\<exists>h. o_hdrs st (obj - sizeof_SFObjHeader) = Some h \<and> header_is_plain_live_object h \<and> unat (refcount h) = n)"

text \<open>What the reference counting of one object leaves alone.\<close>

definition counts_only :: "addr \<Rightarrow> objects \<Rightarrow> objects \<Rightarrow> bool" where
  "counts_only obj st st' \<longleftrightarrow> o_frees st' = o_frees st \<and> o_words st' = o_words st \<and> o_groups st' = o_groups st
     \<and> (\<forall>a. a = obj - sizeof_SFObjHeader \<or> o_hdrs st' a = o_hdrs st a)
     \<and> map_option (\<lambda>h. h\<lparr>refcount := 0\<rparr>) (o_hdrs st' (obj - sizeof_SFObjHeader))
       = map_option (\<lambda>h. h\<lparr>refcount := 0\<rparr>) (o_hdrs st (obj - sizeof_SFObjHeader))"

lemma counts_only_refl: "counts_only obj st st"
  by (simp add: counts_only_def)

lemma counts_only_trans: "counts_only obj st st' \<Longrightarrow> counts_only obj st' st'' \<Longrightarrow> counts_only obj st st''"
  by (auto simp: counts_only_def) metis

lemma set_count:
  assumes "cache_ok st L" "heap_object L obj" "o_hdrs st (obj - sizeof_SFObjHeader) = Some h"
    "header_is_plain_live_object h" "rc \<noteq> 0" "st' = st\<lparr>o_hdrs := (o_hdrs st)(obj - sizeof_SFObjHeader \<mapsto> h\<lparr>refcount := rc\<rparr>)\<rparr>"
  shows "counted st' L obj (unat rc) \<and> counts_only obj st st'"
proof -
  have "live_set st' L = live_set st L"
    unfolding assms(6) by (rule live_set_cong) (simp_all add: live_links_def assms(3))
  then have "cache_ok st' L" using assms(1) by (simp add: cache_ok_def assms(6))
  moreover have "header_is_plain_live_object (h\<lparr>refcount := rc\<rparr>)"
    using assms(4) by (simp add: header_is_plain_live_object_def)
  moreover have "0 < unat rc" using assms(5) by (simp add: unat_gt_0)
  ultimately show ?thesis using assms(2,3) by (simp add: counted_def counts_only_def assms(6))
qed

lemma retain_counted:
  assumes "counted (rt_objects rt) L obj n" "n + 1 < 2 ^ 32"
  shows "\<exists>rt'. objc_retain env rt obj = Some (obj, rt') \<and> counted (rt_objects rt') L obj (n + 1)
     \<and> counts_only obj (rt_objects rt) (rt_objects rt') \<and> rt' = rt\<lparr>rt_objects := rt_objects rt'\<rparr>"
proof -
  let ?hdr = "obj - sizeof_SFObjHeader"
  obtain h where h: "cache_ok (rt_objects rt) L" "heap_object L obj" "o_hdrs (rt_objects rt) ?hdr = Some h"
      "header_is_plain_live_object h" "unat (refcount h) = n" using assms(1) by (auto simp: counted_def)
  have nz: "obj \<noteq> nullptr" "?hdr \<noteq> nullptr"
    using heap_object_nonnull [OF cache_ok_live [OF h(1)] h(2)] by simp_all
  from cache_ok_candidate [OF h(1), of obj] h(2) obtain st where
    st: "header_from_heap_candidate (rt_objects rt) obj = Some (?hdr, st)" "cache_ok st L" "same_but_cache (rt_objects rt) st"
    by auto
  note same = same_but_cache_fields [OF st(3)]
  have hst: "o_hdrs st ?hdr = Some h" by (simp add: same h(3))
  define st' where "st' = st\<lparr>o_hdrs := (o_hdrs st)(?hdr \<mapsto> h\<lparr>refcount := refcount h + 1\<rparr>)\<rparr>"
  have rc: "unat (refcount h + 1) = n + 1" using assms(2) h(5) by (simp add: unat_word_ariths)
  then have "refcount h + 1 \<noteq> 0" by (metis add_is_0 one_neq_zero unat_0)
  from set_count [OF st(2) h(2) hst h(4) this st'_def] rc
  have c: "counted st' L obj (n + 1)" "counts_only obj st st'" by simp_all
  have "objc_retain env rt obj = Some (obj, rt\<lparr>rt_objects := st'\<rparr>)"
    using nz by (simp add: retain_via_header header_candidate_def st(1) retain_object_or_block_def
        retain_known_plain [OF hst h(4)] write_hdr_def hst st'_def)
  moreover have "counts_only obj (rt_objects rt) st'"
    using c(2) by (simp add: counts_only_def same)
  ultimately show ?thesis using c(1) by simp
qed

lemma release_counted:
  assumes "counted (rt_objects rt) L obj n" "1 < n"
  shows "\<exists>rt'. objc_release env rt obj = Some rt' \<and> counted (rt_objects rt') L obj (n - 1)
     \<and> counts_only obj (rt_objects rt) (rt_objects rt') \<and> rt' = rt\<lparr>rt_objects := rt_objects rt'\<rparr>"
proof -
  let ?hdr = "obj - sizeof_SFObjHeader"
  obtain h where h: "cache_ok (rt_objects rt) L" "heap_object L obj" "o_hdrs (rt_objects rt) ?hdr = Some h"
      "header_is_plain_live_object h" "unat (refcount h) = n" using assms(1) by (auto simp: counted_def)
  have nz: "obj \<noteq> nullptr" "?hdr \<noteq> nullptr"
    using heap_object_nonnull [OF cache_ok_live [OF h(1)] h(2)] by simp_all
  from cache_ok_candidate [OF h(1), of obj] h(2) obtain st where
    st: "header_from_heap_candidate (rt_objects rt) obj = Some (?hdr, st)" "cache_ok st L" "same_but_cache (rt_objects rt) st"
    by auto
  note same = same_but_cache_fields [OF st(3)]
  have hst: "o_hdrs st ?hdr = Some h" by (simp add: same h(3))
  define st' where "st' = st\<lparr>o_hdrs := (o_hdrs st)(?hdr \<mapsto> h\<lparr>refcount := refcount h - 1\<rparr>)\<rparr>"
  have ne: "refcount h \<noteq> 0" "refcount h \<noteq> 1" using assms(2) h(5) by auto
  have rc: "unat (refcount h - 1) = n - 1"
    using ne(1) h(5) by (simp add: unat_minus_one)
  have "refcount h - 1 \<noteq> 0" using ne(2) by simp
  from set_count [OF st(2) h(2) hst h(4) this st'_def] rc
  have c: "counted st' L obj (n - 1)" "counts_only obj st st'" by simp_all
  have "objc_release env rt obj = Some (rt\<lparr>rt_objects := st'\<rparr>)"
    using nz ne by (simp add: release_via_header arc_release header_candidate_def st(1) release_object_or_block_def
        arc_release_known drop_reference_plain [OF hst h(4)] st'_def)
  moreover have "counts_only obj (rt_objects rt) st'"
    using c(2) by (simp add: counts_only_def same)
  ultimately show ?thesis using c(1) by simp
qed

text \<open>Sequences of retains (\<open>True\<close>) and releases (\<open>False\<close>) of one object, and the count they leave: none
  when it would reach zero or overflow on the way.\<close>

fun run_counts :: "runtime_env \<Rightarrow> addr \<Rightarrow> bool list \<Rightarrow> runtime \<Rightarrow> runtime option" where
  "run_counts env obj [] rt = Some rt"
| "run_counts env obj (op # ops) rt =
     Option.bind (if op then map_option snd (objc_retain env rt obj) else objc_release env rt obj) (run_counts env obj ops)"

fun count_after :: "nat \<Rightarrow> bool list \<Rightarrow> nat option" where
  "count_after n [] = Some n"
| "count_after n (op # ops) =
     (if op then (if n + 1 < 2 ^ 32 then count_after (n + 1) ops else None)
      else if 1 < n then count_after (n - 1) ops else None)"

text \<open>C9: retain and release count references.  Any sequence of retains and releases of a plain object whose
  running count stays positive and below \<open>2^32\<close> runs without a fault, leaves the object live with exactly
  that count, frees nothing, and changes nothing else in memory than the count; pools, selectors and
  backtraces stay as they are.\<close>

theorem retain_release_counts:
  assumes "counted (rt_objects rt) L obj n" "count_after n ops = Some m"
  shows "\<exists>rt'. run_counts env obj ops rt = Some rt' \<and> counted (rt_objects rt') L obj m
     \<and> counts_only obj (rt_objects rt) (rt_objects rt') \<and> rt' = rt\<lparr>rt_objects := rt_objects rt'\<rparr>"
  using assms
proof (induction ops arbitrary: rt n)
  case Nil
  then show ?case by (simp add: counts_only_refl)
next
  case (Cons op ops)
  define k where "k = (if op then n + 1 else n - 1)"
  have step: "\<exists>rt1. (if op then map_option snd (objc_retain env rt obj) else objc_release env rt obj) = Some rt1
      \<and> counted (rt_objects rt1) L obj k \<and> counts_only obj (rt_objects rt) (rt_objects rt1) \<and> rt1 = rt\<lparr>rt_objects := rt_objects rt1\<rparr>"
  proof (cases op)
    case True
    with Cons.prems(2) have "n + 1 < 2 ^ 32" by (simp split: if_splits)
    from retain_counted [OF Cons.prems(1) this, of env] True show ?thesis by (auto simp: k_def)
  next
    case False
    with Cons.prems(2) have "1 < n" by (simp split: if_splits)
    from release_counted [OF Cons.prems(1) this, of env] False show ?thesis by (auto simp: k_def)
  qed
  then obtain rt1 where rt1: "(if op then map_option snd (objc_retain env rt obj) else objc_release env rt obj) = Some rt1"
      "counted (rt_objects rt1) L obj k" "counts_only obj (rt_objects rt) (rt_objects rt1)"
      "rt1 = rt\<lparr>rt_objects := rt_objects rt1\<rparr>" by blast
  have "count_after k ops = Some m" using Cons.prems(2) by (simp add: k_def split: if_splits)
  from Cons.IH [OF rt1(2) this] obtain rt' where
    rt': "run_counts env obj ops rt1 = Some rt'" "counted (rt_objects rt') L obj m"
      "counts_only obj (rt_objects rt1) (rt_objects rt')" "rt' = rt1\<lparr>rt_objects := rt_objects rt'\<rparr>" by blast
  have "rt' = rt\<lparr>rt_objects := rt_objects rt'\<rparr>"
    by (subst rt'(4), subst rt1(4)) simp
  with rt1(1) rt'(1,2) counts_only_trans [OF rt1(3) rt'(3)] show ?case by simp
qed

text \<open>One plain object at \<open>0x1048\<close>, its header at \<open>0x1000\<close>, entered into the table.\<close>

definition demo_header :: SFObjHeader where
  "demo_header = zero_header\<lparr>refcount := 1, state := SF_OBJ_STATE_LIVE, flags := 0x01000000, alloc_size := 0x50, allocator := 1\<rparr>"

definition demo_objects :: "objects option" where
  "demo_objects = sf_register_live_object_header (empty_objects\<lparr>o_hdrs := [0x1000 \<mapsto> demo_header]\<rparr>) 0x1000"

lemma demo_counted:
  "\<exists>st. demo_objects = Some st \<and> counted st {0x1000} 0x1048 1 \<and> (\<exists>q. o_hdrs st 0x1000 = Some (demo_header\<lparr>live_next := q\<rparr>))
     \<and> o_frees st = []"
proof -
  let ?st = "empty_objects\<lparr>o_hdrs := [0x1000 \<mapsto> demo_header]\<rparr>"
  have "live_set ?st {}" by (rule live_set_empty) (simp add: empty_objects_def)
  from live_set_register [OF this, of "0x1000"] obtain st where
    st: "sf_register_live_object_header ?st 0x1000 = Some st" "same_but_live ?st st" "live_set st {0x1000}" by auto
  have "o_hdrs ?st 0x1000 = Some demo_header" by simp
  from same_but_live_hdr [OF st(2) this] obtain q where q: "o_hdrs st 0x1000 = Some (demo_header\<lparr>live_next := q\<rparr>)" .
  have fields: "g_last_header_obj st = nullptr" "g_last_header_ptr st = nullptr" "o_frees st = []"
    using st(2) by (cases st; simp add: same_but_live_def empty_objects_def)+
  have "header_is_plain_live_object (demo_header\<lparr>live_next := q\<rparr>)" "unat (refcount (demo_header\<lparr>live_next := q\<rparr>)) = 1"
    by (simp_all add: header_is_plain_live_object_def demo_header_def abi_consts)
  moreover have "heap_object {0x1000} 0x1048"
    by (simp add: heap_object_def sf_is_tagged_pointer_def SF_TAGGED_POINTER_SLOT_MASK_def sizeof_SFObjHeader_def)
  ultimately show ?thesis
    using st q fields by (simp add: demo_objects_def counted_def cache_ok_def sizeof_SFObjHeader_def) blast
qed

theorem retain_release_counts_witness:
  "\<exists>st rt. demo_objects = Some st \<and> run_counts quiet_env 0x1048 [True, True, False] (empty_runtime st) = Some rt
     \<and> counted (rt_objects rt) {0x1000} 0x1048 2"
proof -
  from demo_counted obtain st where st: "demo_objects = Some st" "counted st {0x1000} 0x1048 1" by blast
  have "count_after 1 [True, True, False] = Some 2" by simp
  from retain_release_counts [where rt = "empty_runtime st" and env = quiet_env, OF _ this] st
  have "\<exists>rt. run_counts quiet_env 0x1048 [True, True, False] (empty_runtime st) = Some rt
      \<and> counted (rt_objects rt) {0x1000} 0x1048 2"
    unfolding empty_runtime_objects by blast
  with st(1) show ?thesis by blast
qed

section \<open>The last release of a plain object\<close>

lemma write_flags_some:
  assumes "o_hdrs st p = Some h" "p \<noteq> nullptr" "f (Some h) = Some h'"
  shows "write_flags st p f = Some (st\<lparr>o_hdrs := (o_hdrs st)(p \<mapsto> h')\<rparr>)"
  using assms by (simp add: write_flags_def)

text \<open>What disposal leaves of a header.\<close>

definition disposed_header :: "SFObjHeader \<Rightarrow> SFObjHeader \<Rightarrow> bool" where
  "disposed_header h h' \<longleftrightarrow> (\<exists>q f. h' = h\<lparr>live_next := q, state := SF_OBJ_STATE_DISPOSED, flags := f, magic := 0\<rparr>
     \<and> f AND SF_OBJ_FLAG_PACKED_MASK = flags h AND SF_OBJ_FLAG_PACKED_MASK \<and> sf_header_aux_flags (Some h') = 0)"

lemma mark_disposed_returns:
  assumes "o_hdrs st hdr = Some (h\<lparr>live_next := q\<rparr>)" "hdr \<noteq> nullptr"
  shows "\<exists>h'. mark_disposed st hdr = Some (st\<lparr>o_hdrs := (o_hdrs st)(hdr \<mapsto> h')\<rparr>) \<and> disposed_header h h'"
proof -
  define f where "f = ((flags h AND NOT SF_OBJ_COOKIE_MASK) AND NOT SF_OBJ_AUX_FLAGS_MASK) OR (push_bit 8 0 AND SF_OBJ_AUX_FLAGS_MASK)"
  have "mark_disposed st hdr =
     Some (st\<lparr>o_hdrs := (o_hdrs st)(hdr \<mapsto> h\<lparr>live_next := q, state := SF_OBJ_STATE_DISPOSED, flags := f, magic := 0\<rparr>)\<rparr>)"
    using assms by (simp add: mark_disposed_def write_hdr_def write_flags_def sf_header_clear_live_cookie_def
        sf_header_set_aux_flags_def f_def)
  moreover have "f AND SF_OBJ_FLAG_PACKED_MASK = flags h AND SF_OBJ_FLAG_PACKED_MASK"
    unfolding f_def by (rule bit_word_eqI) (auto simp: bit_simps flag_masks)
  moreover have "drop_bit 8 (f AND SF_OBJ_AUX_FLAGS_MASK) = 0"
    unfolding f_def by (rule bit_word_eqI) (auto simp: bit_simps flag_masks)
  then have "sf_header_aux_flags (Some (h\<lparr>live_next := q, state := SF_OBJ_STATE_DISPOSED, flags := f, magic := 0\<rparr>)) = 0"
    by (simp add: sf_header_aux_flags_def)
  ultimately show ?thesis by (auto simp: disposed_header_def)
qed

lemma unregister_marked:
  assumes "live_set st L" "hdr \<in> L" "o_hdrs st hdr = Some h"
  shows "\<exists>st1 st2 h'. sf_unregister_live_object_header st hdr = Some st1 \<and> same_but_live st st1
     \<and> mark_disposed st1 hdr = Some st2 \<and> st2 = st1\<lparr>o_hdrs := (o_hdrs st1)(hdr \<mapsto> h')\<rparr>
     \<and> live_set st2 (L - {hdr}) \<and> disposed_header h h'"
proof -
  from live_set_unregister [OF assms(1,2)] obtain st1 where
    st1: "sf_unregister_live_object_header st hdr = Some st1" "same_but_live st st1" "live_set st1 (L - {hdr})" by blast
  from same_but_live_hdr [OF st1(2) assms(3)] obtain q where q: "o_hdrs st1 hdr = Some (h\<lparr>live_next := q\<rparr>)" .
  have "hdr \<noteq> nullptr" using live_set_mapped [OF assms(1,2)] by simp
  from mark_disposed_returns [OF q this] obtain h' where
    h': "mark_disposed st1 hdr = Some (st1\<lparr>o_hdrs := (o_hdrs st1)(hdr \<mapsto> h')\<rparr>)" "disposed_header h h'" by blast
  have "live_set (st1\<lparr>o_hdrs := (o_hdrs st1)(hdr \<mapsto> h')\<rparr>) (L - {hdr})"
    by (rule live_set_keep [OF st1(3)]) (simp_all add: live_links_def)
  with st1(1,2) h' show ?thesis by blast
qed

lemma dispose_plain:
  assumes "live_set st L" "hdr \<in> L" "o_hdrs st hdr = Some h" "header_is_plain_live_object h" "\<not> header_has_sidecar_state h"
    and apart: "\<And>a. a \<in> L \<Longrightarrow> a \<noteq> hdr \<Longrightarrow> \<not> in_block hdr (ucast (alloc_size h)) a"
    and room: "alloc_size h \<noteq> 0"
  shows "\<exists>st'. dispose_header st hdr obj = Some st' \<and> live_set st' (L - {hdr})
     \<and> o_frees st' = (if allocator h = nullptr then o_default_allocator st else allocator h, hdr, ucast (alloc_size h)) # o_frees st
     \<and> o_hdrs st' hdr = None \<and> g_last_header_obj st' = g_last_header_obj st \<and> g_last_header_ptr st' = g_last_header_ptr st"
proof -
  from unregister_marked [OF assms(1,2,3)] obtain st1 st2 h' where
    u: "sf_unregister_live_object_header st hdr = Some st1" "same_but_live st st1" "mark_disposed st1 hdr = Some st2"
      "st2 = st1\<lparr>o_hdrs := (o_hdrs st1)(hdr \<mapsto> h')\<rparr>"
      "live_set st2 (L - {hdr})" by blast
  have nz: "hdr \<noteq> nullptr" using live_set_mapped [OF assms(1,2)] by simp
  have fields: "o_frees st2 = o_frees st" "o_default_allocator st2 = o_default_allocator st"
      "g_last_header_obj st2 = g_last_header_obj st" "g_last_header_ptr st2 = g_last_header_ptr st"
    using u(2,4) by (cases st; cases st1; simp add: same_but_live_def)+
  let ?a = "if allocator h = nullptr then o_default_allocator st else allocator h"
  let ?st' = "free_block st2 ?a hdr (ucast (alloc_size h))"
  have "dispose_plain_object st hdr = Some ?st'"
    using plain_flags(3) [OF assms(4)] nz fields(2)
    by (simp add: dispose_plain_object_def sf_header_allocator_def assms(3) u(1,3) Let_def)
  then have "dispose_header st hdr obj = Some ?st'"
    using plain_flags(2) [OF assms(4)] assms(3,5) by (simp add: dispose_header_def)
  moreover have "live_set ?st' (L - {hdr})"
    by (rule live_set_free_block [OF u(5)]) (use apart in auto)
  moreover have "(ucast (alloc_size h) :: u64) \<noteq> 0"
  proof -
    have "unat (ucast (alloc_size h) :: u64) = unat (alloc_size h)" by (simp add: unat_ucast_32)
    with room show ?thesis by (metis unat_0 unsigned_0 unat_eq_zero)
  qed
  then have "in_block hdr (ucast (alloc_size h)) hdr" by (simp add: in_block_def word_gt_0)
  ultimately show ?thesis using fields by (simp add: free_block_def)
qed

text \<open>C10: the last release of a plain object whose class has a trivial release frees it, once: the object is
  taken out of the table of live headers, its block goes back to the allocator it came from with the size
  it was allocated with, the cache of the last header forgets it, and every other object is still found.
  (The block of the object must not hold the header of another object.)\<close>

theorem last_release_frees:
  assumes counted: "counted (rt_objects rt) L obj 1" and hdr: "hdr = obj - sizeof_SFObjHeader" "o_hdrs (rt_objects rt) hdr = Some h"
    and trivial: "header_has_trivial_release h" "\<not> header_has_sidecar_state h"
      "\<not> sf_header_has_aux_flag (Some h) SF_OBJ_AUX_FLAG_HAS_EXCEPTION_METADATA"
    and block: "alloc_size h \<noteq> 0" "\<forall>a \<in> L. a = hdr \<or> \<not> in_block hdr (ucast (alloc_size h)) a"
  shows "\<exists>rt'. objc_release env rt obj = Some rt' \<and> cache_ok (rt_objects rt') (L - {hdr})
     \<and> o_frees (rt_objects rt') = (if allocator h = nullptr then o_default_allocator (rt_objects rt) else allocator h,
          hdr, ucast (alloc_size h)) # o_frees (rt_objects rt)
     \<and> (\<forall>obj'. sf_header_from_object (rt_objects rt') obj' =
              (if obj' = obj then Some nullptr else sf_header_from_object (rt_objects rt) obj'))"
proof -
  have h: "cache_ok (rt_objects rt) L" "heap_object L obj" "header_is_plain_live_object h" and "unat (refcount h) = 1"
    using counted hdr by (auto simp: counted_def)
  then have one: "refcount h = 1" by (simp add: word_unat_eq_iff)
  have nz: "obj \<noteq> nullptr" "hdr \<noteq> nullptr"
    using heap_object_nonnull [OF cache_ok_live [OF h(1)] h(2)] hdr(1) by simp_all
  from cache_ok_candidate [OF h(1), of obj] h(2) obtain st where
    st: "header_from_heap_candidate (rt_objects rt) obj = Some (hdr, st)" "cache_ok st L"
      "same_but_cache (rt_objects rt) st" "g_last_header_obj st = obj"
    using hdr(1) by auto
  note same = same_but_cache_fields [OF st(3)]
  have hst: "o_hdrs st hdr = Some h" by (simp add: same hdr(2))
  let ?h = "h\<lparr>refcount := 0\<rparr>"
  define st0 where "st0 = st\<lparr>o_hdrs := (o_hdrs st)(hdr \<mapsto> ?h)\<rparr>"
  have live0: "live_set st0 L"
    unfolding st0_def by (rule live_set_keep [OF cache_ok_live [OF st(2)]]) (simp_all add: live_links_def hst)
  have drop: "drop_reference st obj hdr = Some (True, st0)"
    using drop_reference_plain [OF hst h(3), of obj] one by (simp add: st0_def)
  have again: "header_from_heap_candidate st0 obj = Some (hdr, st0)"
    using st(2,4) nz hdr(1) by (simp add: header_from_heap_candidate_def st0_def cache_ok_def)
  define st1 where "st1 = st0\<lparr>g_last_header_obj := nullptr, g_last_header_ptr := nullptr\<rparr>"
  have live1: "live_set st1 L"
    unfolding st1_def by (rule live_set_keep [OF live0]) (simp_all add: live_links_def)
  have hst1: "o_hdrs st1 hdr = Some ?h" by (simp add: st1_def st0_def)
  have inL: "hdr \<in> L" using h(2) hdr(1) by (simp add: heap_object_def)
  have plain: "header_is_plain_live_object ?h" "\<not> header_has_sidecar_state ?h"
    using h(3) trivial(2) by (simp_all add: header_is_plain_live_object_def header_has_sidecar_state_def)
  have "\<exists>st'. dispose_header st1 hdr obj = Some st' \<and> live_set st' (L - {hdr})
     \<and> o_frees st' = (if allocator ?h = nullptr then o_default_allocator st1 else allocator ?h, hdr, ucast (alloc_size ?h)) # o_frees st1
     \<and> o_hdrs st' hdr = None \<and> g_last_header_obj st' = g_last_header_obj st1 \<and> g_last_header_ptr st' = g_last_header_ptr st1"
    by (rule dispose_plain [OF live1 inL hst1 plain]) (use block in auto)
  then obtain st' where st': "dispose_header st1 hdr obj = Some st'" "live_set st' (L - {hdr})"
      "o_frees st' = (if allocator h = nullptr then o_default_allocator (rt_objects rt) else allocator h, hdr, ucast (alloc_size h))
         # o_frees (rt_objects rt)" "g_last_header_obj st' = nullptr" "g_last_header_ptr st' = nullptr"
    by (auto simp: st1_def st0_def same)
  have flags: "flags h AND SF_OBJ_FLAG_IMMORTAL = 0" using plain_flags [OF h(3)] by simp
  have tests: "header_has_trivial_release ?h" "\<not> sf_header_has_aux_flag (Some ?h) SF_OBJ_AUX_FLAG_HAS_EXCEPTION_METADATA"
    using trivial(1,3) by (simp_all add: header_has_trivial_release_def sf_header_has_aux_flag_def
        sf_header_aux_flags_def sf_header_class_flags_def)
  have "sf_object_dispose (rt\<lparr>rt_objects := st0\<rparr>) obj = Some (rt\<lparr>rt_objects := st'\<rparr>)"
    using nz flags tests(2) st(4) st'(1)
    by (simp add: sf_object_dispose_def header_candidate_def again read_header_def st1_def)
      (simp add: st0_def with_objects_def)
  then have "objc_release env rt obj = Some (rt\<lparr>rt_objects := st'\<rparr>)"
    using nz tests(1)
    by (simp add: release_via_header arc_release header_candidate_def st(1) release_object_or_block_def
        arc_release_known drop) (simp add: st0_def)
  moreover have "cache_ok st' (L - {hdr})" using st'(2,4,5) by (simp add: cache_ok_def)
  moreover have "sf_header_from_object st' obj' = (if obj' = obj then Some nullptr else sf_header_from_object (rt_objects rt) obj')" for obj'
    using live_set_find [OF st'(2), of obj'] live_set_find [OF cache_ok_live [OF h(1)], of obj'] hdr(1) by auto
  ultimately show ?thesis using st'(3) by simp
qed

theorem last_release_frees_witness:
  "\<exists>st rt. demo_objects = Some st \<and> objc_release quiet_env (empty_runtime st) 0x1048 = Some rt
     \<and> o_frees (rt_objects rt) = [(1, 0x1000, 0x50)]"
proof -
  from demo_counted obtain st q where st: "demo_objects = Some st" "counted st {0x1000} 0x1048 1"
      "o_hdrs st 0x1000 = Some (demo_header\<lparr>live_next := q\<rparr>)" "o_frees st = []" by blast
  let ?h = "demo_header\<lparr>live_next := q\<rparr>"
  have "header_has_trivial_release ?h" "\<not> header_has_sidecar_state ?h"
      "\<not> sf_header_has_aux_flag (Some ?h) SF_OBJ_AUX_FLAG_HAS_EXCEPTION_METADATA" "alloc_size ?h = 0x50" "allocator ?h = 1"
    by (simp_all add: header_has_trivial_release_def header_has_sidecar_state_def demo_header_def zero_header_def
        sf_header_class_flags_def sf_header_has_aux_flag_def sf_header_aux_flags_def abi_consts)
  note h = this
  have "hdr = obj - sizeof_SFObjHeader" if "hdr = 0x1000" "obj = 0x1048" for hdr obj
    using that by (simp add: sizeof_SFObjHeader_def)
  note last_release_frees [where rt = "empty_runtime st" and hdr = "0x1000" and h = ?h and env = quiet_env and obj = "0x1048"
      and L = "{0x1000}", unfolded empty_runtime_objects, OF st(2) this st(3) h(1,2,3)]
  then have "\<exists>rt. objc_release quiet_env (empty_runtime st) 0x1048 = Some rt \<and> o_frees (rt_objects rt) = [(1, 0x1000, 0x50)]"
    unfolding h(4,5) st(4) by auto
  with st(1) show ?thesis by blast
qed

end
