(* ===== verification/SF_Groups.thy ===== *)
theory SF_Groups
  imports SF_Refcount
begin

unbundle bit_operations_syntax

text \<open>
  Groups: an object allocated with a parent joins the group of the parent's root, and no member of a
  group is freed before the last one is disposed of (\<open>sf_alloc_heap_child_object\<close> in
  \<open>Runtime/src/loader.c\<close>, \<open>sf_object_dispose\<close> and \<open>free_group_members\<close> in \<open>Runtime/src/arc.c\<close>, over the
  headers of \<open>Runtime/src/object-header.c\<close>).  Abstractly a group is the list of its members, the root
  last; its count is the number of those that are live.
\<close>

section \<open>The group in memory\<close>

definition group_links :: "objects \<Rightarrow> addr \<Rightarrow> addr option" where
  "group_links st a = map_option group_next (o_hdrs st a)"

text \<open>The header of an unembedded, mortal member without a backtrace.\<close>

definition member_header :: "addr \<Rightarrow> SFObjHeader \<Rightarrow> bool" where
  "member_header root h \<longleftrightarrow> group h = root OR 1 \<and> flags h AND SF_OBJ_FLAG_EMBEDDED = 0
     \<and> flags h AND SF_OBJ_FLAG_IMMORTAL = 0
     \<and> \<not> sf_header_has_aux_flag (Some h) SF_OBJ_AUX_FLAG_HAS_EXCEPTION_METADATA \<and> alloc_size h \<noteq> 0"

definition live_member :: "objects \<Rightarrow> addr \<Rightarrow> bool" where
  "live_member st m \<longleftrightarrow> (case o_hdrs st m of None \<Rightarrow> False | Some h \<Rightarrow> state h = SF_OBJ_STATE_LIVE)"

definition root_header :: "addr \<Rightarrow> addr list \<Rightarrow> nat \<Rightarrow> SFObjHeader \<Rightarrow> bool" where
  "root_header root ms count r \<longleftrightarrow> group r = root OR 1 \<and> parent r = hd ms \<and> unat (reserved r) = count
     \<and> flags r AND SF_OBJ_FLAG_EMBEDDED = 0 \<and> \<not> sf_header_has_aux_flag (Some r) SF_OBJ_AUX_FLAG_GROUP_DEAD"

definition group_core :: "objects \<Rightarrow> addr \<Rightarrow> addr list \<Rightarrow> nat \<Rightarrow> bool" where
  "group_core st root ms n \<longleftrightarrow> root \<noteq> nullptr \<and> root AND 1 = 0 \<and> root + 32 \<noteq> 0
     \<and> distinct ms \<and> ms \<noteq> [] \<and> last ms = root \<and> segment (group_links st) (hd ms) ms nullptr
     \<and> (\<forall>m \<in> set ms. \<exists>h. o_hdrs st m = Some h \<and> member_header root h)
     \<and> (\<exists>r. o_hdrs st root = Some r \<and> root_header root ms n r)"

definition live_members :: "objects \<Rightarrow> addr list \<Rightarrow> addr list" where
  "live_members st ms = filter (live_member st) ms"

definition group_rep :: "objects \<Rightarrow> addr \<Rightarrow> addr list \<Rightarrow> bool" where
  "group_rep st root ms \<longleftrightarrow> group_core st root ms (length (live_members st ms))"

lemma group_tag:
  fixes root :: addr
  assumes "root AND 1 = 0"
  shows "(root OR 1) AND 1 \<noteq> 0" "(root OR 1) AND NOT 1 = root"
proof -
  have "bit ((root OR 1) AND 1) 0" by (simp add: bit_simps)
  then show "(root OR 1) AND 1 \<noteq> 0" by (metis bit_0_eq bot_apply bot_bool_def)
  have low: "\<not> bit root 0"
  proof
    assume "bit root 0"
    then have "bit (root AND 1) 0" by (simp add: bit_simps)
    with assms show False by simp
  qed
  show "(root OR 1) AND NOT 1 = root"
  proof (rule bit_word_eqI)
    fix n
    show "bit ((root OR 1) AND NOT 1) n = bit root n" if "n < LENGTH(64)"
      using low that by (cases n) (auto simp: bit_simps bit_1_iff)
  qed
qed

text \<open>The accessors on a member.\<close>

lemma member_accessors:
  assumes "o_hdrs st m = Some h" "m \<noteq> nullptr" "group h = root OR 1" "root AND 1 = 0" "root \<noteq> nullptr"
  shows "sf_header_uses_inline_group_state st m = Some True" "sf_header_inline_group_root st m = Some root"
    "sf_header_group_root st m = Some root" "sf_header_grouped st m = Some True"
  using assms group_tag [OF assms(4)]
  by (simp_all add: sf_header_uses_inline_group_state_def sf_header_inline_group_root_def sf_header_group_root_def
      sf_header_grouped_def sf_header_group_state_atomic_def)

lemma root_accessors:
  assumes "o_hdrs st root = Some r" "group r = root OR 1" "root AND 1 = 0" "root \<noteq> nullptr"
  shows "sf_header_group_head st root = Some (if parent r \<noteq> nullptr then parent r else root)"
    "sf_header_group_live_count st root = Some (ucast (reserved r))"
    "sf_header_set_group_head st root p = Some (True, st\<lparr>o_hdrs := (o_hdrs st)(root \<mapsto> r\<lparr>parent := p\<rparr>)\<rparr>)"
    "sf_header_allocator st root = Some (allocator r)"
  using assms member_accessors [OF assms(1,4,2,3,4)]
  by (simp_all add: sf_header_group_head_def sf_header_inline_group_head_def sf_header_group_live_count_def
      sf_header_set_group_head_def sf_header_set_inline_group_head_def write_hdr_def sf_header_allocator_def)

lemma member_lock:
  assumes "o_hdrs st m = Some h" "m \<noteq> nullptr" "group h = root OR 1" "o_hdrs st root = Some r" "group r = root OR 1"
    "root AND 1 = 0" "root \<noteq> nullptr"
  shows "sf_header_group_lock st m = Some (root + 32)"
  using member_accessors [OF assms(1,2,3,6,7)] member_accessors [OF assms(4,7,5,6,7)] assms(7)
  by (simp add: sf_header_group_lock_def)

section \<open>The flag that marks a dead group\<close>

lemma dead_flag_effect:
  "\<exists>f. mark_group_dead st root n = Some (st\<lparr>o_hdrs := (o_hdrs st)(root \<mapsto> r\<lparr>flags := f\<rparr>)\<rparr>)
     \<and> f AND SF_OBJ_FLAG_PACKED_MASK = flags r AND SF_OBJ_FLAG_PACKED_MASK
     \<and> (sf_header_has_aux_flag (Some (r\<lparr>flags := f\<rparr>)) SF_OBJ_AUX_FLAG_GROUP_DEAD \<longleftrightarrow> n = 0)
     \<and> (sf_header_has_aux_flag (Some (r\<lparr>flags := f\<rparr>)) SF_OBJ_AUX_FLAG_HAS_EXCEPTION_METADATA
        \<longleftrightarrow> sf_header_has_aux_flag (Some r) SF_OBJ_AUX_FLAG_HAS_EXCEPTION_METADATA)"
  if "o_hdrs st root = Some r" "root \<noteq> nullptr"
proof -
  let ?f = "\<lambda>aux. (flags r AND NOT SF_OBJ_AUX_FLAGS_MASK) OR (push_bit 8 aux AND SF_OBJ_AUX_FLAGS_MASK)"
  let ?aux = "if n = 0 then sf_header_aux_flags (Some r) OR SF_OBJ_AUX_FLAG_GROUP_DEAD
              else sf_header_aux_flags (Some r) AND NOT SF_OBJ_AUX_FLAG_GROUP_DEAD"
  have run: "mark_group_dead st root n = Some (st\<lparr>o_hdrs := (o_hdrs st)(root \<mapsto> r\<lparr>flags := ?f ?aux\<rparr>)\<rparr>)"
    using that by (simp add: mark_group_dead_def write_flags_def sf_header_or_aux_flags_def sf_header_clear_aux_flags_def
        sf_header_set_aux_flags_def)
  have small: "take_bit 8 ?aux = ?aux"
    by (rule bit_word_eqI) (auto simp: bit_simps sf_header_aux_flags_def flag_masks SF_OBJ_AUX_FLAG_GROUP_DEAD_def)
  have "sf_header_aux_flags (Some (r\<lparr>flags := ?f ?aux\<rparr>)) = take_bit 8 ?aux"
    using aux_flags_set_aux [of r ?aux] by (simp add: sf_header_set_aux_flags_def)
  then have aux: "sf_header_aux_flags (Some (r\<lparr>flags := ?f ?aux\<rparr>)) = ?aux" unfolding small .
  have one: "(x OR 2) AND 1 = x AND 1" "(x AND NOT 2) AND 1 = x AND 1" "(x OR 2) AND 2 \<noteq> 0" "(x AND NOT 2) AND 2 = 0"
    for x :: u32
  proof -
    have two: "bit (2 :: u32) i \<longleftrightarrow> i = 1" for i
      using bit_exp_iff [of 1 i, where ?'a = "32 word"] by auto
    show "(x OR 2) AND 1 = x AND 1" "(x AND NOT 2) AND 1 = x AND 1" "(x AND NOT 2) AND 2 = 0"
      by (rule bit_word_eqI; auto simp: bit_simps two bit_1_iff)+
    have "bit ((x OR 2) AND 2) 1" by (simp add: bit_simps two)
    then show "(x OR 2) AND 2 \<noteq> 0" by (metis bit_0_eq bot_apply bot_bool_def)
  qed
  have "?f ?aux AND SF_OBJ_FLAG_PACKED_MASK = flags r AND SF_OBJ_FLAG_PACKED_MASK"
    by (rule bit_word_eqI) (auto simp: bit_simps flag_masks)
  moreover have "sf_header_has_aux_flag (Some (r\<lparr>flags := ?f ?aux\<rparr>)) SF_OBJ_AUX_FLAG_GROUP_DEAD \<longleftrightarrow> n = 0"
    unfolding sf_header_has_aux_flag_def aux
    unfolding SF_OBJ_AUX_FLAG_GROUP_DEAD_def
    using one(3,4) [of "sf_header_aux_flags (Some r)"] by (cases "n = 0") simp_all
  moreover have "sf_header_has_aux_flag (Some (r\<lparr>flags := ?f ?aux\<rparr>)) SF_OBJ_AUX_FLAG_HAS_EXCEPTION_METADATA
      \<longleftrightarrow> sf_header_has_aux_flag (Some r) SF_OBJ_AUX_FLAG_HAS_EXCEPTION_METADATA"
    unfolding sf_header_has_aux_flag_def aux
    unfolding SF_OBJ_AUX_FLAG_GROUP_DEAD_def SF_OBJ_AUX_FLAG_HAS_EXCEPTION_METADATA_def
    using one(1,2) [of "sf_header_aux_flags (Some r)"] by (cases "n = 0") simp_all
  ultimately show ?thesis using run by blast
qed

section \<open>Freeing the members\<close>

lemma destroy_sidecar_only:
  assumes "o_hdrs st m = Some h" "m \<noteq> nullptr"
  shows "\<exists>h'. sf_header_destroy_sidecar st m False = Some (st\<lparr>o_hdrs := (o_hdrs st)(m \<mapsto> h')\<rparr>)"
proof (cases "group h AND 1 = 0")
  case True
  with assms show ?thesis
    by (auto simp: sf_header_destroy_sidecar_def sf_header_uses_inline_group_state_def sf_header_inline_group_root_def
        sf_header_exchange_group_state_atomic_def sf_header_group_state_atomic_def write_hdr_def)
next
  case False
  show ?thesis
  proof (cases "group h AND NOT 1 = m \<and> flags h AND SF_OBJ_FLAG_EMBEDDED = 0")
    case True
    with assms False show ?thesis
      by (auto simp: sf_header_destroy_sidecar_def sf_header_uses_inline_group_state_def sf_header_inline_group_root_def
        sf_header_set_inline_group_head_def write_hdr_def write_flags_def sf_header_clear_aux_flags_def sf_header_set_aux_flags_def)
  next
    case other: False
    with assms False show ?thesis
      by (auto simp: sf_header_destroy_sidecar_def sf_header_uses_inline_group_state_def sf_header_inline_group_root_def write_hdr_def)
  qed
qed

definition block_of :: "objects \<Rightarrow> addr \<Rightarrow> addr \<Rightarrow> addr \<times> addr \<times> u64" where
  "block_of st a m = (a, m, case o_hdrs st m of None \<Rightarrow> 0 | Some h \<Rightarrow> ucast (alloc_size h))"

definition group_allocator :: "objects \<Rightarrow> addr \<Rightarrow> addr" where
  "group_allocator st root = (case o_hdrs st root of None \<Rightarrow> o_default_allocator st
     | Some r \<Rightarrow> if allocator r \<noteq> nullptr then allocator r else o_default_allocator st)"

text \<open>The calls of the allocator that free the whole group.\<close>

definition group_blocks :: "objects \<Rightarrow> addr \<Rightarrow> addr list \<Rightarrow> (addr \<times> addr \<times> u64) list" where
  "group_blocks st root ms = map (block_of st (group_allocator st root)) ms"

text \<open>No block of the group holds the header of another member or of another live object.\<close>

definition blocks_apart :: "objects \<Rightarrow> addr list \<Rightarrow> addr set \<Rightarrow> bool" where
  "blocks_apart st ms L \<longleftrightarrow> (\<forall>m \<in> set ms. \<forall>a \<in> set ms \<union> L. \<forall>h. o_hdrs st m = Some h \<longrightarrow> a \<noteq> m
     \<longrightarrow> \<not> in_block m (ucast (alloc_size h)) a)"

lemma free_group_loop_frees:
  assumes "segment (group_links st) p ms nullptr" "distinct ms" "blocks_apart st ms L" "L \<inter> set ms = {}"
    and "\<And>m. m \<in> set ms \<Longrightarrow> \<exists>h. o_hdrs st m = Some h \<and> flags h AND SF_OBJ_FLAG_EMBEDDED = 0"
  shows "\<exists>st'. free_group_loop st a p = Some st' \<and> o_frees st' = rev (map (block_of st a) ms) @ o_frees st
     \<and> (\<forall>x \<in> L. o_hdrs st' x = o_hdrs st x) \<and> st' = st\<lparr>o_hdrs := o_hdrs st', o_words := o_words st', o_frees := o_frees st'\<rparr>"
  using assms
proof (induction ms arbitrary: st p)
  case Nil
  then show ?case by (subst free_group_loop.simps) auto
next
  case (Cons m ms)
  obtain h where h: "o_hdrs st m = Some h" "flags h AND SF_OBJ_FLAG_EMBEDDED = 0" using Cons.prems(5) by auto
  have "group_links st m = Some (group_next h)" using h(1) by (simp add: group_links_def)
  with Cons.prems(1) have p: "p = m" "m \<noteq> nullptr" "segment (group_links st) (group_next h) ms nullptr" by auto
  from destroy_sidecar_only [OF h(1) p(2)] obtain h' where
    h': "sf_header_destroy_sidecar st m False = Some (st\<lparr>o_hdrs := (o_hdrs st)(m \<mapsto> h')\<rparr>)" by blast
  let ?sz = "ucast (alloc_size h) :: u64"
  define st1 where "st1 = free_block (st\<lparr>o_hdrs := (o_hdrs st)(m \<mapsto> h')\<rparr>) a m ?sz"
  have keep: "o_hdrs st1 x = o_hdrs st x" if "x \<in> set ms \<union> L" for x
  proof -
    have "x \<noteq> m" using that Cons.prems(2,4) by auto
    moreover have "\<not> in_block m ?sz x"
      using Cons.prems(3) h(1) that \<open>x \<noteq> m\<close> by (auto simp: blocks_apart_def)
    ultimately show ?thesis by (simp add: st1_def free_block_def)
  qed
  have seg: "segment (group_links st1) (group_next h) ms nullptr"
    using p(3) keep by (subst segment_cong [of _ _ "group_links st"]) (auto simp: group_links_def)
  have apart: "blocks_apart st1 ms L"
    using Cons.prems(3) keep by (simp add: blocks_apart_def)
  have frees: "o_frees st1 = block_of st a m # o_frees st"
    by (simp add: st1_def free_block_def block_of_def h(1))
  have "\<exists>h. o_hdrs st1 x = Some h \<and> flags h AND SF_OBJ_FLAG_EMBEDDED = 0" if "x \<in> set ms" for x
    using keep that Cons.prems(5) by simp
  then obtain st' where st': "free_group_loop st1 a (group_next h) = Some st'"
      "o_frees st' = rev (map (block_of st1 a) ms) @ o_frees st1" "\<forall>x \<in> L. o_hdrs st' x = o_hdrs st1 x"
      "st' = st1\<lparr>o_hdrs := o_hdrs st', o_words := o_words st', o_frees := o_frees st'\<rparr>"
    using Cons.IH [OF seg _ apart] Cons.prems(2,4) by auto
  have "map (block_of st1 a) ms = map (block_of st a) ms"
    using keep by (simp add: block_of_def)
  moreover have "free_group_loop st a p = Some st'"
    using p h h' st'(1) by (subst free_group_loop.simps) (simp add: sf_header_group_next_def st1_def)
  moreover have "st' = st\<lparr>o_hdrs := o_hdrs st', o_words := o_words st', o_frees := o_frees st'\<rparr>"
    by (subst st'(4)) (simp add: st1_def free_block_def)
  ultimately show ?case using st'(2,3) frees keep by auto
qed

section \<open>Leaving a group\<close>

text \<open>What a change of a header may do without disturbing a group.\<close>

definition same_member :: "SFObjHeader \<Rightarrow> SFObjHeader \<Rightarrow> bool" where
  "same_member h h' \<longleftrightarrow> group h' = group h \<and> group_next h' = group_next h \<and> parent h' = parent h \<and> reserved h' = reserved h
     \<and> alloc_size h' = alloc_size h \<and> allocator h' = allocator h
     \<and> flags h' AND SF_OBJ_FLAG_PACKED_MASK = flags h AND SF_OBJ_FLAG_PACKED_MASK
     \<and> (\<forall>aux. sf_header_has_aux_flag (Some h') aux \<longrightarrow> sf_header_has_aux_flag (Some h) aux)"

lemma same_member_refl: "same_member h h"
  by (simp add: same_member_def)

lemma same_member_live_next: "same_member h (h\<lparr>live_next := q\<rparr>)"
  by (simp add: same_member_def sf_header_has_aux_flag_def sf_header_aux_flags_def)

lemma same_member_disposed: "disposed_header h h' \<Longrightarrow> same_member h h'"
  by (auto simp: disposed_header_def same_member_def sf_header_has_aux_flag_def)

lemma same_member_header: "same_member h h' \<Longrightarrow> member_header root h \<Longrightarrow> member_header root h'"
  using low_flags [of "flags h'" "flags h"] by (auto simp: same_member_def member_header_def)

lemma same_member_root: "same_member r r' \<Longrightarrow> root_header root ms n r \<Longrightarrow> root_header root ms n r'"
  using low_flags [of "flags r'" "flags r"] by (auto simp: same_member_def root_header_def)

definition members_kept :: "objects \<Rightarrow> objects \<Rightarrow> addr list \<Rightarrow> bool" where
  "members_kept st st' ms \<longleftrightarrow>
     (\<forall>x \<in> set ms. \<forall>h. o_hdrs st x = Some h \<longrightarrow> (\<exists>h'. o_hdrs st' x = Some h' \<and> same_member h h'))"

lemma members_kept_core:
  assumes "group_core st root ms n" "members_kept st st' ms"
  shows "group_core st' root ms n"
proof -
  have mem: "\<forall>m \<in> set ms. \<exists>h. o_hdrs st m = Some h \<and> member_header root h" using assms(1) by (simp add: group_core_def)
  have links: "group_links st' m = group_links st m" if "m \<in> set ms" for m
  proof -
    from mem that obtain h where "o_hdrs st m = Some h" by blast
    with assms(2) that obtain h' where "o_hdrs st' m = Some h'" "same_member h h'" by (auto simp: members_kept_def)
    with \<open>o_hdrs st m = Some h\<close> show ?thesis by (simp add: group_links_def same_member_def)
  qed
  have "root \<in> set ms" using assms(1) by (auto simp: group_core_def dest: last_in_set)
  moreover obtain r where r: "o_hdrs st root = Some r" "root_header root ms n r" using assms(1) by (auto simp: group_core_def)
  ultimately obtain r' where "o_hdrs st' root = Some r'" "same_member r r'" using assms(2) unfolding members_kept_def by blast
  with r(2) have "\<exists>r. o_hdrs st' root = Some r \<and> root_header root ms n r" using same_member_root by blast
  moreover have "\<forall>m \<in> set ms. \<exists>h. o_hdrs st' m = Some h \<and> member_header root h"
    using mem assms(2) by (meson members_kept_def same_member_header)
  moreover have "segment (group_links st') (hd ms) ms nullptr"
    using assms(1) links by (subst segment_cong [of _ _ "group_links st"]) (auto simp: group_core_def)
  ultimately show ?thesis using assms(1) by (simp add: group_core_def)
qed

lemma members_kept_blocks:
  assumes "group_core st root ms n" "members_kept st st' ms"
  shows "blocks_apart st ms L \<Longrightarrow> blocks_apart st' ms L" "m \<in> set ms \<Longrightarrow> block_of st' a m = block_of st a m"
proof -
  have size: "\<exists>h h'. o_hdrs st m = Some h \<and> o_hdrs st' m = Some h' \<and> alloc_size h' = alloc_size h" if "m \<in> set ms" for m
    using assms that unfolding group_core_def members_kept_def same_member_def by metis
  show "blocks_apart st' ms L" if "blocks_apart st ms L"
    unfolding blocks_apart_def
  proof (intro ballI allI impI)
    fix m x h' assume m: "m \<in> set ms" "x \<in> set ms \<union> L" "o_hdrs st' m = Some h'" "x \<noteq> m"
    from size [OF m(1)] m(3) obtain h where "o_hdrs st m = Some h" "alloc_size h' = alloc_size h" by auto
    with that m show "\<not> in_block m (ucast (alloc_size h')) x" by (auto simp: blocks_apart_def)
  qed
  show "block_of st' a m = block_of st a m" if "m \<in> set ms"
    using size [OF that] by (auto simp: block_of_def)
qed

lemma members_kept_group_blocks:
  assumes "group_core st root ms n" "members_kept st st' ms" "o_default_allocator st' = o_default_allocator st"
  shows "group_blocks st' root ms = group_blocks st root ms"
proof -
  have "root \<in> set ms" using assms(1) by (auto simp: group_core_def dest: last_in_set)
  moreover obtain r where "o_hdrs st root = Some r" using assms(1) by (auto simp: group_core_def)
  ultimately obtain r r' where "o_hdrs st root = Some r" "o_hdrs st' root = Some r'" "same_member r r'"
    using assms(2) unfolding members_kept_def by blast
  then have "group_allocator st' root = group_allocator st root"
    using assms(3) by (simp add: group_allocator_def same_member_def)
  then show ?thesis using members_kept_blocks(2) [OF assms(1,2)] by (simp add: group_blocks_def)
qed

lemma group_blocks_root:
  assumes "o_hdrs st root = Some r" "alloc_size r' = alloc_size r" "allocator r' = allocator r"
  shows "group_blocks (st\<lparr>o_hdrs := (o_hdrs st)(root \<mapsto> r')\<rparr>) root ms = group_blocks st root ms"
  using assms by (simp add: group_blocks_def block_of_def group_allocator_def)

text \<open>The count goes down; the last one to leave takes the list.\<close>

lemma leave_group_run:
  assumes core: "group_core st root ms n" and n: "0 < n" and r: "o_hdrs st root = Some r"
  shows "\<exists>f. f AND SF_OBJ_FLAG_PACKED_MASK = flags r AND SF_OBJ_FLAG_PACKED_MASK
     \<and> leave_group st root = Some
         (if n = 1 then (hd ms, allocator r, st\<lparr>o_hdrs := (o_hdrs st)(root \<mapsto> r\<lparr>reserved := 0, flags := f, parent := nullptr\<rparr>)\<rparr>)
          else (nullptr, nullptr, st\<lparr>o_hdrs := (o_hdrs st)(root \<mapsto> r\<lparr>reserved := reserved r - 1, flags := f\<rparr>)\<rparr>))
     \<and> (n = 1 \<or> root_header root ms (n - 1) (r\<lparr>reserved := reserved r - 1, flags := f\<rparr>))
     \<and> (sf_header_has_aux_flag (Some (r\<lparr>flags := f\<rparr>)) SF_OBJ_AUX_FLAG_HAS_EXCEPTION_METADATA
        \<longleftrightarrow> sf_header_has_aux_flag (Some r) SF_OBJ_AUX_FLAG_HAS_EXCEPTION_METADATA)"
proof -
  have root: "root \<noteq> nullptr" "root AND 1 = 0" and hdm: "hd ms \<noteq> nullptr"
    and rh: "group r = root OR 1" "parent r = hd ms" "unat (reserved r) = n" "root_header root ms n r"
    using core r by (auto simp: group_core_def root_header_def dest: segment_nonnull intro: hd_in_set)
  have cnt: "ucast (reserved r) > (0 :: u64)"
  proof -
    have "unat (ucast (reserved r) :: u64) = n" by (simp add: unat_ucast_32 rh(3))
    with n show ?thesis by (metis unat_0 word_gt_0 unat_eq_zero neq0_conv)
  qed
  let ?c = "ucast (reserved r) - 1 :: u64"
  have uc: "unat ?c = n - 1"
    using cnt n by (subst unat_minus_one) (auto simp: unat_ucast_32 rh(3))
  have c0: "?c = 0 \<longleftrightarrow> n = 1" using uc n by (metis One_nat_def Suc_pred diff_Suc_1 unat_0 unat_eq_zero)
  have res1: "unat (reserved r - 1) = n - 1"
    using rh(3) n by (subst unat_minus_one) auto
  have trunc: "(ucast ?c :: u32) = reserved r - 1"
  proof -
    have "unat (reserved r) < 2 ^ LENGTH(32)" by (rule unsigned_less)
    then have "n < 2 ^ 32" using rh(3) by simp
    then have "unat (ucast ?c :: u32) = n - 1" using uc by (simp add: unsigned_ucast_eq take_bit_nat_eq_self_iff)
    with res1 show ?thesis by (simp add: word_unat_eq_iff)
  qed
  let ?r1 = "r\<lparr>reserved := reserved r - 1\<rparr>"
  let ?st1 = "st\<lparr>o_hdrs := (o_hdrs st)(root \<mapsto> ?r1)\<rparr>"
  obtain f where f: "mark_group_dead ?st1 root ?c = Some (?st1\<lparr>o_hdrs := (o_hdrs ?st1)(root \<mapsto> ?r1\<lparr>flags := f\<rparr>)\<rparr>)"
    "f AND SF_OBJ_FLAG_PACKED_MASK = flags r AND SF_OBJ_FLAG_PACKED_MASK"
    "sf_header_has_aux_flag (Some (?r1\<lparr>flags := f\<rparr>)) SF_OBJ_AUX_FLAG_GROUP_DEAD \<longleftrightarrow> ?c = 0"
    "sf_header_has_aux_flag (Some (?r1\<lparr>flags := f\<rparr>)) SF_OBJ_AUX_FLAG_HAS_EXCEPTION_METADATA
       \<longleftrightarrow> sf_header_has_aux_flag (Some ?r1) SF_OBJ_AUX_FLAG_HAS_EXCEPTION_METADATA"
    using dead_flag_effect [of ?st1 root ?r1 ?c] root(1) by auto
  let ?r2 = "r\<lparr>reserved := reserved r - 1, flags := f\<rparr>"
  let ?st2 = "st\<lparr>o_hdrs := (o_hdrs st)(root \<mapsto> ?r2)\<rparr>"
  have set: "sf_header_set_group_live_count st root ?c = Some (True, ?st2)"
    using member_accessors [OF r root(1) rh(1) root(2,1)] root f(1) rh(2) hdm
    by (simp add: sf_header_set_group_live_count_def write_hdr_def r trunc sf_header_inline_group_head_def)
  have acc2: "sf_header_group_head ?st2 root = Some (hd ms)" "sf_header_group_live_count ?st2 root = Some (ucast (reserved r - 1))"
      "sf_header_set_group_head ?st2 root nullptr = Some (True, ?st2\<lparr>o_hdrs := (o_hdrs ?st2)(root \<mapsto> ?r2\<lparr>parent := nullptr\<rparr>)\<rparr>)"
      "sf_header_allocator ?st2 root = Some (allocator r)"
    using root_accessors [of ?st2 root ?r2] root rh(1,2) hdm by simp_all
  have zero: "(ucast (reserved r - 1) :: u64) = 0 \<longleftrightarrow> n = 1"
    using n res1 by (auto simp: word_unat_eq_iff unat_ucast_32)
  have run: "leave_group st root = Some
         (if n = 1 then (hd ms, allocator r, ?st2\<lparr>o_hdrs := (o_hdrs ?st2)(root \<mapsto> ?r2\<lparr>parent := nullptr\<rparr>)\<rparr>)
          else (nullptr, nullptr, ?st2))"
    using root_accessors(2) [OF r rh(1) root(2,1)] cnt set acc2 zero by (simp add: leave_group_def)
  have "n = 1 \<or> root_header root ms (n - 1) ?r2"
    using rh f(2,3) c0 low_flags [OF f(2)] n res1
    by (auto simp: root_header_def)
  moreover have "reserved r - 1 = 0" if "n = 1" using res1 that by (metis diff_self_eq_0 unsigned_eq_0_iff)
  ultimately show ?thesis using run f(2,4)
    by (intro exI [of _ f]) (auto simp: sf_header_has_aux_flag_def sf_header_aux_flags_def)
qed

section \<open>Disposing of a member\<close>

text \<open>A group whose live members are the ones in the table of live headers.\<close>

definition group_ok :: "objects \<Rightarrow> addr set \<Rightarrow> addr \<Rightarrow> addr list \<Rightarrow> bool" where
  "group_ok st L root ms \<longleftrightarrow> cache_ok st L \<and> group_rep st root ms \<and> blocks_apart st ms L
     \<and> (\<forall>m \<in> set ms. (m \<in> L \<longleftrightarrow> live_member st m) \<and> m + sizeof_SFObjHeader \<noteq> nullptr
          \<and> \<not> sf_is_tagged_pointer (m + sizeof_SFObjHeader))"

lemma segment_last: "segment nxt p as nullptr \<Longrightarrow> as \<noteq> [] \<Longrightarrow> nxt (last as) = Some nullptr"
  by (induction as arbitrary: p) (auto split: option.splits if_splits)

lemma destroy_root_sidecar:
  assumes "o_hdrs st root = Some r" "group r = root OR 1" "root AND 1 = 0" "root \<noteq> nullptr" "flags r AND SF_OBJ_FLAG_EMBEDDED = 0"
  shows "\<exists>f. sf_header_destroy_sidecar st root True =
      Some (st\<lparr>o_hdrs := (o_hdrs st)(root \<mapsto> r\<lparr>group := nullptr, group_next := nullptr, parent := nullptr, reserved := 0, flags := f\<rparr>)\<rparr>)
    \<and> f AND SF_OBJ_FLAG_PACKED_MASK = flags r AND SF_OBJ_FLAG_PACKED_MASK"
proof -
  let ?f = "(flags r AND NOT SF_OBJ_AUX_FLAGS_MASK) OR
    (push_bit 8 (sf_header_aux_flags (Some r) AND NOT SF_OBJ_AUX_FLAG_GROUP_DEAD) AND SF_OBJ_AUX_FLAGS_MASK)"
  have "sf_header_destroy_sidecar st root True =
      Some (st\<lparr>o_hdrs := (o_hdrs st)(root \<mapsto> r\<lparr>group := nullptr, group_next := nullptr, parent := nullptr, reserved := 0, flags := ?f\<rparr>)\<rparr>)"
    using assms member_accessors [OF assms(1,4,2,3,4)]
    by (simp add: sf_header_destroy_sidecar_def write_hdr_def sf_header_set_inline_group_head_def write_flags_def
        sf_header_clear_aux_flags_def sf_header_set_aux_flags_def sf_header_aux_flags_def)
  moreover have "?f AND SF_OBJ_FLAG_PACKED_MASK = flags r AND SF_OBJ_FLAG_PACKED_MASK"
    by (rule bit_word_eqI) (auto simp: bit_simps flag_masks)
  ultimately show ?thesis by blast
qed

text \<open>The member leaves the table and is marked; nothing else about the group changes.\<close>

lemma grouped_dispose_start:
  assumes ok: "live_set st L" "group_core st root ms n" and m: "m \<in> set ms" "m \<in> L"
  shows "\<exists>st1 st2. sf_unregister_live_object_header st m = Some st1 \<and> mark_disposed st1 m = Some st2
     \<and> live_set st2 (L - {m}) \<and> members_kept st st2 ms \<and> live_members st2 ms = filter (\<lambda>x. x \<noteq> m) (live_members st ms)
     \<and> (\<exists>h' b. st2 = st\<lparr>o_hdrs := h', o_buckets := b\<rparr>)"
proof -
  obtain h where h: "o_hdrs st m = Some h" using ok(2) m(1) by (auto simp: group_core_def)
  from unregister_marked [OF ok(1) m(2) h] obtain st1 st2 h' where
    u: "sf_unregister_live_object_header st m = Some st1" "same_but_live st st1" "mark_disposed st1 m = Some st2"
      "st2 = st1\<lparr>o_hdrs := (o_hdrs st1)(m \<mapsto> h')\<rparr>" "live_set st2 (L - {m})" "disposed_header h h'" by blast
  have other: "\<exists>q. o_hdrs st2 x = Some (hx\<lparr>live_next := q\<rparr>)" if "x \<noteq> m" "o_hdrs st x = Some hx" for x hx
    using same_but_live_hdr [OF u(2) that(2)] that(1) by (auto simp: u(4))
  have "members_kept st st2 ms"
    unfolding members_kept_def
  proof (intro ballI allI impI)
    fix x hx assume x: "x \<in> set ms" "o_hdrs st x = Some hx"
    show "\<exists>h'. o_hdrs st2 x = Some h' \<and> same_member hx h'"
    proof (cases "x = m")
      case True
      with x(2) h u(4,6) same_member_disposed show ?thesis by auto
    next
      case False
      from other [OF this x(2)] same_member_live_next show ?thesis by auto
    qed
  qed
  moreover have "live_member st2 x \<longleftrightarrow> live_member st x \<and> x \<noteq> m" if x: "x \<in> set ms" for x
  proof -
    obtain hx where hx: "o_hdrs st x = Some hx" using ok(2) x by (auto simp: group_core_def)
    show ?thesis
    proof (cases "x = m")
      case True
      with u(4,6) show ?thesis by (auto simp: live_member_def disposed_header_def abi_consts)
    next
      case False
      from other [OF this hx] False hx show ?thesis by (auto simp: live_member_def)
    qed
  qed
  then have "live_members st2 ms = filter (\<lambda>x. x \<noteq> m) (live_members st ms)"
    by (auto simp: live_members_def intro!: filter_cong)
  moreover have st1: "st1 = st\<lparr>o_hdrs := o_hdrs st1, o_buckets := o_buckets st1\<rparr>"
    using u(2) by (simp add: same_but_live_def)
  have "st2 = st\<lparr>o_hdrs := (o_hdrs st1)(m \<mapsto> h'), o_buckets := o_buckets st1\<rparr>"
    unfolding u(4) by (subst st1) simp
  ultimately show ?thesis using u(1,3,5) by blast
qed

lemma dispose_header_grouped:
  assumes "group_core st root ms n" "m \<in> set ms" "m \<noteq> nullptr"
  shows "dispose_header st m obj = dispose_grouped st root m obj"
proof -
  obtain h where h: "o_hdrs st m = Some h" "member_header root h" using assms(1,2) by (auto simp: group_core_def)
  obtain r where r: "o_hdrs st root = Some r" "root_header root ms n r" using assms(1) by (auto simp: group_core_def)
  have root: "root AND 1 = 0" "root \<noteq> nullptr" "root + 32 \<noteq> nullptr" using assms(1) by (simp_all add: group_core_def)
  have grp: "group h = root OR 1" "group r = root OR 1" using h(2) r(2) by (simp_all add: member_header_def root_header_def)
  have "root OR 1 \<noteq> nullptr"
  proof
    assume tag: "root OR 1 = nullptr"
    from group_tag(1) [OF root(1)] show False unfolding tag by simp
  qed
  then have "header_has_sidecar_state h" using grp(1) by (simp add: header_has_sidecar_state_def)
  with member_accessors [OF h(1) assms(3) grp(1) root(1,2)] member_lock [OF h(1) assms(3) grp(1) r(1) grp(2) root(1,2)] root(3)
  show ?thesis by (simp add: dispose_header_def h(1))
qed

lemma dispose_grouped_run:
  assumes ok: "live_set st L" "group_core st root ms n" and m: "m \<in> set ms" "m \<in> L" "live_member st m"
  shows "\<exists>st2. live_set st2 (L - {m}) \<and> members_kept st st2 ms \<and> group_core st2 root ms n
     \<and> live_members st2 ms = filter (\<lambda>x. x \<noteq> m) (live_members st ms) \<and> (\<exists>h' b. st2 = st\<lparr>o_hdrs := h', o_buckets := b\<rparr>)
     \<and> dispose_header st m obj = do {
         (free_head, group_allocator, st) \<leftarrow> leave_group st2 root;
         if free_head \<noteq> nullptr then do {
           st \<leftarrow> sf_header_destroy_sidecar st root True;
           free_group_members st free_head group_allocator
         }
         else Some st
       }"
proof -
  obtain h where h: "o_hdrs st m = Some h" "member_header root h" using ok(2) m(1) by (auto simp: group_core_def)
  have nz: "m \<noteq> nullptr" using live_set_mapped [OF ok(1) m(2)] by simp
  from grouped_dispose_start [OF ok m(1,2)] obtain st1 st2 where
    s: "sf_unregister_live_object_header st m = Some st1" "mark_disposed st1 m = Some st2" "live_set st2 (L - {m})"
      "members_kept st st2 ms" "live_members st2 ms = filter (\<lambda>x. x \<noteq> m) (live_members st ms)"
      "\<exists>h' b. st2 = st\<lparr>o_hdrs := h', o_buckets := b\<rparr>" by blast
  have "clear_embedded_owner_slot st m obj = Some st"
    using plain_owner_slot(2) [OF h(1)] h(2) by (simp add: member_header_def)
  moreover have "state h = SF_OBJ_STATE_LIVE" using m(3) h(1) by (simp add: live_member_def)
  ultimately have "dispose_header st m obj = do {
         (free_head, group_allocator, st) \<leftarrow> leave_group st2 root;
         if free_head \<noteq> nullptr then do {
           st \<leftarrow> sf_header_destroy_sidecar st root True;
           free_group_members st free_head group_allocator
         }
         else Some st
       }"
    by (simp add: dispose_header_grouped [OF ok(2) m(1) nz] dispose_grouped_def h(1) s(1,2))
  with s members_kept_core [OF ok(2) s(4)] show ?thesis by blast
qed

lemma group_core_root:
  assumes "group_core st root ms n" "o_hdrs st root = Some r" "group_next r' = group_next r" "member_header root r'"
    "root_header root ms k r'"
  shows "group_core (st\<lparr>o_hdrs := (o_hdrs st)(root \<mapsto> r')\<rparr>) root ms k"
proof -
  have links: "group_links (st\<lparr>o_hdrs := (o_hdrs st)(root \<mapsto> r')\<rparr>) = group_links st"
    using assms(2,3) by (auto simp: group_links_def)
  have "\<forall>m \<in> set ms. \<exists>h. o_hdrs st m = Some h \<and> member_header root h" using assms(1) by (simp add: group_core_def)
  then have "\<forall>m \<in> set ms. \<exists>h. ((o_hdrs st)(root \<mapsto> r')) m = Some h \<and> member_header root h"
    using assms(4) by simp
  with assms(1,5) show ?thesis unfolding group_core_def links by simp
qed

lemma dispose_not_last:
  assumes ok: "live_set st L" "group_core st root ms n" and m: "m \<in> set ms" "m \<in> L" "live_member st m" and n: "1 < n"
    and apart: "blocks_apart st ms L"
  shows "\<exists>st'. dispose_header st m obj = Some st' \<and> live_set st' (L - {m}) \<and> group_core st' root ms (n - 1)
     \<and> live_members st' ms = filter (\<lambda>x. x \<noteq> m) (live_members st ms) \<and> blocks_apart st' ms (L - {m})
     \<and> group_blocks st' root ms = group_blocks st root ms \<and> (\<exists>h' b. st' = st\<lparr>o_hdrs := h', o_buckets := b\<rparr>)"
proof -
  from dispose_grouped_run [OF ok m, of obj] obtain st2 where
    s: "live_set st2 (L - {m})" "members_kept st st2 ms" "group_core st2 root ms n"
      "live_members st2 ms = filter (\<lambda>x. x \<noteq> m) (live_members st ms)" "\<exists>h' b. st2 = st\<lparr>o_hdrs := h', o_buckets := b\<rparr>"
    and run: "dispose_header st m obj = do {
         (free_head, group_allocator, st) \<leftarrow> leave_group st2 root;
         if free_head \<noteq> nullptr then do {
           st \<leftarrow> sf_header_destroy_sidecar st root True;
           free_group_members st free_head group_allocator
         }
         else Some st
       }" by blast
  obtain r where r: "o_hdrs st2 root = Some r" "root_header root ms n r" using s(3) by (auto simp: group_core_def)
  have root: "root \<in> set ms" using s(3) by (auto simp: group_core_def dest: last_in_set)
  have mr: "member_header root r" using s(3) root r(1) by (auto simp: group_core_def)
  have n0: "0 < n" using n by simp
  from leave_group_run [OF s(3) n0 r(1)] n obtain f where
    f: "f AND SF_OBJ_FLAG_PACKED_MASK = flags r AND SF_OBJ_FLAG_PACKED_MASK"
      "leave_group st2 root = Some (nullptr, nullptr, st2\<lparr>o_hdrs := (o_hdrs st2)(root \<mapsto> r\<lparr>reserved := reserved r - 1, flags := f\<rparr>)\<rparr>)"
      "root_header root ms (n - 1) (r\<lparr>reserved := reserved r - 1, flags := f\<rparr>)"
      "sf_header_has_aux_flag (Some (r\<lparr>flags := f\<rparr>)) SF_OBJ_AUX_FLAG_HAS_EXCEPTION_METADATA
        \<longleftrightarrow> sf_header_has_aux_flag (Some r) SF_OBJ_AUX_FLAG_HAS_EXCEPTION_METADATA" by auto
  define r' where "r' = r\<lparr>reserved := reserved r - 1, flags := f\<rparr>"
  define st' where "st' = st2\<lparr>o_hdrs := (o_hdrs st2)(root \<mapsto> r')\<rparr>"
  have "member_header root r'"
    using mr low_flags [OF f(1)] f(4)
    by (simp add: member_header_def r'_def sf_header_has_aux_flag_def sf_header_aux_flags_def)
  from group_core_root [OF s(3) r(1) _ this f(3) [folded r'_def]] have core: "group_core st' root ms (n - 1)"
    by (simp add: st'_def r'_def)
  have live: "live_set st' (L - {m})"
    unfolding st'_def by (rule live_set_keep [OF s(1)]) (simp_all add: live_links_def r(1) r'_def)
  have "live_member st' x = live_member st2 x" for x by (simp add: live_member_def st'_def r'_def r(1))
  then have "live_member st' = live_member st2" by (rule ext)
  then have lm: "live_members st' ms = live_members st2 ms" by (simp add: live_members_def)
  have "o_default_allocator st2 = o_default_allocator st" using s(5) by auto
  from members_kept_group_blocks [OF ok(2) s(2) this] group_blocks_root [OF r(1), of r' ms]
  have blocks: "group_blocks st' root ms = group_blocks st root ms" by (simp add: st'_def r'_def)
  have "blocks_apart st2 ms (L - {m})"
    using members_kept_blocks(1) [OF ok(2) s(2)] apart by (auto simp: blocks_apart_def)
  then have "blocks_apart st' ms (L - {m})"
    by (auto simp: blocks_apart_def st'_def r'_def r(1) split: if_splits)
  moreover obtain h2 b2 where "st2 = st\<lparr>o_hdrs := h2, o_buckets := b2\<rparr>" using s(5) by blast
  then have "st' = st\<lparr>o_hdrs := h2(root \<mapsto> r'), o_buckets := b2\<rparr>" by (simp add: st'_def)
  then have "\<exists>h' b. st' = st\<lparr>o_hdrs := h', o_buckets := b\<rparr>" by blast
  moreover have "dispose_header st m obj = Some st'" using f(2) by (simp add: run st'_def r'_def)
  ultimately show ?thesis using core live lm s(4) blocks by auto
qed

lemma dispose_last:
  assumes ok: "live_set st L" "group_core st root ms 1" and m: "m \<in> set ms" "m \<in> L" "live_member st m"
    and apart: "blocks_apart st ms L" and only: "L \<inter> set ms = {m}"
  shows "\<exists>st'. dispose_header st m obj = Some st' \<and> live_set st' (L - {m})
     \<and> o_frees st' = rev (group_blocks st root ms) @ o_frees st
     \<and> g_last_header_obj st' = g_last_header_obj st \<and> g_last_header_ptr st' = g_last_header_ptr st"
proof -
  from dispose_grouped_run [OF ok m, of obj] obtain st2 where
    s: "live_set st2 (L - {m})" "members_kept st st2 ms" "group_core st2 root ms 1"
      "\<exists>h' b. st2 = st\<lparr>o_hdrs := h', o_buckets := b\<rparr>"
    and run: "dispose_header st m obj = do {
         (free_head, group_allocator, st) \<leftarrow> leave_group st2 root;
         if free_head \<noteq> nullptr then do {
           st \<leftarrow> sf_header_destroy_sidecar st root True;
           free_group_members st free_head group_allocator
         }
         else Some st
       }" by blast
  have c: "root \<noteq> nullptr" "root AND 1 = 0" "distinct ms" "ms \<noteq> []" "last ms = root" "segment (group_links st2) (hd ms) ms nullptr"
      "\<forall>m \<in> set ms. \<exists>h. o_hdrs st2 m = Some h \<and> member_header root h"
    using s(3) by (simp_all add: group_core_def)
  have root: "root \<in> set ms" using c(4,5) by auto
  obtain r where r: "o_hdrs st2 root = Some r" "root_header root ms 1 r" using s(3) by (auto simp: group_core_def)
  have mr: "member_header root r" using c(7) root r(1) by auto
  from leave_group_run [OF s(3) _ r(1)] obtain f where
    f: "f AND SF_OBJ_FLAG_PACKED_MASK = flags r AND SF_OBJ_FLAG_PACKED_MASK"
      "leave_group st2 root = Some (hd ms, allocator r, st2\<lparr>o_hdrs := (o_hdrs st2)(root \<mapsto> r\<lparr>reserved := 0, flags := f, parent := nullptr\<rparr>)\<rparr>)"
    by auto
  let ?r3 = "r\<lparr>reserved := 0, flags := f, parent := nullptr\<rparr>"
  let ?st3 = "st2\<lparr>o_hdrs := (o_hdrs st2)(root \<mapsto> ?r3)\<rparr>"
  have emb: "flags ?r3 AND SF_OBJ_FLAG_EMBEDDED = 0" using mr low_flags(1) [OF f(1)] by (simp add: member_header_def)
  from destroy_root_sidecar [of ?st3 root ?r3] emb c(1,2) mr obtain g where
    g: "sf_header_destroy_sidecar ?st3 root True = Some (?st3\<lparr>o_hdrs := (o_hdrs ?st3)
          (root \<mapsto> ?r3\<lparr>group := nullptr, group_next := nullptr, parent := nullptr, reserved := 0, flags := g\<rparr>)\<rparr>)"
      "g AND SF_OBJ_FLAG_PACKED_MASK = f AND SF_OBJ_FLAG_PACKED_MASK"
    by (auto simp: member_header_def)
  define r4 where "r4 = r\<lparr>group := nullptr, group_next := nullptr, parent := nullptr, reserved := 0, flags := g\<rparr>"
  define st4 where "st4 = st2\<lparr>o_hdrs := (o_hdrs st2)(root \<mapsto> r4)\<rparr>"
  have destroyed: "sf_header_destroy_sidecar ?st3 root True = Some st4" using g(1) by (simp add: st4_def r4_def)
  have "group_links st2 root = Some nullptr" using segment_last [OF c(6,4)] c(5) by simp
  then have "group_links st4 = group_links st2" by (auto simp: group_links_def st4_def r4_def)
  with c(6) have seg: "segment (group_links st4) (hd ms) ms nullptr" by simp
  have apart4: "blocks_apart st4 ms (L - {m})"
    using members_kept_blocks(1) [OF ok(2) s(2) apart] by (auto simp: blocks_apart_def st4_def r4_def r(1) split: if_splits)
  have disj: "(L - {m}) \<inter> set ms = {}" using only by auto
  have unembedded: "\<exists>h. o_hdrs st4 x = Some h \<and> flags h AND SF_OBJ_FLAG_EMBEDDED = 0" if x: "x \<in> set ms" for x
    using c(7) x emb low_flags(1) [OF g(2)] by (auto simp: st4_def r4_def member_header_def)
  let ?a = "if allocator r \<noteq> nullptr then allocator r else o_default_allocator st4"
  from free_group_loop_frees [OF seg c(3) apart4 disj unembedded, of ?a] obtain st' where
    st': "free_group_loop st4 ?a (hd ms) = Some st'" "o_frees st' = rev (map (block_of st4 ?a) ms) @ o_frees st4"
      "\<forall>x \<in> L - {m}. o_hdrs st' x = o_hdrs st4 x"
      "st' = st4\<lparr>o_hdrs := o_hdrs st', o_words := o_words st', o_frees := o_frees st'\<rparr>" by blast
  have "hd ms \<noteq> nullptr" using c(4,6) segment_nonnull by (metis hd_in_set)
  then have "dispose_header st m obj = Some st'"
    using st'(1) by (simp add: run f(2) destroyed free_group_members_def)
  moreover have buckets: "o_buckets st' = o_buckets st2" by (subst st'(4)) (simp add: st4_def)
  have "live_set st' (L - {m})"
    by (rule live_set_keep [OF s(1) _ buckets]) (auto simp: live_links_def st'(3) st4_def r4_def r(1))
  moreover have fields: "o_frees st4 = o_frees st" "o_default_allocator st4 = o_default_allocator st"
      "g_last_header_obj st4 = g_last_header_obj st" "g_last_header_ptr st4 = g_last_header_ptr st"
    using s(4) by (auto simp: st4_def)
  moreover have "g_last_header_obj st' = g_last_header_obj st" "g_last_header_ptr st' = g_last_header_ptr st"
    by (subst st'(4), simp add: fields)+
  moreover have "map (block_of st4 ?a) ms = group_blocks st root ms"
  proof -
    have "o_default_allocator st2 = o_default_allocator st" using s(4) by auto
    from members_kept_group_blocks [OF ok(2) s(2) this] group_blocks_root [OF r(1), of r4 ms]
    have "group_blocks st4 root ms = group_blocks st root ms" by (simp add: st4_def r4_def)
    moreover have "group_allocator st4 root = ?a" by (simp add: group_allocator_def st4_def r4_def)
    ultimately show ?thesis by (simp add: group_blocks_def)
  qed
  ultimately show ?thesis using st'(2) by auto
qed

section \<open>The lifetime of a group\<close>

lemma dispose_object_run:
  assumes "cache_ok (rt_objects rt) L" "heap_object L (m + sizeof_SFObjHeader)" "o_hdrs (rt_objects rt) m = Some h"
    "flags h AND SF_OBJ_FLAG_IMMORTAL = 0" "\<not> sf_header_has_aux_flag (Some h) SF_OBJ_AUX_FLAG_HAS_EXCEPTION_METADATA"
  shows "\<exists>st1. same_but_cache (rt_objects rt) st1 \<and> g_last_header_obj st1 = nullptr \<and> g_last_header_ptr st1 = nullptr \<and> live_set st1 L
     \<and> sf_object_dispose rt (m + sizeof_SFObjHeader)
       = map_option (\<lambda>st'. rt\<lparr>rt_objects := st'\<rparr>) (dispose_header st1 m (m + sizeof_SFObjHeader))"
proof -
  let ?obj = "m + sizeof_SFObjHeader"
  from cache_ok_candidate [OF assms(1), of ?obj] assms(2) obtain st where
    st: "header_from_heap_candidate (rt_objects rt) ?obj = Some (m, st)" "cache_ok st L"
      "same_but_cache (rt_objects rt) st" "g_last_header_obj st = ?obj" by auto
  have nz: "m \<noteq> nullptr" using heap_object_nonnull(2) [OF cache_ok_live [OF assms(1)] assms(2)] by simp
  define st1 where "st1 = st\<lparr>g_last_header_obj := nullptr, g_last_header_ptr := nullptr\<rparr>"
  have "o_hdrs st m = Some h" using same_but_cache_fields(1) [OF st(3)] assms(3) by simp
  with nz assms(4,5) st(1,4)
  have "sf_object_dispose rt ?obj = map_option (\<lambda>st'. rt\<lparr>rt_objects := st'\<rparr>) (dispose_header st1 m ?obj)"
    by (simp add: sf_object_dispose_def header_candidate_def read_header_def st1_def with_objects_def comp_def)
  moreover have "live_set st1 L"
    unfolding st1_def by (rule live_set_keep [OF cache_ok_live [OF st(2)]]) (simp_all add: live_links_def)
  moreover have "same_but_cache (rt_objects rt) st1"
    using st(3) by (cases "rt_objects rt"; cases st; simp add: same_but_cache_def st1_def)
  ultimately show ?thesis by (auto simp: st1_def)
qed

lemma group_of_headers:
  assumes "o_hdrs st' = o_hdrs st" "o_default_allocator st' = o_default_allocator st"
  shows "group_core st' root ms n = group_core st root ms n" "live_members st' ms = live_members st ms"
    "blocks_apart st' ms L = blocks_apart st ms L" "group_blocks st' root ms = group_blocks st root ms"
proof -
  show "group_core st' root ms n = group_core st root ms n" "live_members st' ms = live_members st ms"
    "blocks_apart st' ms L = blocks_apart st ms L"
    by (simp_all add: group_core_def live_members_def live_member_def [abs_def] blocks_apart_def group_links_def [abs_def] assms)
  have "group_allocator st' root = group_allocator st root"
    by (cases "o_hdrs st root") (simp_all add: group_allocator_def assms)
  then show "group_blocks st' root ms = group_blocks st root ms"
    by (simp add: group_blocks_def block_of_def [abs_def] assms)
qed

lemma group_ok_dispose:
  assumes ok: "group_ok (rt_objects rt) L root ms" and m: "m \<in> set (live_members (rt_objects rt) ms)"
  shows "\<exists>st1. sf_object_dispose rt (m + sizeof_SFObjHeader)
       = map_option (\<lambda>st'. rt\<lparr>rt_objects := st'\<rparr>) (dispose_header st1 m (m + sizeof_SFObjHeader))
     \<and> live_set st1 L \<and> group_core st1 root ms (length (live_members (rt_objects rt) ms)) \<and> blocks_apart st1 ms L
     \<and> live_members st1 ms = live_members (rt_objects rt) ms \<and> group_blocks st1 root ms = group_blocks (rt_objects rt) root ms
     \<and> g_last_header_obj st1 = nullptr \<and> g_last_header_ptr st1 = nullptr \<and> o_frees st1 = o_frees (rt_objects rt)
     \<and> m \<in> set ms \<and> m \<in> L \<and> live_member st1 m"
proof -
  have lm: "m \<in> set ms" "live_member (rt_objects rt) m" using m by (auto simp: live_members_def)
  then have L: "m \<in> L" "heap_object L (m + sizeof_SFObjHeader)"
    using ok by (auto simp: group_ok_def heap_object_def)
  have core: "group_core (rt_objects rt) root ms (length (live_members (rt_objects rt) ms))"
    using ok by (simp add: group_ok_def group_rep_def)
  then obtain h where h: "o_hdrs (rt_objects rt) m = Some h" "member_header root h"
    using lm(1) by (auto simp: group_core_def)
  have c: "cache_ok (rt_objects rt) L" using ok by (simp add: group_ok_def)
  have "flags h AND SF_OBJ_FLAG_IMMORTAL = 0" "\<not> sf_header_has_aux_flag (Some h) SF_OBJ_AUX_FLAG_HAS_EXCEPTION_METADATA"
    using h(2) by (simp_all add: member_header_def)
  from dispose_object_run [OF c L(2) h(1) this] obtain st1 where
    st1: "same_but_cache (rt_objects rt) st1" "g_last_header_obj st1 = nullptr" "g_last_header_ptr st1 = nullptr" "live_set st1 L"
      "sf_object_dispose rt (m + sizeof_SFObjHeader)
       = map_option (\<lambda>st'. rt\<lparr>rt_objects := st'\<rparr>) (dispose_header st1 m (m + sizeof_SFObjHeader))"
    by blast
  note same = same_but_cache_fields [OF st1(1)]
  note grp = group_of_headers [OF same(1) same(6)]
  have "live_member st1 m" using lm(2) by (simp add: live_member_def same(1))
  moreover have "group_core st1 root ms (length (live_members (rt_objects rt) ms))" using grp(1) core by simp
  moreover have "blocks_apart st1 ms L" using grp(3) ok by (simp add: group_ok_def)
  ultimately show ?thesis using st1(2-5) grp(2,4) lm(1) L(1) same(4) by blast
qed

lemma length_filter_out: "distinct xs \<Longrightarrow> m \<in> set xs \<Longrightarrow> length (filter (\<lambda>x. x \<noteq> m) xs) = length xs - 1"
proof (induction xs)
  case (Cons x xs)
  show ?case
  proof (cases "x = m")
    case True
    with Cons.prems(1) have "filter (\<lambda>x. x \<noteq> m) xs = xs" by (auto intro: filter_True)
    with True show ?thesis by simp
  next
    case False
    with Cons have "m \<in> set xs" "length (filter (\<lambda>x. x \<noteq> m) xs) = length xs - 1" by auto
    with False show ?thesis by (cases xs) auto
  qed
qed simp

lemma group_step:
  assumes ok: "group_ok (rt_objects rt) L root ms" and m: "m \<in> set (live_members (rt_objects rt) ms)"
    and more: "1 < length (live_members (rt_objects rt) ms)"
  shows "\<exists>rt'. sf_object_dispose rt (m + sizeof_SFObjHeader) = Some rt' \<and> group_ok (rt_objects rt') (L - {m}) root ms
     \<and> live_members (rt_objects rt') ms = filter (\<lambda>x. x \<noteq> m) (live_members (rt_objects rt) ms)
     \<and> group_blocks (rt_objects rt') root ms = group_blocks (rt_objects rt) root ms
     \<and> o_frees (rt_objects rt') = o_frees (rt_objects rt)"
proof -
  from group_ok_dispose [OF ok m] obtain st1 where
    st1: "sf_object_dispose rt (m + sizeof_SFObjHeader)
       = map_option (\<lambda>st'. rt\<lparr>rt_objects := st'\<rparr>) (dispose_header st1 m (m + sizeof_SFObjHeader))"
      "live_set st1 L" "group_core st1 root ms (length (live_members (rt_objects rt) ms))" "blocks_apart st1 ms L"
      "live_members st1 ms = live_members (rt_objects rt) ms" "group_blocks st1 root ms = group_blocks (rt_objects rt) root ms"
      "g_last_header_obj st1 = nullptr" "g_last_header_ptr st1 = nullptr" "o_frees st1 = o_frees (rt_objects rt)"
      "m \<in> set ms" "m \<in> L" "live_member st1 m" by blast
  from dispose_not_last [OF st1(2,3,10,11,12) more st1(4), of "m + sizeof_SFObjHeader"] obtain st' where
    st': "dispose_header st1 m (m + sizeof_SFObjHeader) = Some st'" "live_set st' (L - {m})"
      "group_core st' root ms (length (live_members (rt_objects rt) ms) - 1)"
      "live_members st' ms = filter (\<lambda>x. x \<noteq> m) (live_members st1 ms)" "blocks_apart st' ms (L - {m})"
      "group_blocks st' root ms = group_blocks st1 root ms" "\<exists>h' b. st' = st1\<lparr>o_hdrs := h', o_buckets := b\<rparr>" by blast
  have "distinct (live_members (rt_objects rt) ms)"
    using st1(3) by (simp add: live_members_def group_core_def)
  then have len: "length (filter (\<lambda>x. x \<noteq> m) (live_members (rt_objects rt) ms)) = length (live_members (rt_objects rt) ms) - 1"
    by (rule length_filter_out [OF _ m])
  have lm: "live_member st' x \<longleftrightarrow> live_member st1 x \<and> x \<noteq> m" if "x \<in> set ms" for x
  proof -
    have "x \<in> set (live_members st' ms) \<longleftrightarrow> x \<in> set (live_members st1 ms) \<and> x \<noteq> m" unfolding st'(4) by simp
    with that show ?thesis by (simp add: live_members_def)
  qed
  have old: "live_member st1 x \<longleftrightarrow> x \<in> L" if "x \<in> set ms" for x
  proof -
    have "x \<in> set (live_members st1 ms) \<longleftrightarrow> x \<in> set (live_members (rt_objects rt) ms)" using st1(5) by simp
    with that ok show ?thesis by (simp add: live_members_def group_ok_def)
  qed
  have "g_last_header_obj st' = nullptr" "g_last_header_ptr st' = nullptr" "o_frees st' = o_frees (rt_objects rt)"
    using st'(7) st1(7-9) by auto
  then have "group_ok st' (L - {m}) root ms" "o_frees st' = o_frees (rt_objects rt)"
    using ok st'(2,3,4,5) lm old len st1(5) by (simp_all add: group_ok_def cache_ok_def group_rep_def)
  then show ?thesis using st1(1,5,6) st'(1,4,6) by simp
qed

lemma group_end:
  assumes ok: "group_ok (rt_objects rt) L root ms" and m: "live_members (rt_objects rt) ms = [m]"
  shows "\<exists>rt'. sf_object_dispose rt (m + sizeof_SFObjHeader) = Some rt' \<and> cache_ok (rt_objects rt') (L - set ms)
     \<and> o_frees (rt_objects rt') = rev (group_blocks (rt_objects rt) root ms) @ o_frees (rt_objects rt)"
proof -
  from group_ok_dispose [OF ok, of m] m obtain st1 where
    st1: "sf_object_dispose rt (m + sizeof_SFObjHeader)
       = map_option (\<lambda>st'. rt\<lparr>rt_objects := st'\<rparr>) (dispose_header st1 m (m + sizeof_SFObjHeader))"
      "live_set st1 L" "group_core st1 root ms 1" "blocks_apart st1 ms L"
      "group_blocks st1 root ms = group_blocks (rt_objects rt) root ms"
      "g_last_header_obj st1 = nullptr" "g_last_header_ptr st1 = nullptr" "o_frees st1 = o_frees (rt_objects rt)"
      "m \<in> set ms" "m \<in> L" "live_member st1 m" by auto
  have "x \<in> L \<longleftrightarrow> x = m" if "x \<in> set ms" for x
  proof -
    have "x \<in> set (live_members (rt_objects rt) ms) \<longleftrightarrow> x = m" using m by simp
    with that ok show ?thesis by (simp add: live_members_def group_ok_def)
  qed
  then have only: "L \<inter> set ms = {m}" "L - {m} = L - set ms" using st1(9,10) by auto
  from dispose_last [OF st1(2,3,9,10,11,4) only(1), of "m + sizeof_SFObjHeader"] obtain st' where
    st': "dispose_header st1 m (m + sizeof_SFObjHeader) = Some st'" "live_set st' (L - {m})"
      "o_frees st' = rev (group_blocks st1 root ms) @ o_frees st1" "g_last_header_obj st' = nullptr" "g_last_header_ptr st' = nullptr"
    unfolding st1(6,7) by blast
  then show ?thesis using st1(1,5,8) only(2) by (simp add: cache_ok_def)
qed

text \<open>C13: a group is freed as a whole, once, and not before its last member goes.  However its live members
  are ordered, disposing of them one after the other frees nothing until the last one is disposed of,
  and then hands the block of every member, those disposed of long before included, back to the
  allocator of the group exactly once; the objects outside the group stay in the table.\<close>

theorem group_lifetime:
  assumes "group_ok (rt_objects rt) L root ms" "distinct os" "os \<noteq> []" "set os = set (live_members (rt_objects rt) ms)"
  shows "\<exists>rt1 rt2. fold_state (\<lambda>m rt. sf_object_dispose rt (m + sizeof_SFObjHeader)) (butlast os) rt = Some rt1
     \<and> o_frees (rt_objects rt1) = o_frees (rt_objects rt)
     \<and> sf_object_dispose rt1 (last os + sizeof_SFObjHeader) = Some rt2
     \<and> o_frees (rt_objects rt2) = rev (group_blocks (rt_objects rt) root ms) @ o_frees (rt_objects rt)
     \<and> cache_ok (rt_objects rt2) (L - set ms)"
  using assms
proof (induction os arbitrary: rt L)
  case (Cons m os)
  have dist: "distinct (live_members (rt_objects rt) ms)"
    using Cons.prems(1) by (simp add: live_members_def group_ok_def group_rep_def group_core_def)
  then have len: "length (live_members (rt_objects rt) ms) = Suc (length os)"
    using Cons.prems(2,4) by (metis distinct_card length_Cons)
  show ?case
  proof (cases "os = []")
    case True
    with len Cons.prems(4) have "live_members (rt_objects rt) ms = [m]"
      by (cases "live_members (rt_objects rt) ms") auto
    from group_end [OF Cons.prems(1) this] True show ?thesis by auto
  next
    case False
    then have more: "1 < length (live_members (rt_objects rt) ms)" using len by (cases os) auto
    have "m \<in> set (live_members (rt_objects rt) ms)" using Cons.prems(4) by auto
    from group_step [OF Cons.prems(1) this more] obtain rt' where
      rt': "sf_object_dispose rt (m + sizeof_SFObjHeader) = Some rt'" "group_ok (rt_objects rt') (L - {m}) root ms"
        "live_members (rt_objects rt') ms = filter (\<lambda>x. x \<noteq> m) (live_members (rt_objects rt) ms)"
        "group_blocks (rt_objects rt') root ms = group_blocks (rt_objects rt) root ms"
        "o_frees (rt_objects rt') = o_frees (rt_objects rt)" by blast
    have "set os = set (live_members (rt_objects rt') ms)" using Cons.prems(2,4) by (auto simp: rt'(3))
    from Cons.IH [OF rt'(2) _ False this] Cons.prems(2) have
      "\<exists>rt1 rt2. fold_state (\<lambda>m rt. sf_object_dispose rt (m + sizeof_SFObjHeader)) (butlast os) rt' = Some rt1
        \<and> o_frees (rt_objects rt1) = o_frees (rt_objects rt')
        \<and> sf_object_dispose rt1 (last os + sizeof_SFObjHeader) = Some rt2
        \<and> o_frees (rt_objects rt2) = rev (group_blocks (rt_objects rt') root ms) @ o_frees (rt_objects rt')
        \<and> cache_ok (rt_objects rt2) (L - {m} - set ms)" by simp
    moreover have "L - {m} - set ms = L - set ms"
      using \<open>m \<in> set (live_members (rt_objects rt) ms)\<close> by (auto simp: live_members_def)
    ultimately show ?thesis using rt'(1,4,5) False by simp
  qed
qed simp

end
