(* ===== verification/SF_Children.thy ===== *)
theory SF_Children
  imports SF_Groups
begin

unbundle bit_operations_syntax

text \<open>
  Allocation of an object with a parent (\<open>sf_alloc_heap_child_object\<close> in \<open>Runtime/src/loader.c\<close>): the
  new object joins the group of its parent's root, and the group stays well-formed, so that
  what \<open>SF_Groups\<close> shows of the end of a group applies to groups built by the runtime itself.
\<close>

section \<open>Joining a group\<close>

lemma initial_header_facts:
  "\<exists>h. initial_header total_size a oflags = Some h \<and> live_next h = nullptr \<and> refcount h = 1 \<and> state h = SF_OBJ_STATE_LIVE
     \<and> alloc_size h = ucast total_size \<and> allocator h = a \<and> parent h = nullptr \<and> group h = nullptr \<and> group_next h = nullptr
     \<and> flags h AND SF_OBJ_FLAG_PACKED_MASK = 0 \<and> sf_header_aux_flags (Some h) = 0"
proof -
  let ?h0 = "zero_header\<lparr>magic := SF_OBJ_HEADER_MAGIC, live_next := nullptr, refcount := 1,
             state := SF_OBJ_STATE_LIVE, flags := SF_OBJ_FLAG_NONE, alloc_size := ucast total_size\<rparr>"
  let ?r = "sf_header_set_live_cookie (sf_header_set_aux_flags (sf_header_set_class_flags (Some ?h0) oflags) 0)"
  obtain f where f: "?r = Some (?h0\<lparr>flags := f\<rparr>)"
    by (simp add: sf_header_set_live_cookie_def sf_header_set_aux_flags_def sf_header_set_class_flags_def)
  have "map_option object_flags ?r = Some (object_flags ?h0)" by (simp add: flag_simps)
  then have "f AND SF_OBJ_FLAG_PACKED_MASK = 0" unfolding f by (simp add: object_flags_def abi_consts)
  moreover have "sf_header_aux_flags ?r = 0"
    by (simp add: aux_flags_set_cookie sf_header_set_class_flags_def aux_flags_set_aux)
  then have "sf_header_aux_flags (Some (?h0\<lparr>flags := f, allocator := a\<rparr>)) = 0"
    unfolding f by (simp add: sf_header_aux_flags_def)
  ultimately show ?thesis unfolding initial_header_def f by (simp add: zero_header_def)
qed

text \<open>The new header, linked in front of the members; \<open>r\<close> is the header of the root.\<close>

lemma link_member_run:
  assumes raw: "o_hdrs st raw = Some h" "raw \<noteq> nullptr" "raw \<noteq> root" "group h = nullptr"
    and core: "group_core st root ms n" and r: "o_hdrs st root = Some r" and n: "n + 1 < 2 ^ 32"
  shows "\<exists>f. link_member st raw par root = Some (True, st\<lparr>o_hdrs := (o_hdrs st)
      (raw \<mapsto> h\<lparr>parent := par, group := root OR 1, group_next := hd ms\<rparr>,
       root \<mapsto> r\<lparr>parent := raw, reserved := reserved r + 1, flags := f\<rparr>)\<rparr>)
     \<and> f AND SF_OBJ_FLAG_PACKED_MASK = flags r AND SF_OBJ_FLAG_PACKED_MASK
     \<and> \<not> sf_header_has_aux_flag (Some (r\<lparr>flags := f\<rparr>)) SF_OBJ_AUX_FLAG_GROUP_DEAD
     \<and> (sf_header_has_aux_flag (Some (r\<lparr>flags := f\<rparr>)) SF_OBJ_AUX_FLAG_HAS_EXCEPTION_METADATA
        \<longleftrightarrow> sf_header_has_aux_flag (Some r) SF_OBJ_AUX_FLAG_HAS_EXCEPTION_METADATA)"
proof -
  have root: "root \<noteq> nullptr" "root AND 1 = 0" and hdm: "hd ms \<noteq> nullptr"
    and rh: "group r = root OR 1" "parent r = hd ms" "unat (reserved r) = n"
    using core r by (auto simp: group_core_def root_header_def dest: segment_nonnull intro: hd_in_set)
  let ?h1 = "h\<lparr>parent := par\<rparr>"
  let ?h2 = "h\<lparr>parent := par, group := root OR 1\<rparr>"
  let ?h3 = "h\<lparr>parent := par, group := root OR 1, group_next := hd ms\<rparr>"
  define st1 where "st1 = st\<lparr>o_hdrs := (o_hdrs st)(raw \<mapsto> ?h1)\<rparr>"
  define st2 where "st2 = st\<lparr>o_hdrs := (o_hdrs st)(raw \<mapsto> ?h2)\<rparr>"
  define st3 where "st3 = st\<lparr>o_hdrs := (o_hdrs st)(raw \<mapsto> ?h3)\<rparr>"
  define st4 where "st4 = st3\<lparr>o_hdrs := (o_hdrs st3)(root \<mapsto> r\<lparr>parent := raw\<rparr>)\<rparr>"
  have r1: "o_hdrs st1 root = Some r" "o_hdrs st2 root = Some r" "o_hdrs st3 root = Some r"
    using r raw(3) by (simp_all add: st1_def st2_def st3_def)
  have 1: "sf_header_set_parent st raw par = Some (True, st1)"
    using raw by (simp add: sf_header_set_parent_def parent_is_group_head_def sf_header_uses_inline_group_state_def
        sf_header_inline_group_root_def write_hdr_def st1_def)
  have init: "sf_header_init_group_root st1 root = Some (True, st1)"
    using member_accessors [OF r1(1) root(1) rh(1) root(2,1)] root(1)
    by (simp add: sf_header_init_group_root_def sf_header_group_state_atomic_def)
  have 2: "sf_header_set_group_root st1 raw root = Some (True, st2)"
    using member_accessors(1) [OF r1(1) root(1) rh(1) root(2,1)] root raw init
    by (simp add: sf_header_set_group_root_def write_hdr_def st1_def st2_def)
  have hd: "sf_header_group_head st2 root = Some (hd ms)"
    using root_accessors(1) [OF r1(2) rh(1) root(2,1)] rh(2) hdm by simp
  have 3: "sf_header_set_group_next st2 raw (hd ms) = Some (True, st3)"
    using raw by (simp add: sf_header_set_group_next_def write_hdr_def st2_def st3_def)
  have 4: "sf_header_set_group_head st3 root raw = Some (True, st4)"
    using root_accessors(3) [OF r1(3) rh(1) root(2,1), of raw] by (simp add: st4_def)
  let ?r4 = "r\<lparr>parent := raw\<rparr>"
  have r4: "o_hdrs st4 root = Some ?r4" "group ?r4 = root OR 1" by (simp_all add: st4_def rh(1))
  have 5: "sf_header_group_live_count st4 root = Some (ucast (reserved r))"
    using root_accessors(2) [OF r4 root(2,1)] by simp
  let ?c = "ucast (reserved r) + 1 :: u64"
  have uc: "unat ?c = n + 1"
    using n by (simp add: unat_word_ariths unat_ucast_32 rh(3))
  have trunc: "(ucast ?c :: u32) = reserved r + 1"
  proof -
    have "unat (ucast ?c :: u32) = n + 1" using uc n by (simp add: unsigned_ucast_eq take_bit_nat_eq_self_iff)
    moreover have "unat (reserved r + 1) = n + 1" using n by (simp add: unat_word_ariths rh(3))
    ultimately show ?thesis by (simp add: word_unat_eq_iff)
  qed
  have c0: "?c \<noteq> 0" using uc by (metis Suc_eq_plus1 nat.distinct(1) unat_0)
  let ?r5 = "?r4\<lparr>reserved := reserved r + 1\<rparr>"
  let ?st5 = "st4\<lparr>o_hdrs := (o_hdrs st4)(root \<mapsto> ?r5)\<rparr>"
  obtain f where f: "mark_group_dead ?st5 root ?c = Some (?st5\<lparr>o_hdrs := (o_hdrs ?st5)(root \<mapsto> ?r5\<lparr>flags := f\<rparr>)\<rparr>)"
    "f AND SF_OBJ_FLAG_PACKED_MASK = flags r AND SF_OBJ_FLAG_PACKED_MASK"
    "sf_header_has_aux_flag (Some (?r5\<lparr>flags := f\<rparr>)) SF_OBJ_AUX_FLAG_GROUP_DEAD \<longleftrightarrow> ?c = 0"
    "sf_header_has_aux_flag (Some (?r5\<lparr>flags := f\<rparr>)) SF_OBJ_AUX_FLAG_HAS_EXCEPTION_METADATA
       \<longleftrightarrow> sf_header_has_aux_flag (Some ?r5) SF_OBJ_AUX_FLAG_HAS_EXCEPTION_METADATA"
    using dead_flag_effect [of ?st5 root ?r5 ?c] root(1) by auto
  let ?r6 = "r\<lparr>parent := raw, reserved := reserved r + 1, flags := f\<rparr>"
  let ?st6 = "st4\<lparr>o_hdrs := (o_hdrs st4)(root \<mapsto> ?r6)\<rparr>"
  have set: "sf_header_set_group_live_count st4 root ?c = Some (True, ?st6)"
    using member_accessors [OF r4(1) root(1) r4(2) root(2,1)] root(1) f(1) raw(2)
    by (simp add: sf_header_set_group_live_count_def write_hdr_def r4 trunc sf_header_inline_group_head_def)
  have "?st6 = st\<lparr>o_hdrs := (o_hdrs st)(raw \<mapsto> ?h3, root \<mapsto> ?r6)\<rparr>" by (simp add: st4_def st3_def)
  moreover have "link_member st raw par root = Some (True, ?st6)"
    by (simp add: link_member_def 1 2 hd 3 4 5 set)
  ultimately show ?thesis using f(2-4) c0
    by (intro exI [of _ f]) (auto simp: sf_header_has_aux_flag_def sf_header_aux_flags_def)
qed

lemma group_ok_accessors:
  assumes core: "group_core st root ms n" and n: "0 < n" and m: "m \<in> set ms"
  shows "sf_header_group_root st m = Some root" "sf_header_init_group_root st root = Some (True, st)"
    "sf_header_grouped st root = Some True" "sf_header_group_lock st root = Some (root + 32)"
    "sf_header_group_dead st root = Some False" "\<exists>c. sf_header_group_live_count st root = Some c \<and> c \<noteq> 0"
    "\<exists>a. sf_header_allocator st root = Some a \<and> group_allocator st root = (if a = nullptr then o_default_allocator st else a)"
proof -
  obtain h where h: "o_hdrs st m = Some h" "member_header root h" using core m by (auto simp: group_core_def)
  obtain r where r: "o_hdrs st root = Some r" "root_header root ms n r" using core by (auto simp: group_core_def)
  have root: "root \<noteq> nullptr" "root AND 1 = 0" using core by (simp_all add: group_core_def)
  have gr: "group r = root OR 1" "group h = root OR 1" and cnt: "unat (reserved r) = n"
    and dead: "\<not> sf_header_has_aux_flag (Some r) SF_OBJ_AUX_FLAG_GROUP_DEAD"
    using r(2) h(2) by (simp_all add: root_header_def member_header_def)
  have mnz: "m \<noteq> nullptr" using core m segment_nonnull by (auto simp: group_core_def)
  note acc = member_accessors [OF r(1) root(1) gr(1) root(2,1)]
  show "sf_header_group_root st m = Some root" by (rule member_accessors [OF h(1) mnz gr(2) root(2,1)])
  show "sf_header_init_group_root st root = Some (True, st)"
    using acc root by (simp add: sf_header_init_group_root_def sf_header_group_state_atomic_def)
  show "sf_header_grouped st root = Some True" by (rule acc)
  show "sf_header_group_lock st root = Some (root + 32)"
    by (rule member_lock [OF r(1) root(1) gr(1) r(1) gr(1) root(2,1)])
  show "sf_header_group_dead st root = Some False"
    using acc root dead by (simp add: sf_header_group_dead_def r(1))
  have "unat (ucast (reserved r) :: u64) = n" by (simp add: unat_ucast_32 cnt)
  then have "(ucast (reserved r) :: u64) \<noteq> 0" using n by (metis less_not_refl unat_0)
  with root_accessors(2) [OF r(1) gr(1) root(2,1)]
  show "\<exists>c. sf_header_group_live_count st root = Some c \<and> c \<noteq> 0" by blast
  show "\<exists>a. sf_header_allocator st root = Some a \<and> group_allocator st root = (if a = nullptr then o_default_allocator st else a)"
    using root by (simp add: sf_header_allocator_def r(1) group_allocator_def)
qed

text \<open>A block that is free to hand out: it holds no header in use, and lies in no block of the group.\<close>

definition fresh_block :: "objects \<Rightarrow> addr set \<Rightarrow> addr list \<Rightarrow> addr \<Rightarrow> u64 \<Rightarrow> bool" where
  "fresh_block st L ms raw total_size \<longleftrightarrow> raw \<noteq> nullptr \<and> raw + sizeof_SFObjHeader \<noteq> nullptr
     \<and> \<not> sf_is_tagged_pointer (raw + sizeof_SFObjHeader) \<and> 0 < total_size \<and> total_size < 2 ^ 32
     \<and> (\<forall>x \<in> set ms \<union> L. \<not> in_block raw total_size x)
     \<and> (\<forall>m \<in> set ms. \<forall>h. o_hdrs st m = Some h \<longrightarrow> \<not> in_block m (ucast (alloc_size h)) raw)"

lemma small_size:
  assumes "(total_size :: u64) < 2 ^ 32"
  shows "(ucast (ucast total_size :: u32) :: u64) = total_size"
proof -
  have "unat total_size < 2 ^ 32" using assms by (simp add: word_less_nat_alt)
  then have "unat (ucast total_size :: u32) = unat total_size" by (simp add: unsigned_ucast_eq take_bit_nat_eq_self_iff)
  then show ?thesis by (simp add: word_unat_eq_iff unat_ucast_32)
qed

text \<open>The state between the initialisation of the block and its registration.\<close>

lemma child_linked:
  assumes core: "group_core st root ms n" and n: "n + 1 < 2 ^ 32" and live: "live_set st L"
    and fresh: "fresh_block st L ms raw total_size"
    and a: "a = group_allocator st root" "a \<noteq> nullptr"
    and st1_def: "st1 = sf_init_allocated_header st raw total_size a oflags"
  shows "\<exists>st2. link_member st1 raw par root = Some (True, st2) \<and> group_core st2 root (raw # ms) (n + 1)
     \<and> live_set st2 L \<and> live_member st2 raw \<and> (\<forall>x \<in> set ms. live_member st2 x = live_member st x)
     \<and> group_blocks st2 root (raw # ms) = (a, raw, total_size) # group_blocks st root ms
     \<and> (\<forall>m \<in> set ms. block_of st2 a m = block_of st a m) \<and> block_of st2 a raw = (a, raw, total_size)
     \<and> (\<exists>h w. st2 = st\<lparr>o_hdrs := h, o_words := w\<rparr>)"
proof -
  obtain h0 where h0: "initial_header total_size a oflags = Some h0" "state h0 = SF_OBJ_STATE_LIVE" "alloc_size h0 = ucast total_size"
      "allocator h0 = a" "group h0 = nullptr" "flags h0 AND SF_OBJ_FLAG_PACKED_MASK = 0" "sf_header_aux_flags (Some h0) = 0"
    using initial_header_facts by blast
  have c: "root \<noteq> nullptr" "root AND 1 = 0" "distinct ms" "ms \<noteq> []" "last ms = root" "segment (group_links st) (hd ms) ms nullptr"
      "\<forall>m \<in> set ms. \<exists>h. o_hdrs st m = Some h \<and> member_header root h" "root + 32 \<noteq> 0"
    using core by (simp_all add: group_core_def)
  have inb: "in_block raw total_size raw" using fresh by (simp add: in_block_def fresh_block_def)
  then have new: "raw \<notin> set ms \<union> L" and rnz: "raw \<noteq> nullptr" using fresh by (auto simp: fresh_block_def)
  have root: "root \<in> set ms" using c(4,5) by auto
  have raw: "o_hdrs st1 raw = Some h0" using a(2) h0(1) by (simp add: st1_def sf_init_allocated_header_def Let_def)
  have keep1: "o_hdrs st1 x = o_hdrs st x" if "x \<in> set ms \<union> L" for x
    using fresh that new by (auto simp: st1_def sf_init_allocated_header_def Let_def zero_block_def fresh_block_def)
  have "members_kept st st1 ms"
    using keep1 same_member_refl by (auto simp: members_kept_def)
  from members_kept_core [OF core this] have core1: "group_core st1 root ms n" .
  obtain r where r: "o_hdrs st1 root = Some r" "root_header root ms n r" using core1 by (auto simp: group_core_def)
  have mr: "member_header root r" using c(7) root r(1) keep1 [of root] by auto
  have "raw \<noteq> root" using new root by auto
  from link_member_run [OF raw rnz this h0(5) core1 r(1) n, of par] obtain f where
    f: "link_member st1 raw par root = Some (True, st1\<lparr>o_hdrs := (o_hdrs st1)
      (raw \<mapsto> h0\<lparr>parent := par, group := root OR 1, group_next := hd ms\<rparr>,
       root \<mapsto> r\<lparr>parent := raw, reserved := reserved r + 1, flags := f\<rparr>)\<rparr>)"
     "f AND SF_OBJ_FLAG_PACKED_MASK = flags r AND SF_OBJ_FLAG_PACKED_MASK"
     "\<not> sf_header_has_aux_flag (Some (r\<lparr>flags := f\<rparr>)) SF_OBJ_AUX_FLAG_GROUP_DEAD"
     "sf_header_has_aux_flag (Some (r\<lparr>flags := f\<rparr>)) SF_OBJ_AUX_FLAG_HAS_EXCEPTION_METADATA
        \<longleftrightarrow> sf_header_has_aux_flag (Some r) SF_OBJ_AUX_FLAG_HAS_EXCEPTION_METADATA" by blast
  define h2 where "h2 = h0\<lparr>parent := par, group := root OR 1, group_next := hd ms\<rparr>"
  define r2 where "r2 = r\<lparr>parent := raw, reserved := reserved r + 1, flags := f\<rparr>"
  define st2 where "st2 = st1\<lparr>o_hdrs := (o_hdrs st1)(raw \<mapsto> h2, root \<mapsto> r2)\<rparr>"
  have hdrs: "o_hdrs st2 raw = Some h2" "o_hdrs st2 root = Some r2"
      "\<And>x. x \<in> set ms \<union> L \<Longrightarrow> x \<noteq> root \<Longrightarrow> o_hdrs st2 x = o_hdrs st x"
    using \<open>raw \<noteq> root\<close> new keep1 by (auto simp: st2_def)
  have rst: "o_hdrs st root = Some r" using r(1) keep1 [of root] root by simp
  have links: "group_links st2 x = group_links st x" if "x \<in> set ms" for x
    using that hdrs rst by (cases "x = root") (simp_all add: group_links_def r2_def)
  have "segment (group_links st2) (hd ms) ms nullptr"
    using c(6) links by (subst segment_cong [of _ _ "group_links st"]) auto
  moreover have "group_links st2 raw = Some (hd ms)" by (simp add: group_links_def hdrs h2_def)
  ultimately have seg: "segment (group_links st2) (hd (raw # ms)) (raw # ms) nullptr" using rnz by simp
  have "f AND SF_OBJ_FLAG_EMBEDDED = flags r AND SF_OBJ_FLAG_EMBEDDED" "f AND SF_OBJ_FLAG_IMMORTAL = flags r AND SF_OBJ_FLAG_IMMORTAL"
    using low_flags [OF f(2)] by simp_all
  then have mr2: "member_header root r2" and rr2: "root_header root (raw # ms) (n + 1) r2"
    using mr f(3,4) r(2) n
    by (simp_all add: member_header_def root_header_def r2_def sf_header_has_aux_flag_def sf_header_aux_flags_def unat_word_ariths)
  have "h0_flags = flags h0 \<Longrightarrow> h0_flags AND SF_OBJ_FLAG_EMBEDDED = 0 \<and> h0_flags AND SF_OBJ_FLAG_IMMORTAL = 0" for h0_flags
    using low_flags [of "flags h0" 0] h0(6) by simp
  moreover have "(ucast total_size :: u32) \<noteq> 0"
  proof
    assume z: "(ucast total_size :: u32) = 0"
    have "total_size = ucast (ucast total_size :: u32)" using fresh by (simp add: small_size fresh_block_def)
    with z fresh show False by (simp add: fresh_block_def)
  qed
  ultimately have mh2: "member_header root h2"
    using h0(3,7) by (simp add: member_header_def h2_def sf_header_has_aux_flag_def sf_header_aux_flags_def)
  have "\<forall>m \<in> set (raw # ms). \<exists>h. o_hdrs st2 m = Some h \<and> member_header root h"
  proof
    fix m assume "m \<in> set (raw # ms)"
    then consider "m = raw" | "m = root" | "m \<in> set ms" "m \<noteq> root" by auto
    then show "\<exists>h. o_hdrs st2 m = Some h \<and> member_header root h"
      by cases (use hdrs mh2 mr2 c(7) in auto)
  qed
  with seg c new rr2 hdrs(2) have core2: "group_core st2 root (raw # ms) (n + 1)" by (simp add: group_core_def)
  have live2: "live_set st2 L"
  proof (rule live_set_keep [OF live])
    show "live_links st2 x = live_links st x" if "x \<in> L" for x
      using that hdrs rst by (cases "x = root") (simp_all add: live_links_def r2_def)
    show "o_buckets st2 = o_buckets st" by (simp add: st2_def st1_def sf_init_allocated_header_def Let_def zero_block_def)
  qed
  have lm: "live_member st2 raw" using h0(2) by (simp add: live_member_def hdrs(1) h2_def)
  have lms: "live_member st2 x = live_member st x" if "x \<in> set ms" for x
    using that hdrs(2,3) rst by (cases "x = root") (simp_all add: live_member_def r2_def)
  have blk: "block_of st2 a raw = (a, raw, total_size)"
    using fresh by (simp add: block_of_def hdrs h2_def h0(3) small_size fresh_block_def)
  have blks: "block_of st2 a m = block_of st a m" if "m \<in> set ms" for m
    using that hdrs rst by (cases "m = root") (simp_all add: block_of_def r2_def)
  have "o_default_allocator st2 = o_default_allocator st"
    by (simp add: st2_def st1_def sf_init_allocated_header_def Let_def zero_block_def)
  then have "group_allocator st2 root = a" by (simp add: a(1) group_allocator_def hdrs rst r2_def)
  then have "group_blocks st2 root (raw # ms) = (a, raw, total_size) # group_blocks st root ms"
    using blk blks by (simp add: group_blocks_def flip: a(1))
  moreover have "st2 = st\<lparr>o_hdrs := o_hdrs st2, o_words := o_words st2\<rparr>"
    by (simp add: st2_def st1_def sf_init_allocated_header_def Let_def zero_block_def)
  then have "\<exists>h w. st2 = st\<lparr>o_hdrs := h, o_words := w\<rparr>" by blast
  moreover have "link_member st1 raw par root = Some (True, st2)" using f(1) by (simp add: st2_def h2_def r2_def)
  ultimately show ?thesis using core2 live2 lm lms blk blks by blast
qed

text \<open>Registering and finishing the new member.\<close>

lemma blocks_apart_join:
  assumes "blocks_apart st ms L" "\<forall>m \<in> set ms. \<exists>h. o_hdrs st m = Some h" "fresh_block st L ms raw total_size"
    "\<forall>m \<in> set ms. block_of st2 a m = block_of st a m" "block_of st2 a raw = (a, raw, total_size)"
  shows "blocks_apart st2 (raw # ms) (insert raw L)"
  unfolding blocks_apart_def
proof (intro ballI allI impI)
  fix m x h2 assume m: "m \<in> set (raw # ms)" "x \<in> set (raw # ms) \<union> insert raw L" "o_hdrs st2 m = Some h2" "x \<noteq> m"
  show "\<not> in_block m (ucast (alloc_size h2)) x"
  proof (cases "m = raw")
    case True
    with assms(3,5) m show ?thesis by (auto simp: block_of_def fresh_block_def)
  next
    case False
    then obtain h where h: "o_hdrs st m = Some h" using m(1) assms(2) by auto
    have "ucast (alloc_size h2) = (ucast (alloc_size h) :: u64)"
      using assms(4) m False h by (auto simp: block_of_def)
    with False m h assms(1,3) show ?thesis by (auto simp: blocks_apart_def fresh_block_def)
  qed
qed

lemma same_but_live_kept: "same_but_live st st' \<Longrightarrow> members_kept st st' ms"
  unfolding members_kept_def
proof (intro ballI allI impI)
  fix x h assume "same_but_live st st'" "o_hdrs st x = Some h"
  from same_but_live_hdr [OF this] obtain q where "o_hdrs st' x = Some (h\<lparr>live_next := q\<rparr>)" .
  then show "\<exists>h'. o_hdrs st' x = Some h' \<and> same_member h h'" using same_member_live_next by blast
qed

lemma same_but_live_member: "same_but_live st st' \<Longrightarrow> live_member st' m = live_member st m"
proof -
  assume same: "same_but_live st st'"
  show ?thesis
  proof (cases "o_hdrs st m")
    case None
    with same have "o_hdrs st' m = None" by (metis same_but_live_def option.map_disc_iff)
    with None show ?thesis by (simp add: live_member_def)
  next
    case (Some h)
    from same_but_live_hdr [OF same this] obtain q where "o_hdrs st' m = Some (h\<lparr>live_next := q\<rparr>)" .
    with Some show ?thesis by (simp add: live_member_def)
  qed
qed

lemma same_but_live_fields:
  assumes "same_but_live st st'"
  shows "g_last_header_obj st' = g_last_header_obj st" "g_last_header_ptr st' = g_last_header_ptr st"
    "o_frees st' = o_frees st" "o_allocs st' = o_allocs st" "o_default_allocator st' = o_default_allocator st"
    "o_words st' = o_words st"
  using assms by (cases st; cases st'; simp add: same_but_live_def)+

lemma child_joins:
  assumes ok: "group_ok st L root ms" and parent_hdr: "parent_hdr \<in> set (live_members st ms)"
    and n: "length ms + 1 < 2 ^ 32" and a: "group_allocator st root \<noteq> nullptr"
    and raw: "o_allocs st = raw # rest" "fresh_block st L ms raw total_size"
  shows "\<exists>st'. sf_alloc_heap_child_object st cls total_size oflags par parent_hdr = Some (raw + sizeof_SFObjHeader, st')
     \<and> group_ok st' (insert raw L) root (raw # ms) \<and> live_members st' (raw # ms) = raw # live_members st ms
     \<and> o_words st' (raw + sizeof_SFObjHeader) = Some cls \<and> o_frees st' = o_frees st \<and> o_allocs st' = rest
     \<and> group_blocks st' root (raw # ms) = (group_allocator st root, raw, total_size) # group_blocks st root ms"
proof -
  let ?n = "length (live_members st ms)"
  let ?a = "group_allocator st root"
  define sa where "sa = st\<lparr>o_allocs := rest\<rparr>"
  have core: "group_core st root ms ?n" and cache: "cache_ok st L" and apart: "blocks_apart st ms L"
    and tbl: "\<And>m. m \<in> set ms \<Longrightarrow> (m \<in> L \<longleftrightarrow> live_member st m) \<and> m + sizeof_SFObjHeader \<noteq> nullptr
          \<and> \<not> sf_is_tagged_pointer (m + sizeof_SFObjHeader)"
    using ok by (simp_all add: group_ok_def group_rep_def)
  have len: "?n \<le> length ms" "0 < ?n"
    using length_pos_if_in_set [OF parent_hdr] by (simp_all add: live_members_def)
  have pm: "parent_hdr \<in> set ms" "live_member st parent_hdr" using parent_hdr by (auto simp: live_members_def)
  then obtain p where p: "o_hdrs st parent_hdr = Some p" "state p = SF_OBJ_STATE_LIVE"
    by (auto simp: live_member_def split: option.splits)
  from group_ok_accessors [OF core len(2) pm(1)] obtain c al where acc:
    "sf_header_group_root st parent_hdr = Some root" "sf_header_init_group_root st root = Some (True, st)"
    "sf_header_grouped st root = Some True" "sf_header_group_lock st root = Some (root + 32)"
    "sf_header_group_dead st root = Some False" "sf_header_group_live_count st root = Some c" "c \<noteq> 0"
    "sf_header_allocator st root = Some al" "?a = (if al = nullptr then o_default_allocator st else al)" by blast
  have rnz: "raw \<noteq> nullptr" "root \<noteq> nullptr" "root + 32 \<noteq> 0"
    using raw(2) core by (simp_all add: fresh_block_def group_core_def)
  have sa: "group_core sa root ms ?n" "group_allocator sa root = ?a" "fresh_block sa L ms raw total_size" "live_set sa L"
      "group_blocks sa root ms = group_blocks st root ms" "\<And>m. block_of sa ?a m = block_of st ?a m" "\<And>m. live_member sa m = live_member st m"
    using core raw(2) group_of_headers(1,4) [of sa st] live_set_cong [of sa st L] cache
    by (cases "o_hdrs st root"; simp add: sa_def group_allocator_def fresh_block_def live_links_def cache_ok_def block_of_def
        live_member_def)+
  define st1 where "st1 = sf_init_allocated_header sa raw total_size ?a oflags"
  have "?n + 1 < 2 ^ 32" using n len by simp
  from child_linked [OF sa(1) this sa(4,3) sa(2) [symmetric] a st1_def, of par] obtain st2 where
    link: "link_member st1 raw par root = Some (True, st2)" and core2: "group_core st2 root (raw # ms) (?n + 1)"
    and live2: "live_set st2 L" and lm: "live_member st2 raw" "\<forall>x \<in> set ms. live_member st2 x = live_member sa x"
    and blks: "group_blocks st2 root (raw # ms) = (?a, raw, total_size) # group_blocks sa root ms"
    and bo: "\<forall>m \<in> set ms. block_of st2 ?a m = block_of sa ?a m" "block_of st2 ?a raw = (?a, raw, total_size)"
    and only: "\<exists>h w. st2 = sa\<lparr>o_hdrs := h, o_words := w\<rparr>" by blast
  have inb: "in_block raw total_size raw" using raw(2) by (simp add: in_block_def fresh_block_def)
  then have new: "raw \<notin> L" "raw \<notin> set ms" using raw(2) by (auto simp: fresh_block_def)
  have "o_hdrs st2 raw \<noteq> None" using lm(1) by (auto simp: live_member_def split: option.splits)
  from live_set_register [OF live2 rnz(1) this new(1)] obtain st3 where
    st3: "sf_register_live_object_header st2 raw = Some st3" "same_but_live st2 st3" "live_set st3 (insert raw L)" by blast
  have core3: "group_core st3 root (raw # ms) (?n + 1)"
    by (rule members_kept_core [OF core2 same_but_live_kept [OF st3(2)]])
  have mapped: "\<forall>m \<in> set ms. \<exists>h. o_hdrs st m = Some h" using core by (auto simp: group_core_def)
  have "blocks_apart st2 (raw # ms) (insert raw L)"
    by (rule blocks_apart_join [OF apart mapped raw(2)]) (use bo sa(6) in auto)
  then have apart3: "blocks_apart st3 (raw # ms) (insert raw L)"
    by (rule members_kept_blocks(1) [OF core2 same_but_live_kept [OF st3(2)]])
  have fields: "g_last_header_obj st3 = g_last_header_obj st" "g_last_header_ptr st3 = g_last_header_ptr st"
      "o_frees st3 = o_frees st" "o_allocs st3 = rest" "o_default_allocator st3 = o_default_allocator st2"
    using only by (auto simp: same_but_live_fields [OF st3(2)] sa_def)
  have blks3: "group_blocks st3 root (raw # ms) = (?a, raw, total_size) # group_blocks st root ms"
    using members_kept_group_blocks [OF core2 same_but_live_kept [OF st3(2)] fields(5)] blks sa(5) by simp
  have lm3: "live_member st3 raw" "\<And>x. x \<in> set ms \<Longrightarrow> live_member st3 x = live_member st x"
    using lm sa(7) same_but_live_member [OF st3(2)] by simp_all
  then have lms: "live_members st3 (raw # ms) = raw # live_members st ms"
    by (simp add: live_members_def cong: filter_cong)
  define st' where "st' = st3\<lparr>o_words := (o_words st3)(raw + sizeof_SFObjHeader \<mapsto> cls)\<rparr>"
  have same: "group_core st' root (raw # ms) (?n + 1)" "live_members st' (raw # ms) = raw # live_members st ms"
      "blocks_apart st' (raw # ms) (insert raw L)" "group_blocks st' root (raw # ms) = (?a, raw, total_size) # group_blocks st root ms"
      "live_set st' (insert raw L)" "\<And>x. live_member st' x = live_member st3 x"
    using core3 lms apart3 blks3 st3(3) group_of_headers [of st' st3] live_set_cong [of st' st3]
    by (simp_all add: st'_def live_links_def live_member_def)
  have "cache_ok st' (insert raw L)"
    using cache same(5) fields(1,2) by (auto simp: cache_ok_def heap_object_def st'_def split: if_splits)
  moreover have "(m \<in> insert raw L \<longleftrightarrow> live_member st' m) \<and> m + sizeof_SFObjHeader \<noteq> nullptr
          \<and> \<not> sf_is_tagged_pointer (m + sizeof_SFObjHeader)" if "m \<in> set (raw # ms)" for m
    using that tbl lm3 new raw(2) by (cases "m = raw") (auto simp: same(6) fresh_block_def)
  ultimately have "group_ok st' (insert raw L) root (raw # ms)"
    using same(1-3) by (simp add: group_ok_def group_rep_def)
  moreover have "sf_alloc_heap_child_object st cls total_size oflags par parent_hdr = Some (raw + sizeof_SFObjHeader, st')"
    using acc(7) rnz p(2) link st3(1)
    by (simp add: sf_alloc_heap_child_object_def acc(1-6,8) acc(9) [symmetric] p(1) alloc_block_def raw(1) sa_def [symmetric]
        st1_def [symmetric] sf_finish_object_alloc_def sf_header_object_def st'_def Let_def)
  ultimately show ?thesis using same(2,4) fields(3,4) by (simp add: st'_def)
qed

section \<open>The first child of an object\<close>

text \<open>A live object outside any group, whose block holds no other live object.\<close>

definition lone_root :: "objects \<Rightarrow> addr set \<Rightarrow> addr \<Rightarrow> bool" where
  "lone_root st L root \<longleftrightarrow> cache_ok st L \<and> root \<in> L \<and> root AND 1 = 0 \<and> root + 32 \<noteq> 0
     \<and> root + sizeof_SFObjHeader \<noteq> nullptr \<and> \<not> sf_is_tagged_pointer (root + sizeof_SFObjHeader)
     \<and> (\<exists>h. o_hdrs st root = Some h \<and> state h = SF_OBJ_STATE_LIVE \<and> group h = nullptr \<and> alloc_size h \<noteq> 0
          \<and> flags h AND SF_OBJ_FLAG_EMBEDDED = 0 \<and> flags h AND SF_OBJ_FLAG_IMMORTAL = 0
          \<and> \<not> sf_header_has_aux_flag (Some h) SF_OBJ_AUX_FLAG_HAS_EXCEPTION_METADATA
          \<and> (\<forall>a \<in> L. a \<noteq> root \<longrightarrow> \<not> in_block root (ucast (alloc_size h)) a))"

lemma clear_dead_effect:
  "\<exists>f. sf_header_clear_aux_flags (Some h) SF_OBJ_AUX_FLAG_GROUP_DEAD = Some (h\<lparr>flags := f\<rparr>)
     \<and> f AND SF_OBJ_FLAG_PACKED_MASK = flags h AND SF_OBJ_FLAG_PACKED_MASK
     \<and> \<not> sf_header_has_aux_flag (Some (h\<lparr>flags := f\<rparr>)) SF_OBJ_AUX_FLAG_GROUP_DEAD
     \<and> (sf_header_has_aux_flag (Some (h\<lparr>flags := f\<rparr>)) SF_OBJ_AUX_FLAG_HAS_EXCEPTION_METADATA
        \<longleftrightarrow> sf_header_has_aux_flag (Some h) SF_OBJ_AUX_FLAG_HAS_EXCEPTION_METADATA)"
proof -
  define st where "st = empty_objects\<lparr>o_hdrs := [2 \<mapsto> h]\<rparr>"
  have "o_hdrs st 2 = Some h" "(2 :: addr) \<noteq> nullptr" by (simp_all add: st_def)
  from dead_flag_effect [OF this, of 1] obtain f where
    f: "mark_group_dead st 2 1 = Some (st\<lparr>o_hdrs := (o_hdrs st)(2 \<mapsto> h\<lparr>flags := f\<rparr>)\<rparr>)"
     "f AND SF_OBJ_FLAG_PACKED_MASK = flags h AND SF_OBJ_FLAG_PACKED_MASK"
     "sf_header_has_aux_flag (Some (h\<lparr>flags := f\<rparr>)) SF_OBJ_AUX_FLAG_GROUP_DEAD \<longleftrightarrow> (1 :: u64) = 0"
     "sf_header_has_aux_flag (Some (h\<lparr>flags := f\<rparr>)) SF_OBJ_AUX_FLAG_HAS_EXCEPTION_METADATA
        \<longleftrightarrow> sf_header_has_aux_flag (Some h) SF_OBJ_AUX_FLAG_HAS_EXCEPTION_METADATA" by blast
  have "mark_group_dead st 2 1 = Some (st\<lparr>o_hdrs := (o_hdrs st)(2 := sf_header_clear_aux_flags (Some h) SF_OBJ_AUX_FLAG_GROUP_DEAD)\<rparr>)"
    by (simp add: mark_group_dead_def write_flags_def st_def)
  with f(1) have "st\<lparr>o_hdrs := (o_hdrs st)(2 := sf_header_clear_aux_flags (Some h) SF_OBJ_AUX_FLAG_GROUP_DEAD)\<rparr>
      = st\<lparr>o_hdrs := (o_hdrs st)(2 \<mapsto> h\<lparr>flags := f\<rparr>)\<rparr>" by simp
  from arg_cong [OF this, of "\<lambda>st. o_hdrs st 2"]
  have "sf_header_clear_aux_flags (Some h) SF_OBJ_AUX_FLAG_GROUP_DEAD = Some (h\<lparr>flags := f\<rparr>)" by simp
  with f(2-4) show ?thesis by auto
qed

lemma root_inits:
  assumes "lone_root st L root"
  shows "\<exists>st'. sf_header_group_root st root = Some root \<and> sf_header_init_group_root st root = Some (True, st')
     \<and> group_ok st' L root [root] \<and> live_members st' [root] = [root] \<and> (\<exists>r. st' = st\<lparr>o_hdrs := (o_hdrs st)(root \<mapsto> r)\<rparr>
     \<and> (\<exists>h. o_hdrs st root = Some h \<and> alloc_size r = alloc_size h \<and> allocator r = allocator h))"
proof -
  obtain h where h: "o_hdrs st root = Some h" "state h = SF_OBJ_STATE_LIVE" "group h = nullptr" "alloc_size h \<noteq> 0"
      "flags h AND SF_OBJ_FLAG_EMBEDDED = 0" "flags h AND SF_OBJ_FLAG_IMMORTAL = 0"
      "\<not> sf_header_has_aux_flag (Some h) SF_OBJ_AUX_FLAG_HAS_EXCEPTION_METADATA"
      "\<forall>a \<in> L. a \<noteq> root \<longrightarrow> \<not> in_block root (ucast (alloc_size h)) a"
    and c: "cache_ok st L" "root \<in> L" "root AND 1 = 0" "root + 32 \<noteq> 0" "root + sizeof_SFObjHeader \<noteq> nullptr"
      "\<not> sf_is_tagged_pointer (root + sizeof_SFObjHeader)" using assms by (auto simp: lone_root_def)
  have nz: "root \<noteq> nullptr" using live_set_mapped [OF cache_ok_live [OF c(1)] c(2)] by simp
  let ?h1 = "h\<lparr>group := root OR 1, parent := root, group_next := nullptr, reserved := 1\<rparr>"
  from clear_dead_effect [of ?h1] obtain f where
    f: "sf_header_clear_aux_flags (Some ?h1) SF_OBJ_AUX_FLAG_GROUP_DEAD = Some (?h1\<lparr>flags := f\<rparr>)"
     "f AND SF_OBJ_FLAG_PACKED_MASK = flags h AND SF_OBJ_FLAG_PACKED_MASK"
     "\<not> sf_header_has_aux_flag (Some (?h1\<lparr>flags := f\<rparr>)) SF_OBJ_AUX_FLAG_GROUP_DEAD"
     "sf_header_has_aux_flag (Some (?h1\<lparr>flags := f\<rparr>)) SF_OBJ_AUX_FLAG_HAS_EXCEPTION_METADATA
        \<longleftrightarrow> sf_header_has_aux_flag (Some ?h1) SF_OBJ_AUX_FLAG_HAS_EXCEPTION_METADATA" by auto
  define r where "r = ?h1\<lparr>flags := f\<rparr>"
  define st' where "st' = st\<lparr>o_hdrs := (o_hdrs st)(root \<mapsto> r)\<rparr>"
  have "sf_header_group_root st root = Some root"
    using nz by (simp add: sf_header_group_root_def sf_header_inline_group_root_def sf_header_group_state_atomic_def h(1,3)
        sf_header_uses_inline_group_state_def)
  moreover have "sf_header_init_group_root st root = Some (True, st')"
    using nz f(1) by (simp add: sf_header_init_group_root_def sf_header_uses_inline_group_state_def h(1,3,5)
        sf_header_group_state_atomic_def sf_header_can_use_inline_group_root_def write_hdr_def
        sf_header_set_inline_group_head_def write_flags_def st'_def r_def)
  moreover have "o_hdrs st' root = Some r" by (simp add: st'_def)
  note root = this
  have "member_header root r" "root_header root [root] 1 r"
    using low_flags [OF f(2)] h(4-7) f(3,4)
    by (simp_all add: member_header_def root_header_def r_def sf_header_has_aux_flag_def sf_header_aux_flags_def)
  moreover have live: "live_member st' root" by (simp add: live_member_def root r_def h(2))
  ultimately have "group_rep st' root [root]"
    using c(3,4) nz root by (simp add: group_rep_def group_core_def live_members_def group_links_def r_def)
  moreover have "live_set st' L = live_set st L"
    by (rule live_set_cong) (simp_all add: st'_def live_links_def h(1) r_def)
  then have "cache_ok st' L" using c(1) by (simp add: cache_ok_def st'_def)
  moreover have "blocks_apart st' [root] L" using h(8) by (simp add: blocks_apart_def root r_def)
  ultimately have "group_ok st' L root [root]" using c live by (simp add: group_ok_def)
  moreover have "live_members st' [root] = [root]" using live by (simp add: live_members_def)
  moreover have "alloc_size r = alloc_size h" "allocator r = allocator h" by (simp_all add: r_def)
  ultimately show ?thesis
    using h(1) \<open>sf_header_group_root st root = Some root\<close> \<open>sf_header_init_group_root st root = Some (True, st')\<close> st'_def by blast
qed

definition parent_ready :: "objects \<Rightarrow> addr set \<Rightarrow> addr \<Rightarrow> addr list \<Rightarrow> addr \<Rightarrow> bool" where
  "parent_ready st L root ms parent_hdr \<longleftrightarrow>
     (group_ok st L root ms \<and> parent_hdr \<in> set (live_members st ms))
     \<or> (lone_root st L root \<and> ms = [root] \<and> parent_hdr = root)"

lemma alloc_lone_root:
  assumes "lone_root st L root" "fresh_block st L [root] raw total_size"
  shows "\<exists>st'. group_ok st' L root [root] \<and> live_members st' [root] = [root] \<and> fresh_block st' L [root] raw total_size
     \<and> (\<forall>cls oflags par. sf_alloc_heap_child_object st cls total_size oflags par root
          = sf_alloc_heap_child_object st' cls total_size oflags par root)
     \<and> o_allocs st' = o_allocs st \<and> o_frees st' = o_frees st \<and> group_allocator st' root = group_allocator st root
     \<and> group_blocks st' root [root] = group_blocks st root [root] \<and> live_members st [root] = [root]"
proof -
  from root_inits [OF assms(1)] obtain st' r h where
    st': "sf_header_group_root st root = Some root" "sf_header_init_group_root st root = Some (True, st')"
      "group_ok st' L root [root]" "live_members st' [root] = [root]" "st' = st\<lparr>o_hdrs := (o_hdrs st)(root \<mapsto> r)\<rparr>"
      "o_hdrs st root = Some h" "alloc_size r = alloc_size h" "allocator r = allocator h" by blast
  have core: "group_core st' root [root] 1" using st'(3,4) by (simp add: group_ok_def group_rep_def)
  have acc: "sf_header_group_root st' root = Some root" "sf_header_init_group_root st' root = Some (True, st')"
    using group_ok_accessors(1,2) [OF core] by simp_all
  have "root \<noteq> nullptr" using core by (simp add: group_core_def)
  then have "\<forall>cls oflags par. sf_alloc_heap_child_object st cls total_size oflags par root
          = sf_alloc_heap_child_object st' cls total_size oflags par root"
    by (simp add: sf_alloc_heap_child_object_def st'(1,2) acc)
  moreover have "live_members st [root] = [root]"
    using assms(1) by (auto simp: live_members_def live_member_def lone_root_def)
  moreover have "fresh_block st' L [root] raw total_size" using assms(2) st'(6,7) by (simp add: fresh_block_def st'(5))
  moreover have "group_blocks st' root [root] = group_blocks st root [root]"
    unfolding st'(5) by (rule group_blocks_root [OF st'(6,7,8)])
  moreover have "group_allocator st' root = group_allocator st root" using st'(6,8) by (simp add: group_allocator_def st'(5))
  ultimately show ?thesis using st'(3,4,5) by auto
qed

text \<open>C12: an object allocated with a parent joins the group of its parent, or founds one when the parent is in
  none.  Given a block from the allocator that overlaps no live object and no member, the child is
  found as a live object, its word holds the class, the group with the child as its newest member is
  well-formed with the count one higher, nothing is freed, and the block of the child is added to those
  the group frees at its end.\<close>

theorem alloc_child_joins:
  assumes "parent_ready st L root ms parent_hdr" "length ms + 1 < 2 ^ 32" "group_allocator st root \<noteq> nullptr"
    "o_allocs st = raw # rest" "fresh_block st L ms raw total_size"
  shows "\<exists>st'. sf_alloc_heap_child_object st cls total_size oflags par parent_hdr = Some (raw + sizeof_SFObjHeader, st')
     \<and> group_ok st' (insert raw L) root (raw # ms) \<and> live_members st' (raw # ms) = raw # live_members st ms
     \<and> o_words st' (raw + sizeof_SFObjHeader) = Some cls \<and> o_frees st' = o_frees st \<and> o_allocs st' = rest
     \<and> group_blocks st' root (raw # ms) = (group_allocator st root, raw, total_size) # group_blocks st root ms"
proof (cases "group_ok st L root ms \<and> parent_hdr \<in> set (live_members st ms)")
  case True
  with child_joins [OF _ _ assms(2,3,4,5)] show ?thesis by blast
next
  case False
  with assms(1) have lone: "lone_root st L root" "ms = [root]" "parent_hdr = root" by (auto simp: parent_ready_def)
  from alloc_lone_root [OF lone(1)] assms(5) lone(2) obtain st1 where
    st1: "group_ok st1 L root [root]" "live_members st1 [root] = [root]" "fresh_block st1 L [root] raw total_size"
      "\<forall>cls oflags par. sf_alloc_heap_child_object st cls total_size oflags par root
          = sf_alloc_heap_child_object st1 cls total_size oflags par root"
      "o_allocs st1 = o_allocs st" "o_frees st1 = o_frees st" "group_allocator st1 root = group_allocator st root"
      "group_blocks st1 root [root] = group_blocks st root [root]" "live_members st [root] = [root]" by blast
  have "root \<in> set (live_members st1 [root])" using st1(2) by simp
  from child_joins [OF st1(1) this _ _ _ st1(3), of rest cls oflags par] assms(2-4) st1 lone show ?thesis by simp
qed

text \<open>The object of \<open>demo_objects\<close> and a block for its child.\<close>

lemma demo_lone_root:
  "\<exists>st. demo_objects = Some st \<and> lone_root (st\<lparr>o_allocs := [0x2000]\<rparr>) {0x1000} 0x1000
     \<and> fresh_block (st\<lparr>o_allocs := [0x2000]\<rparr>) {0x1000} [0x1000] 0x2000 0x50
     \<and> group_blocks (st\<lparr>o_allocs := [0x2000]\<rparr>) 0x1000 [0x1000] = [(1, 0x1000, 0x50)]
     \<and> group_allocator (st\<lparr>o_allocs := [0x2000]\<rparr>) 0x1000 = 1 \<and> o_frees st = []"
proof -
  from demo_counted obtain st q where st: "demo_objects = Some st" "counted st {0x1000} 0x1048 1"
      "o_hdrs st 0x1000 = Some (demo_header\<lparr>live_next := q\<rparr>)" "o_frees st = []" by blast
  let ?st = "st\<lparr>o_allocs := [0x2000]\<rparr>"
  have "live_set ?st {0x1000} = live_set st {0x1000}" by (rule live_set_cong) (simp_all add: live_links_def)
  then have cache: "cache_ok ?st {0x1000}" using st(2) by (simp add: counted_def cache_ok_def)
  have "state (demo_header\<lparr>live_next := q\<rparr>) = SF_OBJ_STATE_LIVE" "group (demo_header\<lparr>live_next := q\<rparr>) = nullptr"
      "flags (demo_header\<lparr>live_next := q\<rparr>) AND SF_OBJ_FLAG_EMBEDDED = 0"
      "flags (demo_header\<lparr>live_next := q\<rparr>) AND SF_OBJ_FLAG_IMMORTAL = 0" "allocator (demo_header\<lparr>live_next := q\<rparr>) = 1"
      "\<not> sf_header_has_aux_flag (Some (demo_header\<lparr>live_next := q\<rparr>)) SF_OBJ_AUX_FLAG_HAS_EXCEPTION_METADATA"
      "alloc_size (demo_header\<lparr>live_next := q\<rparr>) = 0x50"
    by (simp_all add: demo_header_def zero_header_def sf_header_has_aux_flag_def sf_header_aux_flags_def abi_consts)
  note h = this
  have "lone_root ?st {0x1000} 0x1000"
    unfolding lone_root_def using cache h st(3)
    by (simp add: sf_is_tagged_pointer_def SF_TAGGED_POINTER_SLOT_MASK_def sizeof_SFObjHeader_def)
  moreover have "fresh_block ?st {0x1000} [0x1000] 0x2000 0x50"
    using st(3) h(7) by (simp add: fresh_block_def in_block_def sf_is_tagged_pointer_def SF_TAGGED_POINTER_SLOT_MASK_def
        sizeof_SFObjHeader_def)
  moreover have "group_allocator ?st 0x1000 = 1" using st(3) h(5) by (simp add: group_allocator_def)
  moreover from this have "group_blocks ?st 0x1000 [0x1000] = [(1, 0x1000, 0x50)]"
    using st(3) h(7) by (simp add: group_blocks_def block_of_def)
  ultimately show ?thesis using st(1,4) by blast
qed

theorem alloc_child_joins_witness:
  "\<exists>st st'. demo_objects = Some st
     \<and> sf_alloc_heap_child_object (st\<lparr>o_allocs := [0x2000]\<rparr>) 0x9000 0x50 0 0x1048 0x1000 = Some (0x2048, st')
     \<and> group_ok st' {0x1000, 0x2000} 0x1000 [0x2000, 0x1000]"
proof -
  from demo_lone_root obtain st where st: "demo_objects = Some st" "lone_root (st\<lparr>o_allocs := [0x2000]\<rparr>) {0x1000} 0x1000"
     "fresh_block (st\<lparr>o_allocs := [0x2000]\<rparr>) {0x1000} [0x1000] 0x2000 0x50"
     "group_allocator (st\<lparr>o_allocs := [0x2000]\<rparr>) 0x1000 = 1" by blast
  have "parent_ready (st\<lparr>o_allocs := [0x2000]\<rparr>) {0x1000} 0x1000 [0x1000] 0x1000" using st(2) by (simp add: parent_ready_def)
  from alloc_child_joins [OF this _ _ _ st(3), of "[]" "0x9000" 0 "0x1048"] st(4)
  have "\<exists>st'. sf_alloc_heap_child_object (st\<lparr>o_allocs := [0x2000]\<rparr>) 0x9000 0x50 0 0x1048 0x1000 = Some (0x2048, st')
     \<and> group_ok st' {0x1000, 0x2000} 0x1000 [0x2000, 0x1000]"
    by (auto simp: sizeof_SFObjHeader_def insert_commute)
  with st(1) show ?thesis by blast
qed

text \<open>The group of the object and its child, disposed of root first.\<close>

theorem group_lifetime_witness:
  "\<exists>st1 st2 rt1 rt2. demo_objects = Some st1
     \<and> sf_alloc_heap_child_object (st1\<lparr>o_allocs := [0x2000]\<rparr>) 0x9000 0x50 0 0x1048 0x1000 = Some (0x2048, st2)
     \<and> sf_object_dispose (empty_runtime st2) 0x1048 = Some rt1 \<and> o_frees (rt_objects rt1) = []
     \<and> sf_object_dispose rt1 0x2048 = Some rt2 \<and> o_frees (rt_objects rt2) = [(1, 0x1000, 0x50), (1, 0x2000, 0x50)]"
proof -
  from demo_lone_root obtain st where st: "demo_objects = Some st" "lone_root (st\<lparr>o_allocs := [0x2000]\<rparr>) {0x1000} 0x1000"
     "fresh_block (st\<lparr>o_allocs := [0x2000]\<rparr>) {0x1000} [0x1000] 0x2000 0x50"
     "group_blocks (st\<lparr>o_allocs := [0x2000]\<rparr>) 0x1000 [0x1000] = [(1, 0x1000, 0x50)]"
     "group_allocator (st\<lparr>o_allocs := [0x2000]\<rparr>) 0x1000 = 1" "o_frees st = []" by blast
  let ?st = "st\<lparr>o_allocs := [0x2000]\<rparr>"
  from alloc_lone_root [OF st(2,3)] obtain st1 where
    st1: "group_ok st1 {0x1000} 0x1000 [0x1000]" "live_members st1 [0x1000] = [0x1000]" "fresh_block st1 {0x1000} [0x1000] 0x2000 0x50"
      "\<forall>cls oflags par. sf_alloc_heap_child_object ?st cls 0x50 oflags par 0x1000
          = sf_alloc_heap_child_object st1 cls 0x50 oflags par 0x1000"
      "o_allocs st1 = [0x2000]" "o_frees st1 = []" "group_allocator st1 0x1000 = 1"
      "group_blocks st1 0x1000 [0x1000] = [(1, 0x1000, 0x50)]" using st(4,5,6) by auto
  have "0x1000 \<in> set (live_members st1 [0x1000])" using st1(2) by simp
  from child_joins [OF st1(1) this _ _ st1(5,3), of "0x9000" 0 "0x1048"] st1 obtain st2 where
    st2: "sf_alloc_heap_child_object ?st 0x9000 0x50 0 0x1048 0x1000 = Some (0x2048, st2)"
      "group_ok st2 {0x2000, 0x1000} 0x1000 [0x2000, 0x1000]" "live_members st2 [0x2000, 0x1000] = [0x2000, 0x1000]"
      "o_frees st2 = []" "group_blocks st2 0x1000 [0x2000, 0x1000] = [(1, 0x2000, 0x50), (1, 0x1000, 0x50)]"
    by (auto simp: sizeof_SFObjHeader_def)
  from group_lifetime [of "empty_runtime st2" "{0x2000, 0x1000}" "0x1000" "[0x2000, 0x1000]" "[0x1000, 0x2000]"] st2(2,3,4,5)
  have "\<exists>rt1 rt2. sf_object_dispose (empty_runtime st2) 0x1048 = Some rt1 \<and> o_frees (rt_objects rt1) = []
     \<and> sf_object_dispose rt1 0x2048 = Some rt2 \<and> o_frees (rt_objects rt2) = [(1, 0x1000, 0x50), (1, 0x2000, 0x50)]"
    by (auto simp: sizeof_SFObjHeader_def insert_commute bind_eq_Some_conv)
  with st(1) st2(1) show ?thesis by blast
qed

end
