(* ===== verification/SF_Pool.thy ===== *)
theory SF_Pool
  imports SF_Refcount
begin

unbundle bit_operations_syntax

text \<open>
  Autorelease pools (\<open>Runtime/src/arc.c\<close>).  The runtime keeps one array of objects and one of markers; a
  program means a stack of pools.  The array pair is shown to implement the stack for programs that push
  and pop in a nested way and whose objects are plain and keep a positive count, as long as memory lasts;
  what goes wrong when it does not is shown too.
\<close>

section \<open>The abstract machine\<close>

text \<open>What a program does with pools: it retains, releases and autoreleases objects, and pushes and pops.\<close>

datatype pool_op = Retain addr | Drop addr | Auto addr | Push | Pop

text \<open>Counts fall by the releases of a pool; none may reach zero.\<close>

fun drop_counts :: "addr list \<Rightarrow> (addr \<Rightarrow> nat) \<Rightarrow> (addr \<Rightarrow> nat) option" where
  "drop_counts [] c = Some c"
| "drop_counts (obj # objs) c = (if 1 < c obj then drop_counts objs (c(obj := c obj - 1)) else None)"

fun spec_step :: "(addr \<Rightarrow> bool) \<Rightarrow> pool_op \<Rightarrow> (addr \<Rightarrow> nat) \<times> addr list list
    \<Rightarrow> ((addr \<Rightarrow> nat) \<times> addr list list) option" where
  "spec_step live (Retain obj) (c, ps) = (if live obj \<and> c obj + 1 < 2 ^ 32 then Some (c(obj := c obj + 1), ps) else None)"
| "spec_step live (Drop obj) (c, ps) = (if live obj \<and> 1 < c obj then Some (c(obj := c obj - 1), ps) else None)"
| "spec_step live (Auto obj) (c, ps) =
     (if live obj then Some (c, case ps of [] \<Rightarrow> [] | p # ps \<Rightarrow> (obj # p) # ps) else None)"
| "spec_step live Push (c, ps) = Some (c, [] # ps)"
| "spec_step live Pop (c, ps) =
     (case ps of [] \<Rightarrow> None | p # ps \<Rightarrow> map_option (\<lambda>c. (c, ps)) (drop_counts p c))"

fun spec_run :: "(addr \<Rightarrow> bool) \<Rightarrow> pool_op list \<Rightarrow> (addr \<Rightarrow> nat) \<times> addr list list
    \<Rightarrow> ((addr \<Rightarrow> nat) \<times> addr list list) option" where
  "spec_run live [] s = Some s"
| "spec_run live (op # ops) s = Option.bind (spec_step live op s) (spec_run live ops)"

section \<open>The same program on the runtime\<close>

text \<open>The program keeps the tokens of the pools it has open, the innermost first.\<close>

fun pool_step :: "runtime_env \<Rightarrow> pool_op \<Rightarrow> runtime \<times> addr list \<Rightarrow> (runtime \<times> addr list) option" where
  "pool_step env (Retain obj) (rt, toks) = map_option (\<lambda>r. (snd r, toks)) (objc_retain env rt obj)"
| "pool_step env (Drop obj) (rt, toks) = map_option (\<lambda>rt. (rt, toks)) (objc_release env rt obj)"
| "pool_step env (Auto obj) (rt, toks) = map_option (\<lambda>r. (snd r, toks)) (sf_autorelease rt obj)"
| "pool_step env Push (rt, toks) = (case objc_autoreleasePoolPush env rt of (tok, rt) \<Rightarrow> Some (rt, tok # toks))"
| "pool_step env Pop (rt, toks) =
     (case toks of [] \<Rightarrow> None | tok # toks \<Rightarrow> map_option (\<lambda>rt. (rt, toks)) (objc_autoreleasePoolPop env rt tok))"

fun pool_run :: "runtime_env \<Rightarrow> pool_op list \<Rightarrow> runtime \<times> addr list \<Rightarrow> (runtime \<times> addr list) option" where
  "pool_run env [] s = Some s"
| "pool_run env (op # ops) s = Option.bind (pool_step env op s) (pool_run env ops)"

section \<open>The stack in the arrays\<close>

fun markers_of :: "addr list list \<Rightarrow> nat list" where
  "markers_of [] = []"
| "markers_of (p # ps) = length (concat ps) # markers_of ps"

text \<open>The live objects \<open>L\<close> are plain, with the counts \<open>c\<close>.\<close>

definition all_counted :: "objects \<Rightarrow> addr set \<Rightarrow> (addr \<Rightarrow> nat) \<Rightarrow> bool" where
  "all_counted st L c \<longleftrightarrow> cache_ok st L \<and> (\<forall>obj. heap_object L obj \<longrightarrow> counted st L obj (c obj))"

definition tokens_ok :: "runtime_env \<Rightarrow> runtime \<Rightarrow> addr list \<Rightarrow> nat list \<Rightarrow> bool" where
  "tokens_ok env rt toks marks \<longleftrightarrow> list_all2 (\<lambda>tok m. pool_tokens rt tok = Some m) toks marks
     \<and> distinct (toks @ rt_mallocs rt) \<and> nullptr \<notin> set (toks @ rt_mallocs rt) \<and> pool_fallback env \<notin> set (toks @ rt_mallocs rt)"

text \<open>Memory suffices for \<open>k\<close> more tokens and \<open>n\<close> more growths of an array.\<close>

definition memory_for :: "runtime \<Rightarrow> nat \<Rightarrow> nat \<Rightarrow> bool" where
  "memory_for rt k n \<longleftrightarrow> k \<le> length (rt_mallocs rt) \<and> n \<le> length (rt_reallocs rt) \<and> list_all id (rt_reallocs rt)"

definition pool_rep :: "runtime_env \<Rightarrow> addr set \<Rightarrow> runtime \<times> addr list \<Rightarrow> (addr \<Rightarrow> nat) \<times> addr list list \<Rightarrow> bool" where
  "pool_rep env L = (\<lambda>(rt, toks) (c, ps). all_counted (rt_objects rt) L c \<and> pool_objects rt = concat ps
     \<and> pool_markers rt = markers_of ps \<and> tokens_ok env rt toks (markers_of ps) \<and> (\<forall>p \<in> set ps. \<forall>obj \<in> set p. heap_object L obj))"

lemma all_countedD:
  assumes "all_counted st L c" "heap_object L obj"
  shows "counted st L obj (c obj)"
  using assms by (simp add: all_counted_def)

lemma all_counted_step:
  assumes all: "all_counted st L c" and st': "counted st' L obj n" "counts_only obj st st'"
  shows "all_counted st' L (c(obj := n))"
proof -
  have "counted st' L obj' (c obj')" if "heap_object L obj'" "obj' \<noteq> obj" for obj'
  proof -
    have "obj' - sizeof_SFObjHeader \<noteq> obj - sizeof_SFObjHeader" using that(2) by simp
    then have "o_hdrs st' (obj' - sizeof_SFObjHeader) = o_hdrs st (obj' - sizeof_SFObjHeader)"
      using st'(2) unfolding counts_only_def by blast
    with all_countedD [OF all that(1)] st'(1) show ?thesis by (simp add: counted_def)
  qed
  with st'(1) show ?thesis by (simp add: all_counted_def counted_def)
qed

section \<open>Each operation\<close>

lemma candidate_counted:
  assumes "all_counted (rt_objects rt) L c" "heap_object L obj"
  shows "\<exists>st. header_candidate rt obj = Some (obj - sizeof_SFObjHeader, rt\<lparr>rt_objects := st\<rparr>) \<and> all_counted st L c
     \<and> o_frees st = o_frees (rt_objects rt) \<and> obj - sizeof_SFObjHeader \<noteq> nullptr"
proof -
  have cache: "cache_ok (rt_objects rt) L" using assms(1) by (simp add: all_counted_def)
  from cache_ok_candidate [OF this, of obj] assms(2) obtain st where
    st: "header_from_heap_candidate (rt_objects rt) obj = Some (obj - sizeof_SFObjHeader, st)" "cache_ok st L"
      "same_but_cache (rt_objects rt) st" by auto
  have "all_counted st L c"
    using assms(1) st(2) same_but_cache_fields(1) [OF st(3)] by (simp add: all_counted_def counted_def)
  then show ?thesis
    using heap_object_nonnull(2) [OF cache_ok_live [OF cache] assms(2)] same_but_cache_fields(4) [OF st(3)]
    by (intro exI [of _ st]) (simp add: header_candidate_def st(1))
qed

lemma retain_step:
  assumes "pool_rep env L (rt, toks) (c, ps)" "heap_object L obj" "c obj + 1 < 2 ^ 32"
  shows "\<exists>rt'. pool_step env (Retain obj) (rt, toks) = Some (rt', toks) \<and> pool_rep env L (rt', toks) (c(obj := c obj + 1), ps)
     \<and> o_frees (rt_objects rt') = o_frees (rt_objects rt) \<and> rt' = rt\<lparr>rt_objects := rt_objects rt'\<rparr>"
proof -
  have all: "all_counted (rt_objects rt) L c" using assms(1) by (simp add: pool_rep_def)
  from retain_counted [OF all_countedD [OF this assms(2)] assms(3), of env] obtain rt' where
    rt': "objc_retain env rt obj = Some (obj, rt')" "counted (rt_objects rt') L obj (c obj + 1)"
      "counts_only obj (rt_objects rt) (rt_objects rt')" "rt' = rt\<lparr>rt_objects := rt_objects rt'\<rparr>" by blast
  have "pool_objects rt' = pool_objects rt" "pool_markers rt' = pool_markers rt" "pool_tokens rt' = pool_tokens rt"
      "rt_mallocs rt' = rt_mallocs rt" by (subst rt'(4), simp)+
  with assms(1) all_counted_step [OF all rt'(2,3)] have "pool_rep env L (rt', toks) (c(obj := c obj + 1), ps)"
    by (simp add: pool_rep_def tokens_ok_def)
  with rt' show ?thesis by (simp add: counts_only_def)
qed

lemma drop_step:
  assumes "pool_rep env L (rt, toks) (c, ps)" "heap_object L obj" "1 < c obj"
  shows "\<exists>rt'. objc_release env rt obj = Some rt' \<and> pool_rep env L (rt', toks) (c(obj := c obj - 1), ps)
     \<and> o_frees (rt_objects rt') = o_frees (rt_objects rt) \<and> rt' = rt\<lparr>rt_objects := rt_objects rt'\<rparr>"
proof -
  have all: "all_counted (rt_objects rt) L c" using assms(1) by (simp add: pool_rep_def)
  from release_counted [OF all_countedD [OF this assms(2)] assms(3), of env] obtain rt' where
    rt': "objc_release env rt obj = Some rt'" "counted (rt_objects rt') L obj (c obj - 1)"
      "counts_only obj (rt_objects rt) (rt_objects rt')" "rt' = rt\<lparr>rt_objects := rt_objects rt'\<rparr>" by blast
  have "pool_objects rt' = pool_objects rt" "pool_markers rt' = pool_markers rt" "pool_tokens rt' = pool_tokens rt"
      "rt_mallocs rt' = rt_mallocs rt" by (subst rt'(4), simp)+
  with assms(1) all_counted_step [OF all rt'(2,3)] have "pool_rep env L (rt', toks) (c(obj := c obj - 1), ps)"
    by (simp add: pool_rep_def tokens_ok_def)
  with rt' show ?thesis by (simp add: counts_only_def)
qed

lemma object_capacity:
  assumes "memory_for rt k (Suc n)"
  shows "\<exists>cap rs. ensure_object_capacity rt w = (True, rt\<lparr>pool_capacity := cap, rt_reallocs := rs\<rparr>)
      \<and> list_all id rs \<and> n \<le> length rs"
proof (cases "pool_capacity rt \<ge> w")
  case True
  have "ensure_object_capacity rt w = (True, rt\<lparr>pool_capacity := pool_capacity rt, rt_reallocs := rt_reallocs rt\<rparr>)"
    using True by (simp add: ensure_object_capacity_def)
  moreover have "list_all id (rt_reallocs rt)" "n \<le> length (rt_reallocs rt)" using assms by (simp_all add: memory_for_def)
  ultimately show ?thesis by (intro exI conjI)
next
  case False
  obtain oks where "rt_reallocs rt = True # oks" "list_all id oks" "n \<le> length oks"
    using assms by (cases "rt_reallocs rt") (auto simp: memory_for_def)
  note oks = this
  define cap where "cap = grown_capacity (if pool_capacity rt \<noteq> 0 then pool_capacity rt * 2 else 64) w"
  have "ensure_object_capacity rt w = (True, rt\<lparr>pool_capacity := cap, rt_reallocs := oks\<rparr>)"
    using False oks(1) by (simp add: ensure_object_capacity_def next_realloc_def Let_def cap_def)
  with oks(2,3) show ?thesis by (intro exI conjI)
qed

lemma marker_capacity:
  assumes "memory_for rt k (Suc n)"
  shows "\<exists>cap rs. ensure_marker_capacity rt w = (True, rt\<lparr>marker_capacity := cap, rt_reallocs := rs\<rparr>)
      \<and> list_all id rs \<and> n \<le> length rs"
proof (cases "marker_capacity rt \<ge> w")
  case True
  have "ensure_marker_capacity rt w = (True, rt\<lparr>marker_capacity := marker_capacity rt, rt_reallocs := rt_reallocs rt\<rparr>)"
    using True by (simp add: ensure_marker_capacity_def)
  moreover have "list_all id (rt_reallocs rt)" "n \<le> length (rt_reallocs rt)" using assms by (simp_all add: memory_for_def)
  ultimately show ?thesis by (intro exI conjI)
next
  case False
  obtain oks where "rt_reallocs rt = True # oks" "list_all id oks" "n \<le> length oks"
    using assms by (cases "rt_reallocs rt") (auto simp: memory_for_def)
  note oks = this
  define cap where "cap = grown_capacity (if marker_capacity rt \<noteq> 0 then marker_capacity rt * 2 else 8) w"
  have "ensure_marker_capacity rt w = (True, rt\<lparr>marker_capacity := cap, rt_reallocs := oks\<rparr>)"
    using False oks(1) by (simp add: ensure_marker_capacity_def next_realloc_def Let_def cap_def)
  with oks(2,3) show ?thesis by (intro exI conjI)
qed

lemma auto_step:
  assumes rep: "pool_rep env L (rt, toks) (c, ps)" and obj: "heap_object L obj" and mem: "memory_for rt k (Suc n)"
  shows "\<exists>rt'. pool_step env (Auto obj) (rt, toks) = Some (rt', toks)
     \<and> pool_rep env L (rt', toks) (c, case ps of [] \<Rightarrow> [] | p # ps \<Rightarrow> (obj # p) # ps)
     \<and> o_frees (rt_objects rt') = o_frees (rt_objects rt) \<and> memory_for rt' k n"
proof -
  have all: "all_counted (rt_objects rt) L c" using rep by (simp add: pool_rep_def)
  from candidate_counted [OF all obj] obtain st where
    st: "header_candidate rt obj = Some (obj - sizeof_SFObjHeader, rt\<lparr>rt_objects := st\<rparr>)" "all_counted st L c"
      "o_frees st = o_frees (rt_objects rt)" "obj - sizeof_SFObjHeader \<noteq> nullptr" by blast
  show ?thesis
  proof (cases ps)
    case Nil
    with rep have "pool_markers rt = []" by (simp add: pool_rep_def)
    with st have "sf_autorelease rt obj = Some (obj, rt\<lparr>rt_objects := st\<rparr>)" by (simp add: sf_autorelease_def)
    with st rep Nil mem show ?thesis by (simp add: pool_rep_def tokens_ok_def memory_for_def)
  next
    case (Cons p rest)
    have "pool_markers rt \<noteq> []" using rep Cons by (simp add: pool_rep_def)
    moreover have "memory_for (rt\<lparr>rt_objects := st\<rparr>) k (Suc n)" using mem by (simp add: memory_for_def)
    from object_capacity [OF this, of "Suc (length (pool_objects rt))"] obtain cap rs where
      grow: "ensure_object_capacity (rt\<lparr>rt_objects := st\<rparr>) (Suc (length (pool_objects rt)))
        = (True, rt\<lparr>rt_objects := st, pool_capacity := cap, rt_reallocs := rs\<rparr>)" "list_all id rs" "n \<le> length rs" by auto
    let ?rt = "rt\<lparr>rt_objects := st, pool_capacity := cap, rt_reallocs := rs, pool_objects := obj # pool_objects rt\<rparr>"
    from st grow \<open>pool_markers rt \<noteq> []\<close> have "sf_autorelease rt obj = Some (obj, ?rt)" by (simp add: sf_autorelease_def)
    moreover have "pool_rep env L (?rt, toks) (c, (obj # p) # rest)"
      using rep st(2) obj Cons by (simp add: pool_rep_def tokens_ok_def)
    moreover have "memory_for ?rt k n" using mem grow(2,3) by (simp add: memory_for_def)
    ultimately show ?thesis using st(3) Cons by simp
  qed
qed

lemma list_all2_tokens:
  assumes "list_all2 (\<lambda>tok m. f tok = Some m) toks marks" "\<And>tok. tok \<in> set toks \<Longrightarrow> g tok = f tok"
  shows "list_all2 (\<lambda>tok m. g tok = Some m) toks marks"
  by (rule list.rel_mono_strong [OF assms(1)]) (simp add: assms(2))

lemma push_step:
  assumes rep: "pool_rep env L (rt, toks) (c, ps)" and mem: "memory_for rt (Suc k) (Suc n)"
  shows "\<exists>rt' tok. pool_step env Push (rt, toks) = Some (rt', tok # toks) \<and> pool_rep env L (rt', tok # toks) (c, [] # ps)
     \<and> o_frees (rt_objects rt') = o_frees (rt_objects rt) \<and> memory_for rt' k n"
proof -
  obtain tok rest where tok: "rt_mallocs rt = tok # rest" "k \<le> length rest"
    using mem by (cases "rt_mallocs rt") (auto simp: memory_for_def)
  have r: "tokens_ok env rt toks (markers_of ps)" "pool_objects rt = concat ps" "pool_markers rt = markers_of ps"
    using rep by (simp_all add: pool_rep_def)
  then have t: "tok \<noteq> nullptr" "tok \<notin> set toks" by (auto simp: tokens_ok_def tok(1))
  from marker_capacity [OF mem, of "Suc (length (pool_markers rt))"] obtain cap rs where
    grow: "ensure_marker_capacity rt (Suc (length (pool_markers rt)))
      = (True, rt\<lparr>marker_capacity := cap, rt_reallocs := rs\<rparr>)" "list_all id rs" "n \<le> length rs" by blast
  let ?m = "length (pool_objects rt)"
  let ?rt = "rt\<lparr>marker_capacity := cap, rt_reallocs := rs, pool_markers := ?m # pool_markers rt, rt_mallocs := rest,
      pool_tokens := (pool_tokens rt)(tok \<mapsto> ?m)\<rparr>"
  have "objc_autoreleasePoolPush env rt = (tok, ?rt)"
    using grow(1) t(1) tok(1) by (simp add: objc_autoreleasePoolPush_def Let_def)
  moreover have "list_all2 (\<lambda>tok m. pool_tokens ?rt tok = Some m) toks (markers_of ps)"
    by (rule list_all2_tokens [where f = "pool_tokens rt"]) (use r(1) t(2) in \<open>auto simp: tokens_ok_def\<close>)
  then have "tokens_ok env ?rt (tok # toks) (markers_of ([] # ps))"
    using r(1,2) tok(1) by (auto simp: tokens_ok_def)
  then have "pool_rep env L (?rt, tok # toks) (c, [] # ps)" using rep by (simp add: pool_rep_def)
  moreover have "memory_for ?rt k n" using tok(2) grow(2,3) by (simp add: memory_for_def)
  ultimately show ?thesis by simp
qed

text \<open>Draining releases the objects above the marker, the newest first.\<close>

lemma drain_run:
  assumes "all_counted (rt_objects rt) L c" "pool_objects rt = p @ rest" "\<forall>obj \<in> set p. heap_object L obj"
    "drop_counts p c = Some c'"
  shows "\<exists>st. drain_pool env (length rest) rt = Some (rt\<lparr>rt_objects := st, pool_objects := rest\<rparr>) \<and> all_counted st L c'
     \<and> o_frees st = o_frees (rt_objects rt)"
  using assms
proof (induction p arbitrary: rt c)
  case Nil
  then show ?case
    by (intro exI [of _ "rt_objects rt"]) (cases rt, subst drain_pool.simps, auto split: list.splits)
next
  case (Cons obj p)
  let ?rt = "rt\<lparr>pool_objects := p @ rest\<rparr>"
  have obj: "heap_object L obj" "1 < c obj" "drop_counts p (c(obj := c obj - 1)) = Some c'"
    using Cons.prems(3,4) by (auto split: if_splits)
  have nz: "obj \<noteq> nullptr" using obj(1) by (simp add: heap_object_def)
  have all: "all_counted (rt_objects ?rt) L c" using Cons.prems(1) by simp
  from release_counted [OF all_countedD [OF this obj(1)] obj(2), of env] obtain rt1 where
    rt1: "objc_release env ?rt obj = Some rt1" "counted (rt_objects rt1) L obj (c obj - 1)"
      "counts_only obj (rt_objects ?rt) (rt_objects rt1)" "rt1 = ?rt\<lparr>rt_objects := rt_objects rt1\<rparr>" by blast
  have "release_object_now env ?rt obj = Some rt1"
    using rt1(1) release_now_via_header [OF nz] by (simp add: release_via_header)
  then have step: "drain_pool env (length rest) rt = drain_pool env (length rest) rt1"
    using Cons.prems(2) by (subst drain_pool.simps) simp
  have "all_counted (rt_objects rt1) L (c(obj := c obj - 1))"
    by (rule all_counted_step [OF all rt1(2,3)])
  note all1 = this
  have rest1: "pool_objects rt1 = p @ rest" by (subst rt1(4)) simp
  have "\<forall>obj \<in> set p. heap_object L obj" using Cons.prems(3) by simp
  from Cons.IH [OF all1 rest1 this obj(3)] obtain st where st: "drain_pool env (length rest) rt1 = Some (rt1\<lparr>rt_objects := st, pool_objects := rest\<rparr>)"
      "all_counted st L c'" "o_frees st = o_frees (rt_objects rt1)"
    by blast
  have "rt1\<lparr>rt_objects := st, pool_objects := rest\<rparr> = rt\<lparr>rt_objects := st, pool_objects := rest\<rparr>"
    by (subst rt1(4)) simp
  with step st rt1(3) show ?case by (intro exI [of _ st]) (simp add: counts_only_def)
qed

lemma pop_step:
  assumes rep: "pool_rep env L (rt, toks) (c, p # ps)" and c': "drop_counts p c = Some c'" and mem: "memory_for rt k n"
  shows "\<exists>rt' toks'. pool_step env Pop (rt, toks) = Some (rt', toks') \<and> pool_rep env L (rt', toks') (c', ps)
     \<and> o_frees (rt_objects rt') = o_frees (rt_objects rt) \<and> memory_for rt' k n"
proof -
  have r: "tokens_ok env rt toks (markers_of (p # ps))" "pool_objects rt = p @ concat ps"
      "pool_markers rt = length (concat ps) # markers_of ps" "all_counted (rt_objects rt) L c" "\<forall>obj \<in> set p. heap_object L obj"
    using rep by (simp_all add: pool_rep_def)
  then obtain tok toks' where tok: "toks = tok # toks'" "pool_tokens rt tok = Some (length (concat ps))"
      "list_all2 (\<lambda>tok m. pool_tokens rt tok = Some m) toks' (markers_of ps)"
    by (auto simp: tokens_ok_def list_all2_Cons2)
  have t: "tok \<noteq> nullptr" "tok \<noteq> pool_fallback env" "tok \<notin> set toks'"
    using r(1) by (auto simp: tokens_ok_def tok(1))
  let ?rt = "rt\<lparr>pool_tokens := (pool_tokens rt)(tok := None), pool_markers := markers_of ps\<rparr>"
  from drain_run [of ?rt L c p "concat ps" c' env] r(2,4,5) c' obtain st where
    st: "drain_pool env (length (concat ps)) ?rt = Some (?rt\<lparr>rt_objects := st, pool_objects := concat ps\<rparr>)"
      "all_counted st L c'" "o_frees st = o_frees (rt_objects rt)" by auto
  let ?rt' = "?rt\<lparr>rt_objects := st, pool_objects := concat ps\<rparr>"
  have "objc_autoreleasePoolPop env rt tok = Some ?rt'"
    using t tok(2) r(2,3) st(1) by (simp add: objc_autoreleasePoolPop_def pool_marker_def)
  moreover have "list_all2 (\<lambda>tok m. pool_tokens ?rt' tok = Some m) toks' (markers_of ps)"
    by (rule list_all2_tokens [OF tok(3)]) (use t(3) in auto)
  then have "tokens_ok env ?rt' toks' (markers_of ps)" using r(1) tok(1) by (simp add: tokens_ok_def)
  then have "pool_rep env L (?rt', toks') (c', ps)" using rep st(2) by (simp add: pool_rep_def)
  moreover have "memory_for ?rt' k n" using mem by (simp add: memory_for_def)
  ultimately show ?thesis using st(3) tok(1) by simp
qed

definition pushes :: "pool_op list \<Rightarrow> nat" where
  "pushes ops = length (filter (\<lambda>op. op = Push) ops)"

lemma step_refines:
  assumes rep: "pool_rep env L (rt, toks) (c, ps)" and step: "spec_step (heap_object L) op (c, ps) = Some (c', ps')"
    and mem: "memory_for rt (pushes (op # ops)) (Suc n)"
  shows "\<exists>rt' toks'. pool_step env op (rt, toks) = Some (rt', toks') \<and> pool_rep env L (rt', toks') (c', ps')
     \<and> o_frees (rt_objects rt') = o_frees (rt_objects rt) \<and> memory_for rt' (pushes ops) n"
proof (cases op)
  case (Retain obj)
  with step have s: "heap_object L obj" "c obj + 1 < 2 ^ 32" "c' = c(obj := c obj + 1)" "ps' = ps" by (auto split: if_splits)
  from retain_step [OF rep s(1,2)] obtain rt' where
    rt': "pool_step env (Retain obj) (rt, toks) = Some (rt', toks)" "pool_rep env L (rt', toks) (c', ps')"
      "o_frees (rt_objects rt') = o_frees (rt_objects rt)" "rt' = rt\<lparr>rt_objects := rt_objects rt'\<rparr>" unfolding s(3,4) by blast
  have "memory_for rt' (pushes ops) n" by (subst rt'(4)) (use mem Retain in \<open>simp add: memory_for_def pushes_def\<close>)
  with rt' Retain show ?thesis by blast
next
  case (Drop obj)
  with step have s: "heap_object L obj" "1 < c obj" "c' = c(obj := c obj - 1)" "ps' = ps" by (auto split: if_splits)
  from drop_step [OF rep s(1,2)] obtain rt' where
    rt': "objc_release env rt obj = Some rt'" "pool_rep env L (rt', toks) (c', ps')"
      "o_frees (rt_objects rt') = o_frees (rt_objects rt)" "rt' = rt\<lparr>rt_objects := rt_objects rt'\<rparr>" unfolding s(3,4) by blast
  have "memory_for rt' (pushes ops) n" by (subst rt'(4)) (use mem Drop in \<open>simp add: memory_for_def pushes_def\<close>)
  with rt' Drop show ?thesis by (simp only: pool_step.simps) simp
next
  case (Auto obj)
  with step have s: "heap_object L obj" "c' = c" "ps' = (case ps of [] \<Rightarrow> [] | p # ps \<Rightarrow> (obj # p) # ps)"
    by (auto split: if_splits)
  have "memory_for rt (pushes ops) (Suc n)" using mem Auto by (simp add: pushes_def)
  from auto_step [OF rep s(1) this] Auto show ?thesis unfolding s(2,3) by blast
next
  case Push
  with step have s: "c' = c" "ps' = [] # ps" by simp_all
  have "memory_for rt (Suc (pushes ops)) (Suc n)" using mem Push by (simp add: pushes_def)
  from push_step [OF rep this] Push show ?thesis unfolding s by blast
next
  case Pop
  with step obtain p where s: "ps = p # ps'" "drop_counts p c = Some c'" by (auto split: list.splits)
  have "memory_for rt (pushes ops) n" using mem Pop by (simp add: memory_for_def pushes_def)
  from pop_step [OF rep [unfolded s(1)] s(2) this] Pop show ?thesis by blast
qed

text \<open>C14: the pools of the runtime are a stack of pools.  Whatever a program retains, releases, autoreleases,
  pushes and pops in a nested way, as long as memory lasts and its objects are plain and keep a positive
  count, the runtime runs it without a fault and does what the stack says: a pop releases the
  objects autoreleased since its push that no inner pop has released, once for every autorelease, and no
  other; counts and open pools end as the stack has them, and nothing is freed.\<close>

theorem pools_refine_stack:
  assumes "pool_rep env L (rt, toks) (c, ps)" "spec_run (heap_object L) ops (c, ps) = Some (c', ps')"
    "memory_for rt (pushes ops) (length ops)"
  shows "\<exists>rt' toks'. pool_run env ops (rt, toks) = Some (rt', toks') \<and> pool_rep env L (rt', toks') (c', ps')
     \<and> o_frees (rt_objects rt') = o_frees (rt_objects rt)"
  using assms
proof (induction ops arbitrary: rt toks c ps)
  case (Cons op ops)
  from Cons.prems(2) obtain s where s: "spec_step (heap_object L) op (c, ps) = Some s"
      "spec_run (heap_object L) ops s = Some (c', ps')" by (auto simp: bind_eq_Some_conv)
  obtain c1 ps1 where c1: "s = (c1, ps1)" by (cases s)
  have "memory_for rt (pushes (op # ops)) (Suc (length ops))" using Cons.prems(3) by simp
  from step_refines [OF Cons.prems(1) s(1) [unfolded c1] this] obtain rt1 toks1 where
    rt1: "pool_step env op (rt, toks) = Some (rt1, toks1)" "pool_rep env L (rt1, toks1) (c1, ps1)"
      "o_frees (rt_objects rt1) = o_frees (rt_objects rt)" "memory_for rt1 (pushes ops) (length ops)" by blast
  from Cons.IH [OF rt1(2) s(2) [unfolded c1] rt1(4)] rt1(1,3) show ?case by auto
qed simp

theorem pools_refine_stack_witness:
  "\<exists>st rt toks. demo_objects = Some st
     \<and> pool_run quiet_env [Push, Retain 0x1048, Auto 0x1048, Push, Retain 0x1048, Auto 0x1048, Pop, Retain 0x1048, Pop]
         ((empty_runtime st)\<lparr>rt_mallocs := [0x5000, 0x5010], rt_reallocs := replicate 9 True\<rparr>, []) = Some (rt, toks)
     \<and> counted (rt_objects rt) {0x1000} 0x1048 2 \<and> pool_objects rt = []"
proof -
  from demo_counted obtain st where st: "demo_objects = Some st" "counted st {0x1000} 0x1048 1" by blast
  let ?rt = "(empty_runtime st)\<lparr>rt_mallocs := [0x5000, 0x5010], rt_reallocs := replicate 9 True\<rparr>"
  let ?ops = "[Push, Retain 0x1048, Auto 0x1048, Push, Retain 0x1048, Auto 0x1048, Pop, Retain 0x1048, Pop]"
  have one: "heap_object {0x1000} obj \<longleftrightarrow> obj = 0x1048" for obj
    by (auto simp: heap_object_def sf_is_tagged_pointer_def SF_TAGGED_POINTER_SLOT_MASK_def sizeof_SFObjHeader_def diff_eq_eq)
  have "all_counted st {0x1000} (\<lambda>_. 1)" using st(2) by (simp add: all_counted_def one counted_def)
  then have rep: "pool_rep quiet_env {0x1000} (?rt, []) (\<lambda>_. 1, [])"
    by (simp add: pool_rep_def tokens_ok_def empty_runtime_def quiet_env_def)
  have run: "spec_run (heap_object {0x1000}) ?ops (\<lambda>_. 1, []) = Some ((\<lambda>_. 1)(0x1048 := 2), [])"
    by (simp add: one fun_eq_iff)
  have "memory_for ?rt (pushes ?ops) (length ?ops)" by (simp add: memory_for_def pushes_def list_all_def)
  from pools_refine_stack [OF rep run this] obtain rt toks where
    "pool_run quiet_env ?ops (?rt, []) = Some (rt, toks)" "pool_rep quiet_env {0x1000} (rt, toks) ((\<lambda>_. 1)(0x1048 := 2), [])" by blast
  moreover from this(2) have "counted (rt_objects rt) {0x1000} 0x1048 2" "pool_objects rt = []"
    by (auto simp: pool_rep_def all_counted_def one)
  ultimately show ?thesis using st(1) by blast
qed

section \<open>Without memory for the tokens\<close>

lemma push_fallback:
  assumes "rt_mallocs rt = []" "memory_for rt 0 (Suc n)"
  shows "\<exists>rt'. pool_step env Push (rt, toks) = Some (rt', pool_fallback env # toks) \<and> rt_mallocs rt' = [] \<and> memory_for rt' 0 n
     \<and> rt_objects rt' = rt_objects rt \<and> pool_objects rt' = pool_objects rt
     \<and> pool_markers rt' = length (pool_objects rt) # pool_markers rt \<and> g_pool_fallback_token rt' = length (pool_objects rt)"
proof -
  from marker_capacity [OF assms(2), of "Suc (length (pool_markers rt))"] obtain cap rs where
    grow: "ensure_marker_capacity rt (Suc (length (pool_markers rt)))
      = (True, rt\<lparr>marker_capacity := cap, rt_reallocs := rs\<rparr>)" "list_all id rs" "n \<le> length rs" by blast
  then show ?thesis using assms(1) by (simp add: objc_autoreleasePoolPush_def Let_def memory_for_def)
qed

lemma pop_fallback_idle:
  assumes "length (pool_objects rt) \<le> g_pool_fallback_token rt"
  shows "pool_step env Pop (rt, pool_fallback env # toks) = Some (rt\<lparr>pool_markers :=
    (case pool_markers rt of [] \<Rightarrow> [] | m # ms \<Rightarrow> if m = g_pool_fallback_token rt then ms else m # ms)\<rparr>, toks)"
proof -
  have drain: "drain_pool env m rt = Some rt" if "length (pool_objects rt) \<le> m" for m rt
    using that by (subst drain_pool.simps) (auto split: list.splits)
  have "(case pool_markers rt of [] \<Rightarrow> rt | m # ms \<Rightarrow> if m = g_pool_fallback_token rt then rt\<lparr>pool_markers := ms\<rparr> else rt)
      = rt\<lparr>pool_markers := (case pool_markers rt of [] \<Rightarrow> [] | m # ms \<Rightarrow> if m = g_pool_fallback_token rt then ms else m # ms)\<rparr>"
    by (cases rt) (auto split: list.splits)
  then show ?thesis
    using assms by (simp add: objc_autoreleasePoolPop_def pool_marker_def Let_def drain)
qed

text \<open>C15: two nested pools that get no memory for their tokens share one token, and the outer pool is lost.  After
  a push, an autorelease, a nested push and both pops the object autoreleased in the outer pool has not
  been released: it stays in the array, and the marker of the outer pool stays with it.\<close>

theorem fallback_token_shared:
  assumes "cache_ok (rt_objects rt) L" "heap_object L obj" "rt_mallocs rt = []" "memory_for rt 0 3"
    "pool_objects rt = []" "pool_markers rt = []"
  shows "\<exists>rt'. pool_run env [Push, Auto obj, Push, Pop, Pop] (rt, []) = Some (rt', [])
     \<and> pool_objects rt' = [obj] \<and> pool_markers rt' = [0] \<and> o_hdrs (rt_objects rt') = o_hdrs (rt_objects rt)"
proof -
  have three: "memory_for rt 0 (Suc (Suc (Suc 0)))" using assms(4) by (simp add: numeral_3_eq_3)
  from push_fallback [OF assms(3) three] obtain rt1 where
    rt1: "pool_step env Push (rt, []) = Some (rt1, [pool_fallback env])" "rt_mallocs rt1 = []" "memory_for rt1 0 (Suc (Suc 0))"
      "rt_objects rt1 = rt_objects rt" "pool_objects rt1 = []" "pool_markers rt1 = [0]" using assms(5,6) by fastforce
  have cache: "cache_ok (rt_objects rt1) L" using assms(1) rt1(4) by simp
  from cache_ok_candidate [OF cache, of obj] assms(2) obtain st where
    st: "header_from_heap_candidate (rt_objects rt1) obj = Some (obj - sizeof_SFObjHeader, st)" "same_but_cache (rt_objects rt1) st"
    by auto
  have nz: "obj - sizeof_SFObjHeader \<noteq> nullptr" by (rule heap_object_nonnull(2) [OF cache_ok_live [OF cache] assms(2)])
  have "memory_for (rt1\<lparr>rt_objects := st\<rparr>) 0 (Suc (Suc 0))" using rt1(3) by (simp add: memory_for_def)
  from object_capacity [OF this, of "Suc 0"] obtain cap rs where
    grow: "ensure_object_capacity (rt1\<lparr>rt_objects := st\<rparr>) (Suc 0) = (True, rt1\<lparr>rt_objects := st, pool_capacity := cap, rt_reallocs := rs\<rparr>)"
      "list_all id rs" "Suc 0 \<le> length rs" by auto
  let ?rt2 = "rt1\<lparr>rt_objects := st, pool_capacity := cap, rt_reallocs := rs, pool_objects := [obj]\<rparr>"
  have 2: "pool_step env (Auto obj) (rt1, [pool_fallback env]) = Some (?rt2, [pool_fallback env])"
    using nz rt1(5,6) grow(1) by (simp add: sf_autorelease_def header_candidate_def st(1))
  have "rt_mallocs ?rt2 = []" "memory_for ?rt2 0 (Suc 0)" using rt1(2) grow(2,3) by (simp_all add: memory_for_def)
  from push_fallback [OF this] obtain rt3 where
    rt3: "pool_step env Push (?rt2, [pool_fallback env]) = Some (rt3, [pool_fallback env, pool_fallback env])"
      "rt_objects rt3 = st" "pool_objects rt3 = [obj]" "pool_markers rt3 = [1, 0]" "g_pool_fallback_token rt3 = 1"
    using rt1(6) by fastforce
  let ?rt4 = "rt3\<lparr>pool_markers := [0]\<rparr>"
  have 4: "pool_step env Pop (rt3, [pool_fallback env, pool_fallback env]) = Some (?rt4, [pool_fallback env])"
    using pop_fallback_idle [of rt3 env "[pool_fallback env]"] rt3(3-5) by simp
  have 5: "pool_step env Pop (?rt4, [pool_fallback env]) = Some (?rt4, [])"
    using pop_fallback_idle [of ?rt4 env "[]"] rt3(3-5) by simp
  have "pool_run env [Push, Auto obj, Push, Pop, Pop] (rt, []) = Some (?rt4, [])"
    using rt1(1) 2 rt3(1) 4 5 by (simp only: pool_run.simps bind.bind_lunit)
  moreover have "o_hdrs st = o_hdrs (rt_objects rt)" using same_but_cache_fields(1) [OF st(2)] rt1(4) by simp
  ultimately show ?thesis using rt3(2,3) by (intro exI [of _ ?rt4]) simp
qed

theorem fallback_token_shared_witness:
  "\<exists>st rt. demo_objects = Some st
     \<and> pool_run quiet_env [Push, Auto 0x1048, Push, Pop, Pop] ((empty_runtime st)\<lparr>rt_reallocs := [True, True, True]\<rparr>, []) = Some (rt, [])
     \<and> pool_objects rt = [0x1048]"
proof -
  from demo_counted obtain st where st: "demo_objects = Some st" "counted st {0x1000} 0x1048 1" by blast
  let ?rt = "(empty_runtime st)\<lparr>rt_reallocs := [True, True, True]\<rparr>"
  have "cache_ok (rt_objects ?rt) {0x1000}" "heap_object {0x1000} 0x1048" using st(2) by (simp_all add: counted_def)
  from fallback_token_shared [OF this, of quiet_env] st(1) show ?thesis
    by (auto simp: empty_runtime_def memory_for_def)
qed

end
