(* ===== verification/SF_Exceptions.thy ===== *)
theory SF_Exceptions
  imports SF_Refcount
begin

unbundle bit_operations_syntax

text \<open>
  Throwing and catching (\<open>Runtime/src/exceptions/exceptions.c\<close>): the exception records, the list of those in
  flight or being handled, and the stack of the handlers that are running.  The unwinder is not part of the
  repository.  A throw ends by handing its record to \<open>_Unwind_RaiseException\<close> or
  \<open>_Unwind_Resume_or_Rethrow\<close>, and the model says which, and in what state; \<open>_Unwind_DeleteException\<close> is
  documented to call the cleanup function of the record, which a throw sets to \<open>sf_exception_cleanup\<close>.
  The state is that of one thread, as its locals are thread-local.
\<close>

section \<open>Records and the list of active exceptions\<close>

definition SF_EXCEPTION_CLASS :: u64 where "SF_EXCEPTION_CLASS = 0x5346574f424a4300"

record SFException =
  exception_class :: u64
  x_object :: addr
  catch_depth :: u32
  x_reserved :: u32
  next_active :: addr

text \<open>\<open>x_excs\<close> is the memory of the records; \<open>g_catch_stack\<close> holds its used part, the top first, so that
  \<open>g_catch_stack_size\<close> is its length.\<close>

record exc_state =
  x_rt :: runtime
  x_excs :: "addr \<rightharpoonup> SFException"
  g_exception_active :: addr
  g_catch_stack :: "addr list"
  g_gnu_current_exception :: addr

definition write_exc :: "exc_state \<Rightarrow> addr \<Rightarrow> (SFException \<Rightarrow> SFException) \<Rightarrow> exc_state option" where
  "write_exc st p f = map_option (\<lambda>e. st\<lparr>x_excs := (x_excs st)(p \<mapsto> f e)\<rparr>) (x_excs st p)"

text \<open>The first word of a record is the class of the exception; of an object, its class pointer.\<close>

definition sf_exception_from_unwind :: "exc_state \<Rightarrow> addr \<Rightarrow> addr option" where
  "sf_exception_from_unwind st exception_object =
     (if exception_object = nullptr then Some nullptr
      else do {
        cls \<leftarrow> (case x_excs st exception_object of Some e \<Rightarrow> Some (exception_class e)
                | None \<Rightarrow> o_words (rt_objects (x_rt st)) exception_object);
        Some (if cls \<noteq> SF_EXCEPTION_CLASS then nullptr else exception_object)
      })"

definition sf_exception_register_active :: "exc_state \<Rightarrow> addr \<Rightarrow> exc_state option" where
  "sf_exception_register_active st exc =
     (if exc = nullptr then Some st
      else do {
        st \<leftarrow> write_exc st exc (\<lambda>e. e\<lparr>next_active := g_exception_active st\<rparr>);
        Some (st\<lparr>g_exception_active := exc\<rparr>)
      })"

text \<open>The loop over the slots: \<open>current\<close> is the content of the slot, which belongs to \<open>prev\<close>, or is the head
  of the list when \<open>prev\<close> is null.\<close>

partial_function (option) unregister_active :: "exc_state \<Rightarrow> addr \<Rightarrow> addr \<Rightarrow> addr \<Rightarrow> exc_state option" where
  "unregister_active st exc prev current =
     (if current = exc then
        Option.bind (x_excs st exc) (\<lambda>e.
        Option.bind (if prev = nullptr then Some (st\<lparr>g_exception_active := next_active e\<rparr>)
                     else write_exc st prev (\<lambda>p. p\<lparr>next_active := next_active e\<rparr>)) (\<lambda>st.
        write_exc st exc (\<lambda>e. e\<lparr>next_active := nullptr\<rparr>)))
      else if current = nullptr then Some st
      else Option.bind (x_excs st current) (\<lambda>e. unregister_active st exc current (next_active e)))"

declare unregister_active.simps [code]

definition sf_exception_unregister_active :: "exc_state \<Rightarrow> addr \<Rightarrow> exc_state option" where
  "sf_exception_unregister_active st exc =
     (if exc = nullptr then Some st else unregister_active st exc nullptr (g_exception_active st))"

partial_function (option) active_search :: "exc_state \<Rightarrow> addr \<Rightarrow> addr \<Rightarrow> addr option" where
  "active_search st obj it =
     (if it = nullptr then Some nullptr
      else Option.bind (x_excs st it) (\<lambda>e. if x_object e = obj then Some it else active_search st obj (next_active e)))"

declare active_search.simps [code]

definition sf_exception_from_object :: "exc_state \<Rightarrow> addr \<Rightarrow> addr option" where
  "sf_exception_from_object st obj = (if obj = nullptr then Some nullptr else active_search st obj (g_exception_active st))"

definition sf_exception_resolve :: "exc_state \<Rightarrow> addr \<Rightarrow> addr option" where
  "sf_exception_resolve st exception_or_object =
     (if exception_or_object = nullptr then Some nullptr
      else do {
        exc \<leftarrow> sf_exception_from_unwind st exception_or_object;
        if exc \<noteq> nullptr then Some exc else sf_exception_from_object st exception_or_object
      })"

section \<open>Throw, catch, rethrow\<close>

definition sf_exception_cleanup :: "runtime_env \<Rightarrow> exc_state \<Rightarrow> addr \<Rightarrow> exc_state option" where
  "sf_exception_cleanup env st exc = do {
     st \<leftarrow> sf_exception_unregister_active st exc;
     let st = (if g_gnu_current_exception st = exc then st\<lparr>g_gnu_current_exception := nullptr\<rparr> else st);
     e \<leftarrow> x_excs st exc;
     rt \<leftarrow> (if x_object e \<noteq> nullptr then objc_release env (x_rt st) (x_object e) else Some (x_rt st));
     Some (st\<lparr>x_rt := rt, x_excs := (x_excs st)(exc := None)\<rparr>)
   }"

text \<open>How a throw ends: in \<open>abort()\<close>, or in the unwinder with a new or a known exception.\<close>

datatype thrown = Aborted | Raised addr exc_state | Resumed addr exc_state

definition rethrown_exception :: "exc_state \<Rightarrow> addr \<Rightarrow> addr option" where
  "rethrown_exception st obj =
     (let cur = g_gnu_current_exception st in
      if cur \<noteq> nullptr \<and> obj \<noteq> nullptr then do {
        active_exc \<leftarrow> sf_exception_from_object st obj;
        if active_exc = cur then do {
          e \<leftarrow> x_excs st cur;
          Some (if x_object e = obj \<and> catch_depth e > 0 then cur else nullptr)
        }
        else Some nullptr
      }
      else Some nullptr)"

definition objc_exception_throw :: "runtime_env \<Rightarrow> exc_state \<Rightarrow> addr \<Rightarrow> thrown option" where
  "objc_exception_throw env st obj = do {
     rethrow_exc \<leftarrow> rethrown_exception st obj;
     if rethrow_exc \<noteq> nullptr then do {
       st \<leftarrow> write_exc st rethrow_exc (\<lambda>e. e\<lparr>x_reserved := 1\<rparr>);
       Some (Resumed rethrow_exc st)
     }
     else case next_calloc (rt_objects (x_rt st)) of (exc, ob) \<Rightarrow>
       if exc = nullptr then Some Aborted
       else do {
         (object, rt) \<leftarrow> objc_retain env ((x_rt st)\<lparr>rt_objects := ob\<rparr>) obj;
         rt \<leftarrow> sf_exception_capture_metadata env rt object;
         let st = st\<lparr>x_rt := rt, x_excs := (x_excs st)(exc \<mapsto>
           \<lparr>exception_class = SF_EXCEPTION_CLASS, x_object = object, catch_depth = 0, x_reserved = 0, next_active = nullptr\<rparr>)\<rparr>;
         st \<leftarrow> sf_exception_register_active st exc;
         Some (Raised exc st)
       }
   }"

definition catch_stack_limit :: nat where "catch_stack_limit = 32"

definition objc_begin_catch :: "exc_state \<Rightarrow> addr \<Rightarrow> (addr \<times> exc_state) option" where
  "objc_begin_catch st exception = do {
     exc \<leftarrow> sf_exception_resolve st exception;
     if exc = nullptr then Some (exception, st)
     else do {
       st \<leftarrow> write_exc st exc (\<lambda>e. e\<lparr>catch_depth := catch_depth e + 1, x_reserved := 0\<rparr>);
       let st = st\<lparr>g_gnu_current_exception := exc\<rparr>;
       let st = (if length (g_catch_stack st) < catch_stack_limit then st\<lparr>g_catch_stack := exc # g_catch_stack st\<rparr> else st);
       e \<leftarrow> x_excs st exc;
       Some (x_object e, st)
     }
   }"

definition objc_end_catch :: "runtime_env \<Rightarrow> exc_state \<Rightarrow> exc_state option" where
  "objc_end_catch env st =
     (case g_catch_stack st of
        [] \<Rightarrow> Some st
      | exc # stack \<Rightarrow> do {
          let st = st\<lparr>g_catch_stack := stack\<rparr>;
          let st = (if stack = [] \<or> hd stack \<noteq> exc
                    then st\<lparr>g_gnu_current_exception := (if stack \<noteq> [] then hd stack else nullptr)\<rparr> else st);
          st \<leftarrow> write_exc st exc (\<lambda>e. if catch_depth e > 0 then e\<lparr>catch_depth := catch_depth e - 1\<rparr> else e);
          e \<leftarrow> x_excs st exc;
          if catch_depth e \<noteq> 0 then Some st
          else if x_reserved e \<noteq> 0 then write_exc st exc (\<lambda>e. e\<lparr>x_reserved := 0\<rparr>)
          else sf_exception_cleanup env st exc
        })"

definition objc_exception_rethrow :: "exc_state \<Rightarrow> addr \<Rightarrow> thrown option" where
  "objc_exception_rethrow st exception = do {
     exc \<leftarrow> sf_exception_resolve st exception;
     let exc = (if exc = nullptr \<and> g_catch_stack st \<noteq> [] then hd (g_catch_stack st) else exc);
     let exc = (if exc = nullptr then g_gnu_current_exception st else exc);
     if exc \<noteq> nullptr then do {
       st \<leftarrow> write_exc st exc (\<lambda>e. e\<lparr>x_reserved := 1\<rparr>);
       Some (Resumed exc st)
     }
     else Some Aborted
   }"

section \<open>The active list\<close>

definition active_links :: "exc_state \<Rightarrow> addr \<Rightarrow> addr option" where
  "active_links st a = map_option next_active (x_excs st a)"

definition active_list :: "exc_state \<Rightarrow> addr list \<Rightarrow> bool" where
  "active_list st xs \<longleftrightarrow> segment (active_links st) (g_exception_active st) xs nullptr \<and> distinct xs
     \<and> (\<forall>x \<in> set xs. \<exists>e. x_excs st x = Some e \<and> exception_class e = SF_EXCEPTION_CLASS)"

lemma active_segment_Cons:
  "segment (active_links st) p (x # xs) q \<longleftrightarrow> p = x \<and> x \<noteq> nullptr
     \<and> (\<exists>e. x_excs st x = Some e \<and> segment (active_links st) (next_active e) xs q)"
proof -
  have "active_links st x = map_option next_active (x_excs st x)" by (simp add: active_links_def)
  then show ?thesis by (cases "x_excs st x") simp_all
qed

lemma active_search_segment:
  "segment (active_links st) p xs nullptr \<Longrightarrow>
     active_search st obj p = Some (case find (\<lambda>x. map_option x_object (x_excs st x) = Some obj) xs of None \<Rightarrow> nullptr | Some x \<Rightarrow> x)"
proof (induction xs arbitrary: p)
  case Nil
  then show ?case by (subst active_search.simps) simp
next
  case (Cons x xs)
  then obtain e where "p = x" "x \<noteq> nullptr" "x_excs st x = Some e" "segment (active_links st) (next_active e) xs nullptr"
    by (auto simp: active_segment_Cons simp del: segment.simps)
  with Cons.IH show ?case by (subst active_search.simps) simp
qed

lemma resolve_record:
  assumes "x_excs st p = Some e" "exception_class e = SF_EXCEPTION_CLASS" "p \<noteq> nullptr"
  shows "sf_exception_resolve st p = Some p"
  using assms by (simp add: sf_exception_resolve_def sf_exception_from_unwind_def)

text \<open>The search of the loop for a record at the head, and the one further down.\<close>

lemma unregister_active_run:
  assumes "segment (active_links st) cur (xs @ exc # ys) nullptr" "exc \<notin> set xs" "x_excs st exc = Some e"
  shows "unregister_active st exc prev cur =
     Option.bind (if last (prev # xs) = nullptr then Some (st\<lparr>g_exception_active := next_active e\<rparr>)
                  else write_exc st (last (prev # xs)) (\<lambda>p. p\<lparr>next_active := next_active e\<rparr>)) (\<lambda>st.
     write_exc st exc (\<lambda>e. e\<lparr>next_active := nullptr\<rparr>))"
  using assms
proof (induction xs arbitrary: cur prev)
  case Nil
  then show ?case by (subst unregister_active.simps) auto
next
  case (Cons x xs)
  then obtain f where "cur = x" "x \<noteq> nullptr" "x \<noteq> exc" "x_excs st x = Some f"
      "segment (active_links st) (next_active f) (xs @ exc # ys) nullptr"
    by (auto simp: active_segment_Cons simp del: segment.simps)
  with Cons show ?case by (subst unregister_active.simps) simp
qed

text \<open>Records that agree but for their links.\<close>

definition same_but_links :: "exc_state \<Rightarrow> exc_state \<Rightarrow> bool" where
  "same_but_links st st' \<longleftrightarrow>
     (\<forall>x. map_option (\<lambda>e. e\<lparr>next_active := nullptr\<rparr>) (x_excs st' x) = map_option (\<lambda>e. e\<lparr>next_active := nullptr\<rparr>) (x_excs st x))
     \<and> st' = st\<lparr>x_excs := x_excs st', g_exception_active := g_exception_active st'\<rparr>"

lemma same_but_links_rec:
  assumes "same_but_links st st'" "x_excs st x = Some e"
  obtains q where "x_excs st' x = Some (e\<lparr>next_active := q\<rparr>)"
proof -
  from assms have "map_option (\<lambda>e. e\<lparr>next_active := nullptr\<rparr>) (x_excs st' x) = Some (e\<lparr>next_active := nullptr\<rparr>)"
    by (metis same_but_links_def option.simps(9))
  then obtain e' where e': "x_excs st' x = Some e'" "e'\<lparr>next_active := nullptr\<rparr> = e\<lparr>next_active := nullptr\<rparr>" by auto
  have "e' = e'\<lparr>next_active := nullptr\<rparr>\<lparr>next_active := next_active e'\<rparr>" by simp
  also have "\<dots> = e\<lparr>next_active := next_active e'\<rparr>" unfolding e'(2) by simp
  finally show thesis using that e'(1) by simp
qed

lemma same_but_links_fields:
  assumes "same_but_links st st'"
  shows "x_rt st' = x_rt st" "g_catch_stack st' = g_catch_stack st" "g_gnu_current_exception st' = g_gnu_current_exception st"
  using assms by (cases st; cases st'; simp add: same_but_links_def)+

lemma unregister_active_list:
  assumes "active_list st (xs @ exc # ys)"
  shows "\<exists>st'. sf_exception_unregister_active st exc = Some st' \<and> active_list st' (xs @ ys) \<and> same_but_links st st'"
proof -
  have seg: "segment (active_links st) (g_exception_active st) (xs @ exc # ys) nullptr"
    and dist: "distinct (xs @ exc # ys)"
    and recs: "\<forall>x \<in> set (xs @ exc # ys). \<exists>e. x_excs st x = Some e \<and> exception_class e = SF_EXCEPTION_CLASS"
    using assms by (auto simp: active_list_def)
  obtain e where e: "segment (active_links st) (g_exception_active st) xs exc" "x_excs st exc = Some e" "exc \<noteq> nullptr"
      "segment (active_links st) (next_active e) ys nullptr"
    using seg by (auto simp: segment_append active_links_def split: option.splits)
  have "exc \<notin> set xs" using dist by auto
  note run = unregister_active_run [OF seg this e(2), of nullptr]
  have rec': "\<forall>x \<in> set (xs @ ys). \<exists>e. x_excs st' x = Some e \<and> exception_class e = SF_EXCEPTION_CLASS"
    if same: "same_but_links st st'" for st'
  proof
    fix x assume "x \<in> set (xs @ ys)"
    then obtain e where "x_excs st x = Some e" "exception_class e = SF_EXCEPTION_CLASS" using recs by auto
    moreover from same_but_links_rec [OF same this(1)] obtain q where "x_excs st' x = Some (e\<lparr>next_active := q\<rparr>)" .
    ultimately show "\<exists>e. x_excs st' x = Some e \<and> exception_class e = SF_EXCEPTION_CLASS" by simp
  qed
  show ?thesis
  proof (cases xs rule: rev_cases)
    case Nil
    let ?st = "st\<lparr>g_exception_active := next_active e, x_excs := (x_excs st)(exc \<mapsto> e\<lparr>next_active := nullptr\<rparr>)\<rparr>"
    have same: "same_but_links st ?st" using e(2) by (simp add: same_but_links_def)
    have "segment (active_links ?st) (next_active e) ys nullptr"
      using e(4) dist Nil by (subst segment_cong [of _ _ "active_links st"]) (auto simp: active_links_def)
    then have "active_list ?st (xs @ ys)" using rec' [OF same] dist Nil by (simp add: active_list_def)
    moreover have "sf_exception_unregister_active st exc = Some ?st"
      using run e(2,3) Nil by (simp add: sf_exception_unregister_active_def write_exc_def)
    ultimately show ?thesis using same by blast
  next
    case (snoc zs p)
    then obtain f where f: "segment (active_links st) (g_exception_active st) zs p" "x_excs st p = Some f" "p \<noteq> nullptr" "next_active f = exc"
      using e(1) by (auto simp: segment_append active_links_def split: option.splits)
    have ne: "p \<noteq> exc" "p \<notin> set zs" "p \<notin> set ys" "exc \<notin> set zs" "exc \<notin> set ys" using dist snoc by auto
    let ?st = "st\<lparr>x_excs := (x_excs st)(p \<mapsto> f\<lparr>next_active := next_active e\<rparr>, exc \<mapsto> e\<lparr>next_active := nullptr\<rparr>)\<rparr>"
    have same: "same_but_links st ?st" using e(2) f(2) by (simp add: same_but_links_def)
    have "segment (active_links ?st) (g_exception_active st) zs p" "segment (active_links ?st) (next_active e) ys nullptr"
      using f(1) e(4) ne by (subst segment_cong [of _ _ "active_links st"]; auto simp: active_links_def)+
    moreover have "active_links ?st p = Some (next_active e)" using ne(1) by (simp add: active_links_def)
    ultimately have "segment (active_links ?st) (g_exception_active st) (xs @ ys) nullptr"
      using f(3) snoc by (auto simp: segment_append)
    then have "active_list ?st (xs @ ys)" using rec' [OF same] dist by (simp add: active_list_def)
    moreover have "sf_exception_unregister_active st exc = Some ?st"
      using run e(2,3) f(2,3) ne(1) snoc by (simp add: sf_exception_unregister_active_def write_exc_def)
    ultimately show ?thesis using same by blast
  qed
qed

section \<open>The pieces of a throw and a catch\<close>

lemma or_aux_effect:
  "\<exists>f. sf_header_or_aux_flags (Some h) x = Some (h\<lparr>flags := f\<rparr>)
     \<and> f AND SF_OBJ_FLAG_PACKED_MASK = flags h AND SF_OBJ_FLAG_PACKED_MASK"
proof -
  let ?f = "(flags h AND NOT SF_OBJ_AUX_FLAGS_MASK) OR
    (push_bit 8 (sf_header_aux_flags (Some h) OR x) AND SF_OBJ_AUX_FLAGS_MASK)"
  have "sf_header_or_aux_flags (Some h) x = Some (h\<lparr>flags := ?f\<rparr>)"
    by (simp add: sf_header_or_aux_flags_def sf_header_set_aux_flags_def)
  moreover have "?f AND SF_OBJ_FLAG_PACKED_MASK = flags h AND SF_OBJ_FLAG_PACKED_MASK"
    by (rule bit_word_eqI) (auto simp: bit_simps flag_masks)
  ultimately show ?thesis by blast
qed

lemma capture_counted:
  assumes "counted (rt_objects rt) L obj n"
  shows "\<exists>rt'. sf_exception_capture_metadata env rt obj = Some rt' \<and> counted (rt_objects rt') L obj n"
proof -
  let ?hdr = "obj - sizeof_SFObjHeader"
  define st where "st = (if find_exception_metadata (g_exception_metadata rt) obj \<noteq> None then rt_objects rt
    else snd (next_calloc (rt_objects rt)))"
  have same: "o_hdrs st = o_hdrs (rt_objects rt)" "o_buckets st = o_buckets (rt_objects rt)"
      "g_last_header_obj st = g_last_header_obj (rt_objects rt)" "g_last_header_ptr st = g_last_header_ptr (rt_objects rt)"
    by (simp_all add: st_def next_calloc_def split: list.splits)
  obtain h where h: "cache_ok (rt_objects rt) L" "heap_object L obj" "o_hdrs st ?hdr = Some h" "0 < n"
      "header_is_plain_live_object h" "unat (refcount h) = n" using assms same by (auto simp: counted_def)
  have live: "live_set st L"
    using cache_ok_live [OF h(1)] live_set_cong [of st "rt_objects rt"] same by (simp add: live_links_def)
  have nz: "obj \<noteq> nullptr" "?hdr \<noteq> nullptr" using heap_object_nonnull [OF live h(2)] by simp_all
  have find: "sf_header_from_object st obj = Some ?hdr"
    using live_set_find [OF live, of obj] h(2) by (simp add: heap_object_def)
  obtain f where f: "sf_header_or_aux_flags (Some h) SF_OBJ_AUX_FLAG_HAS_EXCEPTION_METADATA = Some (h\<lparr>flags := f\<rparr>)"
      "f AND SF_OBJ_FLAG_PACKED_MASK = flags h AND SF_OBJ_FLAG_PACKED_MASK" using or_aux_effect by blast
  let ?st = "st\<lparr>o_hdrs := (o_hdrs st)(?hdr \<mapsto> h\<lparr>flags := f\<rparr>)\<rparr>"
  have flag: "flag_metadata st obj sf_header_or_aux_flags = Some ?st"
    using nz find h(3) f(1) by (simp add: flag_metadata_def write_flags_def)
  have "(if find_exception_metadata (g_exception_metadata rt) obj \<noteq> None then (True, rt_objects rt)
         else case next_calloc (rt_objects rt) of (p, st) \<Rightarrow> (p \<noteq> nullptr, st))
      = (find_exception_metadata (g_exception_metadata rt) obj \<noteq> None \<or> fst (next_calloc (rt_objects rt)) \<noteq> nullptr, st)"
    by (simp add: st_def case_prod_beta)
  with flag nz have "\<exists>rt'. sf_exception_capture_metadata env rt obj = Some rt' \<and> rt_objects rt' = ?st"
    by (simp add: sf_exception_capture_metadata_def with_objects_def del: not_None_eq)
  moreover have "counted ?st L obj n"
  proof -
    have "live_set ?st L = live_set st L" by (rule live_set_cong) (simp_all add: live_links_def h(3))
    then have "cache_ok ?st L" using live h(1) by (simp add: cache_ok_def same)
    moreover have "f AND SF_OBJ_FLAG_IMMORTAL = 0" "f AND SF_OBJ_FLAG_EMBEDDED = 0"
      using low_flags [OF f(2)] plain_flags [OF h(5)] by simp_all
    then have "header_is_plain_live_object (h\<lparr>flags := f\<rparr>)"
      using plain_flags [OF h(5)] by (simp add: header_is_plain_live_object_def bit.conj_disj_distrib)
    ultimately show ?thesis using h(2,4,6) by (simp add: counted_def)
  qed
  ultimately show ?thesis by auto
qed

text \<open>A throw of an object that no active exception carries.\<close>

lemma throw_run:
  assumes counted: "counted (rt_objects (x_rt st)) L obj n" "n + 1 < 2 ^ 32"
    and act: "active_list st xs" "\<forall>x \<in> set xs. map_option x_object (x_excs st x) \<noteq> Some obj"
    and exc: "o_callocs (rt_objects (x_rt st)) = exc # cs" "exc \<noteq> nullptr" "x_excs st exc = None"
  shows "\<exists>st1 e. objc_exception_throw env st obj = Some (Raised exc st1) \<and> counted (rt_objects (x_rt st1)) L obj (n + 1)
     \<and> active_list st1 (exc # xs) \<and> x_excs st1 = (x_excs st)(exc \<mapsto> e) \<and> exception_class e = SF_EXCEPTION_CLASS
     \<and> x_object e = obj \<and> catch_depth e = 0 \<and> x_reserved e = 0
     \<and> g_catch_stack st1 = g_catch_stack st \<and> g_gnu_current_exception st1 = g_gnu_current_exception st"
proof -
  have "find (\<lambda>x. map_option x_object (x_excs st x) = Some obj) xs = None" using act(2) by (simp add: find_None_iff)
  then have "active_search st obj (g_exception_active st) = Some nullptr"
    using active_search_segment [of st _ xs obj] act(1) by (simp add: active_list_def)
  then have fresh: "rethrown_exception st obj = Some nullptr"
    by (auto simp: rethrown_exception_def sf_exception_from_object_def Let_def)
  let ?ob = "(rt_objects (x_rt st))\<lparr>o_callocs := cs\<rparr>"
  let ?rt = "(x_rt st)\<lparr>rt_objects := ?ob\<rparr>"
  have "live_set ?ob L = live_set (rt_objects (x_rt st)) L" by (rule live_set_cong) (simp_all add: live_links_def)
  then have "counted (rt_objects ?rt) L obj n" using counted(1) by (simp add: counted_def cache_ok_def)
  from retain_counted [OF this counted(2), of env] obtain rt1 where
    rt1: "objc_retain env ?rt obj = Some (obj, rt1)" "counted (rt_objects rt1) L obj (n + 1)" by blast
  from capture_counted [OF rt1(2), of env] obtain rt2 where
    rt2: "sf_exception_capture_metadata env rt1 obj = Some rt2" "counted (rt_objects rt2) L obj (n + 1)" by blast
  define e where "e = \<lparr>exception_class = SF_EXCEPTION_CLASS, x_object = obj, catch_depth = 0, x_reserved = 0,
    next_active = g_exception_active st\<rparr>"
  define st1 where "st1 = st\<lparr>x_rt := rt2, x_excs := (x_excs st)(exc \<mapsto> e), g_exception_active := exc\<rparr>"
  have "objc_exception_throw env st obj = Some (Raised exc st1)"
    using exc(1,2) rt1(1) rt2(1)
    by (simp add: objc_exception_throw_def fresh next_calloc_def sf_exception_register_active_def write_exc_def st1_def e_def Let_def)
  moreover have "active_list st1 (exc # xs)"
  proof -
    have new: "exc \<notin> set xs" using act(1) exc(3) by (auto simp: active_list_def)
    have "segment (active_links st1) (g_exception_active st) xs nullptr"
      using act(1) new by (subst segment_cong [of _ _ "active_links st"]) (auto simp: active_links_def st1_def active_list_def)
    then show ?thesis
      using act(1) new exc(2) by (auto simp: active_list_def active_segment_Cons st1_def e_def simp del: segment.simps)
  qed
  ultimately show ?thesis using rt2(2) by (intro exI [of _ st1] exI [of _ e]) (simp add: st1_def e_def)
qed

lemma begin_run:
  assumes "x_excs st exc = Some e" "exception_class e = SF_EXCEPTION_CLASS" "exc \<noteq> nullptr"
  shows "objc_begin_catch st exc = Some (x_object e, st\<lparr>x_excs := (x_excs st)(exc \<mapsto> e\<lparr>catch_depth := catch_depth e + 1, x_reserved := 0\<rparr>),
     g_gnu_current_exception := exc,
     g_catch_stack := (if length (g_catch_stack st) < catch_stack_limit then exc # g_catch_stack st else g_catch_stack st)\<rparr>)"
  using resolve_record [OF assms] assms by (simp add: objc_begin_catch_def write_exc_def Let_def)

lemma active_list_update:
  assumes "active_list st xs" "x_excs st x = Some e" "next_active e' = next_active e" "exception_class e' = exception_class e"
    "x_excs st' = (x_excs st)(x \<mapsto> e')" "g_exception_active st' = g_exception_active st"
  shows "active_list st' xs"
proof -
  have "active_links st' = active_links st" using assms(2,3,5) by (auto simp: active_links_def)
  then show ?thesis using assms by (auto simp: active_list_def)
qed

text \<open>The last \<open>objc_end_catch\<close> of an exception deletes it.\<close>

lemma cleanup_run:
  assumes "active_list st (xs @ exc # ys)" "x_excs st exc = Some e" "objc_release env (x_rt st) (x_object e) = Some rt'"
    "x_object e \<noteq> nullptr"
  shows "\<exists>st'. sf_exception_cleanup env st exc = Some st' \<and> x_rt st' = rt' \<and> active_list st' (xs @ ys) \<and> x_excs st' exc = None
     \<and> (\<forall>x. x \<noteq> exc \<longrightarrow> map_option (\<lambda>e. e\<lparr>next_active := nullptr\<rparr>) (x_excs st' x) = map_option (\<lambda>e. e\<lparr>next_active := nullptr\<rparr>) (x_excs st x))
     \<and> g_catch_stack st' = g_catch_stack st
     \<and> g_gnu_current_exception st' = (if g_gnu_current_exception st = exc then nullptr else g_gnu_current_exception st)"
proof -
  from unregister_active_list [OF assms(1)] obtain st1 where
    st1: "sf_exception_unregister_active st exc = Some st1" "active_list st1 (xs @ ys)" "same_but_links st st1" by blast
  note f = same_but_links_fields [OF st1(3)]
  from same_but_links_rec [OF st1(3) assms(2)] obtain q where q: "x_excs st1 exc = Some (e\<lparr>next_active := q\<rparr>)" .
  let ?st = "st1\<lparr>g_gnu_current_exception := (if g_gnu_current_exception st = exc then nullptr else g_gnu_current_exception st),
    x_rt := rt', x_excs := (x_excs st1)(exc := None)\<rparr>"
  have "(if g_gnu_current_exception st1 = exc then st1\<lparr>g_gnu_current_exception := nullptr\<rparr> else st1)
      = st1\<lparr>g_gnu_current_exception := (if g_gnu_current_exception st = exc then nullptr else g_gnu_current_exception st)\<rparr>"
    by (cases st1) (simp add: f(3) [symmetric])
  then have "sf_exception_cleanup env st exc = Some ?st"
    using assms(3,4) q f(1) by (simp add: sf_exception_cleanup_def st1(1))
  moreover have "exc \<notin> set (xs @ ys)" using assms(1) by (auto simp: active_list_def)
  then have "segment (active_links ?st) (g_exception_active st1) (xs @ ys) nullptr"
    using st1(2) by (subst segment_cong [of _ _ "active_links st1"]) (auto simp: active_list_def active_links_def)
  with \<open>exc \<notin> set (xs @ ys)\<close> st1(2) have "active_list ?st (xs @ ys)" by (auto simp: active_list_def)
  ultimately show ?thesis using st1(3) f by (auto simp: same_but_links_def)
qed

lemma end_run_deletes:
  assumes act: "active_list st (xs @ exc # ys)" and st: "g_catch_stack st = exc # stack" "exc \<notin> set stack"
    and e: "x_excs st exc = Some e" "catch_depth e = 1" "x_reserved e = 0" "x_object e \<noteq> nullptr"
    and release: "objc_release env (x_rt st) (x_object e) = Some rt'"
  shows "\<exists>st'. objc_end_catch env st = Some st' \<and> x_rt st' = rt' \<and> active_list st' (xs @ ys) \<and> x_excs st' exc = None
     \<and> (\<forall>x. x \<noteq> exc \<longrightarrow> map_option (\<lambda>e. e\<lparr>next_active := nullptr\<rparr>) (x_excs st' x) = map_option (\<lambda>e. e\<lparr>next_active := nullptr\<rparr>) (x_excs st x))
     \<and> g_catch_stack st' = stack \<and> g_gnu_current_exception st' = (if stack = [] then nullptr else hd stack)"
proof -
  have nz: "exc \<noteq> nullptr"
    using act segment_nonnull [of "active_links st" "g_exception_active st" "xs @ exc # ys" nullptr] by (auto simp: active_list_def)
  have hd: "stack = [] \<or> hd stack \<noteq> exc" using st(2) by (cases stack) auto
  let ?e = "e\<lparr>catch_depth := 0\<rparr>"
  let ?st = "st\<lparr>g_catch_stack := stack, g_gnu_current_exception := (if stack \<noteq> [] then hd stack else nullptr),
      x_excs := (x_excs st)(exc \<mapsto> ?e)\<rparr>"
  have "active_list ?st (xs @ exc # ys)" by (rule active_list_update [OF act e(1), of ?e]) simp_all
  from cleanup_run [OF this, of ?e env rt'] release e(4) obtain st' where
    st': "sf_exception_cleanup env ?st exc = Some st'" "x_rt st' = rt'" "active_list st' (xs @ ys)" "x_excs st' exc = None"
     "\<forall>x. x \<noteq> exc \<longrightarrow> map_option (\<lambda>e. e\<lparr>next_active := nullptr\<rparr>) (x_excs st' x) = map_option (\<lambda>e. e\<lparr>next_active := nullptr\<rparr>) (x_excs st x)"
     "g_catch_stack st' = stack"
     "g_gnu_current_exception st' = (if (if stack = [] then nullptr else hd stack) = exc then nullptr else if stack = [] then nullptr else hd stack)"
    by auto
  have "objc_end_catch env st = sf_exception_cleanup env ?st exc"
    using st(1) e(1-3) hd by (auto simp: objc_end_catch_def write_exc_def Let_def)
  with st' hd nz show ?thesis by auto
qed

section \<open>What the handlers keep\<close>

text \<open>C16: a throw, its catch and the end of its handler balance.  Thrown, the object is held once more and its
  record is active; in the handler the object is what \<open>objc_begin_catch\<close> returns and the record is on top
  of the stack; after the handler the record is freed and in no list, the object has its old count, and the
  handlers that were running before, the current exception and the other records are as they were.\<close>

theorem throw_catch_balanced:
  assumes counted: "counted (rt_objects (x_rt st)) L obj n" "n + 1 < 2 ^ 32"
    and act: "active_list st xs" "\<forall>x \<in> set xs. map_option x_object (x_excs st x) \<noteq> Some obj"
    and exc: "o_callocs (rt_objects (x_rt st)) = exc # cs" "exc \<noteq> nullptr" "x_excs st exc = None"
    and stack: "length (g_catch_stack st) < catch_stack_limit" "\<forall>x \<in> set (g_catch_stack st). x_excs st x \<noteq> None"
  shows "\<exists>st1 st2 st3. objc_exception_throw env st obj = Some (Raised exc st1) \<and> objc_begin_catch st1 exc = Some (obj, st2)
     \<and> objc_end_catch env st2 = Some st3
     \<and> counted (rt_objects (x_rt st1)) L obj (n + 1) \<and> active_list st1 (exc # xs)
     \<and> g_catch_stack st2 = exc # g_catch_stack st \<and> g_gnu_current_exception st2 = exc \<and> sf_exception_from_object st2 obj = Some exc
     \<and> counted (rt_objects (x_rt st3)) L obj n \<and> active_list st3 xs \<and> x_excs st3 exc = None
     \<and> (\<forall>x. map_option (\<lambda>e. e\<lparr>next_active := nullptr\<rparr>) (x_excs st3 x) = map_option (\<lambda>e. e\<lparr>next_active := nullptr\<rparr>) (x_excs st x))
     \<and> g_catch_stack st3 = g_catch_stack st
     \<and> g_gnu_current_exception st3 = (if g_catch_stack st = [] then nullptr else hd (g_catch_stack st))"
proof -
  from throw_run [OF counted act exc, of env] obtain st1 e where
    st1: "objc_exception_throw env st obj = Some (Raised exc st1)" "counted (rt_objects (x_rt st1)) L obj (n + 1)"
      "active_list st1 (exc # xs)" "x_excs st1 = (x_excs st)(exc \<mapsto> e)" "exception_class e = SF_EXCEPTION_CLASS"
      "x_object e = obj" "catch_depth e = 0" "x_reserved e = 0" "g_catch_stack st1 = g_catch_stack st" by blast
  have e: "x_excs st1 exc = Some e" using st1(4) by simp
  define st2 where "st2 = st1\<lparr>x_excs := (x_excs st1)(exc \<mapsto> e\<lparr>catch_depth := 1, x_reserved := 0\<rparr>), g_gnu_current_exception := exc,
     g_catch_stack := exc # g_catch_stack st\<rparr>"
  have handler: "objc_begin_catch st1 exc = Some (obj, st2)"
    using begin_run [OF e st1(5) exc(2)] stack(1) st1(6,7,9) by (simp add: st2_def)
  have act2: "active_list st2 (exc # xs)"
    by (rule active_list_update [OF st1(3) e, of "e\<lparr>catch_depth := 1, x_reserved := 0\<rparr>"]) (simp_all add: st2_def)
  have nz: "obj \<noteq> nullptr" using counted(1) by (simp add: counted_def heap_object_def)
  have "sf_exception_from_object st2 obj = Some exc"
    using nz active_search_segment [of st2 _ "exc # xs" obj] act2 st1(6)
    by (simp add: sf_exception_from_object_def active_list_def st2_def)
  have "1 < n + 1" using counted(1) by (simp add: counted_def)
  from release_counted [OF st1(2) this, of env] obtain rt3 where
    rt3: "objc_release env (x_rt st1) obj = Some rt3" "counted (rt_objects rt3) L obj n" by auto
  have "exc \<notin> set (g_catch_stack st)" using stack(2) exc(3) by auto
  from end_run_deletes [of st2 "[]" exc xs "g_catch_stack st" "e\<lparr>catch_depth := 1, x_reserved := 0\<rparr>" env rt3] this act2 st1(6) nz rt3(1)
  obtain st3 where st3: "objc_end_catch env st2 = Some st3" "x_rt st3 = rt3" "active_list st3 xs" "x_excs st3 exc = None"
     "\<forall>x. x \<noteq> exc \<longrightarrow> map_option (\<lambda>e. e\<lparr>next_active := nullptr\<rparr>) (x_excs st3 x) = map_option (\<lambda>e. e\<lparr>next_active := nullptr\<rparr>) (x_excs st2 x)"
     "g_catch_stack st3 = g_catch_stack st"
     "g_gnu_current_exception st3 = (if g_catch_stack st = [] then nullptr else hd (g_catch_stack st))"
    by (auto simp: st2_def)
  have "map_option (\<lambda>e. e\<lparr>next_active := nullptr\<rparr>) (x_excs st3 x) = map_option (\<lambda>e. e\<lparr>next_active := nullptr\<rparr>) (x_excs st x)" for x
    using st3(4,5) exc(3) by (cases "x = exc") (auto simp: st2_def st1(4))
  moreover have "g_catch_stack st2 = exc # g_catch_stack st" "g_gnu_current_exception st2 = exc" by (simp_all add: st2_def)
  ultimately show ?thesis
    using st1(1-3) handler \<open>sf_exception_from_object st2 obj = Some exc\<close> st3 rt3(2) by blast
qed

text \<open>C17: a rethrown exception survives the end of the handler that rethrows it.  \<open>objc_exception_rethrow\<close> hands
  the record to the unwinder, also when it is given a null pointer in the handler; the \<open>objc_end_catch\<close> of
  the handler being left takes it off the stack but neither frees it nor releases its object; and the next
  handler finds it as if it had been thrown anew.\<close>

theorem rethrow_keeps_exception:
  assumes e: "x_excs st exc = Some e" "exception_class e = SF_EXCEPTION_CLASS" "exc \<noteq> nullptr" "catch_depth e = 1"
    and stack: "g_catch_stack st = exc # stack" "exc \<notin> set stack" "length stack < catch_stack_limit"
    and p: "p = exc \<or> p = nullptr"
  shows "\<exists>st1 st2 st3. objc_exception_rethrow st p = Some (Resumed exc st1) \<and> objc_end_catch env st1 = Some st2
     \<and> objc_begin_catch st2 exc = Some (x_object e, st3)
     \<and> x_rt st2 = x_rt st \<and> g_catch_stack st2 = stack \<and> x_excs st2 exc = Some (e\<lparr>catch_depth := 0, x_reserved := 0\<rparr>)
     \<and> st3 = st\<lparr>x_excs := (x_excs st)(exc \<mapsto> e\<lparr>x_reserved := 0\<rparr>), g_gnu_current_exception := exc\<rparr>"
proof -
  have hd: "stack = [] \<or> hd stack \<noteq> exc" using stack(2) by (cases stack) auto
  have resolve: "sf_exception_resolve st p = Some p"
    using p resolve_record [OF e(1,2,3)] by (auto simp: sf_exception_resolve_def)
  have "objc_exception_rethrow st p = Some (Resumed exc (st\<lparr>x_excs := (x_excs st)(exc \<mapsto> e\<lparr>x_reserved := 1\<rparr>)\<rparr>))"
    using p resolve e(1,3) stack(1) by (auto simp: objc_exception_rethrow_def write_exc_def)
  moreover define st2 where "st2 = st\<lparr>g_catch_stack := stack, g_gnu_current_exception := (if stack \<noteq> [] then hd stack else nullptr),
      x_excs := (x_excs st)(exc \<mapsto> e\<lparr>catch_depth := 0, x_reserved := 0\<rparr>)\<rparr>"
  have "objc_end_catch env (st\<lparr>x_excs := (x_excs st)(exc \<mapsto> e\<lparr>x_reserved := 1\<rparr>)\<rparr>) = Some st2"
    using stack(1) e(4) hd by (auto simp: objc_end_catch_def write_exc_def Let_def st2_def)
  moreover have e2: "x_excs st2 exc = Some (e\<lparr>catch_depth := 0, x_reserved := 0\<rparr>)" by (simp add: st2_def)
  have "exception_class (e\<lparr>catch_depth := 0, x_reserved := 0\<rparr>) = SF_EXCEPTION_CLASS" using e(2) by simp
  from begin_run [OF e2 this e(3)] stack(1,3) e(4)
  have "objc_begin_catch st2 exc = Some (x_object e,
      st\<lparr>x_excs := (x_excs st)(exc \<mapsto> e\<lparr>x_reserved := 0\<rparr>), g_gnu_current_exception := exc\<rparr>)"
    by (cases e) (simp add: st2_def)
  ultimately show ?thesis using e2 by (simp add: st2_def)
qed

text \<open>C18: with 32 handlers running, a further handler ends the wrong exception.  Its record is not put on the
  full stack, so its \<open>objc_end_catch\<close> pops the record of the handler around it: that record is freed and
  its object released although its handler still runs, while the record of the inner exception is left
  behind with a count of one handler.\<close>

theorem catch_stack_overflow:
  assumes act: "active_list st (xs @ outer # ys)" and st: "g_catch_stack st = outer # stack" "outer \<notin> set stack"
      "length (g_catch_stack st) = catch_stack_limit"
    and o: "x_excs st outer = Some oe" "catch_depth oe = 1" "x_reserved oe = 0" "counted (rt_objects (x_rt st)) L (x_object oe) n" "1 < n"
    and i: "x_excs st inner = Some ie" "exception_class ie = SF_EXCEPTION_CLASS" "catch_depth ie = 0" "inner \<noteq> outer" "inner \<noteq> nullptr"
  shows "\<exists>st1 st2. objc_begin_catch st inner = Some (x_object ie, st1) \<and> g_catch_stack st1 = g_catch_stack st
     \<and> objc_end_catch env st1 = Some st2 \<and> x_excs st2 outer = None \<and> counted (rt_objects (x_rt st2)) L (x_object oe) (n - 1)
     \<and> map_option catch_depth (x_excs st2 inner) = Some 1"
proof -
  let ?ie = "ie\<lparr>catch_depth := 1, x_reserved := 0\<rparr>"
  define st1 where "st1 = st\<lparr>x_excs := (x_excs st)(inner \<mapsto> ?ie), g_gnu_current_exception := inner\<rparr>"
  have "objc_begin_catch st inner = Some (x_object ie, st1)"
    using begin_run [OF i(1,2,5)] st(3) i(3) by (simp add: st1_def)
  moreover have act1: "active_list st1 (xs @ outer # ys)"
    by (rule active_list_update [OF act i(1), of ?ie]) (simp_all add: st1_def)
  from release_counted [OF o(4,5), of env] obtain rt where
    rt: "objc_release env (x_rt st) (x_object oe) = Some rt" "counted (rt_objects rt) L (x_object oe) (n - 1)" by blast
  have "x_object oe \<noteq> nullptr" using o(4) by (simp add: counted_def heap_object_def)
  from end_run_deletes [OF act1 _ st(2), of oe env rt] this st(1) o(1-3) i(4) rt(1) obtain st2 where
    st2: "objc_end_catch env st1 = Some st2" "x_rt st2 = rt" "x_excs st2 outer = None"
      "\<forall>x. x \<noteq> outer \<longrightarrow> map_option (\<lambda>e. e\<lparr>next_active := nullptr\<rparr>) (x_excs st2 x) = map_option (\<lambda>e. e\<lparr>next_active := nullptr\<rparr>) (x_excs st1 x)"
    by (auto simp: st1_def)
  have "map_option (\<lambda>e. e\<lparr>next_active := nullptr\<rparr>) (x_excs st2 inner) = Some (?ie\<lparr>next_active := nullptr\<rparr>)"
    using st2(4) i(4) by (simp add: st1_def)
  then have "map_option catch_depth (x_excs st2 inner) = Some 1" by (cases "x_excs st2 inner") (auto dest: arg_cong [of _ _ catch_depth])
  ultimately show ?thesis using st2(1-3) rt(2) by (auto simp: st1_def)
qed

section \<open>Concrete runs\<close>

definition no_exceptions :: "runtime \<Rightarrow> exc_state" where
  "no_exceptions rt = \<lparr>x_rt = rt, x_excs = (\<lambda>_. None), g_exception_active = nullptr, g_catch_stack = [],
     g_gnu_current_exception = nullptr\<rparr>"

definition demo_exception :: "u32 \<Rightarrow> addr \<Rightarrow> SFException" where
  "demo_exception depth obj =
     \<lparr>exception_class = SF_EXCEPTION_CLASS, x_object = obj, catch_depth = depth, x_reserved = 0, next_active = nullptr\<rparr>"

theorem throw_catch_balanced_witness:
  "\<exists>ob st st1 st2 st3. demo_objects = Some ob \<and> st = no_exceptions (empty_runtime (ob\<lparr>o_callocs := [0x7000, 0x7100]\<rparr>))
     \<and> objc_exception_throw quiet_env st 0x1048 = Some (Raised 0x7000 st1)
     \<and> objc_begin_catch st1 0x7000 = Some (0x1048, st2) \<and> objc_end_catch quiet_env st2 = Some st3
     \<and> x_excs st3 0x7000 = None \<and> counted (rt_objects (x_rt st3)) {0x1000} 0x1048 1"
proof -
  from demo_counted obtain ob where ob: "demo_objects = Some ob" "counted ob {0x1000} 0x1048 1" by blast
  let ?ob = "ob\<lparr>o_callocs := [0x7000, 0x7100]\<rparr>"
  have "live_set ?ob {0x1000} = live_set ob {0x1000}" by (rule live_set_cong) (simp_all add: live_links_def)
  then have "counted (rt_objects (x_rt (no_exceptions (empty_runtime ?ob)))) {0x1000} 0x1048 1"
    using ob(2) by (simp add: counted_def cache_ok_def no_exceptions_def)
  from throw_catch_balanced [OF this, of "[]" "0x7000" "[0x7100]" quiet_env] ob(1) show ?thesis
    by (fastforce simp: no_exceptions_def active_list_def catch_stack_limit_def)
qed

theorem rethrow_keeps_exception_witness:
  "\<exists>st1 st2 st3. objc_exception_rethrow (no_exceptions (empty_runtime empty_objects)
         \<lparr>x_excs := [0x7000 \<mapsto> demo_exception 1 0x1048], g_catch_stack := [0x7000]\<rparr>) nullptr = Some (Resumed 0x7000 st1)
     \<and> objc_end_catch quiet_env st1 = Some st2 \<and> objc_begin_catch st2 0x7000 = Some (0x1048, st3)
     \<and> map_option catch_depth (x_excs st3 0x7000) = Some 1"
proof -
  let ?st = "no_exceptions (empty_runtime empty_objects)\<lparr>x_excs := [0x7000 \<mapsto> demo_exception 1 0x1048], g_catch_stack := [0x7000]\<rparr>"
  have "x_excs ?st 0x7000 = Some (demo_exception 1 0x1048)" "g_catch_stack ?st = [0x7000]" by simp_all
  from rethrow_keeps_exception [OF this(1) _ _ _ this(2), of nullptr quiet_env] show ?thesis
    by (fastforce simp: demo_exception_def catch_stack_limit_def)
qed

theorem catch_stack_overflow_witness:
  "\<exists>rt st st1 st2. st = no_exceptions rt\<lparr>x_excs := [0x7000 \<mapsto> demo_exception 1 0x1048, 0x7100 \<mapsto> demo_exception 0 0x1048],
       g_exception_active := 0x7000, g_catch_stack := 0x7000 # replicate 31 0x7200\<rparr>
     \<and> objc_begin_catch st 0x7100 = Some (0x1048, st1) \<and> objc_end_catch quiet_env st1 = Some st2 \<and> x_excs st2 0x7000 = None"
proof -
  from demo_counted obtain ob where ob: "counted (rt_objects (empty_runtime ob)) {0x1000} 0x1048 1" by auto
  have "(1 :: nat) + 1 < 2 ^ 32" by simp
  from retain_counted [OF ob this, of quiet_env] obtain rt :: runtime where
    "counted (rt_objects rt) {0x1000} 0x1048 (1 + 1)" by blast
  then have rt: "counted (rt_objects rt) {0x1000} 0x1048 2" by (simp only: one_add_one)
  let ?st = "no_exceptions rt\<lparr>x_excs := [0x7000 \<mapsto> demo_exception 1 0x1048, 0x7100 \<mapsto> demo_exception 0 0x1048],
       g_exception_active := 0x7000, g_catch_stack := 0x7000 # replicate 31 0x7200\<rparr>"
  have act: "active_list ?st ([] @ 0x7000 # [])"
    by (simp add: active_list_def active_links_def demo_exception_def)
  have stack: "g_catch_stack ?st = 0x7000 # replicate 31 0x7200" "0x7000 \<notin> set (replicate 31 (0x7200 :: addr))"
    "length (g_catch_stack ?st) = catch_stack_limit" by (simp_all add: catch_stack_limit_def)
  have o: "x_excs ?st 0x7000 = Some (demo_exception 1 0x1048)" "catch_depth (demo_exception 1 0x1048) = 1"
    "x_reserved (demo_exception 1 0x1048) = 0" "counted (rt_objects (x_rt ?st)) {0x1000} (x_object (demo_exception 1 0x1048)) 2"
    "1 < (2 :: nat)" using rt by (simp_all add: demo_exception_def no_exceptions_def)
  have i: "x_excs ?st 0x7100 = Some (demo_exception 0 0x1048)" "exception_class (demo_exception 0 0x1048) = SF_EXCEPTION_CLASS"
    "catch_depth (demo_exception 0 0x1048) = 0" by (simp_all add: demo_exception_def)
  from catch_stack_overflow [OF act stack o i, of quiet_env] show ?thesis
    by (fastforce simp: demo_exception_def)
qed

end
