(* ===== verification/SF_Leb.thy ===== *)
theory SF_Leb
  imports SF_Prelude "HOL-Library.Monad_Syntax"
begin

unbundle bit_operations_syntax

text \<open>
  The readers of DWARF exception-header values of \<open>Runtime/src/exceptions/exceptions.c\<close>:
  LEB128 numbers, fixed-width little-endian words, and the pointer encodings built from them.

  Memory is a partial map from addresses to bytes.  A reader returns the value and the advanced
  pointer; \<open>None\<close> stands for a run that does not return: it read an unmapped byte, it reached
  \<open>abort()\<close>, or (for the LEB128 loops) its input never ends.
\<close>

type_synonym byte_mem = "addr \<rightharpoonup> u8"

section \<open>LEB128\<close>

text \<open>\<open>shift = (shift <= 56U) ? (shift + 7U) : 64U\<close>\<close>

definition next_shift :: "nat \<Rightarrow> nat" where
  "next_shift shift = (if shift \<le> 56 then shift + 7 else 64)"

text \<open>\<open>if (shift < 64U) result |= (uint64_t)(b & 0x7FU) << shift;\<close>\<close>

definition leb_add :: "u64 \<Rightarrow> nat \<Rightarrow> u8 \<Rightarrow> u64" where
  "leb_add result shift b =
     (if shift < 64 then result OR push_bit shift (ucast (b AND 0x7F)) else result)"

partial_function (option) uleb_loop :: "byte_mem \<Rightarrow> u64 \<Rightarrow> nat \<Rightarrow> addr \<Rightarrow> (u64 \<times> addr) option" where
  "uleb_loop m result shift p =
     (case m p of None \<Rightarrow> None
      | Some b \<Rightarrow>
          (if b AND 0x80 = 0 then Some (leb_add result shift b, p + 1)
           else uleb_loop m (leb_add result shift b) (next_shift shift) (p + 1)))"

declare uleb_loop.simps [code]

definition read_uleb :: "byte_mem \<Rightarrow> addr \<Rightarrow> (u64 \<times> addr) option" where
  "read_uleb m ptr = uleb_loop m 0 0 ptr"

text \<open>The signed reader also returns the shift and the last byte, from which the sign is extended.\<close>

partial_function (option) sleb_loop ::
  "byte_mem \<Rightarrow> u64 \<Rightarrow> nat \<Rightarrow> addr \<Rightarrow> (u64 \<times> nat \<times> u8 \<times> addr) option" where
  "sleb_loop m result shift p =
     (case m p of None \<Rightarrow> None
      | Some b \<Rightarrow>
          (if b AND 0x80 = 0 then Some (leb_add result shift b, next_shift shift, b, p + 1)
           else sleb_loop m (leb_add result shift b) (next_shift shift) (p + 1)))"

declare sleb_loop.simps [code]

definition read_sleb :: "byte_mem \<Rightarrow> addr \<Rightarrow> (64 word \<times> addr) option" where
  "read_sleb m ptr = do {
     (result, shift, b, p) \<leftarrow> sleb_loop m 0 0 ptr;
     Some (if shift < 64 \<and> b AND 0x40 \<noteq> 0 then result OR push_bit shift (- 1) else result, p)
   }"

section \<open>Fixed-width words and pointer encodings\<close>

definition DW_EH_PE_PTR :: u8 where "DW_EH_PE_PTR = 0x00"
definition DW_EH_PE_ULEB128 :: u8 where "DW_EH_PE_ULEB128 = 0x01"
definition DW_EH_PE_UDATA2 :: u8 where "DW_EH_PE_UDATA2 = 0x02"
definition DW_EH_PE_UDATA4 :: u8 where "DW_EH_PE_UDATA4 = 0x03"
definition DW_EH_PE_UDATA8 :: u8 where "DW_EH_PE_UDATA8 = 0x04"
definition DW_EH_PE_SLEB128 :: u8 where "DW_EH_PE_SLEB128 = 0x09"
definition DW_EH_PE_SDATA2 :: u8 where "DW_EH_PE_SDATA2 = 0x0A"
definition DW_EH_PE_SDATA4 :: u8 where "DW_EH_PE_SDATA4 = 0x0B"
definition DW_EH_PE_SDATA8 :: u8 where "DW_EH_PE_SDATA8 = 0x0C"
definition DW_EH_PE_PCREL :: u8 where "DW_EH_PE_PCREL = 0x10"
definition DW_EH_PE_OMIT :: u8 where "DW_EH_PE_OMIT = 0xFF"
definition DW_EH_PE_INDIRECT :: u8 where "DW_EH_PE_INDIRECT = 0x80"

lemmas dw_consts =
  DW_EH_PE_PTR_def DW_EH_PE_ULEB128_def DW_EH_PE_UDATA2_def DW_EH_PE_UDATA4_def DW_EH_PE_UDATA8_def
  DW_EH_PE_SLEB128_def DW_EH_PE_SDATA2_def DW_EH_PE_SDATA4_def DW_EH_PE_SDATA8_def
  DW_EH_PE_PCREL_def DW_EH_PE_OMIT_def DW_EH_PE_INDIRECT_def

text \<open>\<open>memcpy(&v, p, n)\<close> into an unsigned word, on a little-endian target.\<close>

fun read_le :: "byte_mem \<Rightarrow> nat \<Rightarrow> addr \<Rightarrow> u64 option" where
  "read_le m 0 p = Some 0"
| "read_le m (Suc n) p = do {
     b \<leftarrow> m p;
     v \<leftarrow> read_le m n (p + 1);
     Some (ucast b OR push_bit 8 v)
   }"

definition read_indirect_uintptr :: "byte_mem \<Rightarrow> addr \<Rightarrow> u64 option" where
  "read_indirect_uintptr m address = read_le m 8 address"

definition read_unsigned :: "byte_mem \<Rightarrow> nat \<Rightarrow> addr \<Rightarrow> (u64 \<times> addr) option" where
  "read_unsigned m n p = map_option (\<lambda>v. (v, p + of_nat n)) (read_le m n p)"

text \<open>\<open>int16_t\<close> and \<open>int32_t\<close> converted to \<open>uintptr_t\<close>: the sign is extended.\<close>

definition read_signed :: "byte_mem \<Rightarrow> nat \<Rightarrow> addr \<Rightarrow> (u64 \<times> addr) option" where
  "read_signed m n p = map_option (\<lambda>v. (signed_take_bit (8 * n - 1) v, p + of_nat n)) (read_le m n p)"

text \<open>The \<open>switch (encoding & 0x0F)\<close>; the default case aborts.\<close>

definition read_format :: "byte_mem \<Rightarrow> addr \<Rightarrow> u8 \<Rightarrow> (u64 \<times> addr) option" where
  "read_format m p fmt =
     (if fmt = DW_EH_PE_PTR then read_unsigned m 8 p
      else if fmt = DW_EH_PE_ULEB128 then read_uleb m p
      else if fmt = DW_EH_PE_UDATA2 then read_unsigned m 2 p
      else if fmt = DW_EH_PE_UDATA4 then read_unsigned m 4 p
      else if fmt = DW_EH_PE_UDATA8 then read_unsigned m 8 p
      else if fmt = DW_EH_PE_SLEB128 then read_sleb m p
      else if fmt = DW_EH_PE_SDATA2 then read_signed m 2 p
      else if fmt = DW_EH_PE_SDATA4 then read_signed m 4 p
      else if fmt = DW_EH_PE_SDATA8 then read_signed m 8 p
      else None)"

definition read_encoded :: "byte_mem \<Rightarrow> addr \<Rightarrow> u8 \<Rightarrow> (u64 \<times> addr) option" where
  "read_encoded m ptr encoding =
     (if encoding = DW_EH_PE_OMIT then Some (0, ptr)
      else do {
        (value, p) \<leftarrow> read_format m ptr (encoding AND 0x0F);
        let value = (if encoding AND 0x70 = DW_EH_PE_PCREL then value + ptr else value);
        value \<leftarrow> (if encoding AND DW_EH_PE_INDIRECT \<noteq> 0 then read_indirect_uintptr m value else Some value);
        Some (value, p)
      })"

definition encoding_size :: "u8 \<Rightarrow> u64" where
  "encoding_size encoding =
     (let fmt = encoding AND 0x0F in
      if fmt \<in> {DW_EH_PE_UDATA2, DW_EH_PE_SDATA2} then 2
      else if fmt \<in> {DW_EH_PE_UDATA4, DW_EH_PE_SDATA4} then 4
      else if fmt \<in> {DW_EH_PE_UDATA8, DW_EH_PE_SDATA8} then 8
      else sizeof_ptr)"

section \<open>Bytes in memory\<close>

fun bytes_at :: "byte_mem \<Rightarrow> addr \<Rightarrow> u8 list \<Rightarrow> bool" where
  "bytes_at m p [] = True"
| "bytes_at m p (b # bs) = (m p = Some b \<and> bytes_at m (p + 1) bs)"

lemma bytes_at_append: "bytes_at m p (xs @ ys) \<longleftrightarrow> bytes_at m p xs \<and> bytes_at m (p + of_nat (length xs)) ys"
  by (induction xs arbitrary: p) (auto simp: add.assoc)

text \<open>A LEB128 number: continuation bytes, then one byte without the top bit.\<close>

definition leb_bytes :: "u8 list \<Rightarrow> u8 \<Rightarrow> bool" where
  "leb_bytes cs b \<longleftrightarrow> (\<forall>c \<in> set cs. c AND 0x80 \<noteq> 0) \<and> b AND 0x80 = 0"

text \<open>The number the low seven bits of the bytes spell, least significant group first.\<close>

fun leb_value :: "u8 list \<Rightarrow> nat" where
  "leb_value [] = 0"
| "leb_value (b # bs) = unat (b AND 0x7F) + 128 * leb_value bs"

section \<open>What the LEB128 readers return\<close>

text \<open>The accumulator after a run of bytes.\<close>

fun leb_fold :: "u64 \<Rightarrow> nat \<Rightarrow> u8 list \<Rightarrow> u64" where
  "leb_fold r s [] = r"
| "leb_fold r s (b # bs) = leb_fold (leb_add r s b) (next_shift s) bs"

lemma uleb_loop_fold:
  assumes "leb_bytes cs b" "bytes_at m p (cs @ [b])"
  shows "uleb_loop m r s p = Some (leb_fold r s (cs @ [b]), p + of_nat (length cs) + 1)"
  using assms
proof (induction cs arbitrary: r s p)
  case Nil
  then show ?case by (subst uleb_loop.simps) (simp add: leb_bytes_def)
next
  case (Cons c cs)
  then show ?case by (subst uleb_loop.simps) (simp add: leb_bytes_def add.assoc add.commute)
qed

lemma sleb_loop_fold:
  assumes "leb_bytes cs b" "bytes_at m p (cs @ [b])"
  shows "sleb_loop m r s p =
    Some (leb_fold r s (cs @ [b]), (next_shift ^^ Suc (length cs)) s, b, p + of_nat (length cs) + 1)"
  using assms
proof (induction cs arbitrary: r s p)
  case Nil
  then show ?case by (subst sleb_loop.simps) (simp add: leb_bytes_def)
next
  case (Cons c cs)
  then show ?case
    by (subst sleb_loop.simps) (simp add: leb_bytes_def add.assoc add.commute flip: funpow_swap1)
qed

text \<open>The shift saturates at 64 from the tenth byte on.\<close>

lemma next_shift_min: "next_shift (min 64 (7 * k)) = min 64 (7 * Suc k)"
  by (auto simp: next_shift_def min_def)

lemma next_shift_pow: "(next_shift ^^ n) 0 = min 64 (7 * n)"
  by (induction n) (auto simp: next_shift_min [simplified])

lemma or_push_bit_add:
  fixes r w :: u64
  assumes "unat r < 2 ^ s"
  shows "r OR push_bit s w = r + push_bit s w"
proof -
  have "take_bit s r = r"
    using assms by (simp add: word_unat_eq_iff unsigned_take_bit_eq take_bit_nat_eq_self)
  then have "\<not> bit r n" if "s \<le> n" for n
    using that by (metis bit_take_bit_iff not_le)
  then have "r AND push_bit s w = 0"
    by (auto simp: bit_eq_iff bit_simps)
  then show ?thesis by (simp add: disjunctive_add_eq_or)
qed

lemma low_seven_less: "unat ((b :: u8) AND 0x7F) < 128"
proof -
  have "b AND 0x7F = take_bit 7 b" by (simp add: take_bit_eq_mask mask_eq_exp_minus_1)
  then have "unat (b AND 0x7F) = take_bit 7 (unat b)" by (simp only: unsigned_take_bit_eq)
  then show ?thesis by (simp add: take_bit_eq_mod)
qed

lemma two_pow_ge_64: "64 \<le> n \<Longrightarrow> (2 :: u64) ^ n = 0"
  by (auto dest!: le_Suc_ex simp: power_add)

lemma unat_of_nat_le: "unat (of_nat n :: u64) \<le> n"
  by (simp add: unat_of_nat)

lemma leb_add_value:
  assumes "unat r < 2 ^ (7 * k)"
  shows "leb_add r (min 64 (7 * k)) b = r + of_nat (2 ^ (7 * k) * unat (b AND 0x7F))"
proof (cases "7 * k < 64")
  case True
  with assms or_push_bit_add [of r "7 * k" "ucast (b AND 0x7F)"] show ?thesis
    by (simp add: leb_add_def push_bit_eq_mult ac_simps)
next
  case False
  then show ?thesis by (simp add: leb_add_def two_pow_ge_64)
qed

lemma leb_add_bound:
  fixes r :: u64
  assumes "unat r < 2 ^ (7 * k)"
  shows "unat (r + of_nat (2 ^ (7 * k) * unat ((b :: u8) AND 0x7F))) < 2 ^ (7 * Suc k)"
proof -
  let ?v = "unat (b AND 0x7F)"
  have "unat (r + of_nat (2 ^ (7 * k) * ?v)) \<le> unat r + 2 ^ (7 * k) * ?v"
    using unat_of_nat_le [of "2 ^ (7 * k) * ?v"]
    by (simp only: unat_word_ariths(1)) (meson add_left_mono le_trans mod_less_eq_dividend)
  also have "\<dots> < 2 ^ (7 * k) + 2 ^ (7 * k) * ?v" using assms by simp
  also have "\<dots> = 2 ^ (7 * k) * Suc ?v" by simp
  also have "\<dots> \<le> 2 ^ (7 * k) * 128" using low_seven_less [of b] by (intro mult_left_mono) auto
  also have "\<dots> = 2 ^ (7 * Suc k)" by (simp add: power_add)
  finally show ?thesis .
qed

lemma leb_fold_value:
  "unat r < 2 ^ (7 * k) \<Longrightarrow>
    leb_fold r (min 64 (7 * k)) bs = r + of_nat (2 ^ (7 * k) * leb_value bs)"
proof (induction bs arbitrary: r k)
  case (Cons b bs)
  let ?r = "r + of_nat (2 ^ (7 * k) * unat (b AND 0x7F))"
  have "leb_fold r (min 64 (7 * k)) (b # bs) = leb_fold ?r (min 64 (7 * Suc k)) bs"
    by (simp add: leb_add_value [OF Cons.prems] next_shift_min del: mult_Suc_right)
  also have "\<dots> = ?r + of_nat (2 ^ (7 * Suc k) * leb_value bs)"
    by (rule Cons.IH [OF leb_add_bound [OF Cons.prems]])
  finally show ?case by (simp add: power_add algebra_simps)
qed simp

lemma read_uleb_value:
  assumes "leb_bytes cs b" "bytes_at m p (cs @ [b])"
  shows "read_uleb m p = Some (of_nat (leb_value (cs @ [b])), p + of_nat (length cs) + 1)"
  using uleb_loop_fold [OF assms, of 0 0] leb_fold_value [of 0 0 "cs @ [b]"]
  by (simp add: read_uleb_def)

lemma leb_value_bound: "leb_value bs < 2 ^ (7 * length bs)"
proof (induction bs)
  case (Cons b bs)
  have "leb_value (b # bs) < 128 + 128 * leb_value bs" using low_seven_less [of b] by simp
  also have "\<dots> = 128 * Suc (leb_value bs)" by simp
  also have "\<dots> \<le> 128 * 2 ^ (7 * length bs)" using Cons.IH by (intro mult_left_mono) auto
  finally show ?case by (simp add: power_add)
qed simp

lemma read_sleb_value:
  assumes "leb_bytes cs b" "bytes_at m p (cs @ [b])"
  shows "read_sleb m p =
    Some (of_int (int (leb_value (cs @ [b])) - (if b AND 0x40 = 0 then 0 else 2 ^ (7 * Suc (length cs)))),
          p + of_nat (length cs) + 1)"
proof -
  let ?bs = "cs @ [b]" let ?n = "7 * Suc (length cs)"
  have fold: "leb_fold 0 0 ?bs = of_nat (leb_value ?bs)"
    using leb_fold_value [of 0 0 ?bs] by simp
  have or: "of_nat (leb_value ?bs) OR push_bit ?n (- 1) = (of_nat (leb_value ?bs) - 2 ^ ?n :: u64)"
    if "?n < 64"
  proof -
    have "leb_value ?bs < 2 ^ ?n" using leb_value_bound [of ?bs] by simp
    then have "unat (of_nat (leb_value ?bs) :: u64) < 2 ^ ?n"
      using unat_of_nat_le le_less_trans by blast
    from or_push_bit_add [OF this, of "- 1"] show ?thesis by (simp add: push_bit_eq_mult)
  qed
  have "(2 :: u64) ^ ?n = 0" if "\<not> ?n < 64" using that two_pow_ge_64 [of ?n] by simp
  with or show ?thesis
    using sleb_loop_fold [OF assms, of 0 0]
    by (auto simp: read_sleb_def fold next_shift_pow min_def simp del: funpow.simps mult_Suc_right)
qed

section \<open>Round trips\<close>

text \<open>The shortest encodings, as an assembler writes them.\<close>

fun uleb_encode :: "nat \<Rightarrow> u8 list" where
  "uleb_encode n = (if n < 128 then [of_nat n] else of_nat (128 + n mod 128) # uleb_encode (n div 128))"

function sleb_encode :: "int \<Rightarrow> u8 list" where
  "sleb_encode v =
     (if - 64 \<le> v \<and> v < 64 then [of_int (v mod 128)]
      else of_int (128 + v mod 128) # sleb_encode (v div 128))"
  by pat_completeness auto
termination
  by (relation "measure (\<lambda>v. nat \<bar>v\<bar>)") auto

declare uleb_encode.simps [simp del] sleb_encode.simps [simp del]

lemma byte_parts:
  assumes "x < 128"
  shows "(of_nat x :: u8) AND 0x80 = 0" "unat ((of_nat x :: u8) AND 0x7F) = x"
    "(of_nat (128 + x) :: u8) AND 0x80 \<noteq> 0" "unat ((of_nat (128 + x) :: u8) AND 0x7F) = x"
    "(of_nat x :: u8) AND 0x40 = 0 \<longleftrightarrow> x < 64"
proof -
  have "\<forall>x \<in> set [0 ..< 128].
      (of_nat x :: u8) AND 0x80 = 0 \<and> unat ((of_nat x :: u8) AND 0x7F) = x
      \<and> (of_nat (128 + x) :: u8) AND 0x80 \<noteq> 0 \<and> unat ((of_nat (128 + x) :: u8) AND 0x7F) = x
      \<and> ((of_nat x :: u8) AND 0x40 = 0 \<longleftrightarrow> x < 64)"
    by code_simp
  with assms show "(of_nat x :: u8) AND 0x80 = 0" "unat ((of_nat x :: u8) AND 0x7F) = x"
    "(of_nat (128 + x) :: u8) AND 0x80 \<noteq> 0" "unat ((of_nat (128 + x) :: u8) AND 0x7F) = x"
    "(of_nat x :: u8) AND 0x40 = 0 \<longleftrightarrow> x < 64"
    by auto
qed

lemma uleb_encode_shape:
  "\<exists>cs b. uleb_encode n = cs @ [b] \<and> leb_bytes cs b \<and> leb_value (cs @ [b]) = n"
proof (induction n rule: uleb_encode.induct)
  case (1 n)
  show ?case
  proof (cases "n < 128")
    case True
    with byte_parts [OF True] show ?thesis
      by (intro exI [of _ "[]"]) (simp add: uleb_encode.simps leb_bytes_def)
  next
    case False
    with 1 obtain cs b where r: "uleb_encode (n div 128) = cs @ [b]" "leb_bytes cs b"
      "leb_value (cs @ [b]) = n div 128" by auto
    let ?c = "of_nat (128 + n mod 128) :: u8"
    have c: "?c AND 0x80 \<noteq> 0" "unat (?c AND 0x7F) = n mod 128" using byte_parts [of "n mod 128"] by simp_all
    have "uleb_encode n = (?c # cs) @ [b]" using False r by (subst uleb_encode.simps) simp
    moreover have "leb_bytes (?c # cs) b" using c r by (simp add: leb_bytes_def)
    moreover have "leb_value ((?c # cs) @ [b]) = n" using c r by simp
    ultimately show ?thesis by blast
  qed
qed

text \<open>The signed value of a terminated byte string.\<close>

definition sleb_value :: "u8 list \<Rightarrow> u8 \<Rightarrow> int" where
  "sleb_value cs b =
     int (leb_value (cs @ [b])) - (if b AND 0x40 = 0 then 0 else 2 ^ (7 * Suc (length cs)))"

lemma sleb_encode_shape:
  "\<exists>cs b. sleb_encode v = cs @ [b] \<and> leb_bytes cs b \<and> sleb_value cs b = v"
proof (induction v rule: sleb_encode.induct)
  case (1 v)
  have small: "nat (v mod 128) < 128" by simp
  note parts = byte_parts [OF small]
  show ?case
  proof (cases "- 64 \<le> v \<and> v < 64")
    case True
    have "v mod 128 = (if v < 0 then v + 128 else v)"
    proof (cases "v < 0")
      case neg: True
      have "(v + 128) mod 128 = v + 128" using True neg by (intro mod_pos_pos_trivial) auto
      with neg show ?thesis by simp
    qed (use True in auto)
    then have "v mod 128 - (if nat (v mod 128) < 64 then 0 else 128) = v"
      using True by auto
    moreover have "uint ((of_int (v mod 128) :: u8) AND 0x7F) = v mod 128"
      using arg_cong [OF parts(2), of int] by simp
    ultimately show ?thesis using parts True
      by (intro exI [of _ "[]"]) (simp add: sleb_encode.simps leb_bytes_def sleb_value_def split: if_splits)
  next
    case False
    with 1 obtain cs b where r: "sleb_encode (v div 128) = cs @ [b]" "leb_bytes cs b"
      "sleb_value cs b = v div 128" by auto
    let ?c = "of_int (128 + v mod 128) :: u8"
    have c: "?c AND 0x80 \<noteq> 0" "int (unat (?c AND 0x7F)) = v mod 128" using parts by simp_all
    have "sleb_encode v = (?c # cs) @ [b]" using False r by (subst sleb_encode.simps) auto
    moreover have "leb_bytes (?c # cs) b" using c r by (simp add: leb_bytes_def)
    moreover have "sleb_value (?c # cs) b = v mod 128 + 128 * sleb_value cs b"
      using c by (simp add: sleb_value_def power_add algebra_simps)
    ultimately show ?thesis using r by (metis mod_mult_div_eq add.commute)
  qed
qed

text \<open>C40: the LEB128 readers decode every number from the bytes an assembler emits for it, all 64
  bits and the sign, and leave the pointer just behind them.\<close>

theorem leb128_roundtrip:
  "(bytes_at m p (uleb_encode (unat n)) \<longrightarrow>
      read_uleb m p = Some (n, p + of_nat (length (uleb_encode (unat n)))))
   \<and> (bytes_at m p (sleb_encode (sint v)) \<longrightarrow>
      read_sleb m p = Some (v, p + of_nat (length (sleb_encode (sint v)))))"
proof -
  obtain cs b where u: "uleb_encode (unat n) = cs @ [b]" "leb_bytes cs b" "leb_value (cs @ [b]) = unat n"
    using uleb_encode_shape by blast
  obtain ds d where s: "sleb_encode (sint v) = ds @ [d]" "leb_bytes ds d" "sleb_value ds d = sint v"
    using sleb_encode_shape by blast
  from u s read_uleb_value [of cs b m p] read_sleb_value [of ds d m p] show ?thesis
    by (simp add: sleb_value_def add.assoc del: leb_value.simps of_int_diff)
qed


text \<open>A memory that holds a list of bytes from an address on.\<close>

definition mem_of :: "addr \<Rightarrow> u8 list \<Rightarrow> byte_mem" where
  "mem_of base bs a = (if unat (a - base) < length bs then Some (bs ! unat (a - base)) else None)"

theorem leb128_roundtrip_witness:
  "read_uleb (mem_of 0 (uleb_encode 624485)) 0 = Some (624485, 3)
   \<and> read_sleb (mem_of 0 (sleb_encode (- 123456))) 0 = Some (- 123456, 3)"
proof -
  have u: "uleb_encode 624485 = [0xE5, 0x8E, 0x26]" by (simp add: uleb_encode.simps)
  have s: "sleb_encode (- 123456) = [0xC0, 0xBB, 0x78]" by (simp add: sleb_encode.simps)
  have "bytes_at (mem_of 0 [0xE5, 0x8E, 0x26]) 0 (uleb_encode (unat (624485 :: u64)))"
    by (simp add: u mem_of_def)
  moreover have "bytes_at (mem_of 0 [0xC0, 0xBB, 0x78]) 0 (sleb_encode (sint (- 123456 :: 64 word)))"
    by (simp add: s mem_of_def)
  ultimately show ?thesis
    using leb128_roundtrip [of "mem_of 0 [0xE5, 0x8E, 0x26]" 0 624485]
      leb128_roundtrip [where m = "mem_of 0 [0xC0, 0xBB, 0x78]" and p = 0 and v = "- 123456"]
    by (simp add: u s)
qed

section \<open>Fixed-width encodings\<close>

text \<open>The bytes of a word in memory order.\<close>

fun le_bytes :: "nat \<Rightarrow> u64 \<Rightarrow> u8 list" where
  "le_bytes 0 w = []"
| "le_bytes (Suc n) w = ucast w # le_bytes n (drop_bit 8 w)"

lemma le_bytes_numeral: "le_bytes (numeral k) w = ucast w # le_bytes (pred_numeral k) (drop_bit 8 w)"
  by (simp add: numeral_eq_Suc)

lemma read_le_bytes: "bytes_at m p (le_bytes n w) \<Longrightarrow> read_le m n p = Some (take_bit (8 * n) w)"
proof (induction n arbitrary: p w)
  case (Suc n)
  have "(ucast (ucast w :: u8) :: u64) OR push_bit 8 (take_bit (8 * n) (drop_bit 8 w)) = take_bit (8 * Suc n) w"
    by (rule bit_word_eqI) (auto simp: bit_simps)
  with Suc.IH [of "p + 1" "drop_bit 8 w"] Suc.prems show ?case by simp
qed simp

definition fixed_formats :: "u8 list" where
  "fixed_formats = [DW_EH_PE_PTR, DW_EH_PE_UDATA2, DW_EH_PE_UDATA4, DW_EH_PE_UDATA8,
     DW_EH_PE_SDATA2, DW_EH_PE_SDATA4, DW_EH_PE_SDATA8]"

text \<open>What a field of the given encoding holds of a word: its low bits, signed or not.\<close>

definition stored_value :: "u8 \<Rightarrow> u64 \<Rightarrow> u64" where
  "stored_value encoding w =
     (let n = 8 * unat (encoding_size encoding) in
      if encoding AND 0x0F \<in> {DW_EH_PE_SDATA2, DW_EH_PE_SDATA4, DW_EH_PE_SDATA8}
      then signed_take_bit (n - 1) w else take_bit n w)"

lemma signed_take_take: "0 < n \<Longrightarrow> signed_take_bit (n - 1) (take_bit n (w :: u64)) = signed_take_bit (n - 1) w"
  by (rule bit_word_eqI) (auto simp: bit_simps min_def)

text \<open>A pointer of a fixed-width encoding reads back as the word stored, truncated or
  sign-extended, relative to its own address where the encoding says so, and it takes
  \<open>encoding_size\<close> bytes, the stride with which the type table of an LSDA is indexed.\<close>

theorem read_encoded_fixed:
  assumes "encoding AND 0x0F \<in> set fixed_formats" "encoding AND DW_EH_PE_INDIRECT = 0"
    and "bytes_at m p (le_bytes (unat (encoding_size encoding)) w)"
  shows "read_encoded m p encoding =
    Some (stored_value encoding w + (if encoding AND 0x70 = DW_EH_PE_PCREL then p else 0),
          p + encoding_size encoding)"
proof -
  have "encoding \<noteq> DW_EH_PE_OMIT" using assms(2) by (auto simp: dw_consts)
  moreover have "read_format m p (encoding AND 0x0F) = Some (stored_value encoding w, p + encoding_size encoding)"
    using assms(1,3)
    by (auto simp: fixed_formats_def dw_consts encoding_size_def read_format_def read_unsigned_def
        read_signed_def stored_value_def signed_take_take [of 16, simplified]
        signed_take_take [of 32, simplified] signed_take_take [of 64, simplified]
        dest!: read_le_bytes)
  ultimately show ?thesis using assms(2) by (simp add: read_encoded_def)
qed

text \<open>A signed 4-byte offset relative to its own address: the usual entry of a type table.\<close>

theorem read_encoded_fixed_witness:
  "read_encoded (mem_of 0x1000 [0xF0, 0xFF, 0xFF, 0xFF]) 0x1000 0x1B = Some (0xFF0, 0x1004)"
proof -
  have sz: "encoding_size 0x1B = 4" by (simp add: encoding_size_def dw_consts)
  have "read_encoded (mem_of 0x1000 [0xF0, 0xFF, 0xFF, 0xFF]) 0x1000 0x1B =
      Some (stored_value 0x1B (- 16) + (if 0x1B AND 0x70 = DW_EH_PE_PCREL then 0x1000 else 0), 0x1000 + encoding_size 0x1B)"
    by (rule read_encoded_fixed)
      (simp_all add: sz fixed_formats_def dw_consts mem_of_def le_bytes_numeral)
  moreover have "stored_value 0x1B (- 16) = - 16" by (simp add: stored_value_def sz dw_consts)
  ultimately show ?thesis by (simp add: sz dw_consts)
qed

end
