(* ===== verification/SF_Lsda.thy ===== *)
theory SF_Lsda
  imports SF_Exceptions SF_Leb
begin

unbundle bit_operations_syntax

text \<open>
  Which handler a frame has for an exception (\<open>Runtime/src/exceptions/exceptions.c\<close>): the match of a handler's
  type against the class of the object, the walk over the tables the compiler emits for a function
  (the call sites, the action records, the type table), and the personality function that answers the
  unwinder.  The unwinder's context is a record of what the code asks it for and of the registers it sets.
\<close>

section \<open>Types of handlers\<close>

text \<open>A C string in memory.\<close>

partial_function (option) c_string :: "byte_mem \<Rightarrow> addr \<Rightarrow> string option" where
  "c_string m p =
     Option.bind (m p) (\<lambda>b. if b = 0 then Some []
       else Option.bind (c_string m (p + 1)) (\<lambda>s. Some (char_of (unat b) # s)))"

declare c_string.simps [code]

text \<open>The loop of \<open>class_name_matches\<close>, which follows the superclass pointers as they are.\<close>

partial_function (option) class_name_loop :: "class_mem \<Rightarrow> string \<Rightarrow> addr \<Rightarrow> bool option" where
  "class_name_loop m wanted cls =
     (if cls = nullptr then Some False
      else Option.bind (m cls) (\<lambda>c. if c_name c = Some wanted then Some True else class_name_loop m wanted (superclass c)))"

declare class_name_loop.simps [code]

definition class_name_matches :: "runtime \<Rightarrow> addr \<Rightarrow> string \<Rightarrow> bool option" where
  "class_name_matches rt object wanted =
     (if object = nullptr then Some False
      else do { cls \<leftarrow> object_class_of rt object; class_name_loop (l_classes (rt_loader rt)) wanted cls })"

definition exception_matches_type :: "byte_mem \<Rightarrow> exc_state \<Rightarrow> addr \<Rightarrow> addr \<Rightarrow> bool option" where
  "exception_matches_type m st exception_object type_name =
     (if exception_object = nullptr \<or> type_name = nullptr then Some False
      else do {
        exc \<leftarrow> sf_exception_resolve st exception_object;
        if exc = nullptr then Some False
        else do {
          name \<leftarrow> c_string m type_name;
          if name = ''@id'' then Some True
          else do { e \<leftarrow> x_excs st exc; class_name_matches (x_rt st) (x_object e) name }
        }
      })"

section \<open>The language-specific data of a frame\<close>

record SFLandingInfo =
  landing_pad :: u64
  li_selector :: "32 word"  \<comment> \<open>\<open>int\<close>\<close>
  has_cleanup :: bool
  has_handler :: bool

record lsda_tables =
  lpstart :: u64
  ttype_encoding :: u8
  class_info :: addr
  call_site_encoding :: u8
  call_site_table :: addr
  action_table :: addr

definition read_lsda_header :: "byte_mem \<Rightarrow> addr \<Rightarrow> u64 \<Rightarrow> lsda_tables option" where
  "read_lsda_header m lsda func_start = do {
     lpstart_encoding \<leftarrow> m lsda;
     let p = lsda + 1;
     (start, p) \<leftarrow> (if lpstart_encoding \<noteq> DW_EH_PE_OMIT then read_encoded m p lpstart_encoding else Some (func_start, p));
     ttype_enc \<leftarrow> m p;
     let p = p + 1;
     (info, p) \<leftarrow> (if ttype_enc \<noteq> DW_EH_PE_OMIT
                  then do { (ttype_offset, p) \<leftarrow> read_uleb m p; Some (p + ttype_offset, p) } else Some (nullptr, p));
     call_site_enc \<leftarrow> m p;
     (call_site_table_len, p) \<leftarrow> read_uleb m (p + 1);
     Some \<lparr>lpstart = start, ttype_encoding = ttype_enc, class_info = info, call_site_encoding = call_site_enc,
       call_site_table = p, action_table = p + call_site_table_len\<rparr>
   }"

type_synonym call_site = "u64 \<times> u64 \<times> u64 \<times> u64"

definition read_call_site :: "byte_mem \<Rightarrow> u8 \<Rightarrow> addr \<Rightarrow> (call_site \<times> addr) option" where
  "read_call_site m enc p = do {
     (cs_start, p) \<leftarrow> read_encoded m p enc;
     (cs_len, p) \<leftarrow> read_encoded m p enc;
     (cs_lp, p) \<leftarrow> read_encoded m p enc;
     (cs_action, p) \<leftarrow> read_uleb m p;
     Some ((cs_start, cs_len, cs_lp, cs_action), p)
   }"

text \<open>The two numbers of an action record, with the address of the second.\<close>

definition read_action :: "byte_mem \<Rightarrow> addr \<Rightarrow> (u64 \<times> addr \<times> u64) option" where
  "read_action m record = do {
     (tti, next_field) \<leftarrow> read_sleb m record;
     (next_offset, cursor) \<leftarrow> read_sleb m next_field;
     Some (tti, next_field, next_offset)
   }"

text \<open>The pointer in the type table for a type filter.\<close>

definition type_entry :: "byte_mem \<Rightarrow> lsda_tables \<Rightarrow> u64 \<Rightarrow> addr option" where
  "type_entry m t tti =
     map_option fst (read_encoded m (class_info t - tti * encoding_size (ttype_encoding t)) (ttype_encoding t))"

text \<open>The loop over the action records.  \<open>Some None\<close> stands for the return of 0.\<close>

partial_function (option) action_loop ::
  "byte_mem \<Rightarrow> (addr \<Rightarrow> bool option) \<Rightarrow> lsda_tables \<Rightarrow> SFLandingInfo \<Rightarrow> addr \<Rightarrow> SFLandingInfo option option" where
  "action_loop m matches t out record =
     (if record = nullptr then Some (if has_cleanup out then Some out else None)
      else Option.bind (read_action m record) (\<lambda>a.
        case a of (tti, next_field, next_offset) \<Rightarrow>
        Option.bind
          (if sint tti > 0 \<and> class_info t \<noteq> nullptr then Option.bind (type_entry m t tti) matches else Some False)
          (\<lambda>matched.
            if matched then Some (Some (out\<lparr>li_selector := ucast tti, has_handler := True\<rparr>))
            else let out = (if tti = 0 then out\<lparr>has_cleanup := True\<rparr> else out) in
              if next_offset = 0 then Some (if has_cleanup out then Some out else None)
              else action_loop m matches t out (next_field + next_offset))))"

declare action_loop.simps [code]

partial_function (option) call_site_loop ::
  "byte_mem \<Rightarrow> (addr \<Rightarrow> bool option) \<Rightarrow> lsda_tables \<Rightarrow> u64 \<Rightarrow> addr \<Rightarrow> SFLandingInfo option option" where
  "call_site_loop m matches t ip_offset p =
     (if p < action_table t
      then Option.bind (read_call_site m (call_site_encoding t) p) (\<lambda>r.
        case r of ((cs_start, cs_len, cs_lp, cs_action), p) \<Rightarrow>
          if ip_offset < cs_start \<or> ip_offset \<ge> cs_start + cs_len then call_site_loop m matches t ip_offset p
          else if cs_lp = 0 then Some None
          else let out = \<lparr>landing_pad = lpstart t + cs_lp, li_selector = 0, has_cleanup = False, has_handler = False\<rparr> in
            if cs_action = 0 then Some (Some (out\<lparr>has_cleanup := True\<rparr>))
            else action_loop m matches t out (action_table t + cs_action - 1))
      else Some None)"

declare call_site_loop.simps [code]

definition parse_lsda_for_ip_raw ::
  "byte_mem \<Rightarrow> exc_state \<Rightarrow> addr \<Rightarrow> u64 \<Rightarrow> u64 \<Rightarrow> addr \<Rightarrow> SFLandingInfo option option" where
  "parse_lsda_for_ip_raw m st lsda func_start ip exception_object =
     (if lsda = nullptr then Some None
      else do {
        let ip = (if ip > func_start then ip - 1 else ip);
        let ip_offset = ip - func_start;
        t \<leftarrow> read_lsda_header m lsda func_start;
        call_site_loop m (exception_matches_type m st exception_object) t ip_offset (call_site_table t)
      })"

section \<open>The personality function\<close>

definition UA_SEARCH_PHASE :: u32 where "UA_SEARCH_PHASE = 1"
definition UA_CLEANUP_PHASE :: u32 where "UA_CLEANUP_PHASE = 2"
definition UA_HANDLER_FRAME :: u32 where "UA_HANDLER_FRAME = 4"

lemmas ua_defs = UA_SEARCH_PHASE_def UA_CLEANUP_PHASE_def UA_HANDLER_FRAME_def

datatype reason = URC_HANDLER_FOUND | URC_INSTALL_CONTEXT | URC_CONTINUE_UNWIND

definition personality_result :: "u32 \<Rightarrow> SFLandingInfo \<Rightarrow> reason" where
  "personality_result actions info =
     (if actions AND UA_SEARCH_PHASE \<noteq> 0 then (if has_handler info then URC_HANDLER_FOUND else URC_CONTINUE_UNWIND)
      else if actions AND UA_CLEANUP_PHASE = 0 then URC_CONTINUE_UNWIND
      else if (actions AND UA_HANDLER_FRAME \<noteq> 0 \<and> \<not> has_handler info \<and> \<not> has_cleanup info)
        \<or> (actions AND UA_HANDLER_FRAME = 0 \<and> \<not> has_cleanup info) then URC_CONTINUE_UNWIND
      else URC_INSTALL_CONTEXT)"

record unwind_context =
  u_lsda :: addr
  u_region_start :: u64
  u_ip :: u64
  u_gr0 :: u64
  u_gr1 :: u64

definition parse_lsda_for_ip :: "byte_mem \<Rightarrow> exc_state \<Rightarrow> unwind_context \<Rightarrow> addr \<Rightarrow> SFLandingInfo option option" where
  "parse_lsda_for_ip m st ctx exception_object =
     parse_lsda_for_ip_raw m st (u_lsda ctx) (u_region_start ctx) (u_ip ctx) exception_object"

definition sf_objc_personality_v0 :: "byte_mem \<Rightarrow> exc_state \<Rightarrow> u32 \<Rightarrow> addr \<Rightarrow> unwind_context \<Rightarrow> bool
    \<Rightarrow> (reason \<times> unwind_context \<times> exc_state) option" where
  "sf_objc_personality_v0 m st actions exception_object ctx returns_object =
     (if exception_object = nullptr then None
      else do {
        found \<leftarrow> parse_lsda_for_ip m st ctx exception_object;
        case found of None \<Rightarrow> Some (URC_CONTINUE_UNWIND, ctx, st)
        | Some info \<Rightarrow>
            if personality_result actions info \<noteq> URC_INSTALL_CONTEXT then Some (personality_result actions info, ctx, st)
            else do {
              exc \<leftarrow> sf_exception_resolve st exception_object;
              (val, st) \<leftarrow> (if returns_object \<and> exc \<noteq> nullptr
                 then do { e \<leftarrow> x_excs st exc; Some (x_object e, st\<lparr>g_gnu_current_exception := exc\<rparr>) }
                 else Some (exception_object, st));
              Some (URC_INSTALL_CONTEXT, ctx\<lparr>u_gr0 := val, u_gr1 := scast (li_selector info), u_ip := landing_pad info\<rparr>, st)
            }
      })"

definition gnustep_objc_personality_v0 :: "byte_mem \<Rightarrow> exc_state \<Rightarrow> u32 \<Rightarrow> addr \<Rightarrow> unwind_context
    \<Rightarrow> (reason \<times> unwind_context \<times> exc_state) option" where
  "gnustep_objc_personality_v0 m st actions exception_object ctx = sf_objc_personality_v0 m st actions exception_object ctx False"

definition gnu_objc_personality_v0 :: "byte_mem \<Rightarrow> exc_state \<Rightarrow> u32 \<Rightarrow> addr \<Rightarrow> unwind_context
    \<Rightarrow> (reason \<times> unwind_context \<times> exc_state) option" where
  "gnu_objc_personality_v0 m st actions exception_object ctx = sf_objc_personality_v0 m st actions exception_object ctx True"

section \<open>The type match\<close>

text \<open>A chain of superclass pointers that ends in the null pointer.\<close>

fun superclasses :: "class_mem \<Rightarrow> addr \<Rightarrow> addr list \<Rightarrow> bool" where
  "superclasses m cls [] \<longleftrightarrow> cls = nullptr"
| "superclasses m cls (c # cs) \<longleftrightarrow> cls = c \<and> c \<noteq> nullptr \<and> (case m c of None \<Rightarrow> False | Some d \<Rightarrow> superclasses m (superclass d) cs)"

lemma class_name_loop_chain:
  "superclasses m cls cs \<Longrightarrow>
     class_name_loop m wanted cls = Some (\<exists>c \<in> set cs. Option.bind (m c) c_name = Some wanted)"
proof (induction cs arbitrary: cls)
  case Nil
  then show ?case by (subst class_name_loop.simps) simp
next
  case (Cons c cs)
  then obtain d where "cls = c" "c \<noteq> nullptr" "m c = Some d" "superclasses m (superclass d) cs"
    by (auto split: option.splits)
  with Cons.IH show ?case by (subst class_name_loop.simps) auto
qed

text \<open>A handler takes an exception by its type.  For an exception of this runtime and a handler with a type,
  the match holds exactly when the handler's type is \<open>@id\<close> or names the class of the thrown object or one
  of its superclasses.\<close>

theorem handler_matches_class:
  assumes e: "x_excs st exc = Some e" "exception_class e = SF_EXCEPTION_CLASS" "exc \<noteq> nullptr"
    and type: "type_name \<noteq> nullptr" "c_string m type_name = Some name"
    and cls: "x_object e \<noteq> nullptr" "object_class_of (x_rt st) (x_object e) = Some cls"
      "superclasses (l_classes (rt_loader (x_rt st))) cls cs"
  shows "exception_matches_type m st exc type_name =
    Some (name = ''@id'' \<or> (\<exists>c \<in> set cs. Option.bind (l_classes (rt_loader (x_rt st)) c) c_name = Some name))"
  using resolve_record [OF e] assms
  by (simp add: exception_matches_type_def class_name_matches_def class_name_loop_chain [OF cls(3)])

section \<open>The tables and the choice they express\<close>

text \<open>The call sites from \<open>p\<close> to \<open>e\<close>, and the type filters of the chain of action records at \<open>r\<close>.\<close>

fun call_sites_at :: "byte_mem \<Rightarrow> u8 \<Rightarrow> addr \<Rightarrow> call_site list \<Rightarrow> addr \<Rightarrow> bool" where
  "call_sites_at m enc p [] e \<longleftrightarrow> p = e"
| "call_sites_at m enc p (cs # css) e \<longleftrightarrow> p < e
     \<and> (case read_call_site m enc p of None \<Rightarrow> False | Some (cs', q) \<Rightarrow> cs' = cs \<and> call_sites_at m enc q css e)"

fun actions_at :: "byte_mem \<Rightarrow> addr \<Rightarrow> u64 list \<Rightarrow> bool" where
  "actions_at m r [] \<longleftrightarrow> False"
| "actions_at m r (t # ts) \<longleftrightarrow> r \<noteq> nullptr
     \<and> (case read_action m r of None \<Rightarrow> False
        | Some (tti, nxt, off) \<Rightarrow> tti = t \<and> (off = 0 \<longleftrightarrow> ts = []) \<and> (ts \<noteq> [] \<longrightarrow> actions_at m (nxt + off) ts))"

definition covers :: "u64 \<Rightarrow> call_site \<Rightarrow> bool" where
  "covers off = (\<lambda>(s, l, lp, a). s \<le> off \<and> off < s + l)"

text \<open>What a chain of filters asks for, when \<open>f\<close> tells which of them match: the first that matches, with a
  cleanup if one comes before it; else a cleanup, if there is one.\<close>

definition chosen_action :: "(u64 \<Rightarrow> bool) \<Rightarrow> u64 \<Rightarrow> u64 list \<Rightarrow> SFLandingInfo option" where
  "chosen_action f pad ts =
     (case find (\<lambda>t. 0 <s t \<and> f t) ts of
        Some t \<Rightarrow> Some \<lparr>landing_pad = pad, li_selector = ucast t,
                   has_cleanup = (0 \<in> set (takeWhile (\<lambda>t. \<not> (0 <s t \<and> f t)) ts)), has_handler = True\<rparr>
      | None \<Rightarrow> if 0 \<in> set ts then Some \<lparr>landing_pad = pad, li_selector = 0, has_cleanup = True, has_handler = False\<rparr> else None)"

definition chosen_landing :: "(u64 \<Rightarrow> bool) \<Rightarrow> (u64 \<Rightarrow> u64 list) \<Rightarrow> u64 \<Rightarrow> u64 \<Rightarrow> call_site list \<Rightarrow> SFLandingInfo option" where
  "chosen_landing f chain start off css =
     (case find (covers off) css of None \<Rightarrow> None
      | Some (s, l, lp, a) \<Rightarrow>
          if lp = 0 then None
          else if a = 0 then Some \<lparr>landing_pad = start + lp, li_selector = 0, has_cleanup = True, has_handler = False\<rparr>
          else chosen_action f (start + lp) (chain a))"

definition filter_reads :: "byte_mem \<Rightarrow> (addr \<Rightarrow> bool option) \<Rightarrow> lsda_tables \<Rightarrow> (u64 \<Rightarrow> bool) \<Rightarrow> u64 list \<Rightarrow> bool" where
  "filter_reads m matches t f ts \<longleftrightarrow>
     (\<forall>tti \<in> set ts. 0 <s tti \<longrightarrow>
        (if class_info t \<noteq> nullptr then Option.bind (type_entry m t tti) matches = Some (f tti) else \<not> f tti))"

lemma sless_sint: "0 <s (t :: u64) \<longleftrightarrow> sint t > 0"
  by (simp add: word_sless_alt)

lemma action_loop_chain:
  "actions_at m r ts \<Longrightarrow> filter_reads m matches t f ts \<Longrightarrow> \<not> has_handler out \<Longrightarrow>
   action_loop m matches t out r = Some
     (case find (\<lambda>t. 0 <s t \<and> f t) ts of
        Some tti \<Rightarrow> Some (out\<lparr>li_selector := ucast tti, has_handler := True,
           has_cleanup := has_cleanup out \<or> 0 \<in> set (takeWhile (\<lambda>t. \<not> (0 <s t \<and> f t)) ts)\<rparr>)
      | None \<Rightarrow> if has_cleanup out \<or> 0 \<in> set ts then Some (out\<lparr>has_cleanup := True\<rparr>) else None)"
proof (induction ts arbitrary: r out)
  case (Cons tti ts)
  from Cons.prems(1) obtain nxt off where
    a: "r \<noteq> nullptr" "read_action m r = Some (tti, nxt, off)" "off = 0 \<longleftrightarrow> ts = []" "ts \<noteq> [] \<Longrightarrow> actions_at m (nxt + off) ts"
    by (auto split: option.splits)
  have match: "(if sint tti > 0 \<and> class_info t \<noteq> nullptr then Option.bind (type_entry m t tti) matches else Some False)
      = Some (0 <s tti \<and> f tti)"
    using Cons.prems(2) by (auto simp: filter_reads_def sless_sint)
  have rest: "filter_reads m matches t f ts" using Cons.prems(2) by (simp add: filter_reads_def)
  show ?case
  proof (cases "0 <s tti \<and> f tti")
    case True
    then have "action_loop m matches t out r = Some (Some (out\<lparr>li_selector := ucast tti, has_handler := True\<rparr>))"
      using a(1,2) match by (subst action_loop.simps) simp
    with True show ?thesis by simp
  next
    case False
    define out' where "out' = (if tti = 0 then out\<lparr>has_cleanup := True\<rparr> else out)"
    have c: "has_cleanup out' \<longleftrightarrow> has_cleanup out \<or> tti = 0" "\<not> has_handler out'"
      "out'\<lparr>has_cleanup := b\<rparr> = out\<lparr>has_cleanup := b\<rparr>" for b
      using Cons.prems(3) by (auto simp: out'_def)
    have match: "(if sint tti > 0 \<and> class_info t \<noteq> nullptr then Option.bind (type_entry m t tti) matches else Some False)
        = Some False" using match False by (simp only: simp_thms)
    have run: "action_loop m matches t out r = (if off = 0 then Some (if has_cleanup out' then Some out' else None)
        else action_loop m matches t out' (nxt + off))"
      using a(1,2) match False by (subst action_loop.simps) (simp add: out'_def)
    show ?thesis
    proof (cases "ts = []")
      case True
      have "out' = out\<lparr>has_cleanup := True\<rparr>" if "has_cleanup out'" using that by (cases out) (auto simp: out'_def split: if_splits)
      with True a(3) c(1) False run show ?thesis by auto
    next
      case ne: False
      have "action_loop m matches t out r = action_loop m matches t out' (nxt + off)" using ne a(3) run by simp
      also note Cons.IH [OF a(4) [OF ne] rest c(2)]
      finally show ?thesis using False by (cases "find (\<lambda>t. 0 <s t \<and> f t) ts") (auto simp: out'_def)
    qed
  qed
qed simp

lemma call_site_loop_sites:
  assumes "call_sites_at m (call_site_encoding t) p css (action_table t)"
    and "\<And>s l lp a. (s, l, lp, a) \<in> set css \<Longrightarrow> a \<noteq> 0 \<Longrightarrow>
      actions_at m (action_table t + a - 1) (chain a) \<and> filter_reads m matches t f (chain a)"
  shows "call_site_loop m matches t off p = Some (chosen_landing f chain (lpstart t) off css)"
  using assms
proof (induction css arbitrary: p)
  case Nil
  then show ?case by (subst call_site_loop.simps) (simp add: chosen_landing_def)
next
  case (Cons cs css)
  obtain s l lp a where cs: "cs = (s, l, lp, a)" by (cases cs)
  from Cons.prems(1) obtain q where q: "p < action_table t" "read_call_site m (call_site_encoding t) p = Some (cs, q)"
      "call_sites_at m (call_site_encoding t) q css (action_table t)" by (auto split: option.splits)
  have cov: "covers off (s, l, lp, a) \<longleftrightarrow> \<not> (off < s \<or> off \<ge> s + l)" by (auto simp: covers_def)
  show ?case
  proof (cases "off < s \<or> off \<ge> s + l")
    case True
    have "call_site_loop m matches t off q = Some (chosen_landing f chain (lpstart t) off css)"
      by (rule Cons.IH [OF q(3)]) (use Cons.prems(2) in auto)
    with q(1,2) True cov show ?thesis
      by (subst call_site_loop.simps) (simp add: cs chosen_landing_def)
  next
    case False
    have act: "a \<noteq> 0 \<Longrightarrow> actions_at m (action_table t + a - 1) (chain a) \<and> filter_reads m matches t f (chain a)"
      using Cons.prems(2) cs by auto
    let ?out = "\<lparr>landing_pad = lpstart t + lp, li_selector = 0, has_cleanup = False, has_handler = False\<rparr>"
    have "a \<noteq> 0 \<Longrightarrow> action_loop m matches t ?out (action_table t + a - 1) = Some (chosen_action f (lpstart t + lp) (chain a))"
      using act action_loop_chain [of m "action_table t + a - 1" "chain a" matches t f ?out]
      by (cases "find (\<lambda>t. 0 <s t \<and> f t) (chain a)") (auto simp: chosen_action_def)
    with False q(1,2) cov show ?thesis
      by (subst call_site_loop.simps) (auto simp: cs chosen_landing_def)
  qed
qed

text \<open>The tables of a frame, for the exception the unwinder asks about.\<close>

definition frame_tables :: "byte_mem \<Rightarrow> exc_state \<Rightarrow> unwind_context \<Rightarrow> addr \<Rightarrow> lsda_tables \<Rightarrow> call_site list \<Rightarrow> (u64 \<Rightarrow> u64 list)
    \<Rightarrow> (u64 \<Rightarrow> bool) \<Rightarrow> bool" where
  "frame_tables m st ctx exc t css chain f \<longleftrightarrow> u_lsda ctx \<noteq> nullptr
     \<and> read_lsda_header m (u_lsda ctx) (u_region_start ctx) = Some t
     \<and> call_sites_at m (call_site_encoding t) (call_site_table t) css (action_table t)
     \<and> (\<forall>(s, l, lp, a) \<in> set css. a \<noteq> 0 \<longrightarrow> actions_at m (action_table t + a - 1) (chain a)
          \<and> filter_reads m (exception_matches_type m st exc) t f (chain a))"

definition frame_offset :: "unwind_context \<Rightarrow> u64" where
  "frame_offset ctx = (if u_ip ctx > u_region_start ctx then u_ip ctx - 1 else u_ip ctx) - u_region_start ctx"

lemma parse_frame:
  assumes "frame_tables m st ctx exc t css chain f"
  shows "parse_lsda_for_ip m st ctx exc = Some (chosen_landing f chain (lpstart t) (frame_offset ctx) css)"
proof -
  have "call_site_loop m (exception_matches_type m st exc) t (frame_offset ctx) (call_site_table t)
      = Some (chosen_landing f chain (lpstart t) (frame_offset ctx) css)"
    by (rule call_site_loop_sites) (use assms in \<open>auto simp: frame_tables_def\<close>)
  with assms show ?thesis
    by (simp add: parse_lsda_for_ip_def parse_lsda_for_ip_raw_def frame_tables_def frame_offset_def Let_def)
qed

lemma chosen_enters: "chosen_landing f chain start off css = Some info \<Longrightarrow> has_handler info \<or> has_cleanup info"
  by (auto simp: chosen_landing_def chosen_action_def split: option.splits if_splits)

text \<open>The context in which a landing pad is entered.\<close>

definition landed :: "unwind_context \<Rightarrow> u64 \<Rightarrow> SFLandingInfo \<Rightarrow> unwind_context" where
  "landed ctx val info = ctx\<lparr>u_gr0 := val, u_gr1 := scast (li_selector info), u_ip := landing_pad info\<rparr>"

text \<open>C19: the personality function does what the tables of the frame say.  Of the call sites, the first that covers
  the instruction before the return address counts; of its filters, the first whose type matches the
  exception.  In the search phase the function reports a handler exactly when there is one, and changes
  nothing; in the cleanup phase it enters the chosen landing pad of the handler frame with the chosen
  selector, that of any other frame only for a cleanup, and lets the unwinder go on otherwise.\<close>

theorem personality_follows_tables:
  assumes "frame_tables m st ctx exc t css chain f"
    and e: "x_excs st exc = Some e" "exception_class e = SF_EXCEPTION_CLASS" "exc \<noteq> nullptr"
    and choice: "choice = chosen_landing f chain (lpstart t) (frame_offset ctx) css"
    and entered: "\<And>info. entered info = (URC_INSTALL_CONTEXT, landed ctx (if ro then x_object e else exc) info,
      if ro then st\<lparr>g_gnu_current_exception := exc\<rparr> else st)"
  shows "sf_objc_personality_v0 m st UA_SEARCH_PHASE exc ctx ro = Some
      (if \<exists>info. choice = Some info \<and> has_handler info then URC_HANDLER_FOUND else URC_CONTINUE_UNWIND, ctx, st)
    \<and> sf_objc_personality_v0 m st (UA_CLEANUP_PHASE OR UA_HANDLER_FRAME) exc ctx ro = Some
      (case choice of None \<Rightarrow> (URC_CONTINUE_UNWIND, ctx, st) | Some info \<Rightarrow> entered info)
    \<and> sf_objc_personality_v0 m st UA_CLEANUP_PHASE exc ctx ro = Some
      (case choice of None \<Rightarrow> (URC_CONTINUE_UNWIND, ctx, st)
       | Some info \<Rightarrow> if has_cleanup info then entered info else (URC_CONTINUE_UNWIND, ctx, st))"
proof -
  have parse: "parse_lsda_for_ip m st ctx exc = Some choice"
    unfolding choice by (rule parse_frame [OF assms(1)])
  have enters: "choice = Some info \<Longrightarrow> has_handler info \<or> has_cleanup info" for info
    unfolding choice by (rule chosen_enters)
  show ?thesis
    using parse enters e resolve_record [OF e]
    by (cases choice) (auto simp: sf_objc_personality_v0_def personality_result_def ua_defs entered landed_def)
qed

text \<open>C20: a handler without a type is never found.  A \<open>@catch (...)\<close> has a null pointer in the type table; if the
  filters of a frame are of this kind only, the search phase passes over the frame whatever the exception
  is.\<close>

theorem catch_all_not_found:
  assumes "u_lsda ctx \<noteq> nullptr" "read_lsda_header m (u_lsda ctx) (u_region_start ctx) = Some t" "class_info t \<noteq> nullptr"
    and "call_sites_at m (call_site_encoding t) (call_site_table t) css (action_table t)"
    and "\<forall>(s, l, lp, a) \<in> set css. a \<noteq> 0 \<longrightarrow> actions_at m (action_table t + a - 1) (chain a)
           \<and> (\<forall>tti \<in> set (chain a). 0 <s tti \<longrightarrow> type_entry m t tti = Some nullptr)"
    and "exc \<noteq> nullptr"
  shows "sf_objc_personality_v0 m st UA_SEARCH_PHASE exc ctx ro = Some (URC_CONTINUE_UNWIND, ctx, st)"
proof -
  have "frame_tables m st ctx exc t css chain (\<lambda>_. False)"
    using assms(1-5) by (fastforce simp: frame_tables_def filter_reads_def exception_matches_type_def)
  from parse_frame [OF this]
  have "parse_lsda_for_ip m st ctx exc = Some (chosen_landing (\<lambda>_. False) chain (lpstart t) (frame_offset ctx) css)" .
  moreover have "\<not> has_handler info" if "chosen_landing (\<lambda>_. False) chain (lpstart t) (frame_offset ctx) css = Some info" for info
    using that by (auto simp: chosen_landing_def chosen_action_def find_None_iff split: option.splits if_splits dest: find_SomeD)
  ultimately show ?thesis
    using assms(6) by (auto simp: sf_objc_personality_v0_def personality_result_def ua_defs split: option.splits)
qed

text \<open>The walk over the superclasses does not know a root class that is its own superclass.\<close>

lemma class_name_loop_self:
  assumes "cls \<noteq> nullptr" "m cls = Some c" "superclass c = cls" "c_name c \<noteq> Some wanted"
  shows "class_name_loop m wanted cls = None"
proof -
  let ?P = "\<lambda>m' w p b. m' = m \<longrightarrow> w = wanted \<longrightarrow> p \<noteq> cls"
  have "?P m wanted cls b" if "class_name_loop m wanted cls = Some b" for b
    using _ that by (rule class_name_loop.raw_induct [of ?P]) (use assms in \<open>(auto split: if_splits; blast)\<close>)
  then show ?thesis by (cases "class_name_loop m wanted cls") auto
qed

text \<open>Matching a type never ends for an object whose class is its own superclass, a shape of a root class
  that every other walk over superclasses stops at: unless the class itself is the wanted one, the match
  does not return, while the subclass test on the same class does.\<close>

theorem self_rooted_match_hangs:
  assumes e: "x_excs st exc = Some e" "exception_class e = SF_EXCEPTION_CLASS" "exc \<noteq> nullptr"
    and type: "type_name \<noteq> nullptr" "c_string m type_name = Some name" "name \<noteq> ''@id''"
    and cls: "x_object e \<noteq> nullptr" "object_class_of (x_rt st) (x_object e) = Some cls" "cls \<noteq> nullptr"
      "l_classes (rt_loader (x_rt st)) cls = Some c" "superclass c = cls" "c_name c \<noteq> Some name" "other \<noteq> cls"
  shows "exception_matches_type m st exc type_name = None
    \<and> sf_class_is_subclass_of_unlocked (l_classes (rt_loader (x_rt st))) cls other = Some False"
proof -
  have "exception_matches_type m st exc type_name = None"
    using resolve_record [OF e] e type cls(1,2) class_name_loop_self [where m = "l_classes (rt_loader (x_rt st))" and wanted = name, OF cls(3-6)]
    by (simp add: exception_matches_type_def class_name_matches_def)
  moreover have "subclass_loop (l_classes (rt_loader (x_rt st))) cls other = Some False"
    using cls(3-5,7) by (subst subclass_loop.simps) (simp add: sf_next_superclass_def, subst subclass_loop.simps, simp)
  ultimately show ?thesis by (simp add: sf_class_is_subclass_of_unlocked_def)
qed

section \<open>A concrete frame\<close>

text \<open>A class \<open>Oops\<close> whose superclass is \<open>Base\<close>, an object of it in flight, and two frames in memory: at
  \<open>0x8000\<close> with one call site, whose handler is for the type at \<open>0x9000\<close>, the string \<open>Base\<close>; at
  \<open>0x8100\<close> the same with a null type.\<close>

definition demo_class :: "string \<Rightarrow> addr \<Rightarrow> SFObjCClass" where
  "demo_class name super = \<lparr>isa = 0, superclass = super, c_name = Some name, instance_size = 8, c_ivars = [],
     c_methods = [], c_dtable = None\<rparr>"

definition demo_thrown :: exc_state where
  "demo_thrown = (no_exceptions ((empty_runtime (empty_objects\<lparr>o_words := [0x1048 \<mapsto> 0xA000]\<rparr>))
      \<lparr>rt_loader := empty_loader [0xA000 \<mapsto> demo_class ''Oops'' 0xB000, 0xB000 \<mapsto> demo_class ''Base'' 0,
         0xC000 \<mapsto> demo_class ''Loop'' 0xC000]\<rparr>))
    \<lparr>x_excs := [0x7000 \<mapsto> demo_exception 0 0x1048]\<rparr>"

definition demo_bytes :: byte_mem where
  "demo_bytes = [0x8000 \<mapsto> 0xFF, 0x8001 \<mapsto> 0x00, 0x8002 \<mapsto> 0x10, 0x8003 \<mapsto> 0x01, 0x8004
     \<mapsto> 0x04, 0x8005 \<mapsto> 0x00, 0x8006 \<mapsto> 0x10, 0x8007 \<mapsto> 0x20, 0x8008
     \<mapsto> 0x01, 0x8009 \<mapsto> 0x01, 0x800A \<mapsto> 0x00, 0x800B \<mapsto> 0x00, 0x800C
     \<mapsto> 0x90, 0x800D \<mapsto> 0x00, 0x800E \<mapsto> 0x00, 0x800F \<mapsto> 0x00, 0x8010
     \<mapsto> 0x00, 0x8011 \<mapsto> 0x00, 0x8012 \<mapsto> 0x00, 0x8100 \<mapsto> 0xFF, 0x8101
     \<mapsto> 0x00, 0x8102 \<mapsto> 0x10, 0x8103 \<mapsto> 0x01, 0x8104 \<mapsto> 0x04, 0x8105
     \<mapsto> 0x00, 0x8106 \<mapsto> 0x10, 0x8107 \<mapsto> 0x20, 0x8108 \<mapsto> 0x01, 0x8109
     \<mapsto> 0x01, 0x810A \<mapsto> 0x00, 0x810B \<mapsto> 0x00, 0x810C \<mapsto> 0x00, 0x810D
     \<mapsto> 0x00, 0x810E \<mapsto> 0x00, 0x810F \<mapsto> 0x00, 0x8110 \<mapsto> 0x00, 0x8111
     \<mapsto> 0x00, 0x8112 \<mapsto> 0x00, 0x9000 \<mapsto> 0x42, 0x9001 \<mapsto> 0x61, 0x9002
     \<mapsto> 0x73, 0x9003 \<mapsto> 0x65, 0x9004 \<mapsto> 0x00]"

definition demo_tables :: "addr \<Rightarrow> lsda_tables" where
  "demo_tables p = \<lparr>lpstart = 0x400000, ttype_encoding = 0, class_info = p + 0x13, call_site_encoding = 1,
     call_site_table = p + 5, action_table = p + 9\<rparr>"

lemma demo_at:
  "demo_bytes 0x8000 = Some 0xFF" "demo_bytes 0x8001 = Some 0x00" "demo_bytes 0x8002 = Some 0x10"
  "demo_bytes 0x8003 = Some 0x01" "demo_bytes 0x8004 = Some 0x04" "demo_bytes 0x8005 = Some 0x00"
  "demo_bytes 0x8006 = Some 0x10" "demo_bytes 0x8007 = Some 0x20" "demo_bytes 0x8008 = Some 0x01"
  "demo_bytes 0x8009 = Some 0x01" "demo_bytes 0x800A = Some 0x00" "demo_bytes 0x800B = Some 0x00"
  "demo_bytes 0x800C = Some 0x90" "demo_bytes 0x800D = Some 0x00" "demo_bytes 0x800E = Some 0x00"
  "demo_bytes 0x800F = Some 0x00" "demo_bytes 0x8010 = Some 0x00" "demo_bytes 0x8011 = Some 0x00"
  "demo_bytes 0x8012 = Some 0x00" "demo_bytes 0x8100 = Some 0xFF" "demo_bytes 0x8101 = Some 0x00"
  "demo_bytes 0x8102 = Some 0x10" "demo_bytes 0x8103 = Some 0x01" "demo_bytes 0x8104 = Some 0x04"
  "demo_bytes 0x8105 = Some 0x00" "demo_bytes 0x8106 = Some 0x10" "demo_bytes 0x8107 = Some 0x20"
  "demo_bytes 0x8108 = Some 0x01" "demo_bytes 0x8109 = Some 0x01" "demo_bytes 0x810A = Some 0x00"
  "demo_bytes 0x810B = Some 0x00" "demo_bytes 0x810C = Some 0x00" "demo_bytes 0x810D = Some 0x00"
  "demo_bytes 0x810E = Some 0x00" "demo_bytes 0x810F = Some 0x00" "demo_bytes 0x8110 = Some 0x00"
  "demo_bytes 0x8111 = Some 0x00" "demo_bytes 0x8112 = Some 0x00" "demo_bytes 0x9000 = Some 0x42"
  "demo_bytes 0x9001 = Some 0x61" "demo_bytes 0x9002 = Some 0x73" "demo_bytes 0x9003 = Some 0x65"
  "demo_bytes 0x9004 = Some 0x00"
  by (simp_all add: demo_bytes_def)

lemma uleb_one: "m p = Some b \<Longrightarrow> b AND 0x80 = 0 \<Longrightarrow> read_uleb m p = Some (ucast (b AND 0x7F), p + 1)"
  by (simp add: read_uleb_def uleb_loop.simps leb_add_def)

lemma sleb_one: "m p = Some b \<Longrightarrow> b AND 0x80 = 0 \<Longrightarrow> b AND 0x40 = 0 \<Longrightarrow> read_sleb m p = Some (ucast (b AND 0x7F), p + 1)"
  by (simp add: read_sleb_def sleb_loop.simps leb_add_def)

lemma read_le_numeral:
  "read_le m (numeral k) p = Option.bind (m p) (\<lambda>b. Option.bind (read_le m (pred_numeral k) (p + 1)) (\<lambda>v. Some (ucast b OR push_bit 8 v)))"
  by (simp add: numeral_eq_Suc)

lemmas demo_reads = read_encoded_def read_format_def read_unsigned_def dw_consts uleb_one sleb_one demo_at read_le_numeral

lemma demo_tables_read:
  "read_lsda_header demo_bytes 0x8000 0x400000 = Some (demo_tables 0x8000)"
  "read_lsda_header demo_bytes 0x8100 0x400000 = Some (demo_tables 0x8100)"
  by (simp_all add: read_lsda_header_def demo_tables_def demo_reads)

lemma demo_sites:
  "call_sites_at demo_bytes 1 0x8005 [(0, 0x10, 0x20, 1)] 0x8009"
  "call_sites_at demo_bytes 1 0x8105 [(0, 0x10, 0x20, 1)] 0x8109"
  "actions_at demo_bytes 0x8009 [1]" "actions_at demo_bytes 0x8109 [1]"
  by (simp_all add: read_call_site_def read_action_def demo_reads)

lemma demo_types:
  "type_entry demo_bytes (demo_tables 0x8000) 1 = Some 0x9000" "type_entry demo_bytes (demo_tables 0x8100) 1 = Some 0"
  by (simp_all add: type_entry_def demo_tables_def demo_reads encoding_size_def)

lemma demo_name: "c_string demo_bytes 0x9000 = Some ''Base''"
proof -
  have "(char_of (66 :: nat) :: char) = CHR ''B''" "(char_of (97 :: nat) :: char) = CHR ''a''"
      "(char_of (115 :: nat) :: char) = CHR ''s''" "(char_of (101 :: nat) :: char) = CHR ''e''" by code_simp+
  then show ?thesis by (simp add: c_string.simps demo_at)
qed

lemma demo_thrown_facts:
  "x_excs demo_thrown 0x7000 = Some (demo_exception 0 0x1048)" "exception_class (demo_exception 0 obj) = SF_EXCEPTION_CLASS"
  "x_object (demo_exception 0 obj) = obj"
  "l_classes (rt_loader (x_rt demo_thrown)) = [0xA000 \<mapsto> demo_class ''Oops'' 0xB000, 0xB000 \<mapsto> demo_class ''Base'' 0,
         0xC000 \<mapsto> demo_class ''Loop'' 0xC000]"
  "object_class_of (x_rt demo_thrown) 0x1048 = Some 0xA000"
  by (simp_all add: demo_thrown_def demo_exception_def no_exceptions_def empty_loader_def object_class_of_def sf_object_class_def
      sf_is_tagged_pointer_def SF_TAGGED_POINTER_SLOT_MASK_def)

lemma lsda_demo_chain: "superclasses (l_classes (rt_loader (x_rt demo_thrown))) 0xA000 [0xA000, 0xB000]"
  by (simp add: demo_thrown_facts(4) demo_class_def)

lemma demo_base_matches: "exception_matches_type demo_bytes demo_thrown 0x7000 0x9000 = Some True"
  using resolve_record [OF demo_thrown_facts(1)] class_name_loop_chain [OF lsda_demo_chain, of "''Base''"]
  by (simp add: exception_matches_type_def demo_thrown_facts demo_name class_name_matches_def demo_class_def)

theorem handler_matches_class_witness:
  "exception_matches_type demo_bytes demo_thrown 0x7000 0x9000 = Some True"
proof -
  have "(0x7000 :: addr) \<noteq> 0" "(0x9000 :: addr) \<noteq> 0" "x_object (demo_exception 0 0x1048) \<noteq> nullptr"
    "object_class_of (x_rt demo_thrown) (x_object (demo_exception 0 0x1048)) = Some 0xA000"
    by (simp_all add: demo_thrown_facts)
  from handler_matches_class [OF demo_thrown_facts(1,2) this(1,2) demo_name this(3,4) lsda_demo_chain]
  show ?thesis by (simp add: demo_thrown_facts(4) demo_class_def)
qed

definition demo_context :: "addr \<Rightarrow> unwind_context" where
  "demo_context p = \<lparr>u_lsda = p, u_region_start = 0x400000, u_ip = 0x400005, u_gr0 = 0, u_gr1 = 0\<rparr>"

theorem personality_follows_tables_witness:
  "sf_objc_personality_v0 demo_bytes demo_thrown UA_SEARCH_PHASE 0x7000 (demo_context 0x8000) True
     = Some (URC_HANDLER_FOUND, demo_context 0x8000, demo_thrown)
   \<and> sf_objc_personality_v0 demo_bytes demo_thrown (UA_CLEANUP_PHASE OR UA_HANDLER_FRAME) 0x7000 (demo_context 0x8000) True
     = Some (URC_INSTALL_CONTEXT, (demo_context 0x8000)\<lparr>u_gr0 := 0x1048, u_gr1 := 1, u_ip := 0x400020\<rparr>,
         demo_thrown\<lparr>g_gnu_current_exception := 0x7000\<rparr>)"
proof -
  let ?css = "[(0, 0x10, 0x20, 1)] :: call_site list"
  have "frame_tables demo_bytes demo_thrown (demo_context 0x8000) 0x7000 (demo_tables 0x8000) ?css (\<lambda>_. [1]) (\<lambda>_. True)"
    using demo_tables_read(1) demo_sites(1,3) demo_types(1) demo_base_matches
    by (simp add: frame_tables_def demo_context_def demo_tables_def filter_reads_def)
  moreover have "(0x7000 :: addr) \<noteq> 0" by simp
  moreover have "chosen_landing (\<lambda>_. True) (\<lambda>_. [1]) (lpstart (demo_tables 0x8000)) (frame_offset (demo_context 0x8000)) ?css
      = Some \<lparr>landing_pad = 0x400020, li_selector = 1, has_cleanup = False, has_handler = True\<rparr>"
    by (simp add: chosen_landing_def covers_def frame_offset_def demo_context_def demo_tables_def chosen_action_def sless_sint)
  ultimately show ?thesis
    using personality_follows_tables [OF _ demo_thrown_facts(1,2) _ refl refl,
      where m = demo_bytes and ctx = "demo_context 0x8000" and t = "demo_tables 0x8000" and css = ?css and chain = "\<lambda>_. [1]"
        and f = "\<lambda>_. True" and ro = True]
    by (simp add: landed_def demo_thrown_facts(3))
qed

theorem catch_all_not_found_witness:
  "sf_objc_personality_v0 demo_bytes demo_thrown UA_SEARCH_PHASE 0x7000 (demo_context 0x8100) True
     = Some (URC_CONTINUE_UNWIND, demo_context 0x8100, demo_thrown)"
proof (rule catch_all_not_found [where t = "demo_tables 0x8100" and css = "[(0, 0x10, 0x20, 1)]" and chain = "\<lambda>_. [1]"])
  show "read_lsda_header demo_bytes (u_lsda (demo_context 0x8100)) (u_region_start (demo_context 0x8100)) = Some (demo_tables 0x8100)"
    using demo_tables_read(2) by (simp add: demo_context_def)
qed (use demo_sites(2,4) demo_types(2) in \<open>simp_all add: demo_context_def demo_tables_def\<close>)

theorem self_rooted_match_hangs_witness:
  "exception_matches_type demo_bytes (demo_thrown\<lparr>x_rt := (x_rt demo_thrown)\<lparr>rt_objects := empty_objects\<lparr>o_words := [0x1048 \<mapsto> 0xC000]\<rparr>\<rparr>\<rparr>)
     0x7000 0x9000 = None"
proof -
  let ?st = "demo_thrown\<lparr>x_rt := (x_rt demo_thrown)\<lparr>rt_objects := empty_objects\<lparr>o_words := [0x1048 \<mapsto> 0xC000]\<rparr>\<rparr>\<rparr>"
  have "x_excs ?st 0x7000 = Some (demo_exception 0 0x1048)" "(0x7000 :: addr) \<noteq> 0" "(0x9000 :: addr) \<noteq> 0" "''Base'' \<noteq> ''@id''"
    "x_object (demo_exception 0 0x1048) \<noteq> nullptr" "object_class_of (x_rt ?st) (x_object (demo_exception 0 0x1048)) = Some 0xC000"
    "(0xC000 :: addr) \<noteq> 0" "l_classes (rt_loader (x_rt ?st)) 0xC000 = Some (demo_class ''Loop'' 0xC000)"
    "superclass (demo_class ''Loop'' 0xC000) = 0xC000" "c_name (demo_class ''Loop'' 0xC000) \<noteq> Some ''Base''" "(1 :: addr) \<noteq> 0xC000"
    using demo_thrown_facts by (simp_all add: object_class_of_def sf_object_class_def demo_class_def sf_is_tagged_pointer_def
        SF_TAGGED_POINTER_SLOT_MASK_def)
  from self_rooted_match_hangs [OF this(1) demo_thrown_facts(2) this(2,3) demo_name this(4-11)] show ?thesis by simp
qed

end
