(* ===== verification/SF_Allocator.thy ===== *)
theory SF_Allocator
  imports SF_Leb SF_Objects
begin

unbundle bit_operations_syntax

text \<open>
  The default allocator (\<open>Runtime/src/allocator.c\<close>, on Linux): small blocks come from free lists, one for
  every multiple of 16 bytes up to 512, which are filled from anonymous mappings; the rest comes from the
  C library.  The allocator promises zeroed memory for small blocks, on which the initialisation of an
  object relies.  Memory is bytes: an access outside what has been mapped is a fault.

  \<open>a_mmaps\<close>, \<open>a_callocs\<close> and \<open>a_memaligns\<close> hold the results of the coming calls of \<open>mmap\<close>, \<open>calloc\<close> and
  \<open>posix_memalign\<close>, the null pointer for a failure; \<open>a_heap\<close> holds the sizes of the blocks of the C library.
\<close>

section \<open>The allocator\<close>

record fast_alloc =
  a_mem :: byte_mem
  g_fast_alloc_bins :: "nat \<Rightarrow> addr"
  a_sysconf :: u64
  a_mmaps :: "addr list"
  a_callocs :: "addr list"
  a_memaligns :: "addr list"
  a_heap :: "addr \<rightharpoonup> u64"

definition SF_FAST_ALLOC_GRANULE :: u64 where "SF_FAST_ALLOC_GRANULE = 16"
definition SF_FAST_ALLOC_MAX :: u64 where "SF_FAST_ALLOC_MAX = 512"
definition SF_FAST_ALLOC_REFILL_BLOCKS :: u64 where "SF_FAST_ALLOC_REFILL_BLOCKS = 64"

lemmas fast_consts = SF_FAST_ALLOC_GRANULE_def SF_FAST_ALLOC_MAX_def SF_FAST_ALLOC_REFILL_BLOCKS_def

definition align_up_pages :: "u64 \<Rightarrow> u64 \<Rightarrow> u64" where
  "align_up_pages val align = (val + align - 1) AND NOT (align - 1)"

definition fast_bin_size :: "u64 \<Rightarrow> u64" where
  "fast_bin_size bin = (bin + 1) * SF_FAST_ALLOC_GRANULE"

definition runtime_page_size :: "fast_alloc \<Rightarrow> u64" where
  "runtime_page_size st = (if sint (a_sysconf st) > 0 then a_sysconf st else 4096)"

definition is_valid_alignment :: "u64 \<Rightarrow> bool" where
  "is_valid_alignment align \<longleftrightarrow>
     (if align \<le> sizeof_ptr then True else if align mod sizeof_ptr \<noteq> 0 then False else align AND (align - 1) = 0)"

definition fast_bin_index :: "u64 \<Rightarrow> u64" where
  "fast_bin_index sz = (if sz = 0 \<or> sz > SF_FAST_ALLOC_MAX then - 1 else (sz - 1) div SF_FAST_ALLOC_GRANULE)"

text \<open>Writes to memory, which fault where it is not mapped.\<close>

fun write_le :: "byte_mem \<Rightarrow> nat \<Rightarrow> addr \<Rightarrow> u64 \<Rightarrow> byte_mem option" where
  "write_le m 0 p v = Some m"
| "write_le m (Suc n) p v = (if m p = None then None else write_le (m(p \<mapsto> ucast v)) n (p + 1) (drop_bit 8 v))"

fun memset_zero :: "byte_mem \<Rightarrow> nat \<Rightarrow> addr \<Rightarrow> byte_mem option" where
  "memset_zero m 0 p = Some m"
| "memset_zero m (Suc n) p = (if m p = None then None else memset_zero (m(p \<mapsto> 0)) n (p + 1))"

text \<open>\<open>node->next = next\<close>\<close>

definition write_next :: "fast_alloc \<Rightarrow> addr \<Rightarrow> addr \<Rightarrow> fast_alloc option" where
  "write_next st node nxt = map_option (\<lambda>m. st\<lparr>a_mem := m\<rparr>) (write_le (a_mem st) 8 node nxt)"

definition map_zeroed :: "byte_mem \<Rightarrow> addr \<Rightarrow> u64 \<Rightarrow> byte_mem" where
  "map_zeroed m p n = (\<lambda>a. if in_block p n a then Some 0 else m a)"

definition mmap_slab :: "fast_alloc \<Rightarrow> u64 \<Rightarrow> addr \<times> fast_alloc" where
  "mmap_slab st n =
     (case a_mmaps st of [] \<Rightarrow> (nullptr, st)
      | p # ps \<Rightarrow> (p, st\<lparr>a_mmaps := ps, a_mem := (if p = nullptr then a_mem st else map_zeroed (a_mem st) p n)\<rparr>))"

text \<open>The loop, from block \<open>i - 1\<close> down to the first.\<close>

fun refill_loop :: "fast_alloc \<Rightarrow> nat \<Rightarrow> addr \<Rightarrow> u64 \<Rightarrow> nat \<Rightarrow> fast_alloc option" where
  "refill_loop st bin slab block_size 0 = Some st"
| "refill_loop st bin slab block_size (Suc i) =
     (let node = slab + of_nat i * block_size in do {
        st \<leftarrow> write_next st node (g_fast_alloc_bins st bin);
        refill_loop (st\<lparr>g_fast_alloc_bins := (g_fast_alloc_bins st)(bin := node)\<rparr>) bin slab block_size i
      })"

definition slab_size :: "fast_alloc \<Rightarrow> u64 \<Rightarrow> u64" where
  "slab_size st bin = align_up_pages (fast_bin_size bin * SF_FAST_ALLOC_REFILL_BLOCKS) (runtime_page_size st)"

definition refill_fast_bin :: "fast_alloc \<Rightarrow> u64 \<Rightarrow> (bool \<times> fast_alloc) option" where
  "refill_fast_bin st bin =
     (let block_size = fast_bin_size bin;
          slab_bytes = slab_size st bin;
          block_count = slab_bytes div block_size in
      if block_count = 0 then Some (False, st)
      else case mmap_slab st slab_bytes of (slab, st) \<Rightarrow>
        if slab = nullptr then Some (False, st)
        else do {
          st \<leftarrow> refill_loop st (unat bin) slab block_size (unat block_count);
          Some (True, st)
        })"

definition calloc_block :: "fast_alloc \<Rightarrow> u64 \<Rightarrow> addr \<times> fast_alloc" where
  "calloc_block st n =
     (case a_callocs st of [] \<Rightarrow> (nullptr, st)
      | p # ps \<Rightarrow> (p, if p = nullptr then st\<lparr>a_callocs := ps\<rparr>
                      else st\<lparr>a_callocs := ps, a_mem := map_zeroed (a_mem st) p n, a_heap := (a_heap st)(p \<mapsto> n)\<rparr>))"

text \<open>The bytes \<open>posix_memalign\<close> hands out are whatever they are; \<open>0xAA\<close> stands for them.\<close>

definition memalign_block :: "fast_alloc \<Rightarrow> u64 \<Rightarrow> addr \<times> fast_alloc" where
  "memalign_block st n =
     (case a_memaligns st of [] \<Rightarrow> (nullptr, st)
      | p # ps \<Rightarrow> (p, if p = nullptr then st\<lparr>a_memaligns := ps\<rparr>
                      else st\<lparr>a_memaligns := ps, a_heap := (a_heap st)(p \<mapsto> n),
                            a_mem := (\<lambda>a. if in_block p n a then Some 0xAA else a_mem st a)\<rparr>))"

definition default_alloc :: "fast_alloc \<Rightarrow> u64 \<Rightarrow> u64 \<Rightarrow> (addr \<times> fast_alloc) option" where
  "default_alloc st sz align =
     (if align \<le> sizeof_ptr then
        (let bin = fast_bin_index sz; b = unat bin in do {
           st \<leftarrow> (if bin \<noteq> - 1 \<and> g_fast_alloc_bins st b = nullptr then map_option snd (refill_fast_bin st bin) else Some st);
           if bin \<noteq> - 1 \<and> g_fast_alloc_bins st b \<noteq> nullptr then do {
             let node = g_fast_alloc_bins st b;
             nxt \<leftarrow> read_le (a_mem st) 8 node;
             st \<leftarrow> write_next (st\<lparr>g_fast_alloc_bins := (g_fast_alloc_bins st)(b := nxt)\<rparr>) node nullptr;
             Some (node, st)
           }
           else Some (calloc_block st sz)
         })
      else if \<not> is_valid_alignment align then Some (nullptr, st)
      else Some (memalign_block st sz))"

definition c_free :: "fast_alloc \<Rightarrow> addr \<Rightarrow> fast_alloc option" where
  "c_free st p = map_option (\<lambda>n. st\<lparr>a_heap := (a_heap st)(p := None),
     a_mem := (\<lambda>a. if in_block p n a then None else a_mem st a)\<rparr>) (a_heap st p)"

definition default_free :: "fast_alloc \<Rightarrow> addr \<Rightarrow> u64 \<Rightarrow> u64 \<Rightarrow> fast_alloc option" where
  "default_free st ptr sz align =
     (if ptr = nullptr then Some st
      else let bin = fast_bin_index sz; b = unat bin in
        if align \<le> sizeof_ptr \<and> bin \<noteq> - 1 then do {
          let block_size = fast_bin_size bin;
          m \<leftarrow> (if block_size > 8 then memset_zero (a_mem st) (unat (block_size - 8)) (ptr + 8) else Some (a_mem st));
          st \<leftarrow> write_next (st\<lparr>a_mem := m\<rparr>) ptr (g_fast_alloc_bins st b);
          Some (st\<lparr>g_fast_alloc_bins := (g_fast_alloc_bins st)(b := ptr)\<rparr>)
        }
        else c_free st ptr)"

definition sf_default_allocator_returns_zeroed :: "u64 \<Rightarrow> u64 \<Rightarrow> bool" where
  "sf_default_allocator_returns_zeroed sz align \<longleftrightarrow> align \<le> sizeof_ptr \<and> fast_bin_index sz \<noteq> - 1"

section \<open>Blocks of memory\<close>

lemma offset_of_nat: "k < unat (n :: u64) \<Longrightarrow> unat (of_nat k :: u64) = k"
proof -
  have "unat n < 2 ^ LENGTH(64)" by (rule unsigned_less)
  then show "k < unat n \<Longrightarrow> ?thesis" by (intro unat_of_nat_u64) simp
qed

lemma in_block_offsets: "in_block p n a \<longleftrightarrow> (\<exists>k < unat n. a = p + of_nat k)"
proof
  assume "in_block p n a"
  then have "unat (a - p) < unat n" by (simp add: in_block_def word_less_nat_alt)
  moreover have "a = p + of_nat (unat (a - p))" by simp
  ultimately show "\<exists>k < unat n. a = p + of_nat k" by blast
next
  assume "\<exists>k < unat n. a = p + of_nat k"
  then show "in_block p n a" by (auto simp: in_block_def word_less_nat_alt offset_of_nat)
qed

lemma step_offset: "p + of_nat (Suc k) = (p + 1 + of_nat k :: addr)"
  by (simp add: algebra_simps)

lemma mapped_tail:
  assumes "\<And>k. k < Suc n \<Longrightarrow> m (p + of_nat k) \<noteq> None" "k < n"
  shows "(m(p \<mapsto> v)) (p + 1 + of_nat k) \<noteq> None"
  using assms(1) [of "Suc k"] assms(2) by (simp add: step_offset add.commute add.left_commute)

lemma all_less_Suc_shift: "(\<forall>k < Suc n. P k) \<longleftrightarrow> P 0 \<and> (\<forall>k < n. P (Suc k))"
  by (metis Suc_less_eq gr0_conv_Suc less_Suc_eq_0_disj)

lemma block_tail: "(\<forall>k < Suc n. a \<noteq> p + of_nat k) \<longleftrightarrow> a \<noteq> p \<and> (\<forall>k < n. a \<noteq> p + 1 + (of_nat k :: addr))"
  by (simp only: all_less_Suc_shift) (simp add: add.assoc)

lemma write_le_mem:
  assumes "\<And>k. k < n \<Longrightarrow> m (p + of_nat k) \<noteq> None" "n \<le> 8"
  shows "\<exists>m'. write_le m n p v = Some m' \<and> bytes_at m' p (le_bytes n v)
     \<and> (\<forall>a. (\<forall>k < n. a \<noteq> p + of_nat k) \<longrightarrow> m' a = m a) \<and> dom m' = dom m"
  using assms
proof (induction n arbitrary: m p v)
  case (Suc n)
  have mp: "m p \<noteq> None" using Suc.prems(1) [of 0] by simp
  let ?m = "m(p \<mapsto> ucast v)"
  have "n \<le> 8" using Suc.prems(2) by simp
  have tail: "?m (p + 1 + of_nat k) \<noteq> None" if "k < n" for k using Suc.prems(1) that by (rule mapped_tail)
  from Suc.IH [of ?m "p + 1" "drop_bit 8 v", OF tail \<open>n \<le> 8\<close>] obtain m' where
    m': "write_le ?m n (p + 1) (drop_bit 8 v) = Some m'" "bytes_at m' (p + 1) (le_bytes n (drop_bit 8 v))"
      "\<forall>a. (\<forall>k < n. a \<noteq> p + 1 + of_nat k) \<longrightarrow> m' a = ?m a" "dom m' = dom ?m" by blast
  have "p \<noteq> p + 1 + of_nat k" if "k < n" for k
  proof
    assume "p = p + 1 + of_nat k"
    then have "of_nat (Suc k) = (0 :: u64)" by (simp add: algebra_simps)
    moreover have "unat (of_nat (Suc k) :: u64) = Suc k" using that Suc.prems(2) by (intro unat_of_nat_u64) simp
    ultimately show False by (metis unat_0 nat.distinct(1))
  qed
  then have "m' p = Some (ucast v)" using m'(3) by simp
  moreover have "m' a = m a" if "\<forall>k < Suc n. a \<noteq> p + of_nat k" for a
    using m'(3) that unfolding block_tail by simp
  moreover have "dom m' = dom m" using m'(4) mp by auto
  moreover have "write_le m (Suc n) p v = Some m'" using mp m'(1) by auto
  ultimately show ?case using m'(2) by (intro exI [of _ m']) simp
qed simp

lemma memset_zero_mem:
  assumes "\<And>k. k < n \<Longrightarrow> m (p + of_nat k) \<noteq> None"
  shows "\<exists>m'. memset_zero m n p = Some m' \<and> (\<forall>k < n. m' (p + of_nat k) = Some 0)
     \<and> (\<forall>a. (\<forall>k < n. a \<noteq> p + of_nat k) \<longrightarrow> m' a = m a) \<and> dom m' = dom m"
  using assms
proof (induction n arbitrary: m p)
  case (Suc n)
  have mp: "m p \<noteq> None" using Suc.prems(1) [of 0] by simp
  let ?m = "m(p \<mapsto> 0)"
  have tail: "?m (p + 1 + of_nat k) \<noteq> None" if "k < n" for k using Suc.prems that by (rule mapped_tail)
  from Suc.IH [of ?m "p + 1", OF tail] obtain m' where
    m': "memset_zero ?m n (p + 1) = Some m'" "\<forall>k < n. m' (p + 1 + of_nat k) = Some 0"
      "\<forall>a. (\<forall>k < n. a \<noteq> p + 1 + of_nat k) \<longrightarrow> m' a = ?m a" "dom m' = dom ?m" by blast
  have zero: "m' p = Some 0"
  proof (cases "\<forall>k < n. p \<noteq> p + 1 + of_nat k")
    case False
    then obtain k where "k < n" "p = p + 1 + of_nat k" by blast
    then show ?thesis using m'(2) by metis
  qed (use m'(3) in simp)
  have "m' (p + of_nat k) = Some 0" if "k < Suc n" for k
    using zero m'(2) that by (cases k) (simp_all add: add.assoc)
  moreover have "m' a = m a" if "\<forall>k < Suc n. a \<noteq> p + of_nat k" for a
    using m'(3) that unfolding block_tail by simp
  moreover have "dom m' = dom m" using m'(4) mp by auto
  moreover have "memset_zero m (Suc n) p = Some m'" using mp m'(1) by auto
  ultimately show ?case by (intro exI [of _ m']) simp
qed simp

lemma memset_zero_unmapped:
  "k < n \<Longrightarrow> m (p + of_nat k) = None \<Longrightarrow> memset_zero m n p = None"
proof (induction n arbitrary: m p k)
  case (Suc n)
  show ?case
  proof (cases "m p")
    case (Some b)
    with Suc.prems obtain j where j: "k = Suc j" by (cases k) auto
    with Suc.prems Some have "(m(p \<mapsto> 0)) (p + 1 + of_nat j) = None" by (auto simp: add.assoc)
    with Suc.IH [of j "m(p \<mapsto> 0)" "p + 1"] Suc.prems j Some show ?thesis by (simp del: fun_upd_apply)
  qed simp
qed simp

lemma read_le_cong: "(\<And>k. k < n \<Longrightarrow> m' (p + of_nat k) = m (p + of_nat k)) \<Longrightarrow> read_le m' n p = read_le m n p"
proof (induction n arbitrary: p)
  case (Suc n)
  have "read_le m' n (p + 1) = read_le m n (p + 1)"
    by (rule Suc.IH) (use Suc.prems step_offset in \<open>metis Suc_mono\<close>)
  with Suc.prems [of 0] show ?case by simp
qed simp

lemma same_offset: "p + of_nat x = p + (of_nat y :: addr) \<Longrightarrow> x < 2 ^ 64 \<Longrightarrow> y < 2 ^ 64 \<Longrightarrow> x = y"
  by (metis add_left_cancel unat_of_nat_u64)

lemma write_next_links:
  assumes "\<And>k. k < 8 \<Longrightarrow> a_mem st (node + of_nat k) \<noteq> None"
  shows "\<exists>m'. write_next st node nxt = Some (st\<lparr>a_mem := m'\<rparr>) \<and> read_le m' 8 node = Some nxt
     \<and> bytes_at m' node (le_bytes 8 nxt)
     \<and> (\<forall>a. (\<forall>k < 8. a \<noteq> node + of_nat k) \<longrightarrow> m' a = a_mem st a) \<and> dom m' = dom (a_mem st)"
proof -
  obtain m' where m': "write_le (a_mem st) 8 node nxt = Some m'" "bytes_at m' node (le_bytes 8 nxt)"
    "\<forall>a. (\<forall>k < 8. a \<noteq> node + of_nat k) \<longrightarrow> m' a = a_mem st a" "dom m' = dom (a_mem st)"
    using write_le_mem [of 8 "a_mem st" node nxt] assms by auto
  have "read_le m' 8 node = Some nxt" using read_le_bytes [OF m'(2)] by (simp add: take_bit_word_eq_self)
  with m' show ?thesis by (intro exI [of _ m']) (simp add: write_next_def)
qed

lemma links_cong:
  assumes "\<And>x k. x \<in> set xs \<Longrightarrow> k < 8 \<Longrightarrow> m' (x + of_nat k) = m (x + of_nat k)"
  shows "segment (read_le m' 8) p xs q = segment (read_le m 8) p xs q"
  by (rule segment_cong, rule read_le_cong) (rule assms)

definition slab_nodes :: "addr \<Rightarrow> nat \<Rightarrow> nat \<Rightarrow> addr list" where
  "slab_nodes slab bs n = map (\<lambda>i. slab + of_nat (i * bs)) [0..<n]"

lemma refill_loop_fills:
  assumes "segment (read_le (a_mem st) 8) (g_fast_alloc_bins st b) xs nullptr"
    and "\<And>k. k < n * bs \<Longrightarrow> a_mem st (slab + of_nat k) \<noteq> None"
    and "unat slab + n * bs \<le> 2 ^ 64" "slab \<noteq> nullptr" "8 \<le> bs"
    and "\<And>x k. x \<in> set xs \<Longrightarrow> k < 8 \<Longrightarrow> n * bs \<le> unat (x + of_nat k - slab)"
  shows "\<exists>m' p. refill_loop st b slab (of_nat bs) n
       = Some (st\<lparr>a_mem := m', g_fast_alloc_bins := (g_fast_alloc_bins st)(b := p)\<rparr>)
     \<and> segment (read_le m' 8) p (slab_nodes slab bs n @ xs) nullptr \<and> dom m' = dom (a_mem st)
     \<and> (\<forall>a. (\<forall>i < n. \<forall>k < 8. a \<noteq> slab + of_nat (i * bs + k)) \<longrightarrow> m' a = a_mem st a)"
  using assms
proof (induction n arbitrary: st xs)
  case 0
  then show ?case by (intro exI [of _ "a_mem st"] exI [of _ "g_fast_alloc_bins st b"]) (simp add: slab_nodes_def)
next
  case (Suc n)
  let ?node = "slab + of_nat (n * bs)"
  have bound: "n * bs + k < Suc n * bs" if "k < 8" for k using that Suc.prems(5) by simp
  have wide: "n * bs + k < 2 ^ 64" if "k < 8" for k
    using bound [OF that] Suc.prems(3) by linarith
  have at: "?node + of_nat k = slab + of_nat (n * bs + k)" for k by (simp add: add.assoc)
  have nonnull: "?node \<noteq> nullptr"
  proof
    assume null: "?node = nullptr"
    have "unat slab + n * bs < 2 ^ 64" using Suc.prems(3,5) by simp
    moreover have "?node = of_nat (unat slab + n * bs)" by simp
    ultimately have "unat ?node = unat slab + n * bs" using unat_of_nat_u64 by metis
    with null Suc.prems(4) show False by (simp add: unat_eq_0)
  qed
  obtain m1 where m1: "write_next st ?node (g_fast_alloc_bins st b) = Some (st\<lparr>a_mem := m1\<rparr>)"
    "read_le m1 8 ?node = Some (g_fast_alloc_bins st b)"
    "\<forall>a. (\<forall>k < 8. a \<noteq> ?node + of_nat k) \<longrightarrow> m1 a = a_mem st a" "dom m1 = dom (a_mem st)"
    using write_next_links [of st ?node "g_fast_alloc_bins st b"] Suc.prems(2) bound at by metis
  let ?st = "st\<lparr>a_mem := m1, g_fast_alloc_bins := (g_fast_alloc_bins st)(b := ?node)\<rparr>"
  have far: "x + of_nat k \<noteq> ?node + of_nat j" if "x \<in> set xs" "k < 8" "j < 8" for x k j
  proof
    assume "x + of_nat k = ?node + of_nat j"
    then have "x + of_nat k - slab = of_nat (n * bs + j)" by (simp add: at)
    then have "unat (x + of_nat k - slab) = n * bs + j" using unat_of_nat_u64 [OF wide [OF that(3)]] by simp
    with Suc.prems(6) [OF that(1,2)] bound [OF that(3)] show False by simp
  qed
  have seg: "segment (read_le (a_mem ?st) 8) (g_fast_alloc_bins ?st b) (?node # xs) nullptr"
    using m1(2,3) far nonnull Suc.prems(1) links_cong [of xs m1 "a_mem st"] by simp
  have tail: "n * bs \<le> unat (x + of_nat k - slab)" if "x \<in> set (?node # xs)" "k < 8" for x k
  proof (cases "x = ?node")
    case True
    then have "x + of_nat k - slab = of_nat (n * bs + k)" by (simp add: at)
    then have "unat (x + of_nat k - slab) = unat (of_nat (n * bs + k) :: u64)" by (rule arg_cong)
    also have "\<dots> = n * bs + k" by (rule unat_of_nat_u64 [OF wide [OF that(2)]])
    finally show ?thesis by linarith
  next
    case False
    with that Suc.prems(6) [of x k] show ?thesis by simp
  qed
  have map1: "a_mem ?st (slab + of_nat k) \<noteq> None" if "k < n * bs" for k
  proof -
    have "slab + of_nat k \<in> dom (a_mem st)" using Suc.prems(2) [of k] that by auto
    then show ?thesis using m1(4) by auto
  qed
  have "unat slab + n * bs \<le> 2 ^ 64" using Suc.prems(3) by simp
  from Suc.IH [OF seg map1 this Suc.prems(4,5) tail] obtain m' p where
    m': "refill_loop ?st b slab (of_nat bs) n = Some (?st\<lparr>a_mem := m', g_fast_alloc_bins := (g_fast_alloc_bins ?st)(b := p)\<rparr>)"
      "segment (read_le m' 8) p (slab_nodes slab bs n @ ?node # xs) nullptr" "dom m' = dom (a_mem ?st)"
      "\<forall>a. (\<forall>i < n. \<forall>k < 8. a \<noteq> slab + of_nat (i * bs + k)) \<longrightarrow> m' a = a_mem ?st a" by blast
  show ?case
  proof (intro exI conjI allI impI)
    show "refill_loop st b slab (of_nat bs) (Suc n)
      = Some (st\<lparr>a_mem := m', g_fast_alloc_bins := (g_fast_alloc_bins st)(b := p)\<rparr>)"
      using m1(1) m'(1) by simp
    have "slab_nodes slab bs (Suc n) @ xs = slab_nodes slab bs n @ ?node # xs" by (simp add: slab_nodes_def)
    with m'(2) show "segment (read_le m' 8) p (slab_nodes slab bs (Suc n) @ xs) nullptr" by metis
    show "dom m' = dom (a_mem st)" using m'(3) m1(4) by simp
  next
    fix a assume a: "\<forall>i < Suc n. \<forall>k < 8. a \<noteq> slab + of_nat (i * bs + k)"
    then have "m' a = m1 a" using m'(4) by simp
    moreover have "m1 a = a_mem st a" using m1(3) a at by (metis lessI)
    ultimately show "m' a = a_mem st a" by simp
  qed
qed

section \<open>What the allocator owns\<close>

text \<open>A block is on a free list or belongs to a request \<open>(pointer, size, alignment)\<close> that is alive.  A live
  request owns the whole block of its bin.\<close>

datatype owner = FreeBlock nat addr | LiveBlock "addr \<times> u64 \<times> u64"

definition live_size :: "u64 \<Rightarrow> u64 \<Rightarrow> u64" where
  "live_size n align = (if sf_default_allocator_returns_zeroed n align then fast_bin_size (fast_bin_index n) else n)"

fun region :: "owner \<Rightarrow> addr set" where
  "region (FreeBlock b p) = {a. in_block p (fast_bin_size (of_nat b)) a}"
| "region (LiveBlock (p, n, align)) = {a. in_block p (live_size n align) a}"

definition owners :: "(nat \<Rightarrow> addr list) \<Rightarrow> (addr \<times> u64 \<times> u64) set \<Rightarrow> owner set" where
  "owners F U = {FreeBlock b p | b p. b < 32 \<and> p \<in> set (F b)} \<union> LiveBlock ` U"

definition clear_of :: "addr \<times> u64 \<times> u64 \<Rightarrow> (addr \<times> u64 \<times> u64) set \<Rightarrow> bool" where
  "clear_of r U \<longleftrightarrow> (\<forall>q \<in> U. disjnt (region (LiveBlock r)) (region (LiveBlock q)))"

definition apart :: "owner set \<Rightarrow> bool" where
  "apart S \<longleftrightarrow> pairwise (\<lambda>x y. disjnt (region x) (region y)) S"

definition frees_ok :: "byte_mem \<Rightarrow> (nat \<Rightarrow> addr) \<Rightarrow> (nat \<Rightarrow> addr list) \<Rightarrow> bool" where
  "frees_ok m bins F \<longleftrightarrow> (\<forall>b < 32. segment (read_le m 8) (bins b) (F b) nullptr \<and> distinct (F b)
     \<and> (\<forall>p \<in> set (F b). \<forall>k. 8 \<le> k \<and> k < 16 * (b + 1) \<longrightarrow> m (p + of_nat k) = Some 0))"

definition live_ok :: "(addr \<rightharpoonup> u64) \<Rightarrow> (addr \<times> u64 \<times> u64) set \<Rightarrow> bool" where
  "live_ok heap U \<longleftrightarrow> (\<forall>p n al. (p, n, al) \<in> U \<longrightarrow> p \<noteq> nullptr
     \<and> (\<not> sf_default_allocator_returns_zeroed n al \<longrightarrow> heap p = Some n
       \<and> (\<forall>n' al'. (p, n', al') \<in> U \<and> \<not> sf_default_allocator_returns_zeroed n' al' \<longrightarrow> n' = n \<and> al' = al)))"

definition alloc_ok :: "fast_alloc \<Rightarrow> (nat \<Rightarrow> addr list) \<Rightarrow> (addr \<times> u64 \<times> u64) set \<Rightarrow> bool" where
  "alloc_ok st F U \<longleftrightarrow> frees_ok (a_mem st) (g_fast_alloc_bins st) F \<and> apart (owners F U)
     \<and> (\<forall>x \<in> owners F U. region x \<subseteq> dom (a_mem st)) \<and> live_ok (a_heap st) U"

lemma bin_bytes: "fast_bin_size (of_nat b) = of_nat (16 * (b + 1))"
  by (simp add: fast_bin_size_def fast_consts algebra_simps)

lemma unat_bin_bytes: "b < 32 \<Longrightarrow> unat (fast_bin_size (of_nat b)) = 16 * (b + 1)"
  unfolding bin_bytes by (rule unat_of_nat_u64) simp

lemma small_request:
  "sf_default_allocator_returns_zeroed n al \<longleftrightarrow> al \<le> sizeof_ptr \<and> n \<noteq> 0 \<and> n \<le> 512"
proof -
  have "(n - 1) div 16 \<noteq> - 1" if "n \<le> 512"
  proof
    assume "(n - 1) div 16 = - 1"
    then have "unat ((n - 1) div 16) = unat (- 1 :: u64)" by (rule arg_cong)
    moreover have "unat (n - 1) < 2 ^ LENGTH(64)" by (rule unsigned_less)
    moreover have "unat (- 1 :: u64) = 2 ^ 64 - 1" by (simp add: unsigned_minus_1_eq_mask mask_eq_exp_minus_1)
    ultimately show False by (simp add: unat_div)
  qed
  then show ?thesis by (auto simp: sf_default_allocator_returns_zeroed_def fast_bin_index_def fast_consts)
qed

lemma small_bin:
  assumes "sf_default_allocator_returns_zeroed n al"
  shows "\<exists>b < 32. fast_bin_index n = of_nat b \<and> unat (fast_bin_index n) = b \<and> fast_bin_index n \<noteq> - 1
     \<and> live_size n al = fast_bin_size (of_nat b) \<and> unat n \<le> 16 * (b + 1)"
proof -
  let ?b = "unat (fast_bin_index n)"
  have n: "n \<noteq> 0" "n \<le> 512" using assms by (simp_all add: small_request)
  then have u: "unat n \<le> 512" "0 < unat n" by (simp_all add: word_le_nat_alt unat_gt_0)
  have idx: "fast_bin_index n = (n - 1) div 16" using n by (simp add: fast_bin_index_def fast_consts not_less [symmetric])
  have "unat (n - 1) = unat n - 1" using n(1) by (simp add: unat_minus_one)
  then have b: "?b = (unat n - 1) div 16" by (simp add: idx unat_div)
  have "fast_bin_index n = of_nat ?b" by simp
  moreover have "fast_bin_index n \<noteq> - 1" using assms by (simp add: sf_default_allocator_returns_zeroed_def)
  moreover have "?b < 32" unfolding b using u by simp
  moreover have "unat n \<le> 16 * (?b + 1)" unfolding b using u by presburger
  ultimately show ?thesis using assms by (intro exI [of _ ?b]) (simp add: live_size_def)
qed

lemma region_free: "b < 32 \<Longrightarrow> a \<in> region (FreeBlock b p) \<longleftrightarrow> (\<exists>k < 16 * (b + 1). a = p + of_nat k)"
  by (simp add: in_block_offsets unat_bin_bytes)

lemma region_live: "region (LiveBlock (p, n, al)) = {a. in_block p (live_size n al) a}"
  by simp

lemma frees_ok_cong:
  assumes "frees_ok m bins F" "\<And>b p a. b < 32 \<Longrightarrow> p \<in> set (F b) \<Longrightarrow> a \<in> region (FreeBlock b p) \<Longrightarrow> m' a = m a"
  shows "frees_ok m' bins F"
  unfolding frees_ok_def
proof (intro allI impI conjI ballI)
  fix b :: nat assume b: "b < 32"
  have same: "m' (p + of_nat k) = m (p + of_nat k)" if "p \<in> set (F b)" "k < 16 * (b + 1)" for p k
    using assms(2) [OF b that(1)] region_free [OF b] that(2) by blast
  have "segment (read_le m 8) (bins b) (F b) nullptr" using assms(1) b by (simp add: frees_ok_def)
  moreover have "segment (read_le m' 8) (bins b) (F b) nullptr = segment (read_le m 8) (bins b) (F b) nullptr"
    by (rule links_cong) (use same in simp)
  ultimately show "segment (read_le m' 8) (bins b) (F b) nullptr" by blast
  show "distinct (F b)" using assms(1) b by (simp add: frees_ok_def)
  fix p k assume "p \<in> set (F b)" "8 \<le> k \<and> k < 16 * (b + 1)"
  then show "m' (p + of_nat k) = Some 0" using same [of p k] assms(1) b by (simp add: frees_ok_def)
qed

lemma apart_swap: "apart S \<Longrightarrow> x \<in> S \<Longrightarrow> region y = region x \<Longrightarrow> T \<subseteq> insert y (S - {x}) \<Longrightarrow> apart T"
  unfolding apart_def by (rule pairwise_subset [of _ "insert y (S - {x})"]) (auto simp: pairwise_def disjnt_sym)

lemma apart_union:
  assumes "apart S" "apart T" "\<And>x y. x \<in> S \<Longrightarrow> y \<in> T \<Longrightarrow> disjnt (region x) (region y)"
  shows "apart (S \<union> T)"
  using assms unfolding apart_def pairwise_def by (metis UnE disjnt_sym)

lemma apart_subset: "apart S \<Longrightarrow> T \<subseteq> S \<Longrightarrow> apart T"
  unfolding apart_def by (rule pairwise_subset)

text \<open>What the system promises of a block it hands out: memory that was not mapped.\<close>

definition fresh_region :: "fast_alloc \<Rightarrow> addr \<Rightarrow> u64 \<Rightarrow> bool" where
  "fresh_region st p n \<longleftrightarrow> p \<noteq> nullptr \<and> unat p + unat n \<le> 2 ^ 64 \<and> a_heap st p = None
     \<and> (\<forall>a. in_block p n a \<longrightarrow> a_mem st a = None)"

definition os_answer :: "fast_alloc \<Rightarrow> addr list \<Rightarrow> u64 \<Rightarrow> bool" where
  "os_answer st ps n \<longleftrightarrow> (case ps of [] \<Rightarrow> True | p # _ \<Rightarrow> p = nullptr \<or> fresh_region st p n)"

definition os_ok :: "fast_alloc \<Rightarrow> u64 \<Rightarrow> bool" where
  "os_ok st n \<longleftrightarrow> os_answer st (a_mmaps st) (slab_size st (fast_bin_index n))
     \<and> os_answer st (a_callocs st) n \<and> os_answer st (a_memaligns st) n"

lemma offset_block:
  assumes "c + unat n \<le> 2 ^ 64"
  shows "in_block (s + of_nat c) n a \<longleftrightarrow> c \<le> unat (a - s) \<and> unat (a - s) < c + unat n"
proof
  assume "in_block (s + of_nat c) n a"
  then obtain k where k: "k < unat n" "a = s + of_nat c + of_nat k" by (auto simp: in_block_offsets)
  then have "a - s = of_nat (c + k)" by simp
  then have "unat (a - s) = unat (of_nat (c + k) :: u64)" by (rule arg_cong)
  also have "\<dots> = c + k" using assms k(1) by (intro unat_of_nat_u64) simp
  finally show "c \<le> unat (a - s) \<and> unat (a - s) < c + unat n" using k(1) by linarith
next
  assume u: "c \<le> unat (a - s) \<and> unat (a - s) < c + unat n"
  let ?k = "unat (a - s) - c"
  have "of_nat c + of_nat ?k = (of_nat (c + ?k) :: u64)" by (simp only: of_nat_add)
  also have "\<dots> = a - s" using u by simp
  finally have "a = s + of_nat c + of_nat ?k" by (simp add: algebra_simps del: of_nat_diff)
  moreover have "?k < unat n" using u by linarith
  ultimately show "in_block (s + of_nat c) n a" unfolding in_block_offsets by blast
qed

lemma node_region:
  assumes "b < 32" "(i + 1) * (16 * (b + 1)) \<le> 2 ^ 64"
  shows "a \<in> region (FreeBlock b (slab + of_nat (i * (16 * (b + 1)))))
     \<longleftrightarrow> i * (16 * (b + 1)) \<le> unat (a - slab) \<and> unat (a - slab) < (i + 1) * (16 * (b + 1))"
  using offset_block [of "i * (16 * (b + 1))" "fast_bin_size (of_nat b)" slab a] assms
  by (simp add: unat_bin_bytes algebra_simps)

lemma slab_node: "x \<in> set (slab_nodes slab bs n) \<longleftrightarrow> (\<exists>i < n. x = slab + of_nat (i * bs))"
  by (auto simp: slab_nodes_def)

lemma slab_owner: "x \<in> FreeBlock b ` set (slab_nodes slab bs n) \<longleftrightarrow> (\<exists>i < n. x = FreeBlock b (slab + of_nat (i * bs)))"
  by (auto simp: slab_nodes_def)

text \<open>The blocks of a fresh slab: apart from each other, zero behind their links, all inside the slab.\<close>

lemma nodes_apart:
  assumes "b < 32" "n * (16 * (b + 1)) \<le> 2 ^ 64"
  shows "apart (FreeBlock b ` set (slab_nodes slab (16 * (b + 1)) n))"
  unfolding apart_def pairwise_def
proof (intro ballI impI)
  fix x y assume "x \<in> FreeBlock b ` set (slab_nodes slab (16 * (b + 1)) n)"
    "y \<in> FreeBlock b ` set (slab_nodes slab (16 * (b + 1)) n)" "x \<noteq> y"
  then obtain i j where ij: "i < n" "j < n" "i \<noteq> j" "x = FreeBlock b (slab + of_nat (i * (16 * (b + 1))))"
    "y = FreeBlock b (slab + of_nat (j * (16 * (b + 1))))"
    unfolding slab_owner by blast
  have le: "(k + 1) * (16 * (b + 1)) \<le> 2 ^ 64" if "k < n" for k
    using mult_le_mono1 [of "k + 1" n "16 * (b + 1)"] that assms(2) by linarith
  have "(i + 1) * (16 * (b + 1)) \<le> j * (16 * (b + 1)) \<or> (j + 1) * (16 * (b + 1)) \<le> i * (16 * (b + 1))"
    using ij(3) by (intro disj_forward [OF linorder_less_linear [of i j, simplified ij(3) simp_thms]] mult_le_mono1) auto
  then show "disjnt (region x) (region y)"
    unfolding disjnt_iff ij(4,5) node_region [OF assms(1) le [OF ij(1)]] node_region [OF assms(1) le [OF ij(2)]]
    by linarith
qed

lemma slab_nodes_distinct: "n * bs \<le> 2 ^ 64 \<Longrightarrow> 0 < bs \<Longrightarrow> distinct (slab_nodes slab bs n)"
  unfolding slab_nodes_def distinct_map
proof (intro conjI inj_onI)
  fix i j assume a: "n * bs \<le> 2 ^ 64" "0 < bs" "i \<in> set [0..<n]" "j \<in> set [0..<n]"
    "slab + of_nat (i * bs) = slab + of_nat (j * bs)"
  have "k * bs < 2 ^ 64" if "k < n" for k
    using mult_less_mono1 [OF that a(2)] a(1) by linarith
  with same_offset [OF a(5)] a(3,4) have "i * bs = j * bs" by simp
  with a(2) show "i = j" by simp
qed simp

lemma frees_ok_update:
  assumes "frees_ok m bins F" "segment (read_le m 8) p xs nullptr" "distinct xs"
    "\<And>x k. x \<in> set xs \<Longrightarrow> 8 \<le> k \<Longrightarrow> k < 16 * (b + 1) \<Longrightarrow> m (x + of_nat k) = Some 0"
  shows "frees_ok m (bins(b := p)) (F(b := xs))"
  using assms unfolding frees_ok_def by (simp add: fun_upd_def)

lemma block_count_fits:
  assumes "b < 32"
  shows "unat (bytes div fast_bin_size (of_nat b)) * (16 * (b + 1)) \<le> unat bytes"
  by (simp only: unat_div unat_bin_bytes [OF assms] div_times_less_eq_dividend)

lemma refill_keeps:
  assumes ok: "alloc_ok st F U" and b: "b < 32" and empty: "g_fast_alloc_bins st b = nullptr"
    and os: "os_answer st (a_mmaps st) (slab_size st (of_nat b))"
  shows "\<exists>r st' F'. refill_fast_bin st (of_nat b) = Some (r, st') \<and> alloc_ok st' F' U \<and> a_callocs st' = a_callocs st
     \<and> (g_fast_alloc_bins st' b = nullptr \<longrightarrow> a_mem st' = a_mem st \<and> a_heap st' = a_heap st)"
proof -
  let ?bs = "16 * (b + 1)" and ?bytes = "slab_size st (of_nat b)"
  let ?n = "unat (?bytes div fast_bin_size (of_nat b))"
  obtain slab st1 where mm: "mmap_slab st ?bytes = (slab, st1)" by (cases "mmap_slab st ?bytes")
  show ?thesis
  proof (cases "?bytes div fast_bin_size (of_nat b) = 0 \<or> slab = nullptr")
    case True
    have "alloc_ok st1 F U" "a_callocs st1 = a_callocs st" "slab = nullptr \<longrightarrow> a_mem st1 = a_mem st \<and> a_heap st1 = a_heap st"
      if "slab = nullptr"
    proof -
      have "st1 = st \<or> (\<exists>ps. st1 = st\<lparr>a_mmaps := ps\<rparr>)" using mm that by (auto simp: mmap_slab_def split: list.splits)
      then have "a_mem st1 = a_mem st \<and> a_heap st1 = a_heap st \<and> a_callocs st1 = a_callocs st
          \<and> g_fast_alloc_bins st1 = g_fast_alloc_bins st" by (elim disjE exE) simp_all
      with ok show "alloc_ok st1 F U" "a_callocs st1 = a_callocs st"
        "slab = nullptr \<longrightarrow> a_mem st1 = a_mem st \<and> a_heap st1 = a_heap st" by (simp_all add: alloc_ok_def)
    qed
    with True ok mm show ?thesis by (cases "?bytes div fast_bin_size (of_nat b) = 0") (auto simp: refill_fast_bin_def Let_def)
  next
    case False
    then obtain ps where ps: "a_mmaps st = slab # ps" using mm by (auto simp: mmap_slab_def split: list.splits)
    with mm False have st1: "st1 = st\<lparr>a_mmaps := ps, a_mem := map_zeroed (a_mem st) slab ?bytes\<rparr>"
      by (simp add: mmap_slab_def)
    have fresh: "slab \<noteq> nullptr" "unat slab + unat ?bytes \<le> 2 ^ 64" "\<And>a. in_block slab ?bytes a \<Longrightarrow> a_mem st a = None"
      using os ps False by (auto simp: os_answer_def fresh_region_def)
    have fits: "?n * ?bs \<le> unat ?bytes" by (rule block_count_fits [OF b])
    have "segment (read_le (a_mem st) 8) (g_fast_alloc_bins st b) (F b) nullptr"
      using ok b unfolding alloc_ok_def frees_ok_def by blast
    then have F0: "F b = []" by (simp add: empty)
    have inside: "in_block slab ?bytes (slab + of_nat k)" if "k < ?n * ?bs" for k
      using that fits by (auto simp: in_block_offsets intro!: exI [of _ k])
    have bound: "?n * ?bs \<le> 2 ^ 64" "unat slab + ?n * ?bs \<le> 2 ^ 64" using fits fresh(2) by linarith+
    obtain m' p where m': "refill_loop st1 b slab (of_nat ?bs) ?n
        = Some (st1\<lparr>a_mem := m', g_fast_alloc_bins := (g_fast_alloc_bins st1)(b := p)\<rparr>)"
      "segment (read_le m' 8) p (slab_nodes slab ?bs ?n @ []) nullptr" "dom m' = dom (a_mem st1)"
      "\<forall>a. (\<forall>i < ?n. \<forall>k < 8. a \<noteq> slab + of_nat (i * ?bs + k)) \<longrightarrow> m' a = a_mem st1 a"
    proof -
      have "segment (read_le (a_mem st1) 8) (g_fast_alloc_bins st1 b) [] nullptr" using empty by (simp add: st1)
      moreover have "a_mem st1 (slab + of_nat k) \<noteq> None" if "k < ?n * ?bs" for k
        using inside [OF that] by (simp add: st1 map_zeroed_def)
      ultimately show ?thesis using refill_loop_fills [of st1 b "[]" ?n ?bs slab] bound(2) fresh(1) that by force
    qed
    let ?F = "F(b := slab_nodes slab ?bs ?n)"
    let ?st = "st1\<lparr>a_mem := m', g_fast_alloc_bins := (g_fast_alloc_bins st1)(b := p)\<rparr>"
    have run: "refill_fast_bin st (of_nat b) = Some (True, ?st)"
      using False mm m'(1) [folded bin_bytes] b unat_of_nat_u64 [of b] by (simp add: refill_fast_bin_def Let_def)
    have old: "m' a = a_mem st a" if "a_mem st a \<noteq> None" for a
    proof -
      have out: "\<not> in_block slab ?bytes a" using fresh(3) [of a] that by auto
      have "a \<noteq> slab + of_nat (i * ?bs + k)" if "i < ?n" "k < 8" for i k
      proof -
        have "i * ?bs + k < ?n * ?bs" using mult_le_mono1 [of "i + 1" ?n ?bs] that by simp
        from inside [OF this] out show ?thesis by auto
      qed
      then have "m' a = a_mem st1 a" using m'(4) by blast
      with out show ?thesis by (simp add: st1 map_zeroed_def)
    qed
    have owned: "a_mem st a \<noteq> None" if "x \<in> owners F U" "a \<in> region x" for x a
      using ok that by (auto simp: alloc_ok_def)
    have free: "a_mem st a \<noteq> None" if "c < 32" "q \<in> set (F c)" "a \<in> region (FreeBlock c q)" for c q a
      using owned [OF _ that(3)] that(1,2) by (auto simp: owners_def)
    have zero: "m' (x + of_nat k) = Some 0" if x: "x \<in> set (slab_nodes slab ?bs ?n)" and k: "8 \<le> k" "k < ?bs" for x k
    proof -
      obtain i where i: "i < ?n" "x = slab + of_nat (i * ?bs)" using x unfolding slab_node by blast
      have i': "i * ?bs + k < ?n * ?bs" using mult_le_mono1 [of "i + 1" ?n ?bs] i(1) k(2) by simp
      have "x + of_nat k \<noteq> slab + of_nat (j * ?bs + l)" if j: "j < ?n" "l < 8" for j l
      proof
        have j': "j * ?bs + l < ?n * ?bs" using mult_le_mono1 [of "j + 1" ?n ?bs] j by simp
        assume "x + of_nat k = slab + of_nat (j * ?bs + l)"
        then have "slab + of_nat (i * ?bs + k) = slab + of_nat (j * ?bs + l)" by (simp add: i(2) add.assoc)
        then have eq: "i * ?bs + k = j * ?bs + l" by (rule same_offset) (use i' j' bound(1) in linarith)+
        have "(i * ?bs + k) mod ?bs = k" "(j * ?bs + l) mod ?bs = l" using k(2) j(2) by simp_all
        with eq k(1) j(2) show False by simp
      qed
      then have "m' (x + of_nat k) = a_mem st1 (x + of_nat k)" using m'(4) by blast
      moreover have "in_block slab ?bytes (x + of_nat k)" using inside [OF i'] by (simp add: i(2) add.assoc)
      ultimately show ?thesis by (simp add: st1 map_zeroed_def)
    qed
    have "frees_ok m' (g_fast_alloc_bins st) F"
      by (rule frees_ok_cong [of "a_mem st"]) (use ok old free in \<open>simp_all add: alloc_ok_def\<close>)
    then have frees: "frees_ok m' ((g_fast_alloc_bins st)(b := p)) ?F"
      by (rule frees_ok_update) (use m'(2) slab_nodes_distinct bound(1) zero in simp_all)
    have sub: "owners ?F U \<subseteq> owners F U \<union> FreeBlock b ` set (slab_nodes slab ?bs ?n)"
      by (auto simp: owners_def F0 split: if_splits)
    have slab_region: "in_block slab ?bytes a"
      if x: "x \<in> FreeBlock b ` set (slab_nodes slab ?bs ?n)" and a: "a \<in> region x" for x a
    proof -
      obtain i where i: "i < ?n" "x = FreeBlock b (slab + of_nat (i * ?bs))" using x unfolding slab_owner by blast
      obtain k where k: "k < ?bs" "a = slab + of_nat (i * ?bs) + of_nat k"
        using a unfolding i(2) region_free [OF b] by blast
      have "i * ?bs + k < ?n * ?bs" using mult_le_mono1 [of "i + 1" ?n ?bs] i(1) k(1) by simp
      from inside [OF this] show ?thesis by (simp add: k(2) add.assoc)
    qed
    have "apart (owners F U \<union> FreeBlock b ` set (slab_nodes slab ?bs ?n))"
    proof (rule apart_union)
      show "apart (owners F U)" using ok by (simp add: alloc_ok_def)
      show "apart (FreeBlock b ` set (slab_nodes slab ?bs ?n))" by (rule nodes_apart [OF b bound(1)])
      show "disjnt (region x) (region y)" if "x \<in> owners F U" "y \<in> FreeBlock b ` set (slab_nodes slab ?bs ?n)" for x y
        unfolding disjnt_iff using owned [OF that(1)] slab_region [OF that(2)] fresh(3) by metis
    qed
    then have "apart (owners ?F U)" using sub by (rule apart_subset)
    moreover have "region x \<subseteq> dom m'" if "x \<in> owners ?F U" for x
    proof
      fix a assume a: "a \<in> region x"
      have "a_mem st a \<noteq> None \<or> in_block slab ?bytes a" using sub that owned slab_region a by blast
      then have "a \<in> dom (a_mem st1)" by (auto simp: st1 map_zeroed_def)
      with m'(3) show "a \<in> dom m'" by simp
    qed
    moreover have "live_ok (a_heap ?st) U" using ok by (simp add: alloc_ok_def st1)
    ultimately have "alloc_ok ?st ?F U" using frees by (simp add: alloc_ok_def st1)
    moreover have "p \<noteq> nullptr"
    proof -
      have "0 < ?n" using False by (simp add: unat_gt_0)
      then have "slab_nodes slab ?bs ?n \<noteq> []" by (simp add: slab_nodes_def)
      with m'(2) show ?thesis by (cases "slab_nodes slab ?bs ?n") auto
    qed
    ultimately show ?thesis using run by (intro exI [of _ True] exI [of _ ?st] exI [of _ ?F]) (simp add: st1)
  qed
qed

lemma owners_insert: "owners F (insert r U) = insert (LiveBlock r) (owners F U)"
  by (simp add: owners_def)

lemma bytes_at_nth: "bytes_at m p bs \<Longrightarrow> i < length bs \<Longrightarrow> m (p + of_nat i) = Some (bs ! i)"
proof (induction bs arbitrary: p i)
  case (Cons b bs)
  show ?case
  proof (cases i)
    case (Suc j)
    with Cons.prems Cons.IH [of "p + 1" j] show ?thesis by (simp add: step_offset del: of_nat_Suc)
  qed (use Cons.prems in simp)
qed simp

lemma null_bytes: "le_bytes n 0 = replicate n 0"
  by (induction n) simp_all

lemma alloc_ok_free:
  assumes "alloc_ok st F U" "b < 32"
  shows "segment (read_le (a_mem st) 8) (g_fast_alloc_bins st b) (F b) nullptr" "distinct (F b)"
    and "\<And>p k. p \<in> set (F b) \<Longrightarrow> 8 \<le> k \<Longrightarrow> k < 16 * (b + 1) \<Longrightarrow> a_mem st (p + of_nat k) = Some 0"
    and "\<And>p k. p \<in> set (F b) \<Longrightarrow> k < 16 * (b + 1) \<Longrightarrow> a_mem st (p + of_nat k) \<noteq> None"
proof -
  show "segment (read_le (a_mem st) 8) (g_fast_alloc_bins st b) (F b) nullptr" "distinct (F b)"
    "\<And>p k. p \<in> set (F b) \<Longrightarrow> 8 \<le> k \<Longrightarrow> k < 16 * (b + 1) \<Longrightarrow> a_mem st (p + of_nat k) = Some 0"
    using assms unfolding alloc_ok_def frees_ok_def by blast+
  fix p k assume p: "p \<in> set (F b)" "k < 16 * (b + 1)"
  then have "FreeBlock b p \<in> owners F U" "p + of_nat k \<in> region (FreeBlock b p)"
    using assms(2) region_free [OF assms(2)] by (auto simp: owners_def)
  with assms(1) show "a_mem st (p + of_nat k) \<noteq> None" unfolding alloc_ok_def by blast
qed

lemma alloc_ok_apart:
  "alloc_ok st F U \<Longrightarrow> x \<in> owners F U \<Longrightarrow> y \<in> owners F U \<Longrightarrow> x \<noteq> y \<Longrightarrow> disjnt (region x) (region y)"
  by (auto simp: alloc_ok_def apart_def pairwise_def)

lemma nonempty_live: "sf_default_allocator_returns_zeroed n al \<Longrightarrow> p \<in> region (LiveBlock (p, n, al))"
proof -
  assume "sf_default_allocator_returns_zeroed n al"
  then obtain b where "b < 32" "live_size n al = fast_bin_size (of_nat b)" using small_bin by blast
  then show ?thesis by (auto simp: in_block_def word_gt_0 unat_eq_0 [symmetric] unat_bin_bytes)
qed

lemma requested_inside: "{a. in_block p n a} \<subseteq> region (LiveBlock (p, n, al))"
proof (cases "sf_default_allocator_returns_zeroed n al")
  case True
  then obtain b where b: "b < 32" "live_size n al = fast_bin_size (of_nat b)" "unat n \<le> 16 * (b + 1)"
    using small_bin by blast
  then show ?thesis by (auto simp: in_block_def word_less_nat_alt unat_bin_bytes)
qed (simp add: live_size_def)

text \<open>Taking the first block of a free list.\<close>

lemma pop_keeps:
  assumes ok: "alloc_ok st F U" and b: "b < 32" and full: "g_fast_alloc_bins st b \<noteq> nullptr"
    and small: "sf_default_allocator_returns_zeroed n al" "fast_bin_index n = of_nat b"
  shows "\<exists>p nxt st' F'. p = g_fast_alloc_bins st b \<and> read_le (a_mem st) 8 p = Some nxt
     \<and> write_next (st\<lparr>g_fast_alloc_bins := (g_fast_alloc_bins st)(b := nxt)\<rparr>) p nullptr = Some st'
     \<and> alloc_ok st' F' (insert (p, n, al) U) \<and> (\<forall>k < unat n. a_mem st' (p + of_nat k) = Some 0)
     \<and> clear_of (p, n, al) U
     \<and> a_callocs st' = a_callocs st"
proof -
  note free = alloc_ok_free [OF ok b]
  let ?p = "g_fast_alloc_bins st b"
  obtain ps where F: "F b = ?p # ps" using free(1) full by (cases "F b") auto
  obtain nxt where nxt: "read_le (a_mem st) 8 ?p = Some nxt" "segment (read_le (a_mem st) 8) nxt ps nullptr"
    using free(1) F by (auto split: option.splits)
  let ?st = "st\<lparr>g_fast_alloc_bins := (g_fast_alloc_bins st)(b := nxt)\<rparr>"
  have pF: "?p \<in> set (F b)" by (simp add: F)
  have "a_mem ?st (?p + of_nat k) \<noteq> None" if "k < 8" for k
    using free(4) [OF pF] that by simp
  from write_next_links [of ?st ?p nullptr, OF this] obtain m' where
    m': "write_next ?st ?p nullptr = Some (?st\<lparr>a_mem := m'\<rparr>)" "bytes_at m' ?p (le_bytes 8 nullptr)"
      "\<forall>a. (\<forall>k < 8. a \<noteq> ?p + of_nat k) \<longrightarrow> m' a = a_mem ?st a" "dom m' = dom (a_mem ?st)" by blast
  have idx: "live_size n al = fast_bin_size (of_nat b)" "unat n \<le> 16 * (b + 1)"
    using small_bin [OF small(1)] small(2) b unat_of_nat_u64 [of b] by auto
  have reg: "region (LiveBlock (?p, n, al)) = region (FreeBlock b ?p)" by (simp add: idx)
  have own: "FreeBlock b ?p \<in> owners F U" using b pF by (auto simp: owners_def)
  have zero: "m' (?p + of_nat k) = Some 0" if k: "k < 16 * (b + 1)" for k
  proof (cases "k < 8")
    case True
    then show ?thesis using bytes_at_nth [OF m'(2), of k] by (simp add: null_bytes del: le_bytes.simps)
  next
    case False
    have "?p + of_nat k \<noteq> ?p + of_nat j" if "j < 8" for j
      using same_offset [of ?p k j] False that k b by auto
    then have "m' (?p + of_nat k) = a_mem ?st (?p + of_nat k)" using m'(3) by blast
    with free(3) [OF pF, of k] False k show ?thesis by simp
  qed
  have keep: "m' a = a_mem st a" if "x \<in> owners F U" "x \<noteq> FreeBlock b ?p" "a \<in> region x" for x a
  proof -
    have "a \<notin> region (FreeBlock b ?p)" using alloc_ok_apart [OF ok that(1) own that(2)] that(3) by (auto simp: disjnt_iff)
    then have "\<forall>k < 8. a \<noteq> ?p + of_nat k" unfolding region_free [OF b] by auto
    then show ?thesis using m'(3) by simp
  qed
  let ?F = "F(b := ps)"
  have other: "x \<in> owners F U \<and> x \<noteq> FreeBlock b ?p" if "x \<in> owners ?F U" for x
    using that alloc_ok_free(2) [OF ok b] b by (auto simp: owners_def F split: if_splits)
  have "frees_ok (a_mem st) ((g_fast_alloc_bins st)(b := nxt)) ?F"
  proof (rule frees_ok_update)
    show "frees_ok (a_mem st) (g_fast_alloc_bins st) F" using ok by (simp add: alloc_ok_def)
    show "distinct ps" using free(2) F by simp
    show "a_mem st (x + of_nat k) = Some 0" if "x \<in> set ps" "8 \<le> k" "k < 16 * (b + 1)" for x k
      using free(3) that F by simp
  qed (rule nxt(2))
  then have frees: "frees_ok m' ((g_fast_alloc_bins st)(b := nxt)) ?F"
  proof (rule frees_ok_cong)
    fix c q a assume c: "c < 32" "q \<in> set (?F c)" "a \<in> region (FreeBlock c q)"
    then have "FreeBlock c q \<in> owners ?F U" by (auto simp: owners_def)
    with other keep c(3) show "m' a = a_mem st a" by blast
  qed
  have sub: "owners ?F (insert (?p, n, al) U) \<subseteq> insert (LiveBlock (?p, n, al)) (owners F U - {FreeBlock b ?p})"
    unfolding owners_insert using other by blast
  have "apart (owners ?F (insert (?p, n, al) U))"
    by (rule apart_swap [OF _ own reg sub]) (use ok in \<open>simp add: alloc_ok_def\<close>)
  moreover have "region x \<subseteq> dom m'" if "x \<in> owners ?F (insert (?p, n, al) U)" for x
  proof -
    have "x = LiveBlock (?p, n, al) \<or> x \<in> owners F U" using sub that by blast
    then have "region x \<subseteq> dom (a_mem st)" using ok own reg by (auto simp only: alloc_ok_def)
    then show ?thesis using m'(4) by simp
  qed
  moreover have "live_ok (a_heap st) (insert (?p, n, al) U)"
    using ok small(1) full by (auto simp: alloc_ok_def live_ok_def)
  ultimately have "alloc_ok (?st\<lparr>a_mem := m'\<rparr>) ?F (insert (?p, n, al) U)" using frees by (simp add: alloc_ok_def)
  moreover have "clear_of (?p, n, al) U"
    unfolding clear_of_def
  proof
    fix r assume "r \<in> U"
    then have "LiveBlock r \<in> owners F U" by (auto simp: owners_def)
    from alloc_ok_apart [OF ok own this] show "disjnt (region (LiveBlock (?p, n, al))) (region (LiveBlock r))"
      unfolding reg by simp
  qed
  ultimately show ?thesis using nxt(1) m'(1) zero idx(2)
    by (intro exI [of _ ?p] exI [of _ nxt] exI [of _ "?st\<lparr>a_mem := m'\<rparr>"] exI [of _ ?F] conjI) simp_all
qed

text \<open>A block from the system: it overlaps nothing that is owned.\<close>

lemma fresh_keeps:
  assumes ok: "alloc_ok st F U" and fresh: "fresh_region st p n"
    and st': "g_fast_alloc_bins st' = g_fast_alloc_bins st" "a_heap st' = (a_heap st)(p \<mapsto> n)"
      "\<And>a. \<not> in_block p n a \<Longrightarrow> a_mem st' a = a_mem st a" "\<And>a. in_block p n a \<Longrightarrow> a_mem st' a \<noteq> None"
    and whole: "live_size n al = n"
  shows "alloc_ok st' F (insert (p, n, al) U)
     \<and> clear_of (p, n, al) U"
proof -
  have p: "p \<noteq> nullptr" "a_heap st p = None" "\<And>a. in_block p n a \<Longrightarrow> a_mem st a = None"
    using fresh by (auto simp: fresh_region_def)
  have reg: "region (LiveBlock (p, n, al)) = {a. in_block p n a}" by (simp add: whole)
  have owned: "a_mem st a \<noteq> None" if "x \<in> owners F U" "a \<in> region x" for x a
    using ok that by (auto simp: alloc_ok_def)
  have keep: "a_mem st' a = a_mem st a" if "x \<in> owners F U" "a \<in> region x" for x a
  proof -
    have "\<not> in_block p n a" using owned [OF that] p(3) by metis
    then show ?thesis by (rule st'(3))
  qed
  have new: "disjnt (region x) (region (LiveBlock (p, n, al)))" if "x \<in> owners F U" for x
    unfolding disjnt_iff reg mem_Collect_eq using owned [OF that] p(3) by metis
  have "frees_ok (a_mem st') (g_fast_alloc_bins st') F" unfolding st'(1)
  proof (rule frees_ok_cong)
    show "frees_ok (a_mem st) (g_fast_alloc_bins st) F" using ok by (simp add: alloc_ok_def)
    show "a_mem st' a = a_mem st a" if "c < 32" "q \<in> set (F c)" "a \<in> region (FreeBlock c q)" for c q a
      by (rule keep [OF _ that(3)]) (use that(1,2) in \<open>auto simp: owners_def\<close>)
  qed
  moreover have "apart (owners F U \<union> {LiveBlock (p, n, al)})"
    by (rule apart_union) (use ok new in \<open>simp_all add: alloc_ok_def apart_def pairwise_def\<close>)
  then have "apart (owners F (insert (p, n, al) U))" by (simp add: owners_insert)
  moreover have "region x \<subseteq> dom (a_mem st')" if "x \<in> owners F (insert (p, n, al) U)" for x
  proof
    fix a assume a: "a \<in> region x"
    show "a \<in> dom (a_mem st')"
    proof (cases "x = LiveBlock (p, n, al)")
      case True
      with a reg st'(4) show ?thesis by auto
    next
      case False
      with that owners_insert have "x \<in> owners F U" by simp
      with a keep owned show ?thesis by fastforce
    qed
  qed
  moreover have "live_ok (a_heap st') (insert (p, n, al) U)"
    unfolding live_ok_def st'(2)
  proof (intro allI impI conjI)
    fix q n' al' assume q: "(q, n', al') \<in> insert (p, n, al) U"
    have live: "live_ok (a_heap st) U" using ok by (simp add: alloc_ok_def)
    then show "q \<noteq> nullptr" using q p(1) by (auto simp: live_ok_def)
    assume large: "\<not> sf_default_allocator_returns_zeroed n' al'"
    have not_p: "q' \<noteq> p" if "(q', k, l) \<in> U" "\<not> sf_default_allocator_returns_zeroed k l" for q' k l
      using live that p(2) by (auto simp: live_ok_def)
    show "((a_heap st)(p \<mapsto> n)) q = Some n'"
    proof (cases "(q, n', al') \<in> U")
      case True
      with not_p large live show ?thesis by (simp add: live_ok_def)
    qed (use q in simp)
    fix k l assume "(q, k, l) \<in> insert (p, n, al) U \<and> \<not> sf_default_allocator_returns_zeroed k l"
    then have "(q, k, l) = (q, n', al')" using q large live not_p unfolding live_ok_def by blast
    then show "k = n'" "l = al'" by simp_all
  qed
  moreover have "clear_of (p, n, al) U"
    unfolding clear_of_def
  proof
    fix r assume "r \<in> U"
    then have "LiveBlock r \<in> owners F U" by (simp add: owners_def)
    from new [OF this] show "disjnt (region (LiveBlock (p, n, al))) (region (LiveBlock r))" by (rule disjnt_sym)
  qed
  ultimately show ?thesis by (simp add: alloc_ok_def)
qed

lemma calloc_keeps:
  assumes ok: "alloc_ok st F U" and os: "os_answer st (a_callocs st) n" and whole: "live_size n al = n"
    and run: "calloc_block st n = (p, st')"
  shows "if p = nullptr then alloc_ok st' F U else alloc_ok st' F (insert (p, n, al) U)
     \<and> clear_of (p, n, al) U"
proof (cases "p = nullptr")
  case True
  with run have "st' = st \<or> (\<exists>ps. st' = st\<lparr>a_callocs := ps\<rparr>)" by (auto simp: calloc_block_def split: list.splits)
  then have "alloc_ok st' F U" by (elim disjE exE) (use ok in \<open>simp_all add: alloc_ok_def\<close>)
  with True show ?thesis by simp
next
  case False
  with run obtain ps where ps: "a_callocs st = p # ps"
    "st' = st\<lparr>a_callocs := ps, a_mem := map_zeroed (a_mem st) p n, a_heap := (a_heap st)(p \<mapsto> n)\<rparr>"
    by (auto simp: calloc_block_def split: list.splits)
  have "fresh_region st p n" using os False ps(1) by (simp add: os_answer_def)
  from fresh_keeps [OF ok this _ _ _ _ whole, of st'] False show ?thesis by (simp add: ps(2) map_zeroed_def)
qed

lemma memalign_keeps:
  assumes ok: "alloc_ok st F U" and os: "os_answer st (a_memaligns st) n" and whole: "live_size n al = n"
    and run: "memalign_block st n = (p, st')"
  shows "if p = nullptr then alloc_ok st' F U else alloc_ok st' F (insert (p, n, al) U)
     \<and> clear_of (p, n, al) U"
proof (cases "p = nullptr")
  case True
  with run have "st' = st \<or> (\<exists>ps. st' = st\<lparr>a_memaligns := ps\<rparr>)" by (auto simp: memalign_block_def split: list.splits)
  then have "alloc_ok st' F U" by (elim disjE exE) (use ok in \<open>simp_all add: alloc_ok_def\<close>)
  with True show ?thesis by simp
next
  case False
  with run obtain ps where ps: "a_memaligns st = p # ps"
    "st' = st\<lparr>a_memaligns := ps, a_heap := (a_heap st)(p \<mapsto> n),
       a_mem := (\<lambda>a. if in_block p n a then Some 0xAA else a_mem st a)\<rparr>"
    by (auto simp: memalign_block_def split: list.splits)
  have "fresh_region st p n" using os False ps(1) by (simp add: os_answer_def)
  from fresh_keeps [OF ok this _ _ _ _ whole, of st'] False show ?thesis by (simp add: ps(2))
qed

text \<open>The run of a small request: its bin is refilled when it is empty, and answers unless it stays empty.\<close>

lemma small_alloc_run:
  assumes ok: "alloc_ok st F U" and os: "os_ok st n" and small: "sf_default_allocator_returns_zeroed n al"
  shows "\<exists>st1 F1. alloc_ok st1 F1 U \<and> a_callocs st1 = a_callocs st \<and>
     (let b = unat (fast_bin_index n) in
      if g_fast_alloc_bins st1 b \<noteq> nullptr
      then \<exists>nxt st'. read_le (a_mem st1) 8 (g_fast_alloc_bins st1 b) = Some nxt
        \<and> write_next (st1\<lparr>g_fast_alloc_bins := (g_fast_alloc_bins st1)(b := nxt)\<rparr>) (g_fast_alloc_bins st1 b) nullptr = Some st'
        \<and> default_alloc st n al = Some (g_fast_alloc_bins st1 b, st')
      else default_alloc st n al = Some (calloc_block st1 n) \<and> os_answer st1 (a_callocs st1) n)"
proof -
  obtain b where b: "b < 32" "fast_bin_index n = of_nat b" "unat (fast_bin_index n) = b" "fast_bin_index n \<noteq> - 1"
    using small_bin [OF small] by blast
  have al: "al \<le> sizeof_ptr" using small by (simp add: small_request)
  let ?pre = "if g_fast_alloc_bins st b = nullptr then map_option snd (refill_fast_bin st (fast_bin_index n)) else Some st"
  obtain st1 F1 where st1: "?pre = Some st1" "alloc_ok st1 F1 U" "a_callocs st1 = a_callocs st"
    "g_fast_alloc_bins st1 b = nullptr \<longrightarrow> a_mem st1 = a_mem st \<and> a_heap st1 = a_heap st"
  proof (cases "g_fast_alloc_bins st b = nullptr")
    case True
    have "os_answer st (a_mmaps st) (slab_size st (of_nat b))" using os b(2) by (simp add: os_ok_def)
    from refill_keeps [OF ok b(1) True this] True b(2) that show ?thesis by auto
  next
    case False
    with ok that show ?thesis by auto
  qed
  let ?p = "g_fast_alloc_bins st1 b"
  show ?thesis
  proof (cases "?p = nullptr")
    case True
    have "os_answer st1 (a_callocs st1) n"
      using os st1(3,4) True by (auto simp: os_ok_def os_answer_def fresh_region_def split: list.splits)
    moreover have "default_alloc st n al = Some (calloc_block st1 n)"
      using st1(1) True al b(3,4) by (simp add: default_alloc_def Let_def)
    ultimately show ?thesis using st1(2,3) True b(3) by (intro exI [of _ st1] exI [of _ F1]) simp
  next
    case False
    obtain nxt st' where run: "read_le (a_mem st1) 8 ?p = Some nxt"
      "write_next (st1\<lparr>g_fast_alloc_bins := (g_fast_alloc_bins st1)(b := nxt)\<rparr>) ?p nullptr = Some st'"
      using pop_keeps [OF st1(2) b(1) False small b(2)] by blast
    then have "default_alloc st n al = Some (?p, st')"
      using st1(1) False al b(3,4) by (simp add: default_alloc_def Let_def)
    with run show ?thesis using st1(2,3) False b(3) by (intro exI [of _ st1] exI [of _ F1]) simp
  qed
qed

lemma alloc_step:
  assumes ok: "alloc_ok st F U" and os: "os_ok st n"
  shows "\<exists>p st'. default_alloc st n al = Some (p, st')
     \<and> (sf_default_allocator_returns_zeroed n al \<and> p \<noteq> nullptr \<longrightarrow> (\<forall>k < unat n. a_mem st' (p + of_nat k) = Some 0))
     \<and> (live_size n al = n \<or> a_callocs st' = a_callocs st \<longrightarrow>
         (\<exists>F'. alloc_ok st' F' (if p = nullptr then U else insert (p, n, al) U)
           \<and> (p \<noteq> nullptr \<longrightarrow> clear_of (p, n, al) U)))"
proof (cases "sf_default_allocator_returns_zeroed n al")
  case False
  have whole: "live_size n al = n" using False by (simp add: live_size_def)
  have none: "al \<le> sizeof_ptr \<Longrightarrow> fast_bin_index n = - 1"
    using False by (simp add: sf_default_allocator_returns_zeroed_def)
  consider "al \<le> sizeof_ptr" | "\<not> al \<le> sizeof_ptr" "\<not> is_valid_alignment al" | "\<not> al \<le> sizeof_ptr" "is_valid_alignment al"
    by blast
  then show ?thesis
  proof cases
    case 1
    obtain p st' where run: "calloc_block st n = (p, st')" by (cases "calloc_block st n")
    have "default_alloc st n al = Some (p, st')" using 1 none run by (simp add: default_alloc_def)
    with calloc_keeps [OF ok _ whole run] os False show ?thesis by (auto simp: os_ok_def)
  next
    case 2
    then show ?thesis using ok False by (auto simp: default_alloc_def)
  next
    case 3
    obtain p st' where run: "memalign_block st n = (p, st')" by (cases "memalign_block st n")
    have "default_alloc st n al = Some (p, st')" using 3 run by (simp add: default_alloc_def)
    with memalign_keeps [OF ok _ whole run] os False show ?thesis by (auto simp: os_ok_def)
  qed
next
  case small: True
  obtain b where b: "b < 32" "fast_bin_index n = of_nat b" "unat (fast_bin_index n) = b"
    using small_bin [OF small] by blast
  obtain st1 F1 where st1: "alloc_ok st1 F1 U" "a_callocs st1 = a_callocs st" and
    run: "if g_fast_alloc_bins st1 b \<noteq> nullptr
      then \<exists>nxt st'. read_le (a_mem st1) 8 (g_fast_alloc_bins st1 b) = Some nxt
        \<and> write_next (st1\<lparr>g_fast_alloc_bins := (g_fast_alloc_bins st1)(b := nxt)\<rparr>) (g_fast_alloc_bins st1 b) nullptr = Some st'
        \<and> default_alloc st n al = Some (g_fast_alloc_bins st1 b, st')
      else default_alloc st n al = Some (calloc_block st1 n) \<and> os_answer st1 (a_callocs st1) n"
    using small_alloc_run [OF ok os small] by (auto simp: b(3) Let_def)
  show ?thesis
  proof (cases "g_fast_alloc_bins st1 b = nullptr")
    case False
    let ?p = "g_fast_alloc_bins st1 b"
    obtain st' F' where pop: "default_alloc st n al = Some (?p, st')" "alloc_ok st' F' (insert (?p, n, al) U)"
      "\<forall>k < unat n. a_mem st' (?p + of_nat k) = Some 0" "clear_of (?p, n, al) U"
      using pop_keeps [OF st1(1) b(1) False small b(2)] run False by auto
    then show ?thesis using False by (intro exI [of _ ?p] exI [of _ st']) auto
  next
    case True
    obtain p st' where p: "calloc_block st1 n = (p, st')" by (cases "calloc_block st1 n")
    have zero: "p \<noteq> nullptr \<Longrightarrow> k < unat n \<Longrightarrow> a_mem st' (p + of_nat k) = Some 0" for k
      using p by (auto simp: calloc_block_def map_zeroed_def in_block_offsets split: list.splits if_splits)
    have "a_callocs st' = a_callocs st \<Longrightarrow> p = nullptr \<and> alloc_ok st' F1 U"
      using p st1 by (auto simp: calloc_block_def split: list.splits if_splits)
    with calloc_keeps [OF st1(1) _ _ p, of al] run True p zero show ?thesis by auto
  qed
qed

text \<open>Giving a block back.\<close>

lemma owners_remove: "owners F (U - {r}) = owners F U - {LiveBlock r}"
  by (auto simp: owners_def)

lemma bin_rest:
  assumes "b < 32"
  shows "unat (fast_bin_size (of_nat b) - 8) = 16 * (b + 1) - 8" "fast_bin_size (of_nat b) > 8"
proof -
  show "fast_bin_size (of_nat b) > 8" using assms by (simp add: word_less_nat_alt unat_bin_bytes)
  then have "8 \<le> fast_bin_size (of_nat b)" by simp
  from unat_sub [OF this] show "unat (fast_bin_size (of_nat b) - 8) = 16 * (b + 1) - 8"
    using assms by (simp add: unat_bin_bytes)
qed

lemma free_small:
  assumes ok: "alloc_ok st F U" and r: "(p, n, al) \<in> U" and small: "sf_default_allocator_returns_zeroed n al"
  shows "\<exists>st' F'. default_free st p n al = Some st' \<and> alloc_ok st' F' (U - {(p, n, al)})"
proof -
  obtain b where b: "b < 32" "fast_bin_index n = of_nat b" "unat (fast_bin_index n) = b" "fast_bin_index n \<noteq> - 1"
    "live_size n al = fast_bin_size (of_nat b)"
    using small_bin [OF small] by blast
  let ?bs = "16 * (b + 1)"
  have al: "al \<le> sizeof_ptr" using small by (simp add: small_request)
  have p: "p \<noteq> nullptr" using ok r by (auto simp: alloc_ok_def live_ok_def)
  have own: "LiveBlock (p, n, al) \<in> owners F U" using r by (simp add: owners_def)
  have reg: "region (FreeBlock b p) = region (LiveBlock (p, n, al))" by (simp add: b(5))
  have mapped: "a_mem st (p + of_nat k) \<noteq> None" if "k < ?bs" for k
  proof -
    have "p + of_nat k \<in> region (LiveBlock (p, n, al))" unfolding reg [symmetric] region_free [OF b(1)] using that by blast
    then show ?thesis using ok own unfolding alloc_ok_def by blast
  qed
  note rest = bin_rest [OF b(1)]
  have shift: "p + 8 + of_nat k = p + of_nat (8 + k)" for k by (simp add: algebra_simps)
  have "a_mem st (p + 8 + of_nat k) \<noteq> None" if "k < ?bs - 8" for k
    unfolding shift by (rule mapped) (use that in simp)
  from memset_zero_mem [of "?bs - 8" "a_mem st" "p + 8", OF this] obtain m1 where
    m1: "memset_zero (a_mem st) (?bs - 8) (p + 8) = Some m1" "\<forall>k < ?bs - 8. m1 (p + 8 + of_nat k) = Some 0"
      "\<forall>a. (\<forall>k < ?bs - 8. a \<noteq> p + 8 + of_nat k) \<longrightarrow> m1 a = a_mem st a" "dom m1 = dom (a_mem st)" by blast
  have "a_mem (st\<lparr>a_mem := m1\<rparr>) (p + of_nat k) \<noteq> None" if "k < 8" for k
  proof -
    have "p + of_nat k \<in> dom (a_mem st)" using mapped [of k] that by auto
    then show ?thesis using m1(4) by auto
  qed
  from write_next_links [of "st\<lparr>a_mem := m1\<rparr>" p "g_fast_alloc_bins st b", OF this] obtain m' where
    m': "write_next (st\<lparr>a_mem := m1\<rparr>) p (g_fast_alloc_bins st b) = Some (st\<lparr>a_mem := m'\<rparr>)"
      "read_le m' 8 p = Some (g_fast_alloc_bins st b)"
      "\<forall>a. (\<forall>k < 8. a \<noteq> p + of_nat k) \<longrightarrow> m' a = m1 a" "dom m' = dom m1" by auto
  let ?F = "F(b := p # F b)"
  let ?st = "st\<lparr>a_mem := m', g_fast_alloc_bins := (g_fast_alloc_bins st)(b := p)\<rparr>"
  have run: "default_free st p n al = Some ?st"
    using p al b(2-4) rest m1(1) m'(1) by (simp add: default_free_def Let_def)
  have out: "m' a = a_mem st a" if "a \<notin> region (FreeBlock b p)" for a
  proof -
    have off: "a \<noteq> p + of_nat k" if "k < ?bs" for k
      using that \<open>a \<notin> region (FreeBlock b p)\<close> unfolding region_free [OF b(1)] by blast
    have "m' a = m1 a" using m'(3) off by simp
    moreover have "a \<noteq> p + 8 + of_nat k" if "k < ?bs - 8" for k
      unfolding shift by (rule off) (use that in simp)
    then have "m1 a = a_mem st a" using m1(3) by blast
    ultimately show ?thesis by simp
  qed
  have other: "disjnt (region (FreeBlock b p)) (region x)" if "x \<in> owners F U" "x \<noteq> LiveBlock (p, n, al)" for x
    unfolding reg using alloc_ok_apart [OF ok own that(1)] that(2) by simp
  have new: "p \<notin> set (F b)"
  proof
    assume "p \<in> set (F b)"
    then have "FreeBlock b p \<in> owners F U" using b(1) by (auto simp: owners_def)
    from other [OF this] nonempty_live [OF small, of p] reg show False by (auto simp: disjnt_iff)
  qed
  have "frees_ok m' (g_fast_alloc_bins st) F"
  proof (rule frees_ok_cong)
    show "frees_ok (a_mem st) (g_fast_alloc_bins st) F" using ok by (simp add: alloc_ok_def)
    fix c q a assume c: "c < 32" "q \<in> set (F c)" "a \<in> region (FreeBlock c q)"
    then have "FreeBlock c q \<in> owners F U" by (auto simp: owners_def)
    from other [OF this] c(3) show "m' a = a_mem st a" by (intro out) (auto simp: disjnt_iff)
  qed
  moreover from this have "segment (read_le m' 8) p (p # F b) nullptr"
    using m'(2) p b(1) by (simp add: frees_ok_def)
  moreover have "distinct (p # F b)" using new alloc_ok_free(2) [OF ok b(1)] by simp
  moreover have "m' (x + of_nat k) = Some 0" if "x \<in> set (p # F b)" "8 \<le> k" "k < ?bs" for x k
  proof (cases "x = p")
    case True
    have "p + of_nat k \<noteq> p + of_nat j" if "j < 8" for j
      using same_offset [of p k j] \<open>8 \<le> k\<close> \<open>k < ?bs\<close> that b(1) by auto
    then have "m' (x + of_nat k) = m1 (p + of_nat k)" using m'(3) True by blast
    moreover have "k - 8 < ?bs - 8" using \<open>8 \<le> k\<close> \<open>k < ?bs\<close> by simp
    then have "m1 (p + 8 + of_nat (k - 8)) = Some 0" using m1(2) by blast
    moreover have "8 + (k - 8) = k" using \<open>8 \<le> k\<close> by simp
    ultimately show ?thesis unfolding shift by metis
  next
    case False
    with that \<open>frees_ok m' (g_fast_alloc_bins st) F\<close> b(1) show ?thesis by (simp add: frees_ok_def)
  qed
  ultimately have frees: "frees_ok m' ((g_fast_alloc_bins st)(b := p)) ?F" by (rule frees_ok_update)
  have sub: "owners ?F (U - {(p, n, al)}) \<subseteq> insert (FreeBlock b p) (owners F U - {LiveBlock (p, n, al)})"
    unfolding owners_remove by (auto simp: owners_def split: if_splits)
  have "apart (owners ?F (U - {(p, n, al)}))"
    by (rule apart_swap [OF _ own reg sub]) (use ok in \<open>simp add: alloc_ok_def\<close>)
  moreover have "region x \<subseteq> dom m'" if "x \<in> owners ?F (U - {(p, n, al)})" for x
  proof -
    have "x = FreeBlock b p \<or> x \<in> owners F U" using sub that by blast
    then have "region x \<subseteq> dom (a_mem st)" using ok own reg by (auto simp only: alloc_ok_def)
    then show ?thesis using m'(4) m1(4) by simp
  qed
  moreover have "live_ok (a_heap st) (U - {(p, n, al)})" using ok unfolding alloc_ok_def live_ok_def by blast
  ultimately have "alloc_ok ?st ?F (U - {(p, n, al)})" using frees by (simp add: alloc_ok_def)
  with run show ?thesis by blast
qed

lemma free_large:
  assumes ok: "alloc_ok st F U" and r: "(p, n, al) \<in> U" and large: "\<not> sf_default_allocator_returns_zeroed n al"
  shows "\<exists>st'. default_free st p n al = Some st' \<and> alloc_ok st' F (U - {(p, n, al)})"
proof -
  have live: "live_ok (a_heap st) U" using ok by (simp add: alloc_ok_def)
  have p: "p \<noteq> nullptr" "a_heap st p = Some n" using live r large by (auto simp: live_ok_def)
  have own: "LiveBlock (p, n, al) \<in> owners F U" using r by (simp add: owners_def)
  have reg: "region (LiveBlock (p, n, al)) = {a. in_block p n a}" using large by (simp add: live_size_def)
  let ?st = "st\<lparr>a_heap := (a_heap st)(p := None), a_mem := (\<lambda>a. if in_block p n a then None else a_mem st a)\<rparr>"
  have "default_free st p n al = c_free st p"
    using p(1) large by (auto simp: default_free_def Let_def sf_default_allocator_returns_zeroed_def)
  then have run: "default_free st p n al = Some ?st" by (simp add: c_free_def p(2))
  have out: "\<not> in_block p n a" if "x \<in> owners F U" "x \<noteq> LiveBlock (p, n, al)" "a \<in> region x" for x a
    using alloc_ok_apart [OF ok own that(1)] that(2,3) reg by (auto simp: disjnt_iff)
  have "frees_ok (a_mem ?st) (g_fast_alloc_bins st) F"
  proof (rule frees_ok_cong)
    show "frees_ok (a_mem st) (g_fast_alloc_bins st) F" using ok by (simp add: alloc_ok_def)
    fix c q a assume c: "c < 32" "q \<in> set (F c)" "a \<in> region (FreeBlock c q)"
    then have "FreeBlock c q \<in> owners F U" by (auto simp: owners_def)
    from out [OF this _ c(3)] show "a_mem ?st a = a_mem st a" by simp
  qed
  moreover have "apart (owners F (U - {(p, n, al)}))"
    by (rule apart_subset [of "owners F U"]) (use ok in \<open>auto simp: alloc_ok_def owners_remove\<close>)
  moreover have "region x \<subseteq> dom (a_mem ?st)" if "x \<in> owners F (U - {(p, n, al)})" for x
  proof
    fix a assume a: "a \<in> region x"
    have x: "x \<in> owners F U" "x \<noteq> LiveBlock (p, n, al)" using that by (auto simp: owners_remove)
    with ok a have "a \<in> dom (a_mem st)" unfolding alloc_ok_def by blast
    with out [OF x a] show "a \<in> dom (a_mem ?st)" by auto
  qed
  moreover have "live_ok (a_heap ?st) (U - {(p, n, al)})"
    unfolding live_ok_def
  proof (intro allI impI conjI)
    fix q k l assume q: "(q, k, l) \<in> U - {(p, n, al)}"
    then show "q \<noteq> nullptr" using live by (auto simp: live_ok_def)
    assume lq: "\<not> sf_default_allocator_returns_zeroed k l"
    have "q \<noteq> p" using live r large q lq unfolding live_ok_def by blast
    then show "a_heap ?st q = Some k" using live q lq by (auto simp: live_ok_def)
    fix k' l' assume "(q, k', l') \<in> U - {(p, n, al)} \<and> \<not> sf_default_allocator_returns_zeroed k' l'"
    then show "k' = k" "l' = l" using live q lq unfolding live_ok_def by blast+
  qed
  ultimately have "alloc_ok ?st F (U - {(p, n, al)})" by (simp add: alloc_ok_def)
  with run show ?thesis by blast
qed

lemma free_step:
  "alloc_ok st F U \<Longrightarrow> (p, n, al) \<in> U \<Longrightarrow>
     \<exists>st' F'. default_free st p n al = Some st' \<and> alloc_ok st' F' (U - {(p, n, al)})"
  using free_small free_large by blast

lemma use_step:
  assumes ok: "alloc_ok st F U" and dom: "dom m' = dom (a_mem st)"
    and writes: "\<And>a. m' a \<noteq> a_mem st a \<Longrightarrow> \<exists>(p, n, al) \<in> U. in_block p n a"
  shows "alloc_ok (st\<lparr>a_mem := m'\<rparr>) F U"
proof -
  have "frees_ok m' (g_fast_alloc_bins st) F"
  proof (rule frees_ok_cong)
    show "frees_ok (a_mem st) (g_fast_alloc_bins st) F" using ok by (simp add: alloc_ok_def)
    fix b p a assume b: "b < 32" "p \<in> set (F b)" "a \<in> region (FreeBlock b p)"
    have own: "FreeBlock b p \<in> owners F U" using b(1,2) by (auto simp: owners_def)
    show "m' a = a_mem st a"
    proof (rule ccontr)
      assume "m' a \<noteq> a_mem st a"
      from writes [OF this] obtain q n al where q: "(q, n, al) \<in> U" "in_block q n a" by blast
      have "LiveBlock (q, n, al) \<in> owners F U" using q(1) by (simp add: owners_def)
      from alloc_ok_apart [OF ok own this] b(3) requested_inside [of q n al] q(2) show False
        unfolding disjnt_iff by blast
    qed
  qed
  with ok dom show ?thesis by (simp add: alloc_ok_def)
qed

section \<open>Programs that allocate\<close>

text \<open>What a program and the system do, one step after the other: the program asks for blocks, writes to those
  it has, and gives them back with the size and alignment it asked for; the system decides what it will
  answer.  One case is left out, the fallback to \<open>calloc\<close> for a small request that does not fill its bin: the block
  is then shorter than the bin believes (\<open>refill_fallback_overflow\<close>).\<close>

inductive alloc_reachable :: "fast_alloc \<Rightarrow> (addr \<times> u64 \<times> u64) set \<Rightarrow> bool" where
  start: "(\<And>b. g_fast_alloc_bins st b = nullptr) \<Longrightarrow> alloc_reachable st {}"
| alloc: "alloc_reachable st U \<Longrightarrow> os_ok st n \<Longrightarrow> default_alloc st n al = Some (p, st')
    \<Longrightarrow> live_size n al = n \<or> a_callocs st' = a_callocs st
    \<Longrightarrow> alloc_reachable st' (if p = nullptr then U else insert (p, n, al) U)"
| dealloc: "alloc_reachable st U \<Longrightarrow> (p, n, al) \<in> U \<Longrightarrow> default_free st p n al = Some st'
    \<Longrightarrow> alloc_reachable st' (U - {(p, n, al)})"
| writes: "alloc_reachable st U \<Longrightarrow> dom m' = dom (a_mem st)
    \<Longrightarrow> (\<And>a. m' a \<noteq> a_mem st a \<Longrightarrow> \<exists>(p, n, al) \<in> U. in_block p n a) \<Longrightarrow> alloc_reachable (st\<lparr>a_mem := m'\<rparr>) U"
| answers: "alloc_reachable st U
    \<Longrightarrow> alloc_reachable (st\<lparr>a_sysconf := pg, a_mmaps := ms, a_callocs := cs, a_memaligns := als\<rparr>) U"

lemma reachable_ok: "alloc_reachable st U \<Longrightarrow> \<exists>F. alloc_ok st F U"
proof (induction rule: alloc_reachable.induct)
  case (start st)
  then have "alloc_ok st (\<lambda>_. []) {}" by (simp add: alloc_ok_def frees_ok_def owners_def apart_def live_ok_def)
  then show ?case by blast
next
  case (alloc st U n al p st')
  then obtain F where "alloc_ok st F U" by blast
  from alloc_step [OF this alloc.hyps(2), of al] alloc.hyps(3,4) show ?case by auto
next
  case (dealloc st U p n al st')
  then obtain F where "alloc_ok st F U" by blast
  from free_step [OF this dealloc.hyps(2)] dealloc.hyps(3) show ?case by auto
next
  case (writes st U m')
  then show ?case using use_step by blast
next
  case (answers st U pg ms cs als)
  then show ?case by (auto simp: alloc_ok_def)
qed

text \<open>C26: Whatever a program has allocated, written and freed before, a request to the default allocator
  returns: it does not touch unmapped memory.  For the sizes of which \<open>sf_default_allocator_returns_zeroed\<close> promises
  it, every byte of the block is zero.  The block overlaps no block that is in use (unless it came from the fallback
  to \<open>calloc\<close> with less than its bin holds), and every block in use can be given back.\<close>

theorem allocator_returns_zeroed:
  assumes "alloc_reachable st U" "os_ok st n"
  shows "(\<exists>p st'. default_alloc st n al = Some (p, st')
     \<and> (sf_default_allocator_returns_zeroed n al \<and> p \<noteq> nullptr \<longrightarrow> (\<forall>k < unat n. a_mem st' (p + of_nat k) = Some 0))
     \<and> (p \<noteq> nullptr \<and> (live_size n al = n \<or> a_callocs st' = a_callocs st) \<longrightarrow> clear_of (p, n, al) U))
     \<and> (\<forall>(q, k, l) \<in> U. default_free st q k l \<noteq> None)"
proof -
  obtain F where ok: "alloc_ok st F U" using reachable_ok [OF assms(1)] by blast
  then have "\<forall>(q, k, l) \<in> U. default_free st q k l \<noteq> None" using free_step by fastforce
  with alloc_step [OF ok assms(2), of al] show ?thesis by auto
qed

definition demo_alloc :: fast_alloc where
  "demo_alloc = \<lparr>a_mem = Map.empty, g_fast_alloc_bins = (\<lambda>_. nullptr), a_sysconf = 4096, a_mmaps = [0x10000],
     a_callocs = [0x1000], a_memaligns = [], a_heap = Map.empty\<rparr>"

lemma demo_slab: "slab_size demo_alloc (fast_bin_index 24) = 4096"
  by (simp add: slab_size_def demo_alloc_def fast_bin_index_def fast_bin_size_def fast_consts runtime_page_size_def
      align_up_pages_def)

lemma demo_os_ok: "os_ok demo_alloc 24"
  using demo_slab by (simp add: os_ok_def os_answer_def fresh_region_def demo_alloc_def)

theorem allocator_returns_zeroed_witness:
  "\<exists>p st'. default_alloc demo_alloc 24 8 = Some (p, st') \<and> (p \<noteq> nullptr \<longrightarrow> (\<forall>k < 24. a_mem st' (p + of_nat k) = Some 0))"
proof -
  have "alloc_reachable demo_alloc {}" by (rule start) (simp add: demo_alloc_def)
  from allocator_returns_zeroed [OF this demo_os_ok, of 8] show ?thesis
    by (auto simp: small_request)
qed

text \<open>C27: When a bin cannot be refilled, a request for less than its block size is answered by \<open>calloc\<close> with just what was
  asked for, but \<open>default_free\<close> takes the block for one of the bin and clears all of the bin's size: when nothing is
  mapped there the program faults, and otherwise somebody else's memory is overwritten.\<close>

theorem refill_fallback_overflow:
  assumes small: "sf_default_allocator_returns_zeroed n al" "n < live_size n al"
    and empty: "g_fast_alloc_bins st (unat (fast_bin_index n)) = nullptr"
    and os: "a_mmaps st = nullptr # ms" "a_callocs st = p # cs" "p \<noteq> nullptr"
    and behind: "a_mem st (p + (live_size n al - 1)) = None"
  shows "\<exists>st'. default_alloc st n al = Some (p, st') \<and> default_free st' p n al = None"
proof -
  obtain b where b: "b < 32" "fast_bin_index n = of_nat b" "unat (fast_bin_index n) = b" "fast_bin_index n \<noteq> - 1"
    "live_size n al = fast_bin_size (of_nat b)"
    using small_bin [OF small(1)] by blast
  let ?bs = "16 * (b + 1)"
  have al: "al \<le> sizeof_ptr" using small by (simp add: small_request)
  have size: "unat (live_size n al) = ?bs" "unat (live_size n al - 1) = ?bs - 1"
    using b(1) by (simp_all add: b(5) unat_bin_bytes bin_bytes [symmetric] unat_minus_one flip: unat_eq_0)
  obtain st2 where st2: "refill_fast_bin st (of_nat b) = Some (False, st2)" "st2 = st \<or> st2 = st\<lparr>a_mmaps := ms\<rparr>"
  proof (cases "slab_size st (of_nat b) div fast_bin_size (of_nat b) = 0")
    case True
    then show ?thesis using that [of st] by (simp add: refill_fast_bin_def Let_def)
  next
    case False
    then show ?thesis using that [of "st\<lparr>a_mmaps := ms\<rparr>"] os(1) by (simp add: refill_fast_bin_def Let_def mmap_slab_def)
  qed
  then have st2_fields: "g_fast_alloc_bins st2 b = nullptr" "a_callocs st2 = p # cs" "a_mem st2 = a_mem st"
    using empty os(2) b(3) by auto
  let ?st' = "st2\<lparr>a_callocs := cs, a_mem := map_zeroed (a_mem st2) p n, a_heap := (a_heap st2)(p \<mapsto> n)\<rparr>"
  have run: "default_alloc st n al = Some (p, ?st')"
    using al b(2-4) empty st2(1) st2_fields os(3) by (simp add: default_alloc_def Let_def calloc_block_def)
  have "\<not> live_size n al - 1 < n" using small(2) size by (simp add: word_less_nat_alt)
  then have "\<not> in_block p n (p + (live_size n al - 1))" by (simp add: in_block_def)
  then have "a_mem ?st' (p + (live_size n al - 1)) = None" using behind by (simp add: map_zeroed_def st2_fields)
  moreover have "p + (live_size n al - 1) = p + 8 + of_nat (?bs - 9)"
  proof -
    have "live_size n al - 1 = of_nat (?bs - 1)" unfolding size(2) [symmetric] by simp
    also have "?bs - 1 = 8 + (?bs - 9)" by simp
    finally show ?thesis by (simp only: of_nat_add of_nat_numeral add.assoc)
  qed
  ultimately have "a_mem ?st' (p + 8 + of_nat (?bs - 9)) = None" by metis
  then have "memset_zero (a_mem ?st') (?bs - 8) (p + 8) = None" by (rule memset_zero_unmapped [rotated]) simp
  moreover have "unat (fast_bin_size (of_nat b) - 8) = ?bs - 8" "fast_bin_size (of_nat b) > 8"
    using bin_rest [OF b(1)] by auto
  ultimately have "default_free ?st' p n al = None"
    using os(3) al b(2-4) by (simp add: default_free_def Let_def)
  with run show ?thesis by blast
qed

theorem refill_fallback_overflow_witness:
  "\<exists>st'. default_alloc (demo_alloc\<lparr>a_mmaps := [nullptr]\<rparr>) 17 8 = Some (0x1000, st') \<and> default_free st' 0x1000 17 8 = None"
  by (rule refill_fallback_overflow [where ms = "[]" and cs = "[]"])
    (simp_all add: small_request live_size_def demo_alloc_def fast_bin_size_def fast_bin_index_def fast_consts)

end
