(* ===== verification/SF_Encode.thy ===== *)
theory SF_Encode
  imports SF_Signature
begin

text \<open>
  What the encoding scanner is for: the abstract syntax of the C types a compiler encodes, the
  encoding it emits for them, and the size and alignment the C ABI gives them, stated on natural
  numbers and without reference to the scanner.  The scanner of \<open>SF_Signature\<close> is proved to
  compute exactly these on every encoding of that grammar.
\<close>

section \<open>Types, encodings, sizes\<close>

datatype scalar = TVoid | TChar | TUChar | TBool | TShort | TUShort | TInt | TUInt | TLong | TULong
  | TLongLong | TULongLong | TFloat | TDouble | TCString | TSel | TObject | TClassRef

datatype ctype = Scalar scalar | Block | Pointer ctype | Array nat ctype
  | Struct string "ctype list" | Union string "ctype list"

fun scalar_char :: "scalar \<Rightarrow> char" where
  "scalar_char TVoid = CHR ''v''" | "scalar_char TChar = CHR ''c''" | "scalar_char TUChar = CHR ''C''"
| "scalar_char TBool = CHR ''B''" | "scalar_char TShort = CHR ''s''" | "scalar_char TUShort = CHR ''S''"
| "scalar_char TInt = CHR ''i''" | "scalar_char TUInt = CHR ''I''" | "scalar_char TLong = CHR ''l''"
| "scalar_char TULong = CHR ''L''" | "scalar_char TLongLong = CHR ''q''" | "scalar_char TULongLong = CHR ''Q''"
| "scalar_char TFloat = CHR ''f''" | "scalar_char TDouble = CHR ''d''" | "scalar_char TCString = CHR ''*''"
| "scalar_char TSel = CHR '':''" | "scalar_char TObject = CHR ''@''" | "scalar_char TClassRef = CHR ''#''"

fun scalar_bytes :: "scalar \<Rightarrow> nat" where
  "scalar_bytes TVoid = 0" | "scalar_bytes TChar = 1" | "scalar_bytes TUChar = 1" | "scalar_bytes TBool = 1"
| "scalar_bytes TShort = 2" | "scalar_bytes TUShort = 2" | "scalar_bytes TInt = 4" | "scalar_bytes TUInt = 4"
| "scalar_bytes TFloat = 4" | "scalar_bytes _ = 8"

text \<open>Decimal digits, most significant first.\<close>

fun decimal :: "nat \<Rightarrow> string" where
  "decimal n = (if n < 10 then [char_of (48 + n)] else decimal (n div 10) @ [char_of (48 + n mod 10)])"

declare decimal.simps [simp del]

fun encode :: "ctype \<Rightarrow> string" where
  "encode (Scalar s) = [scalar_char s]"
| "encode Block = ''@?''"
| "encode (Pointer t) = CHR ''^'' # encode t"
| "encode (Array n t) = CHR ''['' # decimal n @ encode t @ '']''"
| "encode (Struct nm ts) = CHR ''{'' # nm @ CHR ''='' # concat (map encode ts) @ ''}''"
| "encode (Union nm ts) = CHR ''('' # nm @ CHR ''='' # concat (map encode ts) @ '')''"

text \<open>The C layout rules: a field goes to the next multiple of its alignment, and the whole is
  padded to the largest alignment.\<close>

definition pad_to :: "nat \<Rightarrow> nat \<Rightarrow> nat" where
  "pad_to n a = (n + a - 1) div a * a"

definition place_field :: "nat \<times> nat \<Rightarrow> nat \<Rightarrow> nat" where
  "place_field f sz = (case f of (al, bytes) \<Rightarrow> pad_to sz al + bytes)"

fun abi_align :: "ctype \<Rightarrow> nat" where
  "abi_align (Scalar s) = max 1 (scalar_bytes s)"
| "abi_align Block = 8"
| "abi_align (Pointer t) = 8"
| "abi_align (Array n t) = abi_align t"
| "abi_align (Struct nm ts) = fold max (map abi_align ts) 1"
| "abi_align (Union nm ts) = fold max (map abi_align ts) 1"

fun abi_size :: "ctype \<Rightarrow> nat" where
  "abi_size (Scalar s) = scalar_bytes s"
| "abi_size Block = 8"
| "abi_size (Pointer t) = 8"
| "abi_size (Array n t) = n * abi_size t"
| "abi_size (Struct nm ts) =
     pad_to (fold place_field (map (\<lambda>t. (abi_align t, abi_size t)) ts) 0) (abi_align (Struct nm ts))"
| "abi_size (Union nm ts) = pad_to (fold max (map abi_size ts) 0) (abi_align (Union nm ts))"

fun has_float :: "ctype \<Rightarrow> bool" where
  "has_float (Scalar s) = (s = TFloat \<or> s = TDouble)"
| "has_float Block = False"
| "has_float (Pointer t) = False"
| "has_float (Array n t) = has_float t"
| "has_float (Struct nm ts) = list_ex has_float ts"
| "has_float (Union nm ts) = list_ex has_float ts"

text \<open>Tags are identifiers (no brackets and no \<open>=\<close>), and every type fits the address space.\<close>

definition tag_ok :: "string \<Rightarrow> bool" where
  "tag_ok nm = list_all (\<lambda>c. c \<notin> set ''={}()[]'') nm"

fun type_ok :: "ctype \<Rightarrow> bool" where
  "type_ok (Scalar s) = True"
| "type_ok Block = True"
| "type_ok (Pointer t) = type_ok t"
| "type_ok (Array n t) = (type_ok t \<and> abi_size (Array n t) < 2 ^ 64)"
| "type_ok (Struct nm ts) = (tag_ok nm \<and> list_all type_ok ts \<and> abi_size (Struct nm ts) < 2 ^ 64)"
| "type_ok (Union nm ts) = (tag_ok nm \<and> list_all type_ok ts \<and> abi_size (Union nm ts) < 2 ^ 64)"

section \<open>Decimal numbers\<close>

lemma digit_char: "n < 10 \<Longrightarrow> of_char (char_of (48 + n) :: char) = (48 + n :: nat)"
  by simp

lemma is_digit_digit: "n < 10 \<Longrightarrow> is_digit_char (char_of (48 + n :: nat))"
  by (simp add: is_digit_char_def)

lemma decimal_digits: "list_all is_digit_char (decimal n)"
proof (induction n rule: decimal.induct)
  case (1 n)
  have m: "is_digit_char (char_of (48 + n mod 10 :: nat))" by (rule is_digit_digit) simp
  show ?case
  proof (cases "n < 10")
    case True
    then show ?thesis by (simp only: decimal.simps [of n] if_True list.pred_inject is_digit_digit)
  next
    case False
    from 1 [OF this] m show ?thesis
      by (simp only: decimal.simps [of n] False if_False list_all_append list.pred_inject)
  qed
qed

lemma scan_count_app:
  "list_all is_digit_char ds \<Longrightarrow> scan_count a (ds @ r) = scan_count (fst (scan_count a ds)) r"
  by (induction a ds rule: scan_count.induct) simp_all

lemma scan_count_digit:
  assumes "n < 10"
  shows "scan_count a (char_of (48 + n :: nat) # r) = scan_count (a * 10 + of_nat n) r"
proof -
  have "of_nat (of_char (char_of (48 + n) :: char)) - 48 = (of_nat n :: u64)"
    by (simp only: digit_char [OF assms] of_nat_add) simp
  with is_digit_digit [OF assms] show ?thesis by (simp only: scan_count.simps if_True)
qed

lemma scan_decimal_value: "fst (scan_count 0 (decimal n)) = of_nat n"
proof (induction n rule: decimal.induct)
  case (1 n)
  show ?case
  proof (cases "n < 10")
    case True
    then show ?thesis by (simp only: decimal.simps [of n] if_True scan_count_digit) simp
  next
    case False
    have "of_nat (n div 10) * 10 + of_nat (n mod 10) = (of_nat n :: u64)"
      by (metis div_mult_mod_eq of_nat_add of_nat_mult of_nat_numeral)
    moreover have "scan_count a (char_of (48 + n mod 10 :: nat) # []) = scan_count (a * 10 + of_nat (n mod 10)) []" for a
      by (rule scan_count_digit) simp
    ultimately show ?thesis
      by (simp only: decimal.simps [of n] False if_False scan_count_app [OF decimal_digits]
          1 [OF False] scan_count.simps(1) fst_conv)
  qed
qed

lemma scan_decimal:
  assumes "r \<noteq> [] \<longrightarrow> \<not> is_digit_char (hd r)"
  shows "scan_count 0 (decimal n @ r) = (of_nat n, r)"
proof (cases r)
  case Nil
  then show ?thesis
    using scan_count_app [OF decimal_digits, of 0 n "[]"] by (simp add: scan_decimal_value)
next
  case (Cons c r')
  with assms show ?thesis by (simp add: scan_count_app [OF decimal_digits] scan_decimal_value)
qed

section \<open>Encodings are balanced\<close>

lemma skip_nested_plain:
  "list_all (\<lambda>c. c \<noteq> op \<and> c \<noteq> cl) xs \<Longrightarrow>
    skip_nested op cl (Suc d) (xs @ r) = skip_nested op cl (Suc d) r"
  by (induction xs) simp_all

lemma digits_plain: "list_all is_digit_char ds \<Longrightarrow> \<not> is_digit_char a \<Longrightarrow> \<not> is_digit_char b \<Longrightarrow>
    list_all (\<lambda>c. c \<noteq> a \<and> c \<noteq> b) ds"
  by (auto simp: list_all_iff)

definition bracket_pair :: "char \<Rightarrow> char \<Rightarrow> bool" where
  "bracket_pair op cl \<longleftrightarrow> (op, cl) \<in> set [(CHR ''{'', CHR ''}''), (CHR ''('', CHR '')''), (CHR ''['', CHR '']'')]"

lemma bracket_not_digit: "bracket_pair op cl \<Longrightarrow> \<not> is_digit_char op \<and> \<not> is_digit_char cl"
  by (auto simp: bracket_pair_def is_digit_char_def)

lemma skip_nested_list:
  assumes "\<And>t r d. t \<in> set ts \<Longrightarrow> skip_nested op cl (Suc d) (encode t @ r) = skip_nested op cl (Suc d) r"
  shows "skip_nested op cl (Suc d) (concat (map encode ts) @ r) = skip_nested op cl (Suc d) r"
  using assms by (induction ts) simp_all

lemma tag_plain: "tag_ok nm \<Longrightarrow> bracket_pair op cl \<Longrightarrow> list_all (\<lambda>c. c \<noteq> op \<and> c \<noteq> cl) nm"
  by (auto simp: tag_ok_def bracket_pair_def list_all_iff)

lemma skip_nested_encode:
  assumes "bracket_pair op cl"
  shows "type_ok t \<Longrightarrow> skip_nested op cl (Suc d) (encode t @ r) = skip_nested op cl (Suc d) r"
proof (induction t arbitrary: d r)
  case (Scalar s)
  show ?case using assms by (cases s) (auto simp: bracket_pair_def)
next
  case Block
  show ?case using assms by (auto simp: bracket_pair_def)
next
  case (Pointer t)
  then show ?case using assms by (auto simp: bracket_pair_def)
next
  case (Array n t)
  have digits: "skip_nested op cl (Suc d) (decimal n @ r') = skip_nested op cl (Suc d) r'" for d r'
    using skip_nested_plain [OF digits_plain [OF decimal_digits]] bracket_not_digit [OF assms] by blast
  have "type_ok t" using Array.prems by simp
  from Array.IH [OF this] digits assms show ?case by (auto simp: bracket_pair_def)
next
  case (Struct nm ts)
  have tag: "skip_nested op cl (Suc d) (nm @ r') = skip_nested op cl (Suc d) r'" for d r'
    using skip_nested_plain [OF tag_plain [OF _ assms]] Struct.prems by simp
  have "skip_nested op cl (Suc d) (concat (map encode ts) @ r') = skip_nested op cl (Suc d) r'" for d r'
    by (rule skip_nested_list) (use Struct in \<open>auto simp: list_all_iff\<close>)
  with tag assms show ?case by (auto simp: bracket_pair_def)
next
  case (Union nm ts)
  have tag: "skip_nested op cl (Suc d) (nm @ r') = skip_nested op cl (Suc d) r'" for d r'
    using skip_nested_plain [OF tag_plain [OF _ assms]] Union.prems by simp
  have "skip_nested op cl (Suc d) (concat (map encode ts) @ r') = skip_nested op cl (Suc d) r'" for d r'
    by (rule skip_nested_list) (use Union in \<open>auto simp: list_all_iff\<close>)
  with tag assms show ?case by (auto simp: bracket_pair_def)
qed

section \<open>Alignment on words\<close>

definition abi_alignment :: "nat \<Rightarrow> bool" where
  "abi_alignment a \<longleftrightarrow> a \<in> {1, 2, 4, 8}"

lemma max_alignment: "abi_alignment a \<Longrightarrow> abi_alignment b \<Longrightarrow> abi_alignment (max a b)"
  by (auto simp: abi_alignment_def)

lemma fold_max_alignment:
  "list_all abi_alignment as \<Longrightarrow> abi_alignment a \<Longrightarrow> abi_alignment (fold max as a)"
  by (induction as arbitrary: a) (simp_all add: max_alignment)

lemma abi_align_alignment: "abi_alignment (abi_align t)"
proof (induction t)
  case (Scalar s)
  then show ?case by (cases s) (simp_all add: abi_alignment_def)
next
  case (Struct nm ts)
  then show ?case
    by (simp only: abi_align.simps) (rule fold_max_alignment, simp_all add: list_all_iff abi_alignment_def)
next
  case (Union nm ts)
  then show ?case
    by (simp only: abi_align.simps) (rule fold_max_alignment, simp_all add: list_all_iff abi_alignment_def)
qed (simp_all add: abi_alignment_def)

lemma pad_to_ge: "0 < a \<Longrightarrow> n \<le> pad_to n a"
proof -
  assume "0 < a"
  then have "n + a - 1 < pad_to n a + a"
    unfolding pad_to_def using dividend_less_div_times [of a "n + a - 1"] by simp
  with \<open>0 < a\<close> show ?thesis by linarith
qed

lemma align_up_size_pow:
  assumes "pad_to x (2 ^ k) < 2 ^ 64" "0 < k" "k < 64"
  shows "align_up_size (of_nat x) (2 ^ k) = of_nat (pad_to x (2 ^ k))"
proof -
  have fits: "x + (2 ^ k - 1) < 2 ^ 64"
  proof -
    have "pad_to x (2 ^ k) + 2 ^ k \<le> 2 ^ 64"
    proof -
      have "(2::nat) ^ 64 = 2 ^ k * 2 ^ (64 - k)" using assms(3) by (simp flip: power_add)
      with assms(1) have "2 ^ k * ((x + 2 ^ k - 1) div 2 ^ k) < 2 ^ k * 2 ^ (64 - k)"
        by (simp only: pad_to_def mult.commute)
      then have "(x + 2 ^ k - 1) div 2 ^ k < 2 ^ (64 - k)"
        by (rule mult_less_cancel1 [THEN iffD1, THEN conjunct2])
      then have "((x + 2 ^ k - 1) div 2 ^ k + 1) * 2 ^ k \<le> 2 ^ (64 - k) * 2 ^ k"
        by (intro mult_le_mono1) simp
      then show ?thesis using assms(3) by (simp add: pad_to_def flip: power_add)
    qed
    moreover have "x \<le> pad_to x (2 ^ k)" by (rule pad_to_ge) simp
    ultimately show ?thesis using zero_less_power [of "2::nat" k] by linarith
  qed
  have m: "(2 ^ k - 1 :: u64) = mask k" by (simp add: mask_eq_exp_minus_1)
  have gt: "\<not> (2 ^ k :: u64) \<le> 1"
  proof -
    have "unat (2 ^ k :: u64) = 2 ^ k"
      using unat_of_nat_u64 [of "2 ^ k"] power_strict_increasing [of k 64 "2 :: nat"] assms(3) by simp
    then show ?thesis using one_less_power [of "2 :: nat" k] assms(2) by (simp add: word_le_nat_alt)
  qed
  have u: "unat (of_nat x + mask k :: u64) = x + (2 ^ k - 1)"
  proof -
    have "of_nat x + mask k = (of_nat (x + (2 ^ k - 1)) :: u64)"
      using of_nat_diff [of 1 "2 ^ k", where 'a = "64 word"]
      by (simp only: mask_eq_exp_minus_1 of_nat_add) simp
    with fits show ?thesis by (simp add: unat_of_nat_u64 del: of_nat_add)
  qed
  have "unat (align_up_size (of_nat x) (2 ^ k)) = pad_to x (2 ^ k)"
    using gt by (simp add: align_up_size_def m Let_def unat_and_not_mask u pad_to_def)
  then show ?thesis using unat_of_nat_u64 [OF assms(1)] by (simp only: word_unat_eq_iff)
qed

lemma align_up_size_nat:
  assumes "pad_to x a < 2 ^ 64" "abi_alignment a"
  shows "align_up_size (of_nat x) (of_nat a) = of_nat (pad_to x a)"
proof -
  consider "a = 1" | "a = 2" | "a = 4" | "a = 8" using assms(2) by (auto simp: abi_alignment_def)
  then show ?thesis
  proof cases
    case 1
    then show ?thesis by (simp add: align_up_size_def pad_to_def)
  next
    case 2
    then show ?thesis using align_up_size_pow [of x 1] assms(1) by simp
  next
    case 3
    then show ?thesis using align_up_size_pow [of x 2] assms(1) by simp
  next
    case 4
    then show ?thesis using align_up_size_pow [of x 3] assms(1) by simp
  qed
qed

lemma max_of_nat:
  assumes "a < 2 ^ 64" "b < 2 ^ 64"
  shows "(if (of_nat b :: u64) > of_nat a then of_nat b else of_nat a) = (of_nat (max a b) :: u64)"
proof -
  have "((of_nat b :: u64) > of_nat a) = (b > a)"
    using assms by (simp add: word_less_nat_alt unat_of_nat_u64)
  then show ?thesis by (auto simp: max_def)
qed

lemma alignment_bound: "abi_alignment a \<Longrightarrow> a < 2 ^ 64 \<and> 0 < a"
  by (auto simp: abi_alignment_def)

section \<open>The scanners on an encoding\<close>

definition rest_ok :: "string \<Rightarrow> bool" where
  "rest_ok r \<longleftrightarrow> take 1 r \<noteq> ''?'' \<and> take 1 r \<noteq> [CHR 0x22]"

lemma encode_start:
  obtains c e where "encode t = c # e" "\<not> is_type_qualifier c" "\<not> is_digit_char c"
    "c \<notin> {CHR ''?'', CHR 0x22, CHR ''}'', CHR '')'', CHR '']''}"
proof (cases t)
  case (Scalar s)
  then show ?thesis using that by (cases s) (auto simp: is_type_qualifier_def is_digit_char_def)
qed (use that in \<open>auto simp: is_type_qualifier_def is_digit_char_def\<close>)

lemma encode_rest_ok: "rest_ok (encode t @ r)"
  by (rule encode_start [of t]) (auto simp: rest_ok_def)

lemma encode_no_qualifier: "dropWhile is_type_qualifier (encode t @ r) = encode t @ r"
  by (rule encode_start [of t]) simp

lemma fields_rest_ok: "rest_ok (concat (map encode ts) @ CHR ''}'' # r)" "rest_ok (concat (map encode ts) @ CHR '')'' # r)"
  by (cases ts; simp add: encode_rest_ok; simp add: rest_ok_def)+

lemma skip_nested_closed: "skip_nested op cl 0 r = r"
  by (cases r) simp_all

lemma skip_encode: "type_ok t \<Longrightarrow> rest_ok r \<Longrightarrow> skip_type_token (encode t @ r) = r"
proof (induction t)
  case (Scalar s)
  then show ?case
    by (cases s) (simp_all add: skip_type_token.simps is_type_qualifier_def rest_ok_def)
next
  case Block
  then show ?case by (simp add: skip_type_token.simps is_type_qualifier_def)
next
  case (Pointer t)
  then show ?case by (simp add: skip_type_token.simps [of "CHR ''^'' # x" for x] is_type_qualifier_def)
next
  case (Array n t)
  have b: "bracket_pair CHR ''['' CHR '']''" by (simp add: bracket_pair_def)
  have "skip_nested CHR ''['' CHR '']'' (Suc 0) (decimal n @ r') = skip_nested CHR ''['' CHR '']'' (Suc 0) r'" for r'
    using skip_nested_plain [OF digits_plain [OF decimal_digits]] bracket_not_digit [OF b] by blast
  moreover have "skip_nested CHR ''['' CHR '']'' (Suc 0) (encode t @ r') = skip_nested CHR ''['' CHR '']'' (Suc 0) r'" for r'
    by (rule skip_nested_encode [OF b]) (use Array.prems in simp)
  ultimately show ?case
    by (simp add: skip_type_token.simps [of "CHR ''['' # x" for x] is_type_qualifier_def skip_nested_closed)
next
  case (Struct nm ts)
  have b: "bracket_pair CHR ''{'' CHR ''}''" by (simp add: bracket_pair_def)
  have "skip_nested CHR ''{'' CHR ''}'' (Suc 0) (nm @ r') = skip_nested CHR ''{'' CHR ''}'' (Suc 0) r'" for r'
    using skip_nested_plain [OF tag_plain [OF _ b]] Struct.prems by simp
  moreover have "skip_nested CHR ''{'' CHR ''}'' (Suc 0) (concat (map encode ts) @ r') =
      skip_nested CHR ''{'' CHR ''}'' (Suc 0) r'" for r'
    by (rule skip_nested_list, rule skip_nested_encode [OF b]) (use Struct.prems in \<open>simp add: list_all_iff\<close>)
  ultimately show ?case
    by (simp add: skip_type_token.simps [of "CHR ''{'' # x" for x] is_type_qualifier_def skip_nested_closed)
next
  case (Union nm ts)
  have b: "bracket_pair CHR ''('' CHR '')''" by (simp add: bracket_pair_def)
  have "skip_nested CHR ''('' CHR '')'' (Suc 0) (nm @ r') = skip_nested CHR ''('' CHR '')'' (Suc 0) r'" for r'
    using skip_nested_plain [OF tag_plain [OF _ b]] Union.prems by simp
  moreover have "skip_nested CHR ''('' CHR '')'' (Suc 0) (concat (map encode ts) @ r') =
      skip_nested CHR ''('' CHR '')'' (Suc 0) r'" for r'
    by (rule skip_nested_list, rule skip_nested_encode [OF b]) (use Union.prems in \<open>simp add: list_all_iff\<close>)
  ultimately show ?case
    by (simp add: skip_type_token.simps [of "CHR ''('' # x" for x] is_type_qualifier_def skip_nested_closed)
qed

lemma parse_struct_mono:
  assumes "parse_struct_fields fuel sz al fp uns p = Some l" "fuel \<le> fuel'"
  shows "parse_struct_fields fuel' sz al fp uns p = Some l"
  using assms(2,1) by (induction rule: dec_induct) (use parse_fuel_mono in blast)+

lemma parse_union_mono:
  assumes "parse_union_fields fuel sz al fp uns p = Some l" "fuel \<le> fuel'"
  shows "parse_union_fields fuel' sz al fp uns p = Some l"
  using assms(2,1) by (induction rule: dec_induct) (use parse_fuel_mono in blast)+

definition abi_layout :: "ctype \<Rightarrow> string \<Rightarrow> SFCTypeLayout" where
  "abi_layout t r = layout_at (of_nat (abi_size t)) (of_nat (abi_align t)) (has_float t) False r"

definition parses_to :: "ctype \<Rightarrow> bool" where
  "parses_to t \<longleftrightarrow> (\<forall>r. rest_ok r \<longrightarrow> (\<exists>fuel. parse_layout_fuel fuel (encode t @ r) = Some (abi_layout t r)))"

lemma place_field_ge: "0 < fst f \<Longrightarrow> x \<le> place_field f x"
  using pad_to_ge [of "fst f" x] by (simp add: place_field_def split_beta)

lemma fold_place_ge: "\<forall>f\<in>set fs. 0 < fst f \<Longrightarrow> x \<le> fold place_field fs x"
  by (induction fs arbitrary: x) (auto intro: order_trans place_field_ge)

lemma fold_max_ge: "(x :: nat) \<le> fold max xs x"
  by (induction xs arbitrary: x) (auto intro: order_trans [OF max.cobounded2])

lemma struct_fields_encode:
  fixes ts :: "ctype list"
  assumes "\<And>t. t \<in> set ts \<Longrightarrow> parses_to t"
    and "abi_alignment al"
    and "pad_to (fold place_field (map (\<lambda>t. (abi_align t, abi_size t)) ts) sz) (fold max (map abi_align ts) al) < 2 ^ 64"
  shows "\<exists>fuel. parse_struct_fields fuel (of_nat sz) (of_nat al) fp False (concat (map encode ts) @ CHR ''}'' # r) =
    Some (layout_at
      (of_nat (pad_to (fold place_field (map (\<lambda>t. (abi_align t, abi_size t)) ts) sz) (fold max (map abi_align ts) al)))
      (of_nat (fold max (map abi_align ts) al)) (fp \<or> list_ex has_float ts) False r)"
  using assms
proof (induction ts arbitrary: sz al fp)
  case Nil
  have "parse_struct_fields (Suc 0) (of_nat sz) (of_nat al) fp False (CHR ''}'' # r) =
    Some (layout_at (of_nat (pad_to sz al)) (of_nat al) fp False r)"
    using Nil by (simp add: struct_close align_up_size_nat)
  then show ?case by auto
next
  case (Cons t ts)
  let ?r = "concat (map encode ts) @ CHR ''}'' # r"
  let ?al = "max al (abi_align t)"
  let ?sz = "place_field (abi_align t, abi_size t) sz"
  let ?tot = "fold place_field (map (\<lambda>t. (abi_align t, abi_size t)) ts) ?sz"
  have al: "abi_alignment ?al" using Cons.prems(2) abi_align_alignment max_alignment by blast
  have A: "abi_alignment (fold max (map abi_align ts) ?al)"
    by (rule fold_max_alignment [OF _ al]) (simp add: list_all_iff abi_align_alignment)
  have tot: "pad_to ?tot (fold max (map abi_align ts) ?al) < 2 ^ 64"
    using Cons.prems(3) by (simp add: max.commute)
  have "?sz \<le> ?tot" by (rule fold_place_ge) (use abi_align_alignment alignment_bound in auto)
  moreover have "?tot \<le> pad_to ?tot (fold max (map abi_align ts) ?al)"
    using pad_to_ge alignment_bound [OF A] by blast
  ultimately have sz: "pad_to sz (abi_align t) + abi_size t < 2 ^ 64"
    using tot by (simp add: place_field_def)
  have word_sz: "align_up_size (of_nat sz) (of_nat (abi_align t)) + of_nat (abi_size t) = (of_nat ?sz :: u64)"
    using sz by (simp add: align_up_size_nat [OF _ abi_align_alignment] place_field_def)
  have word_al: "(if (of_nat (abi_align t) :: u64) > of_nat al then of_nat (abi_align t) else of_nat al) = (of_nat ?al :: u64)"
    by (rule max_of_nat [OF alignment_bound [OF Cons.prems(2), THEN conjunct1]
          alignment_bound [OF abi_align_alignment, THEN conjunct1]])
  obtain f1 where f1: "parse_layout_fuel f1 (encode t @ ?r) = Some (abi_layout t ?r)"
    using Cons.prems(1) [of t, unfolded parses_to_def, rule_format, OF _ fields_rest_ok(1)] by auto
  obtain f2 where f2: "parse_struct_fields f2 (of_nat ?sz) (of_nat ?al) (fp \<or> has_float t) False ?r =
    Some (layout_at (of_nat (pad_to ?tot (fold max (map abi_align ts) ?al)))
      (of_nat (fold max (map abi_align ts) ?al)) ((fp \<or> has_float t) \<or> list_ex has_float ts) False r)"
    using Cons.IH [of ?al ?sz "fp \<or> has_float t", OF _ al tot] Cons.prems(1) by auto
  obtain c e where e: "encode t = c # e" "c \<noteq> CHR ''}''" by (rule encode_start [of t]) auto
  have f1': "parse_layout_fuel (max f1 f2) (c # e @ ?r) = Some (abi_layout t ?r)"
    using parse_layout_mono [OF f1, of "max f1 f2"] e by simp
  have "parse_struct_fields (Suc (max f1 f2)) (of_nat sz) (of_nat al) fp False (c # e @ ?r) =
    parse_struct_fields (max f1 f2) (of_nat ?sz) (of_nat ?al) (fp \<or> has_float t) False ?r"
    unfolding struct_field [OF e(2) f1'] by (simp only: abi_layout_def layout_at_sel word_sz word_al simp_thms)
  with parse_struct_mono [OF f2, of "max f1 f2"] e(1) show ?case
    by (intro exI [of _ "Suc (max f1 f2)"]) (simp add: max.commute disj_assoc)
qed

lemma union_fields_encode:
  fixes ts :: "ctype list"
  assumes "\<And>t. t \<in> set ts \<Longrightarrow> parses_to t"
    and "abi_alignment al"
    and "pad_to (fold max (map abi_size ts) sz) (fold max (map abi_align ts) al) < 2 ^ 64"
  shows "\<exists>fuel. parse_union_fields fuel (of_nat sz) (of_nat al) fp False (concat (map encode ts) @ CHR '')'' # r) =
    Some (layout_at
      (of_nat (pad_to (fold max (map abi_size ts) sz) (fold max (map abi_align ts) al)))
      (of_nat (fold max (map abi_align ts) al)) (fp \<or> list_ex has_float ts) False r)"
  using assms
proof (induction ts arbitrary: sz al fp)
  case Nil
  have "parse_union_fields (Suc 0) (of_nat sz) (of_nat al) fp False (CHR '')'' # r) =
    Some (layout_at (of_nat (pad_to sz al)) (of_nat al) fp False r)"
    using Nil by (simp add: union_close align_up_size_nat)
  then show ?case by auto
next
  case (Cons t ts)
  let ?r = "concat (map encode ts) @ CHR '')'' # r"
  let ?al = "max al (abi_align t)"
  let ?sz = "max sz (abi_size t)"
  let ?tot = "fold max (map abi_size ts) ?sz"
  have al: "abi_alignment ?al" using Cons.prems(2) abi_align_alignment max_alignment by blast
  have A: "abi_alignment (fold max (map abi_align ts) ?al)"
    by (rule fold_max_alignment [OF _ al]) (simp add: list_all_iff abi_align_alignment)
  have tot: "pad_to ?tot (fold max (map abi_align ts) ?al) < 2 ^ 64"
    using Cons.prems(3) by (simp add: max.commute)
  have "?sz \<le> ?tot" by (rule fold_max_ge)
  moreover have "?tot \<le> pad_to ?tot (fold max (map abi_align ts) ?al)"
    using pad_to_ge alignment_bound [OF A] by blast
  ultimately have sz: "?sz < 2 ^ 64" using tot by linarith
  have word_sz: "(if (of_nat (abi_size t) :: u64) > of_nat sz then of_nat (abi_size t) else of_nat sz) = (of_nat ?sz :: u64)"
    by (rule max_of_nat) (use sz in simp_all)
  have word_al: "(if (of_nat (abi_align t) :: u64) > of_nat al then of_nat (abi_align t) else of_nat al) = (of_nat ?al :: u64)"
    by (rule max_of_nat [OF alignment_bound [OF Cons.prems(2), THEN conjunct1]
          alignment_bound [OF abi_align_alignment, THEN conjunct1]])
  obtain f1 where f1: "parse_layout_fuel f1 (encode t @ ?r) = Some (abi_layout t ?r)"
    using Cons.prems(1) [of t, unfolded parses_to_def, rule_format, OF _ fields_rest_ok(2)] by auto
  obtain f2 where f2: "parse_union_fields f2 (of_nat ?sz) (of_nat ?al) (fp \<or> has_float t) False ?r =
    Some (layout_at (of_nat (pad_to ?tot (fold max (map abi_align ts) ?al)))
      (of_nat (fold max (map abi_align ts) ?al)) ((fp \<or> has_float t) \<or> list_ex has_float ts) False r)"
    using Cons.IH [of ?al ?sz "fp \<or> has_float t", OF _ al tot] Cons.prems(1) by auto
  obtain c e where e: "encode t = c # e" "c \<noteq> CHR '')''" by (rule encode_start [of t]) auto
  have f1': "parse_layout_fuel (max f1 f2) (c # e @ ?r) = Some (abi_layout t ?r)"
    using parse_layout_mono [OF f1, of "max f1 f2"] e by simp
  have "parse_union_fields (Suc (max f1 f2)) (of_nat sz) (of_nat al) fp False (c # e @ ?r) =
    parse_union_fields (max f1 f2) (of_nat ?sz) (of_nat ?al) (fp \<or> has_float t) False ?r"
    unfolding union_field [OF e(2) f1'] by (simp only: abi_layout_def layout_at_sel word_sz word_al simp_thms)
  with parse_union_mono [OF f2, of "max f1 f2"] e(1) show ?case
    by (intro exI [of _ "Suc (max f1 f2)"]) (simp add: max.commute disj_assoc)
qed

text \<open>The name of an aggregate is skipped up to the \<open>=\<close>.\<close>

lemma opaque_or_tag:
  assumes "tag_ok nm" "close \<in> set ''})''"
  shows "opaque_or close body (nm @ CHR ''='' # r) = body r"
proof -
  have "dropWhile (\<lambda>x. x \<noteq> CHR ''='' \<and> x \<noteq> close) (nm @ CHR ''='' # r) = CHR ''='' # r"
  proof -
    have "\<forall>x\<in>set nm. x \<noteq> CHR ''='' \<and> x \<noteq> close"
      using assms by (auto simp: tag_ok_def list_all_iff)
    then show ?thesis by (subst dropWhile_append2) auto
  qed
  then show ?thesis using assms(2) by (auto simp: opaque_or_def)
qed

lemma encode_parses: "type_ok t \<Longrightarrow> parses_to t"
proof (induction t)
  case (Scalar s)
  show ?case
    unfolding parses_to_def
  proof (intro allI impI exI [of _ "Suc 0"])
    fix r
    assume r: "rest_ok r"
    have "dropWhile is_type_qualifier (scalar_char s # r) = scalar_char s # r"
      using encode_no_qualifier [of "Scalar s" r] by simp
    moreover have "scalar_layout (scalar_char s) r = Some (abi_layout (Scalar s) r)"
      using r by (cases s)
        (simp_all add: scalar_layout_def scalar_code_def scalar_end_def abi_layout_def rest_ok_def)
    ultimately show "parse_layout_fuel (Suc 0) (encode (Scalar s) @ r) = Some (abi_layout (Scalar s) r)"
      by (simp add: parse_at_scalar)
  qed
next
  case Block
  have "parse_layout_fuel (Suc 0) (''@?'' @ r) = Some (abi_layout Block r)" for r
    by (rule parse_at_scalar [of _ "CHR ''@''" "CHR ''?'' # r"])
      (simp_all add: is_type_qualifier_def scalar_layout_def scalar_code_def scalar_end_def abi_layout_def)
  then show ?case unfolding parses_to_def by (intro allI impI exI [of _ "Suc 0"]) simp
next
  case (Pointer t)
  then have t: "parses_to t" "type_ok t" by simp_all
  show ?case
    unfolding parses_to_def
  proof (intro allI impI)
    fix r
    assume r: "rest_ok r"
    then obtain fuel where f: "parse_layout_fuel fuel (encode t @ r) = Some (abi_layout t r)"
      using t(1) by (auto simp: parses_to_def)
    have "dropWhile is_type_qualifier (encode (Pointer t) @ r) = CHR ''^'' # encode t @ r"
      by (simp add: is_type_qualifier_def)
    from parse_at_pointer [OF this, of fuel] f skip_encode [OF t(2) r]
    have "parse_layout_fuel (Suc fuel) (encode (Pointer t) @ r) = Some (abi_layout (Pointer t) r)"
      by (simp add: abi_layout_def)
    then show "\<exists>fuel. parse_layout_fuel fuel (encode (Pointer t) @ r) = Some (abi_layout (Pointer t) r)" ..
  qed
next
  case (Array n t)
  then have t: "parses_to t" by simp
  show ?case
    unfolding parses_to_def
  proof (intro allI impI)
    fix r
    obtain fuel where f: "parse_layout_fuel fuel (encode t @ CHR '']'' # r) = Some (abi_layout t (CHR '']'' # r))"
      using t by (force simp: parses_to_def rest_ok_def)
    obtain c e where e: "encode t = c # e" "\<not> is_digit_char c" by (rule encode_start [of t]) auto
    have s: "scan_count 0 (decimal n @ encode t @ CHR '']'' # r) = (of_nat n, encode t @ CHR '']'' # r)"
      by (rule scan_decimal) (simp add: e)
    have "dropWhile is_type_qualifier (encode (Array n t) @ r) = CHR ''['' # decimal n @ encode t @ CHR '']'' # r"
      by (simp add: is_type_qualifier_def)
    from parse_at_array [OF this, of fuel] f
    have "parse_layout_fuel (Suc fuel) (encode (Array n t) @ r) = Some (abi_layout (Array n t) r)"
      by (simp add: s abi_layout_def array_layout_def)
    then show "\<exists>fuel. parse_layout_fuel fuel (encode (Array n t) @ r) = Some (abi_layout (Array n t) r)" ..
  qed
next
  case (Struct nm ts)
  then have ts: "\<And>t. t \<in> set ts \<Longrightarrow> parses_to t" by (auto simp: list_all_iff)
  show ?case
    unfolding parses_to_def
  proof (intro allI impI)
    fix r
    obtain fuel where f: "parse_struct_fields fuel 0 1 False False (concat (map encode ts) @ CHR ''}'' # r) =
      Some (abi_layout (Struct nm ts) r)"
      using struct_fields_encode [of ts 1 0 False r] ts Struct.prems by (auto simp: abi_layout_def abi_alignment_def)
    have "dropWhile is_type_qualifier (encode (Struct nm ts) @ r) =
        CHR ''{'' # nm @ CHR ''='' # concat (map encode ts) @ CHR ''}'' # r"
      by (simp add: is_type_qualifier_def)
    from parse_at_struct [OF this, of fuel] f Struct.prems
    have "parse_layout_fuel (Suc fuel) (encode (Struct nm ts) @ r) = Some (abi_layout (Struct nm ts) r)"
      by (simp add: opaque_or_tag)
    then show "\<exists>fuel. parse_layout_fuel fuel (encode (Struct nm ts) @ r) = Some (abi_layout (Struct nm ts) r)" ..
  qed
next
  case (Union nm ts)
  then have ts: "\<And>t. t \<in> set ts \<Longrightarrow> parses_to t" by (auto simp: list_all_iff)
  show ?case
    unfolding parses_to_def
  proof (intro allI impI)
    fix r
    obtain fuel where f: "parse_union_fields fuel 0 1 False False (concat (map encode ts) @ CHR '')'' # r) =
      Some (abi_layout (Union nm ts) r)"
      using union_fields_encode [of ts 1 0 False r] ts Union.prems by (auto simp: abi_layout_def abi_alignment_def)
    have "dropWhile is_type_qualifier (encode (Union nm ts) @ r) =
        CHR ''('' # nm @ CHR ''='' # concat (map encode ts) @ CHR '')'' # r"
      by (simp add: is_type_qualifier_def)
    from parse_at_union [OF this, of fuel] f Union.prems
    have "parse_layout_fuel (Suc fuel) (encode (Union nm ts) @ r) = Some (abi_layout (Union nm ts) r)"
      by (simp add: opaque_or_tag)
    then show "\<exists>fuel. parse_layout_fuel fuel (encode (Union nm ts) @ r) = Some (abi_layout (Union nm ts) r)" ..
  qed
qed

text \<open>C3: on the encoding of every C type of the grammar whose size fits the address space, the
  scanner computes the size and alignment of the C ABI, says whether a floating-point value is
  passed inside it, reports it as supported, and both scanners stop exactly where the encoding
  ends.\<close>

theorem parse_type_layout_encode:
  assumes "type_ok t" "rest_ok r"
  shows "parse_type_layout (encode t @ r) = abi_layout t r \<and> skip_type_token (encode t @ r) = r"
proof
  from encode_parses [OF assms(1)] assms(2)
  obtain fuel where "parse_layout_fuel fuel (encode t @ r) = Some (abi_layout t r)"
    by (auto simp: parses_to_def)
  then show "parse_type_layout (encode t @ r) = abi_layout t r" by (rule parse_type_layout_eq)
  show "skip_type_token (encode t @ r) = r" by (rule skip_encode [OF assms])
qed

lemma decimal_12: "decimal 12 = ''12''"
  by code_simp

theorem parse_type_layout_encode_witness:
  "parse_type_layout ''{Node=c[12s](U=^{Node=}d)}@:'' = layout_at 40 8 True False ''@:''
   \<and> skip_type_token ''{Node=c[12s](U=^{Node=}d)}@:'' = ''@:''"
  using parse_type_layout_encode [of "Struct ''Node'' [Scalar TChar, Array 12 (Scalar TShort),
      Union ''U'' [Pointer (Struct ''Node'' []), Scalar TDouble]]" "''@:''"]
  by (simp add: tag_ok_def pad_to_def place_field_def rest_ok_def abi_layout_def decimal_12)

end
