(* ===== verification/SF_Calls.thy ===== *)
theory SF_Calls
  imports SF_Encode SF_Selectors
begin

unbundle bit_operations_syntax

text \<open>
  How the C message-send backend (\<open>Runtime/src/dispatch/dispatch-c.c\<close>) finds out what to pass: the
  classification of the tokens of a method's type encoding, the two collections of argument kinds, the
  cache of the second by selector slot, and the words that go to and come from \<open>libffi\<close>.

  The encoding of a method is the type it returns, its frame size, and its arguments with their
  offsets; the first two arguments are the receiver and the selector.
\<close>

section \<open>Classification of a token\<close>

datatype SFCCallArgKind = KIND_CODE | KIND_AGGREGATE_WORD | KIND_AGGREGATE_POINTER | KIND_STRUCT_BYTES

record SFCCallArgInfo =
  ai_code :: char
  ai_kind :: SFCCallArgKind
  ai_size :: "16 word"

definition SF_C_FALLBACK_MAX_ARGS :: nat where "SF_C_FALLBACK_MAX_ARGS = 4"

text \<open>\<open>out_info\<close> goes in and comes out.\<close>

definition classify_aggregate_token :: "string \<Rightarrow> SFCCallArgInfo \<Rightarrow> bool \<times> SFCCallArgInfo" where
  "classify_aggregate_token token info =
     (let layout = parse_type_layout token; code = primary_type_code token in
      if tl_unsupported layout \<or> tl_fp layout then (False, info)
      else let info = info\<lparr>ai_size := ucast (tl_size layout)\<rparr> in
        if tl_size layout \<le> 8 then (True, info\<lparr>ai_code := CHR ''Q'', ai_kind := KIND_AGGREGATE_WORD\<rparr>)
        else if code = CHR ''{'' \<and> tl_size layout > 16 then (True, info\<lparr>ai_code := CHR ''{'', ai_kind := KIND_STRUCT_BYTES\<rparr>)
        else (True, info\<lparr>ai_code := CHR ''^'', ai_kind := KIND_AGGREGATE_POINTER\<rparr>))"

definition classify_type_token :: "string \<Rightarrow> bool \<times> SFCCallArgInfo" where
  "classify_type_token token =
     (let code = primary_type_code token;
          info = \<lparr>ai_code = code, ai_kind = KIND_CODE, ai_size = 0\<rparr> in
      if code = CHR ''{'' \<or> code = CHR ''('' \<or> code = CHR ''['' then classify_aggregate_token token info
      else (code \<noteq> CHR ''D'', info))"

text \<open>\<open>op->types\<close> is \<open>None\<close> for the null pointer and for a null \<open>op\<close>; \<open>info\<close> is what the caller's
  variable holds before.\<close>

definition collect_return_info :: "string option \<Rightarrow> SFCCallArgInfo \<Rightarrow> bool \<times> SFCCallArgInfo" where
  "collect_return_info types info =
     (case types of None \<Rightarrow> (True, info\<lparr>ai_code := CHR ''@'', ai_kind := KIND_CODE\<rparr>)
      | Some ts \<Rightarrow> if ts = [] then (True, info\<lparr>ai_code := CHR ''@'', ai_kind := KIND_CODE\<rparr>) else classify_type_token ts)"

section \<open>Collecting the arguments\<close>

definition is_offset_char :: "char \<Rightarrow> bool" where
  "is_offset_char c \<longleftrightarrow> c = CHR ''-'' \<or> is_digit_char c"

lemma skip_token_shorter: "p \<noteq> [] \<Longrightarrow> length (dropWhile Q (skip_type_token p)) < length p"
proof -
  assume p: "p \<noteq> []"
  with skip_type_token_suffix [of p] have "strict_suffix (skip_type_token p) p" by (auto simp: strict_suffix_def)
  then have "length (skip_type_token p) < length p" by (rule suffix_length_less)
  then show ?thesis using length_dropWhile_le [of Q "skip_type_token p"] by linarith
qed

text \<open>The loop of \<open>collect_explicit_arg_infos\<close>; the flag of the result is \<open>*unsupported_sig\<close>.\<close>

function collect_infos_loop :: "string \<Rightarrow> nat \<Rightarrow> SFCCallArgInfo list \<Rightarrow> SFCCallArgInfo list \<times> bool" where
  "collect_infos_loop p arg_index infos =
     (if p = [] then (infos, False)
      else let token = p; p = dropWhile is_offset_char (skip_type_token token) in
        if arg_index \<ge> 2
        then if length infos \<ge> SF_C_FALLBACK_MAX_ARGS then (infos, True)
          else (case classify_type_token token of (ok, info) \<Rightarrow>
            if \<not> ok then (infos, True) else collect_infos_loop p (arg_index + 1) (infos @ [info]))
        else collect_infos_loop p (arg_index + 1) infos)"
  by pat_completeness auto
termination
  by (relation "measure (\<lambda>(p, _, _). length p)") (auto simp: skip_token_shorter)

declare collect_infos_loop.simps [simp del]

definition collect_explicit_arg_infos :: "string option \<Rightarrow> SFCCallArgInfo list \<times> bool" where
  "collect_explicit_arg_infos types =
     (case types of None \<Rightarrow> ([], False)
      | Some ts \<Rightarrow> if ts = [] then ([], False)
          else collect_infos_loop (dropWhile is_digit_char (skip_type_token ts)) 0 [])"

definition direct_word_call_supported :: "SFCCallArgInfo \<Rightarrow> SFCCallArgInfo list \<Rightarrow> bool" where
  "direct_word_call_supported ret_info arg_infos \<longleftrightarrow>
     (if length arg_infos > SF_C_FALLBACK_MAX_ARGS then False
      else if is_float_code (ai_code ret_info) then False
      else if ai_kind ret_info = KIND_STRUCT_BYTES then False
      else \<not> list_ex (\<lambda>i. ai_kind i = KIND_STRUCT_BYTES \<or> is_float_code (ai_code i)) arg_infos)"

text \<open>The other collection keeps the codes only.\<close>

function collect_codes_loop :: "string \<Rightarrow> nat \<Rightarrow> string \<Rightarrow> string \<times> bool" where
  "collect_codes_loop p arg_index codes =
     (if p = [] then (codes, False)
      else let code = primary_type_code p; p = dropWhile is_offset_char (skip_type_token p) in
        if arg_index \<ge> 2
        then if code = CHR ''D'' then (codes, True)
          else if length codes \<ge> SF_C_FALLBACK_MAX_ARGS then (codes, True)
          else collect_codes_loop p (arg_index + 1) (codes @ [code])
        else collect_codes_loop p (arg_index + 1) codes)"
  by pat_completeness auto
termination
  by (relation "measure (\<lambda>(p, _, _). length p)") (auto simp: skip_token_shorter)

declare collect_codes_loop.simps [simp del]

definition collect_explicit_arg_codes :: "string option \<Rightarrow> string \<times> bool" where
  "collect_explicit_arg_codes types =
     (case types of None \<Rightarrow> ([], False)
      | Some ts \<Rightarrow> if ts = [] then ([], False)
          else collect_codes_loop (dropWhile is_digit_char (skip_type_token ts)) 0 [])"

definition arg_codes_contain_float :: "string \<Rightarrow> bool" where
  "arg_codes_contain_float codes \<longleftrightarrow> list_ex is_float_code codes"

section \<open>The signature cache\<close>

record SFCSigCacheEntry =
  ce_slot :: u32
  ce_codes :: string
  ce_argc :: u8
  ce_unsupported :: bool

definition SF_C_SIG_CACHE_SIZE :: nat where "SF_C_SIG_CACHE_SIZE = 32"

text \<open>A thread starts with a cache of zeros.\<close>

definition zero_sig_cache :: "SFCSigCacheEntry list" where
  "zero_sig_cache = replicate SF_C_SIG_CACHE_SIZE
     \<lparr>ce_slot = 0, ce_codes = replicate SF_C_FALLBACK_MAX_ARGS (CHR 0x00), ce_argc = 0, ce_unsupported = False\<rparr>"

definition sig_cache_index :: "selectors \<Rightarrow> addr \<Rightarrow> nat" where
  "sig_cache_index st op =
     (let v = (ucast (sf_selector_slot st op) :: u64); mix = v XOR drop_bit 5 v in
      unat (mix AND (of_nat SF_C_SIG_CACHE_SIZE - 1)))"

definition collect_explicit_arg_codes_cached ::
  "selectors \<Rightarrow> SFCSigCacheEntry list \<Rightarrow> addr \<Rightarrow> (string \<times> bool) \<times> SFCSigCacheEntry list" where
  "collect_explicit_arg_codes_cached st cache op =
     (if op = nullptr then (([], False), cache)
      else let i = sig_cache_index st op; entry = cache ! i; slot = sf_selector_slot st op in
        if ce_slot entry = slot
        then ((take (min (unat (ce_argc entry)) SF_C_FALLBACK_MAX_ARGS) (ce_codes entry), ce_unsupported entry), cache)
        else let (codes, unsupported) = collect_explicit_arg_codes (sf_selector_types st op) in
          ((codes, unsupported),
           cache[i := \<lparr>ce_slot = slot, ce_codes = codes @ drop (length codes) (ce_codes entry),
                       ce_argc = of_nat (length codes), ce_unsupported = unsupported\<rparr>]))"

lemma collect_codes_bound: "length codes \<le> 4 \<Longrightarrow> length (fst (collect_codes_loop p i codes)) \<le> 4"
proof (induction p i codes rule: collect_codes_loop.induct)
  case (1 p i codes)
  show ?case
    using 1 by (subst collect_codes_loop.simps) (auto simp: Let_def SF_C_FALLBACK_MAX_ARGS_def)
qed

lemma arg_codes_bound: "length (fst (collect_explicit_arg_codes types)) \<le> 4"
  by (auto simp: collect_explicit_arg_codes_def collect_codes_bound split: option.splits)

lemma sig_cache_index_bound: "sig_cache_index st op < 32"
proof -
  have "sig_cache_index st op = unat ((let v = (ucast (sf_selector_slot st op) :: u64) in v XOR drop_bit 5 v) AND mask 5)"
    by (simp add: sig_cache_index_def SF_C_SIG_CACHE_SIZE_def mask_eq_exp_minus_1 Let_def)
  then show ?thesis by (simp add: unat_and_mask)
qed

text \<open>A program's selectors are used one after the other.\<close>

fun cached_run :: "selectors \<Rightarrow> SFCSigCacheEntry list \<Rightarrow> addr list \<Rightarrow> (string \<times> bool) list" where
  "cached_run st cache [] = []"
| "cached_run st cache (op # ops) =
     (case collect_explicit_arg_codes_cached st cache op of (r, cache) \<Rightarrow> r # cached_run st cache ops)"

definition cached_answer :: "SFCSigCacheEntry \<Rightarrow> string \<times> bool" where
  "cached_answer e = (take (min (unat (ce_argc e)) 4) (ce_codes e), ce_unsupported e)"

definition sig_cache_ok :: "selectors \<Rightarrow> addr set \<Rightarrow> SFCSigCacheEntry list \<Rightarrow> bool" where
  "sig_cache_ok st S cache \<longleftrightarrow> length cache = 32
     \<and> (\<forall>e \<in> set cache. ce_slot e \<noteq> 0 \<longrightarrow> (\<forall>op \<in> S. sf_selector_slot st op = ce_slot e
          \<longrightarrow> cached_answer e = collect_explicit_arg_codes (sf_selector_types st op)))"

lemma cached_step:
  assumes ok: "sig_cache_ok st S cache" and op: "op \<in> S" "op \<noteq> nullptr" "sf_selector_slot st op \<noteq> 0"
    and same: "\<And>a. a \<in> S \<Longrightarrow> sf_selector_slot st a = sf_selector_slot st op \<Longrightarrow> sf_selector_types st a = sf_selector_types st op"
  shows "\<exists>cache'. collect_explicit_arg_codes_cached st cache op = (collect_explicit_arg_codes (sf_selector_types st op), cache')
     \<and> sig_cache_ok st S cache'"
proof -
  let ?i = "sig_cache_index st op" and ?slot = "sf_selector_slot st op"
  have i: "?i < length cache" using ok sig_cache_index_bound by (simp add: sig_cache_ok_def)
  show ?thesis
  proof (cases "ce_slot (cache ! ?i) = ?slot")
    case True
    have "cached_answer (cache ! ?i) = collect_explicit_arg_codes (sf_selector_types st op)"
      using ok op True nth_mem [OF i] unfolding sig_cache_ok_def by metis
    then show ?thesis using True op(2) ok
      by (simp add: collect_explicit_arg_codes_cached_def cached_answer_def SF_C_FALLBACK_MAX_ARGS_def Let_def)
  next
    case False
    obtain codes uns where col: "collect_explicit_arg_codes (sf_selector_types st op) = (codes, uns)"
      by (cases "collect_explicit_arg_codes (sf_selector_types st op)")
    have len: "length codes \<le> 4" using arg_codes_bound [of "sf_selector_types st op"] by (simp add: col)
    let ?e = "\<lparr>ce_slot = ?slot, ce_codes = codes @ drop (length codes) (ce_codes (cache ! ?i)),
                ce_argc = of_nat (length codes), ce_unsupported = uns\<rparr>"
    have "unat (of_nat (length codes) :: u8) = length codes" using len by (simp add: unat_of_nat)
    then have "cached_answer ?e = (codes, uns)" using len by (simp add: cached_answer_def)
    then have "sig_cache_ok st S (cache[?i := ?e])"
      using ok same col unfolding sig_cache_ok_def by (auto dest!: set_update_subset_insert [THEN subsetD])
    moreover have "collect_explicit_arg_codes_cached st cache op = ((codes, uns), cache[?i := ?e])"
      using False op(2) col by (simp add: collect_explicit_arg_codes_cached_def Let_def)
    ultimately show ?thesis by (simp add: col)
  qed
qed

text \<open>C22: The signature cache answers what the collection itself would, whatever selectors have been used before:
  for selectors other than the one with slot 0, as long as selectors of one slot have the same types.\<close>

theorem sig_cache_transparent:
  assumes "\<forall>op \<in> set ops. op \<noteq> nullptr \<and> sf_selector_slot st op \<noteq> 0"
    and "\<forall>a \<in> set ops. \<forall>b \<in> set ops. sf_selector_slot st a = sf_selector_slot st b \<longrightarrow> sf_selector_types st a = sf_selector_types st b"
  shows "cached_run st zero_sig_cache ops = map (\<lambda>op. collect_explicit_arg_codes (sf_selector_types st op)) ops"
proof -
  have "cached_run st cache qs = map (\<lambda>op. collect_explicit_arg_codes (sf_selector_types st op)) qs"
    if "sig_cache_ok st (set ops) cache" "set qs \<subseteq> set ops" for cache qs
    using that
  proof (induction qs arbitrary: cache)
    case (Cons q qs)
    have q: "q \<in> set ops" using Cons.prems(2) by simp
    obtain cache' where "collect_explicit_arg_codes_cached st cache q = (collect_explicit_arg_codes (sf_selector_types st q), cache')"
      "sig_cache_ok st (set ops) cache'"
      using cached_step [OF Cons.prems(1) q] assms q by blast
    with Cons show ?case by simp
  qed simp
  moreover have "sig_cache_ok st (set ops) zero_sig_cache"
    by (simp add: sig_cache_ok_def zero_sig_cache_def SF_C_SIG_CACHE_SIZE_def)
  ultimately show ?thesis by blast
qed

text \<open>C23: Slots are numbered from 0 and the entries of a fresh cache hold slot 0: the selector with slot 0 finds an
  answer that was never stored, no arguments, whatever its types say.\<close>

theorem sig_cache_slot_zero:
  assumes "op \<noteq> nullptr" "sf_selector_slot st op = 0"
    and "collect_explicit_arg_codes (sf_selector_types st op) \<noteq> ([], False)"
  shows "fst (collect_explicit_arg_codes_cached st zero_sig_cache op) = ([], False)
     \<and> hd (cached_run st zero_sig_cache [op]) \<noteq> collect_explicit_arg_codes (sf_selector_types st op)"
proof -
  have "zero_sig_cache ! sig_cache_index st op = \<lparr>ce_slot = 0, ce_codes = replicate SF_C_FALLBACK_MAX_ARGS (CHR 0x00),
      ce_argc = 0, ce_unsupported = False\<rparr>"
    using sig_cache_index_bound [of st op] by (simp add: zero_sig_cache_def SF_C_SIG_CACHE_SIZE_def)
  with assms show ?thesis by (auto simp: collect_explicit_arg_codes_cached_def Let_def)
qed

text \<open>A selector of a compiled module with one explicit argument, whose name has the given slot.\<close>

definition demo_slot :: "u32 \<Rightarrow> selectors" where
  "demo_slot k = demo_frozen
     \<lparr>frozen_mem := [0x10 \<mapsto> \<lparr>fz_sel = \<lparr>sel_name = Some ''init'', sel_types = None\<rparr>, fz_slot = k\<rparr>],
      static_mem := [0x20 \<mapsto> \<lparr>sel_name = Some ''init'', sel_types = Some ''@20@0:8i16''\<rparr>]\<rparr>"

lemma demo_slot_facts: "sf_selector_slot (demo_slot k) 0x20 = k" "sf_selector_types (demo_slot k) 0x20 = Some ''@20@0:8i16''"
proof -
  have n: "sf_selector_name (demo_slot k) 0x20 = Some ''init''" "sf_selector_name (demo_slot k) 0x10 = Some ''init''"
    by (simp_all add: demo_slot_def demo_frozen_def sf_selector_name_def sf_selector_fields_def)
  show "sf_selector_types (demo_slot k) 0x20 = Some ''@20@0:8i16''"
    by (simp add: demo_slot_def demo_frozen_def sf_selector_types_def sf_selector_fields_def)
  have "sf_lookup_selector_named (demo_slot k) (Some ''init'') = 0x10"
    using demo_frozen_ok(4)
    by (simp add: demo_slot_def sel_registerName_def sf_lookup_selector_named_def
        sf_frozen_selector_for_name_unlocked_def sf_selector_entry_for_name_unlocked_def)
  with n show "sf_selector_slot (demo_slot k) 0x20 = k"
    by (simp add: sf_selector_slot_def) (simp add: demo_slot_def)
qed

lemma demo_codes: "collect_explicit_arg_codes (Some ''@20@0:8i16'') = (''i'', False)"
  by code_simp

theorem sig_cache_transparent_witness:
  "cached_run (demo_slot 1) zero_sig_cache [0x20, 0x20] = [(''i'', False), (''i'', False)]"
  using sig_cache_transparent [where ops = "[0x20, 0x20]" and st = "demo_slot 1"] by (simp add: demo_slot_facts demo_codes)

theorem sig_cache_slot_zero_witness:
  "fst (collect_explicit_arg_codes_cached (demo_slot 0) zero_sig_cache 0x20) = ([], False)"
  using sig_cache_slot_zero [where op = "0x20" and st = "demo_slot 0"] by (simp add: demo_slot_facts demo_codes)

section \<open>What the collection finds in a method's encoding\<close>

text \<open>How the C ABI makes the backend pass a type, from its size and its fields: \<open>None\<close> where it gives up.\<close>

definition arg_spec :: "ctype \<Rightarrow> SFCCallArgInfo option" where
  "arg_spec t =
     (case t of
        Scalar s \<Rightarrow> Some \<lparr>ai_code = scalar_char s, ai_kind = KIND_CODE, ai_size = 0\<rparr>
      | Block \<Rightarrow> Some \<lparr>ai_code = CHR ''@'', ai_kind = KIND_CODE, ai_size = 0\<rparr>
      | Pointer _ \<Rightarrow> Some \<lparr>ai_code = CHR ''^'', ai_kind = KIND_CODE, ai_size = 0\<rparr>
      | _ \<Rightarrow>
          if has_float t then None
          else if abi_size t \<le> 8 then Some \<lparr>ai_code = CHR ''Q'', ai_kind = KIND_AGGREGATE_WORD, ai_size = of_nat (abi_size t)\<rparr>
          else if abi_size t > 16 \<and> (\<exists>nm ts. t = Struct nm ts)
          then Some \<lparr>ai_code = CHR ''{'', ai_kind = KIND_STRUCT_BYTES, ai_size = of_nat (abi_size t)\<rparr>
          else Some \<lparr>ai_code = CHR ''^'', ai_kind = KIND_AGGREGATE_POINTER, ai_size = of_nat (abi_size t)\<rparr>)"

fun method_args :: "(ctype \<times> nat) list \<Rightarrow> string" where
  "method_args [] = []"
| "method_args ((t, off) # args) = encode t @ decimal off @ method_args args"

definition method_encoding :: "ctype \<Rightarrow> nat \<Rightarrow> (ctype \<times> nat) list \<Rightarrow> string" where
  "method_encoding ret frame args = encode ret @ decimal frame @ method_args args"

lemma parse_encode: "type_ok t \<Longrightarrow> rest_ok r \<Longrightarrow> parse_type_layout (encode t @ r) = abi_layout t r"
proof -
  assume t: "type_ok t" "rest_ok r"
  from encode_parses [OF t(1)] t(2) obtain fuel where "parse_layout_fuel fuel (encode t @ r) = Some (abi_layout t r)"
    by (auto simp: parses_to_def)
  then show ?thesis by (rule parse_type_layout_eq)
qed

lemma primary_encode: "primary_type_code (encode t @ r) = hd (encode t)"
proof -
  obtain c e where e: "encode t = c # e" by (rule encode_start [of t])
  have "dropWhile is_type_qualifier (encode t @ r) = c # e @ r" using encode_no_qualifier [of t r] e by simp
  then show ?thesis by (simp add: primary_type_code_def e)
qed

lemma size_word: "n < 2 ^ 64 \<Longrightarrow> of_nat n \<le> (of_nat k :: u64) \<longleftrightarrow> n \<le> k" if "k < 2 ^ 64" for n k :: nat
  using that by (simp add: word_le_nat_alt unat_of_nat_u64)

lemma size_16: "ucast (of_nat n :: u64) = (of_nat n :: 16 word)"
  by (rule bit_word_eqI) (auto simp: bit_simps)

lemma aggregate_encode:
  assumes "type_ok t" "rest_ok r" "hd (encode t) \<in> {CHR ''{'', CHR ''('', CHR ''[''}"
  shows "classify_aggregate_token (encode t @ r) info =
     (if has_float t then (False, info)
      else if abi_size t \<le> 8 then (True, \<lparr>ai_code = CHR ''Q'', ai_kind = KIND_AGGREGATE_WORD, ai_size = of_nat (abi_size t)\<rparr>)
      else if hd (encode t) = CHR ''{'' \<and> abi_size t > 16
      then (True, \<lparr>ai_code = CHR ''{'', ai_kind = KIND_STRUCT_BYTES, ai_size = of_nat (abi_size t)\<rparr>)
      else (True, \<lparr>ai_code = CHR ''^'', ai_kind = KIND_AGGREGATE_POINTER, ai_size = of_nat (abi_size t)\<rparr>))"
proof -
  have size: "abi_size t < 2 ^ 64"
  proof (cases t)
    case (Scalar s)
    with assms(3) show ?thesis by (cases s) auto
  qed (use assms in auto)
  have "of_nat (abi_size t) \<le> (8 :: u64) \<longleftrightarrow> abi_size t \<le> 8" "of_nat (abi_size t) \<le> (16 :: u64) \<longleftrightarrow> abi_size t \<le> 16"
    using size_word [of 8 "abi_size t"] size_word [of 16 "abi_size t"] size by simp_all
  then show ?thesis
    by (simp add: classify_aggregate_token_def parse_encode [OF assms(1,2)] primary_encode abi_layout_def layout_at_def
        Let_def not_le [symmetric] size_16)
qed

lemma classify_encode:
  assumes "type_ok t" "rest_ok r"
  shows "fst (classify_type_token (encode t @ r)) \<longleftrightarrow> arg_spec t \<noteq> None"
    and "arg_spec t = Some i \<Longrightarrow> classify_type_token (encode t @ r) = (True, i)"
proof -
  let ?info = "\<lparr>ai_code = hd (encode t), ai_kind = KIND_CODE, ai_size = 0\<rparr>"
  note agg = aggregate_encode [OF assms, of ?info]
  have "(fst (classify_type_token (encode t @ r)) \<longleftrightarrow> arg_spec t \<noteq> None)
    \<and> (arg_spec t = Some i \<longrightarrow> classify_type_token (encode t @ r) = (True, i))"
  proof (cases t)
    case (Scalar s)
    then show ?thesis using primary_encode [of t r] by (cases s) (auto simp: classify_type_token_def Let_def arg_spec_def)
  next
    case Block
    then show ?thesis using primary_encode [of Block r] by (auto simp: classify_type_token_def Let_def arg_spec_def)
  next
    case (Pointer u)
    then show ?thesis using primary_encode [of "Pointer u" r] by (auto simp: classify_type_token_def Let_def arg_spec_def)
  next
    case (Array n u)
    then show ?thesis using agg primary_encode [of t r] by (auto simp: classify_type_token_def Let_def arg_spec_def)
  next
    case (Struct nm ts)
    then show ?thesis using agg primary_encode [of t r] by (auto simp: classify_type_token_def Let_def arg_spec_def)
  next
    case (Union nm ts)
    then show ?thesis using agg primary_encode [of t r] by (auto simp: classify_type_token_def Let_def arg_spec_def)
  qed
  then show "fst (classify_type_token (encode t @ r)) \<longleftrightarrow> arg_spec t \<noteq> None"
    "arg_spec t = Some i \<Longrightarrow> classify_type_token (encode t @ r) = (True, i)" by auto
qed

lemma encode_nonempty [simp]: "encode t \<noteq> []"
  by (rule encode_start [of t]) simp

lemma decimal_offset: "list_all is_offset_char (decimal n)"
  using decimal_digits [of n] by (simp add: is_offset_char_def list_all_iff)

lemma decimal_start: obtains c e where "decimal n = c # e" "is_digit_char c"
proof -
  have "decimal n \<noteq> []" by (subst decimal.simps) simp
  then show ?thesis using decimal_digits [of n] that by (cases "decimal n") auto
qed

lemma drop_number: "list_all Q ds \<Longrightarrow> r = [] \<or> \<not> Q (hd r) \<Longrightarrow> dropWhile Q (ds @ r) = r"
  by (induction ds) (auto simp: dropWhile_eq_self_iff)

lemma method_args_start: "method_args args = [] \<or> \<not> is_offset_char (hd (method_args args))"
proof (cases args)
  case (Cons a as)
  obtain t off where a: "a = (t, off)" by (cases a)
  obtain c e where c: "encode t = c # e" "\<not> is_digit_char c" by (rule encode_start [of t])
  have "c \<noteq> CHR ''-''"
  proof (cases t)
    case (Scalar s)
    with c(1) show ?thesis by (cases s) auto
  qed (use c(1) in auto)
  with c show ?thesis by (simp add: Cons a is_offset_char_def)
qed simp

lemma number_rest_ok: "rest_ok (decimal n @ r)"
  by (rule decimal_start [of n]) (auto simp: rest_ok_def is_digit_char_def)

lemma skip_argument:
  assumes "type_ok t"
  shows "dropWhile is_offset_char (skip_type_token (encode t @ decimal off @ method_args args)) = method_args args"
  using skip_encode [OF assms number_rest_ok] drop_number [OF decimal_offset method_args_start] by simp

definition collected :: "ctype list \<Rightarrow> SFCCallArgInfo list \<times> bool" where
  "collected ts = (let ok = takeWhile (\<lambda>t. arg_spec t \<noteq> None) (take 4 ts) in (map (\<lambda>t. the (arg_spec t)) ok, length ok < length ts))"

lemma collect_loop_encode:
  assumes "list_all (\<lambda>a. type_ok (fst a)) args" "2 \<le> i" "length infos \<le> 4"
  shows "collect_infos_loop (method_args args) i infos =
     (let ok = takeWhile (\<lambda>t. arg_spec t \<noteq> None) (take (4 - length infos) (map fst args)) in
      (infos @ map (\<lambda>t. the (arg_spec t)) ok, length ok < length args))"
  using assms
proof (induction args arbitrary: i infos)
  case Nil
  then show ?case by (simp add: collect_infos_loop.simps)
next
  case (Cons a args)
  obtain t off where a: "a = (t, off)" by (cases a)
  have t: "type_ok t" using Cons.prems(1) by (simp add: a)
  let ?token = "encode t @ decimal off @ method_args args"
  have ne: "?token \<noteq> []" by simp
  note step = collect_infos_loop.simps [of ?token i infos]
  show ?case
  proof (cases "length infos < 4")
    case False
    with Cons.prems(2,3) ne show ?thesis by (simp add: step a SF_C_FALLBACK_MAX_ARGS_def)
  next
    case room: True
    then have k: "4 - length infos = Suc (3 - length infos)" by simp
    show ?thesis
    proof (cases "arg_spec t")
      case None
      then obtain info where "classify_type_token ?token = (False, info)"
        using classify_encode(1) [OF t number_rest_ok [of off "method_args args"]]
        by (cases "classify_type_token ?token") auto
      with Cons.prems(2) room ne show ?thesis by (simp add: step a SF_C_FALLBACK_MAX_ARGS_def None k)
    next
      case (Some info)
      have "classify_type_token ?token = (True, info)" by (rule classify_encode(2) [OF t number_rest_ok Some])
      moreover have "collect_infos_loop (method_args args) (i + 1) (infos @ [info]) =
         (let ok = takeWhile (\<lambda>t. arg_spec t \<noteq> None) (take (4 - length (infos @ [info])) (map fst args)) in
          (infos @ [info] @ map (\<lambda>t. the (arg_spec t)) ok, length ok < length args))"
        using Cons.IH [of "i + 1" "infos @ [info]"] Cons.prems room by (simp add: a)
      ultimately show ?thesis
        using Cons.prems(2) room ne skip_argument [OF t, of off args]
        by (simp add: step a SF_C_FALLBACK_MAX_ARGS_def Some k Let_def)
    qed
  qed
qed

lemma collect_loop_skip:
  assumes "type_ok t" "i < 2"
  shows "collect_infos_loop (method_args ((t, off) # args)) i infos = collect_infos_loop (method_args args) (i + 1) infos"
proof -
  from assms skip_argument [OF assms(1), of off args] show ?thesis
    by (subst collect_infos_loop.simps) simp
qed

lemma collect_infos_method:
  assumes "type_ok ret" "type_ok t0" "type_ok t1" "list_all (\<lambda>a. type_ok (fst a)) args"
  shows "collect_explicit_arg_infos (Some (method_encoding ret frame ((t0, o0) # (t1, o1) # args))) = collected (map fst args)
     \<and> (fst (collect_return_info (Some (method_encoding ret frame ((t0, o0) # (t1, o1) # args))) info) \<longleftrightarrow> arg_spec ret \<noteq> None)
     \<and> (\<forall>i. arg_spec ret = Some i \<longrightarrow>
          collect_return_info (Some (method_encoding ret frame ((t0, o0) # (t1, o1) # args))) info = (True, i))"
proof (intro conjI allI impI)
  let ?args = "(t0, o0) # (t1, o1) # args"
  let ?types = "method_encoding ret frame ?args"
  have ne: "?types \<noteq> []" by (simp add: method_encoding_def)
  have ret: "collect_return_info (Some ?types) info = classify_type_token (encode ret @ decimal frame @ method_args ?args)"
    using ne by (simp add: collect_return_info_def method_encoding_def)
  show "fst (collect_return_info (Some ?types) info) \<longleftrightarrow> arg_spec ret \<noteq> None"
    unfolding ret by (rule classify_encode(1) [OF assms(1) number_rest_ok])
  show "collect_return_info (Some ?types) info = (True, i)" if "arg_spec ret = Some i" for i
    unfolding ret by (rule classify_encode(2) [OF assms(1) number_rest_ok that])
  have "method_args ?args = [] \<or> \<not> is_digit_char (hd (method_args ?args))"
    using method_args_start [of ?args] by (auto simp: is_offset_char_def)
  then have "dropWhile is_digit_char (skip_type_token ?types) = method_args ?args"
    unfolding method_encoding_def skip_encode [OF assms(1) number_rest_ok] by (rule drop_number [OF decimal_digits])
  then have "collect_explicit_arg_infos (Some ?types) = collect_infos_loop (method_args ?args) 0 []"
    using ne by (simp add: collect_explicit_arg_infos_def)
  also have "\<dots> = collect_infos_loop (method_args args) (0 + 1 + 1) []"
    using collect_loop_skip [OF assms(2), of 0 o0 "(t1, o1) # args" "[]"] collect_loop_skip [OF assms(3), of 1 o1 args "[]"]
    by simp
  also have "\<dots> = collected (map fst args)"
    using collect_loop_encode [OF assms(4), of 2 "[]"] by (simp add: collected_def Let_def numeral_2_eq_2)
  finally show "collect_explicit_arg_infos (Some ?types) = collected (map fst args)" .
qed

text \<open>From the encoding of a method the backend learns how each explicit argument is passed, as the C ABI sees
  its type: by its code, as one word, by reference, or byte by byte.  It collects the first four arguments
  that it can pass and says so when that is not all of them.  For the type returned it learns the same.\<close>

theorem collect_infos_encode:
  assumes "type_ok ret" "type_ok t0" "type_ok t1" "list_all (\<lambda>a. type_ok (fst a)) args"
  shows "collect_explicit_arg_infos (Some (method_encoding ret frame ((t0, o0) # (t1, o1) # args))) = collected (map fst args)
     \<and> (fst (collect_return_info (Some (method_encoding ret frame ((t0, o0) # (t1, o1) # args))) info) \<longleftrightarrow> arg_spec ret \<noteq> None)
     \<and> (\<forall>i. arg_spec ret = Some i \<longrightarrow>
          collect_return_info (Some (method_encoding ret frame ((t0, o0) # (t1, o1) # args))) info = (True, i))"
  using assms by (rule collect_infos_method)

theorem collect_infos_encode_witness:
  "collect_explicit_arg_infos (Some ''v60@0:8i16{P=ii}20{R=lll}28^c52'') =
     ([\<lparr>ai_code = CHR ''i'', ai_kind = KIND_CODE, ai_size = 0\<rparr>,
       \<lparr>ai_code = CHR ''Q'', ai_kind = KIND_AGGREGATE_WORD, ai_size = 8\<rparr>,
       \<lparr>ai_code = CHR ''{'', ai_kind = KIND_STRUCT_BYTES, ai_size = 24\<rparr>,
       \<lparr>ai_code = CHR ''^'', ai_kind = KIND_CODE, ai_size = 0\<rparr>], False)"
proof -
  have dec: "decimal 60 = ''60''" "decimal 0 = ''0''" "decimal 8 = ''8''" "decimal 16 = ''16''" "decimal 20 = ''20''"
    "decimal 28 = ''28''" "decimal 52 = ''52''" by code_simp+
  show ?thesis
    using collect_infos_encode [of "Scalar TVoid" "Scalar TObject" "Scalar TSel"
        "[(Scalar TInt, 16), (Struct ''P'' [Scalar TInt, Scalar TInt], 20),
          (Struct ''R'' [Scalar TLong, Scalar TLong, Scalar TLong], 28), (Pointer (Scalar TChar), 52)]" 60 0 8]
    by (simp add: tag_ok_def pad_to_def place_field_def method_encoding_def collected_def arg_spec_def dec)
qed

section \<open>Words for libffi\<close>

datatype ffi_type = FfiVoid | FfiSint8 | FfiUint8 | FfiSint16 | FfiUint16 | FfiSint32 | FfiUint32 | FfiFloat
  | FfiSlong | FfiUlong | FfiSint64 | FfiUint64 | FfiDouble | FfiPointer | FfiStruct "ffi_type list"

definition ffi_type_for_code :: "char \<Rightarrow> ffi_type option" where
  "ffi_type_for_code code =
     (if code = CHR ''v'' then Some FfiVoid
      else if code = CHR ''c'' then Some FfiSint8
      else if code \<in> set ''CB'' then Some FfiUint8
      else if code = CHR ''s'' then Some FfiSint16
      else if code = CHR ''S'' then Some FfiUint16
      else if code = CHR ''i'' then Some FfiSint32
      else if code = CHR ''I'' then Some FfiUint32
      else if code = CHR ''f'' then Some FfiFloat
      else if code = CHR ''l'' then Some FfiSlong
      else if code = CHR ''L'' then Some FfiUlong
      else if code = CHR ''q'' then Some FfiSint64
      else if code = CHR ''Q'' then Some FfiUint64
      else if code = CHR ''d'' then Some FfiDouble
      else if code \<in> set ''*:@#^[({'' then Some FfiPointer
      else None)"

text \<open>The unions \<open>SFCWordStorage\<close> and \<open>SFCArgValue\<close> are their eight bytes, of which a member of \<open>n\<close> bits is the
  low part.  The conversions of an integer to \<open>float\<close> and \<open>double\<close> are parameters, as bit patterns.\<close>

definition set_member :: "nat \<Rightarrow> u64 \<Rightarrow> u64 \<Rightarrow> u64" where
  "set_member n storage v = (storage AND NOT (mask n)) OR (v AND mask n)"

record float_conversions =
  word_to_float :: "u64 \<Rightarrow> u64"
  word_to_double :: "u64 \<Rightarrow> u64"
  double_to_float :: "u64 \<Rightarrow> u64"

definition store_word_arg :: "float_conversions \<Rightarrow> u64 \<Rightarrow> char \<Rightarrow> u64 \<Rightarrow> u64" where
  "store_word_arg fc storage code raw =
     (if code \<in> set ''cCB'' then set_member 8 storage raw
      else if code \<in> set ''sS'' then set_member 16 storage raw
      else if code \<in> set ''iI'' then set_member 32 storage raw
      else if code \<in> set ''lLqQ'' then set_member 64 storage raw
      else if code = CHR ''f'' then set_member 32 storage (word_to_float fc raw)
      else if code = CHR ''d'' then set_member 64 storage (word_to_double fc raw)
      else set_member 64 storage raw)"

definition store_call_arg :: "float_conversions \<Rightarrow> u64 \<Rightarrow> char \<Rightarrow> u64 \<Rightarrow> u64" where
  "store_call_arg fc storage code val =
     (if code = CHR ''f'' then set_member 32 storage val
      else if code = CHR ''d'' then set_member 64 storage val
      else store_word_arg fc storage code val)"

definition return_word_as_id :: "u64 \<Rightarrow> char \<Rightarrow> u64" where
  "return_word_as_id storage code =
     (if code = CHR ''v'' then 0
      else if code = CHR ''c'' then signed_take_bit 7 storage
      else if code \<in> set ''CB'' then take_bit 8 storage
      else if code = CHR ''s'' then signed_take_bit 15 storage
      else if code = CHR ''S'' then take_bit 16 storage
      else if code = CHR ''i'' then signed_take_bit 31 storage
      else if code = CHR ''I'' then take_bit 32 storage
      else storage)"

text \<open>The value a C integer type keeps of a word.\<close>

fun signed_scalar :: "scalar \<Rightarrow> bool" where
  "signed_scalar TChar = True" | "signed_scalar TShort = True" | "signed_scalar TInt = True"
| "signed_scalar TLong = True" | "signed_scalar TLongLong = True" | "signed_scalar _ = False"

definition c_value :: "scalar \<Rightarrow> u64 \<Rightarrow> int" where
  "c_value s raw =
     (let n = 8 * scalar_bytes s; v = uint raw mod 2 ^ n in
      if signed_scalar s \<and> v \<ge> 2 ^ (n - 1) then v - 2 ^ n else v)"

lemma member_take: "n \<le> 64 \<Longrightarrow> take_bit n (set_member n st v) = take_bit n v"
  by (rule bit_word_eqI) (auto simp: set_member_def bit_simps)

lemma member_signed: "0 < n \<Longrightarrow> n \<le> 64 \<Longrightarrow> signed_take_bit (n - 1) (set_member n st v) = signed_take_bit (n - 1) v"
  by (rule bit_word_eqI) (auto simp: set_member_def bit_simps min_def)

lemma member_all: "set_member 64 st v = v"
  by (rule bit_word_eqI) (auto simp: set_member_def bit_simps)

lemma unsigned_value: "take_bit n raw = (word_of_int (uint raw mod 2 ^ n) :: u64)"
  by (rule bit_word_eqI) (auto simp: bit_simps simp flip: take_bit_eq_mod)

lemma signed_int:
  "signed_take_bit m (k :: int) = (let v = k mod 2 ^ Suc m in if v \<ge> 2 ^ m then v - 2 ^ Suc m else v)"
proof -
  have "k mod 2 ^ Suc m = take_bit m k + 2 ^ m * of_bool (bit k m)"
    using take_bit_Suc_from_most [of m k] by (simp add: take_bit_eq_mod)
  moreover have "0 \<le> take_bit m k" "take_bit m k < 2 ^ m" by simp_all
  moreover have "signed_take_bit m k = take_bit (Suc m) k - 2 ^ Suc m * of_bool (bit k m)"
    by (rule signed_take_bit_eq_take_bit_minus)
  moreover have "k mod 2 ^ m < 2 ^ m" by simp
  ultimately show ?thesis by (cases "bit k m") (auto simp: take_bit_eq_mod Let_def simp del: pos_mod_bound)
qed

lemma signed_value:
  "signed_take_bit m raw = (word_of_int (let v = uint raw mod 2 ^ Suc m in if v \<ge> 2 ^ m then v - 2 ^ Suc m else v) :: u64)"
proof -
  have "signed_take_bit m raw = (word_of_int (signed_take_bit m (uint raw)) :: u64)" if "m < 64"
    using that by (intro bit_word_eqI) (auto simp: bit_simps)
  moreover have "signed_take_bit m raw = (word_of_int (signed_take_bit m (uint raw)) :: u64)" if "\<not> m < 64"
    using that by (intro bit_word_eqI) (auto simp: bit_simps)
  ultimately show ?thesis unfolding signed_int by blast
qed

lemma c_value_word:
  assumes "0 < scalar_bytes s"
  shows "(word_of_int (c_value s raw) :: u64) =
     (if signed_scalar s then signed_take_bit (8 * scalar_bytes s - 1) raw else take_bit (8 * scalar_bytes s) raw)"
proof -
  have "Suc (8 * scalar_bytes s - 1) = 8 * scalar_bytes s" using assms by simp
  then show ?thesis
    using signed_value [of "8 * scalar_bytes s - 1" raw] unsigned_value [of "8 * scalar_bytes s" raw]
    by (auto simp: c_value_def Let_def)
qed

lemma full_width: "signed_take_bit 63 (raw :: u64) = raw" "take_bit 64 (raw :: u64) = raw"
proof -
  show "signed_take_bit 63 raw = raw"
  proof (rule bit_word_eqI)
    fix n assume n: "n < LENGTH(64)"
    then have "min 63 n = n" by simp
    with n show "bit (signed_take_bit 63 raw) n = bit raw n" by (simp add: bit_signed_take_bit_iff)
  qed
qed (simp add: take_bit_word_eq_self)

text \<open>A word put into the storage of an integer argument and read back as a result is the value the C
  type of that width and signedness keeps of it, extended to a pointer's width; other codes keep the word.\<close>

theorem word_storage_roundtrip:
  "return_word_as_id (store_word_arg fc storage (scalar_char s) raw) (scalar_char s) =
     (if s = TVoid then 0
      else if s = TFloat then set_member 32 storage (word_to_float fc raw)
      else if s = TDouble then word_to_double fc raw
      else word_of_int (c_value s raw))"
proof (cases "scalar_bytes s = 0")
  case True
  then show ?thesis by (cases s) (simp_all add: return_word_as_id_def)
next
  case False
  have "signed_take_bit 7 (set_member 8 storage raw) = signed_take_bit 7 raw" using member_signed [of 8 storage raw] by simp
  moreover have "signed_take_bit 15 (set_member 16 storage raw) = signed_take_bit 15 raw"
    using member_signed [of 16 storage raw] by simp
  moreover have "signed_take_bit 31 (set_member 32 storage raw) = signed_take_bit 31 raw"
    using member_signed [of 32 storage raw] by simp
  ultimately show ?thesis
    using False by (cases s) (simp_all add: return_word_as_id_def store_word_arg_def c_value_word member_take member_all full_width)
qed

end
