(* ===== verification/SF_Send.thy ===== *)
theory SF_Send
  imports SF_Calls SF_Dispatch SF_Leb
begin

unbundle bit_operations_syntax

text \<open>
  Sending a message through the C backend (\<open>objc_msgSend\<close> in \<open>Runtime/src/dispatch/dispatch-c.c\<close>, on x86-64
  Linux with libffi): reading the variable arguments by what the method's encoding says of them, and
  the call, made directly when all of them are words and through libffi otherwise.  The call itself leaves the
  modelled part; the model says what is called with what.
\<close>

section \<open>Variable arguments\<close>

text \<open>A \<open>va_list\<close> of the System V ABI: the general and the floating-point registers not read yet, and the
  arguments on the stack.  \<open>va_arg\<close> takes a word or a \<open>double\<close> from the registers as long as there are any.\<close>

record va_list =
  va_mem :: byte_mem
  va_gp :: "u64 list"
  va_fp :: "u64 list"
  va_overflow :: addr

definition va_stack_word :: "va_list \<Rightarrow> (u64 \<times> va_list) option" where
  "va_stack_word ap = map_option (\<lambda>w. (w, ap\<lparr>va_overflow := va_overflow ap + 8\<rparr>)) (read_le (va_mem ap) 8 (va_overflow ap))"

definition va_word :: "va_list \<Rightarrow> (u64 \<times> va_list) option" where
  "va_word ap = (case va_gp ap of w # ws \<Rightarrow> Some (w, ap\<lparr>va_gp := ws\<rparr>) | [] \<Rightarrow> va_stack_word ap)"

definition va_double :: "va_list \<Rightarrow> (u64 \<times> va_list) option" where
  "va_double ap = (case va_fp ap of d # ds \<Rightarrow> Some (d, ap\<lparr>va_fp := ds\<rparr>) | [] \<Rightarrow> va_stack_word ap)"

definition read_word_arg :: "va_list \<Rightarrow> char \<Rightarrow> (u64 \<times> va_list) option" where
  "read_word_arg ap code =
     map_option (\<lambda>(w, ap). (if code \<in> set ''csiB'' then signed_take_bit 31 w
                             else if code \<in> set ''CSI'' then take_bit 32 w else w, ap)) (va_word ap)"

definition read_arg_value :: "float_conversions \<Rightarrow> va_list \<Rightarrow> char \<Rightarrow> (u64 \<times> va_list) option" where
  "read_arg_value fc ap code =
     (if code = CHR ''f'' then map_option (\<lambda>(d, ap). (take_bit 32 (double_to_float fc d), ap)) (va_double ap)
      else if code = CHR ''d'' then va_double ap
      else read_word_arg ap code)"

definition read_struct_bytes_arg :: "va_list \<Rightarrow> u64 \<Rightarrow> u64 \<times> va_list" where
  "read_struct_bytes_arg ap sz = (va_overflow ap, ap\<lparr>va_overflow := va_overflow ap + align_up_size sz 8\<rparr>)"

definition read_call_arg_value :: "float_conversions \<Rightarrow> va_list \<Rightarrow> SFCCallArgInfo \<Rightarrow> (u64 \<times> va_list) option" where
  "read_call_arg_value fc ap info =
     (if ai_kind info = KIND_AGGREGATE_WORD then va_word ap
      else if ai_kind info = KIND_STRUCT_BYTES then Some (read_struct_bytes_arg ap (ucast (ai_size info)))
      else if ai_kind info = KIND_AGGREGATE_POINTER then va_word ap
      else read_arg_value fc ap (ai_code info))"

fun read_call_args :: "float_conversions \<Rightarrow> va_list \<Rightarrow> SFCCallArgInfo list \<Rightarrow> (u64 list \<times> va_list) option" where
  "read_call_args fc ap [] = Some ([], ap)"
| "read_call_args fc ap (info # infos) = do {
     (v, ap) \<leftarrow> read_call_arg_value fc ap info;
     (vs, ap) \<leftarrow> read_call_args fc ap infos;
     Some (v # vs, ap)
   }"

section \<open>Types for libffi\<close>

function build_struct_fields :: "string \<Rightarrow> ffi_type list \<Rightarrow> ffi_type list option" where
  "build_struct_fields p elements =
     (if p = [] then None
      else if hd p = CHR ''}'' then Some elements
      else case ffi_type_for_code (primary_type_code p) of None \<Rightarrow> None
        | Some field \<Rightarrow>
            if length elements + 1 \<ge> 16 then None
            else if primary_type_code p \<in> set ''{(['' then None
            else build_struct_fields (skip_type_token p) (elements @ [field]))"
  by pat_completeness auto
termination
  by (relation "measure (\<lambda>(p, _). length p)") (use skip_token_shorter [of _ "\<lambda>_. False"] in auto)

declare build_struct_fields.simps [simp del]

definition build_struct_ffi_type :: "string \<Rightarrow> ffi_type option" where
  "build_struct_ffi_type token =
     (case dropWhile is_type_qualifier token of [] \<Rightarrow> None
      | c # p \<Rightarrow>
          if c \<noteq> CHR ''{'' then None
          else case dropWhile (\<lambda>x. x \<noteq> CHR ''='' \<and> x \<noteq> CHR ''}'') p of [] \<Rightarrow> None
            | x # p \<Rightarrow> if x \<noteq> CHR ''='' then None else map_option FfiStruct (build_struct_fields p []))"

definition ffi_type_for_call_info :: "SFCCallArgInfo \<Rightarrow> ffi_type option" where
  "ffi_type_for_call_info info =
     (if ai_kind info = KIND_AGGREGATE_WORD then Some FfiUint64
      else if ai_kind info = KIND_AGGREGATE_POINTER then Some FfiPointer
      else ffi_type_for_code (ai_code info))"

text \<open>The loop that finds the token of explicit argument \<open>i\<close>.\<close>

function struct_token_loop :: "string \<Rightarrow> nat \<Rightarrow> nat \<Rightarrow> string option" where
  "struct_token_loop p arg_index i =
     (if p = [] then None
      else let token = p; p = dropWhile is_offset_char (skip_type_token token) in
        if arg_index \<ge> 2 \<and> arg_index - 2 = i then Some token else struct_token_loop p (arg_index + 1) i)"
  by pat_completeness auto
termination
  by (relation "measure (\<lambda>(p, _, _). length p)") (auto simp: skip_token_shorter)

declare struct_token_loop.simps [simp del]

section \<open>The message send\<close>

datatype ffi_value = Storage u64 | AtAddress addr

text \<open>Nothing, a direct call of an implementation with receiver, selector and words, or a call through libffi with the
  type of the result and the typed arguments, which \<open>ffi_prep_cif\<close> may still refuse.\<close>

datatype message_send = NotSent | Direct addr addr addr "u64 list"
  | ThroughFfi addr ffi_type addr addr "(ffi_type \<times> ffi_value) list"

definition ffi_argument :: "float_conversions \<Rightarrow> string option \<Rightarrow> nat \<Rightarrow> SFCCallArgInfo \<Rightarrow> u64 \<Rightarrow> (ffi_type \<times> ffi_value) option" where
  "ffi_argument fc types i info v =
     (if ai_kind info = KIND_STRUCT_BYTES then do {
        ts \<leftarrow> types;
        token \<leftarrow> struct_token_loop (dropWhile is_digit_char (skip_type_token ts)) 0 i;
        t \<leftarrow> build_struct_ffi_type token;
        Some (t, AtAddress v)
      }
      else do {
        t \<leftarrow> ffi_type_for_call_info info;
        Some (t, Storage (store_call_arg fc 0 (ai_code info) v))
      })"

fun ffi_arguments :: "float_conversions \<Rightarrow> string option \<Rightarrow> nat \<Rightarrow> SFCCallArgInfo list \<Rightarrow> u64 list \<Rightarrow> (ffi_type \<times> ffi_value) list option" where
  "ffi_arguments fc types i (info # infos) (v # vs) = do {
     a \<leftarrow> ffi_argument fc types i info v;
     as \<leftarrow> ffi_arguments fc types (i + 1) infos vs;
     Some (a # as)
   }"
| "ffi_arguments fc types i _ _ = Some []"

definition objc_msgSend :: "float_conversions \<Rightarrow> dispatch_env \<Rightarrow> addr \<Rightarrow> addr \<Rightarrow> va_list \<Rightarrow> message_send option" where
  "objc_msgSend fc env receiver op ap = do {
     (imp, receiver, op) \<leftarrow> sf_resolve_message_dispatch env receiver op;
     let types = sf_selector_types (d_sels env) op;
     let (arg_infos, unsupported_sig) = collect_explicit_arg_infos types;
     let (ok, ret_info) = collect_return_info types \<lparr>ai_code = CHR 0x00, ai_kind = KIND_CODE, ai_size = 0\<rparr>;
     if unsupported_sig \<or> \<not> ok then Some NotSent
     else case ffi_type_for_call_info ret_info of None \<Rightarrow> Some NotSent
       | Some ret_type \<Rightarrow> do {
           (args, _) \<leftarrow> read_call_args fc ap arg_infos;
           if direct_word_call_supported ret_info arg_infos then Some (Direct imp receiver op args)
           else case ffi_arguments fc types 0 arg_infos args of None \<Rightarrow> Some NotSent
             | Some ffi_args \<Rightarrow> Some (ThroughFfi imp ret_type receiver op ffi_args)
         }
   }"

text \<open>With a structure for a result, the call goes through libffi and writes to \<open>out\<close>; the address of the result, the
  receiver and the selector leave three general registers.\<close>

definition objc_msgSend_stret ::
  "float_conversions \<Rightarrow> dispatch_env \<Rightarrow> addr \<Rightarrow> addr \<Rightarrow> addr \<Rightarrow> va_list \<Rightarrow> message_send option" where
  "objc_msgSend_stret fc env out receiver op ap = (
     let (arg_infos, unsupported_sig) = collect_explicit_arg_infos (sf_selector_types (d_sels env) op) in do {
     (imp, receiver, op) \<leftarrow> sf_resolve_message_dispatch env receiver op;
     if out = nullptr \<or> unsupported_sig then Some NotSent
     else do {
       (args, _) \<leftarrow> read_call_args fc ap arg_infos;
       let types = sf_selector_types (d_sels env) op;
       (case Option.bind types build_struct_ffi_type of None \<Rightarrow> Some NotSent
        | Some ret_type \<Rightarrow>
            (case ffi_arguments fc types 0 arg_infos args of None \<Rightarrow> Some NotSent
             | Some ffi_args \<Rightarrow> Some (ThroughFfi imp ret_type receiver op ffi_args)))
     }
   })"

section \<open>The caller's side\<close>

text \<open>What a caller passes for one argument, and where the System V ABI puts a sequence of them when \<open>n\<close> general
  registers are left: words in registers as long as there are any, \<open>double\<close>s in floating-point registers,
  everything else on the stack in units of eight bytes.\<close>

datatype passed = Word u64 | Double u64 | Bytes "u8 list"

fun place :: "nat \<Rightarrow> passed list \<Rightarrow> u64 list \<times> u64 list \<times> u8 list" where
  "place n [] = ([], [], [])"
| "place n (Word w # vs) =
     (if n = 0 then (case place n vs of (g, f, s) \<Rightarrow> (g, f, le_bytes 8 w @ s))
      else (case place (n - 1) vs of (g, f, s) \<Rightarrow> (w # g, f, s)))"
| "place n (Double d # vs) = (case place n vs of (g, f, s) \<Rightarrow> (g, d # f, s))"
| "place n (Bytes bs # vs) = (case place n vs of (g, f, s) \<Rightarrow> (g, f, bs @ replicate (pad_to (length bs) 8 - length bs) 0 @ s))"

text \<open>A word is what is passed for scalars, pointers and aggregates of up to eight bytes, and a large structure lies on
  the stack.  Nothing fits the kind \<open>KIND_AGGREGATE_POINTER\<close>: the backend reads one pointer for a structure of 9 to 16
  bytes, which the ABI passes by value.\<close>

definition float_info :: "SFCCallArgInfo \<Rightarrow> bool" where
  "float_info i \<longleftrightarrow> ai_kind i = KIND_CODE \<and> is_float_code (ai_code i)"

fun fits :: "SFCCallArgInfo \<Rightarrow> passed \<Rightarrow> bool" where
  "fits i (Word w) \<longleftrightarrow> ai_kind i = KIND_AGGREGATE_WORD \<or> ai_kind i = KIND_CODE \<and> \<not> float_info i"
| "fits i (Double d) \<longleftrightarrow> float_info i"
| "fits i (Bytes bs) \<longleftrightarrow> ai_kind i = KIND_STRUCT_BYTES \<and> length bs = unat (ai_size i)"

text \<open>Integers narrower than \<open>int\<close> are promoted to it by the caller, so 32 bits count.\<close>

definition narrow :: "SFCCallArgInfo \<Rightarrow> u64 \<Rightarrow> u64" where
  "narrow i w =
     (if ai_kind i = KIND_CODE \<and> ai_code i \<in> set ''csiB'' then signed_take_bit 31 w
      else if ai_kind i = KIND_CODE \<and> ai_code i \<in> set ''CSI'' then take_bit 32 w else w)"

fun arrives :: "float_conversions \<Rightarrow> byte_mem \<Rightarrow> SFCCallArgInfo \<Rightarrow> passed \<Rightarrow> u64 \<Rightarrow> bool" where
  "arrives fc m i (Word w) r \<longleftrightarrow> r = narrow i w"
| "arrives fc m i (Double d) r \<longleftrightarrow> r = (if ai_code i = CHR ''f'' then take_bit 32 (double_to_float fc d) else d)"
| "arrives fc m i (Bytes bs) r \<longleftrightarrow> bytes_at m r bs"

text \<open>A \<open>va_list\<close> over arguments placed like this, with leftovers in the registers that were not needed.\<close>

definition holds_args :: "nat \<Rightarrow> va_list \<Rightarrow> passed list \<Rightarrow> bool" where
  "holds_args n ap vs \<longleftrightarrow> (case place n vs of (g, f, s) \<Rightarrow>
     (\<exists>g'. va_gp ap = g @ g' \<and> length (g @ g') = n) \<and> (\<exists>f'. va_fp ap = f @ f') \<and> bytes_at (va_mem ap) (va_overflow ap) s)"

lemma holds_word:
  assumes "holds_args n ap (Word w # vs)"
  shows "\<exists>ap'. va_word ap = Some (w, ap') \<and> holds_args (n - 1) ap' vs \<and> va_mem ap' = va_mem ap"
proof (cases n)
  case 0
  obtain g f s where p: "place 0 vs = (g, f, s)" by (cases "place 0 vs")
  have h: "va_gp ap = []" "g = []" "\<exists>f'. va_fp ap = f @ f'" "bytes_at (va_mem ap) (va_overflow ap) (le_bytes 8 w @ s)"
    using assms by (auto simp: holds_args_def p 0)
  have "length (le_bytes 8 w) = 8" by (simp add: le_bytes_numeral)
  with h(4) have b: "bytes_at (va_mem ap) (va_overflow ap) (le_bytes 8 w)" "bytes_at (va_mem ap) (va_overflow ap + 8) s"
    by (simp_all add: bytes_at_append)
  have "read_le (va_mem ap) 8 (va_overflow ap) = Some w"
    using read_le_bytes [OF b(1)] by (simp add: full_width)
  with h b(2) show ?thesis by (simp add: va_word_def va_stack_word_def holds_args_def p 0)
next
  case (Suc k)
  obtain g f s where p: "place k vs = (g, f, s)" by (cases "place k vs")
  from assms obtain g' where "va_gp ap = (w # g) @ g'" "length ((w # g) @ g') = n" "\<exists>f'. va_fp ap = f @ f'"
    "bytes_at (va_mem ap) (va_overflow ap) s"
    by (auto simp: holds_args_def p Suc)
  then show ?thesis by (auto simp: va_word_def holds_args_def p Suc)
qed

lemma holds_double:
  assumes "holds_args n ap (Double d # vs)"
  shows "\<exists>ap'. va_double ap = Some (d, ap') \<and> holds_args n ap' vs \<and> va_mem ap' = va_mem ap"
proof -
  obtain g f s where p: "place n vs = (g, f, s)" by (cases "place n vs")
  with assms show ?thesis by (auto simp: va_double_def holds_args_def)
qed

lemma holds_bytes:
  assumes "holds_args n ap (Bytes bs # vs)" "length bs = unat (sz :: 16 word)"
  shows "\<exists>r ap'. read_struct_bytes_arg ap (ucast sz) = (r, ap') \<and> bytes_at (va_mem ap) r bs \<and> holds_args n ap' vs
     \<and> va_mem ap' = va_mem ap"
proof -
  let ?pad = "pad_to (length bs) 8"
  obtain g f s where p: "place n vs = (g, f, s)" by (cases "place n vs")
  have ge: "length bs \<le> ?pad" unfolding pad_to_def by presburger
  have "unat sz < 2 ^ LENGTH(16)" by (rule unsigned_less)
  then have "?pad < 2 ^ 64" using assms(2) unfolding pad_to_def by simp
  then have "align_up_size (of_nat (length bs)) 8 = of_nat ?pad"
    using align_up_size_nat [of "length bs" 8] by (simp add: abi_alignment_def)
  moreover have "(ucast sz :: u64) = of_nat (length bs)" unfolding assms(2) by simp
  moreover have "bytes_at (va_mem ap) (va_overflow ap) bs" "bytes_at (va_mem ap) (va_overflow ap + of_nat ?pad) s"
    using assms(1) ge by (auto simp: holds_args_def p bytes_at_append simp flip: of_nat_add)
  ultimately show ?thesis using assms(1)
    by (auto simp: read_struct_bytes_arg_def holds_args_def p)
qed

lemma read_call_arg_arrives:
  assumes "holds_args n ap (v # vs)" "fits i v"
  shows "\<exists>r ap' n'. read_call_arg_value fc ap i = Some (r, ap') \<and> arrives fc (va_mem ap) i v r \<and> holds_args n' ap' vs
     \<and> va_mem ap' = va_mem ap"
proof (cases v)
  case (Word w)
  obtain ap' where ap': "va_word ap = Some (w, ap')" "holds_args (n - 1) ap' vs" "va_mem ap' = va_mem ap"
    using holds_word assms(1) unfolding Word by blast
  then show ?thesis using assms(2) unfolding Word
    by (cases "ai_kind i") (auto simp: read_call_arg_value_def read_arg_value_def read_word_arg_def float_info_def
        is_float_code_def narrow_def intro!: exI [of _ "n - 1"])
next
  case (Double d)
  obtain ap' where ap': "va_double ap = Some (d, ap')" "holds_args n ap' vs" "va_mem ap' = va_mem ap"
    using holds_double assms(1) unfolding Double by blast
  then show ?thesis using assms(2) unfolding Double
    by (auto simp: read_call_arg_value_def read_arg_value_def float_info_def is_float_code_def intro!: exI [of _ n])
next
  case (Bytes bs)
  have k: "ai_kind i = KIND_STRUCT_BYTES" "length bs = unat (ai_size i)" using assms(2) by (simp_all add: Bytes)
  obtain r ap' where "read_struct_bytes_arg ap (ucast (ai_size i)) = (r, ap')" "bytes_at (va_mem ap) r bs" "holds_args n ap' vs"
    "va_mem ap' = va_mem ap"
    using holds_bytes [OF _ k(2)] assms(1) unfolding Bytes by blast
  then show ?thesis using k(1) by (auto simp: Bytes read_call_arg_value_def)
qed

lemma read_call_args_arrive:
  assumes "holds_args n ap vs" "list_all2 fits infos vs"
  shows "\<exists>rs ap'. read_call_args fc ap infos = Some (rs, ap') \<and> length rs = length vs
     \<and> (\<forall>k < length vs. arrives fc (va_mem ap) (infos ! k) (vs ! k) (rs ! k))"
  using assms(2,1)
proof (induction infos vs arbitrary: n ap rule: list_all2_induct)
  case (Cons i infos v vs)
  obtain r ap1 n' where a: "read_call_arg_value fc ap i = Some (r, ap1)" "arrives fc (va_mem ap) i v r" "holds_args n' ap1 vs"
    "va_mem ap1 = va_mem ap"
    using read_call_arg_arrives [OF Cons.prems Cons.hyps(1)] by blast
  obtain rs ap2 where b: "read_call_args fc ap1 infos = Some (rs, ap2)" "length rs = length vs"
    "\<forall>k < length vs. arrives fc (va_mem ap) (infos ! k) (vs ! k) (rs ! k)"
    using Cons.IH [OF a(3)] by (auto simp: a(4))
  have "arrives fc (va_mem ap) ((i # infos) ! k) ((v # vs) ! k) ((r # rs) ! k)" if "k < length (v # vs)" for k
    using that a(2) b(3) by (cases k) auto
  with a(1) b(1,2) show ?case by auto
qed simp

section \<open>What libffi is told\<close>

text \<open>The libffi type of a scalar or a pointer, and of a structure of at most fifteen of them.\<close>

fun flat_ffi :: "ctype \<Rightarrow> ffi_type option" where
  "flat_ffi (Scalar s) = ffi_type_for_code (scalar_char s)"
| "flat_ffi Block = Some FfiPointer"
| "flat_ffi (Pointer t) = Some FfiPointer"
| "flat_ffi _ = None"

definition flat_struct :: "ctype \<Rightarrow> bool" where
  "flat_struct t \<longleftrightarrow> (case t of Struct nm ts \<Rightarrow> length ts \<le> 15 \<and> list_all (\<lambda>t. flat_ffi t \<noteq> None) ts | _ \<Rightarrow> False)"

fun struct_fields :: "ctype \<Rightarrow> ctype list" where
  "struct_fields (Struct nm ts) = ts" | "struct_fields _ = []"

definition ffi_spec :: "float_conversions \<Rightarrow> ctype \<Rightarrow> u64 \<Rightarrow> ffi_type \<times> ffi_value" where
  "ffi_spec fc t v =
     (let i = the (arg_spec t) in
      if ai_kind i = KIND_STRUCT_BYTES then (FfiStruct (map (\<lambda>t. the (flat_ffi t)) (struct_fields t)), AtAddress v)
      else if ai_kind i = KIND_AGGREGATE_WORD then (FfiUint64, Storage v)
      else if ai_kind i = KIND_AGGREGATE_POINTER then (FfiPointer, Storage v)
      else (the (flat_ffi t), Storage (store_call_arg fc 0 (ai_code i) v)))"

lemma flat_code: "flat_ffi t = Some ft \<Longrightarrow> ffi_type_for_code (hd (encode t)) = Some ft \<and> hd (encode t) \<notin> {CHR ''{'', CHR ''('', CHR ''['', CHR ''}''}"
proof (cases t)
  case (Scalar s)
  then show "flat_ffi t = Some ft \<Longrightarrow> ?thesis" by (cases s) auto
qed (auto simp: ffi_type_for_code_def)

lemma build_fields_encode:
  assumes "list_all type_ok ts" "list_all (\<lambda>t. flat_ffi t \<noteq> None) ts" "length acc + length ts \<le> 15"
  shows "build_struct_fields (concat (map encode ts) @ CHR ''}'' # r) acc = Some (acc @ map (\<lambda>t. the (flat_ffi t)) ts)"
  using assms
proof (induction ts arbitrary: acc)
  case Nil
  then show ?case by (simp add: build_struct_fields.simps)
next
  case (Cons t ts)
  let ?rest = "concat (map encode ts) @ CHR ''}'' # r"
  obtain ft where ft: "flat_ffi t = Some ft" using Cons.prems(2) by auto
  have rest: "rest_ok ?rest" by (rule fields_rest_ok)
  have skip: "skip_type_token (encode t @ ?rest) = ?rest" using Cons.prems(1) rest by (intro skip_encode) simp_all
  have "build_struct_fields ?rest (acc @ [ft]) = Some ((acc @ [ft]) @ map (\<lambda>t. the (flat_ffi t)) ts)"
    using Cons.prems by (intro Cons.IH) simp_all
  with flat_code [OF ft] skip Cons.prems(3) ft primary_encode [of t ?rest]
  show ?case by (subst build_struct_fields.simps) (simp add: hd_append)
qed

lemma build_struct_encode:
  assumes "type_ok t" "flat_struct t"
  shows "build_struct_ffi_type (encode t @ r) = Some (FfiStruct (map (\<lambda>t. the (flat_ffi t)) (struct_fields t)))"
proof -
  obtain nm ts where t: "t = Struct nm ts" using assms(2) by (cases t) (auto simp: flat_struct_def)
  have "dropWhile is_type_qualifier (encode t @ r) = encode t @ r" by (rule encode_no_qualifier)
  moreover have "list_all (\<lambda>c. c \<noteq> CHR ''='' \<and> c \<noteq> CHR ''}'') nm" using assms(1) by (auto simp: t tag_ok_def list_all_iff)
  then have "dropWhile (\<lambda>x. x \<noteq> CHR ''='' \<and> x \<noteq> CHR ''}'') (nm @ CHR ''='' # q) = CHR ''='' # q" for q
    by (induction nm) auto
  ultimately show ?thesis
    using build_fields_encode [of ts "[]" r] assms
    by (simp add: t build_struct_ffi_type_def flat_struct_def)
qed

lemma struct_token_encode:
  assumes "list_all (\<lambda>a. type_ok (fst a)) args" "k < length args"
  shows "struct_token_loop (method_args args) (j + 2) (j + k) =
     Some (encode (fst (args ! k)) @ decimal (snd (args ! k)) @ method_args (drop (k + 1) args))"
  using assms
proof (induction args arbitrary: j k)
  case (Cons a args)
  obtain t off where a: "a = (t, off)" by (cases a)
  have t: "type_ok t" using Cons.prems(1) by (simp add: a)
  show ?case
  proof (cases k)
    case 0
    then show ?thesis by (subst struct_token_loop.simps) (simp add: a)
  next
    case (Suc k')
    have "struct_token_loop (method_args args) (Suc j + 2) (Suc j + k') =
      Some (encode (fst (args ! k')) @ decimal (snd (args ! k')) @ method_args (drop (k' + 1) args))"
      using Cons.prems Suc by (intro Cons.IH) simp_all
    with skip_argument [OF t, of off args] Suc show ?thesis by (subst struct_token_loop.simps) (simp add: a)
  qed
qed simp

text \<open>The encoding of a method whose arguments \<open>ts\<close> the backend can pass, and what it passes.\<close>

definition passable :: "ctype \<Rightarrow> bool" where
  "passable t \<longleftrightarrow> type_ok t \<and> (case arg_spec t of None \<Rightarrow> False | Some i \<Rightarrow> ai_kind i = KIND_STRUCT_BYTES \<longrightarrow> flat_struct t)"

lemma spec_cases:
  assumes "arg_spec t = Some i"
  shows "ai_kind i = KIND_CODE \<and> ffi_type_for_code (ai_code i) = flat_ffi t \<and> flat_ffi t \<noteq> None
     \<or> ai_kind i = KIND_AGGREGATE_WORD \<and> ai_code i = CHR ''Q''
     \<or> ai_kind i = KIND_AGGREGATE_POINTER \<and> ai_code i = CHR ''^''
     \<or> ai_kind i = KIND_STRUCT_BYTES \<and> ai_code i = CHR ''{''"
proof -
  have agg: ?thesis
    if "arg_spec t = (if F then None else if A then Some \<lparr>ai_code = CHR ''Q'', ai_kind = KIND_AGGREGATE_WORD, ai_size = n\<rparr>
      else if B then Some \<lparr>ai_code = CHR ''{'', ai_kind = KIND_STRUCT_BYTES, ai_size = n\<rparr>
      else Some \<lparr>ai_code = CHR ''^'', ai_kind = KIND_AGGREGATE_POINTER, ai_size = n\<rparr>)" for F A B n
    using assms unfolding that by (auto split: if_splits)
  show ?thesis
  proof (cases t)
    case (Scalar s)
    with assms have "i = \<lparr>ai_code = scalar_char s, ai_kind = KIND_CODE, ai_size = 0\<rparr>" by (simp add: arg_spec_def)
    with Scalar show ?thesis by (cases s) (simp_all add: ffi_type_for_code_def)
  next
    case Block
    with assms have "i = \<lparr>ai_code = CHR ''@'', ai_kind = KIND_CODE, ai_size = 0\<rparr>" by (simp add: arg_spec_def)
    with Block show ?thesis by (simp add: ffi_type_for_code_def)
  next
    case (Pointer u)
    with assms have "i = \<lparr>ai_code = CHR ''^'', ai_kind = KIND_CODE, ai_size = 0\<rparr>" by (simp add: arg_spec_def)
    with Pointer show ?thesis by (simp add: ffi_type_for_code_def)
  qed (rule agg, simp only: arg_spec_def ctype.case)+
qed

lemma ret_has_ffi: "arg_spec t = Some i \<Longrightarrow> ffi_type_for_call_info i \<noteq> None"
  using spec_cases [of t i] by (auto simp: ffi_type_for_call_info_def ffi_type_for_code_def)

definition all_args :: "ctype \<times> nat \<Rightarrow> ctype \<times> nat \<Rightarrow> (ctype \<times> nat) list \<Rightarrow> (ctype \<times> nat) list" where
  "all_args self sel args = self # sel # args"

lemma ffi_argument_encode:
  assumes "type_ok ret" "type_ok (fst self)" "type_ok (fst sel)" "list_all (\<lambda>a. passable (fst a)) args" "k < length args"
  shows "ffi_argument fc (Some (method_encoding ret frame (all_args self sel args))) k (the (arg_spec (fst (args ! k)))) v
     = Some (ffi_spec fc (fst (args ! k)) v)"
proof -
  let ?t = "fst (args ! k)" and ?types = "method_encoding ret frame (all_args self sel args)"
  obtain t0 o0 t1 o1 where st: "self = (t0, o0)" "sel = (t1, o1)" by (cases self, cases sel)
  have p: "passable ?t" using assms(4,5) by (simp add: list_all_length)
  then obtain i where i: "arg_spec ?t = Some i" "ai_kind i = KIND_STRUCT_BYTES \<longrightarrow> flat_struct ?t" "type_ok ?t"
    by (auto simp: passable_def split: option.splits)
  show ?thesis
  proof (cases "ai_kind i = KIND_STRUCT_BYTES")
    case True
    have oks: "list_all (\<lambda>a. type_ok (fst a)) args" using assms(4) by (auto simp: list_all_iff passable_def)
    have "method_args (all_args self sel args) = [] \<or> \<not> is_digit_char (hd (method_args (all_args self sel args)))"
      using method_args_start [of "all_args self sel args"] by (auto simp: is_offset_char_def)
    then have "dropWhile is_digit_char (skip_type_token ?types) = method_args (all_args self sel args)"
      unfolding method_encoding_def skip_encode [OF assms(1) number_rest_ok] by (rule drop_number [OF decimal_digits])
    moreover have "struct_token_loop (method_args (all_args self sel args)) 0 k = struct_token_loop (method_args args) 2 k"
      using skip_argument [of t0 o0 "(t1, o1) # args"] skip_argument [of t1 o1 args] assms(2,3)
      by (subst struct_token_loop.simps, simp add: all_args_def st) (subst struct_token_loop.simps, simp add: st numeral_2_eq_2)
    moreover obtain rest where "struct_token_loop (method_args args) 2 k = Some (encode ?t @ rest)"
      using struct_token_encode [OF oks assms(5), of 0] by (auto simp: numeral_2_eq_2)
    ultimately show ?thesis using build_struct_encode [OF i(3), of rest] i True
      by (simp add: ffi_argument_def ffi_spec_def)
  next
    case False
    with spec_cases [OF i(1)] i(1) show ?thesis
      by (auto simp: ffi_argument_def ffi_spec_def ffi_type_for_call_info_def store_call_arg_def
          store_word_arg_def member_all)
  qed
qed

lemma ffi_arguments_encode:
  assumes "type_ok ret" "type_ok (fst self)" "type_ok (fst sel)" "list_all (\<lambda>a. passable (fst a)) (pre @ suf)"
    and "length rs = length suf"
  shows "ffi_arguments fc (Some (method_encoding ret frame (all_args self sel (pre @ suf)))) (length pre)
       (map (\<lambda>a. the (arg_spec (fst a))) suf) rs = Some (map2 (ffi_spec fc) (map fst suf) rs)"
  using assms(4,5)
proof (induction suf arbitrary: pre rs)
  case (Cons a suf)
  obtain v vs where rs: "rs = v # vs" "length vs = length suf" using Cons.prems(2) by (cases rs) auto
  have "ffi_argument fc (Some (method_encoding ret frame (all_args self sel (pre @ a # suf)))) (length pre)
      (the (arg_spec (fst a))) v = Some (ffi_spec fc (fst a) v)"
    using ffi_argument_encode [OF assms(1-3) Cons.prems(1), of "length pre" fc frame v] by simp
  moreover have "ffi_arguments fc (Some (method_encoding ret frame (all_args self sel ((pre @ [a]) @ suf)))) (length (pre @ [a]))
       (map (\<lambda>a. the (arg_spec (fst a))) suf) vs = Some (map2 (ffi_spec fc) (map fst suf) vs)"
    using Cons.prems(1) rs(2) by (intro Cons.IH) simp_all
  ultimately show ?case by (simp add: rs)
qed simp

lemma method_infos:
  assumes "type_ok ret" "type_ok (fst self)" "type_ok (fst sel)" "list_all (\<lambda>a. passable (fst a)) args" "length args \<le> 4"
  shows "collect_explicit_arg_infos (Some (method_encoding ret frame (all_args self sel args)))
     = (map (\<lambda>a. the (arg_spec (fst a))) args, False)"
proof -
  have oks: "list_all (\<lambda>a. type_ok (fst a)) args" using assms(4) by (auto simp: list_all_iff passable_def)
  have spec: "arg_spec (fst a) \<noteq> None" if "a \<in> set args" for a
    using assms(4) that by (auto simp: list_all_iff passable_def split: option.splits)
  have "takeWhile (\<lambda>t. arg_spec t \<noteq> None) (take 4 (map fst args)) = map fst args"
    using assms(5) spec by (simp add: takeWhile_eq_all_conv)
  then have "collected (map fst args) = (map (\<lambda>a. the (arg_spec (fst a))) args, False)" by (simp add: collected_def)
  then show ?thesis
    using collect_infos_method [OF assms(1) _ _ oks, of "fst self" "fst sel" frame "snd self" "snd sel"] assms(2,3)
    by (simp add: all_args_def)
qed

text \<open>The same for a method that returns a structure.\<close>

lemma msg_send_stret_arguments:
  assumes resolved: "sf_resolve_message_dispatch env receiver op = Some (imp, receiver', op')"
    and types: "sf_selector_types (d_sels env) op = Some (method_encoding ret frame (all_args self sel args))"
    and ok: "type_ok ret" "type_ok (fst self)" "type_ok (fst sel)" "list_all (\<lambda>a. passable (fst a)) args"
    and ret: "flat_struct ret" "out \<noteq> nullptr" and few: "length args \<le> 4"
    and infos: "infos = map (\<lambda>a. the (arg_spec (fst a))) args"
    and caller: "holds_args 3 ap vs" "list_all2 fits infos vs"
  shows "\<exists>rs. length rs = length vs \<and> (\<forall>k < length vs. arrives fc (va_mem ap) (infos ! k) (vs ! k) (rs ! k))
     \<and> objc_msgSend_stret fc env out receiver op ap = Some
         (ThroughFfi imp (FfiStruct (map (\<lambda>t. the (flat_ffi t)) (struct_fields ret))) receiver' op'
            (map2 (ffi_spec fc) (map fst args) rs))"
proof -
  let ?types = "Some (method_encoding ret frame (all_args self sel args))"
  obtain rs ap' where rs: "read_call_args fc ap infos = Some (rs, ap')" "length rs = length vs"
    "\<forall>k < length vs. arrives fc (va_mem ap) (infos ! k) (vs ! k) (rs ! k)"
    using read_call_args_arrive [OF caller] by blast
  have op: "op' = op" using resolved by (auto simp: sf_resolve_message_dispatch_def split: option.splits)
  have "length rs = length args" using list_all2_lengthD [OF caller(2)] rs(2) by (simp add: infos)
  then have "ffi_arguments fc ?types 0 infos rs = Some (map2 (ffi_spec fc) (map fst args) rs)"
    using ffi_arguments_encode [of ret self sel "[]" args rs fc frame] ok by (simp add: infos)
  moreover have "build_struct_ffi_type (method_encoding ret frame (all_args self sel args))
      = Some (FfiStruct (map (\<lambda>t. the (flat_ffi t)) (struct_fields ret)))"
    unfolding method_encoding_def by (rule build_struct_encode [OF ok(1) ret(1)])
  moreover have "collect_explicit_arg_infos ?types = (infos, False)" using method_infos [OF ok few] by (simp add: infos)
  ultimately have "objc_msgSend_stret fc env out receiver op ap = Some
         (ThroughFfi imp (FfiStruct (map (\<lambda>t. the (flat_ffi t)) (struct_fields ret))) receiver' op'
            (map2 (ffi_spec fc) (map fst args) rs))"
    using resolved types rs(1) ret(2) by (simp add: objc_msgSend_stret_def op)
  with rs(2,3) show ?thesis by blast
qed

text \<open>C21: A message whose method takes up to four arguments the backend can pass reaches the implementation that
  message resolution finds, with the receiver it settled on, and every argument arrives: words as their type narrows them,
  floating-point values, and large structures byte by byte.  The call is direct when all of them are words, and
  otherwise libffi is told the types of the method's signature.\<close>

theorem msg_send_arguments:
  assumes resolved: "sf_resolve_message_dispatch env receiver op = Some (imp, receiver', op')"
    and types: "sf_selector_types (d_sels env) op' = Some (method_encoding ret frame (all_args self sel args))"
    and ok: "type_ok ret" "type_ok (fst self)" "type_ok (fst sel)" "list_all (\<lambda>a. passable (fst a)) args"
    and ret: "arg_spec ret = Some ri" and few: "length args \<le> 4"
    and infos: "infos = map (\<lambda>a. the (arg_spec (fst a))) args"
    and caller: "holds_args 4 ap vs" "list_all2 fits infos vs"
  shows "\<exists>rs. length rs = length vs \<and> (\<forall>k < length vs. arrives fc (va_mem ap) (infos ! k) (vs ! k) (rs ! k))
     \<and> objc_msgSend fc env receiver op ap = Some
         (if \<not> float_info ri \<and> ai_kind ri \<noteq> KIND_STRUCT_BYTES \<and> (\<forall>v \<in> set vs. \<exists>w. v = Word w)
          then Direct imp receiver' op' rs
          else ThroughFfi imp (the (ffi_type_for_call_info ri)) receiver' op' (map2 (ffi_spec fc) (map fst args) rs))"
proof -
  have oks: "list_all (\<lambda>a. type_ok (fst a)) args" using ok(4) by (auto simp: list_all_iff passable_def)
  have spec: "arg_spec (fst a) \<noteq> None" if "a \<in> set args" for a
    using ok(4) that by (auto simp: list_all_iff passable_def split: option.splits)
  obtain t0 o0 t1 o1 where st: "self = (t0, o0)" "sel = (t1, o1)" by (cases self, cases sel)
  let ?types = "Some (method_encoding ret frame (all_args self sel args))"
  have col: "collect_explicit_arg_infos ?types = (infos, False)" "collect_return_info ?types info = (True, ri)" for info
    using collect_infos_method [OF ok(1) _ _ oks, of t0 t1 frame o0 o1] ok(2,3) ret method_infos [OF ok few]
    by (auto simp: all_args_def st infos)
  obtain rs ap' where rs: "read_call_args fc ap infos = Some (rs, ap')" "length rs = length vs"
    "\<forall>k < length vs. arrives fc (va_mem ap) (infos ! k) (vs ! k) (rs ! k)"
    using read_call_args_arrive [OF caller] by blast
  obtain rt where rt: "ffi_type_for_call_info ri = Some rt" using ret_has_ffi [OF ret] by blast
  have len: "length infos = length vs" "length rs = length args"
    using list_all2_lengthD [OF caller(2)] rs(2) by (simp_all add: infos)
  have codes: "float_info i \<longleftrightarrow> is_float_code (ai_code i)" if "arg_spec t = Some i" for t i
    using spec_cases [OF that] by (auto simp: float_info_def is_float_code_def)
  have words: "(\<forall>v \<in> set vs. \<exists>w. v = Word w) \<longleftrightarrow> \<not> list_ex (\<lambda>i. ai_kind i = KIND_STRUCT_BYTES \<or> is_float_code (ai_code i)) infos"
  proof -
    have w: "(\<exists>w. v = Word w) \<longleftrightarrow> \<not> (ai_kind i = KIND_STRUCT_BYTES \<or> float_info i)" if "fits i v" for i v
      using that by (cases v) (auto simp: float_info_def)
    from caller(2) have "(\<forall>v \<in> set vs. \<exists>w. v = Word w) \<longleftrightarrow> (\<forall>i \<in> set infos. \<not> (ai_kind i = KIND_STRUCT_BYTES \<or> float_info i))"
    proof (induction infos vs rule: list_all2_induct)
      case (Cons i infos v vs)
      with w [of i v] show ?case by simp
    qed simp
    moreover have "float_info i \<longleftrightarrow> is_float_code (ai_code i)" if i: "i \<in> set infos" for i
    proof -
      obtain a where "a \<in> set args" "i = the (arg_spec (fst a))" using i by (auto simp: infos)
      with spec show ?thesis by (intro codes [of "fst a"]) auto
    qed
    ultimately show ?thesis by (auto simp: list_ex_iff)
  qed
  have direct: "direct_word_call_supported ri infos \<longleftrightarrow>
      \<not> float_info ri \<and> ai_kind ri \<noteq> KIND_STRUCT_BYTES \<and> (\<forall>v \<in> set vs. \<exists>w. v = Word w)"
    using few by (auto simp: direct_word_call_supported_def words codes [OF ret] infos SF_C_FALLBACK_MAX_ARGS_def)
  have "ffi_arguments fc ?types 0 infos rs = Some (map2 (ffi_spec fc) (map fst args) rs)"
    using ffi_arguments_encode [of ret self sel "[]" args rs fc frame] ok len(2) by (simp add: infos)
  then have "objc_msgSend fc env receiver op ap = Some
         (if direct_word_call_supported ri infos then Direct imp receiver' op' rs
          else ThroughFfi imp rt receiver' op' (map2 (ffi_spec fc) (map fst args) rs))"
    by (simp add: objc_msgSend_def resolved types col rs(1) rt)
  with direct rs(2,3) rt show ?thesis by (intro exI [of _ rs]) simp
qed

definition demo_send_env :: dispatch_env where
  "demo_send_env = demo_env\<lparr>d_sels := demo_slot 1\<rparr>"

definition demo_va :: va_list where
  "demo_va = \<lparr>va_mem = Map.empty, va_gp = [42, 0, 0, 0], va_fp = [], va_overflow = 0\<rparr>"

lemma demo_resolve: "sf_resolve_message_dispatch demo_send_env 0x1000 0x20 = Some (0xB0, 0x1000, 0x20)"
proof -
  have "sf_lookup_imp_in_class (demo_slot 1) demo_classes 0x200 0x20 = Some 0xB0"
    by (simp add: sf_lookup_imp_in_class_def sf_lookup_dtable_imp_def demo_classes_at demo_fields
        lookup_method_in_class_local_def)
      (subst lookup_method_loop.simps, simp add: demo_classes_at demo_fields demo_method_def selector_slots_match_def imp_of_def)
  then have l: "sf_lookup_imp demo_send_env 0x1000 0x20 = Some 0xB0"
    by (simp add: sf_lookup_imp_def demo_send_env_def demo_env_def sf_object_class_def sf_is_tagged_pointer_def
        SF_TAGGED_POINTER_SLOT_MASK_def)
  then show ?thesis
    using forward_loop.simps(2) [of demo_send_env 7 "0x1000" "0x20"]
    by (simp add: sf_resolve_message_dispatch_def)
qed

definition demo_fc :: float_conversions where
  "demo_fc = \<lparr>word_to_float = id, word_to_double = id, double_to_float = id\<rparr>"

theorem msg_send_arguments_witness:
  "objc_msgSend demo_fc demo_send_env 0x1000 0x20 demo_va = Some (Direct 0xB0 0x1000 0x20 [42])"
proof -
  have dec: "decimal 20 = ''20''" "decimal 0 = ''0''" "decimal 8 = ''8''" "decimal 16 = ''16''" by code_simp+
  have sv: "signed_take_bit 31 (42 :: u64) = 42" by code_simp
  let ?args = "[(Scalar TInt, 16)]"
  have types: "sf_selector_types (d_sels demo_send_env) 0x20 =
      Some (method_encoding (Scalar TObject) 20 (all_args (Scalar TObject, 0) (Scalar TSel, 8) ?args))"
    by (simp add: demo_send_env_def demo_slot_facts method_encoding_def all_args_def dec)
  obtain rs where "length rs = 1" "arrives demo_fc (va_mem demo_va) \<lparr>ai_code = CHR ''i'', ai_kind = KIND_CODE, ai_size = 0\<rparr> (Word 42) (rs ! 0)"
    "objc_msgSend demo_fc demo_send_env 0x1000 0x20 demo_va = Some (Direct 0xB0 0x1000 0x20 rs)"
    using msg_send_arguments [OF demo_resolve types, of "\<lparr>ai_code = CHR ''@'', ai_kind = KIND_CODE, ai_size = 0\<rparr>"
        "[\<lparr>ai_code = CHR ''i'', ai_kind = KIND_CODE, ai_size = 0\<rparr>]" demo_va "[Word 42]" demo_fc]
    by (auto simp: passable_def arg_spec_def holds_args_def demo_va_def float_info_def is_float_code_def)
  then show ?thesis by (cases rs) (auto simp: narrow_def sv)
qed


end
