(* ===== verification/SF_Helpers.thy ===== *)
theory SF_Helpers
  imports SF_Arc
begin

text \<open>
  The entry points a compiler calls instead of sending \<open>alloc\<close>, \<open>init\<close> and \<open>autorelease\<close>
  (\<open>Runtime/src/helpers.c\<close>), and the counter with which the test suite makes allocations of the runtime fail
  (\<open>Runtime/src/testhooks.c\<close>), whose outcomes are the scripted allocation results of the other theories.
\<close>

section \<open>Entry points\<close>

text \<open>\<open>call_alloc imp cls sel allocator\<close> and \<open>call_init imp obj sel\<close> run the method implementations.\<close>

record alloc_env =
  call_alloc :: "addr \<Rightarrow> addr \<Rightarrow> addr \<Rightarrow> addr \<Rightarrow> runtime \<Rightarrow> (addr \<times> runtime) option"
  call_init :: "addr \<Rightarrow> addr \<Rightarrow> addr \<Rightarrow> runtime \<Rightarrow> (addr \<times> runtime) option"

definition objc_autorelease :: "runtime \<Rightarrow> addr \<Rightarrow> (addr \<times> runtime) option" where
  "objc_autorelease rt obj = sf_autorelease rt obj"

definition objc_alloc :: "alloc_env \<Rightarrow> runtime \<Rightarrow> addr \<Rightarrow> (addr \<times> runtime) option" where
  "objc_alloc env rt cls = do {
     meta_cls \<leftarrow> object_class_of rt cls;
     let alloc_sel = l_alloc_sel (rt_loader rt);
     (imp, rt) \<leftarrow> with_loader rt (sf_class_cached_alloc_imp (rt_loader rt) meta_cls);
     imp \<leftarrow> (if imp = nullptr \<and> alloc_sel \<noteq> nullptr
            then sf_lookup_imp_in_class (l_sels (rt_loader rt)) (l_classes (rt_loader rt)) meta_cls alloc_sel else Some imp);
     if imp = nullptr \<or> alloc_sel = nullptr then Some (nullptr, rt)
     else call_alloc env imp cls alloc_sel (o_default_allocator (rt_objects rt)) rt
   }"

definition objc_alloc_init :: "alloc_env \<Rightarrow> runtime \<Rightarrow> addr \<Rightarrow> (addr \<times> runtime) option" where
  "objc_alloc_init env rt cls = do {
     let init_sel = l_init_sel (rt_loader rt);
     (obj, rt) \<leftarrow> objc_alloc env rt cls;
     if obj = nullptr then Some (nullptr, rt)
     else do {
       obj_cls \<leftarrow> object_class_of rt obj;
       (imp, rt) \<leftarrow> with_loader rt (sf_class_cached_init_imp (rt_loader rt) obj_cls);
       imp \<leftarrow> (if imp = nullptr \<and> init_sel \<noteq> nullptr
              then sf_lookup_imp_in_class (l_sels (rt_loader rt)) (l_classes (rt_loader rt)) obj_cls init_sel else Some imp);
       if imp = nullptr \<or> init_sel = nullptr then Some (nullptr, rt)
       else call_init env imp obj init_sel rt
     }
   }"

text \<open>The lookup for messages to \<open>super\<close> that return a structure is the ordinary one, and the name of an object's class is
  never null (\<open>dispatch/dispatch.c\<close>, \<open>loader.c\<close>).\<close>

definition objc_msg_lookup_super_stret :: "selectors \<Rightarrow> class_mem \<Rightarrow> addr option \<Rightarrow> addr \<Rightarrow> addr option" where
  "objc_msg_lookup_super_stret st m super_class op = objc_msg_lookup_super st m super_class op"

definition sf_class_name_of_object :: "loader \<Rightarrow> (addr \<rightharpoonup> addr) \<Rightarrow> addr \<Rightarrow> string option" where
  "sf_class_name_of_object ld isa_of obj = do {
     cls \<leftarrow> sf_object_class (l_tags ld) isa_of obj;
     if cls = nullptr then Some ''(null)''
     else do {
       c \<leftarrow> l_classes ld cls;
       Some (case c_name c of None \<Rightarrow> ''(null)'' | Some name \<Rightarrow> name)
     }
   }"

section \<open>Failing allocations\<close>

text \<open>\<open>g_test_alloc_fail_after\<close> is passed in and out; \<open>SIZE_MAX\<close> stands for no failure to come.\<close>

definition SIZE_MAX :: u64 where "SIZE_MAX = - 1"

definition sf_runtime_test_consume_allocation :: "u64 \<Rightarrow> bool \<times> u64" where
  "sf_runtime_test_consume_allocation n =
     (if n = SIZE_MAX then (True, n) else if n = 0 then (False, SIZE_MAX) else (True, n - 1))"

definition sf_runtime_test_reset_alloc_failures :: u64 where
  "sf_runtime_test_reset_alloc_failures = SIZE_MAX"

definition sf_runtime_test_fail_allocation_after :: "u64 \<Rightarrow> u64" where
  "sf_runtime_test_fail_allocation_after successful_allocations = successful_allocations"

text \<open>The three wrappers differ in the function of the C library they call when the allocation may succeed.\<close>

definition sf_runtime_test_malloc :: "('s \<Rightarrow> addr \<times> 's) \<Rightarrow> u64 \<Rightarrow> 's \<Rightarrow> addr \<times> u64 \<times> 's" where
  "sf_runtime_test_malloc c_malloc n s =
     (case sf_runtime_test_consume_allocation n of (ok, n) \<Rightarrow>
        if \<not> ok then (nullptr, n, s) else (case c_malloc s of (p, s) \<Rightarrow> (p, n, s)))"

definition sf_runtime_test_calloc :: "('s \<Rightarrow> addr \<times> 's) \<Rightarrow> u64 \<Rightarrow> 's \<Rightarrow> addr \<times> u64 \<times> 's" where
  "sf_runtime_test_calloc c_calloc n s =
     (case sf_runtime_test_consume_allocation n of (ok, n) \<Rightarrow>
        if \<not> ok then (nullptr, n, s) else (case c_calloc s of (p, s) \<Rightarrow> (p, n, s)))"

definition sf_runtime_test_realloc :: "('s \<Rightarrow> addr \<times> 's) \<Rightarrow> u64 \<Rightarrow> 's \<Rightarrow> addr \<times> u64 \<times> 's" where
  "sf_runtime_test_realloc c_realloc n s =
     (case sf_runtime_test_consume_allocation n of (ok, n) \<Rightarrow>
        if \<not> ok then (nullptr, n, s) else (case c_realloc s of (p, s) \<Rightarrow> (p, n, s)))"

fun consume_run :: "nat \<Rightarrow> u64 \<Rightarrow> bool list" where
  "consume_run 0 n = []"
| "consume_run (Suc k) n = (case sf_runtime_test_consume_allocation n of (ok, n) \<Rightarrow> ok # consume_run k n)"

lemma consume_forever: "consume_run k SIZE_MAX = replicate k True"
  by (induction k) (simp_all add: sf_runtime_test_consume_allocation_def)

text \<open>The allocation after the given number of successful ones fails, and no other.\<close>

lemma fail_allocation_after:
  assumes "n \<noteq> SIZE_MAX" "unat n < k"
  shows "consume_run k (sf_runtime_test_fail_allocation_after n)
     = replicate (unat n) True @ [False] @ replicate (k - unat n - 1) True"
proof -
  have "consume_run k n = replicate m True @ [False] @ replicate (k - m - 1) True"
    if "unat n = m" "m < k" "n \<noteq> SIZE_MAX" for m k n
    using that
  proof (induction m arbitrary: k n)
    case 0
    then have "n = 0" by (simp add: unat_eq_0)
    with 0 obtain j where "k = Suc j" by (cases k) auto
    with \<open>n = 0\<close> show ?case by (simp add: sf_runtime_test_consume_allocation_def consume_forever [unfolded SIZE_MAX_def] SIZE_MAX_def)
  next
    case (Suc m)
    obtain j where k: "k = Suc j" using Suc.prems by (cases k) auto
    have n: "n \<noteq> 0" using Suc.prems(1) by auto
    then have m: "unat (n - 1) = m" using Suc.prems(1) by (simp add: unat_minus_one)
    have "unat (n - 1) < unat n" using m Suc.prems(1) by simp
    moreover have "unat n \<le> unat SIZE_MAX" by (simp add: SIZE_MAX_def flip: word_le_nat_alt)
    ultimately have "n - 1 \<noteq> SIZE_MAX" by auto
    with Suc.IH [OF m] Suc.prems(2) k n Suc.prems(3) show ?case
      by (simp add: sf_runtime_test_consume_allocation_def)
  qed
  with assms show ?thesis by (simp add: sf_runtime_test_fail_allocation_after_def)
qed

end
