(* ===== verification/SF_Compact.thy ===== *)
theory SF_Compact
  imports SF_Abi "HOL-Library.Monad_Syntax"
begin

unbundle bit_operations_syntax

text \<open>
  The other layout of the object header (\<open>SF_RUNTIME_COMPACT_HEADERS = 1\<close>, \<open>SF_RUNTIME_INLINE_GROUP_STATE = 1\<close>,
  without inline value storage; \<open>Runtime/src/abi.h\<close>, \<open>Runtime/src/object-header.c\<close>): what few objects need (the
  allocator, the parent, the group, the link of the live table) is in a separate cold state, allocated when the
  first such field gets a value.  An accessor returns \<open>None\<close> for a fault.
\<close>

section \<open>State\<close>

text \<open>The fields of all builds: \<open>cold_generic_type_class\<close> is there with generic metadata, \<open>cold_group\<close> where the state of
  a group is a structure of its own, and the fields that begin with \<open>inline_group\<close> where it is part of the cold state.\<close>

record SFObjColdState =
  cold_live_next :: addr
  cold_allocator :: addr
  cold_parent :: addr
  cold_generic_type_class :: addr
  cold_group_root :: addr
  cold_group_next :: addr
  cold_group :: addr
  inline_group_head :: addr
  inline_group_live_count :: u64
  inline_group_dead :: u32
  inline_group_reserved :: u32

definition zero_cold :: SFObjColdState where
  "zero_cold = \<lparr>cold_live_next = nullptr, cold_allocator = nullptr, cold_parent = nullptr,
     cold_generic_type_class = nullptr, cold_group_root = nullptr, cold_group_next = nullptr, cold_group = nullptr, inline_group_head = nullptr, inline_group_live_count = 0, inline_group_dead = 0, inline_group_reserved = 0\<rparr>"

record SFCompactHeader =
  ch_magic :: u64
  ch_refcount :: u32
  ch_state :: u32
  ch_flags :: u32
  ch_alloc_size :: u32
  ch_reserved :: u32
  ch_class_flags :: u32
  ch_aux_flags :: u32
  ch_cold :: addr

text \<open>\<open>cm_callocs\<close> holds the results of the coming allocations of cold states, null for a failure.\<close>

record compact_mem =
  cm_hdrs :: "addr \<rightharpoonup> SFCompactHeader"
  cm_colds :: "addr \<rightharpoonup> SFObjColdState"
  cm_callocs :: "addr list"
  cm_default_allocator :: addr
  cm_buckets :: "nat \<Rightarrow> addr"

definition write_ch :: "compact_mem \<Rightarrow> addr \<Rightarrow> (SFCompactHeader \<Rightarrow> SFCompactHeader) \<Rightarrow> compact_mem option" where
  "write_ch st p f = map_option (\<lambda>h. st\<lparr>cm_hdrs := (cm_hdrs st)(p \<mapsto> f h)\<rparr>) (cm_hdrs st p)"

definition write_cold :: "compact_mem \<Rightarrow> addr \<Rightarrow> (SFObjColdState \<Rightarrow> SFObjColdState) \<Rightarrow> compact_mem option" where
  "write_cold st p f = map_option (\<lambda>c. st\<lparr>cm_colds := (cm_colds st)(p \<mapsto> f c)\<rparr>) (cm_colds st p)"

section \<open>The cold state\<close>

definition sf_header_cold_state :: "compact_mem \<Rightarrow> addr \<Rightarrow> addr option" where
  "sf_header_cold_state st hdr =
     (if hdr = nullptr then Some nullptr
      else map_option (\<lambda>h. if ch_flags h AND SF_OBJ_FLAG_HAS_COLD \<noteq> 0 then ch_cold h else nullptr) (cm_hdrs st hdr))"

definition sf_header_ensure_cold_state :: "compact_mem \<Rightarrow> addr \<Rightarrow> (addr \<times> compact_mem) option" where
  "sf_header_ensure_cold_state st hdr =
     (if hdr = nullptr then Some (nullptr, st)
      else do {
        cold \<leftarrow> sf_header_cold_state st hdr;
        if cold \<noteq> nullptr then Some (cold, st)
        else (case cm_callocs st of [] \<Rightarrow> Some (nullptr, st)
          | p # ps \<Rightarrow>
              let st = st\<lparr>cm_callocs := ps\<rparr> in
              if p = nullptr then Some (nullptr, st)
              else do {
                st \<leftarrow> write_ch (st\<lparr>cm_colds := (cm_colds st)(p \<mapsto> zero_cold)\<rparr>) hdr
                  (\<lambda>h. h\<lparr>ch_cold := p, ch_flags := ch_flags h OR SF_OBJ_FLAG_HAS_COLD\<rparr>);
                Some (p, st)
              })
      })"

text \<open>The shape the getters and the setters share: a field reads as null without a cold state, and a null is stored
  without allocating one.\<close>

definition read_cold :: "(SFObjColdState \<Rightarrow> addr) \<Rightarrow> compact_mem \<Rightarrow> addr \<Rightarrow> addr option" where
  "read_cold f st hdr = do {
     cold \<leftarrow> sf_header_cold_state st hdr;
     if cold = nullptr then Some nullptr else map_option f (cm_colds st cold)
   }"

definition store_cold :: "(SFObjColdState \<Rightarrow> SFObjColdState) \<Rightarrow> compact_mem \<Rightarrow> addr \<Rightarrow> bool \<Rightarrow> (bool \<times> compact_mem) option" where
  "store_cold f st hdr needed = do {
     (cold, st) \<leftarrow> (if needed then sf_header_ensure_cold_state st hdr
                  else map_option (\<lambda>c. (c, st)) (sf_header_cold_state st hdr));
     if cold = nullptr then Some (\<not> needed, st)
     else map_option (\<lambda>st. (True, st)) (write_cold st cold f)
   }"

definition compact_live_next :: "compact_mem \<Rightarrow> addr \<Rightarrow> addr option" where
  "compact_live_next st hdr = read_cold cold_live_next st hdr"

definition compact_set_live_next :: "compact_mem \<Rightarrow> addr \<Rightarrow> addr \<Rightarrow> compact_mem option" where
  "compact_set_live_next st hdr nxt =
     map_option snd (store_cold (\<lambda>c. c\<lparr>cold_live_next := nxt\<rparr>) st hdr (nxt \<noteq> nullptr))"

definition sf_header_allocator_local :: "compact_mem \<Rightarrow> addr \<Rightarrow> addr option" where
  "sf_header_allocator_local st hdr = read_cold cold_allocator st hdr"

definition sf_header_set_allocator_local :: "compact_mem \<Rightarrow> addr \<Rightarrow> addr \<Rightarrow> (bool \<times> compact_mem) option" where
  "sf_header_set_allocator_local st hdr a =
     (if hdr = nullptr then Some (False, st)
      else if a = nullptr \<or> a = cm_default_allocator st then store_cold (\<lambda>c. c\<lparr>cold_allocator := nullptr\<rparr>) st hdr False
      else store_cold (\<lambda>c. c\<lparr>cold_allocator := a\<rparr>) st hdr True)"

definition sf_header_parent_local :: "compact_mem \<Rightarrow> addr \<Rightarrow> addr option" where
  "sf_header_parent_local st hdr = read_cold cold_parent st hdr"

definition sf_header_set_parent_local :: "compact_mem \<Rightarrow> addr \<Rightarrow> addr \<Rightarrow> (bool \<times> compact_mem) option" where
  "sf_header_set_parent_local st hdr p =
     (if hdr = nullptr then Some (False, st) else store_cold (\<lambda>c. c\<lparr>cold_parent := p\<rparr>) st hdr (p \<noteq> nullptr))"

definition sf_header_group_next_local :: "compact_mem \<Rightarrow> addr \<Rightarrow> addr option" where
  "sf_header_group_next_local st hdr = read_cold cold_group_next st hdr"

definition sf_header_set_group_next_local :: "compact_mem \<Rightarrow> addr \<Rightarrow> addr \<Rightarrow> (bool \<times> compact_mem) option" where
  "sf_header_set_group_next_local st hdr nxt =
     (if hdr = nullptr then Some (False, st) else store_cold (\<lambda>c. c\<lparr>cold_group_next := nxt\<rparr>) st hdr (nxt \<noteq> nullptr))"

definition sf_header_generic_type_class_local :: "compact_mem \<Rightarrow> addr \<Rightarrow> addr option" where
  "sf_header_generic_type_class_local st hdr = read_cold cold_generic_type_class st hdr"

definition sf_header_set_generic_type_class_local :: "compact_mem \<Rightarrow> addr \<Rightarrow> addr \<Rightarrow> (bool \<times> compact_mem) option" where
  "sf_header_set_generic_type_class_local st hdr cls =
     (if hdr = nullptr then Some (False, st)
      else store_cold (\<lambda>c. c\<lparr>cold_generic_type_class := cls\<rparr>) st hdr (cls \<noteq> nullptr))"

section \<open>Groups\<close>

definition sf_header_group_root_local :: "compact_mem \<Rightarrow> addr \<Rightarrow> addr option" where
  "sf_header_group_root_local st hdr = map_option (\<lambda>r. if r \<noteq> nullptr then r else hdr) (read_cold cold_group_root st hdr)"

definition sf_header_inline_group_root_cold :: "compact_mem \<Rightarrow> addr \<Rightarrow> addr option" where
  "sf_header_inline_group_root_cold st hdr = Option.bind (sf_header_group_root_local st hdr) (sf_header_cold_state st)"

text \<open>In this layout the auxiliary flags are a field of their own.\<close>

definition compact_mark_dead :: "compact_mem \<Rightarrow> addr \<Rightarrow> bool \<Rightarrow> compact_mem option" where
  "compact_mark_dead st hdr dead = write_ch st hdr (\<lambda>h. h\<lparr>ch_aux_flags :=
     (if dead then ch_aux_flags h OR SF_OBJ_AUX_FLAG_GROUP_DEAD else ch_aux_flags h AND NOT SF_OBJ_AUX_FLAG_GROUP_DEAD)\<rparr>)"

definition compact_init_group_root :: "compact_mem \<Rightarrow> addr \<Rightarrow> (bool \<times> compact_mem) option" where
  "compact_init_group_root st hdr =
     (if hdr = nullptr then Some (False, st)
      else do {
        (cold, st) \<leftarrow> sf_header_ensure_cold_state st hdr;
        if cold = nullptr then Some (False, st)
        else do {
          c \<leftarrow> cm_colds st cold;
          if inline_group_live_count c \<noteq> 0 \<or> inline_group_head c \<noteq> nullptr then Some (True, st)
          else do {
            st \<leftarrow> write_cold st cold (\<lambda>c. c\<lparr>inline_group_head := hdr, inline_group_live_count := 1,
                                        inline_group_dead := 0, cold_group_next := nullptr\<rparr>);
            st \<leftarrow> compact_mark_dead st hdr False;
            Some (True, st)
          }
        }
      })"

definition compact_set_group_root :: "compact_mem \<Rightarrow> addr \<Rightarrow> addr \<Rightarrow> (bool \<times> compact_mem) option" where
  "compact_set_group_root st hdr group_root =
     (if hdr = nullptr then Some (False, st)
      else if group_root = nullptr then store_cold (\<lambda>c. c\<lparr>cold_group_root := nullptr\<rparr>) st hdr False
      else do {
        (ok, st) \<leftarrow> compact_init_group_root st group_root;
        if \<not> ok then Some (False, st)
        else if hdr = group_root then store_cold (\<lambda>c. c\<lparr>cold_group_root := nullptr\<rparr>) st hdr False
        else store_cold (\<lambda>c. c\<lparr>cold_group_root := group_root\<rparr>) st hdr True
      })"

definition compact_group_head :: "compact_mem \<Rightarrow> addr \<Rightarrow> addr option" where
  "compact_group_head st hdr =
     (if hdr = nullptr then Some nullptr
      else do {
        cold \<leftarrow> sf_header_inline_group_root_cold st hdr;
        head \<leftarrow> (if cold = nullptr then Some nullptr else map_option inline_group_head (cm_colds st cold));
        if head \<noteq> nullptr then Some head else sf_header_group_root_local st hdr
      })"

definition compact_set_group_head :: "compact_mem \<Rightarrow> addr \<Rightarrow> addr \<Rightarrow> (bool \<times> compact_mem) option" where
  "compact_set_group_head st hdr group_head =
     (if hdr = nullptr then Some (False, st)
      else do {
        root \<leftarrow> sf_header_group_root_local st hdr;
        if group_head = nullptr then store_cold (\<lambda>c. c\<lparr>inline_group_head := nullptr\<rparr>) st root False
        else do {
          (ok, st) \<leftarrow> compact_init_group_root st root;
          if \<not> ok then Some (False, st)
          else do {
            cold \<leftarrow> sf_header_inline_group_root_cold st root;
            if cold = nullptr then Some (False, st)
            else map_option (\<lambda>st. (True, st)) (write_cold st cold (\<lambda>c. c\<lparr>inline_group_head := group_head\<rparr>))
          }
        }
      })"

definition compact_group_live_count :: "compact_mem \<Rightarrow> addr \<Rightarrow> u64 option" where
  "compact_group_live_count st hdr =
     (if hdr = nullptr then Some 0
      else do {
        cold \<leftarrow> sf_header_inline_group_root_cold st hdr;
        n \<leftarrow> (if cold = nullptr then Some 0 else map_option inline_group_live_count (cm_colds st cold));
        h \<leftarrow> cm_hdrs st hdr;
        Some (if n \<noteq> 0 then n else if ch_state h = SF_OBJ_STATE_LIVE then 1 else 0)
      })"

definition compact_set_group_live_count :: "compact_mem \<Rightarrow> addr \<Rightarrow> u64 \<Rightarrow> (bool \<times> compact_mem) option" where
  "compact_set_group_live_count st hdr count =
     (if hdr = nullptr then Some (False, st)
      else do {
        root \<leftarrow> sf_header_group_root_local st hdr;
        if count \<le> 1 then do {
          cold \<leftarrow> sf_header_cold_state st root;
          st \<leftarrow> (if cold = nullptr then Some st
               else write_cold st cold (\<lambda>c. c\<lparr>inline_group_live_count := count, inline_group_dead := (if count = 0 then 1 else 0),
                 inline_group_head := (if count \<noteq> 0 \<and> inline_group_head c = nullptr then root else inline_group_head c)\<rparr>));
          st \<leftarrow> compact_mark_dead st root (count = 0);
          Some (True, st)
        }
        else do {
          (ok, st) \<leftarrow> compact_init_group_root st root;
          if \<not> ok then Some (False, st)
          else do {
            cold \<leftarrow> sf_header_inline_group_root_cold st root;
            if cold = nullptr then Some (False, st)
            else do {
              st \<leftarrow> write_cold st cold (\<lambda>c. c\<lparr>inline_group_live_count := count, inline_group_dead := (if count = 0 then 1 else 0)\<rparr>);
              st \<leftarrow> compact_mark_dead st root (count = 0);
              Some (True, st)
            }
          }
        }
      })"

definition compact_group_dead :: "compact_mem \<Rightarrow> addr \<Rightarrow> bool option" where
  "compact_group_dead st hdr =
     (if hdr = nullptr then Some False
      else do {
        root \<leftarrow> sf_header_group_root_local st hdr;
        h \<leftarrow> cm_hdrs st root;
        if ch_aux_flags h AND SF_OBJ_AUX_FLAG_GROUP_DEAD \<noteq> 0 then Some True
        else do {
          cold \<leftarrow> sf_header_inline_group_root_cold st root;
          if cold = nullptr then Some False else map_option (\<lambda>c. inline_group_dead c \<noteq> 0) (cm_colds st cold)
        }
      })"

definition compact_grouped :: "compact_mem \<Rightarrow> addr \<Rightarrow> bool option" where
  "compact_grouped st hdr =
     (if hdr = nullptr then Some False
      else do {
        cold \<leftarrow> sf_header_cold_state st hdr;
        if cold = nullptr then Some False
        else map_option (\<lambda>c. cold_group_root c \<noteq> nullptr \<or> inline_group_live_count c \<noteq> 0 \<or> inline_group_head c \<noteq> nullptr)
          (cm_colds st cold)
      })"

definition compact_group_lock :: "compact_mem \<Rightarrow> addr \<Rightarrow> addr option" where
  "compact_group_lock st hdr =
     (if hdr = nullptr then Some nullptr
      else do {
        root \<leftarrow> sf_header_group_root_local st hdr;
        cold \<leftarrow> sf_header_inline_group_root_cold st root;
        if cold = nullptr then Some nullptr
        else map_option (\<lambda>c. if inline_group_live_count c = 0 then nullptr else cold + 60) (cm_colds st cold)
      })"

definition compact_destroy_sidecar :: "compact_mem \<Rightarrow> addr \<Rightarrow> compact_mem option" where
  "compact_destroy_sidecar st hdr =
     (if hdr = nullptr then Some st
      else do {
        cold \<leftarrow> sf_header_cold_state st hdr;
        if cold = nullptr then Some st
        else do {
          st \<leftarrow> write_ch st hdr (\<lambda>h. h\<lparr>ch_cold := nullptr, ch_flags := ch_flags h AND NOT SF_OBJ_FLAG_HAS_COLD\<rparr>);
          Some (st\<lparr>cm_colds := (cm_colds st)(cold := None)\<rparr>)
        }
      })"

text \<open>Registering a live header puts it at the head of its bucket (\<open>loader.c\<close>).\<close>

definition compact_register_live :: "compact_mem \<Rightarrow> nat \<Rightarrow> addr \<Rightarrow> compact_mem option" where
  "compact_register_live st bucket hdr =
     (if hdr = nullptr then Some st
      else do {
        st \<leftarrow> compact_set_live_next st hdr (cm_buckets st bucket);
        Some (st\<lparr>cm_buckets := (cm_buckets st)(bucket := hdr)\<rparr>)
      })"


section \<open>The flat view of a header\<close>

text \<open>
  What a header means is what the flat header record would hold: the fields of its cold state, all null while it has
  none.  \<open>compact_ok\<close> is the well-formedness of the memory: every header with the flag has a cold state of its own,
  and the allocator hands out memory that is not in use.
\<close>

definition has_cold :: "compact_mem \<Rightarrow> addr \<Rightarrow> addr \<Rightarrow> bool" where
  "has_cold st p c = (case cm_hdrs st p of None \<Rightarrow> False
     | Some h \<Rightarrow> ch_flags h AND SF_OBJ_FLAG_HAS_COLD \<noteq> 0 \<and> ch_cold h = c)"

definition cold_view :: "compact_mem \<Rightarrow> addr \<Rightarrow> SFObjColdState option" where
  "cold_view st p = (case cm_hdrs st p of None \<Rightarrow> None
     | Some h \<Rightarrow> if ch_flags h AND SF_OBJ_FLAG_HAS_COLD \<noteq> 0 then cm_colds st (ch_cold h) else Some zero_cold)"

definition hot_view :: "compact_mem \<Rightarrow> addr \<Rightarrow> SFCompactHeader option" where
  "hot_view st p = map_option (\<lambda>h. h\<lparr>ch_cold := nullptr, ch_flags := ch_flags h AND NOT SF_OBJ_FLAG_HAS_COLD\<rparr>) (cm_hdrs st p)"

definition compact_ok :: "compact_mem \<Rightarrow> bool" where
  "compact_ok st \<longleftrightarrow> cm_hdrs st nullptr = None
     \<and> (\<forall>p c. has_cold st p c \<longrightarrow> c \<noteq> nullptr \<and> cm_colds st c \<noteq> None)
     \<and> (\<forall>p q c. has_cold st p c \<longrightarrow> has_cold st q c \<longrightarrow> p = q)
     \<and> distinct (filter (\<lambda>a. a \<noteq> nullptr) (cm_callocs st))
     \<and> (\<forall>a\<in>set (cm_callocs st). cm_colds st a = None)"

lemma has_cold_unique: "has_cold st p c \<Longrightarrow> has_cold st p d \<Longrightarrow> c = d"
  by (auto simp: has_cold_def split: option.splits)

lemma has_coldD: "compact_ok st \<Longrightarrow> has_cold st p c \<Longrightarrow> c \<noteq> nullptr \<and> p \<noteq> nullptr \<and> cm_colds st c = cold_view st p \<and> cold_view st p \<noteq> None"
  by (auto simp: compact_ok_def has_cold_def cold_view_def split: option.splits if_splits)

lemma cold_view_mapped: "compact_ok st \<Longrightarrow> cm_hdrs st p = Some h \<Longrightarrow> \<exists>v. cold_view st p = Some v"
  by (cases "ch_flags h AND SF_OBJ_FLAG_HAS_COLD \<noteq> 0") (auto simp: compact_ok_def has_cold_def cold_view_def split: option.splits)

lemma cold_state_cases:
  assumes "compact_ok st" "cold_view st p = Some v"
  obtains (cold) c where "has_cold st p c" "sf_header_cold_state st p = Some c" "c \<noteq> nullptr" "cm_colds st c = Some v"
  | (none) "\<And>c. \<not> has_cold st p c" "sf_header_cold_state st p = Some nullptr" "v = zero_cold"
proof -
  obtain h where h: "cm_hdrs st p = Some h"
    using assms(2) by (auto simp: cold_view_def split: option.splits)
  have np: "p \<noteq> nullptr"
    using h assms(1) by (auto simp: compact_ok_def)
  show thesis
  proof (cases "ch_flags h AND SF_OBJ_FLAG_HAS_COLD \<noteq> 0")
    case True
    have hc: "has_cold st p (ch_cold h)"
      using True h by (simp add: has_cold_def)
    show thesis
      using that(1) [OF hc] has_coldD [OF assms(1) hc] assms(2) True h np by (simp add: sf_header_cold_state_def)
  next
    case False
    show thesis
      using that(2) False h np assms(2) by (simp add: has_cold_def sf_header_cold_state_def cold_view_def)
  qed
qed

lemma cold_view_cong:
  "cm_hdrs st' = cm_hdrs st \<Longrightarrow> cm_colds st' = cm_colds st \<Longrightarrow> cold_view st' = cold_view st"
  by (intro ext) (auto simp: cold_view_def split: option.splits)

text \<open>A write into the cold state of one header changes the view of that header only.\<close>

lemma write_cold_view:
  assumes ok: "compact_ok st" and c: "has_cold st p c" and v: "cold_view st p = Some v"
  shows "\<exists>st'. write_cold st c f = Some st' \<and> compact_ok st' \<and> cold_view st' = (cold_view st)(p \<mapsto> f v)
           \<and> cm_hdrs st' = cm_hdrs st \<and> has_cold st' = has_cold st \<and> cm_buckets st' = cm_buckets st
           \<and> cm_callocs st' = cm_callocs st \<and> cm_default_allocator st' = cm_default_allocator st"
proof -
  have cv: "cm_colds st c = Some v"
    using has_coldD [OF ok c] v by simp
  define st' where "st' = st\<lparr>cm_colds := (cm_colds st)(c \<mapsto> f v)\<rparr>"
  have hc: "has_cold st' = has_cold st"
    by (intro ext) (simp add: has_cold_def st'_def)
  have ok': "compact_ok st'"
    using ok cv by (auto simp: compact_ok_def hc) (auto simp: st'_def)
  have "cold_view st' q = ((cold_view st)(p \<mapsto> f v)) q" for q
  proof (cases "q = p")
    case True
    then show ?thesis
      using c by (auto simp: cold_view_def has_cold_def st'_def split: option.splits)
  next
    case False
    then have "\<not> has_cold st q c"
      using ok c unfolding compact_ok_def by blast
    then show ?thesis
      using False by (auto simp: cold_view_def has_cold_def st'_def split: option.splits)
  qed
  then have "cold_view st' = (cold_view st)(p \<mapsto> f v)"
    by blast
  then show ?thesis
    using cv ok' hc by (auto simp: write_cold_def st'_def)
qed

text \<open>The cold state is allocated without a visible change.\<close>

lemma flags_or_cold: "(f OR SF_OBJ_FLAG_HAS_COLD) AND NOT SF_OBJ_FLAG_HAS_COLD = f AND NOT (SF_OBJ_FLAG_HAS_COLD :: u32)"
  by (rule bit_word_eqI) (auto simp: bit_simps)

lemma flags_has_cold: "(f OR SF_OBJ_FLAG_HAS_COLD) AND SF_OBJ_FLAG_HAS_COLD \<noteq> (0 :: u32)"
proof -
  have "(f OR SF_OBJ_FLAG_HAS_COLD) AND SF_OBJ_FLAG_HAS_COLD = SF_OBJ_FLAG_HAS_COLD"
    by (rule bit_word_eqI) (auto simp: bit_simps)
  then show ?thesis
    by (simp add: SF_OBJ_FLAG_HAS_COLD_def)
qed

lemma ensure_cold_view:
  assumes ok: "compact_ok st" and v: "cold_view st p = Some v"
  shows "\<exists>c st'. sf_header_ensure_cold_state st p = Some (c, st') \<and> compact_ok st' \<and> cold_view st' = cold_view st
           \<and> hot_view st' = hot_view st \<and> cm_buckets st' = cm_buckets st \<and> cm_default_allocator st' = cm_default_allocator st
           \<and> (if c = nullptr then (\<forall>d. \<not> has_cold st p d) \<and> (cm_callocs st = [] \<or> hd (cm_callocs st) = nullptr)
              else has_cold st' p c)"
  using ok v
proof (cases rule: cold_state_cases)
  case (cold c)
  then show ?thesis
    using ok has_coldD [OF ok cold(1)] by (auto simp: sf_header_ensure_cold_state_def)
next
  case none
  obtain h where h: "cm_hdrs st p = Some h"
    using v by (auto simp: cold_view_def split: option.splits)
  have np: "p \<noteq> nullptr"
    using h ok by (auto simp: compact_ok_def)
  show ?thesis
  proof (cases "cm_callocs st = [] \<or> hd (cm_callocs st) = nullptr")
    case True
    define st' where "st' = st\<lparr>cm_callocs := tl (cm_callocs st)\<rparr>"
    have hc: "has_cold st' = has_cold st"
      by (intro ext) (simp add: has_cold_def st'_def)
    have "compact_ok st'"
      using ok unfolding compact_ok_def hc by (cases "cm_callocs st") (auto simp: st'_def split: if_splits)
    moreover have "cold_view st' = cold_view st" "hot_view st' = hot_view st"
      by (rule cold_view_cong, auto simp: hot_view_def st'_def intro!: ext)
    moreover have "sf_header_ensure_cold_state st p = Some (nullptr, st')"
      using True none np by (cases "cm_callocs st") (auto simp: sf_header_ensure_cold_state_def st'_def)
    ultimately show ?thesis
      using True none by (auto simp: st'_def)
  next
    case False
    then obtain c cs where c: "cm_callocs st = c # cs" "c \<noteq> nullptr"
      by (cases "cm_callocs st") auto
    define st' where "st' = st\<lparr>cm_callocs := cs, cm_colds := (cm_colds st)(c \<mapsto> zero_cold),
      cm_hdrs := (cm_hdrs st)(p \<mapsto> h\<lparr>ch_cold := c, ch_flags := ch_flags h OR SF_OBJ_FLAG_HAS_COLD\<rparr>)\<rparr>"
    have fresh: "cm_colds st c = None" "c \<notin> set cs"
      using ok c by (auto simp: compact_ok_def)
    have hc: "has_cold st' q d \<longleftrightarrow> (if q = p then d = c else has_cold st q d)" for q d
      using flags_has_cold by (auto simp: has_cold_def st'_def)
    have nc: "\<not> has_cold st q c" for q
      using ok fresh(1) unfolding compact_ok_def by blast
    have ok': "compact_ok st'"
      using ok c fresh np nc unfolding compact_ok_def hc by (auto simp: st'_def)
    have "cold_view st' q = cold_view st q" for q
    proof (cases "q = p")
      case True
      then show ?thesis
        using none v flags_has_cold by (simp add: cold_view_def st'_def)
    next
      case False
      then show ?thesis
        using nc [of q] by (auto simp: cold_view_def has_cold_def st'_def split: option.splits)
    qed
    moreover have "hot_view st' = hot_view st"
      using h by (intro ext) (simp add: hot_view_def st'_def flags_or_cold)
    moreover have "sf_header_ensure_cold_state st p = Some (c, st')"
      using c none np h by (simp add: sf_header_ensure_cold_state_def write_ch_def st'_def)
    ultimately show ?thesis
      using ok' hc c by (intro exI [of _ c] exI [of _ st']) (auto simp: st'_def)
  qed
qed

text \<open>A header can store a value when it has a cold state or the next allocation succeeds.\<close>

definition can_store :: "compact_mem \<Rightarrow> addr \<Rightarrow> bool" where
  "can_store st p \<longleftrightarrow> (\<exists>c. has_cold st p c) \<or> cm_callocs st \<noteq> [] \<and> hd (cm_callocs st) \<noteq> nullptr"

lemma ensure_cold_needs:
  assumes ok: "compact_ok st" and v: "cold_view st p = Some v" and e: "sf_header_ensure_cold_state st p = Some (c, st')" "c \<noteq> nullptr"
  shows "can_store st p"
  using ok v
proof (cases rule: cold_state_cases)
  case none
  then show ?thesis
    using e by (auto simp: sf_header_ensure_cold_state_def can_store_def Let_def split: if_splits list.splits)
qed (auto simp: can_store_def)

section \<open>Fields as stores\<close>

text \<open>
  The accessors of a field share one contract: the setter stores the value, or refuses it and changes nothing, and the
  getter reads the view.  \<open>V\<close> is the view of a header, \<open>cm_env\<close> what no accessor touches.
\<close>

definition cm_env :: "compact_mem \<Rightarrow> (addr \<Rightarrow> SFCompactHeader option) \<times> (nat \<Rightarrow> addr) \<times> addr" where
  "cm_env st = (hot_view st, cm_buckets st, cm_default_allocator st)"

locale field_store =
  fixes get :: "compact_mem \<Rightarrow> addr \<Rightarrow> 'v option"
    and set_to :: "compact_mem \<Rightarrow> addr \<Rightarrow> 'v \<Rightarrow> (bool \<times> compact_mem) option"
    and fld :: "SFObjColdState \<Rightarrow> 'v"
    and upd :: "'v \<Rightarrow> SFObjColdState \<Rightarrow> SFObjColdState"
    and clean :: "compact_mem \<Rightarrow> 'v \<Rightarrow> 'v"
    and nul :: 'v
  assumes get_view: "compact_ok st \<Longrightarrow> cold_view st p = Some v \<Longrightarrow> get st p = Some (fld v)"
    and set_view: "compact_ok st \<Longrightarrow> cold_view st p = Some v \<Longrightarrow>
      \<exists>ok st'. set_to st p x = Some (ok, st') \<and> compact_ok st' \<and> cm_env st' = cm_env st
        \<and> cold_view st' = (if ok then (cold_view st)(p \<mapsto> upd (clean st x) v) else cold_view st)
        \<and> (ok \<longleftrightarrow> clean st x = nul \<or> can_store st p)"
    and fld_upd: "fld (upd y v) = y"
begin

lemma set_get:
  assumes "compact_ok st" "cold_view st p = Some v" "set_to st p x = Some (True, st')"
  shows "get st' p = Some (clean st x)"
proof -
  have "compact_ok st'" "cold_view st' = (cold_view st)(p \<mapsto> upd (clean st x) v)"
    using set_view [OF assms(1,2), of x] assms(3) by auto
  then show ?thesis
    using get_view fld_upd by simp
qed

lemma set_frame:
  assumes "compact_ok st" "cold_view st p = Some v" "set_to st p x = Some (ok, st')" "q \<noteq> p"
  shows "cold_view st' q = cold_view st q"
  using set_view [OF assms(1,2), of x] assms(3,4) by (auto split: if_splits)

lemma set_refused:
  assumes "compact_ok st" "cold_view st p = Some v" "set_to st p x = Some (False, st')"
  shows "cold_view st' = cold_view st" "clean st x \<noteq> nul"
  using set_view [OF assms(1,2), of x] assms(3) by auto

lemma set_null: "compact_ok st \<Longrightarrow> cold_view st p = Some v \<Longrightarrow> clean st x = nul \<Longrightarrow>
    \<exists>st'. set_to st p x = Some (True, st')"
  using set_view [of st p v x] by auto

end

lemma read_cold_view: "compact_ok st \<Longrightarrow> cold_view st p = Some v \<Longrightarrow> f zero_cold = nullptr \<Longrightarrow> read_cold f st p = Some (f v)"
  by (cases rule: cold_state_cases, assumption+) (auto simp: read_cold_def)

lemma write_cold_env: "write_cold st c f = Some st' \<Longrightarrow> cm_env st' = cm_env st"
  by (auto simp: write_cold_def cm_env_def hot_view_def intro!: ext)

lemma store_cold_view:
  assumes ok: "compact_ok st" and v: "cold_view st p = Some v" and z: "needed \<or> f zero_cold = zero_cold"
  shows "\<exists>ok st'. store_cold f st p needed = Some (ok, st') \<and> compact_ok st' \<and> cm_env st' = cm_env st
        \<and> cold_view st' = (if ok then (cold_view st)(p \<mapsto> f v) else cold_view st) \<and> (ok \<or> needed)
        \<and> (ok \<longleftrightarrow> \<not> needed \<or> can_store st p)"
proof (cases needed)
  case True
  obtain c st1 where e: "sf_header_ensure_cold_state st p = Some (c, st1)" "compact_ok st1" "cold_view st1 = cold_view st"
    "cm_env st1 = cm_env st"
    "if c = nullptr then (\<forall>d. \<not> has_cold st p d) \<and> (cm_callocs st = [] \<or> hd (cm_callocs st) = nullptr) else has_cold st1 p c"
    "c \<noteq> nullptr \<longrightarrow> can_store st p"
  proof -
    obtain c st1 where e: "sf_header_ensure_cold_state st p = Some (c, st1)" "compact_ok st1" "cold_view st1 = cold_view st"
      "cm_env st1 = cm_env st"
      "if c = nullptr then (\<forall>d. \<not> has_cold st p d) \<and> (cm_callocs st = [] \<or> hd (cm_callocs st) = nullptr) else has_cold st1 p c"
      using ensure_cold_view [OF ok v] by (elim exE conjE) (simp add: cm_env_def)
    show thesis
      using that [OF e] ensure_cold_needs [OF ok v e(1)] by blast
  qed
  show ?thesis
  proof (cases "c = nullptr")
    case True
    then show ?thesis
      using e \<open>needed\<close> by (auto simp: store_cold_def can_store_def)
  next
    case False
    then have c: "has_cold st1 p c"
      using e(5) by simp
    obtain st2 where w: "write_cold st1 c f = Some st2" "compact_ok st2" "cold_view st2 = (cold_view st1)(p \<mapsto> f v)"
      "cm_env st2 = cm_env st1"
      using write_cold_view [OF e(2) c, of v f] e(3) v write_cold_env by metis
    have "store_cold f st p needed = Some (True, st2)"
      using e(1) w(1) \<open>needed\<close> False by (simp add: store_cold_def)
    then show ?thesis
      using w(2,3,4) e(3,4,6) \<open>needed\<close> False by auto
  qed
next
  case False
  show ?thesis
    using ok v
  proof (cases rule: cold_state_cases)
    case (cold c)
    obtain st2 where w: "write_cold st c f = Some st2" "compact_ok st2" "cold_view st2 = (cold_view st)(p \<mapsto> f v)"
      "cm_env st2 = cm_env st"
      using write_cold_view [OF ok cold(1) v, of f] write_cold_env by metis
    have "store_cold f st p needed = Some (True, st2)"
      using cold w(1) False by (simp add: store_cold_def)
    then show ?thesis
      using w(2,3,4) False by auto
  next
    case none
    then show ?thesis
      using ok v z False by (auto simp: store_cold_def fun_upd_idem)
  qed
qed

text \<open>The fields with setters that report a failure.\<close>

definition stored_allocator :: "compact_mem \<Rightarrow> addr \<Rightarrow> addr" where
  "stored_allocator st a = (if a = cm_default_allocator st then nullptr else a)"

lemma compact_ok_null [simp]: "compact_ok st \<Longrightarrow> cold_view st p = Some v \<Longrightarrow> p \<noteq> nullptr"
  by (auto simp: compact_ok_def cold_view_def split: option.splits)

interpretation parent_field: field_store sf_header_parent_local sf_header_set_parent_local cold_parent
    "\<lambda>x. cold_parent_update (\<lambda>_. x)" "\<lambda>_ x. x" nullptr
proof unfold_locales
  fix st p x v
  assume a: "compact_ok st" "cold_view st p = Some v"
  show "sf_header_parent_local st p = Some (cold_parent v)"
    using read_cold_view [OF a] by (simp add: sf_header_parent_local_def zero_cold_def)
  show "\<exists>ok st'. sf_header_set_parent_local st p x = Some (ok, st') \<and> compact_ok st' \<and> cm_env st' = cm_env st
      \<and> cold_view st' = (if ok then (cold_view st)(p \<mapsto> v\<lparr>cold_parent := x\<rparr>) else cold_view st)
      \<and> ok = (x = nullptr \<or> can_store st p)"
  proof -
    have z: "x \<noteq> nullptr \<or> (\<lambda>c. c\<lparr>cold_parent := x\<rparr>) zero_cold = zero_cold"
      by (simp add: zero_cold_def)
    have d: "sf_header_set_parent_local st p x = store_cold (\<lambda>c. c\<lparr>cold_parent := x\<rparr>) st p (x \<noteq> nullptr)"
      using compact_ok_null [OF a] by (simp add: sf_header_set_parent_local_def)
    show ?thesis
      unfolding d using store_cold_view [OF a, of "x \<noteq> nullptr" "\<lambda>c. c\<lparr>cold_parent := x\<rparr>", OF z] unfolding not_not by blast
  qed
qed simp

interpretation group_next_field: field_store sf_header_group_next_local sf_header_set_group_next_local cold_group_next
    "\<lambda>x. cold_group_next_update (\<lambda>_. x)" "\<lambda>_ x. x" nullptr
proof unfold_locales
  fix st p x v
  assume a: "compact_ok st" "cold_view st p = Some v"
  show "sf_header_group_next_local st p = Some (cold_group_next v)"
    using read_cold_view [OF a] by (simp add: sf_header_group_next_local_def zero_cold_def)
  show "\<exists>ok st'. sf_header_set_group_next_local st p x = Some (ok, st') \<and> compact_ok st' \<and> cm_env st' = cm_env st
      \<and> cold_view st' = (if ok then (cold_view st)(p \<mapsto> v\<lparr>cold_group_next := x\<rparr>) else cold_view st)
      \<and> ok = (x = nullptr \<or> can_store st p)"
  proof -
    have z: "x \<noteq> nullptr \<or> (\<lambda>c. c\<lparr>cold_group_next := x\<rparr>) zero_cold = zero_cold"
      by (simp add: zero_cold_def)
    have d: "sf_header_set_group_next_local st p x = store_cold (\<lambda>c. c\<lparr>cold_group_next := x\<rparr>) st p (x \<noteq> nullptr)"
      using compact_ok_null [OF a] by (simp add: sf_header_set_group_next_local_def)
    show ?thesis
      unfolding d using store_cold_view [OF a, of "x \<noteq> nullptr" "\<lambda>c. c\<lparr>cold_group_next := x\<rparr>", OF z] unfolding not_not by blast
  qed
qed simp

interpretation generic_class_field: field_store sf_header_generic_type_class_local sf_header_set_generic_type_class_local cold_generic_type_class
    "\<lambda>x. cold_generic_type_class_update (\<lambda>_. x)" "\<lambda>_ x. x" nullptr
proof unfold_locales
  fix st p x v
  assume a: "compact_ok st" "cold_view st p = Some v"
  show "sf_header_generic_type_class_local st p = Some (cold_generic_type_class v)"
    using read_cold_view [OF a] by (simp add: sf_header_generic_type_class_local_def zero_cold_def)
  show "\<exists>ok st'. sf_header_set_generic_type_class_local st p x = Some (ok, st') \<and> compact_ok st' \<and> cm_env st' = cm_env st
      \<and> cold_view st' = (if ok then (cold_view st)(p \<mapsto> v\<lparr>cold_generic_type_class := x\<rparr>) else cold_view st)
      \<and> ok = (x = nullptr \<or> can_store st p)"
  proof -
    have z: "x \<noteq> nullptr \<or> (\<lambda>c. c\<lparr>cold_generic_type_class := x\<rparr>) zero_cold = zero_cold"
      by (simp add: zero_cold_def)
    have d: "sf_header_set_generic_type_class_local st p x = store_cold (\<lambda>c. c\<lparr>cold_generic_type_class := x\<rparr>) st p (x \<noteq> nullptr)"
      using compact_ok_null [OF a] by (simp add: sf_header_set_generic_type_class_local_def)
    show ?thesis
      unfolding d using store_cold_view [OF a, of "x \<noteq> nullptr" "\<lambda>c. c\<lparr>cold_generic_type_class := x\<rparr>", OF z] unfolding not_not by blast
  qed
qed simp

interpretation allocator_field: field_store sf_header_allocator_local sf_header_set_allocator_local cold_allocator
    "\<lambda>x. cold_allocator_update (\<lambda>_. x)" stored_allocator nullptr
proof unfold_locales
  fix st p x v
  assume a: "compact_ok st" "cold_view st p = Some v"
  show "sf_header_allocator_local st p = Some (cold_allocator v)"
    using read_cold_view [OF a] by (simp add: sf_header_allocator_local_def zero_cold_def)
  show "\<exists>ok st'. sf_header_set_allocator_local st p x = Some (ok, st') \<and> compact_ok st' \<and> cm_env st' = cm_env st
      \<and> cold_view st' = (if ok then (cold_view st)(p \<mapsto> v\<lparr>cold_allocator := stored_allocator st x\<rparr>) else cold_view st)
      \<and> ok = (stored_allocator st x = nullptr \<or> can_store st p)"
  proof (cases "stored_allocator st x = nullptr")
    case True
    then have d: "sf_header_set_allocator_local st p x = store_cold (\<lambda>c. c\<lparr>cold_allocator := nullptr\<rparr>) st p False"
      using compact_ok_null [OF a] by (auto simp: sf_header_set_allocator_local_def stored_allocator_def split: if_splits)
    have z: "False \<or> (\<lambda>c. c\<lparr>cold_allocator := nullptr\<rparr>) zero_cold = zero_cold"
      by (simp add: zero_cold_def)
    show ?thesis
      unfolding d True using store_cold_view [OF a, of False "\<lambda>c. c\<lparr>cold_allocator := nullptr\<rparr>", OF z] by blast
  next
    case False
    then have d: "sf_header_set_allocator_local st p x = store_cold (\<lambda>c. c\<lparr>cold_allocator := x\<rparr>) st p True"
      "stored_allocator st x = x" "x \<noteq> nullptr"
      using compact_ok_null [OF a] by (auto simp: sf_header_set_allocator_local_def stored_allocator_def split: if_splits)
    show ?thesis
      unfolding d(1,2) using store_cold_view [OF a, of True "\<lambda>c. c\<lparr>cold_allocator := x\<rparr>"] d(3) by blast
  qed
qed simp

section \<open>The compact layout refines the flat one\<close>

datatype header_op = SetParent addr addr | SetAllocator addr addr | SetGroupNext addr addr | SetGenericClass addr addr

fun op_target :: "header_op \<Rightarrow> addr" where
  "op_target (SetParent p x) = p"
| "op_target (SetAllocator p x) = p"
| "op_target (SetGroupNext p x) = p"
| "op_target (SetGenericClass p x) = p"

fun exec_op :: "compact_mem \<Rightarrow> header_op \<Rightarrow> (bool \<times> compact_mem) option" where
  "exec_op st (SetParent p x) = sf_header_set_parent_local st p x"
| "exec_op st (SetAllocator p x) = sf_header_set_allocator_local st p x"
| "exec_op st (SetGroupNext p x) = sf_header_set_group_next_local st p x"
| "exec_op st (SetGenericClass p x) = sf_header_set_generic_type_class_local st p x"

fun exec_ops :: "compact_mem \<Rightarrow> header_op list \<Rightarrow> (bool list \<times> compact_mem) option" where
  "exec_ops st [] = Some ([], st)"
| "exec_ops st (x # xs) = do {
     (ok, st) \<leftarrow> exec_op st x;
     (oks, st) \<leftarrow> exec_ops st xs;
     Some (ok # oks, st)
   }"

text \<open>The same on flat headers: each accepted store is one assignment to one field of one header.\<close>

fun flat_op :: "addr \<Rightarrow> header_op \<Rightarrow> (addr \<Rightarrow> SFObjColdState option) \<Rightarrow> addr \<Rightarrow> SFObjColdState option" where
  "flat_op d (SetParent p x) m = m(p := map_option (\<lambda>v. v\<lparr>cold_parent := x\<rparr>) (m p))"
| "flat_op d (SetAllocator p x) m = m(p := map_option (\<lambda>v. v\<lparr>cold_allocator := (if x = d then nullptr else x)\<rparr>) (m p))"
| "flat_op d (SetGroupNext p x) m = m(p := map_option (\<lambda>v. v\<lparr>cold_group_next := x\<rparr>) (m p))"
| "flat_op d (SetGenericClass p x) m = m(p := map_option (\<lambda>v. v\<lparr>cold_generic_type_class := x\<rparr>) (m p))"

fun op_is_null :: "addr \<Rightarrow> header_op \<Rightarrow> bool" where
  "op_is_null d (SetParent p x) \<longleftrightarrow> x = nullptr"
| "op_is_null d (SetAllocator p x) \<longleftrightarrow> x = nullptr \<or> x = d"
| "op_is_null d (SetGroupNext p x) \<longleftrightarrow> x = nullptr"
| "op_is_null d (SetGenericClass p x) \<longleftrightarrow> x = nullptr"

lemma exec_op_refines:
  assumes "compact_ok st" "cold_view st (op_target x) = Some v"
  shows "\<exists>ok st'. exec_op st x = Some (ok, st') \<and> compact_ok st' \<and> cm_env st' = cm_env st
    \<and> cold_view st' = (if ok then flat_op (cm_default_allocator st) x (cold_view st) else cold_view st)
    \<and> (ok \<longleftrightarrow> op_is_null (cm_default_allocator st) x \<or> can_store st (op_target x))"
proof (cases x)
  case (SetParent p y)
  then show ?thesis
    using parent_field.set_view [OF assms(1), of p v y] assms(2) by auto
next
  case (SetAllocator p y)
  then show ?thesis
    using allocator_field.set_view [OF assms(1), of p v y] assms(2) by (auto simp: stored_allocator_def)
next
  case (SetGroupNext p y)
  then show ?thesis
    using group_next_field.set_view [OF assms(1), of p v y] assms(2) by auto
next
  case (SetGenericClass p y)
  then show ?thesis
    using generic_class_field.set_view [OF assms(1), of p v y] assms(2) by auto
qed

text \<open>A store takes at most one allocation.\<close>

lemma ensure_callocs:
  "sf_header_ensure_cold_state st p = Some (c, st') \<Longrightarrow> cm_callocs st' = cm_callocs st \<or> cm_callocs st' = tl (cm_callocs st)"
  by (auto simp: sf_header_ensure_cold_state_def write_ch_def Let_def split: if_splits list.splits Option.bind_splits)

lemma store_cold_callocs:
  "store_cold f st p needed = Some (ok, st') \<Longrightarrow> cm_callocs st' = cm_callocs st \<or> cm_callocs st' = tl (cm_callocs st)"
  by (auto simp: store_cold_def write_cold_def split: if_splits Option.bind_splits dest!: ensure_callocs)

lemma exec_op_callocs: "exec_op st x = Some (ok, st') \<Longrightarrow> cm_callocs st' = cm_callocs st \<or> cm_callocs st' = tl (cm_callocs st)"
  by (cases x) (auto simp: sf_header_set_parent_local_def sf_header_set_allocator_local_def sf_header_set_group_next_local_def
      sf_header_set_generic_type_class_local_def split: if_splits dest: store_cold_callocs)

lemma flat_op_mapped [simp]: "flat_op d x m q = None \<longleftrightarrow> m q = None"
  by (cases x) auto

lemma flat_op_dom: "cold_view st' = (if ok then flat_op d x (cold_view st) else cold_view st) \<Longrightarrow>
    cold_view st' q = None \<longleftrightarrow> cold_view st q = None"
  by (simp split: if_splits)

lemma exec_ops_refines:
  assumes "compact_ok st" "\<forall>x\<in>set ops. cold_view st (op_target x) \<noteq> None"
  shows "\<exists>oks st'. exec_ops st ops = Some (oks, st') \<and> length oks = length ops \<and> compact_ok st' \<and> cm_env st' = cm_env st
    \<and> cold_view st' = fold (\<lambda>(x, ok). if ok then flat_op (cm_default_allocator st) x else id) (zip ops oks) (cold_view st)
    \<and> (\<forall>(x, ok)\<in>set (zip ops oks). ok \<or> \<not> op_is_null (cm_default_allocator st) x)
    \<and> (nullptr \<notin> set (cm_callocs st) \<and> length ops \<le> length (cm_callocs st) \<longrightarrow> False \<notin> set oks)"
  using assms
proof (induction ops arbitrary: st)
  case (Cons x xs)
  obtain v where v: "cold_view st (op_target x) = Some v"
    using Cons.prems(2) by auto
  obtain ok st1 where s1: "exec_op st x = Some (ok, st1)" "compact_ok st1" "cm_env st1 = cm_env st"
    "cold_view st1 = (if ok then flat_op (cm_default_allocator st) x (cold_view st) else cold_view st)"
    "ok \<longleftrightarrow> op_is_null (cm_default_allocator st) x \<or> can_store st (op_target x)"
    using exec_op_refines [OF Cons.prems(1) v] by blast
  have "\<forall>y\<in>set xs. cold_view st1 (op_target y) \<noteq> None"
    using Cons.prems(2) flat_op_dom [OF s1(4)] by simp
  then obtain oks st' where s2: "exec_ops st1 xs = Some (oks, st')" "length oks = length xs" "compact_ok st'" "cm_env st' = cm_env st1"
    "cold_view st' = fold (\<lambda>(x, ok). if ok then flat_op (cm_default_allocator st1) x else id) (zip xs oks) (cold_view st1)"
    "\<forall>(x, ok)\<in>set (zip xs oks). ok \<or> \<not> op_is_null (cm_default_allocator st1) x"
    "nullptr \<notin> set (cm_callocs st1) \<and> length xs \<le> length (cm_callocs st1) \<longrightarrow> False \<notin> set oks"
    using Cons.IH [OF s1(2)] by blast
  have d: "cm_default_allocator st1 = cm_default_allocator st"
    using s1(3) by (simp add: cm_env_def)
  have l: "False \<notin> set (ok # oks)" if "nullptr \<notin> set (cm_callocs st)" "length (x # xs) \<le> length (cm_callocs st)"
  proof -
    have "can_store st (op_target x)"
      using that by (cases "cm_callocs st") (auto simp: can_store_def)
    moreover have "nullptr \<notin> set (cm_callocs st1)" "length xs \<le> length (cm_callocs st1)"
      using exec_op_callocs [OF s1(1)] that by (cases "cm_callocs st"; auto)+
    ultimately show ?thesis
      using s1(5) s2(7) by simp
  qed
  show ?case
  proof (intro exI [of _ "ok # oks"] exI [of _ st'] conjI)
    show "exec_ops st (x # xs) = Some (ok # oks, st')"
      using s1(1) s2(1) by simp
    show "cold_view st' = fold (\<lambda>(x, ok). if ok then flat_op (cm_default_allocator st) x else id) (zip (x # xs) (ok # oks)) (cold_view st)"
      using s1(4) s2(5) unfolding d by (cases ok) simp_all
    show "\<forall>(x, ok)\<in>set (zip (x # xs) (ok # oks)). ok \<or> \<not> op_is_null (cm_default_allocator st) x"
      using s1(5) s2(6) unfolding d by auto
  qed (use s1(3) s2(2,3,4) l in auto)
qed auto

section \<open>Groups in the compact layout\<close>

text \<open>The root of a header in the flat view, and what the first member makes of its root.\<close>

definition view_root :: "addr \<Rightarrow> SFObjColdState \<Rightarrow> addr" where
  "view_root p v = (if cold_group_root v \<noteq> nullptr then cold_group_root v else p)"

definition rooted :: "addr \<Rightarrow> SFObjColdState \<Rightarrow> SFObjColdState" where
  "rooted p v = (if inline_group_live_count v \<noteq> 0 \<or> inline_group_head v \<noteq> nullptr then v
     else v\<lparr>inline_group_head := p, inline_group_live_count := 1, inline_group_dead := 0, cold_group_next := nullptr\<rparr>)"

lemma group_root_view: "compact_ok st \<Longrightarrow> cold_view st p = Some v \<Longrightarrow> sf_header_group_root_local st p = Some (view_root p v)"
  using read_cold_view [of st p v cold_group_root] by (simp add: sf_header_group_root_local_def view_root_def zero_cold_def)

lemma has_cold_zero: "compact_ok st \<Longrightarrow> cold_view st p = Some v \<Longrightarrow> v \<noteq> zero_cold \<Longrightarrow> \<exists>c. has_cold st p c"
  by (cases rule: cold_state_cases, assumption+) auto

text \<open>Marking a header dead or alive touches its auxiliary flags only.\<close>

definition mark :: "bool \<Rightarrow> SFCompactHeader \<Rightarrow> SFCompactHeader" where
  "mark dead h = h\<lparr>ch_aux_flags := (if dead then ch_aux_flags h OR SF_OBJ_AUX_FLAG_GROUP_DEAD
     else ch_aux_flags h AND NOT SF_OBJ_AUX_FLAG_GROUP_DEAD)\<rparr>"

lemma mark_dead_view:
  assumes ok: "compact_ok st" and v: "cold_view st p = Some v"
  shows "\<exists>st'. compact_mark_dead st p dead = Some st' \<and> compact_ok st' \<and> cold_view st' = cold_view st
    \<and> has_cold st' = has_cold st \<and> hot_view st' = (hot_view st)(p := map_option (mark dead) (hot_view st p))
    \<and> cm_callocs st' = cm_callocs st \<and> cm_buckets st' = cm_buckets st \<and> cm_default_allocator st' = cm_default_allocator st"
proof -
  obtain h where h: "cm_hdrs st p = Some h"
    using v by (auto simp: cold_view_def split: option.splits)
  define st' where "st' = st\<lparr>cm_hdrs := (cm_hdrs st)(p \<mapsto> mark dead h)\<rparr>"
  have hc: "has_cold st' = has_cold st"
    using h by (intro ext) (simp add: has_cold_def st'_def mark_def)
  have "compact_ok st'"
    using ok h unfolding compact_ok_def hc by (auto simp: st'_def)
  moreover have "cold_view st' = cold_view st"
    using h by (intro ext) (auto simp: cold_view_def st'_def mark_def split: option.splits)
  moreover have "hot_view st' = (hot_view st)(p := map_option (mark dead) (hot_view st p))"
    using h by (intro ext) (simp add: hot_view_def st'_def mark_def)
  ultimately show ?thesis
    using h hc by (simp add: compact_mark_dead_def write_ch_def st'_def mark_def)
qed

lemma init_group_root_view:
  assumes ok: "compact_ok st" and v: "cold_view st p = Some v"
  shows "\<exists>ok st'. compact_init_group_root st p = Some (ok, st') \<and> compact_ok st'
    \<and> cold_view st' = (if ok then (cold_view st)(p \<mapsto> rooted p v) else cold_view st)
    \<and> hot_view st' = (if ok \<and> rooted p v \<noteq> v then (hot_view st)(p := map_option (mark False) (hot_view st p)) else hot_view st)
    \<and> cm_buckets st' = cm_buckets st \<and> cm_default_allocator st' = cm_default_allocator st
    \<and> (ok \<longrightarrow> (\<exists>c. has_cold st' p c))"
proof -
  obtain c st1 where e: "sf_header_ensure_cold_state st p = Some (c, st1)" "compact_ok st1" "cold_view st1 = cold_view st"
    "hot_view st1 = hot_view st" "cm_buckets st1 = cm_buckets st" "cm_default_allocator st1 = cm_default_allocator st"
    "if c = nullptr then (\<forall>d. \<not> has_cold st p d) \<and> (cm_callocs st = [] \<or> hd (cm_callocs st) = nullptr) else has_cold st1 p c"
    using ensure_cold_view [OF ok v] by blast
  have v1: "cold_view st1 p = Some v"
    using e(3) v by simp
  have np: "p \<noteq> nullptr"
    using compact_ok_null [OF ok v] .
  consider "c = nullptr" | "c \<noteq> nullptr" "inline_group_live_count v \<noteq> 0 \<or> inline_group_head v \<noteq> nullptr"
    | "c \<noteq> nullptr" "inline_group_live_count v = 0" "inline_group_head v = nullptr"
    by blast
  then show ?thesis
  proof cases
    case 1
    then show ?thesis
      using e np by (intro exI [of _ False] exI [of _ st1]) (simp add: compact_init_group_root_def)
  next
    case 2
    then have c: "has_cold st1 p c" "cm_colds st1 c = Some v"
      using e(7) has_coldD [OF e(2)] v1 by auto
    then show ?thesis
      using e np 2 v by (intro exI [of _ True] exI [of _ st1]) (auto simp: compact_init_group_root_def rooted_def fun_upd_idem)
  next
    case 3
    then have c: "has_cold st1 p c" "cm_colds st1 c = Some v"
      using e(7) has_coldD [OF e(2)] v1 by auto
    let ?f = "\<lambda>c. c\<lparr>inline_group_head := p, inline_group_live_count := 1, inline_group_dead := 0, cold_group_next := nullptr\<rparr>"
    obtain st2 where w: "write_cold st1 c ?f = Some st2" "compact_ok st2" "cold_view st2 = (cold_view st1)(p \<mapsto> ?f v)"
      "cm_hdrs st2 = cm_hdrs st1" "has_cold st2 = has_cold st1" "cm_buckets st2 = cm_buckets st1"
      "cm_default_allocator st2 = cm_default_allocator st1"
      using write_cold_view [OF e(2) c(1) v1, of ?f] by blast
    have h2: "hot_view st2 = hot_view st1"
      using w(4) by (intro ext) (simp add: hot_view_def)
    have v2: "cold_view st2 p = Some (?f v)"
      using w(3) by simp
    obtain st3 where m: "compact_mark_dead st2 p False = Some st3" "compact_ok st3" "cold_view st3 = cold_view st2"
      "has_cold st3 = has_cold st2" "hot_view st3 = (hot_view st2)(p := map_option (mark False) (hot_view st2 p))"
      "cm_buckets st3 = cm_buckets st2" "cm_default_allocator st3 = cm_default_allocator st2"
      using mark_dead_view [OF w(2) v2, of False] by blast
    have r: "rooted p v = ?f v" "rooted p v \<noteq> v"
      using 3 np by (auto simp: rooted_def dest: arg_cong [of _ _ inline_group_head])
    have i: "compact_init_group_root st p = Some (True, st3)"
      using e(1) 3 c w(1) m(1) np by (simp add: compact_init_group_root_def)
    show ?thesis
      unfolding i using m w(3,5,6,7) e(3,4,5,6) h2 r c by (intro exI [of _ True] exI [of _ st3]) auto
  qed
qed

text \<open>What the accessors of a group read, in terms of the views.\<close>

lemma root_cold:
  assumes "compact_ok st" "cold_view st p = Some v" "view_root p v = r" "cold_view st r = Some w"
  shows "sf_header_inline_group_root_cold st p = sf_header_cold_state st r"
  using group_root_view [OF assms(1,2)] assms(3) by (simp add: sf_header_inline_group_root_cold_def)

lemma cold_state_view:
  assumes "compact_ok st" "has_cold st r c"
  shows "sf_header_cold_state st r = Some c" "c \<noteq> nullptr" "cm_colds st c = cold_view st r"
  using has_coldD [OF assms] assms(2) by (auto simp: sf_header_cold_state_def has_cold_def split: option.splits)

lemma group_accessors:
  assumes ok: "compact_ok st" and v: "cold_view st p = Some v" "view_root p v = r" and w: "cold_view st r = Some w"
    and c: "has_cold st r c"
  shows "compact_group_head st p = Some (if inline_group_head w \<noteq> nullptr then inline_group_head w else r)"
    and "inline_group_live_count w \<noteq> 0 \<Longrightarrow> compact_group_live_count st p = Some (inline_group_live_count w)"
    and "view_root r w = r \<Longrightarrow> compact_group_lock st p = Some (if inline_group_live_count w = 0 then nullptr else c + 60)"
proof -
  have np: "p \<noteq> nullptr" "r \<noteq> nullptr"
    using compact_ok_null [OF ok v(1)] compact_ok_null [OF ok w] .
  note rc = root_cold [OF ok v w]
  note cs = cold_state_view [OF ok c]
  obtain h where h: "cm_hdrs st p = Some h"
    using v(1) by (auto simp: cold_view_def split: option.splits)
  show "compact_group_head st p = Some (if inline_group_head w \<noteq> nullptr then inline_group_head w else r)"
    using np rc cs w group_root_view [OF ok v(1)] v(2) by (simp add: compact_group_head_def)
  show "compact_group_live_count st p = Some (inline_group_live_count w)" if "inline_group_live_count w \<noteq> 0"
    using np rc cs w that h by (simp add: compact_group_live_count_def)
  show "compact_group_lock st p = Some (if inline_group_live_count w = 0 then nullptr else c + 60)" if "view_root r w = r"
    using np cs w that group_root_view [OF ok v(1)] v(2) root_cold [OF ok w that w] by (simp add: compact_group_lock_def)
qed

lemma compact_join_group_view:
  assumes ok: "compact_ok st" and v: "cold_view st p = Some v" and w: "cold_view st r = Some w" and pr: "p \<noteq> r"
  shows "\<exists>ok st'. compact_set_group_root st p r = Some (ok, st') \<and> compact_ok st'
    \<and> (ok \<longrightarrow> cold_view st' = (cold_view st)(r \<mapsto> rooted r w, p \<mapsto> v\<lparr>cold_group_root := r\<rparr>) \<and> (\<exists>c. has_cold st' p c) \<and> (\<exists>c. has_cold st' r c))
    \<and> (\<not> ok \<longrightarrow> cold_view st' = cold_view st \<or> cold_view st' = (cold_view st)(r \<mapsto> rooted r w))"
proof -
  have np: "p \<noteq> nullptr" "r \<noteq> nullptr"
    using compact_ok_null [OF ok v] compact_ok_null [OF ok w] .
  obtain b st1 where i: "compact_init_group_root st r = Some (b, st1)" "compact_ok st1"
    "cold_view st1 = (if b then (cold_view st)(r \<mapsto> rooted r w) else cold_view st)"
    using init_group_root_view [OF ok w] by blast
  show ?thesis
  proof (cases b)
    case False
    then show ?thesis
      using i np by (intro exI [of _ False] exI [of _ st1]) (simp add: compact_set_group_root_def)
  next
    case True
    have v1: "cold_view st1 p = Some v"
      using i(3) True v pr by simp
    obtain b2 st2 where s2: "store_cold (\<lambda>c. c\<lparr>cold_group_root := r\<rparr>) st1 p True = Some (b2, st2)" "compact_ok st2"
      "cold_view st2 = (if b2 then (cold_view st1)(p \<mapsto> v\<lparr>cold_group_root := r\<rparr>) else cold_view st1)"
      using store_cold_view [OF i(2) v1, of True "\<lambda>c. c\<lparr>cold_group_root := r\<rparr>"] by blast
    have e: "compact_set_group_root st p r = Some (b2, st2)"
      using i(1) s2(1) True np pr by (simp add: compact_set_group_root_def)
    have r2: "cold_view st2 r = Some (rooted r w)"
      using s2(3) i(3) True pr by simp
    have "rooted r w \<noteq> zero_cold"
      using np by (auto simp: rooted_def zero_cold_def dest: arg_cong [of _ _ inline_group_head])
    then have "\<exists>c. has_cold st2 r c"
      using has_cold_zero [OF s2(2) r2] by blast
    moreover have "\<exists>c. has_cold st2 p c" if b2
    proof -
      have "v\<lparr>cold_group_root := r\<rparr> \<noteq> zero_cold"
        using np by (auto simp: zero_cold_def dest: arg_cong [of _ _ cold_group_root])
      then show ?thesis
        using has_cold_zero [OF s2(2), of p "v\<lparr>cold_group_root := r\<rparr>"] s2(3) that by simp
    qed
    ultimately show ?thesis
      using e s2(2,3) i(3) True by (intro exI [of _ b2] exI [of _ st2]) auto
  qed
qed

section \<open>The live count of a group\<close>

definition counted :: "addr \<Rightarrow> u64 \<Rightarrow> SFObjColdState \<Rightarrow> SFObjColdState" where
  "counted r n w = w\<lparr>inline_group_live_count := n, inline_group_dead := (if n = 0 then 1 else 0),
     inline_group_head := (if n = 1 \<and> inline_group_head w = nullptr then r else inline_group_head w)\<rparr>"

lemma write_and_mark:
  assumes ok: "compact_ok st" and w: "cold_view st r = Some w" and c: "has_cold st r c"
  obtains st' st'' where "write_cold st c f = Some st'" "compact_mark_dead st' r dead = Some st''" "compact_ok st''"
    "cold_view st'' = (cold_view st)(r \<mapsto> f w)" "hot_view st'' = (hot_view st)(r := map_option (mark dead) (hot_view st r))"
    "has_cold st'' = has_cold st"
proof -
  obtain st1 where s1: "write_cold st c f = Some st1" "compact_ok st1" "cold_view st1 = (cold_view st)(r \<mapsto> f w)"
    "cm_hdrs st1 = cm_hdrs st" "has_cold st1 = has_cold st"
    using write_cold_view [OF ok c w] by blast
  have h1: "hot_view st1 = hot_view st"
    using s1(4) by (intro ext) (simp add: hot_view_def)
  have "cold_view st1 r = Some (f w)"
    using s1(3) by simp
  from mark_dead_view [OF s1(2) this, of dead] s1 h1 show thesis
    by (auto intro: that)
qed

lemma unsigned_le_1: "(n :: u64) \<le> 1 \<longleftrightarrow> n = 0 \<or> n = 1"
  by (simp add: word_le_nat_alt le_Suc_eq word_unat_eq_iff)

text \<open>Setting the count of a group whose root is \<open>r\<close>: the views after it.\<close>

lemma set_count_view:
  assumes ok: "compact_ok st" and v: "cold_view st p = Some v" "view_root p v = r" and w: "cold_view st r = Some w" "view_root r w = r"
  shows "\<exists>ok st'. compact_set_group_live_count st p n = Some (ok, st') \<and> compact_ok st'
    \<and> (ok \<or> 1 < n \<and> cold_view st' = cold_view st)
    \<and> (ok \<longrightarrow> hot_view st' r = map_option (mark (n = 0)) (hot_view st r)
        \<and> (\<forall>q. q \<noteq> r \<longrightarrow> hot_view st' q = hot_view st q)
        \<and> (if n \<le> 1 \<and> (\<forall>c. \<not> has_cold st r c) then cold_view st' = cold_view st \<and> (\<forall>c. \<not> has_cold st' r c)
           else (\<exists>c. has_cold st' r c) \<and> cold_view st' = (cold_view st)(r \<mapsto> counted r n (if n \<le> 1 then w else rooted r w))))"
proof -
  have np: "p \<noteq> nullptr" "r \<noteq> nullptr"
    using compact_ok_null [OF ok v(1)] compact_ok_null [OF ok w(1)] .
  have root: "sf_header_group_root_local st p = Some r"
    using group_root_view [OF ok v(1)] v(2) by simp
  show ?thesis
  proof (cases "n \<le> 1")
    case True
    show ?thesis
      using ok w(1)
    proof (cases rule: cold_state_cases)
      case (cold c)
      let ?f = "\<lambda>c. c\<lparr>inline_group_live_count := n, inline_group_dead := (if n = 0 then 1 else 0),
        inline_group_head := (if n \<noteq> 0 \<and> inline_group_head c = nullptr then r else inline_group_head c)\<rparr>"
      obtain st1 st2 where s: "write_cold st c ?f = Some st1" "compact_mark_dead st1 r (n = 0) = Some st2" "compact_ok st2"
        "cold_view st2 = (cold_view st)(r \<mapsto> ?f w)" "hot_view st2 = (hot_view st)(r := map_option (mark (n = 0)) (hot_view st r))"
        "has_cold st2 = has_cold st"
        by (rule write_and_mark [OF ok w(1) cold(1), of ?f "n = 0"])
      have "?f w = counted r n w"
        using True by (auto simp: counted_def unsigned_le_1)
      then have s4: "cold_view st2 = (cold_view st)(r \<mapsto> counted r n w)"
        using s(4) by simp
      have "compact_set_group_live_count st p n = Some (True, st2)"
        using np root True cold s(1,2) by (simp add: compact_set_group_live_count_def)
      then show ?thesis
        using s(3,5,6) s4 True cold(1) by (intro exI [of _ True] exI [of _ st2]) (simp, blast)
    next
      case none
      obtain st2 where s: "compact_mark_dead st r (n = 0) = Some st2" "compact_ok st2" "cold_view st2 = cold_view st"
        "has_cold st2 = has_cold st" "hot_view st2 = (hot_view st)(r := map_option (mark (n = 0)) (hot_view st r))"
        using mark_dead_view [OF ok w(1), of "n = 0"] by blast
      have "compact_set_group_live_count st p n = Some (True, st2)"
        using np root True none s(1) by (simp add: compact_set_group_live_count_def)
      then show ?thesis
        using s(2-5) True none(1) by (intro exI [of _ True] exI [of _ st2]) auto
    qed
  next
    case False
    obtain b st1 where i: "compact_init_group_root st r = Some (b, st1)" "compact_ok st1"
      "cold_view st1 = (if b then (cold_view st)(r \<mapsto> rooted r w) else cold_view st)"
      "hot_view st1 = (if b \<and> rooted r w \<noteq> w then (hot_view st)(r := map_option (mark False) (hot_view st r)) else hot_view st)"
      "b \<longrightarrow> (\<exists>c. has_cold st1 r c)"
      using init_group_root_view [OF ok w(1)] by blast
    show ?thesis
    proof (cases b)
      case b: False
      then show ?thesis
        using np root False i linorder_not_le [of n 1]
        by (intro exI [of _ False] exI [of _ st1]) (simp add: compact_set_group_live_count_def del: linorder_not_le not_le)
    next
      case b: True
      then obtain c where c: "has_cold st1 r c"
        using i(5) by blast
      have w1: "cold_view st1 r = Some (rooted r w)" "view_root r (rooted r w) = r"
        using i(3) b w(2) by (auto simp: view_root_def rooted_def split: if_splits)
      let ?f = "\<lambda>c. c\<lparr>inline_group_live_count := n, inline_group_dead := (if n = 0 then 1 else 0)\<rparr>"
      obtain st2 st3 where s: "write_cold st1 c ?f = Some st2" "compact_mark_dead st2 r (n = 0) = Some st3" "compact_ok st3"
        "cold_view st3 = (cold_view st1)(r \<mapsto> ?f (rooted r w))"
        "hot_view st3 = (hot_view st1)(r := map_option (mark (n = 0)) (hot_view st1 r))" "has_cold st3 = has_cold st1"
        by (rule write_and_mark [OF i(2) w1(1) c, of ?f "n = 0"])
      have "?f (rooted r w) = counted r n (rooted r w)"
        using False by (auto simp: counted_def unsigned_le_1)
      then have s4: "cold_view st3 = (cold_view st)(r \<mapsto> counted r n (rooted r w))"
        using s(4) i(3) b by simp
      have "sf_header_inline_group_root_cold st1 r = Some c"
        using root_cold [OF i(2) w1 w1(1)] cold_state_view [OF i(2) c] by simp
      then have "compact_set_group_live_count st p n = Some (True, st3)"
        using np root False i(1) b s(1,2) cold_state_view(2) [OF i(2) c] by (simp add: compact_set_group_live_count_def)
      moreover have "map_option (mark (n = 0)) (map_option (mark False) x) = map_option (mark (n = 0)) x" for x
        using False by (cases x) (auto simp: mark_def unsigned_le_1 and.assoc)
      then have "hot_view st3 r = map_option (mark (n = 0)) (hot_view st r)" "\<forall>q. q \<noteq> r \<longrightarrow> hot_view st3 q = hot_view st q"
        using s(5) i(4) by simp_all
      moreover have "\<exists>c. has_cold st3 r c"
        using c s(6) by auto
      ultimately show ?thesis
        using s(3) s4 False by (intro exI [of _ True] exI [of _ st3]) simp
    qed
  qed
qed

text \<open>The live table: the cells of a bucket are linked through the cold states.\<close>

definition compact_live_cell :: "compact_mem \<Rightarrow> addr \<Rightarrow> addr option" where
  "compact_live_cell st p = map_option cold_live_next (cold_view st p)"

lemma live_next_view: "compact_ok st \<Longrightarrow> cold_view st p = Some v \<Longrightarrow> compact_live_next st p = Some (cold_live_next v)"
  using read_cold_view [of st p v cold_live_next] by (simp add: compact_live_next_def zero_cold_def)

lemma register_live_view:
  assumes ok: "compact_ok st" and v: "cold_view st p = Some v" and z: "cold_live_next v = nullptr"
  shows "\<exists>st'. compact_register_live st b p = Some st' \<and> compact_ok st' \<and> cm_buckets st' = (cm_buckets st)(b := p)
    \<and> cold_view st' = (if can_store st p then (cold_view st)(p \<mapsto> v\<lparr>cold_live_next := cm_buckets st b\<rparr>) else cold_view st)"
proof -
  have np: "p \<noteq> nullptr"
    using compact_ok_null [OF ok v] .
  let ?f = "\<lambda>c. c\<lparr>cold_live_next := cm_buckets st b\<rparr>"
  have "cm_buckets st b \<noteq> nullptr \<or> ?f zero_cold = zero_cold"
    by (simp add: zero_cold_def)
  from store_cold_view [OF ok v, of "cm_buckets st b \<noteq> nullptr" ?f, OF this] obtain k st1 where s: "store_cold ?f st p (cm_buckets st b \<noteq> nullptr) = Some (k, st1)"
    "compact_ok st1" "cm_env st1 = cm_env st" "cold_view st1 = (if k then (cold_view st)(p \<mapsto> ?f v) else cold_view st)"
    "k \<longleftrightarrow> \<not> cm_buckets st b \<noteq> nullptr \<or> can_store st p"
    by blast
  define st' where "st' = st1\<lparr>cm_buckets := (cm_buckets st1)(b := p)\<rparr>"
  have hc: "has_cold st' = has_cold st1"
    by (intro ext) (simp add: has_cold_def st'_def)
  have "compact_ok st'"
    using s(2) unfolding compact_ok_def hc by (simp add: st'_def)
  moreover have "cold_view st' = cold_view st1"
    by (rule cold_view_cong) (simp_all add: st'_def)
  moreover have "v\<lparr>cold_live_next := nullptr\<rparr> = v"
    using z by (cases v) simp
  then have "cold_view st1 = (if can_store st p then (cold_view st)(p \<mapsto> ?f v) else cold_view st)"
    using s(4,5) v by (auto simp: fun_upd_idem)
  moreover have "compact_register_live st b p = Some st'"
    using s(1) np by (simp add: compact_register_live_def compact_set_live_next_def st'_def)
  ultimately show ?thesis
    using s(3) by (intro exI [of _ st']) (simp add: st'_def cm_env_def)
qed

text \<open>Giving the cold state back leaves an ungrouped header without links.\<close>

lemma destroy_sidecar_view:
  assumes ok: "compact_ok st" and v: "cold_view st p = Some v"
  shows "\<exists>st'. compact_destroy_sidecar st p = Some st' \<and> compact_ok st' \<and> cold_view st' = (cold_view st)(p \<mapsto> zero_cold)
    \<and> hot_view st' = hot_view st \<and> (\<forall>c. \<not> has_cold st' p c) \<and> (\<forall>c. has_cold st p c \<longrightarrow> cm_colds st' c = None)"
  using ok v
proof (cases rule: cold_state_cases)
  case none
  then show ?thesis
    using ok v compact_ok_null [OF ok v] by (intro exI [of _ st]) (simp add: compact_destroy_sidecar_def fun_upd_idem)
next
  case (cold c)
  obtain h where h: "cm_hdrs st p = Some h"
    using v by (auto simp: cold_view_def split: option.splits)
  let ?h = "h\<lparr>ch_cold := nullptr, ch_flags := ch_flags h AND NOT SF_OBJ_FLAG_HAS_COLD\<rparr>"
  define st' where "st' = st\<lparr>cm_hdrs := (cm_hdrs st)(p \<mapsto> ?h), cm_colds := (cm_colds st)(c := None)\<rparr>"
  have hc: "has_cold st' q d \<longleftrightarrow> q \<noteq> p \<and> has_cold st q d" for q d
    by (auto simp: has_cold_def st'_def and.assoc)
  have other: "d \<noteq> c" if "q \<noteq> p" "has_cold st q d" for q d
    using ok cold(1) that unfolding compact_ok_def by blast
  have "compact_ok st'"
    using ok h other unfolding compact_ok_def hc by (auto simp: st'_def)
  moreover have "cold_view st' q = ((cold_view st)(p \<mapsto> zero_cold)) q" for q
    using other [of q] by (auto simp: cold_view_def has_cold_def st'_def and.assoc split: option.splits)
  then have "cold_view st' = (cold_view st)(p \<mapsto> zero_cold)"
    by blast
  moreover have "hot_view st' = hot_view st"
    using h by (intro ext) (simp add: hot_view_def st'_def and.assoc)
  moreover have "compact_destroy_sidecar st p = Some st'"
    using h cold compact_ok_null [OF ok v] by (simp add: compact_destroy_sidecar_def write_ch_def st'_def)
  ultimately show ?thesis
    using hc has_cold_unique [OF cold(1)] by (intro exI [of _ st']) (auto simp: st'_def)
qed

section \<open>Properties\<close>

text \<open>C28: The compact header layout refines the flat one: any sequence of stores to the parent, allocator, group link
  and generic class fields of headers returns, leaves a well-formed memory, and means what the flat headers would hold after the accepted
  stores, each an assignment to one field of one header (the default allocator is stored as null); the getters read these
  values, a refused store changes nothing, a store of null is never refused, and without failing allocations none is.\<close>

theorem compact_fields_refine:
  assumes "compact_ok st" "\<forall>x\<in>set ops. cold_view st (op_target x) \<noteq> None"
  shows "\<exists>oks st'. exec_ops st ops = Some (oks, st') \<and> length oks = length ops \<and> compact_ok st' \<and> cm_env st' = cm_env st
    \<and> cold_view st' = fold (\<lambda>(x, ok). if ok then flat_op (cm_default_allocator st) x else id) (zip ops oks) (cold_view st)
    \<and> (\<forall>q v. cold_view st' q = Some v \<longrightarrow> sf_header_parent_local st' q = Some (cold_parent v)
        \<and> sf_header_allocator_local st' q = Some (cold_allocator v) \<and> sf_header_group_next_local st' q = Some (cold_group_next v)
        \<and> sf_header_generic_type_class_local st' q = Some (cold_generic_type_class v))
    \<and> (\<forall>(x, ok)\<in>set (zip ops oks). ok \<or> \<not> op_is_null (cm_default_allocator st) x)
    \<and> (nullptr \<notin> set (cm_callocs st) \<and> length ops \<le> length (cm_callocs st) \<longrightarrow> False \<notin> set oks)"
proof -
  obtain oks st' where s: "exec_ops st ops = Some (oks, st')" "length oks = length ops" "compact_ok st'" "cm_env st' = cm_env st"
    "cold_view st' = fold (\<lambda>(x, ok). if ok then flat_op (cm_default_allocator st) x else id) (zip ops oks) (cold_view st)"
    "\<forall>(x, ok)\<in>set (zip ops oks). ok \<or> \<not> op_is_null (cm_default_allocator st) x"
    "nullptr \<notin> set (cm_callocs st) \<and> length ops \<le> length (cm_callocs st) \<longrightarrow> False \<notin> set oks"
    using exec_ops_refines [OF assms] by blast
  show ?thesis
    using s parent_field.get_view [OF s(3)] allocator_field.get_view [OF s(3)] group_next_field.get_view [OF s(3)]
      generic_class_field.get_view [OF s(3)]
    by (intro exI [of _ oks] exI [of _ st'] conjI) blast+
qed

definition demo_compact :: compact_mem where
  "demo_compact = (let h = \<lparr>ch_magic = SF_OBJ_HEADER_MAGIC, ch_refcount = 1, ch_state = 1, ch_flags = 0, ch_alloc_size = 96,
       ch_reserved = 0, ch_class_flags = 0, ch_aux_flags = 0, ch_cold = nullptr\<rparr> in
     \<lparr>cm_hdrs = [0x100 \<mapsto> h, 0x200 \<mapsto> h], cm_colds = Map.empty, cm_callocs = [0x1000, 0, 0x2000], cm_default_allocator = 0x50,
      cm_buckets = (\<lambda>_. nullptr)(3 := 0x200)\<rparr>)"

lemma demo_compact_no_cold: "has_cold (demo_compact\<lparr>cm_callocs := as\<rparr>) p c = False" "has_cold demo_compact p c = False"
  by (simp_all add: demo_compact_def has_cold_def Let_def)

lemma demo_compact_ok: "compact_ok demo_compact" "compact_ok (demo_compact\<lparr>cm_callocs := [nullptr]\<rparr>)"
  unfolding compact_ok_def demo_compact_no_cold by (simp_all add: demo_compact_def Let_def)

lemma demo_compact_view: "cold_view demo_compact 0x100 = Some zero_cold" "cold_view demo_compact 0x200 = Some zero_cold"
  by (simp_all add: demo_compact_def cold_view_def Let_def)

theorem compact_fields_refine_witness:
  "\<exists>oks st'. exec_ops demo_compact [SetParent 0x100 0x220, SetAllocator 0x200 0x50, SetParent 0x200 0x120] = Some (oks, st')
     \<and> length oks = 3 \<and> compact_ok st'"
proof -
  have "\<forall>x\<in>set [SetParent 0x100 0x220, SetAllocator 0x200 0x50, SetParent 0x200 0x120]. cold_view demo_compact (op_target x) \<noteq> None"
    by (simp add: demo_compact_view)
  from compact_fields_refine [OF demo_compact_ok(1) this] obtain oks st' where
    "exec_ops demo_compact [SetParent 0x100 0x220, SetAllocator 0x200 0x50, SetParent 0x200 0x120] = Some (oks, st')"
    "length oks = length [SetParent 0x100 0x220, SetAllocator 0x200 0x50, SetParent 0x200 0x120]" "compact_ok st'"
    by blast
  then show ?thesis
    by simp
qed

text \<open>C29: An object that joins a group in the compact layout shares the head, the live count and the lock of its root;
  the root becomes a group of its own first if it is not one, no other header changes, and when an allocation fails the
  object itself is left as it was.\<close>

theorem compact_join_group:
  assumes "compact_ok st" "cold_view st p = Some v" "cold_view st r = Some w" "p \<noteq> r" "cold_group_root w = nullptr"
  shows "\<exists>ok st'. compact_set_group_root st p r = Some (ok, st') \<and> compact_ok st'
    \<and> (\<forall>q. q \<noteq> p \<and> q \<noteq> r \<longrightarrow> cold_view st' q = cold_view st q)
    \<and> (if ok then cold_view st' p = Some (v\<lparr>cold_group_root := r\<rparr>) \<and> cold_view st' r = Some (rooted r w)
         \<and> sf_header_group_root_local st' p = Some r \<and> compact_grouped st' p = Some True
         \<and> compact_group_head st' p = compact_group_head st' r \<and> compact_group_lock st' p = compact_group_lock st' r
         \<and> (inline_group_live_count w \<noteq> 0 \<longrightarrow> compact_group_live_count st' p = Some (inline_group_live_count w))
         \<and> (w = zero_cold \<longrightarrow> compact_group_live_count st' p = Some 1 \<and> compact_group_head st' p = Some r)
       else cold_view st' p = cold_view st p)"
proof -
  have np: "p \<noteq> nullptr" "r \<noteq> nullptr"
    using compact_ok_null [OF assms(1,2)] compact_ok_null [OF assms(1,3)] .
  obtain ok st' where s: "compact_set_group_root st p r = Some (ok, st')" "compact_ok st'"
    "ok \<longrightarrow> cold_view st' = (cold_view st)(r \<mapsto> rooted r w, p \<mapsto> v\<lparr>cold_group_root := r\<rparr>) \<and> (\<exists>c. has_cold st' p c) \<and> (\<exists>c. has_cold st' r c)"
    "\<not> ok \<longrightarrow> cold_view st' = cold_view st \<or> cold_view st' = (cold_view st)(r \<mapsto> rooted r w)"
    using compact_join_group_view [OF assms(1-4)] by blast
  show ?thesis
  proof (cases ok)
    case False
    then show ?thesis
      using s assms(4) by (intro exI [of _ False] exI [of _ st']) auto
  next
    case True
    then obtain c d where cd: "has_cold st' p d" "has_cold st' r c"
      using s(3) by blast
    have views: "cold_view st' p = Some (v\<lparr>cold_group_root := r\<rparr>)" "cold_view st' r = Some (rooted r w)"
      using s(3) True assms(4) by auto
    have roots: "view_root p (v\<lparr>cold_group_root := r\<rparr>) = r" "view_root r (rooted r w) = r"
      using np assms(5) by (auto simp: view_root_def rooted_def)
    note ga = group_accessors [OF s(2) views(1) roots(1) views(2) cd(2)] group_accessors [OF s(2) views(2) roots(2) views(2) cd(2)]
    have "compact_grouped st' p = Some True"
      using cold_state_view [OF s(2) cd(1)] views(1) np by (simp add: compact_grouped_def)
    moreover have "sf_header_group_root_local st' p = Some r"
      using group_root_view [OF s(2) views(1)] roots(1) by simp
    moreover have "rooted r w = w" if "inline_group_live_count w \<noteq> 0"
      using that by (simp add: rooted_def)
    moreover have "compact_group_live_count st' p = Some 1 \<and> compact_group_head st' p = Some r" if "w = zero_cold"
    proof -
      have "inline_group_live_count (rooted r w) = 1" "inline_group_head (rooted r w) = r"
        using that by (simp_all add: rooted_def zero_cold_def)
      then show ?thesis
        using ga(1,2) np by simp
    qed
    moreover have "compact_group_head st' p = compact_group_head st' r" "compact_group_lock st' p = compact_group_lock st' r"
      using ga(1,4) ga(3,6) [OF roots(2)] by simp_all
    moreover have "\<forall>q. q \<noteq> p \<and> q \<noteq> r \<longrightarrow> cold_view st' q = cold_view st q"
      using s(3) True by simp
    ultimately show ?thesis
      using s(1,2) True views ga(2) by (intro exI [of _ True] exI [of _ st']) simp
  qed
qed

theorem compact_join_group_witness:
  "\<exists>ok st'. compact_set_group_root demo_compact 0x100 0x200 = Some (ok, st') \<and> compact_ok st'"
proof -
  have "(0x100 :: addr) \<noteq> 0x200" "cold_group_root zero_cold = nullptr"
    by (simp_all add: zero_cold_def)
  from compact_join_group [OF demo_compact_ok(1) demo_compact_view this] show ?thesis
    by blast
qed

text \<open>Setting the live count of a group is seen by all its members.\<close>

lemma compact_group_count:
  assumes "compact_ok st" "cold_view st p = Some v" "view_root p v = r" "cold_view st r = Some w" "view_root r w = r"
    "1 < n" "compact_set_group_live_count st p n = Some (True, st')" "cold_view st q = Some u" "view_root q u = r"
  shows "compact_group_live_count st' q = Some n" "compact_group_dead st' q = Some False"
proof -
  obtain c where s: "compact_ok st'" "has_cold st' r c" "cold_view st' = (cold_view st)(r \<mapsto> counted r n (rooted r w))"
    "hot_view st' r = map_option (mark False) (hot_view st r)"
  proof -
    have n: "n \<noteq> 0" "\<not> n \<le> 1"
      using assms(6) by auto
    obtain st1 where "compact_set_group_live_count st p n = Some (True, st1) \<and> compact_ok st1
        \<and> hot_view st1 r = map_option (mark False) (hot_view st r) \<and> (\<exists>c. has_cold st1 r c)
        \<and> cold_view st1 = (cold_view st)(r \<mapsto> counted r n (rooted r w))"
      using set_count_view [OF assms(1-5), of n] assms(7) n by auto
    then show thesis
      using assms(7) that by auto
  qed
  have r': "cold_view st' r = Some (counted r n (rooted r w))" "view_root r (counted r n (rooted r w)) = r"
    using s(3) assms(5) by (auto simp: view_root_def counted_def rooted_def split: if_splits)
  obtain u' where u: "cold_view st' q = Some u'" "view_root q u' = r"
    using s(3) assms(4,8,9) r' by (cases "q = r") auto
  have n: "inline_group_live_count (counted r n (rooted r w)) = n" "inline_group_dead (counted r n (rooted r w)) = 0" "n \<noteq> 0"
    using assms(6) by (auto simp: counted_def)
  show "compact_group_live_count st' q = Some n"
    using group_accessors(2) [OF s(1) u r'(1) s(2)] n by simp
  obtain h where h: "cm_hdrs st' r = Some h"
    using s(2) by (auto simp: has_cold_def split: option.splits)
  have "ch_aux_flags h AND SF_OBJ_AUX_FLAG_GROUP_DEAD = 0"
    using s(4) h by (cases "hot_view st r") (auto simp: hot_view_def mark_def and.assoc dest!: arg_cong [of _ _ ch_aux_flags])
  then show "compact_group_dead st' q = Some False"
    using group_root_view [OF s(1) u(1)] u(2) h root_cold [OF s(1) r' r'(1)] cold_state_view [OF s(1,2)] r'(1) n
      compact_ok_null [OF s(1) u(1)] by (simp add: compact_group_dead_def)
qed

text \<open>C34: In the compact layout a new object is put before the others of its bucket in the live table only if its cold state
  can be allocated; when that allocation fails, the bucket holds the new object alone, and every other live object in it is
  lost to the runtime.\<close>

theorem compact_live_bucket:
  assumes "compact_ok st" "cold_view st p = Some v" "cold_live_next v = nullptr"
    "segment (compact_live_cell st) (cm_buckets st b) ps nullptr" "p \<notin> set ps"
  shows "\<exists>st'. compact_register_live st b p = Some st' \<and> compact_ok st'
    \<and> segment (compact_live_cell st') (cm_buckets st' b) (if can_store st p then p # ps else [p]) nullptr
    \<and> (\<forall>b' qs. b' \<noteq> b \<longrightarrow> p \<notin> set qs \<longrightarrow> segment (compact_live_cell st) (cm_buckets st b') qs nullptr \<longrightarrow>
         segment (compact_live_cell st') (cm_buckets st' b') qs nullptr)"
proof -
  obtain st' where s: "compact_register_live st b p = Some st'" "compact_ok st'" "cm_buckets st' = (cm_buckets st)(b := p)"
    "cold_view st' = (if can_store st p then (cold_view st)(p \<mapsto> v\<lparr>cold_live_next := cm_buckets st b\<rparr>) else cold_view st)"
    using register_live_view [OF assms(1-3)] by blast
  have cell: "compact_live_cell st' = (if can_store st p then (compact_live_cell st)(p \<mapsto> cm_buckets st b) else compact_live_cell st)"
    using s(4) by (auto simp: compact_live_cell_def fun_eq_iff)
  have "compact_live_cell st p = Some nullptr"
    using assms(2,3) by (simp add: compact_live_cell_def)
  then show ?thesis
    using s(1,2,3) cell assms(4,5) compact_ok_null [OF assms(1,2)] by (intro exI [of _ st']) simp
qed

theorem compact_live_bucket_witness:
  "\<exists>st'. compact_register_live (demo_compact\<lparr>cm_callocs := [nullptr]\<rparr>) 3 0x100 = Some st'
     \<and> segment (compact_live_cell st') (cm_buckets st' 3) [0x100] nullptr"
proof -
  let ?st = "demo_compact\<lparr>cm_callocs := [nullptr]\<rparr>"
  have v: "cold_view ?st 0x100 = Some zero_cold" "cold_live_next zero_cold = nullptr"
    by (simp_all add: demo_compact_def cold_view_def zero_cold_def Let_def)
  have seg: "segment (compact_live_cell ?st) (cm_buckets ?st 3) [0x200] nullptr" "0x100 \<notin> set [0x200 :: addr]"
    by (simp_all add: demo_compact_def compact_live_cell_def cold_view_def zero_cold_def Let_def)
  have "\<not> can_store ?st 0x100"
    unfolding can_store_def demo_compact_no_cold by simp
  then have "(if can_store ?st 0x100 then 0x100 # [0x200] else [0x100]) = [0x100]"
    by simp
  note one = this
  obtain st' where "compact_register_live ?st 3 0x100 = Some st'"
    "segment (compact_live_cell st') (cm_buckets st' 3) (if can_store ?st 0x100 then 0x100 # [0x200] else [0x100]) nullptr"
    using compact_live_bucket [OF demo_compact_ok(2) v seg] by blast
  then show ?thesis
    unfolding one by blast
qed

end
