(* ===== verification/SF_Inline.thy ===== *)
theory SF_Inline
  imports SF_Compact SF_Objects
begin

unbundle bit_operations_syntax

text \<open>
  Value objects with an inline header (\<open>SF_RUNTIME_INLINE_VALUE_STORAGE = 1\<close>, which needs compact headers, here with
  generic metadata and exceptions; \<open>Runtime/src/object-header.c\<close>, \<open>loader.c\<close>, \<open>arc.c\<close>): an eligible value object in a slot of its
  parent has a shorter header, without auxiliary flags and without a cold state, but with the address of its parent, whose
  lowest bit marks such a header.  The runtime passes both kinds of headers around as \<open>SFObjHeader_t *\<close>.
\<close>

section \<open>State\<close>

record SFInlineValueHeader =
  ih_magic :: u64
  ih_refcount :: u32
  ih_state :: u32
  ih_flags :: u32
  ih_alloc_size :: u32
  ih_reserved :: u32
  ih_class_flags :: u32
  ih_tagged_parent :: u64
  ih_generic_type_class :: addr

definition sizeof_compact_header :: u64 where "sizeof_compact_header = 48"

definition sizeof_inline_header :: u64 where "sizeof_inline_header = 48"

text \<open>
  \<open>im_hdrs\<close> holds the ordinary headers, \<open>im_values\<close> the headers in value slots.  \<open>im_live\<close> are the lists of
  \<open>g_inline_live_buckets\<close> as pairs of object and header, \<open>im_entry_callocs\<close> says which of the coming allocations of
  entries succeed, and \<open>im_metadata\<close> are the objects with exception metadata.
\<close>

record inline_mem =
  im_hdrs :: compact_mem
  im_values :: "addr \<rightharpoonup> SFInlineValueHeader"
  im_words :: "addr \<rightharpoonup> u64"
  im_live :: "nat \<Rightarrow> (addr \<times> addr) list"
  im_entry_callocs :: "bool list"
  im_metadata :: "addr list"
  im_frees :: "(addr \<times> addr \<times> u64) list"

definition write_value :: "inline_mem \<Rightarrow> addr \<Rightarrow> (SFInlineValueHeader \<Rightarrow> SFInlineValueHeader) \<Rightarrow> inline_mem option" where
  "write_value st p f = map_option (\<lambda>h. st\<lparr>im_values := (im_values st)(p \<mapsto> f h)\<rparr>) (im_values st p)"

section \<open>Two kinds of headers behind one pointer\<close>

definition sf_inline_value_tagged_parent :: "addr \<Rightarrow> u64" where
  "sf_inline_value_tagged_parent par = par OR 1"

text \<open>For an ordinary header the word read as the tagged parent begins with the auxiliary flags.\<close>

definition sf_header_is_inline_value_prefix :: "inline_mem \<Rightarrow> addr \<Rightarrow> bool option" where
  "sf_header_is_inline_value_prefix st hdr =
     (if hdr = nullptr then Some False
      else case im_values st hdr of
        Some h \<Rightarrow> Some (ih_flags h AND SF_OBJ_FLAG_INLINE_VALUE \<noteq> 0 \<and> ih_tagged_parent h AND 1 \<noteq> 0)
      | None \<Rightarrow> map_option (\<lambda>h. ch_flags h AND SF_OBJ_FLAG_INLINE_VALUE \<noteq> 0 \<and> ch_aux_flags h AND 1 \<noteq> 0)
          (cm_hdrs (im_hdrs st) hdr))"

definition inline_header_object :: "inline_mem \<Rightarrow> addr \<Rightarrow> addr option" where
  "inline_header_object st hdr =
     (if hdr = nullptr then Some nullptr
      else map_option (\<lambda>p. hdr + (if p then sizeof_inline_header else sizeof_compact_header))
        (sf_header_is_inline_value_prefix st hdr))"

definition sf_inline_value_parent :: "inline_mem \<Rightarrow> addr \<Rightarrow> addr option" where
  "sf_inline_value_parent st hdr = map_option (\<lambda>h. ih_tagged_parent h AND NOT 1) (im_values st hdr)"

text \<open>
  The auxiliary flags (\<open>abi.h\<close>) are 32 bits at offset 32 of a header.  In an inline header that is the lower half of
  the tagged parent.
\<close>

definition inline_aux_flags :: "inline_mem \<Rightarrow> addr \<Rightarrow> u32 option" where
  "inline_aux_flags st hdr =
     (if hdr = nullptr then Some 0
      else case im_values st hdr of Some h \<Rightarrow> Some (ucast (ih_tagged_parent h))
        | None \<Rightarrow> map_option ch_aux_flags (cm_hdrs (im_hdrs st) hdr))"

definition inline_set_aux_flags :: "inline_mem \<Rightarrow> addr \<Rightarrow> u32 \<Rightarrow> inline_mem option" where
  "inline_set_aux_flags st hdr aux =
     (if hdr = nullptr then Some st
      else case im_values st hdr of
        Some h \<Rightarrow> write_value st hdr (\<lambda>h. h\<lparr>ih_tagged_parent := (ih_tagged_parent h AND NOT (mask 32)) OR ucast aux\<rparr>)
      | None \<Rightarrow> map_option (\<lambda>m. st\<lparr>im_hdrs := m\<rparr>) (write_ch (im_hdrs st) hdr (\<lambda>h. h\<lparr>ch_aux_flags := aux\<rparr>)))"

definition inline_clear_aux_flags :: "inline_mem \<Rightarrow> addr \<Rightarrow> u32 \<Rightarrow> inline_mem option" where
  "inline_clear_aux_flags st hdr aux = Option.bind (inline_aux_flags st hdr) (\<lambda>f. inline_set_aux_flags st hdr (f AND NOT aux))"

definition inline_has_aux_flag :: "inline_mem \<Rightarrow> addr \<Rightarrow> u32 \<Rightarrow> bool option" where
  "inline_has_aux_flag st hdr aux = map_option (\<lambda>f. f AND aux \<noteq> 0) (inline_aux_flags st hdr)"

section \<open>Accessors\<close>

text \<open>The cold state of a header.  To read it from an inline header would be to read behind that header.\<close>

definition inline_cold_state :: "inline_mem \<Rightarrow> addr \<Rightarrow> addr option" where
  "inline_cold_state st hdr = do {
     prefix \<leftarrow> sf_header_is_inline_value_prefix st hdr;
     if prefix then Some nullptr
     else (case im_values st hdr of
         Some h \<Rightarrow> if ih_flags h AND SF_OBJ_FLAG_HAS_COLD \<noteq> 0 then None else Some nullptr
       | None \<Rightarrow> sf_header_cold_state (im_hdrs st) hdr)
   }"

definition inline_read :: "(SFObjColdState \<Rightarrow> addr) \<Rightarrow> inline_mem \<Rightarrow> addr \<Rightarrow> addr option" where
  "inline_read f st hdr = do {
     cold \<leftarrow> inline_cold_state st hdr;
     if cold = nullptr then Some nullptr else map_option f (cm_colds (im_hdrs st) cold)
   }"

definition lift_compact :: "(compact_mem \<Rightarrow> (bool \<times> compact_mem) option) \<Rightarrow> inline_mem \<Rightarrow> (bool \<times> inline_mem) option" where
  "lift_compact f st = map_option (\<lambda>(ok, m). (ok, st\<lparr>im_hdrs := m\<rparr>)) (f (im_hdrs st))"

definition inline_live_next :: "inline_mem \<Rightarrow> addr \<Rightarrow> addr option" where
  "inline_live_next st hdr = inline_read cold_live_next st hdr"

definition inline_set_live_next :: "inline_mem \<Rightarrow> addr \<Rightarrow> addr \<Rightarrow> inline_mem option" where
  "inline_set_live_next st hdr nxt = do {
     prefix \<leftarrow> sf_header_is_inline_value_prefix st hdr;
     if prefix then Some st
     else if nxt = nullptr then do { cold \<leftarrow> inline_cold_state st hdr;
       if cold = nullptr then Some st else map_option (\<lambda>m. st\<lparr>im_hdrs := m\<rparr>) (compact_set_live_next (im_hdrs st) hdr nxt) }
     else map_option (\<lambda>m. st\<lparr>im_hdrs := m\<rparr>) (compact_set_live_next (im_hdrs st) hdr nxt)
   }"

definition inline_parent :: "inline_mem \<Rightarrow> addr \<Rightarrow> addr option" where
  "inline_parent st hdr = do {
     prefix \<leftarrow> sf_header_is_inline_value_prefix st hdr;
     if prefix then sf_inline_value_parent st hdr else inline_read cold_parent st hdr
   }"

definition inline_set_parent :: "inline_mem \<Rightarrow> addr \<Rightarrow> addr \<Rightarrow> (bool \<times> inline_mem) option" where
  "inline_set_parent st hdr par =
     (if hdr = nullptr then Some (False, st)
      else do {
        prefix \<leftarrow> sf_header_is_inline_value_prefix st hdr;
        if prefix then map_option (\<lambda>st. (True, st)) (write_value st hdr (\<lambda>h. h\<lparr>ih_tagged_parent := sf_inline_value_tagged_parent par\<rparr>))
        else lift_compact (\<lambda>m. sf_header_set_parent_local m hdr par) st
      })"

definition inline_group_root :: "inline_mem \<Rightarrow> addr \<Rightarrow> addr option" where
  "inline_group_root st hdr =
     (if hdr = nullptr then Some nullptr
      else do {
        prefix \<leftarrow> sf_header_is_inline_value_prefix st hdr;
        if prefix then Some hdr
        else map_option (\<lambda>r. if r \<noteq> nullptr then r else hdr) (inline_read cold_group_root st hdr)
      })"

definition inline_group_next :: "inline_mem \<Rightarrow> addr \<Rightarrow> addr option" where
  "inline_group_next st hdr = inline_read cold_group_next st hdr"

definition inline_set_group_next :: "inline_mem \<Rightarrow> addr \<Rightarrow> addr \<Rightarrow> (bool \<times> inline_mem) option" where
  "inline_set_group_next st hdr nxt =
     (if hdr = nullptr then Some (False, st)
      else do {
        prefix \<leftarrow> sf_header_is_inline_value_prefix st hdr;
        if prefix then Some (nxt = nullptr, st) else lift_compact (\<lambda>m. sf_header_set_group_next_local m hdr nxt) st
      })"

definition inline_init_group_root :: "inline_mem \<Rightarrow> addr \<Rightarrow> (bool \<times> inline_mem) option" where
  "inline_init_group_root st hdr =
     (if hdr = nullptr then Some (False, st)
      else do {
        prefix \<leftarrow> sf_header_is_inline_value_prefix st hdr;
        if prefix then Some (True, st) else lift_compact (\<lambda>m. compact_init_group_root m hdr) st
      })"

definition inline_grouped :: "inline_mem \<Rightarrow> addr \<Rightarrow> bool option" where
  "inline_grouped st hdr =
     (if hdr = nullptr then Some False
      else do {
        prefix \<leftarrow> sf_header_is_inline_value_prefix st hdr;
        if prefix then Some False
        else do {
          cold \<leftarrow> inline_cold_state st hdr;
          if cold = nullptr then Some False else compact_grouped (im_hdrs st) hdr
        }
      })"

definition inline_group_lock :: "inline_mem \<Rightarrow> addr \<Rightarrow> addr option" where
  "inline_group_lock st hdr = do {
     root \<leftarrow> inline_group_root st hdr;
     if root = nullptr then Some nullptr
     else do {
       prefix \<leftarrow> sf_header_is_inline_value_prefix st root;
       if prefix then Some nullptr
       else do {
         cold \<leftarrow> inline_cold_state st root;
         if cold = nullptr then Some nullptr else compact_group_lock (im_hdrs st) root
       }
     }
   }"

definition inline_destroy_sidecar :: "inline_mem \<Rightarrow> addr \<Rightarrow> inline_mem option" where
  "inline_destroy_sidecar st hdr =
     (if hdr = nullptr then Some st
      else do {
        prefix \<leftarrow> sf_header_is_inline_value_prefix st hdr;
        if prefix then Some st
        else do {
          cold \<leftarrow> inline_cold_state st hdr;
          if cold = nullptr then Some st
          else map_option (\<lambda>m. st\<lparr>im_hdrs := m\<rparr>) (compact_destroy_sidecar (im_hdrs st) hdr)
        }
      })"

section \<open>The table of live objects\<close>

partial_function (option) inline_live_search :: "inline_mem \<Rightarrow> addr \<Rightarrow> addr \<Rightarrow> addr option" where
  "inline_live_search st obj hdr =
     (if hdr = nullptr then Some nullptr
      else if hdr + sizeof_compact_header = obj then Some hdr
      else Option.bind (inline_live_next st hdr) (inline_live_search st obj))"

declare inline_live_search.simps [code]

definition inline_header_from_object :: "inline_mem \<Rightarrow> addr \<Rightarrow> addr option" where
  "inline_header_from_object st obj =
     (if obj = nullptr \<or> sf_is_tagged_pointer obj then Some nullptr
      else let bucket = live_object_bucket_index obj in do {
        hdr \<leftarrow> inline_live_search st obj (cm_buckets (im_hdrs st) bucket);
        Some (if hdr \<noteq> nullptr then hdr
              else case find (\<lambda>e. fst e = obj) (im_live st bucket) of None \<Rightarrow> nullptr | Some e \<Rightarrow> snd e)
      })"

definition inline_register_live :: "inline_mem \<Rightarrow> addr \<Rightarrow> inline_mem option" where
  "inline_register_live st hdr =
     (if hdr = nullptr then Some st
      else do {
        obj \<leftarrow> inline_header_object st hdr;
        let bucket = live_object_bucket_index obj;
        prefix \<leftarrow> sf_header_is_inline_value_prefix st hdr;
        if prefix
        then (let ok = (case im_entry_callocs st of [] \<Rightarrow> False | b # _ \<Rightarrow> b); st = st\<lparr>im_entry_callocs := tl (im_entry_callocs st)\<rparr> in
              Some (if ok then st\<lparr>im_live := (im_live st)(bucket := (obj, hdr) # im_live st bucket)\<rparr> else st))
        else do {
          st \<leftarrow> inline_set_live_next st hdr (cm_buckets (im_hdrs st) bucket);
          Some (st\<lparr>im_hdrs := (im_hdrs st)\<lparr>cm_buckets := (cm_buckets (im_hdrs st))(bucket := hdr)\<rparr>\<rparr>)
        }
      })"

text \<open>The entry of a header is removed from a list of entries.\<close>

fun remove_entry :: "addr \<Rightarrow> (addr \<times> addr) list \<Rightarrow> (addr \<times> addr) list" where
  "remove_entry hdr [] = []"
| "remove_entry hdr (e # es) = (if snd e = hdr then es else e # remove_entry hdr es)"

partial_function (option) inline_unregister_loop :: "inline_mem \<Rightarrow> addr \<Rightarrow> nat \<Rightarrow> addr \<Rightarrow> addr \<Rightarrow> inline_mem option" where
  "inline_unregister_loop st hdr bucket prev current =
     (if current = nullptr then Some st
      else if current = hdr then
        Option.bind (inline_live_next st hdr) (\<lambda>nxt.
        Option.bind (if prev = nullptr then Some (st\<lparr>im_hdrs := (im_hdrs st)\<lparr>cm_buckets := (cm_buckets (im_hdrs st))(bucket := nxt)\<rparr>\<rparr>)
                     else inline_set_live_next st prev nxt) (\<lambda>st.
        inline_set_live_next st hdr nullptr))
      else Option.bind (inline_live_next st current) (\<lambda>nxt. inline_unregister_loop st hdr bucket current nxt))"

declare inline_unregister_loop.simps [code]

definition inline_unregister_live :: "inline_mem \<Rightarrow> addr \<Rightarrow> inline_mem option" where
  "inline_unregister_live st hdr =
     (if hdr = nullptr then Some st
      else do {
        obj \<leftarrow> inline_header_object st hdr;
        let bucket = live_object_bucket_index obj;
        prefix \<leftarrow> sf_header_is_inline_value_prefix st hdr;
        if prefix then Some (st\<lparr>im_live := (im_live st)(bucket := remove_entry hdr (im_live st bucket))\<rparr>)
        else inline_unregister_loop st hdr bucket nullptr (cm_buckets (im_hdrs st) bucket)
      })"

text \<open>The allocator of an inline value is the one of its parent, which may be an inline value again.\<close>

partial_function (option) inline_allocator :: "inline_mem \<Rightarrow> addr \<Rightarrow> addr option" where
  "inline_allocator st hdr =
     (if hdr = nullptr then Some nullptr
      else Option.bind (sf_header_is_inline_value_prefix st hdr) (\<lambda>prefix.
        if prefix then
          Option.bind (sf_inline_value_parent st hdr) (\<lambda>par.
          Option.bind (inline_header_from_object st par) (\<lambda>parent_hdr.
          Option.bind (inline_allocator st parent_hdr) (\<lambda>a.
          Some (if a \<noteq> nullptr then a else cm_default_allocator (im_hdrs st)))))
        else inline_read cold_allocator st hdr))"

declare inline_allocator.simps [code]

text \<open>The generic class of an object.\<close>

definition inline_generic_type_class :: "inline_mem \<Rightarrow> addr \<Rightarrow> addr option" where
  "inline_generic_type_class st hdr =
     (if hdr = nullptr then Some nullptr
      else do {
        prefix \<leftarrow> sf_header_is_inline_value_prefix st hdr;
        if prefix then map_option ih_generic_type_class (im_values st hdr) else inline_read cold_generic_type_class st hdr
      })"

definition inline_set_generic_type_class :: "inline_mem \<Rightarrow> addr \<Rightarrow> addr \<Rightarrow> (bool \<times> inline_mem) option" where
  "inline_set_generic_type_class st hdr cls =
     (if hdr = nullptr then Some (False, st)
      else do {
        prefix \<leftarrow> sf_header_is_inline_value_prefix st hdr;
        if prefix then map_option (\<lambda>st. (True, st)) (write_value st hdr (\<lambda>h. h\<lparr>ih_generic_type_class := cls\<rparr>))
        else lift_compact (\<lambda>m. sf_header_set_generic_type_class_local m hdr cls) st
      })"

definition sf_object_set_generic_type_class :: "inline_mem \<Rightarrow> addr \<Rightarrow> addr \<Rightarrow> inline_mem option" where
  "sf_object_set_generic_type_class st obj cls =
     (if obj = nullptr \<or> sf_is_tagged_pointer obj then Some st
      else do {
        hdr \<leftarrow> inline_header_from_object st obj;
        if hdr \<noteq> nullptr then map_option snd (inline_set_generic_type_class st hdr cls) else Some st
      })"

definition sf_object_generic_type_class :: "inline_mem \<Rightarrow> addr \<Rightarrow> addr option" where
  "sf_object_generic_type_class st obj =
     (if obj = nullptr \<or> sf_is_tagged_pointer obj then Some nullptr
      else do {
        hdr \<leftarrow> inline_header_from_object st obj;
        if hdr \<noteq> nullptr then inline_generic_type_class st hdr else Some nullptr
      })"

section \<open>A value object comes and goes\<close>

definition SF_CLASS_META_FLAG_INLINE_VALUE_ELIGIBLE :: u32 where "SF_CLASS_META_FLAG_INLINE_VALUE_ELIGIBLE = 8"

text \<open>The header that a value object gets, with the parts written by the setters of \<open>abi.h\<close>.\<close>

definition initial_inline_header :: "SFValueSlot \<Rightarrow> u32 \<Rightarrow> addr \<Rightarrow> SFInlineValueHeader" where
  "initial_inline_header slot oflags par =
     \<lparr>ih_magic = SF_OBJ_HEADER_MAGIC, ih_refcount = 1, ih_state = SF_OBJ_STATE_LIVE,
      ih_flags = ((SF_OBJ_FLAG_EMBEDDED OR SF_OBJ_FLAG_INLINE_VALUE) AND NOT SF_OBJ_COOKIE_MASK) OR push_bit 16 SF_OBJ_HEADER_COOKIE_LIVE,
      ih_alloc_size = storage_size slot, ih_reserved = owner_offset slot, ih_class_flags = oflags,
      ih_tagged_parent = sf_inline_value_tagged_parent par, ih_generic_type_class = nullptr\<rparr>"

fun inline_alloc_in_slots ::
  "loader \<Rightarrow> inline_mem \<Rightarrow> addr \<Rightarrow> u32 \<Rightarrow> addr \<Rightarrow> u64 \<Rightarrow> SFValueSlot list \<Rightarrow> (addr \<times> inline_mem) option" where
  "inline_alloc_in_slots ld st cls oflags par required [] = Some (nullptr, st)"
| "inline_alloc_in_slots ld st cls oflags par required (slot # slots) =
     (case sf_value_slot_is_compatible ld slot cls required of None \<Rightarrow> None
      | Some False \<Rightarrow> inline_alloc_in_slots ld st cls oflags par required slots
      | Some True \<Rightarrow>
          (let owner_slot = par + ucast (owner_offset slot); hdr = par + ucast (storage_offset slot) in
           case im_words st owner_slot of None \<Rightarrow> None
           | Some owned \<Rightarrow>
               if owned \<noteq> nullptr then inline_alloc_in_slots ld st cls oflags par required slots
               else case im_values st hdr of None \<Rightarrow> None
               | Some h \<Rightarrow>
                   if ih_state h = SF_OBJ_STATE_LIVE then inline_alloc_in_slots ld st cls oflags par required slots
                   else do {
                     let st = st\<lparr>im_values := (im_values st)(hdr \<mapsto> initial_inline_header slot oflags par)\<rparr>;
                     obj \<leftarrow> inline_header_object st hdr;
                     st \<leftarrow> inline_register_live (st\<lparr>im_words := (im_words st)(obj \<mapsto> cls)\<rparr>) hdr;
                     Some (obj, st\<lparr>im_words := (im_words st)(owner_slot \<mapsto> obj)\<rparr>)
                   }))"

definition inline_embedded_value_storage_size :: "u64 \<Rightarrow> u64" where
  "inline_embedded_value_storage_size value_size = align_up (sizeof_inline_header + value_size) sizeof_ptr"

definition inline_alloc_embedded_value_object ::
  "loader \<Rightarrow> inline_mem \<Rightarrow> addr \<Rightarrow> SFClassMetaEntry option \<Rightarrow> addr \<Rightarrow> (addr \<times> inline_mem) option" where
  "inline_alloc_embedded_value_object ld st cls meta par = do {
     parent_cls \<leftarrow> sf_object_class (l_tags ld) (im_words st) par;
     let slots = sf_value_slots_for_class (l_value_slots ld) parent_cls;
     case meta of None \<Rightarrow> Some (nullptr, st)
     | Some e \<Rightarrow>
         if slots = [] \<or> mt_flags e AND SF_CLASS_META_FLAG_INLINE_VALUE_ELIGIBLE = 0 then Some (nullptr, st)
         else inline_alloc_in_slots ld st cls (sf_class_meta_to_object_flags meta) par
           (inline_embedded_value_storage_size (ucast (mt_instance_size e))) slots
   }"

text \<open>Exception metadata, as far as disposal is concerned (\<open>exceptions/exceptions.c\<close>).\<close>

definition inline_clear_metadata :: "inline_mem \<Rightarrow> addr \<Rightarrow> inline_mem option" where
  "inline_clear_metadata st obj =
     (if obj = nullptr then Some st
      else do {
        hdr \<leftarrow> inline_header_from_object st obj;
        st \<leftarrow> (if hdr \<noteq> nullptr then inline_clear_aux_flags st hdr SF_OBJ_AUX_FLAG_HAS_EXCEPTION_METADATA else Some st);
        Some (st\<lparr>im_metadata := remove1 obj (im_metadata st)\<rparr>)
      })"

definition inline_clear_owner_slot :: "inline_mem \<Rightarrow> addr \<Rightarrow> addr \<Rightarrow> inline_mem option" where
  "inline_clear_owner_slot st hdr obj = do {
     h \<leftarrow> im_values st hdr;
     if obj = nullptr \<or> ih_flags h AND SF_OBJ_FLAG_EMBEDDED = 0 then Some st
     else do {
       par \<leftarrow> inline_parent st hdr;
       if par = nullptr then Some st
       else let owner_slot = par + ucast (ih_reserved h) in do {
         w \<leftarrow> im_words st owner_slot;
         Some (if w = obj then st\<lparr>im_words := (im_words st)(owner_slot \<mapsto> nullptr)\<rparr> else st)
       }
     }
   }"

text \<open>
  \<open>sf_object_dispose\<close> for an object with a header in a value slot.  Such a header never has a group lock, so the branch
  of grouped objects does not arise (and is a fault here).  The cache of the last header is left out, as retains and releases are.
\<close>

definition dispose_inline_value :: "inline_mem \<Rightarrow> addr \<Rightarrow> inline_mem option" where
  "dispose_inline_value st obj = do {
     hdr \<leftarrow> inline_header_from_object st obj;
     if hdr = nullptr then Some st
     else do {
       h \<leftarrow> im_values st hdr;
       if ih_flags h AND SF_OBJ_FLAG_IMMORTAL \<noteq> 0 then Some st
       else do {
         meta \<leftarrow> inline_has_aux_flag st hdr SF_OBJ_AUX_FLAG_HAS_EXCEPTION_METADATA;
         st \<leftarrow> (if meta then inline_clear_metadata st obj else Some st);
         h \<leftarrow> im_values st hdr;
         if ih_flags h AND SF_OBJ_FLAG_EMBEDDED = 0 then None
         else do {
           lock \<leftarrow> inline_group_lock st hdr;
           grouped \<leftarrow> inline_grouped st hdr;
           if grouped \<and> lock \<noteq> nullptr then None
           else do {
             a \<leftarrow> inline_allocator st hdr;
             if ih_state h \<noteq> SF_OBJ_STATE_LIVE then Some st
             else do {
               st \<leftarrow> inline_clear_owner_slot st hdr obj;
               st \<leftarrow> inline_unregister_live st hdr;
               st \<leftarrow> write_value st hdr (\<lambda>h. h\<lparr>ih_state := SF_OBJ_STATE_DISPOSED, ih_flags := ih_flags h AND NOT SF_OBJ_COOKIE_MASK\<rparr>);
               st \<leftarrow> inline_set_aux_flags st hdr 0;
               st \<leftarrow> write_value st hdr (\<lambda>h. h\<lparr>ih_magic := 0\<rparr>);
               inline_destroy_sidecar st hdr
             }
           }
         }
       }
     }
   }"

section \<open>The tag bit\<close>

lemma tag_set: "sf_inline_value_tagged_parent par AND 1 \<noteq> 0"
proof -
  have "sf_inline_value_tagged_parent par AND 1 = 1"
    unfolding sf_inline_value_tagged_parent_def by (rule bit_word_eqI) (auto simp: bit_simps bit_1_iff)
  then show ?thesis by simp
qed

lemma tag_removed: "par AND 1 = 0 \<Longrightarrow> sf_inline_value_tagged_parent par AND NOT 1 = (par :: u64)"
proof -
  assume "par AND 1 = 0"
  then have "\<not> bit (par AND 1) 0" by simp
  then have "\<not> bit par 0" by (simp add: bit_and_iff bit_1_iff)
  then show ?thesis
    unfolding sf_inline_value_tagged_parent_def
    by (intro bit_word_eqI) (auto simp: bit_simps bit_1_iff intro!: gr0I)
qed

lemma aux_half_set: "(ucast (sf_inline_value_tagged_parent par) :: u32) AND 1 \<noteq> 0"
proof -
  have "(ucast (sf_inline_value_tagged_parent par) :: u32) AND 1 = 1"
    unfolding sf_inline_value_tagged_parent_def by (rule bit_word_eqI) (auto simp: bit_simps bit_1_iff)
  then show ?thesis by simp
qed

lemma aux_half_clear: "(w AND NOT (mask 32)) OR ucast ((ucast w :: u32) AND NOT 1) = w AND NOT (1 :: u64)"
  by (rule bit_word_eqI) (auto simp: bit_simps bit_1_iff)

lemma untagged: "(w AND NOT 1) AND 1 = (0 :: u64)"
  by (rule bit_word_eqI) (auto simp: bit_simps)

section \<open>Live tables with both kinds of headers\<close>

definition ordinary :: "inline_mem \<Rightarrow> addr \<Rightarrow> bool" where
  "ordinary st p \<longleftrightarrow> im_values st p = None
     \<and> (case cm_hdrs (im_hdrs st) p of None \<Rightarrow> False | Some h \<Rightarrow> ch_flags h AND SF_OBJ_FLAG_INLINE_VALUE = 0)"

definition bucket_ok :: "inline_mem \<Rightarrow> nat \<Rightarrow> addr list \<Rightarrow> bool" where
  "bucket_ok st b ps \<longleftrightarrow> compact_ok (im_hdrs st)
     \<and> segment (compact_live_cell (im_hdrs st)) (cm_buckets (im_hdrs st) b) ps nullptr \<and> (\<forall>p\<in>set ps. ordinary st p)"

lemma ordinary_next:
  assumes "compact_ok (im_hdrs st)" "ordinary st p"
  shows "inline_live_next st p = compact_live_cell (im_hdrs st) p"
proof -
  obtain h where h: "cm_hdrs (im_hdrs st) p = Some h" "ch_flags h AND SF_OBJ_FLAG_INLINE_VALUE = 0" "im_values st p = None"
    using assms(2) by (auto simp: ordinary_def split: option.splits)
  obtain v where v: "cold_view (im_hdrs st) p = Some v"
    using cold_view_mapped [OF assms(1) h(1)] by blast
  have "sf_header_is_inline_value_prefix st p = Some False"
    using h compact_ok_null [OF assms(1) v] by (simp add: sf_header_is_inline_value_prefix_def)
  then have "inline_live_next st p = compact_live_next (im_hdrs st) p"
    using h(3) by (simp add: inline_live_next_def inline_read_def inline_cold_state_def compact_live_next_def read_cold_def)
  then show ?thesis
    using live_next_view [OF assms(1) v] v by (simp add: compact_live_cell_def)
qed

lemma search_misses:
  assumes "compact_ok (im_hdrs st)" "segment (compact_live_cell (im_hdrs st)) q ps nullptr" "\<forall>p\<in>set ps. ordinary st p"
    "obj - sizeof_compact_header \<notin> set ps"
  shows "inline_live_search st obj q = Some nullptr"
  using assms(2-4)
proof (induction ps arbitrary: q)
  case Nil
  then show ?case by (simp add: inline_live_search.simps)
next
  case (Cons p ps)
  obtain r where r: "q = p" "p \<noteq> nullptr" "compact_live_cell (im_hdrs st) p = Some r" "segment (compact_live_cell (im_hdrs st)) r ps nullptr"
    using Cons.prems(1) by (auto split: option.splits)
  have "p + sizeof_compact_header \<noteq> obj"
    using Cons.prems(3) by auto
  then show ?case
    using r Cons ordinary_next [OF assms(1), of p] by (subst inline_live_search.simps) simp
qed

lemma unregister_misses:
  assumes "compact_ok (im_hdrs st)" "segment (compact_live_cell (im_hdrs st)) q ps nullptr" "\<forall>p\<in>set ps. ordinary st p" "hdr \<notin> set ps"
  shows "inline_unregister_loop st hdr b prev q = Some st"
  using assms(2-4)
proof (induction ps arbitrary: q prev)
  case Nil
  then show ?case by (simp add: inline_unregister_loop.simps)
next
  case (Cons p ps)
  obtain r where r: "q = p" "p \<noteq> nullptr" "compact_live_cell (im_hdrs st) p = Some r" "segment (compact_live_cell (im_hdrs st)) r ps nullptr"
    using Cons.prems(1) by (auto split: option.splits)
  moreover have "p \<noteq> hdr" "inline_live_next st p = compact_live_cell (im_hdrs st) p"
    using Cons.prems ordinary_next [OF assms(1), of p] by auto
  ultimately show ?case
    using Cons.IH [of r p] Cons.prems by (subst inline_unregister_loop.simps) simp
qed

text \<open>A value object \<open>obj\<close> with its header at \<open>hdr\<close> in the object \<open>par\<close>, alive and registered.\<close>

definition live_value :: "inline_mem \<Rightarrow> addr \<Rightarrow> addr \<Rightarrow> addr \<Rightarrow> bool" where
  "live_value st obj hdr par \<longleftrightarrow> hdr \<noteq> nullptr \<and> obj = hdr + sizeof_inline_header \<and> obj \<noteq> nullptr \<and> \<not> sf_is_tagged_pointer obj
     \<and> par AND 1 = 0 \<and> find (\<lambda>e. fst e = obj) (im_live st (live_object_bucket_index obj)) = Some (obj, hdr)
     \<and> (case im_values st hdr of None \<Rightarrow> False
        | Some h \<Rightarrow> ih_state h = SF_OBJ_STATE_LIVE \<and> ih_tagged_parent h = sf_inline_value_tagged_parent par
            \<and> ih_flags h AND SF_OBJ_FLAG_INLINE_VALUE \<noteq> 0 \<and> ih_flags h AND SF_OBJ_FLAG_EMBEDDED \<noteq> 0
            \<and> ih_flags h AND SF_OBJ_FLAG_IMMORTAL = 0 \<and> ih_flags h AND SF_OBJ_FLAG_HAS_COLD = 0)"

lemma live_value_found:
  assumes "live_value st obj hdr par" "bucket_ok st (live_object_bucket_index obj) ps"
  shows "inline_header_from_object st obj = Some hdr"
proof -
  have "hdr \<notin> set ps"
    using assms by (auto simp: live_value_def bucket_ok_def ordinary_def split: option.splits)
  moreover have "obj - sizeof_compact_header = hdr"
    using assms(1) by (simp add: live_value_def sizeof_inline_header_def sizeof_compact_header_def)
  ultimately have "inline_live_search st obj (cm_buckets (im_hdrs st) (live_object_bucket_index obj)) = Some nullptr"
    using assms(2) search_misses [of st] unfolding bucket_ok_def by metis
  moreover have "obj \<noteq> nullptr" "\<not> sf_is_tagged_pointer obj"
    "find (\<lambda>e. fst e = obj) (im_live st (live_object_bucket_index obj)) = Some (obj, hdr)"
    using assms(1) unfolding live_value_def by blast+
  ultimately show ?thesis
    by (simp add: inline_header_from_object_def Let_def)
qed

text \<open>A memory that differs in what is not searched.\<close>

lemma found_cong:
  assumes "im_hdrs st' = im_hdrs st" "im_live st' = im_live st"
    "\<And>p. ordinary st p \<Longrightarrow> ordinary st' p" "bucket_ok st (live_object_bucket_index obj) ps" "obj - sizeof_compact_header \<notin> set ps"
  shows "inline_header_from_object st' obj = inline_header_from_object st obj"
proof -
  let ?b = "live_object_bucket_index obj"
  have "inline_live_search st' obj (cm_buckets (im_hdrs st') ?b) = Some nullptr"
    using assms search_misses [of st'] unfolding bucket_ok_def by metis
  moreover have "inline_live_search st obj (cm_buckets (im_hdrs st) ?b) = Some nullptr"
    using assms(4,5) search_misses [of st] unfolding bucket_ok_def by metis
  ultimately show ?thesis
    using assms(2) by (simp add: inline_header_from_object_def Let_def)
qed

lemma value_prefix:
  assumes "live_value st obj hdr par"
  shows "sf_header_is_inline_value_prefix st hdr = Some True" "inline_parent st hdr = Some par"
    "inline_header_object st hdr = Some obj"
  using assms tag_set [of par] tag_removed [of par]
  by (auto simp: live_value_def sf_header_is_inline_value_prefix_def inline_parent_def sf_inline_value_parent_def
      inline_header_object_def split: option.splits)

text \<open>An inline header without its tag is taken for an ordinary header without a cold state.\<close>

lemma untagged_header:
  assumes "im_values st hdr = Some h" "hdr \<noteq> nullptr" "ih_tagged_parent h AND 1 = 0" "ih_flags h AND SF_OBJ_FLAG_HAS_COLD = 0"
  shows "sf_header_is_inline_value_prefix st hdr = Some False" "inline_cold_state st hdr = Some nullptr"
    "inline_header_object st hdr = Some (hdr + sizeof_compact_header)" "inline_parent st hdr = Some nullptr"
    "inline_group_root st hdr = Some hdr" "inline_group_lock st hdr = Some nullptr" "inline_grouped st hdr = Some False"
    "inline_allocator st hdr = Some nullptr" "inline_destroy_sidecar st hdr = Some st"
    "inline_clear_owner_slot st hdr obj = Some st"
proof -
  show p: "sf_header_is_inline_value_prefix st hdr = Some False"
    using assms by (simp add: sf_header_is_inline_value_prefix_def)
  show c: "inline_cold_state st hdr = Some nullptr"
    using p assms by (simp add: inline_cold_state_def)
  show "inline_header_object st hdr = Some (hdr + sizeof_compact_header)" "inline_parent st hdr = Some nullptr"
    and r: "inline_group_root st hdr = Some hdr"
    using p c assms by (simp_all add: inline_header_object_def inline_parent_def inline_read_def inline_group_root_def)
  then show "inline_clear_owner_slot st hdr obj = Some st"
    using assms(1) by (simp add: inline_clear_owner_slot_def)
  show "inline_group_lock st hdr = Some nullptr" "inline_grouped st hdr = Some False" "inline_destroy_sidecar st hdr = Some st"
    using p c r assms by (simp_all add: inline_group_lock_def inline_grouped_def inline_destroy_sidecar_def)
  show "inline_allocator st hdr = Some nullptr"
    using p c assms(2) by (subst inline_allocator.simps) (simp add: inline_read_def)
qed

lemma untagged_not_unregistered:
  assumes "im_values st hdr = Some h" "hdr \<noteq> nullptr" "ih_tagged_parent h AND 1 = 0" "ih_flags h AND SF_OBJ_FLAG_HAS_COLD = 0"
    "bucket_ok st (live_object_bucket_index (hdr + sizeof_compact_header)) ps"
  shows "inline_unregister_live st hdr = Some st"
proof -
  have "hdr \<notin> set ps"
    using assms(1,5) by (auto simp: bucket_ok_def ordinary_def)
  then show ?thesis
    using untagged_header(1,3) [OF assms(1-4)] assms(2,5)
    by (simp add: inline_unregister_live_def bucket_ok_def Let_def unregister_misses [of _ _ ps])
qed

section \<open>Properties\<close>

lemma initial_flags:
  "ih_flags (initial_inline_header slot oflags par) AND SF_OBJ_FLAG_INLINE_VALUE \<noteq> 0"
  "ih_flags (initial_inline_header slot oflags par) AND SF_OBJ_FLAG_EMBEDDED \<noteq> 0"
  "ih_flags (initial_inline_header slot oflags par) AND SF_OBJ_FLAG_IMMORTAL = 0"
  "ih_flags (initial_inline_header slot oflags par) AND SF_OBJ_FLAG_HAS_COLD = 0"
  by (simp_all add: initial_inline_header_def abi_consts)

text \<open>A parent at \<open>0x500\<close> of a class with one slot for values, whose pointer is at \<open>0x508\<close> and whose storage is at \<open>0x510\<close>.\<close>

definition demo_slot :: SFValueSlot where
  "demo_slot = \<lparr>declared_cls = 0x800, owner_offset = 8, storage_offset = 16, storage_size = 64\<rparr>"

definition demo_value_meta :: SFClassMetaEntry where
  "demo_value_meta = empty_meta\<lparr>mt_cls := 0x800, mt_flags := SF_CLASS_META_FLAG_INLINE_VALUE_ELIGIBLE, mt_instance_size := 16\<rparr>"

definition demo_value_loader :: loader where
  "demo_value_loader = (empty_loader Map.empty)\<lparr>l_value_slots := \<lambda>_. \<lparr>ve_cls = 0x700, ve_slots = [demo_slot], ve_owned = True\<rparr>\<rparr>"

definition demo_blank_value :: SFInlineValueHeader where
  "demo_blank_value = \<lparr>ih_magic = 0, ih_refcount = 0, ih_state = 0, ih_flags = 0, ih_alloc_size = 0, ih_reserved = 0,
     ih_class_flags = 0, ih_tagged_parent = 0, ih_generic_type_class = nullptr\<rparr>"

definition demo_inline :: inline_mem where
  "demo_inline = \<lparr>im_hdrs = demo_compact\<lparr>cm_buckets := \<lambda>_. nullptr\<rparr>, im_values = [0x510 \<mapsto> demo_blank_value],
     im_words = [0x500 \<mapsto> 0x700, 0x508 \<mapsto> nullptr], im_live = (\<lambda>_. []), im_entry_callocs = [True], im_metadata = [], im_frees = []\<rparr>"

definition demo_inline_live :: inline_mem where
  "demo_inline_live = demo_inline\<lparr>im_values := [0x510 \<mapsto> initial_inline_header demo_slot 0 0x500],
     im_words := [0x500 \<mapsto> 0x700, 0x508 \<mapsto> 0x540, 0x540 \<mapsto> 0x800], im_live := \<lambda>_. [(0x540, 0x510)]\<rparr>"

lemma demo_inline_bucket: "bucket_ok demo_inline b []" "bucket_ok demo_inline_live b []"
proof -
  have "compact_ok (demo_compact\<lparr>cm_buckets := \<lambda>_. nullptr\<rparr>)"
    unfolding compact_ok_def has_cold_def by (simp add: demo_compact_def Let_def)
  then show "bucket_ok demo_inline b []" "bucket_ok demo_inline_live b []"
    by (simp_all add: bucket_ok_def demo_inline_def demo_inline_live_def)
qed

text \<open>C32: A value object allocated in a slot of its parent is an object: it is found at its address, its header is the one
  in the slot and names the parent, the slot's pointer in the parent refers to it, and its class is the one asked for.\<close>

theorem inline_value_allocated:
  assumes cls: "sf_object_class (l_tags ld) (im_words st) par = Some parent_cls"
    and slots: "sf_value_slots_for_class (l_value_slots ld) parent_cls = slot # slots"
    and meta: "mt_flags e AND SF_CLASS_META_FLAG_INLINE_VALUE_ELIGIBLE \<noteq> 0"
    and fits: "sf_value_slot_is_compatible ld slot cls (inline_embedded_value_storage_size (ucast (mt_instance_size e))) = Some True"
    and owner: "owner = par + ucast (owner_offset slot)" "im_words st owner = Some nullptr"
    and hdr: "hdr = par + ucast (storage_offset slot)" "im_values st hdr = Some h" "ih_state h \<noteq> SF_OBJ_STATE_LIVE" "hdr \<noteq> nullptr"
    and obj: "obj = hdr + sizeof_inline_header" "obj \<noteq> nullptr" "\<not> sf_is_tagged_pointer obj" "obj \<noteq> owner" "par AND 1 = 0"
    and entry: "im_entry_callocs st = True # cs" and table: "bucket_ok st (live_object_bucket_index obj) ps"
  shows "\<exists>st'. inline_alloc_embedded_value_object ld st cls (Some e) par = Some (obj, st')
    \<and> live_value st' obj hdr par \<and> bucket_ok st' (live_object_bucket_index obj) ps
    \<and> inline_header_from_object st' obj = Some hdr \<and> inline_parent st' hdr = Some par
    \<and> sf_object_generic_type_class st' obj = Some nullptr
    \<and> im_words st' owner = Some obj \<and> im_words st' obj = Some cls"
proof -
  let ?h = "initial_inline_header slot (sf_class_meta_to_object_flags (Some e)) par"
  let ?b = "live_object_bucket_index obj"
  define st1 where "st1 = st\<lparr>im_values := (im_values st)(hdr \<mapsto> ?h), im_words := (im_words st)(obj \<mapsto> cls)\<rparr>"
  define st2 where "st2 = st1\<lparr>im_entry_callocs := cs, im_live := (im_live st1)(?b := (obj, hdr) # im_live st1 ?b)\<rparr>"
  define st3 where "st3 = st2\<lparr>im_words := (im_words st2)(owner \<mapsto> obj)\<rparr>"
  have pre: "sf_header_is_inline_value_prefix st' hdr = Some True" if "im_values st' hdr = Some ?h" for st'
    using that hdr(4) initial_flags(1) tag_set [of par]
    by (simp add: sf_header_is_inline_value_prefix_def) (simp add: initial_inline_header_def)
  have ho: "inline_header_object st' hdr = Some obj" if "im_values st' hdr = Some ?h" for st'
    using pre [OF that] hdr(4) obj(1) by (simp add: inline_header_object_def)
  have reg: "inline_register_live st1 hdr = Some st2"
    using pre [of st1] ho [of st1] hdr(4) entry by (simp add: inline_register_live_def st1_def st2_def Let_def)
  have "inline_alloc_embedded_value_object ld st cls (Some e) par = Some (obj, st3)"
    using cls slots meta fits owner hdr(2,3) reg ho [of "st\<lparr>im_values := (im_values st)(hdr \<mapsto> ?h)\<rparr>"]
    by (simp add: inline_alloc_embedded_value_object_def Let_def st3_def flip: hdr(1) owner(1)) (simp add: st1_def)
  moreover have live: "live_value st3 obj hdr par"
    using hdr(4) obj initial_flags [of slot "sf_class_meta_to_object_flags (Some e)" par]
    by (simp add: live_value_def st3_def st2_def st1_def) (simp add: initial_inline_header_def)
  moreover have table3: "bucket_ok st3 ?b ps"
    using table hdr(2) by (auto simp: bucket_ok_def ordinary_def st3_def st2_def st1_def)
  moreover have found: "inline_header_from_object st3 obj = Some hdr"
    by (rule live_value_found [OF live table3])
  moreover have "inline_parent st3 hdr = Some par"
    by (rule value_prefix(2) [OF live])
  moreover have "sf_object_generic_type_class st3 obj = Some nullptr"
    using found obj(2,3) hdr(4) value_prefix(1) [OF live]
    by (simp add: sf_object_generic_type_class_def inline_generic_type_class_def)
      (simp add: st3_def st2_def st1_def initial_inline_header_def)
  moreover have "im_words st3 owner = Some obj" "im_words st3 obj = Some cls"
    using obj(4) by (simp_all add: st3_def st2_def st1_def)
  ultimately show ?thesis by blast
qed

theorem inline_value_allocated_witness:
  "\<exists>st'. inline_alloc_embedded_value_object demo_value_loader demo_inline 0x800 (Some demo_value_meta) 0x500 = Some (0x540, st')
     \<and> inline_parent st' 0x510 = Some 0x500 \<and> im_words st' 0x508 = Some 0x540"
proof -
  have "sf_object_class (l_tags demo_value_loader) (im_words demo_inline) 0x500 = Some 0x700"
    by (simp add: sf_object_class_def sf_is_tagged_pointer_def demo_inline_def SF_TAGGED_POINTER_SLOT_MASK_def)
  moreover have "sf_value_slots_for_class (l_value_slots demo_value_loader) 0x700 = demo_slot # []"
    by (simp add: sf_value_slots_for_class_def value_slot_entry_for_unlocked_def demo_value_loader_def probe.simps
        SF_CLASS_MAP_CAPACITY_def)
  moreover have "mt_flags demo_value_meta AND SF_CLASS_META_FLAG_INLINE_VALUE_ELIGIBLE \<noteq> 0"
    by (simp add: demo_value_meta_def SF_CLASS_META_FLAG_INLINE_VALUE_ELIGIBLE_def)
  moreover have "sf_value_slot_is_compatible demo_value_loader demo_slot 0x800
      (inline_embedded_value_storage_size (ucast (mt_instance_size demo_value_meta))) = Some True"
    by (simp add: sf_value_slot_is_compatible_def demo_slot_def inline_embedded_value_storage_size_def demo_value_meta_def
        sizeof_inline_header_def align_up_8)
  moreover have "(0x508 :: addr) = 0x500 + ucast (owner_offset demo_slot)" "(0x510 :: addr) = 0x500 + ucast (storage_offset demo_slot)"
    "im_words demo_inline 0x508 = Some nullptr" "im_values demo_inline 0x510 = Some demo_blank_value"
    "ih_state demo_blank_value \<noteq> SF_OBJ_STATE_LIVE" "(0x510 :: addr) \<noteq> nullptr" "(0x540 :: addr) = 0x510 + sizeof_inline_header"
    "(0x540 :: addr) \<noteq> nullptr" "\<not> sf_is_tagged_pointer 0x540" "(0x540 :: addr) \<noteq> 0x508" "(0x500 :: addr) AND 1 = 0"
    "im_entry_callocs demo_inline = True # []"
    by (simp_all add: demo_slot_def demo_inline_def demo_blank_value_def sizeof_inline_header_def sf_is_tagged_pointer_def SF_TAGGED_POINTER_SLOT_MASK_def
        abi_consts)
  ultimately show ?thesis
    using inline_value_allocated [of demo_value_loader demo_inline "0x500" "0x700" demo_slot "[]" demo_value_meta "0x800" "0x508" "0x510" demo_blank_value "0x540" "[]" "[]", OF _ _ _ _ _ _ _ _ _ _ _ _ _ _ _ _ demo_inline_bucket(1)]
    by blast
qed

text \<open>C33: In the builds with exceptions, disposing of a live value object does not undo its allocation: the header is marked as disposed of, but the slot's
  pointer in the parent still refers to the object and the object is still found by its address.  An inline header has no
  auxiliary flags; the flag of exception metadata is read from its tagged parent, where it is always set, and to clear
  the metadata is to clear the tag, after which the header is not recognised any more.\<close>

theorem inline_value_stays_live:
  assumes live: "live_value st obj hdr par" and table: "bucket_ok st (live_object_bucket_index obj) ps"
  shows "\<exists>st'. dispose_inline_value st obj = Some st' \<and> map_option ih_state (im_values st' hdr) = Some SF_OBJ_STATE_DISPOSED
    \<and> im_words st' = im_words st \<and> im_live st' = im_live st \<and> inline_header_from_object st' obj = Some hdr
    \<and> inline_parent st' hdr = Some nullptr"
proof -
  obtain h where h: "im_values st hdr = Some h" "ih_state h = SF_OBJ_STATE_LIVE" "ih_tagged_parent h = sf_inline_value_tagged_parent par"
    "ih_flags h AND SF_OBJ_FLAG_EMBEDDED \<noteq> 0" "ih_flags h AND SF_OBJ_FLAG_IMMORTAL = 0" "ih_flags h AND SF_OBJ_FLAG_HAS_COLD = 0"
    and obj: "hdr \<noteq> nullptr" "obj = hdr + sizeof_inline_header" "obj \<noteq> nullptr" "par AND 1 = 0"
    using live by (auto simp: live_value_def split: option.splits)
  have obj': "obj = hdr + sizeof_compact_header"
    using obj(2) by (simp add: sizeof_inline_header_def sizeof_compact_header_def)
  have out: "hdr \<notin> set ps"
    using table h(1) by (auto simp: bucket_ok_def ordinary_def)
  define h1 where "h1 = h\<lparr>ih_tagged_parent := par\<rparr>"
  define st1 where "st1 = st\<lparr>im_values := (im_values st)(hdr \<mapsto> h1), im_metadata := remove1 obj (im_metadata st)\<rparr>"
  define h2 where "h2 = h1\<lparr>ih_state := SF_OBJ_STATE_DISPOSED, ih_flags := ih_flags h AND NOT SF_OBJ_COOKIE_MASK,
    ih_tagged_parent := par AND NOT (mask 32), ih_magic := 0\<rparr>"
  define st2 where "st2 = st1\<lparr>im_values := (im_values st1)(hdr \<mapsto> h2)\<rparr>"
  have found: "inline_header_from_object st obj = Some hdr"
    by (rule live_value_found [OF live table])
  have tables: "bucket_ok st' (live_object_bucket_index obj) ps" "inline_header_from_object st' obj = Some hdr"
    if "im_hdrs st' = im_hdrs st" "im_live st' = im_live st" "im_values st' = (im_values st)(hdr \<mapsto> h')" for st' h'
  proof -
    have keep: "ordinary st' p" if "ordinary st p" for p
      using that \<open>im_hdrs st' = _\<close> \<open>im_values st' = _\<close> h(1) by (auto simp: ordinary_def)
    show "bucket_ok st' (live_object_bucket_index obj) ps"
      using table keep that(1) by (simp add: bucket_ok_def)
    show "inline_header_from_object st' obj = Some hdr"
      using found_cong [OF that(1,2) keep table] found out obj' by simp
  qed
  have metadata: "inline_clear_metadata st obj = Some st1"
    using found h(1,3) obj aux_half_clear [of "sf_inline_value_tagged_parent par"] tag_removed [of par]
    by (simp add: inline_clear_metadata_def inline_clear_aux_flags_def inline_aux_flags_def inline_set_aux_flags_def
        write_value_def abi_consts h1_def st1_def)
  have cold1: "ih_tagged_parent h1 AND 1 = 0" "ih_flags h1 AND SF_OBJ_FLAG_HAS_COLD = 0"
    using obj(4) h(6) by (simp_all add: h1_def)
  have v1: "im_values st1 hdr = Some h1"
    by (simp add: st1_def)
  note plain1 = untagged_header [OF v1 obj(1) cold1]
  have unregistered: "inline_unregister_live st1 hdr = Some st1"
    using untagged_not_unregistered [OF v1 obj(1) cold1] tables(1) [of st1 h1] obj' by (simp add: st1_def)
  have cold2: "ih_tagged_parent h2 AND 1 = 0" "ih_flags h2 AND SF_OBJ_FLAG_HAS_COLD = 0"
    using obj(4) h(6) and.assoc [of "NOT (mask 32)" par 1] and.assoc [of "NOT SF_OBJ_COOKIE_MASK" "ih_flags h" SF_OBJ_FLAG_HAS_COLD]
    by (simp_all add: h2_def h1_def and.commute [of par "NOT (mask 32)"] and.commute [of "ih_flags h" "NOT SF_OBJ_COOKIE_MASK"])
  have v2: "im_values st2 hdr = Some h2"
    by (simp add: st2_def)
  note plain2 = untagged_header [OF v2 obj(1) cold2]
  have "inline_has_aux_flag st hdr SF_OBJ_AUX_FLAG_HAS_EXCEPTION_METADATA = Some True"
    using h(1,3) obj(1) aux_half_set [of par] by (simp add: inline_has_aux_flag_def inline_aux_flags_def abi_consts)
  then have "dispose_inline_value st obj = Some st2"
    using found obj(1) h(1,2,4,5) metadata v1 plain1 unregistered plain2(9)
    by (simp add: dispose_inline_value_def) (simp add: h1_def h2_def st1_def st2_def write_value_def inline_set_aux_flags_def)
  moreover have "map_option ih_state (im_values st2 hdr) = Some SF_OBJ_STATE_DISPOSED" "im_words st2 = im_words st" "im_live st2 = im_live st"
    "inline_header_from_object st2 obj = Some hdr" "inline_parent st2 hdr = Some nullptr"
    using tables(2) [of st2 h2] plain2(4) v2 by (simp_all add: st2_def st1_def) (simp_all add: h2_def)
  ultimately show ?thesis by blast
qed

theorem inline_value_stays_live_witness:
  "\<exists>st'. dispose_inline_value demo_inline_live 0x540 = Some st' \<and> im_words st' 0x508 = Some 0x540
     \<and> inline_header_from_object st' 0x540 = Some 0x510"
proof -
  have "live_value demo_inline_live 0x540 0x510 0x500"
    using initial_flags [of demo_slot 0 "0x500"]
    by (simp add: live_value_def demo_inline_live_def demo_inline_def sizeof_inline_header_def sf_is_tagged_pointer_def
        SF_TAGGED_POINTER_SLOT_MASK_def) (simp add: initial_inline_header_def)
  from inline_value_stays_live [OF this demo_inline_bucket(2)] show ?thesis
    by (auto simp: demo_inline_live_def)
qed

end
