(* ===== verification/SF_Separate.thy ===== *)
theory SF_Separate
  imports SF_Compact SF_Header
begin

unbundle bit_operations_syntax

text \<open>
  Compact headers with a separate state for each group (\<open>SF_RUNTIME_COMPACT_HEADERS = 1\<close> and
  \<open>SF_RUNTIME_INLINE_GROUP_STATE = 0\<close>, or a thread-safe build; \<open>Runtime/src/object-header.c\<close>): the cold state of the
  root points to an \<open>SFGroupState\<close> with the head, the live count and the lock of the group, and the cold state of
  a member names the root.  An operation returns \<open>None\<close> for an access outside the memory.
\<close>

section \<open>State\<close>

text \<open>\<open>sm_group_callocs\<close> holds the results of the coming allocations of group states, null for a failure.\<close>

record sep_mem =
  sm_hdrs :: compact_mem
  sm_groups :: "addr \<rightharpoonup> SFGroupState"
  sm_group_callocs :: "addr list"

definition write_gs :: "sep_mem \<Rightarrow> addr \<Rightarrow> (SFGroupState \<Rightarrow> SFGroupState) \<Rightarrow> sep_mem option" where
  "write_gs st p f = map_option (\<lambda>g. st\<lparr>sm_groups := (sm_groups st)(p \<mapsto> f g)\<rparr>) (sm_groups st p)"

text \<open>An operation on the headers alone.\<close>

definition on_hdrs :: "sep_mem \<Rightarrow> (bool \<times> compact_mem) option \<Rightarrow> (bool \<times> sep_mem) option" where
  "on_hdrs st r = map_option (\<lambda>(ok, m). (ok, st\<lparr>sm_hdrs := m\<rparr>)) r"

section \<open>Operations\<close>

definition sf_header_group_state_local :: "sep_mem \<Rightarrow> addr \<Rightarrow> addr option" where
  "sf_header_group_state_local st hdr = do {
     root \<leftarrow> sf_header_group_root_local (sm_hdrs st) hdr;
     read_cold cold_group (sm_hdrs st) root
   }"

definition sf_header_set_group_state_local :: "sep_mem \<Rightarrow> addr \<Rightarrow> addr \<Rightarrow> (bool \<times> sep_mem) option" where
  "sf_header_set_group_state_local st root grp =
     (if root = nullptr then Some (False, st)
      else on_hdrs st (store_cold (\<lambda>c. c\<lparr>cold_group := grp\<rparr>) (sm_hdrs st) root (grp \<noteq> nullptr)))"

definition sep_create_group_state :: "sep_mem \<Rightarrow> addr \<Rightarrow> addr \<times> sep_mem" where
  "sep_create_group_state st root =
     (case sm_group_callocs st of [] \<Rightarrow> (nullptr, st)
      | p # ps \<Rightarrow>
          let st = st\<lparr>sm_group_callocs := ps\<rparr> in
          if p = nullptr then (nullptr, st)
          else (p, st\<lparr>sm_groups := (sm_groups st)(p \<mapsto> \<lparr>g_root = root, g_head = root, group_live_count = 1, g_dead = 0\<rparr>)\<rparr>))"

definition sep_mark_dead :: "sep_mem \<Rightarrow> addr \<Rightarrow> bool \<Rightarrow> sep_mem option" where
  "sep_mark_dead st hdr dead = map_option (\<lambda>m. st\<lparr>sm_hdrs := m\<rparr>) (compact_mark_dead (sm_hdrs st) hdr dead)"

text \<open>Making a header the root of a new group, in two parts: the test for a group, and what follows when there is none.\<close>

definition sep_new_group :: "sep_mem \<Rightarrow> addr \<Rightarrow> (bool \<times> sep_mem) option" where
  "sep_new_group st hdr =
     (let (grp, st) = sep_create_group_state st hdr in
      if grp = nullptr then Some (False, st)
      else do {
        (ok, st) \<leftarrow> sf_header_set_group_state_local st hdr grp;
        if \<not> ok then Some (False, st\<lparr>sm_groups := (sm_groups st)(grp := None)\<rparr>)
        else do {
          (_, st) \<leftarrow> on_hdrs st (sf_header_set_group_next_local (sm_hdrs st) hdr nullptr);
          st \<leftarrow> sep_mark_dead st hdr False;
          Some (True, st)
        }
      })"

definition sep_init_group_root :: "sep_mem \<Rightarrow> addr \<Rightarrow> (bool \<times> sep_mem) option" where
  "sep_init_group_root st hdr =
     (if hdr = nullptr then Some (False, st)
      else do {
        grp \<leftarrow> sf_header_group_state_local st hdr;
        if grp \<noteq> nullptr then Some (True, st) else sep_new_group st hdr
      })"

definition sep_set_group_root :: "sep_mem \<Rightarrow> addr \<Rightarrow> addr \<Rightarrow> (bool \<times> sep_mem) option" where
  "sep_set_group_root st hdr group_root =
     (if hdr = nullptr then Some (False, st)
      else if group_root = nullptr then on_hdrs st (store_cold (\<lambda>c. c\<lparr>cold_group_root := nullptr\<rparr>) (sm_hdrs st) hdr False)
      else do {
        (ok, st) \<leftarrow> sep_init_group_root st group_root;
        if \<not> ok then Some (False, st)
        else if hdr = group_root then on_hdrs st (store_cold (\<lambda>c. c\<lparr>cold_group_root := nullptr\<rparr>) (sm_hdrs st) hdr False)
        else on_hdrs st (store_cold (\<lambda>c. c\<lparr>cold_group_root := group_root\<rparr>) (sm_hdrs st) hdr True)
      })"

definition sep_group_head :: "sep_mem \<Rightarrow> addr \<Rightarrow> addr option" where
  "sep_group_head st hdr =
     (if hdr = nullptr then Some nullptr
      else do {
        grp \<leftarrow> sf_header_group_state_local st hdr;
        head \<leftarrow> (if grp = nullptr then Some nullptr else map_option g_head (sm_groups st grp));
        if head \<noteq> nullptr then Some head else sf_header_group_root_local (sm_hdrs st) hdr
      })"

definition sep_set_group_head :: "sep_mem \<Rightarrow> addr \<Rightarrow> addr \<Rightarrow> (bool \<times> sep_mem) option" where
  "sep_set_group_head st hdr group_head =
     (if hdr = nullptr then Some (False, st)
      else do {
        root \<leftarrow> sf_header_group_root_local (sm_hdrs st) hdr;
        grp \<leftarrow> sf_header_group_state_local st root;
        if group_head = nullptr \<and> grp = nullptr then Some (True, st)
        else do {
          (ok, st) \<leftarrow> sep_init_group_root st root;
          if \<not> ok then Some (False, st)
          else do {
            grp \<leftarrow> sf_header_group_state_local st root;
            if grp = nullptr then Some (False, st)
            else map_option (\<lambda>st. (True, st)) (write_gs st grp (\<lambda>g. g\<lparr>g_head := group_head\<rparr>))
          }
        }
      })"

definition sep_group_live_count :: "sep_mem \<Rightarrow> addr \<Rightarrow> u64 option" where
  "sep_group_live_count st hdr =
     (if hdr = nullptr then Some 0
      else do {
        grp \<leftarrow> sf_header_group_state_local st hdr;
        if grp \<noteq> nullptr then map_option group_live_count (sm_groups st grp)
        else map_option (\<lambda>h. if ch_state h = SF_OBJ_STATE_LIVE then 1 else 0) (cm_hdrs (sm_hdrs st) hdr)
      })"

definition sep_set_group_live_count :: "sep_mem \<Rightarrow> addr \<Rightarrow> u64 \<Rightarrow> (bool \<times> sep_mem) option" where
  "sep_set_group_live_count st hdr count =
     (if hdr = nullptr then Some (False, st)
      else do {
        root \<leftarrow> sf_header_group_root_local (sm_hdrs st) hdr;
        grp \<leftarrow> sf_header_group_state_local st root;
        if count \<le> 1 \<and> grp = nullptr then map_option (\<lambda>st. (True, st)) (sep_mark_dead st root (count = 0))
        else do {
          (ok, st) \<leftarrow> sep_init_group_root st root;
          if \<not> ok then Some (False, st)
          else do {
            grp \<leftarrow> sf_header_group_state_local st root;
            if grp = nullptr then Some (False, st)
            else do {
              st \<leftarrow> write_gs st grp (\<lambda>g. g\<lparr>group_live_count := count, g_dead := (if count = 0 then 1 else 0)\<rparr>);
              st \<leftarrow> sep_mark_dead st root (count = 0);
              Some (True, st)
            }
          }
        }
      })"

definition sep_group_dead :: "sep_mem \<Rightarrow> addr \<Rightarrow> bool option" where
  "sep_group_dead st hdr =
     (if hdr = nullptr then Some False
      else do {
        root \<leftarrow> sf_header_group_root_local (sm_hdrs st) hdr;
        h \<leftarrow> cm_hdrs (sm_hdrs st) root;
        if ch_aux_flags h AND SF_OBJ_AUX_FLAG_GROUP_DEAD \<noteq> 0 then Some True
        else do {
          grp \<leftarrow> sf_header_group_state_local st root;
          if grp = nullptr then Some False else map_option (\<lambda>g. g_dead g \<noteq> 0) (sm_groups st grp)
        }
      })"

definition sep_grouped :: "sep_mem \<Rightarrow> addr \<Rightarrow> bool option" where
  "sep_grouped st hdr =
     (if hdr = nullptr then Some False else map_option (\<lambda>grp. grp \<noteq> nullptr) (sf_header_group_state_local st hdr))"

definition sep_group_lock :: "sep_mem \<Rightarrow> addr \<Rightarrow> addr option" where
  "sep_group_lock st hdr =
     (if hdr = nullptr then Some nullptr
      else do {
        root \<leftarrow> sf_header_group_root_local (sm_hdrs st) hdr;
        grp \<leftarrow> sf_header_group_state_local st root;
        Some (if grp = nullptr then nullptr else grp + 32)
      })"

definition sep_destroy_sidecar :: "sep_mem \<Rightarrow> addr \<Rightarrow> bool \<Rightarrow> sep_mem option" where
  "sep_destroy_sidecar st hdr destroy_group_lock =
     (if hdr = nullptr then Some st
      else do {
        cold \<leftarrow> sf_header_cold_state (sm_hdrs st) hdr;
        if cold = nullptr then Some st
        else do {
          c \<leftarrow> cm_colds (sm_hdrs st) cold;
          let grp = cold_group c;
          st \<leftarrow> (if destroy_group_lock \<and> grp \<noteq> nullptr
               then do { g \<leftarrow> sm_groups st grp;
                         Some (if g_root g = hdr then st\<lparr>sm_groups := (sm_groups st)(grp := None)\<rparr> else st) }
               else Some st);
          map_option (\<lambda>m. st\<lparr>sm_hdrs := m\<rparr>) (compact_destroy_sidecar (sm_hdrs st) hdr)
        }
      })"

section \<open>Typing of the memory\<close>

abbreviation sep_view :: "sep_mem \<Rightarrow> addr \<Rightarrow> SFObjColdState option" where
  "sep_view st \<equiv> cold_view (sm_hdrs st)"

definition is_root :: "sep_mem \<Rightarrow> addr \<Rightarrow> bool" where
  "is_root st p = (case sep_view st p of None \<Rightarrow> False | Some v \<Rightarrow> cold_group_root v = nullptr)"

definition owns_group :: "sep_mem \<Rightarrow> addr \<Rightarrow> addr \<Rightarrow> bool" where
  "owns_group st p q = (case sep_view st p of None \<Rightarrow> False | Some v \<Rightarrow> cold_group v = q \<and> cold_group_root v = nullptr)"

text \<open>
  Every pointer of a cold state points to what its type says: the root of a member is a root with a group, the group of a
  root is a group state that names this root.  Every group state is the group of its root, so none is lost.
\<close>

definition sep_typed :: "sep_mem \<Rightarrow> bool" where
  "sep_typed st \<longleftrightarrow> compact_ok (sm_hdrs st)
     \<and> (\<forall>p v. sep_view st p = Some v \<longrightarrow>
          (if cold_group_root v \<noteq> nullptr then cold_group v = nullptr \<and> (\<exists>q. q \<noteq> nullptr \<and> owns_group st (cold_group_root v) q)
           else cold_group v \<noteq> nullptr \<longrightarrow> (\<exists>g. sm_groups st (cold_group v) = Some g \<and> g_root g = p)))
     \<and> (\<forall>q g. sm_groups st q = Some g \<longrightarrow> q \<noteq> nullptr \<and> owns_group st (g_root g) q)
     \<and> distinct (filter (\<lambda>a. a \<noteq> nullptr) (sm_group_callocs st)) \<and> (\<forall>a\<in>set (sm_group_callocs st). sm_groups st a = None)"

lemma sep_typed_parts:
  assumes "sep_typed st"
  shows "compact_ok (sm_hdrs st)"
    and "\<And>p v. sep_view st p = Some v \<Longrightarrow> cold_group_root v \<noteq> nullptr \<Longrightarrow> cold_group v = nullptr \<and> (\<exists>q. q \<noteq> nullptr \<and> owns_group st (cold_group_root v) q)"
    and "\<And>p v. sep_view st p = Some v \<Longrightarrow> cold_group v \<noteq> nullptr \<Longrightarrow> \<exists>g. sm_groups st (cold_group v) = Some g \<and> g_root g = p"
    and "\<And>q g. sm_groups st q = Some g \<Longrightarrow> q \<noteq> nullptr \<and> owns_group st (g_root g) q"
    and "distinct (filter (\<lambda>a. a \<noteq> nullptr) (sm_group_callocs st))" "\<And>a. a \<in> set (sm_group_callocs st) \<Longrightarrow> sm_groups st a = None"
proof -
  show "\<exists>g. sm_groups st (cold_group v) = Some g \<and> g_root g = p" if "sep_view st p = Some v" "cold_group v \<noteq> nullptr" for p v
  proof -
    from assms that(1) have "if cold_group_root v \<noteq> nullptr then cold_group v = nullptr \<and> (\<exists>q. q \<noteq> nullptr \<and> owns_group st (cold_group_root v) q)
        else cold_group v \<noteq> nullptr \<longrightarrow> (\<exists>g. sm_groups st (cold_group v) = Some g \<and> g_root g = p)"
      unfolding sep_typed_def by blast
    with that(2) show ?thesis by (simp split: if_splits)
  qed
qed (use assms in \<open>simp_all add: sep_typed_def\<close>)

text \<open>The root of a header is a root, and its group is the group of the header.\<close>

lemma view_root_is_root:
  assumes "sep_typed st" "sep_view st p = Some v"
  obtains w where "sep_view st (view_root p v) = Some w" "cold_group_root w = nullptr"
    "sf_header_group_root_local (sm_hdrs st) p = Some (view_root p v)"
    "sf_header_group_state_local st p = Some (cold_group w)"
    "sf_header_group_root_local (sm_hdrs st) (view_root p v) = Some (view_root p v)"
    "sf_header_group_state_local st (view_root p v) = Some (cold_group w)"
proof -
  note t = sep_typed_parts [OF assms(1)]
  obtain w where w: "sep_view st (view_root p v) = Some w" "cold_group_root w = nullptr"
    using t(2) [OF assms(2)] assms(2) by (cases "cold_group_root v = nullptr") (auto simp: view_root_def owns_group_def split: option.splits)
  have root: "sf_header_group_root_local (sm_hdrs st) p = Some (view_root p v)"
    "sf_header_group_root_local (sm_hdrs st) (view_root p v) = Some (view_root p v)"
    using group_root_view [OF t(1) assms(2)] group_root_view [OF t(1) w(1)] w(2) by (simp_all add: view_root_def)
  have "read_cold cold_group (sm_hdrs st) (view_root p v) = Some (cold_group w)"
    using read_cold_view [OF t(1) w(1), of cold_group] by (simp add: zero_cold_def)
  then show thesis
    using that w root by (simp add: sf_header_group_state_local_def)
qed

text \<open>A change that keeps roots and groups keeps the typing.\<close>

lemma sep_typed_cong:
  assumes "sep_typed st" "compact_ok (sm_hdrs st')" "sm_groups st' = sm_groups st"
    "sm_group_callocs st' = sm_group_callocs st \<or> sm_group_callocs st' = tl (sm_group_callocs st)"
    "\<And>q. map_option (\<lambda>v. (cold_group_root v, cold_group v)) (sep_view st' q) = map_option (\<lambda>v. (cold_group_root v, cold_group v)) (sep_view st q)"
  shows "sep_typed st'"
proof -
  have pre: "\<exists>w. sep_view st q = Some w \<and> cold_group_root w = cold_group_root v \<and> cold_group w = cold_group v" if "sep_view st' q = Some v" for q v
    using assms(5) [of q] that by (cases "sep_view st q") auto
  have "owns_group st' p q = owns_group st p q" for p q
    using assms(5) [of p] by (cases "sep_view st p"; cases "sep_view st' p") (auto simp: owns_group_def)
  moreover have "set (sm_group_callocs st') \<subseteq> set (sm_group_callocs st)" "distinct (filter (\<lambda>a. a \<noteq> nullptr) (sm_group_callocs st'))"
    using assms(4) sep_typed_parts(5) [OF assms(1)] by (cases "sm_group_callocs st"; auto split: if_splits)+
  moreover have "if cold_group_root v \<noteq> nullptr then cold_group v = nullptr \<and> (\<exists>q. q \<noteq> nullptr \<and> owns_group st (cold_group_root v) q)
        else cold_group v \<noteq> nullptr \<longrightarrow> (\<exists>g. sm_groups st (cold_group v) = Some g \<and> g_root g = p)"
    if "sep_view st' p = Some v" for p v
    using pre [OF that] sep_typed_parts(2,3) [OF assms(1)] by metis
  ultimately show ?thesis
    using assms(2,3) sep_typed_parts(4,6) [OF assms(1)] unfolding sep_typed_def by auto
qed

lemma sep_typedI:
  assumes "compact_ok (sm_hdrs st)"
    and "\<And>p v. sep_view st p = Some v \<Longrightarrow> cold_group_root v \<noteq> nullptr \<Longrightarrow> cold_group v = nullptr \<and> (\<exists>q. q \<noteq> nullptr \<and> owns_group st (cold_group_root v) q)"
    and "\<And>p v. sep_view st p = Some v \<Longrightarrow> cold_group v \<noteq> nullptr \<Longrightarrow> cold_group_root v = nullptr \<Longrightarrow>
      \<exists>g. sm_groups st (cold_group v) = Some g \<and> g_root g = p"
    and "\<And>q g. sm_groups st q = Some g \<Longrightarrow> q \<noteq> nullptr \<and> owns_group st (g_root g) q"
    and "distinct (filter (\<lambda>a. a \<noteq> nullptr) (sm_group_callocs st))" "\<And>a. a \<in> set (sm_group_callocs st) \<Longrightarrow> sm_groups st a = None"
  shows "sep_typed st"
  using assms unfolding sep_typed_def by simp

text \<open>The changes of the operations: a group for a root, a change of a group, a new member, a leaving member, and the end of a header.\<close>

lemma typed_new_group:
  assumes t: "sep_typed st" and w: "sep_view st r = Some w" "cold_group_root w = nullptr" "cold_group w = nullptr"
    and q: "sm_group_callocs st = q # qs" "q \<noteq> nullptr"
    and st': "compact_ok (sm_hdrs st')" "sep_view st' = (sep_view st)(r \<mapsto> w')" "cold_group_root w' = nullptr" "cold_group w' = q"
      "sm_groups st' = (sm_groups st)(q \<mapsto> g)" "g_root g = r" "sm_group_callocs st' = qs"
  shows "sep_typed st'"
proof (rule sep_typedI)
  note parts = sep_typed_parts [OF t]
  have fresh: "sm_groups st q = None" "q \<notin> set qs"
    using parts(5,6) q by auto
  have owns: "owns_group st' p x \<longleftrightarrow> (if p = r then x = q else owns_group st p x)" for p x
    using st'(2,3,4) by (auto simp: owns_group_def)
  have no: "owns_group st r x \<Longrightarrow> x = nullptr" for x
    using w by (auto simp: owns_group_def)
  show "cold_group v = nullptr \<and> (\<exists>x. x \<noteq> nullptr \<and> owns_group st' (cold_group_root v) x)"
    if "sep_view st' p = Some v" "cold_group_root v \<noteq> nullptr" for p v
  proof -
    have "sep_view st p = Some v"
      using that st'(2,3) by (auto split: if_splits)
    then have "cold_group v = nullptr \<and> (\<exists>x. x \<noteq> nullptr \<and> owns_group st (cold_group_root v) x)"
      using parts(2) that(2) by blast
    then obtain x where x: "cold_group v = nullptr" "x \<noteq> nullptr" "owns_group st (cold_group_root v) x"
      by blast
    then have "owns_group st' (cold_group_root v) x"
      using no [of x] owns [of "cold_group_root v" x] by auto
    then show ?thesis
      using x(1,2) by blast
  qed
  show "\<exists>g. sm_groups st' (cold_group v) = Some g \<and> g_root g = p"
    if "sep_view st' p = Some v" "cold_group v \<noteq> nullptr" "cold_group_root v = nullptr" for p v
  proof (cases "p = r")
    case True
    then show ?thesis
      using that st'(2,4,5,6) by simp
  next
    case False
    then have "\<exists>g'. sm_groups st (cold_group v) = Some g' \<and> g_root g' = p"
      using that(1,2) st'(2) parts(3) by auto
    then obtain g' where "sm_groups st (cold_group v) = Some g'" "g_root g' = p"
      by blast
    then show ?thesis
      using fresh st'(5) by auto
  qed
  show "x \<noteq> nullptr \<and> owns_group st' (g_root g') x" if "sm_groups st' x = Some g'" for x g'
  proof (cases "x = q")
    case True
    then have "g' = g"
      using that st'(5) by simp
    then show ?thesis
      using True st'(6) q(2) owns by simp
  next
    case False
    then have "x \<noteq> nullptr" "owns_group st (g_root g') x"
      using that st'(5) parts(4) by auto
    then show ?thesis
      using no [of x] owns by metis
  qed
  show "distinct (filter (\<lambda>a. a \<noteq> nullptr) (sm_group_callocs st'))"
    using parts(5) q st'(7) by simp
  show "sm_groups st' a = None" if "a \<in> set (sm_group_callocs st')" for a
    using that parts(6) [of a] q st'(5,7) fresh(2) by (metis fun_upd_other list.set_intros(2))
qed (rule st'(1))

lemma typed_write_gs:
  assumes "sep_typed st" "sm_groups st q = Some g" "g_root g' = g_root g"
  shows "sep_typed (st\<lparr>sm_groups := (sm_groups st)(q \<mapsto> g')\<rparr>)"
proof (rule sep_typedI)
  note t = sep_typed_parts [OF assms(1)]
  show "\<exists>g''. sm_groups (st\<lparr>sm_groups := (sm_groups st)(q \<mapsto> g')\<rparr>) (cold_group v) = Some g'' \<and> g_root g'' = p"
    if "sep_view (st\<lparr>sm_groups := (sm_groups st)(q \<mapsto> g')\<rparr>) p = Some v" "cold_group v \<noteq> nullptr" for p v
    using t(3) [of p v] that assms(2,3) by auto
  show "x \<noteq> nullptr \<and> owns_group (st\<lparr>sm_groups := (sm_groups st)(q \<mapsto> g')\<rparr>) (g_root g'') x"
    if "sm_groups (st\<lparr>sm_groups := (sm_groups st)(q \<mapsto> g')\<rparr>) x = Some g''" for x g''
    using that t(4) [of x] assms(2,3) by (auto simp: owns_group_def split: if_splits)
qed (use sep_typed_parts [OF assms(1)] assms(2) in \<open>auto simp: owns_group_def\<close>)

lemma typed_join:
  assumes t: "sep_typed st" and v: "sep_view st p = Some v" "cold_group v = nullptr" and r: "owns_group st r q" "q \<noteq> nullptr" "p \<noteq> r"
    and m: "compact_ok m" "cold_view m = (sep_view st)(p \<mapsto> v\<lparr>cold_group_root := r\<rparr>)"
  shows "sep_typed (st\<lparr>sm_hdrs := m\<rparr>)"
proof (rule sep_typedI)
  note parts = sep_typed_parts [OF t]
  have owns: "owns_group (st\<lparr>sm_hdrs := m\<rparr>) x y" if "owns_group st x y" "y \<noteq> nullptr" for x y
    using that v m(2) by (auto simp: owns_group_def)
  show "cold_group w = nullptr \<and> (\<exists>y. y \<noteq> nullptr \<and> owns_group (st\<lparr>sm_hdrs := m\<rparr>) (cold_group_root w) y)"
    if "sep_view (st\<lparr>sm_hdrs := m\<rparr>) x = Some w" "cold_group_root w \<noteq> nullptr" for x w
  proof (cases "x = p")
    case True
    then have "w = v\<lparr>cold_group_root := r\<rparr>"
      using that m(2) by simp
    then show ?thesis
      using v(2) owns [OF r(1,2)] r(2) by auto
  next
    case False
    then have "sep_view st x = Some w"
      using that m(2) by simp
    then show ?thesis
      using parts(2) that(2) owns by blast
  qed
  show "\<exists>g. sm_groups (st\<lparr>sm_hdrs := m\<rparr>) (cold_group w) = Some g \<and> g_root g = x"
    if "sep_view (st\<lparr>sm_hdrs := m\<rparr>) x = Some w" "cold_group w \<noteq> nullptr" for x w
    using that parts(3) [of x w] m(2) v by (auto split: if_splits)
  show "x \<noteq> nullptr \<and> owns_group (st\<lparr>sm_hdrs := m\<rparr>) (g_root g) x" if "sm_groups (st\<lparr>sm_hdrs := m\<rparr>) x = Some g" for x g
    using parts(4) [of x g] that owns by simp
qed (use sep_typed_parts(5,6) [OF t] m(1) in \<open>simp_all\<close>)

lemma typed_leave:
  assumes t: "sep_typed st" and v: "sep_view st p = Some v"
    and m: "compact_ok m" "cold_view m = (sep_view st)(p \<mapsto> v\<lparr>cold_group_root := nullptr\<rparr>)"
  shows "sep_typed (st\<lparr>sm_hdrs := m\<rparr>)"
proof (rule sep_typedI)
  note parts = sep_typed_parts [OF t]
  have owns: "owns_group (st\<lparr>sm_hdrs := m\<rparr>) x y" if "owns_group st x y" for x y
    using that v m(2) by (auto simp: owns_group_def)
  show "cold_group w = nullptr \<and> (\<exists>y. y \<noteq> nullptr \<and> owns_group (st\<lparr>sm_hdrs := m\<rparr>) (cold_group_root w) y)"
    if "sep_view (st\<lparr>sm_hdrs := m\<rparr>) x = Some w" "cold_group_root w \<noteq> nullptr" for x w
  proof -
    have "sep_view st x = Some w"
      using that m(2) by (auto split: if_splits)
    then show ?thesis
      using parts(2) that(2) owns by blast
  qed
  show "\<exists>g. sm_groups (st\<lparr>sm_hdrs := m\<rparr>) (cold_group w) = Some g \<and> g_root g = x"
    if "sep_view (st\<lparr>sm_hdrs := m\<rparr>) x = Some w" "cold_group w \<noteq> nullptr" for x w
    using that parts(3) [of x w] parts(3) [OF v] m(2) by (auto split: if_splits)
  show "x \<noteq> nullptr \<and> owns_group (st\<lparr>sm_hdrs := m\<rparr>) (g_root g) x" if "sm_groups (st\<lparr>sm_hdrs := m\<rparr>) x = Some g" for x g
    using parts(4) [of x g] that owns by simp
qed (use sep_typed_parts(5,6) [OF t] m(1) in \<open>simp_all\<close>)

lemma typed_destroy:
  assumes t: "sep_typed st" and v: "sep_view st p = Some v" and alone: "\<And>q w. sep_view st q = Some w \<Longrightarrow> cold_group_root w \<noteq> p"
    and m: "compact_ok m" "cold_view m = (sep_view st)(p \<mapsto> zero_cold)"
  shows "sep_typed (st\<lparr>sm_hdrs := m, sm_groups := (sm_groups st)(cold_group v := None)\<rparr>)" (is "sep_typed ?st")
proof (rule sep_typedI)
  note parts = sep_typed_parts [OF t]
  have zero: "cold_group_root zero_cold = nullptr" "cold_group zero_cold = nullptr"
    by (simp_all add: zero_cold_def)
  have other: "owns_group ?st x y" if "owns_group st x y" "x \<noteq> p" for x y
    using that m(2) by (simp add: owns_group_def)
  show "cold_group w = nullptr \<and> (\<exists>y. y \<noteq> nullptr \<and> owns_group ?st (cold_group_root w) y)"
    if "sep_view ?st x = Some w" "cold_group_root w \<noteq> nullptr" for x w
  proof -
    have x: "sep_view st x = Some w"
      using that m(2) zero by (auto split: if_splits)
    then show ?thesis
      using parts(2) [OF x that(2)] other alone [OF x] by blast
  qed
  show "\<exists>g. sm_groups ?st (cold_group w) = Some g \<and> g_root g = x" if "sep_view ?st x = Some w" "cold_group w \<noteq> nullptr" for x w
  proof -
    have x: "sep_view st x = Some w" "x \<noteq> p"
      using that m(2) zero by (auto split: if_splits)
    have "\<exists>g. sm_groups st (cold_group w) = Some g \<and> g_root g = x"
      by (rule parts(3) [OF x(1) that(2)])
    then obtain g where g: "sm_groups st (cold_group w) = Some g" "g_root g = x"
      by blast
    have "cold_group w \<noteq> cold_group v"
      using parts(3) [OF v] g x(2) that(2) by auto
    then show ?thesis
      using g by simp
  qed
  show "x \<noteq> nullptr \<and> owns_group ?st (g_root g) x" if "sm_groups ?st x = Some g" for x g
  proof -
    have x: "x \<noteq> cold_group v" "x \<noteq> nullptr" "owns_group st (g_root g) x"
      using that parts(4) [of x g] by (auto split: if_splits)
    have "g_root g \<noteq> p"
      using x(1,3) v by (auto simp: owns_group_def)
    then show ?thesis
      using x other by blast
  qed
  show "sm_groups ?st a = None" if "a \<in> set (sm_group_callocs ?st)" for a
    using that parts(6) by simp
qed (use sep_typed_parts(5) [OF t] m(1) in \<open>simp_all\<close>)

section \<open>What the operations do to a typed memory\<close>

lemma create_group_cases:
  obtains (failed) st' where "sep_create_group_state st r = (nullptr, st')" "sm_hdrs st' = sm_hdrs st" "sm_groups st' = sm_groups st"
    "sm_group_callocs st' = sm_group_callocs st \<or> sm_group_callocs st' = tl (sm_group_callocs st)"
  | (created) q qs where "sm_group_callocs st = q # qs" "q \<noteq> nullptr"
    "sep_create_group_state st r = (q, st\<lparr>sm_group_callocs := qs,
       sm_groups := (sm_groups st)(q \<mapsto> \<lparr>g_root = r, g_head = r, group_live_count = 1, g_dead = 0\<rparr>)\<rparr>)"
proof (cases "sm_group_callocs st")
  case Nil
  then show thesis by (intro failed [of st]) (simp_all add: sep_create_group_state_def)
next
  case (Cons q qs)
  show thesis
  proof (cases "q = nullptr")
    case True
    then show thesis using Cons by (intro failed [of "st\<lparr>sm_group_callocs := qs\<rparr>"]) (simp_all add: sep_create_group_state_def)
  next
    case False
    then show thesis using Cons by (intro created [of q qs]) (simp_all add: sep_create_group_state_def)
  qed
qed

lemma new_group_view:
  assumes ok: "compact_ok (sm_hdrs st)" and w: "sep_view st r = Some w" and q: "sm_group_callocs st = q # qs" "q \<noteq> nullptr"
  shows "\<exists>b st'. sep_new_group st r = Some (b, st') \<and> compact_ok (sm_hdrs st') \<and> sm_group_callocs st' = qs
    \<and> (b \<longleftrightarrow> can_store (sm_hdrs st) r)
    \<and> (if b then sep_view st' = (sep_view st)(r \<mapsto> w\<lparr>cold_group := q, cold_group_next := nullptr\<rparr>)
         \<and> sm_groups st' = (sm_groups st)(q \<mapsto> \<lparr>g_root = r, g_head = r, group_live_count = 1, g_dead = 0\<rparr>)
       else sep_view st' = sep_view st \<and> sm_groups st' = (sm_groups st)(q := None))"
proof -
  have nr: "r \<noteq> nullptr"
    by (rule compact_ok_null [OF ok w])
  let ?g = "\<lparr>g_root = r, g_head = r, group_live_count = 1, g_dead = 0\<rparr>"
  define st1 where "st1 = st\<lparr>sm_group_callocs := qs, sm_groups := (sm_groups st)(q \<mapsto> ?g)\<rparr>"
  have create: "sep_create_group_state st r = (q, st1)"
    using q by (simp add: sep_create_group_state_def st1_def)
  obtain k m where s: "store_cold (\<lambda>c. c\<lparr>cold_group := q\<rparr>) (sm_hdrs st) r True = Some (k, m)" "compact_ok m"
    "cold_view m = (if k then (sep_view st)(r \<mapsto> w\<lparr>cold_group := q\<rparr>) else sep_view st)" "k \<longleftrightarrow> can_store (sm_hdrs st) r"
    using store_cold_view [OF ok w, of True "\<lambda>c. c\<lparr>cold_group := q\<rparr>"] by auto
  have set: "sf_header_set_group_state_local st1 r q = Some (k, st1\<lparr>sm_hdrs := m\<rparr>)"
    using s(1) nr q(2) by (simp add: sf_header_set_group_state_local_def on_hdrs_def st1_def)
  show ?thesis
  proof (cases k)
    case False
    then have "sep_new_group st r = Some (False, st1\<lparr>sm_hdrs := m, sm_groups := (sm_groups st1)(q := None)\<rparr>)"
      using create set q(2) by (simp add: sep_new_group_def)
    then show ?thesis
      using s(2,3,4) False by (intro exI [of _ False] exI) (auto simp: st1_def)
  next
    case True
    have v1: "cold_view m r = Some (w\<lparr>cold_group := q\<rparr>)"
      using s(3) True by simp
    obtain m2 where n: "sf_header_set_group_next_local m r nullptr = Some (True, m2)" "compact_ok m2"
      "cold_view m2 = (cold_view m)(r \<mapsto> w\<lparr>cold_group := q, cold_group_next := nullptr\<rparr>)"
      using group_next_field.set_view [OF s(2) v1, of nullptr] by auto
    have v2: "cold_view m2 r = Some (w\<lparr>cold_group := q, cold_group_next := nullptr\<rparr>)"
      using n(3) by simp
    obtain m3 where d: "compact_mark_dead m2 r False = Some m3" "compact_ok m3" "cold_view m3 = cold_view m2"
      using mark_dead_view [OF n(2) v2, of False] by blast
    have "sep_new_group st r = Some (True, st1\<lparr>sm_hdrs := m3\<rparr>)"
      using create set q(2) True n(1) d(1) by (simp add: sep_new_group_def on_hdrs_def sep_mark_dead_def)
    then show ?thesis
      using d(2,3) n(3) s(3,4) True by (intro exI [of _ True] exI) (auto simp: st1_def)
  qed
qed

lemma sep_init_view:
  assumes t: "sep_typed st" and w: "sep_view st r = Some w" "cold_group_root w = nullptr"
  shows "\<exists>b st' w'. sep_init_group_root st r = Some (b, st') \<and> sep_typed st' \<and> sep_view st' = (sep_view st)(r \<mapsto> w')
    \<and> cold_group_root w' = nullptr \<and> (if b then cold_group w' \<noteq> nullptr else w' = w \<and> sm_groups st' = sm_groups st)"
proof -
  have ok: "compact_ok (sm_hdrs st)"
    by (rule sep_typed_parts(1) [OF t])
  have nr: "r \<noteq> nullptr"
    by (rule compact_ok_null [OF ok w(1)])
  have grp: "sf_header_group_state_local st r = Some (cold_group w)"
  proof -
    have "view_root r w = r"
      using w(2) by (simp add: view_root_def)
    then show ?thesis
      using w(1) by (rule_tac view_root_is_root [OF t w(1)]) simp
  qed
  show ?thesis
  proof (cases "cold_group w = nullptr")
    case False
    then show ?thesis
      using t w grp nr by (intro exI [of _ True] exI [of _ st] exI [of _ w]) (simp add: sep_init_group_root_def fun_upd_idem)
  next
    case True
    then have init: "sep_init_group_root st r = sep_new_group st r"
      using grp nr by (simp add: sep_init_group_root_def)
    show ?thesis
    proof (cases rule: create_group_cases [of st r])
      case (failed st1)
      have "sep_typed st1"
        using failed ok by (intro sep_typed_cong [OF t]) simp_all
      then show ?thesis
        using failed w by (intro exI [of _ False] exI [of _ st1] exI [of _ w]) (simp add: init sep_new_group_def fun_upd_idem)
    next
      case (created q qs)
      obtain b st1 where n: "sep_new_group st r = Some (b, st1)" "compact_ok (sm_hdrs st1)" "sm_group_callocs st1 = qs"
        "if b then sep_view st1 = (sep_view st)(r \<mapsto> w\<lparr>cold_group := q, cold_group_next := nullptr\<rparr>)
           \<and> sm_groups st1 = (sm_groups st)(q \<mapsto> \<lparr>g_root = r, g_head = r, group_live_count = 1, g_dead = 0\<rparr>)
         else sep_view st1 = sep_view st \<and> sm_groups st1 = (sm_groups st)(q := None)"
        using new_group_view [OF ok w(1) created(1,2)] by blast
      show ?thesis
      proof (cases b)
        case False
        then have "sm_groups st1 = sm_groups st"
          using n(4) sep_typed_parts(6) [OF t, of q] created(1) by (simp add: fun_upd_idem)
        moreover from this have "sep_typed st1"
          using n False created(1) by (intro sep_typed_cong [OF t]) simp_all
        ultimately show ?thesis
          using n(1,4) False w by (intro exI [of _ False] exI [of _ st1] exI [of _ w]) (simp add: init fun_upd_idem)
      next
        case b: True
        have "sep_typed st1"
          by (rule typed_new_group [OF t w True created(1,2) n(2), of "w\<lparr>cold_group := q, cold_group_next := nullptr\<rparr>"
              "\<lparr>g_root = r, g_head = r, group_live_count = 1, g_dead = 0\<rparr>"]) (use n b w(2) in simp_all)
        then show ?thesis
          using n(1,4) b w(2) created(2)
          by (intro exI [of _ True] exI [of _ st1] exI [of _ "w\<lparr>cold_group := q, cold_group_next := nullptr\<rparr>"]) (simp add: init)
      qed
    qed
  qed
qed

text \<open>The group of a root once it has been initialised, and a write into it.\<close>

lemma root_group:
  assumes t: "sep_typed st" and w: "sep_view st r = Some w" "cold_group_root w = nullptr"
  shows "sf_header_group_root_local (sm_hdrs st) r = Some r" "sf_header_group_state_local st r = Some (cold_group w)"
    "cold_group w \<noteq> nullptr \<Longrightarrow> \<exists>g. sm_groups st (cold_group w) = Some g \<and> g_root g = r"
proof -
  have "view_root r w = r"
    using w(2) by (simp add: view_root_def)
  then show "sf_header_group_root_local (sm_hdrs st) r = Some r" "sf_header_group_state_local st r = Some (cold_group w)"
    using w(1) view_root_is_root [OF t w(1)] by force+
qed (rule sep_typed_parts(3) [OF t w(1)])

lemma write_gs_typed:
  assumes t: "sep_typed st" and w: "sep_view st r = Some w" "cold_group w \<noteq> nullptr" and f: "\<And>g. g_root (f g) = g_root g"
  shows "\<exists>st'. write_gs st (cold_group w) f = Some st' \<and> sep_typed st' \<and> sm_hdrs st' = sm_hdrs st"
proof -
  obtain g where "sm_groups st (cold_group w) = Some g"
    using sep_typed_parts(3) [OF t w] by blast
  then show ?thesis
    using typed_write_gs [OF t, of "cold_group w" g "f g"] f by (simp add: write_gs_def)
qed

lemma mark_dead_typed:
  assumes t: "sep_typed st" and v: "sep_view st p = Some v"
  shows "\<exists>st'. sep_mark_dead st p dead = Some st' \<and> sep_typed st' \<and> sep_view st' = sep_view st"
proof -
  obtain m where m: "compact_mark_dead (sm_hdrs st) p dead = Some m" "compact_ok m" "cold_view m = sep_view st"
    using mark_dead_view [OF sep_typed_parts(1) [OF t] v, of dead] by blast
  have "sep_typed (st\<lparr>sm_hdrs := m\<rparr>)"
    using m(2,3) by (intro sep_typed_cong [OF t]) simp_all
  then show ?thesis
    using m by (simp add: sep_mark_dead_def)
qed

section \<open>Operations on groups\<close>

datatype group_op = InitRoot addr | JoinGroup addr addr | LeaveGroup addr | SetHead addr addr | SetCount addr u64
  | SetNext addr addr | DestroySidecar addr

fun exec_group_op :: "sep_mem \<Rightarrow> group_op \<Rightarrow> (bool \<times> sep_mem) option" where
  "exec_group_op st (InitRoot p) = sep_init_group_root st p"
| "exec_group_op st (JoinGroup p r) = sep_set_group_root st p r"
| "exec_group_op st (LeaveGroup p) = sep_set_group_root st p nullptr"
| "exec_group_op st (SetHead p h) = sep_set_group_head st p h"
| "exec_group_op st (SetCount p n) = sep_set_group_live_count st p n"
| "exec_group_op st (SetNext p x) = on_hdrs st (sf_header_set_group_next_local (sm_hdrs st) p x)"
| "exec_group_op st (DestroySidecar p) = map_option (\<lambda>st. (True, st)) (sep_destroy_sidecar st p True)"

text \<open>
  How the runtime uses them: on headers; a group is started at a root, a header joins a root while it has no group of its
  own, and the last header of a group gives its cold state back.
\<close>

fun group_op_legal :: "sep_mem \<Rightarrow> group_op \<Rightarrow> bool" where
  "group_op_legal st (InitRoot p) \<longleftrightarrow> is_root st p"
| "group_op_legal st (JoinGroup p r) \<longleftrightarrow> is_root st r \<and> (p = r \<or> (case sep_view st p of None \<Rightarrow> False | Some v \<Rightarrow> cold_group v = nullptr))"
| "group_op_legal st (LeaveGroup p) \<longleftrightarrow> sep_view st p \<noteq> None"
| "group_op_legal st (SetHead p h) \<longleftrightarrow> sep_view st p \<noteq> None"
| "group_op_legal st (SetCount p n) \<longleftrightarrow> sep_view st p \<noteq> None"
| "group_op_legal st (SetNext p x) \<longleftrightarrow> sep_view st p \<noteq> None"
| "group_op_legal st (DestroySidecar p) \<longleftrightarrow> sep_view st p \<noteq> None
     \<and> (\<forall>q. case sep_view st q of None \<Rightarrow> True | Some w \<Rightarrow> cold_group_root w \<noteq> p)"

text \<open>Progress and preservation for one operation.\<close>

definition op_typed :: "sep_mem \<Rightarrow> (bool \<times> sep_mem) option \<Rightarrow> bool" where
  "op_typed st r \<longleftrightarrow> (\<exists>b st'. r = Some (b, st') \<and> sep_typed st' \<and> (\<forall>q. sep_view st' q = None \<longleftrightarrow> sep_view st q = None))"

lemma op_typedI: "r = Some (b, st') \<Longrightarrow> sep_typed st' \<Longrightarrow> (\<And>q. sep_view st' q = None \<longleftrightarrow> sep_view st q = None) \<Longrightarrow> op_typed st r"
  by (auto simp: op_typed_def)

lemma is_rootE: "is_root st p \<Longrightarrow> (\<And>w. sep_view st p = Some w \<Longrightarrow> cold_group_root w = nullptr \<Longrightarrow> P) \<Longrightarrow> P"
  by (auto simp: is_root_def split: option.splits)

lemma init_typed:
  assumes t: "sep_typed st" and r: "is_root st p"
  shows "op_typed st (sep_init_group_root st p)"
proof -
  obtain w where w: "sep_view st p = Some w" "cold_group_root w = nullptr"
    using r by (rule is_rootE)
  obtain b st' w' where i: "sep_init_group_root st p = Some (b, st')" "sep_typed st'" "sep_view st' = (sep_view st)(p \<mapsto> w')"
    using sep_init_view [OF t w] by (elim exE conjE)
  show ?thesis
    by (rule op_typedI [OF i(1,2)]) (simp add: i(3) w(1))
qed

lemma leave_typed:
  assumes t: "sep_typed st" and v: "sep_view st p = Some v"
  shows "op_typed st (on_hdrs st (store_cold (\<lambda>c. c\<lparr>cold_group_root := nullptr\<rparr>) (sm_hdrs st) p False))"
proof -
  let ?f = "\<lambda>c :: SFObjColdState. c\<lparr>cold_group_root := nullptr\<rparr>"
  have z: "False \<or> ?f zero_cold = zero_cold"
    by (simp add: zero_cold_def)
  obtain m where m: "store_cold ?f (sm_hdrs st) p False = Some (True, m)" "compact_ok m" "cold_view m = (sep_view st)(p \<mapsto> ?f v)"
    using store_cold_view [OF sep_typed_parts(1) [OF t] v, of False ?f, OF z] by auto
  show ?thesis
    using m typed_leave [OF t v m(2,3)] v by (intro op_typedI [of _ True "st\<lparr>sm_hdrs := m\<rparr>"]) (auto simp: on_hdrs_def)
qed

lemma next_typed:
  assumes t: "sep_typed st" and v: "sep_view st p = Some v"
  shows "op_typed st (on_hdrs st (sf_header_set_group_next_local (sm_hdrs st) p x))"
proof -
  obtain k m where m: "sf_header_set_group_next_local (sm_hdrs st) p x = Some (k, m)" "compact_ok m"
    "cold_view m = (if k then (sep_view st)(p \<mapsto> v\<lparr>cold_group_next := x\<rparr>) else sep_view st)"
    using group_next_field.set_view [OF sep_typed_parts(1) [OF t] v, of x] by blast
  have "sep_typed (st\<lparr>sm_hdrs := m\<rparr>)"
    using m(2,3) v by (intro sep_typed_cong [OF t]) auto
  then show ?thesis
    using m v by (intro op_typedI [of _ k "st\<lparr>sm_hdrs := m\<rparr>"]) (auto simp: on_hdrs_def)
qed

lemma destroy_typed:
  assumes t: "sep_typed st" and v: "sep_view st p = Some v" and alone: "\<And>q w. sep_view st q = Some w \<Longrightarrow> cold_group_root w \<noteq> p"
  shows "op_typed st (map_option (\<lambda>st. (True, st)) (sep_destroy_sidecar st p True))"
proof -
  note ok = sep_typed_parts(1) [OF t]
  have np: "p \<noteq> nullptr"
    by (rule compact_ok_null [OF ok v])
  obtain m where m: "compact_destroy_sidecar (sm_hdrs st) p = Some m" "compact_ok m" "cold_view m = (sep_view st)(p \<mapsto> zero_cold)"
    using destroy_sidecar_view [OF ok v] by blast
  define st' where "st' = st\<lparr>sm_hdrs := m, sm_groups := (sm_groups st)(cold_group v := None)\<rparr>"
  have t': "sep_typed st'"
    unfolding st'_def by (rule typed_destroy [OF t v alone m(2,3)])
  have null: "sm_groups st nullptr = None"
    using sep_typed_parts(4) [OF t, of nullptr] by (cases "sm_groups st nullptr") auto
  show ?thesis
    using ok v
  proof (cases rule: cold_state_cases)
    case (cold c)
    have "sep_destroy_sidecar st p True = Some st'"
    proof (cases "cold_group v = nullptr")
      case True
      then show ?thesis
        using cold np m(1) null by (simp add: sep_destroy_sidecar_def st'_def fun_upd_idem)
    next
      case False
      then obtain g where "sm_groups st (cold_group v) = Some g" "g_root g = p"
        using sep_typed_parts(3) [OF t v] by blast
      then show ?thesis
        using False cold np m(1) by (simp add: sep_destroy_sidecar_def st'_def)
    qed
    then show ?thesis
      using t' m(3) v by (intro op_typedI [of _ True st']) (auto simp: st'_def)
  next
    case none
    then show ?thesis
      using t np by (intro op_typedI [of _ True st]) (simp_all add: sep_destroy_sidecar_def)
  qed
qed

lemma join_typed:
  assumes t: "sep_typed st" and v: "sep_view st p = Some v" and r: "is_root st r" and free: "p = r \<or> cold_group v = nullptr"
  shows "op_typed st (sep_set_group_root st p r)"
proof -
  obtain w where w: "sep_view st r = Some w" "cold_group_root w = nullptr"
    using r by (rule is_rootE)
  have np: "p \<noteq> nullptr" "r \<noteq> nullptr"
    using compact_ok_null [OF sep_typed_parts(1) [OF t]] v w(1) by blast+
  obtain b st1 w' where i: "sep_init_group_root st r = Some (b, st1)" "sep_typed st1" "sep_view st1 = (sep_view st)(r \<mapsto> w')"
    "cold_group_root w' = nullptr" "if b then cold_group w' \<noteq> nullptr else w' = w \<and> sm_groups st1 = sm_groups st"
    using sep_init_view [OF t w] by (elim exE conjE)
  have same: "sep_view st1 q = None \<longleftrightarrow> sep_view st q = None" for q
    using i(3) w(1) by simp
  show ?thesis
  proof (cases b)
    case False
    then show ?thesis
      using i np same by (intro op_typedI [of _ False st1]) (simp_all add: sep_set_group_root_def)
  next
    case b: True
    show ?thesis
    proof (cases "p = r")
      case True
      have "op_typed st1 (on_hdrs st1 (store_cold (\<lambda>c. c\<lparr>cold_group_root := nullptr\<rparr>) (sm_hdrs st1) p False))"
        using i(3) True by (intro leave_typed [OF i(2), of p w']) simp
      then show ?thesis
        using i(1) b np True same by (simp add: op_typed_def sep_set_group_root_def)
    next
      case False
      let ?f = "\<lambda>c :: SFObjColdState. c\<lparr>cold_group_root := r\<rparr>"
      have v1: "sep_view st1 p = Some v"
        using i(3) False v by simp
      have owns: "owns_group st1 r (cold_group w')" "cold_group w' \<noteq> nullptr"
        using i(3,4,5) b by (simp_all add: owns_group_def)
      obtain k m where m: "store_cold ?f (sm_hdrs st1) p True = Some (k, m)" "compact_ok m"
        "cold_view m = (if k then (sep_view st1)(p \<mapsto> ?f v) else sep_view st1)"
        using store_cold_view [OF sep_typed_parts(1) [OF i(2)] v1, of True ?f] by blast
      have "sep_typed (st1\<lparr>sm_hdrs := m\<rparr>)"
      proof (cases k)
        case True
        then show ?thesis
          using typed_join [OF i(2) v1 _ owns False m(2)] m(3) free False by simp
      next
        case False
        then show ?thesis
          using m(2,3) by (intro sep_typed_cong [OF i(2)]) simp_all
      qed
      then show ?thesis
        using i(1) b np False m same v by (intro op_typedI [of _ k "st1\<lparr>sm_hdrs := m\<rparr>"]) (auto simp: sep_set_group_root_def on_hdrs_def)
    qed
  qed
qed

text \<open>Both setters of a group find the root, make it a group if need be, and write into the group.\<close>

lemma init_then_write:
  assumes t: "sep_typed st" and w: "sep_view st r = Some w" "cold_group_root w = nullptr" and f: "\<And>g. g_root (f g) = g_root g"
  obtains (refused) st1 where "sep_init_group_root st r = Some (False, st1)" "op_typed st (Some (False, st1))"
  | (written) st1 st2 grp w' where "sep_init_group_root st r = Some (True, st1)" "sf_header_group_state_local st1 r = Some grp" "grp \<noteq> nullptr"
      "write_gs st1 grp f = Some st2" "sep_typed st2" "sep_view st2 = (sep_view st)(r \<mapsto> w')"
proof -
  obtain b st1 w' where i: "sep_init_group_root st r = Some (b, st1)" "sep_typed st1" "sep_view st1 = (sep_view st)(r \<mapsto> w')"
    "cold_group_root w' = nullptr" "if b then cold_group w' \<noteq> nullptr else w' = w \<and> sm_groups st1 = sm_groups st"
    using sep_init_view [OF t w] by (elim exE conjE)
  show thesis
  proof (cases b)
    case False
    then show thesis
      using i w(1) by (intro refused [of st1] op_typedI [of _ False st1]) (auto split: if_splits)
  next
    case True
    have w1: "sep_view st1 r = Some w'" "cold_group w' \<noteq> nullptr"
      using i(3,5) True by simp_all
    obtain st2 where "write_gs st1 (cold_group w') f = Some st2" "sep_typed st2" "sm_hdrs st2 = sm_hdrs st1"
      using write_gs_typed [OF i(2) w1 f] by blast
    then show thesis
      using True i(1,3) root_group(2) [OF i(2) w1(1) i(4)] w1(2) by (intro written [of st1 "cold_group w'" st2 w']) simp_all
  qed
qed

lemma set_head_typed:
  assumes t: "sep_typed st" and v: "sep_view st p = Some v"
  shows "op_typed st (sep_set_group_head st p h)"
proof -
  have np: "p \<noteq> nullptr"
    by (rule compact_ok_null [OF sep_typed_parts(1) [OF t] v])
  let ?r = "view_root p v"
  obtain w where w: "sep_view st ?r = Some w" "cold_group_root w = nullptr" "sf_header_group_root_local (sm_hdrs st) p = Some ?r"
    "sf_header_group_state_local st ?r = Some (cold_group w)"
    using view_root_is_root [OF t v] by blast
  show ?thesis
  proof (cases "h = nullptr \<and> cold_group w = nullptr")
    case True
    then show ?thesis
      using t w np by (intro op_typedI [of _ True st]) (simp_all add: sep_set_group_head_def)
  next
    case False
    then have start: "sep_set_group_head st p h = do {
        (ok, st) \<leftarrow> sep_init_group_root st ?r;
        if \<not> ok then Some (False, st)
        else do {
          grp \<leftarrow> sf_header_group_state_local st ?r;
          if grp = nullptr then Some (False, st)
          else map_option (\<lambda>st. (True, st)) (write_gs st grp (\<lambda>g. g\<lparr>g_head := h\<rparr>))
        }
      }"
      using w np by (auto simp: sep_set_group_head_def)
    show ?thesis
    proof (rule init_then_write [OF t w(1,2), of "\<lambda>g. g\<lparr>g_head := h\<rparr>"], goal_cases)
      case (2 st1)
      then show ?case by (simp add: start)
    next
      case (3 st1 st2 grp w')
      then show ?case
        using w(1) by (intro op_typedI [of _ True st2]) (simp_all add: start)
    qed simp
  qed
qed

lemma set_count_typed:
  assumes t: "sep_typed st" and v: "sep_view st p = Some v"
  shows "op_typed st (sep_set_group_live_count st p n)"
proof -
  have np: "p \<noteq> nullptr"
    by (rule compact_ok_null [OF sep_typed_parts(1) [OF t] v])
  let ?r = "view_root p v" and ?f = "\<lambda>g. g\<lparr>group_live_count := n, g_dead := (if n = 0 then 1 else 0)\<rparr>"
  obtain w where w: "sep_view st ?r = Some w" "cold_group_root w = nullptr" "sf_header_group_root_local (sm_hdrs st) p = Some ?r"
    "sf_header_group_state_local st ?r = Some (cold_group w)"
    using view_root_is_root [OF t v] by blast
  show ?thesis
  proof (cases "n \<le> 1 \<and> cold_group w = nullptr")
    case True
    obtain st' where "sep_mark_dead st ?r (n = 0) = Some st'" "sep_typed st'" "sep_view st' = sep_view st"
      using mark_dead_typed [OF t w(1), of "n = 0"] by blast
    then show ?thesis
      using w np True by (intro op_typedI [of _ True st']) (simp_all add: sep_set_group_live_count_def)
  next
    case False
    then have start: "sep_set_group_live_count st p n = do {
        (ok, st) \<leftarrow> sep_init_group_root st ?r;
        if \<not> ok then Some (False, st)
        else do {
          grp \<leftarrow> sf_header_group_state_local st ?r;
          if grp = nullptr then Some (False, st)
          else do { st \<leftarrow> write_gs st grp ?f; st \<leftarrow> sep_mark_dead st ?r (n = 0); Some (True, st) }
        }
      }"
      using w np by (auto simp: sep_set_group_live_count_def simp del: not_le linorder_not_le)
    show ?thesis
    proof (rule init_then_write [OF t w(1,2), of ?f], goal_cases)
      case (2 st1)
      then show ?case by (simp add: start)
    next
      case (3 st1 st2 grp w')
      obtain st3 where "sep_mark_dead st2 ?r (n = 0) = Some st3" "sep_typed st3" "sep_view st3 = sep_view st2"
        using mark_dead_typed [OF 3(5), of ?r w' "n = 0"] 3(6) by auto
      then show ?case
        using 3 w(1) by (intro op_typedI [of _ True st3]) (simp_all add: start)
    qed simp
  qed
qed

lemma exec_group_op_typed:
  assumes t: "sep_typed st" and l: "group_op_legal st x"
  shows "op_typed st (exec_group_op st x)"
proof (cases x)
  case (JoinGroup p r)
  show ?thesis
  proof (cases "p = r")
    case True
    then obtain w where "sep_view st p = Some w"
      using l JoinGroup by (auto elim: is_rootE)
    then show ?thesis
      using join_typed [OF t, of p w r] l JoinGroup True by simp
  next
    case False
    then show ?thesis
      using join_typed [OF t] l JoinGroup by (auto split: option.splits)
  qed
next
  case (LeaveGroup p)
  then obtain v where v: "sep_view st p = Some v"
    using l by auto
  have "p \<noteq> nullptr"
    by (rule compact_ok_null [OF sep_typed_parts(1) [OF t] v])
  then show ?thesis
    using leave_typed [OF t v] LeaveGroup by (simp add: sep_set_group_root_def)
next
  case (DestroySidecar p)
  then obtain v where v: "sep_view st p = Some v"
    using l by auto
  have "cold_group_root w \<noteq> p" if "sep_view st q = Some w" for q w
    using l DestroySidecar that by (auto dest!: spec [of _ q])
  then show ?thesis
    using destroy_typed [OF t v] DestroySidecar by simp
qed (use assms init_typed [OF t] set_head_typed [OF t] set_count_typed [OF t] next_typed [OF t] in auto)

text \<open>Runs of operations, each legal where it starts, with any results of the allocations.\<close>

inductive sep_steps :: "sep_mem \<Rightarrow> sep_mem \<Rightarrow> bool" where
  steps_refl: "sep_steps st st"
| steps_step: "sep_steps st st1 \<Longrightarrow> group_op_legal st1 x \<Longrightarrow> exec_group_op st1 x = Some (b, st2) \<Longrightarrow> sep_steps st st2"

lemma sep_steps_typed: "sep_steps st st' \<Longrightarrow> sep_typed st \<Longrightarrow> sep_typed st'"
proof (induction rule: sep_steps.induct)
  case (steps_step st st1 x b st2)
  then show ?case
    using exec_group_op_typed [of st1 x] by (auto simp: op_typed_def)
qed

text \<open>What a header reads of its group is what the root reads.\<close>

lemma sep_reads:
  assumes t: "sep_typed st" and v: "sep_view st p = Some v"
  shows "\<exists>r grp. sf_header_group_root_local (sm_hdrs st) p = Some r \<and> sep_grouped st p = Some (grp \<noteq> nullptr)
    \<and> sep_group_lock st p = Some (if grp = nullptr then nullptr else grp + 32) \<and> sep_group_dead st p \<noteq> None
    \<and> (if grp = nullptr then sep_group_head st p = Some r \<and> sep_group_live_count st p \<noteq> None
       else \<exists>g. sm_groups st grp = Some g \<and> g_root g = r \<and> sep_group_live_count st p = Some (group_live_count g)
         \<and> sep_group_head st p = Some (if g_head g = nullptr then r else g_head g))"
proof -
  let ?r = "view_root p v"
  note ok = sep_typed_parts(1) [OF t]
  obtain w where w: "sep_view st ?r = Some w" "cold_group_root w = nullptr" "sf_header_group_root_local (sm_hdrs st) p = Some ?r"
    "sf_header_group_state_local st p = Some (cold_group w)" "sf_header_group_root_local (sm_hdrs st) ?r = Some ?r"
    "sf_header_group_state_local st ?r = Some (cold_group w)"
    by (rule view_root_is_root [OF t v])
  obtain h k where h: "cm_hdrs (sm_hdrs st) p = Some h" "cm_hdrs (sm_hdrs st) ?r = Some k"
    using v w(1) by (auto simp: cold_view_def split: option.splits)
  have np: "p \<noteq> nullptr" "?r \<noteq> nullptr"
    using compact_ok_null [OF ok v] compact_ok_null [OF ok w(1)] .
  show ?thesis
  proof (cases "cold_group w = nullptr")
    case True
    have "sep_grouped st p = Some False" "sep_group_lock st p = Some nullptr" "sep_group_dead st p \<noteq> None"
      "sep_group_head st p = Some ?r" "sep_group_live_count st p \<noteq> None"
      using True w h np by (auto simp: sep_grouped_def sep_group_lock_def sep_group_dead_def sep_group_head_def sep_group_live_count_def)
    then show ?thesis
      using w(3) by (intro exI [of _ ?r] exI [of _ nullptr]) simp
  next
    case False
    then obtain g where g: "sm_groups st (cold_group w) = Some g" "g_root g = ?r"
      using sep_typed_parts(3) [OF t w(1)] by blast
    then have "sep_grouped st p = Some True" "sep_group_lock st p = Some (cold_group w + 32)" "sep_group_dead st p \<noteq> None"
      "sep_group_head st p = Some (if g_head g = nullptr then ?r else g_head g)" "sep_group_live_count st p = Some (group_live_count g)"
      using False w h np by (auto simp: sep_grouped_def sep_group_lock_def sep_group_dead_def sep_group_head_def sep_group_live_count_def)
    then show ?thesis
      using w(3) False g by (intro exI [of _ ?r] exI [of _ "cold_group w"]) simp
  qed
qed

section \<open>Properties\<close>

text \<open>C31: Two threads that start a group at the same root.  The test for a group and the store of a new one are not one step
  and no lock is held, so when both threads find no group each allocates one and stores it, and both are told that all is
  well: the group of the first is lost, and the lock it may already hold is not the lock that all others take from then on.\<close>

theorem group_root_race:
  assumes t: "sep_typed st" and r: "sf_header_group_state_local st r = Some nullptr" "is_root st r" "can_store (sm_hdrs st) r"
    and q: "sm_group_callocs st = q1 # q2 # qs" "q1 \<noteq> nullptr" "q2 \<noteq> nullptr"
  shows "\<exists>st1 st2. sep_new_group st r = Some (True, st1) \<and> sep_group_lock st1 r = Some (q1 + 32)
    \<and> sep_new_group st1 r = Some (True, st2) \<and> sep_group_lock st2 r = Some (q2 + 32) \<and> q1 \<noteq> q2
    \<and> sm_groups st2 q1 \<noteq> None \<and> (\<forall>p. sep_view st2 p \<noteq> None \<longrightarrow> sf_header_group_state_local st2 p \<noteq> Some q1)"
proof -
  obtain w where w: "sep_view st r = Some w" "cold_group_root w = nullptr"
    using r(2) by (rule is_rootE)
  note parts = sep_typed_parts [OF t]
  have w0: "cold_group w = nullptr"
    using root_group(2) [OF t w] r(1) by simp
  have q12: "q1 \<noteq> q2" and fresh: "sm_groups st q1 = None"
    using parts(5,6) q by auto
  define w1 where "w1 = w\<lparr>cold_group := q1, cold_group_next := nullptr\<rparr>"
  obtain st1 where s1: "sep_new_group st r = Some (True, st1)" "compact_ok (sm_hdrs st1)" "sm_group_callocs st1 = q2 # qs"
    "sep_view st1 = (sep_view st)(r \<mapsto> w1)" "sm_groups st1 q1 \<noteq> None"
    "sm_groups st1 = (sm_groups st)(q1 \<mapsto> \<lparr>g_root = r, g_head = r, group_live_count = 1, g_dead = 0\<rparr>)"
    using new_group_view [OF parts(1) w(1) q(1,2)] r(3) unfolding w1_def by fastforce
  have t1: "sep_typed st1"
    by (rule typed_new_group [OF t w w0 q(1,2) s1(2,4) _ _ s1(6) _ s1(3)]) (simp_all add: w1_def w(2))
  have v1: "sep_view st1 r = Some w1" "cold_group_root w1 = nullptr" "cold_group w1 = q1"
    using s1(4) w(2) by (simp_all add: w1_def)
  have "w1 \<noteq> zero_cold"
    using v1(3) q(2) by (auto simp: zero_cold_def)
  then have "can_store (sm_hdrs st1) r"
    using has_cold_zero [OF s1(2) v1(1)] by (simp add: can_store_def)
  then obtain st2 where s2: "sep_new_group st1 r = Some (True, st2)" "compact_ok (sm_hdrs st2)"
    "sep_view st2 = (sep_view st1)(r \<mapsto> w1\<lparr>cold_group := q2, cold_group_next := nullptr\<rparr>)"
    "sm_groups st2 = (sm_groups st1)(q2 \<mapsto> \<lparr>g_root = r, g_head = r, group_live_count = 1, g_dead = 0\<rparr>)"
    using new_group_view [OF s1(2) v1(1) s1(3) q(3)] by fastforce
  have nr: "r \<noteq> nullptr"
    by (rule compact_ok_null [OF parts(1) w(1)])
  have lock1: "sep_group_lock st1 r = Some (q1 + 32)"
    using root_group(1,2) [OF t1 v1(1,2)] v1(3) q(2) nr by (simp add: sep_group_lock_def)
  have group2: "sf_header_group_state_local st2 p = Some (cold_group u)"
    if "sep_view st2 p = Some v" "sep_view st2 (view_root p v) = Some u" for p v u
    using group_root_view [OF s2(2) that(1)] read_cold_view [OF s2(2) that(2), of cold_group]
    by (simp add: sf_header_group_state_local_def zero_cold_def)
  have v2: "sep_view st2 r = Some (w1\<lparr>cold_group := q2, cold_group_next := nullptr\<rparr>)"
    "view_root r (w1\<lparr>cold_group := q2, cold_group_next := nullptr\<rparr>) = r"
    using s2(3) v1(2) by (simp_all add: view_root_def)
  have lock2: "sep_group_lock st2 r = Some (q2 + 32)"
    using group2 [OF v2(1)] group_root_view [OF s2(2) v2(1)] v2 q(3) nr by (simp add: sep_group_lock_def)
  have lost: "sf_header_group_state_local st2 p \<noteq> Some q1" if p: "sep_view st2 p \<noteq> None" for p
  proof -
    obtain v where v: "sep_view st1 p = Some v" "sep_view st2 p = Some (if p = r then w1\<lparr>cold_group := q2, cold_group_next := nullptr\<rparr> else v)"
      using p s2(3) v1(1) by (cases "p = r") auto
    obtain u where u: "sep_view st1 (view_root p v) = Some u"
      by (rule view_root_is_root [OF t1 v(1)])
    show ?thesis
    proof (cases "view_root p v = r")
      case True
      then have "sf_header_group_state_local st2 p = Some q2"
        using group2 [OF v(2)] v2 v(1) v1(1,2) by (cases "p = r") (auto simp: view_root_def)
      then show ?thesis
        using q12 by simp
    next
      case False
      then have "p \<noteq> r"
        using v(1) v1(1,2) by (auto simp: view_root_def)
      then have "sf_header_group_state_local st2 p = Some (cold_group u)"
        using group2 [OF v(2), of u] u False s2(3) by simp
      moreover have "cold_group u \<noteq> q1"
      proof
        assume "cold_group u = q1"
        then have "sm_groups st1 q1 \<noteq> None" "\<exists>g. sm_groups st1 q1 = Some g \<and> g_root g = view_root p v"
          using sep_typed_parts(3) [OF t1 u] q(2) by auto
        then show False
          using s1(6) False by auto
      qed
      ultimately show ?thesis by simp
    qed
  qed
  show ?thesis
    using s1(1,5) s2(1,4) lock1 lock2 q12 lost by (intro exI [of _ st1] exI [of _ st2]) simp
qed


text \<open>Two headers, of which the second joins the first, with memory for one cold state only at first.\<close>

definition demo_separate :: sep_mem where
  "demo_separate = \<lparr>sm_hdrs = demo_compact, sm_groups = Map.empty, sm_group_callocs = [0x3000]\<rparr>"

lemma demo_separate_view: "sep_view (demo_separate\<lparr>sm_group_callocs := cs\<rparr>) p = Some v \<Longrightarrow> v = zero_cold"
  by (auto simp: demo_separate_def demo_compact_def cold_view_def Let_def split: if_splits)

lemma demo_separate_typed_with:
  assumes "distinct (filter (\<lambda>a. a \<noteq> nullptr) cs)"
  shows "sep_typed (demo_separate\<lparr>sm_group_callocs := cs\<rparr>)" (is "sep_typed ?st")
proof (rule sep_typedI)
  show "cold_group v = nullptr \<and> (\<exists>q. q \<noteq> nullptr \<and> owns_group ?st (cold_group_root v) q)"
    if "sep_view ?st p = Some v" "cold_group_root v \<noteq> nullptr" for p v
    using that(2) unfolding demo_separate_view [OF that(1)] by (simp add: zero_cold_def)
  show "\<exists>g. sm_groups ?st (cold_group v) = Some g \<and> g_root g = p"
    if "sep_view ?st p = Some v" "cold_group v \<noteq> nullptr" for p v
    using that(2) unfolding demo_separate_view [OF that(1)] by (simp add: zero_cold_def)
qed (use demo_compact_ok(1) assms in \<open>simp_all add: demo_separate_def\<close>)

lemma demo_separate_typed: "sep_typed demo_separate"
  using demo_separate_typed_with [of "[0x3000]"] by (simp add: demo_separate_def)


theorem group_root_race_witness:
  "\<exists>st1 st2. sep_new_group (demo_separate\<lparr>sm_group_callocs := [0x3000, 0x4000]\<rparr>) 0x100 = Some (True, st1)
     \<and> sep_new_group st1 0x100 = Some (True, st2) \<and> sep_group_lock st1 0x100 \<noteq> sep_group_lock st2 0x100"
proof -
  let ?st = "demo_separate\<lparr>sm_group_callocs := [0x3000, 0x4000]\<rparr>"
  have t: "sep_typed ?st"
    by (rule demo_separate_typed_with) simp
  have v: "sep_view ?st 0x100 = Some zero_cold" "cold_group_root zero_cold = nullptr" "cold_group zero_cold = nullptr"
    by (simp_all add: demo_separate_def demo_compact_view) (simp_all add: zero_cold_def)
  have "sf_header_group_state_local ?st 0x100 = Some nullptr"
    using root_group(2) [OF t v(1,2)] v(3) by simp
  moreover have "is_root ?st 0x100" "can_store (sm_hdrs ?st) 0x100"
    using v by (simp_all add: is_root_def) (simp add: demo_separate_def can_store_def demo_compact_def Let_def)
  ultimately show ?thesis
    using group_root_race [OF t, of "0x100" "0x3000" "0x4000" "[]"] by fastforce
qed

end
