(* ===== verification/SF_Threads.thy ===== *)
theory SF_Threads
  imports SF_Abi
begin

unbundle bit_operations_syntax

text \<open>
  Retain and release of one object by several threads (\<open>SF_RUNTIME_THREADSAFE = 1\<close>; \<open>Runtime/src/arc.c\<close>).  A thread is in
  the middle of at most one call, and each of its steps is one access to the header or to the table of live objects (the tests before the count is touched are
  one step, and so are the writes of the disposal, after which nobody reads the header);
  the steps of the threads interleave in any order.  The reference count is changed by atomic additions and
  subtractions, everything else by plain reads and writes.  The object is an ordinary one, of a class with a trivial
  release, so that its end is \<open>dispose_plain_object\<close>.
\<close>

section \<open>State\<close>

text \<open>\<open>so_frees\<close> counts how often the block of the object was given back to its allocator.\<close>

record shared_object =
  so_refcount :: u32
  so_state :: u32
  so_flags :: u32
  so_registered :: bool
  so_frees :: nat

datatype arc_pc = Idle | Retain_check | Retain_add | Release_check | Release_sub | Release_zero
  | Dispose_check | Dispose_unregister | Dispose_mark | Dispose_free

text \<open>\<open>t_held\<close> is the number of references the code that runs on the thread owns.\<close>

record arc_thread =
  t_pc :: arc_pc
  t_held :: nat

record arc_state =
  a_object :: shared_object
  a_threads :: "arc_thread list"

section \<open>Steps\<close>

text \<open>What both calls look at before they touch the count.\<close>

definition counted_object :: "shared_object \<Rightarrow> bool" where
  "counted_object so \<longleftrightarrow> so_flags so AND SF_OBJ_FLAG_IMMORTAL = 0 \<and> so_state so = SF_OBJ_STATE_LIVE"

fun retain_step :: "shared_object \<Rightarrow> arc_thread \<Rightarrow> shared_object \<times> arc_thread" where
  "retain_step so t = (case t_pc t of
     Retain_check \<Rightarrow> (so, t\<lparr>t_pc := (if counted_object so then Retain_add else Idle)\<rparr>)
   | Retain_add \<Rightarrow> (so\<lparr>so_refcount := so_refcount so + 1\<rparr>, t\<lparr>t_pc := Idle, t_held := t_held t + 1\<rparr>)
   | _ \<Rightarrow> (so, t))"

fun release_step :: "shared_object \<Rightarrow> arc_thread \<Rightarrow> shared_object \<times> arc_thread" where
  "release_step so t = (case t_pc t of
     Release_check \<Rightarrow> (so, t\<lparr>t_pc := (if counted_object so then Release_sub else Idle)\<rparr>)
   | Release_sub \<Rightarrow>
       let old = so_refcount so in
       (so\<lparr>so_refcount := old - 1\<rparr>, t\<lparr>t_pc := (if old > 1 then Idle else if old = 0 then Release_zero else Dispose_check)\<rparr>)
   | Release_zero \<Rightarrow> (so\<lparr>so_refcount := 0\<rparr>, t\<lparr>t_pc := Idle\<rparr>)
   | _ \<Rightarrow> (so, t))"

fun dispose_step :: "shared_object \<Rightarrow> arc_thread \<Rightarrow> shared_object \<times> arc_thread" where
  "dispose_step so t = (case t_pc t of
     Dispose_check \<Rightarrow> (so, t\<lparr>t_pc := (if counted_object so then Dispose_unregister else Idle)\<rparr>)
   | Dispose_unregister \<Rightarrow> (so\<lparr>so_registered := False\<rparr>, t\<lparr>t_pc := Dispose_mark\<rparr>)
   | Dispose_mark \<Rightarrow> (so\<lparr>so_state := SF_OBJ_STATE_DISPOSED\<rparr>, t\<lparr>t_pc := Dispose_free\<rparr>)
   | Dispose_free \<Rightarrow> (so\<lparr>so_frees := so_frees so + 1\<rparr>, t\<lparr>t_pc := Idle\<rparr>)
   | _ \<Rightarrow> (so, t))"

text \<open>A step of a thread in the middle of a call is a fault once the block has been given back.\<close>

definition thread_step :: "shared_object \<Rightarrow> arc_thread \<Rightarrow> (shared_object \<times> arc_thread) option" where
  "thread_step so t =
     (if t_pc t = Idle then Some (so, t)
      else if so_frees so > 0 then None
      else Some (if t_pc t \<in> {Retain_check, Retain_add} then retain_step so t
                 else if t_pc t \<in> {Release_check, Release_sub, Release_zero} then release_step so t
                 else dispose_step so t))"

text \<open>The calls begin, references are handed from thread to thread, and threads run.\<close>

datatype arc_event = Retain nat | Release nat | Give nat nat | Run nat

fun exec_event :: "arc_state \<Rightarrow> arc_event \<Rightarrow> arc_state option" where
  "exec_event st (Retain i) = Some (st\<lparr>a_threads := (a_threads st)[i := (a_threads st ! i)\<lparr>t_pc := Retain_check\<rparr>]\<rparr>)"
| "exec_event st (Release i) = Some (st\<lparr>a_threads := (a_threads st)[i := (a_threads st ! i)\<lparr>t_pc := Release_check,
     t_held := t_held (a_threads st ! i) - 1\<rparr>]\<rparr>)"
| "exec_event st (Give i j) = Some (st\<lparr>a_threads := (a_threads st)[i := (a_threads st ! i)\<lparr>t_held := t_held (a_threads st ! i) - 1\<rparr>,
     j := (a_threads st ! j)\<lparr>t_held := t_held (a_threads st ! j) + 1\<rparr>]\<rparr>)"
| "exec_event st (Run i) = map_option (\<lambda>(so, t). \<lparr>a_object = so, a_threads = (a_threads st)[i := t]\<rparr>)
     (thread_step (a_object st) (a_threads st ! i))"

section \<open>The discipline of the clients\<close>

definition releasing :: "arc_thread \<Rightarrow> bool" where
  "releasing t \<longleftrightarrow> t_pc t \<in> {Release_check, Release_sub}"

definition retaining :: "arc_thread \<Rightarrow> bool" where
  "retaining t \<longleftrightarrow> t_pc t \<in> {Retain_check, Retain_add}"

definition disposing :: "arc_thread \<Rightarrow> bool" where
  "disposing t \<longleftrightarrow> t_pc t \<in> {Dispose_check, Dispose_unregister, Dispose_mark, Dispose_free}"

text \<open>The references a thread accounts for, and those that it will.\<close>

definition owned :: "arc_thread \<Rightarrow> nat" where
  "owned t = t_held t + of_bool (releasing t)"

definition wanted :: "arc_thread \<Rightarrow> nat" where
  "wanted t = owned t + of_bool (retaining t)"

abbreviation thread_total :: "(arc_thread \<Rightarrow> nat) \<Rightarrow> arc_state \<Rightarrow> nat" where
  "thread_total f st \<equiv> sum_list (map f (a_threads st))"

text \<open>
  A thread retains, releases or gives away only what it holds a reference to, and there are fewer references than the
  count can hold.
\<close>

fun arc_allowed :: "arc_state \<Rightarrow> arc_event \<Rightarrow> bool" where
  "arc_allowed st (Retain i) \<longleftrightarrow> i < length (a_threads st) \<and> t_pc (a_threads st ! i) = Idle \<and> t_held (a_threads st ! i) > 0
     \<and> thread_total wanted st + 1 < 2 ^ 32"
| "arc_allowed st (Release i) \<longleftrightarrow> i < length (a_threads st) \<and> t_pc (a_threads st ! i) = Idle \<and> t_held (a_threads st ! i) > 0"
| "arc_allowed st (Give i j) \<longleftrightarrow> i < length (a_threads st) \<and> j < length (a_threads st) \<and> i \<noteq> j
     \<and> t_pc (a_threads st ! i) = Idle \<and> t_held (a_threads st ! i) > 0"
| "arc_allowed st (Run i) \<longleftrightarrow> i < length (a_threads st)"

inductive arc_run :: "arc_state \<Rightarrow> arc_state \<Rightarrow> bool" where
  arc_run_refl: "arc_run st st"
| arc_run_step: "arc_run st st1 \<Longrightarrow> arc_allowed st1 e \<Longrightarrow> exec_event st1 e = Some st2 \<Longrightarrow> arc_run st st2"

text \<open>A live object whose count is the number of references held, and no call under way.\<close>

definition arc_start :: "arc_state \<Rightarrow> bool" where
  "arc_start st \<longleftrightarrow> (\<forall>t\<in>set (a_threads st). t_pc t = Idle) \<and> unat (so_refcount (a_object st)) = thread_total t_held st
     \<and> so_refcount (a_object st) > 0 \<and> so_state (a_object st) = SF_OBJ_STATE_LIVE
     \<and> so_flags (a_object st) AND SF_OBJ_FLAG_IMMORTAL = 0 \<and> so_registered (a_object st) \<and> so_frees (a_object st) = 0"

section \<open>Counting references\<close>

lemma total_update:
  fixes f :: "'a \<Rightarrow> nat"
  assumes "i < length ts"
  shows "sum_list (map f (ts[i := t])) + f (ts ! i) = sum_list (map f ts) + f t"
  using assms
proof (induction ts arbitrary: i)
  case (Cons x xs)
  then show ?case
    by (cases i) auto
qed simp

lemma total_member:
  fixes f :: "'a \<Rightarrow> nat"
  shows "t \<in> set ts \<Longrightarrow> f t \<le> sum_list (map f ts)"
  by (induction ts) auto

lemma total_wanted: "sum_list (map wanted ts) = sum_list (map owned ts) + sum_list (map (\<lambda>t. of_bool (retaining t)) ts)"
  by (induction ts) (simp_all add: wanted_def)

lemma owned_less_wanted: "i < length ts \<Longrightarrow> retaining (ts ! i) \<Longrightarrow> sum_list (map owned ts) < sum_list (map wanted ts)"
  using total_member [of "ts ! i" ts "\<lambda>t. of_bool (retaining t)"] by (simp add: total_wanted)

text \<open>Changing one thread without changing what it accounts for.\<close>

lemma total_same: "i < length ts \<Longrightarrow> f t = f (ts ! i) \<Longrightarrow> sum_list (map f (ts[i := t])) = (sum_list (map f ts) :: nat)"
  using total_update [of i ts f t] by simp

section \<open>The life of the object\<close>

definition arc_alive :: "arc_state \<Rightarrow> bool" where
  "arc_alive st \<longleftrightarrow> counted_object (a_object st) \<and> so_registered (a_object st) \<and> so_frees (a_object st) = 0
     \<and> unat (so_refcount (a_object st)) = thread_total owned st \<and> 0 < thread_total owned st \<and> thread_total wanted st < 2 ^ 32
     \<and> (\<forall>t\<in>set (a_threads st). \<not> disposing t \<and> t_pc t \<noteq> Release_zero \<and> (retaining t \<longrightarrow> t_held t > 0))"

definition disposal :: "shared_object \<Rightarrow> arc_pc \<Rightarrow> bool" where
  "disposal so pc \<longleftrightarrow> so_flags so AND SF_OBJ_FLAG_IMMORTAL = 0 \<and> so_frees so = 0
     \<and> (case pc of Dispose_check \<Rightarrow> so_state so = SF_OBJ_STATE_LIVE | Dispose_unregister \<Rightarrow> so_state so = SF_OBJ_STATE_LIVE
        | Dispose_mark \<Rightarrow> so_state so = SF_OBJ_STATE_LIVE \<and> \<not> so_registered so
        | Dispose_free \<Rightarrow> so_state so = SF_OBJ_STATE_DISPOSED \<and> \<not> so_registered so | _ \<Rightarrow> False)"

definition at_rest :: "arc_thread \<Rightarrow> bool" where
  "at_rest t \<longleftrightarrow> t_pc t = Idle \<and> t_held t = 0"

definition arc_dying :: "arc_state \<Rightarrow> bool" where
  "arc_dying st \<longleftrightarrow> (\<exists>i<length (a_threads st). disposal (a_object st) (t_pc (a_threads st ! i)) \<and> t_held (a_threads st ! i) = 0
     \<and> (\<forall>j<length (a_threads st). j \<noteq> i \<longrightarrow> at_rest (a_threads st ! j)))"

definition arc_dead :: "arc_state \<Rightarrow> bool" where
  "arc_dead st \<longleftrightarrow> (\<forall>t\<in>set (a_threads st). at_rest t) \<and> so_frees (a_object st) = 1 \<and> \<not> so_registered (a_object st)
     \<and> so_state (a_object st) = SF_OBJ_STATE_DISPOSED"

definition arc_inv :: "arc_state \<Rightarrow> bool" where
  "arc_inv st \<longleftrightarrow> arc_alive st \<or> arc_dying st \<or> arc_dead st"

lemma arc_aliveD:
  assumes "arc_alive st"
  shows "counted_object (a_object st)" "so_registered (a_object st)" "so_frees (a_object st) = 0"
    "unat (so_refcount (a_object st)) = thread_total owned st" "0 < thread_total owned st" "thread_total wanted st < 2 ^ 32"
    "\<And>t. t \<in> set (a_threads st) \<Longrightarrow> \<not> disposing t" "\<And>t. t \<in> set (a_threads st) \<Longrightarrow> t_pc t \<noteq> Release_zero"
    "\<And>t. t \<in> set (a_threads st) \<Longrightarrow> retaining t \<Longrightarrow> t_held t > 0"
  using assms by (simp_all add: arc_alive_def)

text \<open>A live object stays alive when one thread changes and accounts for it.\<close>

lemma alive_update:
  assumes a: "arc_alive st" and i: "i < length (a_threads st)" and so: "counted_object so" "so_registered so" "so_frees so = 0"
    and t: "\<not> disposing t" "t_pc t \<noteq> Release_zero" "retaining t \<Longrightarrow> t_held t > 0"
    and n: "unat (so_refcount so) + owned (a_threads st ! i) = thread_total owned st + owned t" "thread_total owned st + owned t > owned (a_threads st ! i)"
      "thread_total wanted st + wanted t < 2 ^ 32 + wanted (a_threads st ! i)"
  shows "arc_alive \<lparr>a_object = so, a_threads = (a_threads st)[i := t]\<rparr>"
proof -
  have "unat (so_refcount so) = sum_list (map owned ((a_threads st)[i := t]))" "0 < sum_list (map owned ((a_threads st)[i := t]))"
    "sum_list (map wanted ((a_threads st)[i := t])) < 2 ^ 32"
    using total_update [OF i, of owned t] total_update [OF i, of wanted t] n by linarith+
  moreover have "\<not> disposing u \<and> t_pc u \<noteq> Release_zero \<and> (retaining u \<longrightarrow> t_held u > 0)" if "u \<in> set ((a_threads st)[i := t])" for u
    using that arc_aliveD(7-9) [OF a] t by (auto dest!: set_update_subset_insert [THEN subsetD])
  ultimately show ?thesis
    using so by (simp add: arc_alive_def)
qed

lemma alive_rerun:
  assumes a: "arc_alive st" and i: "i < length (a_threads st)"
    and t: "\<not> disposing t" "t_pc t \<noteq> Release_zero" "retaining t \<Longrightarrow> t_held t > 0" "owned t = owned (a_threads st ! i)"
    and n: "thread_total wanted st + wanted t < 2 ^ 32 + wanted (a_threads st ! i)"
  shows "arc_alive \<lparr>a_object = a_object st, a_threads = (a_threads st)[i := t]\<rparr>"
  using arc_aliveD(1-5) [OF a] total_member [of "a_threads st ! i" "a_threads st" owned] i t n by (intro alive_update [OF a i]) auto

section \<open>The events\<close>

lemma arc_state_same_object [simp]: "\<lparr>a_object = a_object st, a_threads = ts\<rparr> = st\<lparr>a_threads := ts\<rparr>" "st\<lparr>a_threads := a_threads st\<rparr> = st"
  by (cases st; simp)+

lemma alive_retain:
  assumes a: "arc_alive st" and l: "arc_allowed st (Retain i)"
  shows "\<exists>st'. exec_event st (Retain i) = Some st' \<and> arc_alive st'"
proof -
  let ?t = "(a_threads st ! i)\<lparr>t_pc := Retain_check\<rparr>"
  have "arc_alive \<lparr>a_object = a_object st, a_threads = (a_threads st)[i := ?t]\<rparr>"
    using l by (intro alive_rerun [OF a]) (simp_all add: disposing_def retaining_def owned_def releasing_def wanted_def)
  then show ?thesis by simp
qed

lemma alive_release:
  assumes a: "arc_alive st" and l: "arc_allowed st (Release i)"
  shows "\<exists>st'. exec_event st (Release i) = Some st' \<and> arc_alive st'"
proof -
  let ?t = "(a_threads st ! i)\<lparr>t_pc := Release_check, t_held := t_held (a_threads st ! i) - 1\<rparr>"
  have "arc_alive \<lparr>a_object = a_object st, a_threads = (a_threads st)[i := ?t]\<rparr>"
    using l arc_aliveD(6) [OF a]
    by (intro alive_rerun [OF a]) (simp_all add: disposing_def retaining_def owned_def releasing_def wanted_def)
  then show ?thesis by simp
qed

lemma alive_give:
  assumes a: "arc_alive st" and l: "arc_allowed st (Give i j)"
  shows "\<exists>st'. exec_event st (Give i j) = Some st' \<and> arc_alive st'"
proof -
  let ?ts = "a_threads st"
  let ?t = "(?ts ! i)\<lparr>t_held := t_held (?ts ! i) - 1\<rparr>" and ?u = "(?ts ! j)\<lparr>t_held := t_held (?ts ! j) + 1\<rparr>"
  let ?ts' = "?ts[i := ?t, j := ?u]"
  have i: "i < length ?ts" "j < length ?ts" "i \<noteq> j" "t_pc (?ts ! i) = Idle" "t_held (?ts ! i) > 0"
    using l by simp_all
  have sums: "sum_list (map owned ?ts') = thread_total owned st" "sum_list (map wanted ?ts') = thread_total wanted st"
    using total_update [of i ?ts owned ?t] total_update [of j "?ts[i := ?t]" owned ?u]
      total_update [of i ?ts wanted ?t] total_update [of j "?ts[i := ?t]" wanted ?u] i
    by (simp_all add: owned_def wanted_def releasing_def retaining_def)
  have "\<not> disposing u \<and> t_pc u \<noteq> Release_zero \<and> (retaining u \<longrightarrow> t_held u > 0)" if u: "u \<in> set ?ts'" for u
  proof -
    consider "u \<in> set ?ts" | "u = ?t" | "u = ?u"
      using u by (auto dest!: set_update_subset_insert [THEN subsetD])
    then show ?thesis
      using arc_aliveD(7-9) [OF a] arc_aliveD(7,8) [OF a, of "?ts ! j"] i by cases (simp_all add: disposing_def retaining_def)
  qed
  then have "arc_alive (st\<lparr>a_threads := ?ts'\<rparr>)"
    using arc_aliveD(1-6) [OF a] sums by (simp add: arc_alive_def)
  then show ?thesis by simp
qed

text \<open>The count goes to zero when its only reference is released, and then no other thread is in a call.\<close>

lemma last_release:
  assumes a: "arc_alive st" and i: "i < length (a_threads st)" "t_pc (a_threads st ! i) = Release_sub" and one: "thread_total owned st = 1"
  shows "t_held (a_threads st ! i) = 0" "j < length (a_threads st) \<Longrightarrow> j \<noteq> i \<Longrightarrow> at_rest (a_threads st ! j)"
proof -
  let ?ts = "a_threads st"
  have o: "owned (?ts ! i) = t_held (?ts ! i) + 1"
    using i by (simp add: owned_def releasing_def)
  have "sum_list (map owned (?ts[i := \<lparr>t_pc = Idle, t_held = 0\<rparr>])) = 0" and held: "t_held (?ts ! i) = 0"
    using total_update [OF i(1), of owned "\<lparr>t_pc = Idle, t_held = 0\<rparr>"] one o by (simp_all add: owned_def releasing_def)
  then have zero: "owned (?ts[i := \<lparr>t_pc = Idle, t_held = 0\<rparr>] ! j) = 0" if "j < length ?ts" for j
    using that total_member [of "?ts[i := \<lparr>t_pc = Idle, t_held = 0\<rparr>] ! j" "?ts[i := \<lparr>t_pc = Idle, t_held = 0\<rparr>]" owned] by simp
  show "at_rest (?ts ! j)" if j: "j < length ?ts" "j \<noteq> i" for j
  proof -
    have "owned (?ts ! j) = 0"
      using zero [OF j(1)] j(2) by simp
    moreover have "\<not> disposing (?ts ! j)" "t_pc (?ts ! j) \<noteq> Release_zero" "retaining (?ts ! j) \<longrightarrow> t_held (?ts ! j) > 0"
      using arc_aliveD(7-9) [OF a, of "?ts ! j"] j(1) by simp_all
    ultimately show ?thesis
      by (cases "t_pc (?ts ! j)") (auto simp: at_rest_def owned_def releasing_def disposing_def retaining_def split: if_splits)
  qed
  show "t_held (?ts ! i) = 0"
    by (rule held)
qed

lemma alive_run:
  assumes a: "arc_alive st" and l: "arc_allowed st (Run i)"
  shows "\<exists>st'. exec_event st (Run i) = Some st' \<and> (arc_alive st' \<or> arc_dying st')"
proof -
  let ?ts = "a_threads st" and ?so = "a_object st"
  note d = arc_aliveD [OF a]
  have i: "i < length ?ts" "?ts ! i \<in> set ?ts"
    using l by simp_all
  have idle: "?ts[i := ?ts ! i] = ?ts"
    by simp
  consider "t_pc (?ts ! i) = Idle" | "t_pc (?ts ! i) = Retain_check" | "t_pc (?ts ! i) = Retain_add"
    | "t_pc (?ts ! i) = Release_check" | "t_pc (?ts ! i) = Release_sub"
    using d(7,8) [OF i(2)] by (cases "t_pc (?ts ! i)") (simp_all add: disposing_def)
  then show ?thesis
  proof cases
    case 1
    then show ?thesis
      using a by (simp add: thread_step_def)
  next
    case 2
    let ?t = "(?ts ! i)\<lparr>t_pc := Retain_add\<rparr>"
    have "arc_alive \<lparr>a_object = ?so, a_threads = ?ts[i := ?t]\<rparr>"
      using d(6) d(9) [OF i(2)] 2 by (intro alive_rerun [OF a i(1)]) (simp_all add: disposing_def retaining_def owned_def releasing_def wanted_def)
    then show ?thesis
      using 2 d(1,3) by (simp add: thread_step_def)
  next
    case 3
    let ?t = "(?ts ! i)\<lparr>t_pc := Idle, t_held := t_held (?ts ! i) + 1\<rparr>"
    have less: "thread_total owned st < thread_total wanted st"
      using owned_less_wanted [OF i(1)] 3 by (simp add: retaining_def)
    then have "unat (so_refcount ?so + 1) = thread_total owned st + 1"
      using d(4,6) by (subst unat_word_ariths) simp
    then have "arc_alive \<lparr>a_object = ?so\<lparr>so_refcount := so_refcount ?so + 1\<rparr>, a_threads = ?ts[i := ?t]\<rparr>"
      using d(1-6) 3 by (intro alive_update [OF a i(1)])
        (simp_all add: disposing_def retaining_def owned_def releasing_def wanted_def counted_object_def)
    then show ?thesis
      using 3 d(1,3) by (simp add: thread_step_def)
  next
    case 4
    let ?t = "(?ts ! i)\<lparr>t_pc := Release_sub\<rparr>"
    have "arc_alive \<lparr>a_object = ?so, a_threads = ?ts[i := ?t]\<rparr>"
      using d(6) 4 by (intro alive_rerun [OF a i(1)]) (simp_all add: disposing_def retaining_def owned_def releasing_def wanted_def)
    then show ?thesis
      using 4 d(1,3) by (simp add: thread_step_def)
  next
    case 5
    let ?old = "so_refcount ?so"
    let ?so' = "?so\<lparr>so_refcount := ?old - 1\<rparr>"
    have pos: "?old \<noteq> 0"
      using d(4,5) by (metis less_irrefl unat_0)
    have minus: "unat (?old - 1) = thread_total owned st - 1"
      using d(4,5) pos by (simp add: unat_minus_one)
    show ?thesis
    proof (cases "?old > 1")
      case True
      let ?t = "(?ts ! i)\<lparr>t_pc := Idle\<rparr>"
      have "1 < thread_total owned st"
        using True d(4) by (simp add: word_less_nat_alt)
      then have "arc_alive \<lparr>a_object = ?so', a_threads = ?ts[i := ?t]\<rparr>"
        using d(1-6) 5 minus by (intro alive_update [OF a i(1)])
          (simp_all add: disposing_def retaining_def owned_def releasing_def wanted_def counted_object_def)
      then show ?thesis
        using 5 d(3) True by (simp add: thread_step_def)
    next
      case False
      then have "thread_total owned st = 1"
        using d(4,5) by (simp add: word_less_nat_alt)
      note last = last_release [OF a i(1) 5 this]
      let ?t = "(?ts ! i)\<lparr>t_pc := Dispose_check\<rparr>"
      have "arc_dying \<lparr>a_object = ?so', a_threads = ?ts[i := ?t]\<rparr>"
        unfolding arc_dying_def using i(1) last d(1,3) by (intro exI [of _ i]) (simp add: disposal_def counted_object_def)
      then show ?thesis
        using 5 d(3) False pos by (simp add: thread_step_def)
    qed
  qed
qed

lemma dying_run:
  assumes a: "arc_dying st" and l: "arc_allowed st e"
  shows "\<exists>st'. exec_event st e = Some st' \<and> (arc_dying st' \<or> arc_dead st')"
proof -
  let ?ts = "a_threads st" and ?so = "a_object st"
  obtain i where i: "i < length ?ts" "disposal ?so (t_pc (?ts ! i))" "t_held (?ts ! i) = 0"
    "\<And>j. j < length ?ts \<Longrightarrow> j \<noteq> i \<Longrightarrow> at_rest (?ts ! j)"
    using a unfolding arc_dying_def by blast
  have held: "t_held (?ts ! j) = 0" if "j < length ?ts" for j
    using that i(3,4) by (cases "j = i") (simp_all add: at_rest_def)
  obtain j where j: "e = Run j" "j < length ?ts"
    using l held by (cases e) auto
  show ?thesis
  proof (cases "j = i")
    case False
    then show ?thesis
      using a j i(4) by (simp add: thread_step_def at_rest_def)
  next
    case True
    have keep: "arc_dying \<lparr>a_object = so, a_threads = ?ts[i := (?ts ! i)\<lparr>t_pc := pc\<rparr>]\<rparr>" if "disposal so pc" for so pc
      unfolding arc_dying_def using that i(1,3,4) by (intro exI [of _ i]) simp
    consider "t_pc (?ts ! i) = Dispose_check" | "t_pc (?ts ! i) = Dispose_unregister" | "t_pc (?ts ! i) = Dispose_mark"
      | "t_pc (?ts ! i) = Dispose_free"
      using i(2) by (cases "t_pc (?ts ! i)") (simp_all add: disposal_def)
    then show ?thesis
    proof cases
      case 1
      then show ?thesis
        using keep [of ?so Dispose_unregister] i(2) j True by (simp add: thread_step_def disposal_def counted_object_def)
    next
      case 2
      then show ?thesis
        using keep [of "?so\<lparr>so_registered := False\<rparr>" Dispose_mark] i(2) j True by (simp add: thread_step_def disposal_def)
    next
      case 3
      then show ?thesis
        using keep [of "?so\<lparr>so_state := SF_OBJ_STATE_DISPOSED\<rparr>" Dispose_free] i(2) j True by (simp add: thread_step_def disposal_def)
    next
      case 4
      have "at_rest t" if "t \<in> set (?ts[i := (?ts ! i)\<lparr>t_pc := Idle\<rparr>])" for t
        using that i(1,3,4) by (auto simp: in_set_conv_nth nth_list_update at_rest_def)
      then show ?thesis
        using 4 i(2) j True by (simp add: thread_step_def disposal_def arc_dead_def)
    qed
  qed
qed

lemma dead_run:
  assumes a: "arc_dead st" and l: "arc_allowed st e"
  shows "exec_event st e = Some st"
proof -
  have rest: "at_rest (a_threads st ! i)" if "i < length (a_threads st)" for i
    using a that by (simp add: arc_dead_def)
  obtain i where "e = Run i" "i < length (a_threads st)"
    using l rest by (cases e) (auto simp: at_rest_def)
  then show ?thesis
    using rest by (simp add: thread_step_def at_rest_def)
qed

lemma arc_inv_step:
  assumes "arc_inv st" "arc_allowed st e"
  shows "\<exists>st'. exec_event st e = Some st' \<and> arc_inv st'"
proof -
  consider "arc_alive st" | "arc_dying st" | "arc_dead st"
    using assms(1) by (auto simp: arc_inv_def)
  then show ?thesis
  proof cases
    case 1
    then show ?thesis
      using assms(2) alive_retain alive_release alive_give alive_run unfolding arc_inv_def by (cases e) blast+
  next
    case 2
    then show ?thesis
      using dying_run [OF 2 assms(2)] unfolding arc_inv_def by blast
  next
    case 3
    then show ?thesis
      using dead_run [OF 3 assms(2)] by (simp add: arc_inv_def)
  qed
qed

lemma arc_run_inv: "arc_run st st' \<Longrightarrow> arc_inv st \<Longrightarrow> arc_inv st'"
proof (induction rule: arc_run.induct)
  case (arc_run_step st st1 e st2)
  then show ?case
    using arc_inv_step [of st1 e] by auto
qed

lemma arc_start_inv: "arc_start st \<Longrightarrow> arc_inv st"
proof -
  assume s: "arc_start st"
  have "owned t = t_held t" "wanted t = t_held t" "\<not> disposing t" "\<not> retaining t" "t_pc t = Idle" if "t \<in> set (a_threads st)" for t
    using s that by (simp_all add: arc_start_def owned_def wanted_def releasing_def retaining_def disposing_def)
  then have "thread_total owned st = thread_total t_held st" "thread_total wanted st = thread_total t_held st"
    by (simp_all cong: map_cong)
  moreover have "unat (so_refcount (a_object st)) < 2 ^ 32"
    using unsigned_less [of "so_refcount (a_object st)"] by simp
  ultimately show "arc_inv st"
    using s \<open>\<And>t. t \<in> set (a_threads st) \<Longrightarrow> \<not> disposing t\<close> \<open>\<And>t. t \<in> set (a_threads st) \<Longrightarrow> \<not> retaining t\<close>
    by (auto simp: arc_inv_def arc_alive_def arc_start_def counted_object_def word_less_nat_alt)
qed

section \<open>Properties\<close>

text \<open>C11: Retains and releases of an object by any number of threads, in any interleaving of their single steps, when each thread
  only uses references it holds: no step touches the object after its block was given back, the block is given back at
  most once, while any thread holds a reference the object is live, registered and counts the references held and being
  released, and when no thread holds one and all calls are over the object has been unregistered and freed.\<close>

theorem arc_threads_safe:
  assumes "arc_start st" "arc_run st st'"
  shows "(\<forall>e. arc_allowed st' e \<longrightarrow> exec_event st' e \<noteq> None) \<and> so_frees (a_object st') \<le> 1
    \<and> ((\<exists>t\<in>set (a_threads st'). t_held t > 0) \<longrightarrow> so_state (a_object st') = SF_OBJ_STATE_LIVE \<and> so_registered (a_object st')
         \<and> so_frees (a_object st') = 0 \<and> unat (so_refcount (a_object st')) = thread_total owned st')
    \<and> ((\<forall>t\<in>set (a_threads st'). t_pc t = Idle \<and> t_held t = 0) \<longrightarrow> so_frees (a_object st') = 1 \<and> \<not> so_registered (a_object st'))"
proof -
  have inv: "arc_inv st'"
    by (rule arc_run_inv [OF assms(2) arc_start_inv [OF assms(1)]])
  have steps: "\<forall>e. arc_allowed st' e \<longrightarrow> exec_event st' e \<noteq> None"
    using arc_inv_step [OF inv] by auto
  consider "arc_alive st'" | "arc_dying st'" | "arc_dead st'"
    using inv by (auto simp: arc_inv_def)
  then show ?thesis
  proof cases
    case 1
    have "\<exists>t\<in>set (a_threads st'). owned t > 0"
    proof (rule ccontr)
      assume "\<not> (\<exists>t\<in>set (a_threads st'). owned t > 0)"
      then have "thread_total owned st' = 0"
        by simp
      then show False
        using arc_aliveD(5) [OF 1] by linarith
    qed
    moreover have "owned t = 0" if "t_pc t = Idle" "t_held t = 0" for t
      using that by (simp add: owned_def releasing_def)
    ultimately have "\<not> (\<forall>t\<in>set (a_threads st'). t_pc t = Idle \<and> t_held t = 0)"
      by (metis less_irrefl)
    then show ?thesis
      using steps arc_aliveD(1-4) [OF 1] by (auto simp: counted_object_def)
  next
    case 2
    then obtain i where i: "i < length (a_threads st')" "disposal (a_object st') (t_pc (a_threads st' ! i))" "t_held (a_threads st' ! i) = 0"
      "\<forall>j<length (a_threads st'). j \<noteq> i \<longrightarrow> at_rest (a_threads st' ! j)"
      unfolding arc_dying_def by blast
    have "t_held t = 0" if t: "t \<in> set (a_threads st')" for t
    proof -
      obtain j where "j < length (a_threads st')" "t = a_threads st' ! j"
        using t by (auto simp: in_set_conv_nth)
      then show ?thesis
        using i(3,4) by (cases "j = i") (auto simp: at_rest_def)
    qed
    moreover have "t_pc (a_threads st' ! i) \<noteq> Idle" "so_frees (a_object st') = 0"
      using i(2) by (auto simp: disposal_def)
    ultimately show ?thesis
      using steps i(1) nth_mem [OF i(1)] by auto
  next
    case 3
    then show ?thesis
      using steps by (auto simp: arc_dead_def at_rest_def)
  qed
qed

text \<open>Two threads that each hold a reference and release it: both test the object before either subtracts.\<close>

definition demo_shared :: arc_state where
  "demo_shared = \<lparr>a_object = \<lparr>so_refcount = 2, so_state = SF_OBJ_STATE_LIVE, so_flags = 0, so_registered = True, so_frees = 0\<rparr>,
     a_threads = [\<lparr>t_pc = Idle, t_held = 1\<rparr>, \<lparr>t_pc = Idle, t_held = 1\<rparr>]\<rparr>"

fun run_events :: "arc_state \<Rightarrow> arc_event list \<Rightarrow> arc_state option" where
  "run_events st [] = Some st"
| "run_events st (e # es) = (if arc_allowed st e then Option.bind (exec_event st e) (\<lambda>st. run_events st es) else None)"

lemma run_events_arc_run: "run_events st1 es = Some st2 \<Longrightarrow> arc_run st st1 \<Longrightarrow> arc_run st st2"
  by (induction es arbitrary: st1) (auto split: if_splits Option.bind_splits intro: arc_run_step)

definition demo_schedule :: "arc_event list" where
  "demo_schedule = [Release 0, Release 1, Run 0, Run 1, Run 1, Run 0, Run 0, Run 0, Run 0, Run 0]"

theorem arc_threads_safe_witness:
  "\<exists>st'. run_events demo_shared demo_schedule = Some st' \<and> so_frees (a_object st') = 1 \<and> \<not> so_registered (a_object st')"
proof -
  have start: "arc_start demo_shared"
    by (simp add: arc_start_def demo_shared_def)
  obtain st' where st': "run_events demo_shared demo_schedule = Some st'" "\<forall>t\<in>set (a_threads st'). t_pc t = Idle \<and> t_held t = 0"
    by (simp add: demo_schedule_def demo_shared_def thread_step_def counted_object_def Let_def)
  show ?thesis
    using arc_threads_safe [OF start run_events_arc_run [OF st'(1) arc_run_refl]] st' by blast
qed

end
