(* ===== verification/SF_Windows.thy ===== *)
theory SF_Windows
  imports SF_Send
begin

unbundle bit_operations_syntax

text \<open>
  The C backend on Windows (\<open>SF_DISPATCH_C_USE_LIBFFI = 0\<close> in \<open>Runtime/src/dispatch/dispatch-c.c\<close>): there is no
  libffi, and what the backend can call is what a \<open>switch\<close> spells out, at most four words or one floating-point value.
  A \<open>va_list\<close> is a row of eight-byte slots there, and the floating-point registers \<open>xmm2\<close> to \<open>xmm5\<close> are read at the
  entry of \<open>objc_msgSend\<close>.
\<close>

section \<open>Reading the arguments\<close>

definition win_va_word :: "u64 list \<Rightarrow> (u64 \<times> u64 list) option" where
  "win_va_word ap = (case ap of [] \<Rightarrow> None | w # ws \<Rightarrow> Some (w, ws))"

text \<open>A \<open>long\<close> has 32 bits.\<close>

definition win_word :: "char \<Rightarrow> u64 \<Rightarrow> u64" where
  "win_word code w =
     (if code \<in> set ''csiBl'' then signed_take_bit 31 w else if code \<in> set ''CSIL'' then take_bit 32 w else w)"

definition win_read_word_arg :: "u64 list \<Rightarrow> char \<Rightarrow> (u64 \<times> u64 list) option" where
  "win_read_word_arg ap code = map_option (\<lambda>(w, ap). (win_word code w, ap)) (win_va_word ap)"

text \<open>The values read, as the bits of the union \<open>SFCArgValue_t\<close>.\<close>

fun win_read_args :: "float_conversions \<Rightarrow> u64 list \<Rightarrow> (nat \<Rightarrow> u64) \<Rightarrow> nat \<Rightarrow> string \<Rightarrow> u64 list option" where
  "win_read_args fc ap fp i [] = Some []"
| "win_read_args fc ap fp i (c # cs) = do {
     (v, ap) \<leftarrow> (if is_float_code c
       then map_option (\<lambda>(_, ap). (if c = CHR ''f'' then take_bit 32 (double_to_float fc (fp i)) else fp i, ap)) (win_va_word ap)
       else win_read_word_arg ap c);
     vs \<leftarrow> win_read_args fc ap fp (i + 1) cs;
     Some (v # vs)
   }"

section \<open>The calls\<close>

datatype direct_arg = WordArg u64 | FloatArg u64 | DoubleArg u64

datatype direct_call = NoCall | Call addr addr addr "direct_arg list"

definition call_word_imp :: "addr \<Rightarrow> addr \<Rightarrow> addr \<Rightarrow> u64 list \<Rightarrow> nat \<Rightarrow> direct_call" where
  "call_word_imp imp receiver op args argc =
     (if argc \<in> {0, 1, 2, 3, 4} then Call imp receiver op (map WordArg (take argc args)) else NoCall)"

definition call_direct_imp :: "addr \<Rightarrow> addr \<Rightarrow> addr \<Rightarrow> u64 list \<Rightarrow> string \<Rightarrow> nat \<Rightarrow> direct_call" where
  "call_direct_imp imp receiver op args arg_codes argc =
     (if \<not> arg_codes_contain_float (take argc arg_codes) then call_word_imp imp receiver op args argc
      else if argc = 1 then
        (if arg_codes ! 0 = CHR ''f'' then Call imp receiver op [FloatArg (take_bit 32 (args ! 0))]
         else if arg_codes ! 0 = CHR ''d'' then Call imp receiver op [DoubleArg (args ! 0)]
         else NoCall)
      else NoCall)"

definition objc_msgSend_windows :: "float_conversions \<Rightarrow> dispatch_env \<Rightarrow> SFCSigCacheEntry list \<Rightarrow> addr \<Rightarrow> addr \<Rightarrow> u64 list \<Rightarrow>
    (nat \<Rightarrow> u64) \<Rightarrow> (direct_call \<times> SFCSigCacheEntry list) option" where
  "objc_msgSend_windows fc env cache receiver op ap windows_fp_args = do {
     (imp, receiver, op) \<leftarrow> sf_resolve_message_dispatch env receiver op;
     let ((arg_codes, unsupported_sig), cache) = collect_explicit_arg_codes_cached (d_sels env) cache op;
     let argc = length arg_codes;
     if unsupported_sig then Some (NoCall, cache)
     else do {
       vs \<leftarrow> win_read_args fc ap windows_fp_args 0 arg_codes;
       let args = vs @ replicate (SF_C_FALLBACK_MAX_ARGS - argc) 0;
       Some (if argc \<in> {0, 1, 2, 3, 4} then call_direct_imp imp receiver op args arg_codes argc else NoCall, cache)
     }
   }"

text \<open>With a structure for a result the address of the result comes first, and every argument is read as a word; this
  is the part behind the collection of the arguments.\<close>

definition win_read_call_arg :: "u64 list \<Rightarrow> SFCCallArgInfo \<Rightarrow> (u64 \<times> u64 list) option" where
  "win_read_call_arg ap info =
     (if ai_kind info = KIND_AGGREGATE_WORD then win_va_word ap
      else if ai_kind info = KIND_STRUCT_BYTES then win_va_word ap
      else if ai_kind info = KIND_AGGREGATE_POINTER then win_va_word ap
      else win_read_word_arg ap (ai_code info))"

fun win_read_call_args :: "u64 list \<Rightarrow> SFCCallArgInfo list \<Rightarrow> u64 list option" where
  "win_read_call_args ap [] = Some []"
| "win_read_call_args ap (i # is) = do { (v, ap) \<leftarrow> win_read_call_arg ap i; vs \<leftarrow> win_read_call_args ap is; Some (v # vs) }"

definition win_stret_call :: "addr \<Rightarrow> addr \<Rightarrow> addr \<Rightarrow> addr \<Rightarrow> u64 list \<Rightarrow> SFCCallArgInfo list \<Rightarrow> (addr \<times> direct_call) option" where
  "win_stret_call imp out receiver op ap arg_infos = do {
     args \<leftarrow> win_read_call_args ap arg_infos;
     Some (out, if length arg_infos \<in> {0, 1, 2, 3, 4} then Call imp receiver op (map WordArg args) else NoCall)
   }"

section \<open>What the codes of a method are\<close>

lemma collect_codes_encode:
  assumes "list_all (\<lambda>a. type_ok (fst a) \<and> hd (encode (fst a)) \<noteq> CHR ''D'') args" "2 \<le> i" "length codes \<le> 4"
  shows "collect_codes_loop (method_args args) i codes =
     (codes @ map (\<lambda>a. hd (encode (fst a))) (take (4 - length codes) args), 4 < length codes + length args)"
  using assms
proof (induction args arbitrary: i codes)
  case Nil
  then show ?case by (simp add: collect_codes_loop.simps)
next
  case (Cons a args)
  obtain t off where a: "a = (t, off)" by (cases a)
  have t: "type_ok t" "hd (encode t) \<noteq> CHR ''D''" using Cons.prems(1) by (simp_all add: a)
  let ?token = "encode t @ decimal off @ method_args args"
  note step = collect_codes_loop.simps [of ?token i codes]
  show ?case
  proof (cases "length codes < 4")
    case False
    then show ?thesis
      using Cons.prems(2,3) t(2) by (simp add: step a SF_C_FALLBACK_MAX_ARGS_def primary_encode Let_def)
  next
    case True
    then have k: "4 - length codes = Suc (3 - length codes)" by simp
    have "collect_codes_loop (method_args args) (i + 1) (codes @ [hd (encode t)]) =
        ((codes @ [hd (encode t)]) @ map (\<lambda>a. hd (encode (fst a))) (take (4 - length (codes @ [hd (encode t)])) args),
         4 < length (codes @ [hd (encode t)]) + length args)"
      using Cons.IH [of "i + 1" "codes @ [hd (encode t)]"] Cons.prems True by simp
    then show ?thesis
      using Cons.prems(2) t True skip_argument [OF t(1), of off args] k
      by (simp add: step a SF_C_FALLBACK_MAX_ARGS_def primary_encode Let_def)
  qed
qed

lemma collect_codes_skip:
  assumes "type_ok t" "i < 2"
  shows "collect_codes_loop (method_args ((t, off) # args)) i codes = collect_codes_loop (method_args args) (i + 1) codes"
  using assms skip_argument [OF assms(1), of off args] by (subst collect_codes_loop.simps) (simp add: Let_def)

lemma collect_codes_method:
  assumes "type_ok ret" "type_ok t0" "type_ok t1" "list_all (\<lambda>a. type_ok (fst a) \<and> hd (encode (fst a)) \<noteq> CHR ''D'') args"
  shows "collect_explicit_arg_codes (Some (method_encoding ret frame ((t0, o0) # (t1, o1) # args))) =
     (map (\<lambda>a. hd (encode (fst a))) (take 4 args), 4 < length args)"
proof -
  let ?args = "(t0, o0) # (t1, o1) # args"
  let ?types = "method_encoding ret frame ?args"
  have ne: "?types \<noteq> []" by (simp add: method_encoding_def)
  have "method_args ?args = [] \<or> \<not> is_digit_char (hd (method_args ?args))"
    using method_args_start [of ?args] by (auto simp: is_offset_char_def)
  then have "dropWhile is_digit_char (skip_type_token ?types) = method_args ?args"
    unfolding method_encoding_def skip_encode [OF assms(1) number_rest_ok] by (rule drop_number [OF decimal_digits])
  then have "collect_explicit_arg_codes (Some ?types) = collect_codes_loop (method_args ?args) 0 []"
    using ne by (simp add: collect_explicit_arg_codes_def)
  also have "\<dots> = collect_codes_loop (method_args args) (0 + 1 + 1) []"
    using collect_codes_skip [OF assms(2), of 0 o0 "(t1, o1) # args" "[]"] collect_codes_skip [OF assms(3), of 1 o1 args "[]"]
    by simp
  finally show ?thesis
    using collect_codes_encode [OF assms(4), of 2 "[]"] by (simp add: numeral_2_eq_2)
qed

lemma win_read_args_words:
  assumes "length cs \<le> length ap"
  shows "\<exists>vs. win_read_args fc ap fp i cs = Some vs \<and> length vs = length cs
    \<and> (\<forall>k < length cs. vs ! k = (if cs ! k = CHR ''f'' then take_bit 32 (double_to_float fc (fp (i + k)))
         else if cs ! k = CHR ''d'' then fp (i + k) else win_word (cs ! k) (ap ! k)))"
  using assms
proof (induction cs arbitrary: ap i)
  case (Cons c cs)
  obtain w ws where ap: "ap = w # ws" using Cons.prems by (cases ap) auto
  obtain vs where vs: "win_read_args fc ws fp (i + 1) cs = Some vs" "length vs = length cs"
    "\<forall>k < length cs. vs ! k = (if cs ! k = CHR ''f'' then take_bit 32 (double_to_float fc (fp (i + 1 + k)))
         else if cs ! k = CHR ''d'' then fp (i + 1 + k) else win_word (cs ! k) (ws ! k))"
    using Cons.IH [of ws "i + 1"] Cons.prems by (auto simp: ap)
  let ?v = "if c = CHR ''f'' then take_bit 32 (double_to_float fc (fp i)) else if c = CHR ''d'' then fp i else win_word c w"
  have "win_read_args fc ap fp i (c # cs) = Some (?v # vs)"
    using vs(1) by (simp add: ap win_va_word_def win_read_word_arg_def is_float_code_def)
  moreover have "(?v # vs) ! k = (if (c # cs) ! k = CHR ''f'' then take_bit 32 (double_to_float fc (fp (i + k)))
         else if (c # cs) ! k = CHR ''d'' then fp (i + k) else win_word ((c # cs) ! k) (ap ! k))" if "k < length (c # cs)" for k
    using vs(3) that by (cases k) (simp_all add: ap)
  ultimately show ?case using vs(2) by (intro exI [of _ "?v # vs"]) simp
qed simp

section \<open>Messages that get through\<close>

definition type_code :: "ctype \<times> nat \<Rightarrow> char" where
  "type_code a = hd (encode (fst a))"

text \<open>C24: On Windows a message whose method takes up to four arguments is sent only when none of them is a floating-point
  value, and then every argument arrives as the word its type narrows it to, or when a floating-point value is the only
  argument, and then it arrives; a message with a floating-point value among several arguments, and one with more than four
  arguments, calls nothing.  The signature cache is left correct.\<close>

theorem windows_messages:
  assumes resolved: "sf_resolve_message_dispatch env receiver op = Some (imp, receiver', op')"
    and types: "sf_selector_types (d_sels env) op' = Some (method_encoding ret frame (self # sel # args))"
    and ok: "type_ok ret" "type_ok (fst self)" "type_ok (fst sel)" "list_all (\<lambda>a. type_ok (fst a) \<and> type_code a \<noteq> CHR ''D'') args"
    and cache: "sig_cache_ok (d_sels env) S cache" "op' \<in> S" "op' \<noteq> nullptr" "sf_selector_slot (d_sels env) op' \<noteq> 0"
    and same: "\<forall>a \<in> S. sf_selector_slot (d_sels env) a = sf_selector_slot (d_sels env) op' \<longrightarrow>
      sf_selector_types (d_sels env) a = sf_selector_types (d_sels env) op'"
    and slots: "length args \<le> length slots"
  shows "\<exists>cache'. sig_cache_ok (d_sels env) S cache' \<and> objc_msgSend_windows fc env cache receiver op slots fp =
    Some (if 4 < length args then NoCall
          else if \<forall>a \<in> set args. \<not> is_float_code (type_code a)
          then Call imp receiver' op' (map2 (\<lambda>a w. WordArg (win_word (type_code a) w)) args slots)
          else if length args = 1
          then Call imp receiver' op' [if type_code (hd args) = CHR ''f'' then FloatArg (take_bit 32 (double_to_float fc (fp 0)))
            else DoubleArg (fp 0)]
          else NoCall, cache')"
proof -
  obtain t0 o0 t1 o1 where st: "self = (t0, o0)" "sel = (t1, o1)" by (cases self, cases sel)
  let ?codes = "map type_code (take 4 args)"
  have ok': "list_all (\<lambda>a. type_ok (fst a) \<and> hd (encode (fst a)) \<noteq> CHR ''D'') args"
    using ok(4) by (simp add: type_code_def)
  have codes: "collect_explicit_arg_codes (sf_selector_types (d_sels env) op') = (?codes, 4 < length args)"
    using collect_codes_method [OF ok(1) _ _ ok', of t0 t1 frame o0 o1] ok(2,3) by (simp add: types st type_code_def)
  obtain cache' where c: "collect_explicit_arg_codes_cached (d_sels env) cache op' = ((?codes, 4 < length args), cache')"
    "sig_cache_ok (d_sels env) S cache'"
    using cached_step [OF cache] same codes by metis
  show ?thesis
  proof (cases "4 < length args")
    case True
    then show ?thesis
      using resolved c by (intro exI [of _ cache']) (simp add: objc_msgSend_windows_def)
  next
    case False
    then have all: "?codes = map type_code args"
      by simp
    have argc: "length args \<in> {0, 1, 2, 3, 4}"
      unfolding insert_iff empty_iff using False by presburger
    note few = all argc
    obtain vs where vs: "win_read_args fc slots fp 0 (map type_code args) = Some vs" "length vs = length args"
      "\<forall>k < length args. vs ! k = (if type_code (args ! k) = CHR ''f'' then take_bit 32 (double_to_float fc (fp k))
         else if type_code (args ! k) = CHR ''d'' then fp k else win_word (type_code (args ! k)) (slots ! k))"
      using win_read_args_words [of "map type_code args" slots fc fp 0] slots by auto
    let ?vals = "vs @ replicate (SF_C_FALLBACK_MAX_ARGS - length args) 0"
    have send: "objc_msgSend_windows fc env cache receiver op slots fp =
        Some (call_direct_imp imp receiver' op' ?vals (map type_code args) (length args), cache')"
      using resolved c(1) vs(1) few False by (simp add: objc_msgSend_windows_def Let_def)
    have fl: "arg_codes_contain_float (take (length args) (map type_code args)) \<longleftrightarrow> (\<exists>a \<in> set args. is_float_code (type_code a))"
      by (auto simp: arg_codes_contain_float_def list_ex_iff)
    have words: "vs = map2 (\<lambda>a w. win_word (type_code a) w) args slots" if "\<forall>a \<in> set args. \<not> is_float_code (type_code a)"
      using vs(2,3) that slots by (intro nth_equalityI) (auto simp: is_float_code_def)
    show ?thesis
    proof (cases "\<exists>a \<in> set args. is_float_code (type_code a)")
      case False
      have "call_direct_imp imp receiver' op' ?vals (map type_code args) (length args) =
          Call imp receiver' op' (map2 (\<lambda>a w. WordArg (win_word (type_code a) w)) args slots)"
        using False fl few(2) words vs(2) by (simp add: call_direct_imp_def call_word_imp_def comp_def split_def)
      then show ?thesis
        using send c(2) False \<open>\<not> 4 < length args\<close> by (intro exI [of _ cache']) auto
    next
      case True
      show ?thesis
      proof (cases "length args = 1")
        case one: True
        then obtain a where a: "args = [a]" by (cases args) auto
        have "type_code a = CHR ''f'' \<or> type_code a = CHR ''d''"
          using True by (simp add: a is_float_code_def)
        then have "call_direct_imp imp receiver' op' ?vals (map type_code args) (length args) =
            Call imp receiver' op' [if type_code a = CHR ''f'' then FloatArg (take_bit 32 (double_to_float fc (fp 0))) else DoubleArg (fp 0)]"
          using vs(2,3) True fl by (cases vs) (auto simp: call_direct_imp_def a)
        then show ?thesis
          using send c(2) True a by (intro exI [of _ cache']) auto
      next
        case many: False
        have "call_direct_imp imp receiver' op' ?vals (map type_code args) (length args) = NoCall"
          using True many fl by (simp add: call_direct_imp_def)
        then show ?thesis
          using send c(2) True many by (intro exI [of _ cache']) auto
      qed
    qed
  qed
qed

lemma demo_send_types: "sf_selector_types (d_sels demo_send_env) 0x20 =
    Some (method_encoding (Scalar TObject) 20 [(Scalar TObject, 0), (Scalar TSel, 8), (Scalar TInt, 16)])"
proof -
  have "decimal 20 = ''20''" "decimal 0 = ''0''" "decimal 8 = ''8''" "decimal 16 = ''16''" by code_simp+
  then show ?thesis by (simp add: demo_send_env_def demo_slot_facts method_encoding_def)
qed

theorem windows_messages_witness:
  "\<exists>cache'. objc_msgSend_windows demo_fc demo_send_env zero_sig_cache 0x1000 0x20 [42] (\<lambda>_. 0)
     = Some (Call 0xB0 0x1000 0x20 [WordArg 42], cache')"
proof -
  have sv: "signed_take_bit 31 (42 :: u64) = 42" by code_simp
  have c: "sig_cache_ok (d_sels demo_send_env) {0x20} zero_sig_cache" "sf_selector_slot (d_sels demo_send_env) 0x20 \<noteq> 0"
    by (simp_all add: sig_cache_ok_def zero_sig_cache_def SF_C_SIG_CACHE_SIZE_def demo_send_env_def demo_slot_facts)
  show ?thesis
    using windows_messages [OF demo_resolve demo_send_types, of "{0x20}" zero_sig_cache "[42]" demo_fc "\<lambda>_. 0"] c
    by (auto simp: type_code_def is_float_code_def win_word_def sv)
qed

end
