(* ===== verification/SF_Probe.thy ===== *)
theory SF_Probe
  imports SF_Objects
begin

unbundle bit_operations_syntax

text \<open>
  Recognising an object without the table of live headers (\<open>Runtime/src/loader.c\<close> in the builds with
  \<open>SF_RUNTIME_VALIDATION = 0\<close>, without inline value storage and without AddressSanitizer): the bytes before the object
  are read as a header and judged by their contents.  The header has no magic number and no link in these builds, so it is 16 bytes
  shorter.
\<close>

definition sizeof_plain_header :: u64 where "sizeof_plain_header = 56"

definition sf_runtime_region_is_readable :: "addr \<Rightarrow> u64 \<Rightarrow> bool" where
  "sf_runtime_region_is_readable ptr n = True"

definition sf_header_fast_matches_live_object :: "objects \<Rightarrow> addr \<Rightarrow> u64 \<Rightarrow> bool option" where
  "sf_header_fast_matches_live_object st hdr minimum_alloc =
     (if hdr = nullptr then Some False
      else do {
        h \<leftarrow> o_hdrs st hdr;
        Some (if \<not> sf_header_has_live_cookie (Some h) \<or> state h \<noteq> SF_OBJ_STATE_LIVE then False
              else if ucast (alloc_size h) < minimum_alloc then False
              else (ucast (alloc_size h) :: u64) AND 7 = 0)
      })"

definition sf_header_matches_object_layout :: "loader \<Rightarrow> objects \<Rightarrow> addr \<Rightarrow> addr \<Rightarrow> bool option" where
  "sf_header_matches_object_layout ld st hdr obj =
     (if hdr = nullptr \<or> obj = nullptr then Some False
      else do {
        h \<leftarrow> o_hdrs st hdr;
        if state h \<noteq> SF_OBJ_STATE_LIVE then Some False
        else do {
          cls \<leftarrow> o_words st obj;
          Some (if cls = nullptr then False
                else if ucast (alloc_size h) < sizeof_plain_header + sf_class_instance_size_fast (l_classes ld cls) then False
                else (ucast (alloc_size h) :: u64) AND 7 = 0)
        }
      })"

definition sf_heap_header_from_object_fast :: "objects \<Rightarrow> addr \<Rightarrow> addr option" where
  "sf_heap_header_from_object_fast st obj =
     (let hdr = obj - sizeof_plain_header in
      if \<not> sf_runtime_region_is_readable hdr sizeof_plain_header then Some nullptr
      else map_option (\<lambda>b. if b then hdr else nullptr)
             (sf_header_fast_matches_live_object st hdr (sizeof_plain_header + 8)))"

definition probe_header_from_object :: "loader \<Rightarrow> objects \<Rightarrow> addr \<Rightarrow> addr option" where
  "probe_header_from_object ld st obj =
     (if obj = nullptr \<or> sf_is_tagged_pointer obj then Some nullptr
      else do {
        hdr \<leftarrow> sf_heap_header_from_object_fast st obj;
        if hdr \<noteq> nullptr then Some hdr
        else do {
          cls \<leftarrow> o_words st obj;
          if cls = nullptr \<or> sf_class_is_constant_string ld cls then Some nullptr
          else do {
            let hdr = obj - sizeof_plain_header;
            b \<leftarrow> (if sf_runtime_region_is_readable hdr sizeof_plain_header then sf_header_matches_object_layout ld st hdr obj
                 else Some False);
            Some (if b then hdr else nullptr)
          }
        }
      })"

section \<open>What is recognised\<close>

lemma unat_widen: "unat (ucast (n :: u32) :: u64) = unat n"
proof -
  have "unat n < 2 ^ LENGTH(32)"
    by (rule unsigned_less)
  then show ?thesis
    by (simp add: unsigned_ucast_eq take_bit_nat_eq_self)
qed

lemma size_and_7: "(ucast (n :: u32) :: u64) AND 7 = 0 \<longleftrightarrow> 8 dvd unat n"
proof -
  have "(ucast n :: u64) AND 7 = 0 \<longleftrightarrow> unat ((ucast n :: u64) AND mask 3) = 0"
    by (simp only: unat_eq_0) (simp add: mask_eq_exp_minus_1)
  also have "\<dots> \<longleftrightarrow> unat (ucast n :: u64) mod 8 = 0"
    by (simp add: unat_and_mask)
  also have "unat (ucast n :: u64) = unat n"
    by (rule unat_widen)
  finally show ?thesis by (simp add: dvd_eq_mod_eq_0)
qed

text \<open>A header as the runtime keeps it: while it says that its object lives it has the cookie and a size that covers the
  header and the class pointer.\<close>

definition honest_header :: "SFObjHeader \<Rightarrow> bool" where
  "honest_header h \<longleftrightarrow> (state h = SF_OBJ_STATE_LIVE \<longrightarrow> sf_header_has_live_cookie (Some h) \<and> 64 \<le> unat (alloc_size h))"

lemma initial_header_honest:
  assumes "64 \<le> unat n" "unat n < 2 ^ 32"
  shows "\<exists>h. initial_header n a class_flags = Some h \<and> state h = SF_OBJ_STATE_LIVE \<and> honest_header h
     \<and> unat (alloc_size h) = unat n"
proof -
  have u: "unat (ucast n :: u32) = unat n"
    using assms(2) by (simp add: unsigned_ucast_eq take_bit_nat_eq_self)
  let ?h = "sf_header_set_live_cookie (sf_header_set_aux_flags (sf_header_set_class_flags
          (Some (zero_header\<lparr>magic := SF_OBJ_HEADER_MAGIC, live_next := nullptr, refcount := 1,
             state := SF_OBJ_STATE_LIVE, flags := SF_OBJ_FLAG_NONE, alloc_size := ucast n\<rparr>)) class_flags) 0)"
  obtain h where h: "?h = Some h" "state h = SF_OBJ_STATE_LIVE" "alloc_size h = ucast n"
    by (simp add: sf_header_set_live_cookie_def sf_header_set_aux_flags_def sf_header_set_class_flags_def)
  have "sf_header_has_live_cookie ?h"
    by (simp add: sf_header_set_aux_flags_def sf_header_set_class_flags_def cookie_field_set)
  then have "sf_header_has_live_cookie (Some h)"
    by (simp add: h(1))
  moreover have "sf_header_has_live_cookie (Some (h\<lparr>allocator := a\<rparr>)) = sf_header_has_live_cookie (Some h)"
    by (simp add: sf_header_has_live_cookie_def)
  ultimately show ?thesis
    using assms h(2,3) u by (intro exI [of _ "h\<lparr>allocator := a\<rparr>"]) (simp add: initial_header_def h(1) honest_header_def)
qed

text \<open>C25: Without validation an object is recognised by the bytes before it exactly when they hold a header that says the
  object lives and whose size is a multiple of eight: a live object of any other size is taken for something that is not on the heap, and a
  disposed one is not recognised.\<close>

theorem probe_recognises:
  assumes "o_hdrs st (obj - sizeof_plain_header) = Some h" "honest_header h" "o_words st obj \<noteq> None"
    and "obj \<noteq> nullptr" "\<not> sf_is_tagged_pointer obj" "obj \<noteq> sizeof_plain_header"
  shows "probe_header_from_object ld st obj =
    Some (if state h = SF_OBJ_STATE_LIVE \<and> 8 dvd unat (alloc_size h) then obj - sizeof_plain_header else nullptr)"
proof -
  let ?hdr = "obj - sizeof_plain_header"
  have hdr: "?hdr \<noteq> nullptr"
    using assms(6) by simp
  have "unat (ucast (alloc_size h) :: u64) = unat (alloc_size h)"
    by (rule unat_widen)
  then have min: "\<not> ucast (alloc_size h) < sizeof_plain_header + 8" if "64 \<le> unat (alloc_size h)"
    using that by (simp add: word_less_nat_alt sizeof_plain_header_def)
  have fast: "sf_heap_header_from_object_fast st obj =
      Some (if state h = SF_OBJ_STATE_LIVE \<and> 8 dvd unat (alloc_size h) then ?hdr else nullptr)"
    using assms(1,2) hdr min
    by (auto simp: sf_heap_header_from_object_fast_def sf_runtime_region_is_readable_def Let_def
        sf_header_fast_matches_live_object_def size_and_7 honest_header_def)
  have slow: "sf_header_matches_object_layout ld st ?hdr obj = Some False"
    if "\<not> (state h = SF_OBJ_STATE_LIVE \<and> 8 dvd unat (alloc_size h))"
    using assms(1,3,4) hdr that by (auto simp: sf_header_matches_object_layout_def size_and_7)
  show ?thesis
    using assms(3-5) fast slow hdr by (auto simp: probe_header_from_object_def sf_runtime_region_is_readable_def Let_def)
qed

text \<open>An object with a pointer-sized and a 32-bit instance variable, allocated as 68 bytes.\<close>

definition demo_probe :: "objects \<Rightarrow> u64 \<Rightarrow> objects" where
  "demo_probe st n = st\<lparr>o_hdrs := [0x1000 \<mapsto> the (initial_header n 0x50 0)], o_words := [0x1038 \<mapsto> 0x200]\<rparr>"

theorem probe_recognises_witness:
  "\<forall>ld st. probe_header_from_object ld (demo_probe st 68) 0x1038 = Some nullptr
     \<and> probe_header_from_object ld (demo_probe st 72) 0x1038 = Some 0x1000"
proof (intro allI conjI)
  fix ld st
  have facts: "0x1038 - sizeof_plain_header = (0x1000 :: addr)" "\<not> sf_is_tagged_pointer 0x1038" "(0x1038 :: addr) \<noteq> sizeof_plain_header"
    by (simp_all add: sizeof_plain_header_def sf_is_tagged_pointer_def SF_TAGGED_POINTER_SLOT_MASK_def)
  have hdr: "o_hdrs (demo_probe st n) (0x1038 - sizeof_plain_header) = Some (the (initial_header n 0x50 0))"
    "o_words (demo_probe st n) 0x1038 \<noteq> None" for n
    unfolding facts(1) by (simp_all add: demo_probe_def)
  obtain h1 where h1: "initial_header 68 0x50 0 = Some h1" "state h1 = SF_OBJ_STATE_LIVE" "honest_header h1" "unat (alloc_size h1) = unat (68 :: u64)"
    using initial_header_honest [of 68 "0x50" 0] by auto
  obtain h2 where h2: "initial_header 72 0x50 0 = Some h2" "state h2 = SF_OBJ_STATE_LIVE" "honest_header h2" "unat (alloc_size h2) = unat (72 :: u64)"
    using initial_header_honest [of 72 "0x50" 0] by auto
  show "probe_header_from_object ld (demo_probe st 68) 0x1038 = Some nullptr"
    using probe_recognises [OF hdr(1) [of 68] _ hdr(2)] facts h1 by simp
  show "probe_header_from_object ld (demo_probe st 72) 0x1038 = Some 0x1000"
    using probe_recognises [OF hdr(1) [of 72] _ hdr(2)] facts h2 by simp
qed

end
