(* ===== verification/SF_Probe_Inline.thy ===== *)
theory SF_Probe_Inline
  imports SF_Inline SF_Probe
begin

unbundle bit_operations_syntax

text \<open>
  Recognising an object without the table of live headers where there are inline values (\<open>Runtime/src/loader.c\<close> with compact
  headers, inline value storage and \<open>SF_RUNTIME_VALIDATION = 0\<close>): the last word before an object is read as the tagged
  parent of an inline header.  With generic metadata (\<open>gen\<close>) the last word of such a header is the generic class.
  The headers have no magic number in these builds.
\<close>

section \<open>Headers by their bytes\<close>

definition bare_compact_header :: u64 where "bare_compact_header = 40"

definition bare_inline_header :: "bool \<Rightarrow> u64" where
  "bare_inline_header gen = (if gen then 40 else 32)"

text \<open>The fields that both kinds of headers have at the same place: state, flags and size.\<close>

definition prefix_fields :: "inline_mem \<Rightarrow> addr \<Rightarrow> (u32 \<times> u32 \<times> u32) option" where
  "prefix_fields st hdr = (case im_values st hdr of Some h \<Rightarrow> Some (ih_state h, ih_flags h, ih_alloc_size h)
     | None \<Rightarrow> map_option (\<lambda>h. (ch_state h, ch_flags h, ch_alloc_size h)) (cm_hdrs (im_hdrs st) hdr))"

definition word_before :: "bool \<Rightarrow> inline_mem \<Rightarrow> addr \<Rightarrow> u64 option" where
  "word_before gen st obj = (case im_values st (obj - bare_inline_header gen) of
       Some h \<Rightarrow> Some (if gen then ih_generic_type_class h else ih_tagged_parent h)
     | None \<Rightarrow> map_option ch_cold (cm_hdrs (im_hdrs st) (obj - bare_compact_header)))"

definition live_cookie :: "u32 \<Rightarrow> bool" where
  "live_cookie f \<longleftrightarrow> drop_bit 16 (f AND SF_OBJ_COOKIE_MASK) = SF_OBJ_HEADER_COOKIE_LIVE"

definition prefix_matches_live_object :: "inline_mem \<Rightarrow> addr \<Rightarrow> u64 \<Rightarrow> bool option" where
  "prefix_matches_live_object st hdr minimum_alloc =
     (if hdr = nullptr then Some False
      else map_option (\<lambda>(s, f, n). live_cookie f \<and> s = SF_OBJ_STATE_LIVE \<and> \<not> ucast n < minimum_alloc \<and> (ucast n :: u64) AND 7 = 0)
        (prefix_fields st hdr))"

definition sf_inline_header_from_object_fast :: "bool \<Rightarrow> inline_mem \<Rightarrow> addr \<Rightarrow> addr option" where
  "sf_inline_header_from_object_fast gen st obj = do {
     tagged_parent \<leftarrow> word_before gen st obj;
     if tagged_parent AND 1 = 0 then Some nullptr
     else do {
       let hdr = obj - bare_inline_header gen;
       (_, f, _) \<leftarrow> prefix_fields st hdr;
       if f AND SF_OBJ_FLAG_INLINE_VALUE = 0 then Some nullptr
       else map_option (\<lambda>b. if b then hdr else nullptr) (prefix_matches_live_object st hdr (bare_inline_header gen + 8))
     }
   }"

definition inline_matches_object_layout :: "bool \<Rightarrow> loader \<Rightarrow> inline_mem \<Rightarrow> addr \<Rightarrow> addr \<Rightarrow> bool option" where
  "inline_matches_object_layout gen ld st hdr obj =
     (if hdr = nullptr \<or> obj = nullptr then Some False
      else do {
        (s, f, n) \<leftarrow> prefix_fields st hdr;
        if s \<noteq> SF_OBJ_STATE_LIVE then Some False
        else do {
          cls \<leftarrow> im_words st obj;
          let header_size = (if f AND SF_OBJ_FLAG_INLINE_VALUE \<noteq> 0 then bare_inline_header gen else bare_compact_header);
          Some (cls \<noteq> nullptr \<and> \<not> ucast n < header_size + sf_class_instance_size_fast (l_classes ld cls) \<and> (ucast n :: u64) AND 7 = 0)
        }
      })"

definition inline_probe_header_from_object :: "bool \<Rightarrow> loader \<Rightarrow> inline_mem \<Rightarrow> addr \<Rightarrow> addr option" where
  "inline_probe_header_from_object gen ld st obj =
     (if obj = nullptr \<or> sf_is_tagged_pointer obj then Some nullptr
      else do {
        hdr \<leftarrow> sf_inline_header_from_object_fast gen st obj;
        if hdr \<noteq> nullptr then Some hdr
        else do {
          let hdr = obj - bare_compact_header;
          fast \<leftarrow> prefix_matches_live_object st hdr (bare_compact_header + 8);
          if fast then Some hdr
          else do {
            cls \<leftarrow> im_words st obj;
            if cls = nullptr \<or> sf_class_is_constant_string ld cls then Some nullptr
            else do {
              tagged_parent \<leftarrow> word_before gen st obj;
              let inline_hdr = obj - bare_inline_header gen;
              inline \<leftarrow> (if tagged_parent AND 1 = 0 then Some False
                   else do {
                     (s, f, _) \<leftarrow> prefix_fields st inline_hdr;
                     if s = SF_OBJ_STATE_LIVE \<and> f AND SF_OBJ_FLAG_INLINE_VALUE \<noteq> 0
                     then inline_matches_object_layout gen ld st inline_hdr obj else Some False
                   });
              if inline then Some inline_hdr
              else map_option (\<lambda>b. if b then hdr else nullptr) (inline_matches_object_layout gen ld st hdr obj)
            }
          }
        }
      })"

section \<open>What is recognised\<close>

text \<open>The header that a value object gets has a live cookie.\<close>

lemma initial_value_cookie: "live_cookie (ih_flags (initial_inline_header slot oflags par))"
proof -
  have "drop_bit 16 (((f :: u32) AND NOT SF_OBJ_COOKIE_MASK OR push_bit 16 SF_OBJ_HEADER_COOKIE_LIVE) AND SF_OBJ_COOKIE_MASK)
      = SF_OBJ_HEADER_COOKIE_LIVE" for f
    by (rule bit_word_eqI) (auto simp: flag_masks(3) bit_simps dest: cookie_live_bit)
  then show ?thesis
    by (simp only: live_cookie_def initial_inline_header_def SFInlineValueHeader.select_convs)
qed

lemma size_not_less: "n + 8 \<le> unat s \<Longrightarrow> unat m = n + 8 \<Longrightarrow> \<not> ucast (s :: u32) < (m :: u64)"
  by (simp add: word_less_nat_alt unat_widen)

text \<open>
  A live value is found by the bytes before it: by its tag, or, where the word before it is its generic class, because
  both kinds of headers are of one size then.
\<close>

theorem inline_value_recognised:
  assumes h: "im_values st hdr = Some h" "ih_state h = SF_OBJ_STATE_LIVE" "live_cookie (ih_flags h)" "ih_flags h AND SF_OBJ_FLAG_INLINE_VALUE \<noteq> 0"
    and size: "unat (bare_inline_header gen) + 8 \<le> unat (ih_alloc_size h)" "8 dvd unat (ih_alloc_size h)"
    and words: "ih_tagged_parent h AND 1 \<noteq> 0" "ih_generic_type_class h AND 1 = 0"
    and obj: "obj = hdr + bare_inline_header gen" "obj \<noteq> nullptr" "\<not> sf_is_tagged_pointer obj" "hdr \<noteq> nullptr"
  shows "inline_probe_header_from_object gen ld st obj = Some hdr"
proof -
  have fields: "prefix_fields st hdr = Some (SF_OBJ_STATE_LIVE, ih_flags h, ih_alloc_size h)"
    using h by (simp add: prefix_fields_def)
  have min: "\<not> ucast (ih_alloc_size h) < bare_inline_header gen + 8"
    by (rule size_not_less [OF size(1)]) (simp add: bare_inline_header_def)
  then have matches: "prefix_matches_live_object st hdr (bare_inline_header gen + 8) = Some True"
    using h(3) size(2) obj(4) fields by (simp add: prefix_matches_live_object_def size_and_7)
  have here: "obj - bare_inline_header gen = hdr"
    by (simp add: obj(1))
  have before: "word_before gen st obj = Some (if gen then ih_generic_type_class h else ih_tagged_parent h)"
    by (simp add: word_before_def here h(1))
  show ?thesis
  proof (cases gen)
    case False
    then have "sf_inline_header_from_object_fast gen st obj = Some hdr"
      using before words(1) fields h(4) matches here by (simp add: sf_inline_header_from_object_fast_def)
    then show ?thesis
      using obj by (simp add: inline_probe_header_from_object_def)
  next
    case True
    then have "sf_inline_header_from_object_fast gen st obj = Some nullptr"
      using before words(2) by (simp add: sf_inline_header_from_object_fast_def)
    moreover have "bare_compact_header = bare_inline_header gen"
      using True by (simp add: bare_compact_header_def bare_inline_header_def)
    ultimately show ?thesis
      using obj(2,3) matches here by (simp add: inline_probe_header_from_object_def)
  qed
qed

theorem inline_ordinary_recognised:
  assumes h: "cm_hdrs (im_hdrs st) hdr = Some h" "ch_state h = SF_OBJ_STATE_LIVE" "live_cookie (ch_flags h)" "ch_cold h AND 1 = 0"
    and size: "48 \<le> unat (ch_alloc_size h)" "8 dvd unat (ch_alloc_size h)"
    and none: "im_values st hdr = None" "im_values st (obj - bare_inline_header gen) = None"
    and obj: "obj = hdr + bare_compact_header" "obj \<noteq> nullptr" "\<not> sf_is_tagged_pointer obj" "hdr \<noteq> nullptr"
  shows "inline_probe_header_from_object gen ld st obj = Some hdr"
proof -
  have here: "obj - bare_compact_header = hdr"
    by (simp add: obj(1))
  have "\<not> ucast (ch_alloc_size h) < bare_compact_header + 8"
    by (rule size_not_less [of 40]) (simp_all add: size(1) bare_compact_header_def)
  then have "prefix_matches_live_object st hdr (bare_compact_header + 8) = Some True"
    using h none(1) size(2) obj(4) by (simp add: prefix_matches_live_object_def prefix_fields_def size_and_7)
  moreover have "sf_inline_header_from_object_fast gen st obj = Some nullptr"
    using h(1,4) none(2) here by (simp add: sf_inline_header_from_object_fast_def word_before_def)
  ultimately show ?thesis
    using obj(2,3) here by (simp add: inline_probe_header_from_object_def)
qed

end
