(* ===== verification/Spec2Isabelle.thy ===== *)
theory Spec2Isabelle
  imports SF_Children SF_Pool SF_Lsda SF_Allocator SF_Send SF_Helpers SF_Compact SF_Inline SF_Separate
    SF_Threads SF_Windows SF_Probe_Inline
begin

text \<open>
  SmallFW's Objective-C runtime (\<open>src/Runtime/src/\<close>, C), modelled and verified.

  A compiler translates Objective-C to calls of this runtime.  At start-up each module hands over its classes
  and selectors (\<open>__objc_load\<close>); afterwards the program sends messages, allocates, retains and releases
  objects, pushes and pops autorelease pools, and throws exceptions.  The runtime is linked statically, so one
  global state is shared by all of it.

  \<^bold>\<open>Configuration.\<close>  LP64 Linux, \<open>SF_RUNTIME_COMPACT_HEADERS = 0\<close>, \<open>SF_RUNTIME_VALIDATION = 1\<close>,
  \<open>SF_RUNTIME_THREADSAFE = 0\<close>, \<open>SF_RUNTIME_GENERIC_METADATA = 0\<close>, \<open>SF_RUNTIME_EXCEPTIONS = 1\<close>,
  \<open>SF_RUNTIME_INLINE_VALUE_STORAGE = 0\<close>, with tagged pointers and forwarding.  Seven theories look at other builds:
  \<open>SF_Compact\<close>, \<open>SF_Separate\<close> and \<open>SF_Inline\<close> (compact headers, with the groups inline or separate, and with inline
  value storage and generic metadata), \<open>SF_Threads\<close> (several threads), \<open>SF_Windows\<close> (no libffi) and \<open>SF_Probe\<close> and \<open>SF_Probe_Inline\<close>
  (no validation).

  \<^bold>\<open>Theories and sources.\<close>  The definitions of a theory have the names of the C functions; a loop or a branch
  of a long function has a name of its own.

  \<^descr> \<open>SF_Prelude\<close>: the machine integers, named collections of facts, generic lemmas.
  \<^descr> \<open>SF_Abi\<close> (\<open>abi.h\<close>): the object header and its packed word of flags.  The fields do not disturb each
    other.
  \<^descr> \<open>SF_Hash\<close>, \<open>SF_Tables\<close>, \<open>SF_Chains\<close> (\<open>loader.c\<close>): the hash functions, and the two disciplines
    the tables follow, as the locales \<open>open_addressing\<close> and \<open>bucket_table\<close>.  The class map, the metadata
    table, the value slot map and the set of classes laid out interpret the first, the selector table and the
    table of live headers the second.
  \<^descr> \<open>SF_Registry\<close>, \<open>SF_Classes\<close>, \<open>SF_Tagged\<close> (\<open>loader.c\<close>): classes by name, what reads class
    structures, tagged pointers and the slots that classes claim for them.
  \<^descr> \<open>SF_Selectors\<close> (\<open>loader.c\<close>): interning, and the frozen selectors with their slots, rebuilt at every
    load.  A selector's slot numbers its name faithfully.
  \<^descr> \<open>SF_Dispatch\<close> (\<open>dispatch/dispatch.c\<close>, \<open>loader.c\<close>): dispatch tables, method lookup, forwarding.
    The specification is the walk up the method lists; the tables are shown to be transparent and the
    building of tables to keep that.
  \<^descr> \<open>SF_Signature\<close>, \<open>SF_Encode\<close> (\<open>dispatch/dispatch-c.c\<close>): the scanner of type encodings, and the grammar
    of the encodings with the C layout of each type, which the scanner computes.
  \<^descr> \<open>SF_Calls\<close>, \<open>SF_Send\<close> (\<open>dispatch/dispatch-c.c\<close>): what the encoding of a method says of each argument, the
    cache of that by selector, and \<open>objc_msgSend\<close> itself: resolution, the reading of the variable arguments, and the
    call, direct or through libffi, in which every argument the caller placed by the System V ABI arrives.
  \<^descr> \<open>SF_Windows\<close> (\<open>dispatch/dispatch-c.c\<close>): the same message send in the build for Windows, which has no libffi and
    reaches only some signatures.
  \<^descr> \<open>SF_Header\<close> (\<open>object-header.c\<close>): headers in memory and their accessors, group state included.
  \<^descr> \<open>SF_Layout\<close>, \<open>SF_Load\<close> (\<open>loader.c\<close>): the layout of classes with embedded value objects, the cached
    metadata of a class, \<open>sf_finalize_registered_classes\<close> and \<open>__objc_load\<close>, which compose the registry,
    the selector table, the layout, the dispatch tables and the metadata.
  \<^descr> \<open>SF_Objects\<close>, \<open>SF_Live\<close> (\<open>loader.c\<close>): the three ways to allocate an object, and the table of live
    headers, a linked structure that refines a \<open>bucket_table\<close>.
  \<^descr> \<open>SF_Probe\<close>, \<open>SF_Probe_Inline\<close> (\<open>loader.c\<close>): how the builds without validation, which have no such table, tell an
    object by the bytes before it, with two layouts of the header.
  \<^descr> \<open>SF_Runtime\<close>, \<open>SF_Arc\<close>, \<open>SF_Refcount\<close> (\<open>arc.c\<close>): the state of the whole runtime; retain, release,
    teardown and disposal; what they do to counts, and that the shortcuts for the object last looked up are
    not observable.
  \<^descr> \<open>SF_Groups\<close>, \<open>SF_Children\<close> (\<open>arc.c\<close>, \<open>loader.c\<close>): a member of a group outlives its last reference
    until the group ends; objects allocated with a parent form such groups.
  \<^descr> \<open>SF_Pool\<close> (\<open>arc.c\<close>): autorelease pools, which implement a stack of pools.
  \<^descr> \<open>SF_Exceptions\<close>, \<open>SF_Leb\<close>, \<open>SF_Lsda\<close> (\<open>exceptions/exceptions.c\<close>): the records of thrown objects
    and the stack of running handlers; the readers of DWARF values; the search of a frame's tables for a
    handler, and the personality function, which enters the landing pad these tables choose.
  \<^descr> \<open>SF_Allocator\<close> (\<open>allocator.c\<close>): the default allocator on memory made of bytes.  Over all
    sequences of requests, writes and releases its blocks stay apart and the small ones come zeroed, which the
    initialisation of objects in \<open>SF_Objects\<close> takes for granted.
  \<^descr> \<open>SF_Compact\<close> (\<open>object-header.c\<close>, \<open>loader.c\<close>): the other layout of the header,
    \<open>SF_RUNTIME_COMPACT_HEADERS = 1\<close> and \<open>SF_RUNTIME_INLINE_GROUP_STATE = 1\<close>, where the parent, the allocator, the
    group and the link of the live table are in a cold state allocated on the first store.  It refines the flat layout as
    long as the allocations of cold states succeed or the caller looks at the result; registration in the live table does
    not look.  The locale \<open>field_store\<close> is the contract of an accessor pair.
  \<^descr> \<open>SF_Separate\<close> (\<open>object-header.c\<close>): compact headers whose groups have a structure of their own.  The memory stays
    typed: every root and group pointer leads to what it should, no group is lost, and no operation faults; except that
    two threads can start a group at the same root.
  \<^descr> \<open>SF_Inline\<close> (\<open>object-header.c\<close>, \<open>loader.c\<close>, \<open>arc.c\<close>): value objects with a header of their own kind, which names
    the parent, and the accessors that tell both kinds apart by a tag; generic classes of objects.  A value object is
    allocated as it should be, but disposing of it clears the tag too early.
  \<^descr> \<open>SF_Threads\<close> (\<open>arc.c\<close>): atomic retains and releases of one object as steps of several threads, with the
    invariant of the references they hold.
  \<^descr> \<open>SF_Helpers\<close> (\<open>helpers.c\<close>, \<open>testhooks.c\<close>): \<open>objc_alloc\<close> and its relatives, and the counter that makes
    allocations fail in tests.

  \<^bold>\<open>Conventions.\<close>  Addresses and \<open>size_t\<close> are 64-bit words, with wrap-around.  Memory is typed or made of bytes, by
  theory, and partial: \<open>None\<close> as the result of an operation is a fault, \<open>abort()\<close>, or a loop that does not
  end.  Code outside the repository is a parameter: method implementations, blocks and the unwinder are the
  fields of \<open>runtime_env\<close>; the results of the coming allocations are a list of addresses, null for a failure,
  so that every out-of-memory path is a branch of the model.

  \<^bold>\<open>Bounds and fuel.\<close>  Tables have the capacities of the code and drop what does not fit.  A walk along a
  chain in memory is a \<open>partial_function\<close> or has as fuel the number of cells there are, and that it returns on
  well-formed chains is proved where it is used.  The layout of a class recurses at most
  \<open>SF_CLASS_MAP_CAPACITY + 1\<close> deep, because the stack of active classes cuts it off
  (\<open>fix_layout_returns\<close>).  The parser of encodings has the length of its input as fuel, which is enough
  (\<open>parse_layout_total\<close>).

  \<^bold>\<open>Not modelled.\<close>  Locks (they are empty in the single-threaded build) and, of the builds with threads, all but the count of
  references and the start of a group; retain, release and pools on compact headers;
  the unwinder; the block runtime (\<open>Blocks/\<close>, vendored); the call itself in a message
  send (libffi, machine code); \<open>dispatch-x86-64.asm\<close>; the encodings parsed lazily for
  reflection (\<open>encoding.m\<close>); the compiler plugin; a \<open>dealloc\<close> method that throws.
\<close>

end
